(* ===== verification/Prelude.thy ===== *)
theory Prelude
  imports "HOL-Library.Word"
begin

text \<open>
  Shared vocabulary of the development: the machine integers of the C code, arrays as
  lists, pointers into arrays as suffixes, the counting \<open>for\<close> loop, and the arithmetic of
  words read as natural numbers.

  A C buffer is the list of its elements and \<open>p + n\<close> is the suffix \<open>drop n\<close> of the list
  \<open>p\<close> points to.  A function that writes through a pointer maps the old suffix to the new
  one; the caller puts it back with \<open>at_ptr\<close>.  The C functions require their arguments to
  be live, disjoint (unless said otherwise) and long enough; these are the length
  hypotheses of the theorems.
\<close>

unbundle bit_operations_syntax

type_synonym u8 = "8 word"
type_synonym u32 = "32 word"
type_synonym u64 = "64 word"
type_synonym u128 = "128 word"
type_synonym bytes = "u8 list"

named_theorems word_nat "word operations read as natural numbers"
named_theorems buf "arrays, pointers and loops over them"

section \<open>Arrays, pointers and loops\<close>

text \<open>\<open>for (i = lo; i < hi; i++) body\<close>, the state being what the body assigns.\<close>

definition for_loop :: "nat \<Rightarrow> nat \<Rightarrow> (nat \<Rightarrow> 's \<Rightarrow> 's) \<Rightarrow> 's \<Rightarrow> 's" where
  "for_loop lo hi body s = fold body [lo..<hi] s"

text \<open>A call that receives the pointer \<open>b + off\<close> and writes through it.\<close>

definition at_ptr :: "nat \<Rightarrow> ('a list \<Rightarrow> 'a list) \<Rightarrow> 'a list \<Rightarrow> 'a list" where
  "at_ptr off f b = take off b @ f (drop off b)"

text \<open>The same for a callee that also changes a second object \<open>s\<close>.\<close>

definition at_ptr_st :: "nat \<Rightarrow> ('a list \<Rightarrow> 's \<Rightarrow> 'a list \<times> 's) \<Rightarrow> 'a list \<times> 's \<Rightarrow> 'a list \<times> 's" where
  "at_ptr_st off f = (\<lambda>(b, s). let (p, s') = f (drop off b) s in (take off b @ p, s'))"

definition memcpy :: "'a list \<Rightarrow> 'a list \<Rightarrow> nat \<Rightarrow> 'a list" where
  "memcpy dst src n = take n src @ drop n dst"

text \<open>The 32-bit product \<open>a * i\<close> used as a pointer offset.\<close>

definition off32 :: "nat \<Rightarrow> nat \<Rightarrow> nat" where
  "off32 a i = unat ((word_of_nat a :: u32) * word_of_nat i)"

lemma off32_small [buf]: "a * i < 2 ^ 32 \<Longrightarrow> a < 2 ^ 32 \<Longrightarrow> i < 2 ^ 32 \<Longrightarrow> off32 a i = a * i"
  by (simp add: off32_def unat_word_ariths unat_of_nat)

lemma for_loop_empty [simp]: "hi \<le> lo \<Longrightarrow> for_loop lo hi body s = s"
  by (simp add: for_loop_def)

lemma for_loop_Suc: "lo \<le> hi \<Longrightarrow> for_loop lo (Suc hi) body s = body hi (for_loop lo hi body s)"
  by (simp add: for_loop_def)

lemma for_loop_first: "lo < hi \<Longrightarrow> for_loop lo hi body s = for_loop (Suc lo) hi body (body lo s)"
  by (simp add: for_loop_def upt_conv_Cons)

lemma for_loop_append:
  "lo \<le> mid \<Longrightarrow> mid \<le> hi \<Longrightarrow>
   for_loop lo hi body s = for_loop mid hi body (for_loop lo mid body s)"
proof -
  assume "lo \<le> mid" "mid \<le> hi"
  then have "[lo..<hi] = [lo..<mid] @ [mid..<hi]"
    by (metis le_add_diff_inverse upt_add_eq_append)
  then show ?thesis by (simp add: for_loop_def)
qed

lemma for_loop_inv:
  assumes "lo \<le> hi" and "P lo s"
    and "\<And>i s. lo \<le> i \<Longrightarrow> i < hi \<Longrightarrow> P i s \<Longrightarrow> P (Suc i) (body i s)"
  shows "P hi (for_loop lo hi body s)"
  using assms
proof (induction hi)
  case (Suc n)
  show ?case
  proof (cases "lo = Suc n")
    case False
    with Suc.prems(1) have "lo \<le> n" by simp
    then have "P n (for_loop lo n body s)"
      using Suc.IH Suc.prems(2,3) by simp
    then show ?thesis
      using Suc.prems(3) [of n] \<open>lo \<le> n\<close> by (simp add: for_loop_Suc)
  qed (use Suc.prems in simp)
qed simp

lemma for_loop_cong:
  assumes "\<And>i s. lo \<le> i \<Longrightarrow> i < hi \<Longrightarrow> f i s = g i s"
  shows "for_loop lo hi f s = for_loop lo hi g s"
proof -
  have "\<forall>i \<in> set is. lo \<le> i \<and> i < hi \<Longrightarrow> fold f is s = fold g is s" for "is" s
    using assms by (induction "is" arbitrary: s) auto
  then show ?thesis by (simp add: for_loop_def)
qed

text \<open>
  The element-wise loop \<open>a[i] = g(i, a[i])\<close> over the first \<open>n\<close> elements: with a \<open>g\<close>
  that ignores \<open>a[i]\<close> this is also the plain assignment loop.
\<close>

lemma for_loop_map:
  assumes "n \<le> length xs"
  shows "for_loop 0 n (\<lambda>i a. a[i := g i (a ! i)]) xs = map (\<lambda>i. g i (xs ! i)) [0..<n] @ drop n xs"
  using assms
proof (induction n)
  case (Suc n)
  then have n: "n < length xs" by simp
  have d: "drop n xs = xs ! n # drop (Suc n) xs"
    using n by (rule Cons_nth_drop_Suc [symmetric])
  from Suc n show ?case
    by (simp add: for_loop_Suc list_update_append nth_append d)
qed simp

lemma for_loop_assign:
  "n \<le> length xs \<Longrightarrow> for_loop 0 n (\<lambda>i a. a[i := f i]) xs = map f [0..<n] @ drop n xs"
  by (rule for_loop_map)

text \<open>Writing the blocks \<open>f 0, f 1, \<dots>\<close> of \<open>k\<close> elements one after another.\<close>

lemma length_concat_blocks:
  "(\<And>i. i < n \<Longrightarrow> length (f i) = k) \<Longrightarrow> length (concat (map f [0..<n])) = k * n"
  by (induction n) auto

lemma for_loop_blocks:
  assumes "\<And>i. i < n \<Longrightarrow> length (f i) = k" and "k * n \<le> length out"
  shows "for_loop 0 n (\<lambda>i b. at_ptr (k * i) (\<lambda>p. f i @ drop k p) b) out
         = concat (map f [0..<n]) @ drop (k * n) out"
  using assms
proof (induction n)
  case (Suc n)
  have len: "length (concat (map f [0..<n])) = k * n"
    using Suc.prems(1) by (intro length_concat_blocks) simp
  have "for_loop 0 n (\<lambda>i b. at_ptr (k * i) (\<lambda>p. f i @ drop k p) b) out
        = concat (map f [0..<n]) @ drop (k * n) out"
    using Suc by simp
  with len show ?case
    by (simp add: for_loop_Suc at_ptr_def add.commute)
qed simp

lemma length_at_ptr:
  "off \<le> length b \<Longrightarrow> length (f (drop off b)) = length b - off \<Longrightarrow> length (at_ptr off f b) = length b"
  by (simp add: at_ptr_def)

lemma at_ptr_st_pair:
  "at_ptr_st off f (b, s) = (take off b @ fst (f (drop off b) s), snd (f (drop off b) s))"
  by (simp add: at_ptr_st_def split_beta)

lemma length_memcpy [simp]:
  "n \<le> length src \<Longrightarrow> n \<le> length dst \<Longrightarrow> length (memcpy dst src n) = length dst"
  by (simp add: memcpy_def)

lemma memcpy_all: "length src = n \<Longrightarrow> length dst = n \<Longrightarrow> memcpy dst src n = src"
  by (simp add: memcpy_def)

text \<open>Lists of a known length, spelled out.\<close>

lemma list3E: "length xs = 3 \<Longrightarrow> (\<And>a b c. xs = [a, b, c] \<Longrightarrow> P) \<Longrightarrow> P"
  by (auto simp: numeral_eq_Suc length_Suc_conv)

lemma list5E: "length xs = 5 \<Longrightarrow> (\<And>a b c d e. xs = [a, b, c, d, e] \<Longrightarrow> P) \<Longrightarrow> P"
  by (auto simp: numeral_eq_Suc length_Suc_conv)

section \<open>Words as natural numbers\<close>

lemma unat_bound: "unat x < 2 ^ LENGTH('a)" for x :: "'a::len word"
  by (rule unsigned_less)

lemma word_of_nat_eqI: "unat x = n \<Longrightarrow> word_of_nat n = x" for x :: "'a::len word"
  using unat_bound [of x] by (auto intro: unsigned_word_eqI simp: unat_of_nat)

lemma word_unatI: "unat x = unat y \<Longrightarrow> x = y" for x y :: "'a::len word"
  by (rule unsigned_word_eqI)

lemma unat_plus [word_nat]:
  "unat a + unat b < 2 ^ LENGTH('a) \<Longrightarrow> unat (a + b) = unat a + unat b" for a b :: "'a::len word"
  by (simp add: unat_word_ariths)

lemma unat_times [word_nat]:
  "unat a * unat b < 2 ^ LENGTH('a) \<Longrightarrow> unat (a * b) = unat a * unat b" for a b :: "'a::len word"
  by (simp add: unat_word_ariths)

lemma unat_minus [word_nat]:
  "unat b \<le> unat a \<Longrightarrow> unat (a - b) = unat a - unat b" for a b :: "'a::len word"
  by (simp add: unat_sub word_le_nat_alt)

lemma unat_shr [word_nat]: "unat (drop_bit n a) = unat a div 2 ^ n" for a :: "'a::len word"
  by (subst unat_drop_bit_eq) (simp add: drop_bit_eq_div)

lemma unat_shl [word_nat]:
  "unat a * 2 ^ n < 2 ^ LENGTH('a) \<Longrightarrow> unat (push_bit n a) = unat a * 2 ^ n" for a :: "'a::len word"
  by (subst unsigned_push_bit_eq) (simp add: push_bit_eq_mult take_bit_eq_mod)

lemma unat_and_mask [word_nat]: "unat (a AND mask n) = unat a mod 2 ^ n" for a :: "'a::len word"
  by (simp flip: take_bit_eq_mask take_bit_eq_mod add: unsigned_take_bit_eq)

lemma unat_ucast_same_or_up [word_nat]:
  "LENGTH('a) \<le> LENGTH('b) \<Longrightarrow> unat (ucast a :: 'b::len word) = unat a" for a :: "'a::len word"
  by (simp add: unsigned_ucast_eq take_bit_nat_eq_self_iff)
     (metis less_le_trans one_le_numeral power_increasing unsigned_less)

lemma unat_ucast_down [word_nat]:
  "unat (ucast a :: 'b::len word) = unat a mod 2 ^ LENGTH('b)" for a :: "'a::len word"
  by (simp add: unsigned_ucast_eq take_bit_eq_mod)

text \<open>Joining two words that occupy different bits: \<open>hi << n | lo\<close>.\<close>

lemma take_bit_small: "unat l < 2 ^ n \<Longrightarrow> take_bit n l = l" for l :: "'a::len word"
  by (metis mod_less take_bit_eq_mod unsigned_take_bit_eq unsigned_word_eqI)

lemma or_eq_plus:
  assumes "unat l < 2 ^ n"
  shows "push_bit n h OR l = push_bit n h + (l :: 'a::len word)"
proof -
  have "push_bit n h AND take_bit n l = 0"
    by (rule bit_eqI) (auto simp: bit_and_iff bit_push_bit_iff bit_take_bit_iff)
  then have "push_bit n h AND l = 0" using take_bit_small [OF assms] by simp
  then show ?thesis by (simp add: disjunctive_add_eq_or)
qed

lemma unat_or_shift [word_nat]:
  assumes "unat l < 2 ^ n" and "unat h * 2 ^ n + unat l < 2 ^ LENGTH('a)"
  shows "unat (push_bit n h OR l) = unat h * 2 ^ n + unat (l :: 'a::len word)"
  using assms by (simp add: or_eq_plus unat_plus unat_shl)

text \<open>The rotation idiom of the ciphers and hashes.\<close>

lemma rotl_shifts:
  assumes "k < 32"
  shows "push_bit k a OR drop_bit (32 - k) a = word_rotl k (a::u32)"
proof (rule bit_word_eqI)
  fix n assume n: "n < LENGTH(32)"
  then have n32: "n < 32" by simp
  have m: "(n + (32 - k)) mod 32 = (if n < k then n + (32 - k) else n - k)"
    using n32 assms by (simp add: mod_if)
  have len: "LENGTH(32) = 32" by simp
  have k: "k mod 32 = k" using assms by simp
  have b: "bit a i \<Longrightarrow> i < 32" for i using bit_imp_le_length [of a i] by simp
  show "bit (push_bit k a OR drop_bit (32 - k) a) n = bit (word_rotl k a) n"
    unfolding bit_word_rotl_iff bit_or_iff bit_push_bit_iff bit_drop_bit_eq len k comp_def
    using n32 m assms b by (auto simp: bit_push_bit_iff ac_simps)
qed

lemma mod_div_scaled: "c * (m mod d) + (c * d) * (m div d) = c * (m::nat)"
  by (metis distrib_left mod_mult_div_eq mult.assoc)

lemma mult_lt_bound:
  "(a::nat) < x \<Longrightarrow> b < y \<Longrightarrow> x * y \<le> z \<Longrightarrow> a * b < z"
  by (meson le_less_trans less_imp_le less_le_trans mult_strict_mono' zero_le)

end
