(* ===== verification/Kremlib.thy ===== *)
theory Kremlib
  imports Prelude
begin

text \<open>
  The runtime headers \<open>kremlib_base.h\<close> and \<open>kremlib.h\<close>: the constant-time comparison masks,
  the little- and big-endian loads and stores, and the 128-bit operations in the
  configuration where \<open>FStar_UInt128_t\<close> is the compiler's \<open>unsigned __int128\<close>
  (the portable struct version of \<open>FStar.c\<close> is the theory \<open>UInt128\<close>).
\<close>

section \<open>Constant-time comparison masks\<close>

definition FStar_UInt8_eq_mask :: "u8 \<Rightarrow> u8 \<Rightarrow> u8" where
  "FStar_UInt8_eq_mask x0 y =
     (let x = NOT (x0 XOR y);
          x = x AND push_bit 4 x;
          x = x AND push_bit 2 x;
          x = x AND push_bit 1 x
      in signed_drop_bit 7 x)"

definition FStar_UInt8_gte_mask :: "u8 \<Rightarrow> u8 \<Rightarrow> u8" where
  "FStar_UInt8_gte_mask x y = NOT (ucast (signed_drop_bit 31 (ucast x - ucast y :: u32)))"

definition FStar_UInt16_eq_mask :: "16 word \<Rightarrow> 16 word \<Rightarrow> 16 word" where
  "FStar_UInt16_eq_mask x0 y =
     (let x = NOT (x0 XOR y);
          x = x AND push_bit 8 x;
          x = x AND push_bit 4 x;
          x = x AND push_bit 2 x;
          x = x AND push_bit 1 x
      in signed_drop_bit 15 x)"

definition FStar_UInt16_gte_mask :: "16 word \<Rightarrow> 16 word \<Rightarrow> 16 word" where
  "FStar_UInt16_gte_mask x y = NOT (ucast (signed_drop_bit 31 (ucast x - ucast y :: u32)))"

definition FStar_UInt32_eq_mask :: "u32 \<Rightarrow> u32 \<Rightarrow> u32" where
  "FStar_UInt32_eq_mask x0 y =
     (let x = NOT (x0 XOR y);
          x = x AND push_bit 16 x;
          x = x AND push_bit 8 x;
          x = x AND push_bit 4 x;
          x = x AND push_bit 2 x;
          x = x AND push_bit 1 x
      in signed_drop_bit 31 x)"

definition FStar_UInt32_gte_mask :: "u32 \<Rightarrow> u32 \<Rightarrow> u32" where
  "FStar_UInt32_gte_mask x y = NOT (ucast (signed_drop_bit 63 (ucast x - ucast y :: u64)))"

definition FStar_UInt64_eq_mask :: "u64 \<Rightarrow> u64 \<Rightarrow> u64" where
  "FStar_UInt64_eq_mask x0 y =
     (let x = NOT (x0 XOR y);
          x = x AND push_bit 32 x;
          x = x AND push_bit 16 x;
          x = x AND push_bit 8 x;
          x = x AND push_bit 4 x;
          x = x AND push_bit 2 x;
          x = x AND push_bit 1 x
      in signed_drop_bit 63 x)"

text \<open>
  The signed subtractions below are the two's complement ones of the target machines; the
  second overflows \<open>int64_t\<close> (undefined in C) when only \<open>y\<close> has its top bit set.
\<close>

definition FStar_UInt64_gte_mask :: "u64 \<Rightarrow> u64 \<Rightarrow> u64" where
  "FStar_UInt64_gte_mask x y =
     (let low63 = NOT (signed_drop_bit 63
                    ((x AND 0x7fffffffffffffff) - (y AND 0x7fffffffffffffff)));
          high_bit = NOT (signed_drop_bit 63
                    ((x AND 0x8000000000000000) - (y AND 0x8000000000000000)))
      in low63 AND high_bit)"

subsection \<open>What the masks compute\<close>

text \<open>
  \<open>ones m n z\<close>: the \<open>m\<close> bits of \<open>z\<close> from \<open>n\<close> downwards are all set. Each line
  \<open>x &= x << k\<close> of an \<open>eq_mask\<close> doubles the number of bits that the top bit stands for.
\<close>

definition ones :: "nat \<Rightarrow> nat \<Rightarrow> 'a::len word \<Rightarrow> bool" where
  "ones m n z \<longleftrightarrow> (\<forall>i < m. i \<le> n \<and> bit z (n - i))"

lemma ones_1: "ones 1 n z = bit z n"
  by (simp add: ones_def)

lemma ones_double:
  assumes "n < LENGTH('a)"
  shows "ones m n (z AND push_bit m z) = ones (m + m) n (z :: 'a::len word)"
proof
  assume l: "ones m n (z AND push_bit m z)"
  show "ones (m + m) n z"
    unfolding ones_def
  proof (intro allI impI)
    fix i assume i: "i < m + m"
    show "i \<le> n \<and> bit z (n - i)"
    proof (cases "i < m")
      case True
      with l show ?thesis by (simp add: ones_def bit_and_iff)
    next
      case False
      with i have "i - m < m" by simp
      with l have "i - m \<le> n" and "m \<le> n - (i - m)" and "bit z (n - (i - m) - m)"
        by (auto simp: ones_def bit_and_iff bit_push_bit_iff)
      with False show ?thesis by simp
    qed
  qed
next
  assume r: "ones (m + m) n z"
  show "ones m n (z AND push_bit m z)"
    unfolding ones_def
  proof (intro allI impI)
    fix i assume i: "i < m"
    with r have "i \<le> n" "bit z (n - i)" and "i + m \<le> n" "bit z (n - (i + m))"
      by (auto simp: ones_def)
    with assms show "i \<le> n \<and> bit (z AND push_bit m z) (n - i)"
      by (auto simp: bit_and_iff bit_push_bit_iff)
  qed
qed

lemma ones_all: "ones (Suc n) n z \<Longrightarrow> LENGTH('a) = Suc n \<Longrightarrow> z = (- 1 :: 'a::len word)"
proof (rule bit_word_eqI)
  fix i assume o: "ones (Suc n) n z" "LENGTH('a) = Suc n" and i: "i < LENGTH('a)"
  then have "n - i < Suc n" by simp
  with o have "bit z (n - (n - i))" unfolding ones_def by blast
  with o i show "bit z i = bit (- 1 :: 'a word) i" by simp
qed

lemma signed_top:
  "LENGTH('a) = Suc n \<Longrightarrow> signed_drop_bit n z = (if bit z n then - 1 else (0 :: 'a::len word))"
proof (rule bit_word_eqI)
  fix i assume l: "LENGTH('a) = Suc n" and "i < LENGTH('a)"
  then show "bit (signed_drop_bit n z) i = bit (if bit z n then - 1 else (0 :: 'a word)) i"
    by (cases "i = 0") (auto simp: bit_signed_drop_bit_iff)
qed

lemma top_bit_iff: "LENGTH('a) = Suc n \<Longrightarrow> bit z n \<longleftrightarrow> 2 ^ n \<le> unat (z :: 'a::len word)"
proof -
  assume l: "LENGTH('a) = Suc n"
  have "unat z < 2 * 2 ^ n" using unsigned_less [of z] l by simp
  then have "unat z div 2 ^ n = (if 2 ^ n \<le> unat z then 1 else 0)"
    by (auto simp: div_nat_eqI)
  moreover have "bit z n = bit (unat z) n"
    using l by (simp add: bit_unsigned_iff)
  ultimately show ?thesis
    by (simp add: bit_iff_odd)
qed

lemma eq_mask_ones:
  assumes "LENGTH('a) = Suc n"
  shows "ones (Suc n) n (NOT (x XOR y)) \<longleftrightarrow> x = (y :: 'a::len word)"
proof
  assume "ones (Suc n) n (NOT (x XOR y))"
  then have "NOT (x XOR y) = - 1" using assms by (rule ones_all)
  then have "x XOR y = 0" by (metis bit.compl_zero bit.double_compl)
  then have "x XOR (x XOR y) = x" by simp
  then show "x = y" by (simp flip: xor.assoc)
next
  assume "x = y"
  then show "ones (Suc n) n (NOT (x XOR y))"
    using assms by (auto simp: ones_def)
qed

lemma ones_double8: "ones m 7 (z AND push_bit m z) = ones (m + m) 7 (z :: u8)"
  by (rule ones_double) simp

lemma ones_double16: "ones m 15 (z AND push_bit m z) = ones (m + m) 15 (z :: 16 word)"
  by (rule ones_double) simp

lemma ones_double32: "ones m 31 (z AND push_bit m z) = ones (m + m) 31 (z :: u32)"
  by (rule ones_double) simp

lemma ones_double64: "ones m 63 (z AND push_bit m z) = ones (m + m) 63 (z :: u64)"
  by (rule ones_double) simp

lemmas double_steps = one_add_one numeral_plus_numeral add_num_simps

lemma eq_mask8 [word_nat]: "FStar_UInt8_eq_mask x y = (if x = y then - 1 else 0)"
proof -
  have "signed_drop_bit 7 z = (if ones 1 7 z then - 1 else 0)" for z :: u8
    by (simp add: signed_top ones_def)
  then have "FStar_UInt8_eq_mask x y = (if ones 8 7 (NOT (x XOR y)) then - 1 else 0)"
    by (simp only: FStar_UInt8_eq_mask_def Let_def ones_double8 double_steps)
  then show ?thesis using eq_mask_ones [of 7 x y] by simp
qed

lemma eq_mask16 [word_nat]: "FStar_UInt16_eq_mask x y = (if x = y then - 1 else 0)"
proof -
  have "signed_drop_bit 15 z = (if ones 1 15 z then - 1 else 0)" for z :: "16 word"
    by (simp add: signed_top ones_def)
  then have "FStar_UInt16_eq_mask x y = (if ones 16 15 (NOT (x XOR y)) then - 1 else 0)"
    by (simp only: FStar_UInt16_eq_mask_def Let_def ones_double16 double_steps)
  then show ?thesis using eq_mask_ones [of 15 x y] by simp
qed

lemma eq_mask32 [word_nat]: "FStar_UInt32_eq_mask x y = (if x = y then - 1 else 0)"
proof -
  have "signed_drop_bit 31 z = (if ones 1 31 z then - 1 else 0)" for z :: u32
    by (simp add: signed_top ones_def)
  then have "FStar_UInt32_eq_mask x y = (if ones 32 31 (NOT (x XOR y)) then - 1 else 0)"
    by (simp only: FStar_UInt32_eq_mask_def Let_def ones_double32 double_steps)
  then show ?thesis using eq_mask_ones [of 31 x y] by simp
qed

lemma eq_mask64 [word_nat]: "FStar_UInt64_eq_mask x y = (if x = y then - 1 else 0)"
proof -
  have "signed_drop_bit 63 z = (if ones 1 63 z then - 1 else 0)" for z :: u64
    by (simp add: signed_top ones_def)
  then have "FStar_UInt64_eq_mask x y = (if ones 64 63 (NOT (x XOR y)) then - 1 else 0)"
    by (simp only: FStar_UInt64_eq_mask_def Let_def ones_double64 double_steps)
  then show ?thesis using eq_mask_ones [of 63 x y] by simp
qed

text \<open>The sign of a two's complement difference of numbers below half the range.\<close>

lemma unat_diff_wrap:
  "unat (x - y) = (if unat y \<le> unat x then unat x - unat y else unat x + 2 ^ LENGTH('a) - unat y)"
  for x y :: "'a::len word"
proof (cases "unat y \<le> unat x")
  case False
  then have "unat (x - y) = unat x + 2 ^ LENGTH('a) - unat y"
    using unat_sub_if_size [of x y] by (simp add: wsst_TYs)
  with False show ?thesis by simp
qed (simp add: unat_minus)

lemma sign_of_diff:
  assumes "LENGTH('a) = Suc n" and "unat x < 2 ^ n" and "unat y < 2 ^ n"
  shows "signed_drop_bit n (x - y) = (if y \<le> x then 0 else (- 1 :: 'a::len word))"
proof -
  have "bit (x - y) n \<longleftrightarrow> \<not> y \<le> x"
    using assms by (auto simp: top_bit_iff unat_diff_wrap word_le_nat_alt)
  then show ?thesis using assms(1) by (simp add: signed_top)
qed

lemma ucast_minus_1:
  "LENGTH('b) \<le> LENGTH('a) \<Longrightarrow> ucast (- 1 :: 'a::len word) = (- 1 :: 'b::len word)"
  by (rule bit_word_eqI) (auto simp: bit_ucast_iff)

lemma gte_mask8 [word_nat]: "FStar_UInt8_gte_mask x y = (if y \<le> x then - 1 else 0)"
proof -
  have b: "unat (ucast z :: u32) < 2 ^ 31" for z :: u8
    using unat_bound [of z] by (simp add: unat_ucast_same_or_up)
  have "(ucast y :: u32) \<le> ucast x \<longleftrightarrow> y \<le> x"
    by (simp add: word_le_nat_alt unat_ucast_same_or_up)
  moreover have "signed_drop_bit 31 (ucast x - ucast y :: u32)
                 = (if (ucast y :: u32) \<le> ucast x then 0 else - 1)"
    by (rule sign_of_diff [OF _ b b]) simp
  ultimately show ?thesis
    by (simp add: FStar_UInt8_gte_mask_def ucast_minus_1)
qed

lemma gte_mask16 [word_nat]: "FStar_UInt16_gte_mask x y = (if y \<le> x then - 1 else 0)"
proof -
  have b: "unat (ucast z :: u32) < 2 ^ 31" for z :: "16 word"
    using unat_bound [of z] by (simp add: unat_ucast_same_or_up)
  have "(ucast y :: u32) \<le> ucast x \<longleftrightarrow> y \<le> x"
    by (simp add: word_le_nat_alt unat_ucast_same_or_up)
  moreover have "signed_drop_bit 31 (ucast x - ucast y :: u32)
                 = (if (ucast y :: u32) \<le> ucast x then 0 else - 1)"
    by (rule sign_of_diff [OF _ b b]) simp
  ultimately show ?thesis
    by (simp add: FStar_UInt16_gte_mask_def ucast_minus_1)
qed

lemma gte_mask32 [word_nat]: "FStar_UInt32_gte_mask x y = (if y \<le> x then - 1 else 0)"
proof -
  have b: "unat (ucast z :: u64) < 2 ^ 63" for z :: u32
    using unat_bound [of z] by (simp add: unat_ucast_same_or_up)
  have "(ucast y :: u64) \<le> ucast x \<longleftrightarrow> y \<le> x"
    by (simp add: word_le_nat_alt unat_ucast_same_or_up)
  moreover have "signed_drop_bit 63 (ucast x - ucast y :: u64)
                 = (if (ucast y :: u64) \<le> ucast x then 0 else - 1)"
    by (rule sign_of_diff [OF _ b b]) simp
  ultimately show ?thesis
    by (simp add: FStar_UInt32_gte_mask_def ucast_minus_1)
qed

text \<open>
  \<open>FStar_UInt64_gte_mask\<close> compares the low 63 bits and the top bits separately and joins
  the two answers with \<open>&\<close>: right when the top bits agree, wrong when only \<open>x\<close> has its
  top bit and it is therefore the larger one.
\<close>

lemma low63: "unat (x AND 0x7fffffffffffffff :: u64) = unat x mod 2 ^ 63"
proof -
  have "(0x7fffffffffffffff :: u64) = mask 63" by (simp add: mask_eq_exp_minus_1)
  then show ?thesis by (simp only: unat_and_mask)
qed

lemma top64: "x AND 0x8000000000000000 = (if bit x 63 then 0x8000000000000000 else (0 :: u64))"
proof (rule bit_word_eqI)
  fix n assume "n < LENGTH(64)"
  have "(0x8000000000000000 :: u64) = 2 ^ 63" by simp
  then have "bit (0x8000000000000000 :: u64) n \<longleftrightarrow> n = 63"
    using \<open>n < LENGTH(64)\<close> by (simp only: bit_exp_iff) auto
  then show "bit (x AND 0x8000000000000000) n
             = bit (if bit x 63 then 0x8000000000000000 else (0 :: u64)) n"
    by (auto simp: bit_and_iff)
qed

lemma gte_mask64:
  assumes "bit x 63 = bit y 63"
  shows "FStar_UInt64_gte_mask x y = (if y \<le> x then - 1 else 0)"
proof -
  let ?x = "x AND 0x7fffffffffffffff" and ?y = "y AND 0x7fffffffffffffff"
  have d: "unat z mod 2 ^ 63 = (if bit z 63 then unat z - 2 ^ 63 else unat z)" for z :: u64
  proof (cases "2 ^ 63 \<le> unat z")
    case True
    then have "unat z mod 2 ^ 63 = (unat z - 2 ^ 63) mod 2 ^ 63" by (rule le_mod_geq)
    with True show ?thesis using unat_bound [of z] by (simp add: top_bit_iff)
  qed (simp add: top_bit_iff)
  have "?y \<le> ?x \<longleftrightarrow> y \<le> x"
    using assms d [of x] d [of y] by (auto simp: word_le_nat_alt low63 top_bit_iff split: if_splits)
  moreover have "signed_drop_bit 63 (?x - ?y) = (if ?y \<le> ?x then 0 else - 1)"
    by (rule sign_of_diff) (simp_all add: low63)
  ultimately show ?thesis
    using assms by (simp add: FStar_UInt64_gte_mask_def Let_def top64)
qed

lemma gte_mask64_small [word_nat]:
  "unat x < 2 ^ 63 \<Longrightarrow> unat y < 2 ^ 63 \<Longrightarrow>
   FStar_UInt64_gte_mask x y = (if y \<le> x then - 1 else 0)"
  by (rule gte_mask64) (simp add: top_bit_iff)

lemma gte_mask64_wrong:
  "bit x 63 \<Longrightarrow> \<not> bit y 63 \<Longrightarrow> FStar_UInt64_gte_mask x y = 0"
  by (simp add: FStar_UInt64_gte_mask_def Let_def top64 signed_top)

lemma gte_mask64_less:
  "\<not> bit x 63 \<Longrightarrow> bit y 63 \<Longrightarrow> FStar_UInt64_gte_mask x y = 0"
  by (simp add: FStar_UInt64_gte_mask_def Let_def top64 signed_top)

section \<open>Loads and stores\<close>

text \<open>
  \<open>load32_le(b)\<close> is a \<open>memcpy\<close> followed by the host's \<open>le32toh\<close>: whatever the host's byte
  order, the number whose base-256 digits are the bytes, least significant first.
\<close>

fun le_val :: "bytes \<Rightarrow> nat" where
  "le_val [] = 0"
| "le_val (b # bs) = unat b + 256 * le_val bs"

fun le_bytes :: "nat \<Rightarrow> nat \<Rightarrow> bytes" where
  "le_bytes 0 v = []"
| "le_bytes (Suc n) v = word_of_nat v # le_bytes n (v div 256)"

definition load32_le :: "bytes \<Rightarrow> u32" where
  "load32_le b = word_of_nat (le_val (take 4 b))"

definition store32_le :: "bytes \<Rightarrow> u32 \<Rightarrow> bytes" where
  "store32_le b i = le_bytes 4 (unat i) @ drop 4 b"

definition load32_be :: "bytes \<Rightarrow> u32" where
  "load32_be b = word_of_nat (le_val (rev (take 4 b)))"

definition store32_be :: "bytes \<Rightarrow> u32 \<Rightarrow> bytes" where
  "store32_be b i = rev (le_bytes 4 (unat i)) @ drop 4 b"

definition load64_le :: "bytes \<Rightarrow> u64" where
  "load64_le b = word_of_nat (le_val (take 8 b))"

definition store64_le :: "bytes \<Rightarrow> u64 \<Rightarrow> bytes" where
  "store64_le b i = le_bytes 8 (unat i) @ drop 8 b"

definition load64_be :: "bytes \<Rightarrow> u64" where
  "load64_be b = word_of_nat (le_val (rev (take 8 b)))"

definition store64_be :: "bytes \<Rightarrow> u64 \<Rightarrow> bytes" where
  "store64_be b i = rev (le_bytes 8 (unat i)) @ drop 8 b"

definition load128_le :: "bytes \<Rightarrow> u128" where
  "load128_le b =
     (let l = ucast (load64_le b); h = ucast (load64_le (drop 8 b)) in push_bit 64 h OR l)"

definition store128_le :: "bytes \<Rightarrow> u128 \<Rightarrow> bytes" where
  "store128_le b n = at_ptr 8 (\<lambda>p. store64_le p (ucast (drop_bit 64 n))) (store64_le b (ucast n))"

definition load128_be :: "bytes \<Rightarrow> u128" where
  "load128_be b =
     (let h = ucast (load64_be b); l = ucast (load64_be (drop 8 b)) in push_bit 64 h OR l)"

definition store128_be :: "bytes \<Rightarrow> u128 \<Rightarrow> bytes" where
  "store128_be b n = at_ptr 8 (\<lambda>p. store64_be p (ucast n)) (store64_be b (ucast (drop_bit 64 n)))"

subsection \<open>Digits\<close>

lemma length_le_bytes [simp]: "length (le_bytes n v) = n"
  by (induction n arbitrary: v) auto

lemma le_val_less: "le_val bs < 256 ^ length bs"
proof (induction bs)
  case (Cons b bs)
  then show ?case using unat_bound [of b] by simp
qed simp

lemma le_val_append: "le_val (xs @ ys) = le_val xs + 256 ^ length xs * le_val ys"
  by (induction xs) (auto simp: algebra_simps)

lemma le_val_replicate [simp]: "le_val (replicate n 0) = 0"
  by (induction n) auto

lemma le_val_le_bytes: "le_val (le_bytes n v) = v mod 256 ^ n"
proof (induction n arbitrary: v)
  case (Suc n)
  have "unat (word_of_nat v :: u8) = v mod 256" by (simp add: unat_of_nat)
  with Suc show ?case by (simp add: mod_mult2_eq)
qed simp

lemma le_bytes_le_val: "le_bytes (length bs) (le_val bs) = bs"
proof (induction bs)
  case (Cons b bs)
  have "(unat b + 256 * le_val bs) div 256 = le_val bs"
    using unat_bound [of b] by simp
  moreover have "(word_of_nat (unat b + 256 * le_val bs) :: u8) = b"
  proof -
    have "(256 :: u8) = 0" by simp
    then have "(256 :: u8) * w = 0" for w by (simp only: mult_zero_left)
    then show ?thesis by simp
  qed
  ultimately show ?case using Cons by simp
qed simp

lemma le_bytes_append: "le_bytes (m + n) v = le_bytes m v @ le_bytes n (v div 256 ^ m)"
  by (induction m arbitrary: v) (auto simp: div_mult2_eq)

lemma le_bytes_mod: "le_bytes n (v mod 256 ^ n) = le_bytes n v"
  by (metis length_le_bytes le_bytes_le_val le_val_le_bytes)

lemma le_val_take_append:
  "m \<le> length bs \<Longrightarrow> le_val (take (m + n) bs) = le_val (take m bs) + 256 ^ m * le_val (take n (drop m bs))"
  by (simp add: take_add le_val_append)

lemma le_val_take_less: "le_val (take n bs) < 256 ^ n"
proof -
  have "le_val (take n bs) < 256 ^ length (take n bs)" by (rule le_val_less)
  also have "\<dots> \<le> 256 ^ n" by (rule power_increasing) auto
  finally show ?thesis .
qed

lemma le_bytes_take: "n \<le> length bs \<Longrightarrow> le_bytes n (le_val (take n bs)) = take n bs"
  using le_bytes_le_val [of "take n bs"] by simp

text \<open>Bit \<open>k\<close> of the number is a bit of one of the bytes.\<close>

lemma bit_byte_cons: "bit (unat (b :: u8) + 256 * m) k = (if k < 8 then bit b k else bit m (k - 8))"
proof -
  have "bit b n \<Longrightarrow> n < 8" for n using bit_imp_le_length [of b n] by simp
  then have "push_bit 8 m AND unat b = 0"
    by (intro bit_eqI) (fastforce simp: bit_and_iff bit_push_bit_iff bit_unsigned_iff)
  then have "unat b + 256 * m = push_bit 8 m OR unat b"
    using disjunctive_add_eq_or [of "push_bit 8 m" "unat b"] by (simp add: push_bit_eq_mult)
  then show ?thesis
    using bit_imp_le_length [of b k] by (auto simp: bit_or_iff bit_push_bit_iff bit_unsigned_iff)
qed

lemma bit_le_val: "bit (le_val k) i \<longleftrightarrow> i < 8 * length k \<and> bit (k ! (i div 8)) (i mod 8)"
proof (induction k arbitrary: i)
  case (Cons b k)
  show ?case
  proof (cases "i < 8")
    case False
    then obtain j where "i = j + 8" by (metis add.commute le_Suc_ex not_less)
    moreover have "(j + 8) div 8 = Suc (j div 8)" by simp
    ultimately show ?thesis using Cons [of j] by (simp add: bit_byte_cons del: div_add_self2)
  qed (simp add: bit_byte_cons)
qed simp

subsection \<open>Loads and stores as numbers\<close>

lemma unat_load32_le [word_nat]: "unat (load32_le b) = le_val (take 4 b)"
  using le_val_take_less [of 4 b] by (simp add: load32_le_def unat_of_nat)

lemma unat_load64_le [word_nat]: "unat (load64_le b) = le_val (take 8 b)"
  using le_val_take_less [of 8 b] by (simp add: load64_le_def unat_of_nat)

lemma unat_load32_be [word_nat]: "unat (load32_be b) = le_val (rev (take 4 b))"
proof -
  have "le_val (rev (take 4 b)) < 256 ^ length (rev (take 4 b))" by (rule le_val_less)
  also have "\<dots> \<le> 256 ^ 4" by (rule power_increasing) auto
  finally show ?thesis by (simp add: load32_be_def unat_of_nat)
qed

lemma unat_load64_be [word_nat]: "unat (load64_be b) = le_val (rev (take 8 b))"
proof -
  have "le_val (rev (take 8 b)) < 256 ^ length (rev (take 8 b))" by (rule le_val_less)
  also have "\<dots> \<le> 256 ^ 8" by (rule power_increasing) auto
  finally show ?thesis by (simp add: load64_be_def unat_of_nat)
qed

lemma load128_le_eq:
  assumes "8 \<le> length b"
  shows "load128_le b = word_of_nat (le_val (take 16 b))"
proof -
  have v: "le_val (take 16 b) = le_val (take 8 b) + 256 ^ 8 * le_val (take 8 (drop 8 b))"
    using le_val_take_append [of 8 b 8] assms by simp
  have l: "le_val (take 8 b) < 2 ^ 64" and h: "le_val (take 8 (drop 8 b)) < 2 ^ 64"
    using le_val_take_less [of 8] by simp_all
  have "unat (load128_le b) = le_val (take 8 (drop 8 b)) * 2 ^ 64 + le_val (take 8 b)"
    unfolding load128_le_def Let_def
    using l h by (subst unat_or_shift) (simp_all add: unat_ucast_same_or_up unat_load64_le)
  then have "unat (load128_le b) = le_val (take 16 b)" by (simp add: v)
  then show ?thesis by (rule word_of_nat_eqI [symmetric])
qed

lemma unat_load128_le [word_nat]: "8 \<le> length b \<Longrightarrow> unat (load128_le b) = le_val (take 16 b)"
  using le_val_take_less [of 16 b] by (simp add: load128_le_eq unat_of_nat)

lemma store128_le_eq:
  assumes "16 \<le> length b"
  shows "store128_le b n = le_bytes 16 (unat n) @ drop 16 b"
proof -
  have n: "unat (drop_bit 64 n) < 2 ^ 64"
    using unat_bound [of n] by (simp add: unat_shr)
  have "le_bytes 8 (unat n mod 2 ^ 64) = le_bytes 8 (unat n)"
    using le_bytes_mod [of 8 "unat n"] by simp
  moreover have "le_bytes (8 + 8) (unat n) = le_bytes 8 (unat n) @ le_bytes 8 (unat n div 256 ^ 8)"
    by (rule le_bytes_append)
  ultimately show ?thesis
    using n by (simp add: store128_le_def store64_le_def at_ptr_def unat_ucast_down unat_shr)
qed

lemma length_stores [simp]:
  "4 \<le> length b \<Longrightarrow> length (store32_le b i) = length b"
  "4 \<le> length b \<Longrightarrow> length (store32_be b i) = length b"
  "8 \<le> length b \<Longrightarrow> length (store64_le b j) = length b"
  "8 \<le> length b \<Longrightarrow> length (store64_be b j) = length b"
  "16 \<le> length b \<Longrightarrow> length (store128_le b k) = length b"
  by (simp_all add: store32_le_def store32_be_def store64_le_def store64_be_def store128_le_eq)

lemma load_store32_le: "load32_le (store32_le b i) = i"
  using unat_bound [of i] by (simp add: load32_le_def store32_le_def le_val_le_bytes)

lemma store_load32_le: "4 \<le> length b \<Longrightarrow> store32_le c (load32_le b) = take 4 b @ drop 4 c"
  by (simp add: store32_le_def unat_load32_le le_bytes_take)

lemma load_store64_le: "load64_le (store64_le b i) = i"
  using unat_bound [of i] by (simp add: load64_le_def store64_le_def le_val_le_bytes)

lemma load_store32_be: "load32_be (store32_be b i) = i"
  using unat_bound [of i] by (simp add: load32_be_def store32_be_def le_val_le_bytes)

lemma load_store64_be: "load64_be (store64_be b i) = i"
  using unat_bound [of i] by (simp add: load64_be_def store64_be_def le_val_le_bytes)

section \<open>128-bit integers of the compiler\<close>

definition u128_add :: "u128 \<Rightarrow> u128 \<Rightarrow> u128" where
  "u128_add x y = x + y"

definition u128_add_mod :: "u128 \<Rightarrow> u128 \<Rightarrow> u128" where
  "u128_add_mod x y = x + y"

definition u128_sub :: "u128 \<Rightarrow> u128 \<Rightarrow> u128" where
  "u128_sub x y = x - y"

definition u128_logand :: "u128 \<Rightarrow> u128 \<Rightarrow> u128" where
  "u128_logand x y = x AND y"

definition u128_logor :: "u128 \<Rightarrow> u128 \<Rightarrow> u128" where
  "u128_logor x y = x OR y"

definition u128_shift_left :: "u128 \<Rightarrow> u32 \<Rightarrow> u128" where
  "u128_shift_left x y = push_bit (unat y) x"

definition u128_shift_right :: "u128 \<Rightarrow> u32 \<Rightarrow> u128" where
  "u128_shift_right x y = drop_bit (unat y) x"

definition uint64_to_uint128 :: "u64 \<Rightarrow> u128" where
  "uint64_to_uint128 x = ucast x"

definition uint128_to_uint64 :: "u128 \<Rightarrow> u64" where
  "uint128_to_uint64 x = ucast x"

definition u128_mul_wide :: "u64 \<Rightarrow> u64 \<Rightarrow> u128" where
  "u128_mul_wide x y = ucast x * ucast y"

definition u128_eq_mask :: "u128 \<Rightarrow> u128 \<Rightarrow> u128" where
  "u128_eq_mask x y =
     (let mask = FStar_UInt64_eq_mask (ucast (drop_bit 64 x)) (ucast (drop_bit 64 y))
                 AND FStar_UInt64_eq_mask (ucast x) (ucast y)
      in push_bit 64 (ucast mask) OR ucast mask)"

definition u128_gte_mask :: "u128 \<Rightarrow> u128 \<Rightarrow> u128" where
  "u128_gte_mask x y =
     (let mask = (FStar_UInt64_gte_mask (ucast (drop_bit 64 x)) (ucast (drop_bit 64 y))
                  AND NOT (FStar_UInt64_eq_mask (ucast (drop_bit 64 x)) (ucast (drop_bit 64 y))))
                 OR (FStar_UInt64_eq_mask (ucast (drop_bit 64 x)) (ucast (drop_bit 64 y))
                     AND FStar_UInt64_gte_mask (ucast x) (ucast y))
      in push_bit 64 (ucast mask) OR ucast mask)"

lemma unat_mul_wide: "unat (u128_mul_wide x y) = unat x * unat y"
proof -
  have "unat x * unat y < 2 ^ 64 * 2 ^ 64"
    using unat_bound [of x] unat_bound [of y] by (intro mult_strict_mono) simp_all
  then show ?thesis
    by (simp add: u128_mul_wide_def unat_times unat_ucast_same_or_up)
qed

end
