(* ===== verification/LoadStore.thy ===== *)
theory LoadStore
  imports Kremlib
begin

text \<open>
  The array loads and stores the ciphers and hashes share: \<open>len\<close> words read from, or written
  to, consecutive bytes of a buffer (\<open>Hacl_Lib_LoadStore32\<close> in the ciphers,
  \<open>Hacl_Hash_Lib_LoadStore\<close> in the hashes).
\<close>

definition Hacl_Lib_LoadStore32_uint32s_from_le_bytes :: "u32 list \<Rightarrow> bytes \<Rightarrow> u32 \<Rightarrow> u32 list" where
  "Hacl_Lib_LoadStore32_uint32s_from_le_bytes output input len =
     for_loop 0 (unat len) (\<lambda>i output. output[i := load32_le (drop (off32 4 i) input)]) output"

definition Hacl_Lib_LoadStore32_uint32s_to_le_bytes :: "bytes \<Rightarrow> u32 list \<Rightarrow> u32 \<Rightarrow> bytes" where
  "Hacl_Lib_LoadStore32_uint32s_to_le_bytes output input len =
     for_loop 0 (unat len)
       (\<lambda>i output. at_ptr (off32 4 i) (\<lambda>x0. store32_le x0 (input ! i)) output) output"

definition Hacl_Hash_Lib_LoadStore_uint32s_from_be_bytes :: "u32 list \<Rightarrow> bytes \<Rightarrow> u32 \<Rightarrow> u32 list" where
  "Hacl_Hash_Lib_LoadStore_uint32s_from_be_bytes output input len =
     for_loop 0 (unat len) (\<lambda>i output. output[i := load32_be (drop (off32 4 i) input)]) output"

definition Hacl_Hash_Lib_LoadStore_uint32s_to_be_bytes :: "bytes \<Rightarrow> u32 list \<Rightarrow> u32 \<Rightarrow> bytes" where
  "Hacl_Hash_Lib_LoadStore_uint32s_to_be_bytes output input len =
     for_loop 0 (unat len)
       (\<lambda>i output. at_ptr (off32 4 i) (\<lambda>x0. store32_be x0 (input ! i)) output) output"

definition Hacl_Hash_Lib_LoadStore_uint64s_from_be_bytes :: "u64 list \<Rightarrow> bytes \<Rightarrow> u32 \<Rightarrow> u64 list" where
  "Hacl_Hash_Lib_LoadStore_uint64s_from_be_bytes output input len =
     for_loop 0 (unat len) (\<lambda>i output. output[i := load64_be (drop (off32 8 i) input)]) output"

definition Hacl_Hash_Lib_LoadStore_uint64s_to_be_bytes :: "bytes \<Rightarrow> u64 list \<Rightarrow> u32 \<Rightarrow> bytes" where
  "Hacl_Hash_Lib_LoadStore_uint64s_to_be_bytes output input len =
     for_loop 0 (unat len)
       (\<lambda>i output. at_ptr (off32 8 i) (\<lambda>x0. store64_be x0 (input ! i)) output) output"

section \<open>What they compute\<close>

text \<open>The words of a byte string and the bytes of a word list, without loops.\<close>

definition words_le :: "nat \<Rightarrow> bytes \<Rightarrow> u32 list" where
  "words_le n b = map (\<lambda>i. load32_le (drop (4 * i) b)) [0..<n]"

definition words_be :: "nat \<Rightarrow> bytes \<Rightarrow> u32 list" where
  "words_be n b = map (\<lambda>i. load32_be (drop (4 * i) b)) [0..<n]"

definition words64_be :: "nat \<Rightarrow> bytes \<Rightarrow> u64 list" where
  "words64_be n b = map (\<lambda>i. load64_be (drop (8 * i) b)) [0..<n]"

definition bytes_le :: "u32 list \<Rightarrow> bytes" where
  "bytes_le ws = concat (map (\<lambda>w. le_bytes 4 (unat w)) ws)"

definition bytes_be :: "u32 list \<Rightarrow> bytes" where
  "bytes_be ws = concat (map (\<lambda>w. rev (le_bytes 4 (unat w))) ws)"

definition bytes64_be :: "u64 list \<Rightarrow> bytes" where
  "bytes64_be ws = concat (map (\<lambda>w. rev (le_bytes 8 (unat w))) ws)"

lemma length_words [simp]:
  "length (words_le n b) = n" "length (words_be n b) = n" "length (words64_be n b) = n"
  by (simp_all add: words_le_def words_be_def words64_be_def)

lemma length_bytes [simp]:
  "length (bytes_le ws) = 4 * length ws" "length (bytes_be ws) = 4 * length ws"
  "length (bytes64_be vs) = 8 * length vs"
  by (induction ws; simp add: bytes_le_def bytes_be_def)
     (induction ws; induction vs; simp add: bytes_be_def bytes64_be_def)+

lemma map_nth_upt: "n \<le> length xs \<Longrightarrow> map (\<lambda>i. f (xs ! i)) [0..<n] = map f (take n xs)"
  by (rule nth_equalityI) auto

lemma load_loop:
  assumes "n \<le> length output" and "k * n < 2 ^ 32" and "0 < k"
  shows "for_loop 0 n (\<lambda>i output. output[i := ld (drop (off32 k i) input)]) output
         = map (\<lambda>i. ld (drop (k * i) input)) [0..<n] @ drop n output"
proof -
  have "off32 k i = k * i" if "i < n" for i
  proof -
    from that assms have "k * i < 2 ^ 32"
      by (meson le_less_trans less_imp_le_nat mult_le_mono2)
    moreover have "i \<le> k * i" and "k \<le> k * n"
      using assms that by simp_all
    ultimately show ?thesis using assms(2) by (intro off32_small) linarith+
  qed
  then have "for_loop 0 n (\<lambda>i output. output[i := ld (drop (off32 k i) input)]) output
      = for_loop 0 n (\<lambda>i output. output[i := ld (drop (k * i) input)]) output"
    by (intro for_loop_cong) simp
  with assms(1) show ?thesis by (simp add: for_loop_assign)
qed

lemma store_loop:
  assumes "k * n \<le> length output" and "k * n < 2 ^ 32" and "0 < k" and "n \<le> length input"
    and st: "\<And>p w. st p w = bs w @ drop k p" and bs: "\<And>w. length (bs w) = k"
  shows "for_loop 0 n (\<lambda>i output. at_ptr (off32 k i) (\<lambda>x0. st x0 (input ! i)) output) output
         = concat (map bs (take n input)) @ drop (k * n) output"
proof -
  have "off32 k i = k * i" if "i < n" for i
  proof -
    from that assms have "k * i < 2 ^ 32"
      by (meson le_less_trans less_imp_le_nat mult_le_mono2)
    moreover have "i \<le> k * i" and "k \<le> k * n"
      using assms that by simp_all
    ultimately show ?thesis using assms(2) by (intro off32_small) linarith+
  qed
  then have "for_loop 0 n (\<lambda>i output. at_ptr (off32 k i) (\<lambda>x0. st x0 (input ! i)) output) output
      = for_loop 0 n (\<lambda>i output. at_ptr (k * i) (\<lambda>x0. bs (input ! i) @ drop k x0) output) output"
    by (intro for_loop_cong) (simp add: st)
  also have "\<dots> = concat (map (\<lambda>i. bs (input ! i)) [0..<n]) @ drop (k * n) output"
    using assms(1) bs by (intro for_loop_blocks) simp_all
  finally show ?thesis using assms(4) by (simp add: map_nth_upt)
qed

lemma from_le_bytes_eq [buf]:
  "unat len \<le> length output \<Longrightarrow> unat len < 2 ^ 30 \<Longrightarrow>
   Hacl_Lib_LoadStore32_uint32s_from_le_bytes output input len
   = words_le (unat len) input @ drop (unat len) output"
  by (simp add: Hacl_Lib_LoadStore32_uint32s_from_le_bytes_def load_loop words_le_def)

lemma from_be_bytes_eq [buf]:
  "unat len \<le> length output \<Longrightarrow> unat len < 2 ^ 30 \<Longrightarrow>
   Hacl_Hash_Lib_LoadStore_uint32s_from_be_bytes output input len
   = words_be (unat len) input @ drop (unat len) output"
  by (simp add: Hacl_Hash_Lib_LoadStore_uint32s_from_be_bytes_def load_loop words_be_def)

lemma from_be_bytes64_eq [buf]:
  "unat len \<le> length output \<Longrightarrow> unat len < 2 ^ 29 \<Longrightarrow>
   Hacl_Hash_Lib_LoadStore_uint64s_from_be_bytes output input len
   = words64_be (unat len) input @ drop (unat len) output"
  by (simp add: Hacl_Hash_Lib_LoadStore_uint64s_from_be_bytes_def load_loop words64_be_def)

lemma to_le_bytes_eq [buf]:
  "4 * unat len \<le> length output \<Longrightarrow> unat len < 2 ^ 30 \<Longrightarrow> unat len \<le> length input \<Longrightarrow>
   Hacl_Lib_LoadStore32_uint32s_to_le_bytes output input len
   = bytes_le (take (unat len) input) @ drop (4 * unat len) output"
  unfolding Hacl_Lib_LoadStore32_uint32s_to_le_bytes_def bytes_le_def
  by (rule store_loop) (simp_all add: store32_le_def)

lemma to_be_bytes_eq [buf]:
  "4 * unat len \<le> length output \<Longrightarrow> unat len < 2 ^ 30 \<Longrightarrow> unat len \<le> length input \<Longrightarrow>
   Hacl_Hash_Lib_LoadStore_uint32s_to_be_bytes output input len
   = bytes_be (take (unat len) input) @ drop (4 * unat len) output"
  unfolding Hacl_Hash_Lib_LoadStore_uint32s_to_be_bytes_def bytes_be_def
  by (rule store_loop) (simp_all add: store32_be_def)

lemma to_be_bytes64_eq [buf]:
  "8 * unat len \<le> length output \<Longrightarrow> unat len < 2 ^ 29 \<Longrightarrow> unat len \<le> length input \<Longrightarrow>
   Hacl_Hash_Lib_LoadStore_uint64s_to_be_bytes output input len
   = bytes64_be (take (unat len) input) @ drop (8 * unat len) output"
  unfolding Hacl_Hash_Lib_LoadStore_uint64s_to_be_bytes_def bytes64_be_def
  by (rule store_loop) (simp_all add: store64_be_def)

text \<open>Loading what was stored gives the words back, and conversely.\<close>

lemma bytes_le_block:
  "i < length ws \<Longrightarrow> take 4 (drop (4 * i) (bytes_le ws)) = le_bytes 4 (unat (ws ! i))"
proof (induction ws arbitrary: i)
  case (Cons w ws)
  then show ?case by (cases i) (simp_all add: bytes_le_def)
qed simp

lemma words_bytes_le: "words_le (length ws) (bytes_le ws) = ws"
proof (rule nth_equalityI)
  fix i assume "i < length (words_le (length ws) (bytes_le ws))"
  then show "words_le (length ws) (bytes_le ws) ! i = ws ! i"
    using unat_bound [of "ws ! i"]
    by (simp add: words_le_def load32_le_def bytes_le_block le_val_le_bytes)
qed simp

lemma words_le_append: "4 * n \<le> length a \<Longrightarrow> words_le n (a @ b) = words_le n a"
  by (simp add: words_le_def load32_le_def)

lemma bytes_words_le: "4 * n \<le> length b \<Longrightarrow> bytes_le (words_le n b) = take (4 * n) b"
proof (induction n)
  case (Suc n)
  have "take (4 * n + 4) b = take (4 * n) b @ take 4 (drop (4 * n) b)" by (rule take_add)
  with Suc show ?case
    by (simp add: bytes_le_def words_le_def unat_load32_le le_bytes_take add.commute)
qed (simp add: bytes_le_def words_le_def)

text \<open>
  Storing an array of words little-endian and loading it again gives the words back;
  loading and storing gives the bytes back (the loops of \<open>Hacl_Lib_LoadStore32\<close>).
\<close>

theorem loadstore32_roundtrip:
  assumes "unat len < 2 ^ 30" and "unat len = length ws" and "4 * unat len = length bs"
  shows "Hacl_Lib_LoadStore32_uint32s_from_le_bytes ws
           (Hacl_Lib_LoadStore32_uint32s_to_le_bytes bs ws len) len = ws
         \<and> Hacl_Lib_LoadStore32_uint32s_to_le_bytes bs
           (Hacl_Lib_LoadStore32_uint32s_from_le_bytes ws bs len) len = bs"
  using assms bytes_words_le [of "length ws" bs]
  by (simp add: from_le_bytes_eq to_le_bytes_eq words_bytes_le)

theorem loadstore32_roundtrip_witness:
  "Hacl_Lib_LoadStore32_uint32s_from_le_bytes [7]
     (Hacl_Lib_LoadStore32_uint32s_to_le_bytes [1, 2, 3, 4] [7] 1) 1 = [7]
   \<and> Hacl_Lib_LoadStore32_uint32s_to_le_bytes [1, 2, 3, 4]
     (Hacl_Lib_LoadStore32_uint32s_from_le_bytes [7] [1, 2, 3, 4] 1) 1 = [1, 2, 3, 4]"
  by (rule loadstore32_roundtrip) simp_all

end
