(* ===== verification/Stream_Cipher.thy ===== *)
theory Stream_Cipher
  imports LoadStore
begin

text \<open>
  Counter mode, shared by ChaCha20 and Salsa20.  The locale \<open>counter_cipher\<close> is what the
  counter-mode loops need from the functions that process one block: each returns the
  exclusive or of the plaintext with the 64-byte key stream block \<open>blk s c\<close> of its counter
  and leaves the cipher state with the same key stream.  The lemmas of the locale hold for
  both ciphers through their interpretations.
\<close>

definition xor_bytes :: "bytes \<Rightarrow> bytes \<Rightarrow> bytes" where
  "xor_bytes xs ys = map2 (XOR) xs ys"

section \<open>The 4 by 4 matrix of the ciphers\<close>

text \<open>
  Both ciphers describe their 16-word state as a matrix of four rows.
\<close>

type_synonym quad = "u32 \<times> u32 \<times> u32 \<times> u32"
type_synonym matrix4 = "quad \<times> quad \<times> quad \<times> quad"

text \<open>The columns of a matrix; applied to the columns it gives the rows back.\<close>

definition columns :: "quad \<Rightarrow> quad \<Rightarrow> quad \<Rightarrow> quad \<Rightarrow> matrix4" where
  "columns r0 r1 r2 r3 =
     (case (r0, r1, r2, r3) of
        ((x0, x1, x2, x3), (x4, x5, x6, x7), (x8, x9, x10, x11), (x12, x13, x14, x15)) \<Rightarrow>
        ((x0, x4, x8, x12), (x1, x5, x9, x13), (x2, x6, x10, x14), (x3, x7, x11, x15)))"

definition rot_left :: "quad \<Rightarrow> quad" where
  "rot_left = (\<lambda>(a, b, c, d). (b, c, d, a))"

fun quad_list :: "quad \<Rightarrow> u32 list" where
  "quad_list (a, b, c, d) = [a, b, c, d]"

definition matrix_list :: "matrix4 \<Rightarrow> u32 list" where
  "matrix_list = (\<lambda>(r0, r1, r2, r3). quad_list r0 @ quad_list r1 @ quad_list r2 @ quad_list r3)"

definition list_quad :: "u32 list \<Rightarrow> quad" where
  "list_quad xs = (xs ! 0, xs ! 1, xs ! 2, xs ! 3)"

definition list_matrix :: "u32 list \<Rightarrow> matrix4" where
  "list_matrix xs = (list_quad xs, list_quad (drop 4 xs), list_quad (drop 8 xs), list_quad (drop 12 xs))"

lemma list16E:
  assumes "length st = 16"
  obtains x0 x1 x2 x3 x4 x5 x6 x7 x8 x9 x10 x11 x12 x13 x14 x15
  where "st = [x0, x1, x2, x3, x4, x5, x6, x7, x8, x9, x10, x11, x12, x13, x14, x15]"
  using assms by (auto simp: numeral_eq_Suc length_Suc_conv)

lemma matrix_list_inv: "length st = 16 \<Longrightarrow> matrix_list (list_matrix st) = st"
  by (erule list16E) (simp add: matrix_list_def list_matrix_def list_quad_def)

lemma list_matrix_inv: "list_matrix (matrix_list m) = m"
  by (cases m) (auto simp: matrix_list_def list_matrix_def list_quad_def)

lemma length_matrix_list [simp]: "length (matrix_list m) = 16"
  by (cases m) (auto simp: matrix_list_def)

section \<open>Counter mode\<close>

text \<open>The key stream of \<open>n\<close> blocks from counter \<open>c\<close>, and encryption with it.\<close>

definition keystream :: "('c::len word \<Rightarrow> bytes) \<Rightarrow> 'c word \<Rightarrow> nat \<Rightarrow> bytes" where
  "keystream blk c n = concat (map (\<lambda>i. blk (c + word_of_nat i)) [0..<n])"

definition ctr_encrypt :: "('c::len word \<Rightarrow> bytes) \<Rightarrow> 'c word \<Rightarrow> bytes \<Rightarrow> bytes" where
  "ctr_encrypt blk c m = xor_bytes m (keystream blk c ((length m + 63) div 64))"

lemma length_xor_bytes [simp]: "length (xor_bytes xs ys) = min (length xs) (length ys)"
  by (simp add: xor_bytes_def)

lemma xor_bytes_nth [simp]:
  "i < length xs \<Longrightarrow> i < length ys \<Longrightarrow> xor_bytes xs ys ! i = xs ! i XOR ys ! i"
  by (simp add: xor_bytes_def)

lemma xor_bytes_append:
  "length xs = length ys \<Longrightarrow> xor_bytes (xs @ xs') (ys @ ys') = xor_bytes xs ys @ xor_bytes xs' ys'"
  by (simp add: xor_bytes_def)

lemma xor_bytes_twice: "length xs \<le> length ys \<Longrightarrow> xor_bytes (xor_bytes xs ys) ys = xs"
  by (rule nth_equalityI) (simp_all add: xor.assoc)

lemma xor_bytes_take: "length xs \<le> length ys \<Longrightarrow> xor_bytes xs (take (length xs) ys) = xor_bytes xs ys"
  by (rule nth_equalityI) simp_all

lemma take_xor_bytes: "take n (xor_bytes xs ys) = xor_bytes (take n xs) (take n ys)"
  by (simp add: xor_bytes_def take_map take_zip)

lemma drop_xor_bytes: "drop n (xor_bytes xs ys) = xor_bytes (drop n xs) (drop n ys)"
  by (simp add: xor_bytes_def drop_map drop_zip)

text \<open>The byte loop \<open>output[i] = plain[i] ^ mask[i]\<close>.\<close>

lemma xor_loop:
  assumes "n \<le> length out" and "n \<le> length p" and "n \<le> length k"
  shows "for_loop 0 n (\<lambda>i out. let xi = p ! i; yi = k ! i in out[i := xi XOR yi]) out
         = xor_bytes (take n p) (take n k) @ drop n out"
proof -
  have "map (\<lambda>i. p ! i XOR k ! i) [0..<n] = xor_bytes (take n p) (take n k)"
    using assms by (intro nth_equalityI) simp_all
  with assms(1) show ?thesis by (simp add: Let_def for_loop_assign)
qed

text \<open>Words and bytes: the exclusive or of words is that of their bytes.\<close>

lemma le_bytes_xor: "le_bytes n (x XOR y) = xor_bytes (le_bytes n x) (le_bytes n y)"
proof (induction n arbitrary: x y)
  case (Suc n)
  have "(x XOR y) div 256 = (x div 256) XOR (y div 256)"
    using drop_bit_xor [of 8 x y] by (simp add: drop_bit_eq_div)
  moreover have "(word_of_nat (x XOR y) :: u8) = word_of_nat x XOR word_of_nat y"
    by (rule of_nat_xor_eq)
  ultimately show ?case by (simp add: Suc xor_bytes_def)
qed (simp add: xor_bytes_def)

lemma bytes_le_xor:
  "length ws = length vs \<Longrightarrow> bytes_le (map2 (XOR) ws vs) = xor_bytes (bytes_le ws) (bytes_le vs)"
  by (induction ws vs rule: list_induct2)
     (simp_all add: bytes_le_def xor_bytes_append unsigned_xor_eq le_bytes_xor,
      simp add: xor_bytes_def)

text \<open>The word loop of the block functions.\<close>

lemma xor_words_loop:
  assumes "length ob = n" and "length ib = n" and "length k = n"
  shows "for_loop 0 n (\<lambda>i ob. let xi = ib ! i; yi = k ! i in ob[i := xi XOR yi]) ob
         = map2 (XOR) ib (k :: u32 list)"
proof -
  have "map (\<lambda>i. ib ! i XOR k ! i) [0..<n] = map2 (XOR) ib k"
    using assms by (intro nth_equalityI) simp_all
  with assms show ?thesis by (simp add: Let_def for_loop_assign)
qed

lemma add_words_loop:
  assumes "length k = n" and "length st = n"
  shows "for_loop 0 n (\<lambda>i k. let xi = k ! i; yi = st ! i in k[i := xi + yi]) k
         = map2 (+) k (st :: u32 list)"
proof -
  have "map (\<lambda>i. k ! i + st ! i) [0..<n] = map2 (+) k st"
    using assms by (intro nth_equalityI) simp_all
  with assms for_loop_map [of n k "\<lambda>i x. x + st ! i"] show ?thesis by (simp add: Let_def)
qed

lemma keystream_Suc: "keystream blk c (Suc n) = keystream blk c n @ blk (c + word_of_nat n)"
  by (simp add: keystream_def)

lemma keystream_plus:
  "keystream blk c (m + n) = keystream blk c m @ keystream blk (c + word_of_nat m) n"
proof -
  have "[m..<m + n] = map (\<lambda>i. i + m) [0..<n]" by (simp add: map_add_upt add.commute)
  then have "concat (map (\<lambda>i. blk (c + word_of_nat i)) [m..<m + n])
             = keystream blk (c + word_of_nat m) n"
    by (simp add: keystream_def comp_def ac_simps)
  then show ?thesis by (simp add: keystream_def upt_add_eq_append [of 0])
qed

lemma length_keystream: "(\<And>c. length (blk c) = 64) \<Longrightarrow> length (keystream blk c n) = 64 * n"
  by (induction n) (simp_all add: keystream_Suc, simp add: keystream_def)

lemma length_ctr_encrypt [simp]:
  assumes "\<And>c. length (blk c) = 64"
  shows "length (ctr_encrypt blk c m) = length m"
proof -
  have "length m \<le> 64 * ((length m + 63) div 64)" by linarith
  then show ?thesis using assms by (simp add: ctr_encrypt_def length_keystream)
qed

text \<open>Decryption is encryption.\<close>

lemma ctr_encrypt_twice:
  assumes "\<And>c. length (blk c) = 64"
  shows "ctr_encrypt blk c (ctr_encrypt blk c m) = m"
proof -
  have "length m \<le> 64 * ((length m + 63) div 64)" by linarith
  with assms show ?thesis
    by (simp add: ctr_encrypt_def length_keystream xor_bytes_twice min_absorb1)
qed

text \<open>Seeking: from block \<open>k\<close> on, the message is encrypted with the counter advanced by \<open>k\<close>.\<close>

lemma ctr_encrypt_seek:
  assumes blk: "\<And>c. length (blk c) = 64" and k: "64 * k \<le> length m"
  shows "ctr_encrypt blk c m
         = ctr_encrypt blk c (take (64 * k) m) @ ctr_encrypt blk (c + word_of_nat k) (drop (64 * k) m)"
proof -
  define n where "n = (length m - 64 * k + 63) div 64"
  have len: "(length m + 63) div 64 = k + n" using k by (simp add: n_def)
  have "(64 * k + 63) div 64 = k" by simp
  then have t: "ctr_encrypt blk c (take (64 * k) m) = xor_bytes (take (64 * k) m) (keystream blk c k)"
    using k by (simp add: ctr_encrypt_def)
  have d: "ctr_encrypt blk (c + word_of_nat k) (drop (64 * k) m)
           = xor_bytes (drop (64 * k) m) (keystream blk (c + word_of_nat k) n)"
    by (simp add: ctr_encrypt_def n_def)
  have "xor_bytes (take (64 * k) m @ drop (64 * k) m)
          (keystream blk c k @ keystream blk (c + word_of_nat k) n)
        = xor_bytes (take (64 * k) m) (keystream blk c k)
          @ xor_bytes (drop (64 * k) m) (keystream blk (c + word_of_nat k) n)"
    using k blk by (intro xor_bytes_append) (simp add: length_keystream)
  then show ?thesis by (simp add: t d) (simp add: ctr_encrypt_def len keystream_plus)
qed

section \<open>The interface of a cipher run in counter mode\<close>

locale counter_cipher =
  fixes blk :: "'s \<Rightarrow> 'c::len word \<Rightarrow> bytes"
    and ok :: "'s \<Rightarrow> bool"
    and update :: "bytes \<Rightarrow> bytes \<Rightarrow> 's \<Rightarrow> 'c word \<Rightarrow> bytes \<times> 's"
    and update_last :: "bytes \<Rightarrow> bytes \<Rightarrow> u32 \<Rightarrow> 's \<Rightarrow> 'c word \<Rightarrow> bytes \<times> 's"
  assumes length_blk: "ok s \<Longrightarrow> length (blk s c) = 64"
    and update_out: "ok s \<Longrightarrow> 64 \<le> length out \<Longrightarrow> 64 \<le> length p \<Longrightarrow>
      fst (update out p s c) = xor_bytes (take 64 p) (blk s c) @ drop 64 out"
    and update_ok: "ok s \<Longrightarrow> ok (snd (update out p s c))"
    and update_blk: "ok s \<Longrightarrow> blk (snd (update out p s c)) = blk s"
    and last_out: "ok s \<Longrightarrow> unat len \<le> 64 \<Longrightarrow> unat len \<le> length out \<Longrightarrow> unat len \<le> length p \<Longrightarrow>
      fst (update_last out p len s c)
      = xor_bytes (take (unat len) p) (take (unat len) (blk s c)) @ drop (unat len) out"
begin

text \<open>The block loop: the first \<open>n\<close> blocks of the output are written, nothing else.\<close>

lemma blocks_loop:
  assumes "ok s" and "64 * n \<le> length out" and "64 * n \<le> length p" and "64 * n < 2 ^ 32"
  shows "\<exists>s'. for_loop 0 n
                (\<lambda>i. at_ptr_st (off32 64 i) (\<lambda>o' s. update o' (drop (off32 64 i) p) s (c + word_of_nat i)))
                (out, s)
              = (xor_bytes (take (64 * n) p) (keystream (blk s) c n) @ drop (64 * n) out, s')
              \<and> ok s' \<and> blk s' = blk s"
  using assms
proof (induction n)
  case 0
  then show ?case by (simp add: keystream_def xor_bytes_def)
next
  case (Suc n)
  then obtain s' where IH:
    "for_loop 0 n (\<lambda>i. at_ptr_st (off32 64 i) (\<lambda>o' s. update o' (drop (off32 64 i) p) s (c + word_of_nat i)))
       (out, s) = (xor_bytes (take (64 * n) p) (keystream (blk s) c n) @ drop (64 * n) out, s')"
    "ok s'" "blk s' = blk s" by auto
  have off: "off32 64 n = 64 * n" using Suc.prems by (intro off32_small) simp_all
  have ks: "length (keystream (blk s) c n) = 64 * n"
    using Suc.prems by (intro length_keystream length_blk) simp
  have tk: "take (64 + 64 * n) p = take (64 * n) p @ take 64 (drop (64 * n) p)"
    by (subst add.commute) (rule take_add)
  have xl: "length (xor_bytes (take (64 * n) p) (keystream (blk s) c n)) = 64 * n"
    using ks Suc.prems by simp
  let ?u = "update (drop (64 * n) out) (drop (64 * n) p) s' (c + word_of_nat n)"
  have "fst ?u = xor_bytes (take 64 (drop (64 * n) p)) (blk s (c + word_of_nat n))
                 @ drop (64 + 64 * n) out"
    using IH Suc.prems by (subst update_out) (simp_all add: add.commute)
  then have "for_loop 0 (Suc n)
      (\<lambda>i. at_ptr_st (off32 64 i) (\<lambda>o' s. update o' (drop (off32 64 i) p) s (c + word_of_nat i))) (out, s)
      = (xor_bytes (take (64 + 64 * n) p) (keystream (blk s) c (Suc n)) @ drop (64 + 64 * n) out, snd ?u)"
    using xl ks Suc.prems
    by (simp add: for_loop_Suc IH at_ptr_st_pair off keystream_Suc tk xor_bytes_append)
  moreover have "ok (snd ?u)" "blk (snd ?u) = blk s"
    using IH by (simp_all add: update_ok update_blk)
  ultimately show ?case by auto
qed

text \<open>The whole counter mode: full blocks, then the partial one when the length asks for it.\<close>

lemma counter_mode:
  assumes "ok s" and len: "unat len \<le> length out" "unat len \<le> length p"
    and mode: "mode = (let (out, s) = for_loop 0 (unat (drop_bit 6 len))
                   (\<lambda>i. at_ptr_st (off32 64 i) (\<lambda>o' s. update o' (drop (off32 64 i) p) s (c + word_of_nat i)))
                   (out, s)
               in if len AND 0x3f > 0
                  then at_ptr_st (unat (64 * drop_bit 6 len))
                         (\<lambda>o' s. update_last o' (drop (unat (64 * drop_bit 6 len)) p) (len AND 0x3f) s
                                   (c + word_of_nat (unat (drop_bit 6 len)))) (out, s)
                  else (out, s))"
  shows "fst mode = ctr_encrypt (blk s) c (take (unat len) p) @ drop (unat len) out"
proof -
  define n r where "n = unat len div 64" and "r = unat len mod 64"
  have nr: "unat len = 64 * n + r" "r < 64" by (simp_all add: n_def r_def)
  have un: "unat (drop_bit 6 len) = n" by (simp add: unat_shr n_def)
  have "(0x3f :: u32) = mask 6" by (simp add: mask_eq_exp_minus_1)
  then have ur: "unat (len AND 0x3f) = r" by (simp only: unat_and_mask r_def) simp
  have bound: "64 * n < 2 ^ 32" using unat_bound [of len] nr by simp
  have uo: "unat (64 * drop_bit 6 len) = 64 * n"
    using bound un by (subst unat_times) simp_all
  obtain s' where loop:
    "for_loop 0 n (\<lambda>i. at_ptr_st (off32 64 i) (\<lambda>o' s. update o' (drop (off32 64 i) p) s (c + word_of_nat i)))
       (out, s) = (xor_bytes (take (64 * n) p) (keystream (blk s) c n) @ drop (64 * n) out, s')"
    "ok s'" "blk s' = blk s"
    using blocks_loop [OF assms(1), of n out p c] bound len nr by auto
  have bl: "length (blk s c') = 64" for c' using assms(1) by (rule length_blk)
  have "(64 * n + 63) div 64 = n" by simp
  then have full: "ctr_encrypt (blk s) c (take (64 * n) p) = xor_bytes (take (64 * n) p) (keystream (blk s) c n)"
    using len nr by (simp add: ctr_encrypt_def)
  show ?thesis
  proof (cases "r = 0")
    case True
    then have "\<not> len AND 0x3f > 0" using ur by (simp add: word_less_nat_alt)
    with True nr show ?thesis by (simp add: mode un loop full)
  next
    case False
    then have pos: "len AND 0x3f > 0" using ur by (simp add: word_less_nat_alt)
    have ks: "length (xor_bytes (take (64 * n) p) (keystream (blk s) c n)) = 64 * n"
      using len nr bl by (simp add: length_keystream)
    have one: "(r + 63) div 64 = 1" using False nr(2) by simp
    have k1: "keystream (blk s) c' (Suc 0) = blk s c'" for c' by (simp add: keystream_def)
    have "fst (update_last (drop (64 * n) out) (drop (64 * n) p) (len AND 0x3f) s' (c + word_of_nat n))
          = xor_bytes (take r (drop (64 * n) p)) (take r (blk s (c + word_of_nat n))) @ drop (unat len) out"
      using loop nr len by (subst last_out) (simp_all add: ur add.commute)
    also have "xor_bytes (take r (drop (64 * n) p)) (take r (blk s (c + word_of_nat n)))
               = ctr_encrypt (blk s) (c + word_of_nat n) (take r (drop (64 * n) p))"
      using nr len bl xor_bytes_take [of "take r (drop (64 * n) p)" "blk s (c + word_of_nat n)"]
      by (simp add: ctr_encrypt_def one k1)
    finally have last: "fst (update_last (drop (64 * n) out) (drop (64 * n) p) (len AND 0x3f) s' (c + word_of_nat n))
          = ctr_encrypt (blk s) (c + word_of_nat n) (take r (drop (64 * n) p)) @ drop (unat len) out" .
    have "ctr_encrypt (blk s) c (take (unat len) p)
          = ctr_encrypt (blk s) c (take (64 * n) p) @ ctr_encrypt (blk s) (c + word_of_nat n) (take r (drop (64 * n) p))"
      using ctr_encrypt_seek [of "blk s" n "take (unat len) p" c] bl len nr
      by (simp add: min_absorb1 drop_take)
    then show ?thesis
      using last ks pos by (simp add: mode un uo loop at_ptr_st_pair full)
  qed
qed

end

end
