(* ===== verification/Salsa20.thy ===== *)
theory Salsa20
  imports Stream_Cipher
begin

text \<open>
  \<open>Hacl_Salsa20.c\<close>: Salsa20 with a 64-bit counter in words 8 and 9 of the state, and the
  key derivation HSalsa20.  The rounds are related to Bernstein's description (row rounds, and
  column rounds as row rounds of the transposed matrix), the stream to counter mode.
\<close>

section \<open>The code\<close>

definition Hacl_Lib_Create_make_h32_4 :: "u32 list \<Rightarrow> u32 \<Rightarrow> u32 \<Rightarrow> u32 \<Rightarrow> u32 \<Rightarrow> u32 list" where
  "Hacl_Lib_Create_make_h32_4 b s0 s1 s2 s3 = b[0 := s0, 1 := s1, 2 := s2, 3 := s3]"

definition Hacl_Lib_Create_make_h32_8 ::
    "u32 list \<Rightarrow> u32 \<Rightarrow> u32 \<Rightarrow> u32 \<Rightarrow> u32 \<Rightarrow> u32 \<Rightarrow> u32 \<Rightarrow> u32 \<Rightarrow> u32 \<Rightarrow> u32 list" where
  "Hacl_Lib_Create_make_h32_8 b s0 s1 s2 s3 s4 s5 s6 s7 =
     (let b = Hacl_Lib_Create_make_h32_4 b s0 s1 s2 s3
      in at_ptr 4 (\<lambda>b. Hacl_Lib_Create_make_h32_4 b s4 s5 s6 s7) b)"

definition Hacl_Lib_Create_make_h32_16 ::
    "u32 list \<Rightarrow> u32 \<Rightarrow> u32 \<Rightarrow> u32 \<Rightarrow> u32 \<Rightarrow> u32 \<Rightarrow> u32 \<Rightarrow> u32 \<Rightarrow> u32 \<Rightarrow>
       u32 \<Rightarrow> u32 \<Rightarrow> u32 \<Rightarrow> u32 \<Rightarrow> u32 \<Rightarrow> u32 \<Rightarrow> u32 \<Rightarrow> u32 \<Rightarrow> u32 list" where
  "Hacl_Lib_Create_make_h32_16 b s0 s1 s2 s3 s4 s5 s6 s7 s8 s9 s10 s11 s12 s13 s14 s15 =
     (let b = Hacl_Lib_Create_make_h32_8 b s0 s1 s2 s3 s4 s5 s6 s7
      in at_ptr 8 (\<lambda>b. Hacl_Lib_Create_make_h32_8 b s8 s9 s10 s11 s12 s13 s14 s15) b)"

definition Hacl_Impl_Salsa20_setup :: "u32 list \<Rightarrow> bytes \<Rightarrow> bytes \<Rightarrow> u64 \<Rightarrow> u32 list" where
  "Hacl_Impl_Salsa20_setup st k n1 c =
     (let k' = replicate 8 0; n' = replicate 2 0;
          k' = Hacl_Lib_LoadStore32_uint32s_from_le_bytes k' k 8;
          n' = Hacl_Lib_LoadStore32_uint32s_from_le_bytes n' n1 2;
          c0 = ucast c; c1 = ucast (drop_bit 32 c);
          k0 = k' ! 0; k1 = k' ! 1; k2 = k' ! 2; k3 = k' ! 3;
          k4 = k' ! 4; k5 = k' ! 5; k6 = k' ! 6; k7 = k' ! 7;
          n0 = n' ! 0; n11 = n' ! 1
      in Hacl_Lib_Create_make_h32_16 st 0x61707865 k0 k1 k2 k3 0x3320646e n0 n11 c0 c1
           0x79622d32 k4 k5 k6 k7 0x6b206574)"

definition Hacl_Impl_Salsa20_line :: "u32 list \<Rightarrow> nat \<Rightarrow> nat \<Rightarrow> nat \<Rightarrow> u32 \<Rightarrow> u32 list" where
  "Hacl_Impl_Salsa20_line st a b d s =
     (let sa = st ! a; sb = st ! b; sd = st ! d;
          sbd = sb + sd;
          sbds = push_bit (unat s) sbd OR drop_bit (unat (32 - s)) sbd
      in st[a := sa XOR sbds])"

definition Hacl_Impl_Salsa20_quarter_round ::
    "u32 list \<Rightarrow> nat \<Rightarrow> nat \<Rightarrow> nat \<Rightarrow> nat \<Rightarrow> u32 list" where
  "Hacl_Impl_Salsa20_quarter_round st a b c d =
     (let st = Hacl_Impl_Salsa20_line st b a d 7;
          st = Hacl_Impl_Salsa20_line st c b a 9;
          st = Hacl_Impl_Salsa20_line st d c b 13;
          st = Hacl_Impl_Salsa20_line st a d c 18
      in st)"

definition Hacl_Impl_Salsa20_double_round :: "u32 list \<Rightarrow> u32 list" where
  "Hacl_Impl_Salsa20_double_round st =
     (let st = Hacl_Impl_Salsa20_quarter_round st 0 4 8 12;
          st = Hacl_Impl_Salsa20_quarter_round st 5 9 13 1;
          st = Hacl_Impl_Salsa20_quarter_round st 10 14 2 6;
          st = Hacl_Impl_Salsa20_quarter_round st 15 3 7 11;
          st = Hacl_Impl_Salsa20_quarter_round st 0 1 2 3;
          st = Hacl_Impl_Salsa20_quarter_round st 5 6 7 4;
          st = Hacl_Impl_Salsa20_quarter_round st 10 11 8 9;
          st = Hacl_Impl_Salsa20_quarter_round st 15 12 13 14
      in st)"

definition Hacl_Impl_Salsa20_rounds :: "u32 list \<Rightarrow> u32 list" where
  "Hacl_Impl_Salsa20_rounds st = for_loop 0 10 (\<lambda>i st. Hacl_Impl_Salsa20_double_round st) st"

definition Hacl_Impl_Salsa20_sum_states :: "u32 list \<Rightarrow> u32 list \<Rightarrow> u32 list" where
  "Hacl_Impl_Salsa20_sum_states st st' =
     for_loop 0 16 (\<lambda>i st. let xi = st ! i; yi = st' ! i in st[i := xi + yi]) st"

definition Hacl_Impl_Salsa20_copy_state :: "u32 list \<Rightarrow> u32 list \<Rightarrow> u32 list" where
  "Hacl_Impl_Salsa20_copy_state st st' = memcpy st st' 16"

text \<open>Writes \<open>k\<close> and the counter words of \<open>st\<close>; returns both.\<close>

definition Hacl_Impl_Salsa20_salsa20_core :: "u32 list \<Rightarrow> u32 list \<Rightarrow> u64 \<Rightarrow> u32 list \<times> u32 list" where
  "Hacl_Impl_Salsa20_salsa20_core k st ctr =
     (let c0 = ucast ctr; c1 = ucast (drop_bit 32 ctr);
          st = st[8 := c0]; st = st[9 := c1];
          k = Hacl_Impl_Salsa20_copy_state k st;
          k = Hacl_Impl_Salsa20_rounds k;
          k = Hacl_Impl_Salsa20_sum_states k st
      in (k, st))"

definition Hacl_Impl_Salsa20_salsa20_block :: "bytes \<Rightarrow> u32 list \<Rightarrow> u64 \<Rightarrow> bytes \<times> u32 list" where
  "Hacl_Impl_Salsa20_salsa20_block stream_block st ctr =
     (let st' = replicate 16 0;
          (st', st) = Hacl_Impl_Salsa20_salsa20_core st' st ctr
      in (Hacl_Lib_LoadStore32_uint32s_to_le_bytes stream_block st' 16, st))"

definition Hacl_Impl_Salsa20_init :: "u32 list \<Rightarrow> bytes \<Rightarrow> bytes \<Rightarrow> u32 list" where
  "Hacl_Impl_Salsa20_init st k n1 = Hacl_Impl_Salsa20_setup st k n1 0"

definition Hacl_Impl_Salsa20_update_last ::
    "bytes \<Rightarrow> bytes \<Rightarrow> u32 \<Rightarrow> u32 list \<Rightarrow> u64 \<Rightarrow> bytes \<times> u32 list" where
  "Hacl_Impl_Salsa20_update_last output plain len st ctr =
     (let block = replicate 64 0;
          (block, st) = Hacl_Impl_Salsa20_salsa20_block block st ctr;
          mask = block;
          output = for_loop 0 (unat len)
                     (\<lambda>i output. let xi = plain ! i; yi = mask ! i in output[i := xi XOR yi]) output
      in (output, st))"

definition Hacl_Impl_Salsa20_update :: "bytes \<Rightarrow> bytes \<Rightarrow> u32 list \<Rightarrow> u64 \<Rightarrow> bytes \<times> u32 list" where
  "Hacl_Impl_Salsa20_update output plain st ctr =
     (let k = replicate 16 0; ib = replicate 16 0; ob = replicate 16 0;
          (k, st) = Hacl_Impl_Salsa20_salsa20_core k st ctr;
          ib = Hacl_Lib_LoadStore32_uint32s_from_le_bytes ib plain 16;
          ob = for_loop 0 16 (\<lambda>i ob. let xi = ib ! i; yi = k ! i in ob[i := xi XOR yi]) ob
      in (Hacl_Lib_LoadStore32_uint32s_to_le_bytes output ob 16, st))"

definition Hacl_Impl_Salsa20_salsa20_counter_mode_blocks ::
    "bytes \<Rightarrow> bytes \<Rightarrow> u32 \<Rightarrow> u32 list \<Rightarrow> u64 \<Rightarrow> bytes \<times> u32 list" where
  "Hacl_Impl_Salsa20_salsa20_counter_mode_blocks output plain len st ctr =
     for_loop 0 (unat len)
       (\<lambda>i. at_ptr_st (off32 64 i)
              (\<lambda>o' st. Hacl_Impl_Salsa20_update o' (drop (off32 64 i) plain) st (ctr + word_of_nat i)))
       (output, st)"

definition Hacl_Impl_Salsa20_salsa20_counter_mode ::
    "bytes \<Rightarrow> bytes \<Rightarrow> u32 \<Rightarrow> u32 list \<Rightarrow> u64 \<Rightarrow> bytes \<times> u32 list" where
  "Hacl_Impl_Salsa20_salsa20_counter_mode output plain len st ctr =
     (let blocks_len = drop_bit 6 len;
          part_len = len AND 0x3f;
          off = unat (64 * blocks_len);
          (output, st) =
            Hacl_Impl_Salsa20_salsa20_counter_mode_blocks output plain blocks_len st ctr
      in if part_len > 0
         then at_ptr_st off (\<lambda>o' st. Hacl_Impl_Salsa20_update_last o' (drop off plain) part_len st
                                        (ctr + ucast blocks_len)) (output, st)
         else (output, st))"

definition Hacl_Impl_Salsa20_salsa20 ::
    "bytes \<Rightarrow> bytes \<Rightarrow> u32 \<Rightarrow> bytes \<Rightarrow> bytes \<Rightarrow> u64 \<Rightarrow> bytes" where
  "Hacl_Impl_Salsa20_salsa20 output plain len k n1 ctr =
     (let st = replicate 16 0;
          st = Hacl_Impl_Salsa20_init st k n1;
          (output, st) = Hacl_Impl_Salsa20_salsa20_counter_mode output plain len st ctr
      in output)"

definition Hacl_Impl_HSalsa20_setup :: "u32 list \<Rightarrow> bytes \<Rightarrow> bytes \<Rightarrow> u32 list" where
  "Hacl_Impl_HSalsa20_setup st k n1 =
     (let k' = replicate 8 0; n' = replicate 4 0;
          k' = Hacl_Lib_LoadStore32_uint32s_from_le_bytes k' k 8;
          n' = Hacl_Lib_LoadStore32_uint32s_from_le_bytes n' n1 4;
          k0 = k' ! 0; k1 = k' ! 1; k2 = k' ! 2; k3 = k' ! 3;
          k4 = k' ! 4; k5 = k' ! 5; k6 = k' ! 6; k7 = k' ! 7;
          n0 = n' ! 0; n11 = n' ! 1; n2 = n' ! 2; n3 = n' ! 3
      in Hacl_Lib_Create_make_h32_16 st 0x61707865 k0 k1 k2 k3 0x3320646e n0 n11 n2 n3
           0x79622d32 k4 k5 k6 k7 0x6b206574)"

definition Hacl_Impl_HSalsa20_crypto_core_hsalsa20 :: "bytes \<Rightarrow> bytes \<Rightarrow> bytes \<Rightarrow> bytes" where
  "Hacl_Impl_HSalsa20_crypto_core_hsalsa20 output nonce key =
     (let st = replicate 16 0; hs = replicate 8 0;
          st = Hacl_Impl_HSalsa20_setup st key nonce;
          st = Hacl_Impl_Salsa20_rounds st;
          hs0 = st ! 0; hs1 = st ! 5; hs2 = st ! 10; hs3 = st ! 15;
          hs4 = st ! 6; hs5 = st ! 7; hs6 = st ! 8; hs7 = st ! 9;
          hs = Hacl_Lib_Create_make_h32_8 hs hs0 hs1 hs2 hs3 hs4 hs5 hs6 hs7
      in Hacl_Lib_LoadStore32_uint32s_to_le_bytes output hs 8)"

definition Hacl_Salsa20_salsa20 :: "bytes \<Rightarrow> bytes \<Rightarrow> u32 \<Rightarrow> bytes \<Rightarrow> bytes \<Rightarrow> u64 \<Rightarrow> bytes" where
  "Hacl_Salsa20_salsa20 output plain len k n1 ctr = Hacl_Impl_Salsa20_salsa20 output plain len k n1 ctr"

definition Hacl_Salsa20_hsalsa20 :: "bytes \<Rightarrow> bytes \<Rightarrow> bytes \<Rightarrow> bytes" where
  "Hacl_Salsa20_hsalsa20 output key nonce = Hacl_Impl_HSalsa20_crypto_core_hsalsa20 output nonce key"

section \<open>Bernstein's description\<close>

definition salsa_qr :: "quad \<Rightarrow> quad" where
  "salsa_qr = (\<lambda>(y0, y1, y2, y3).
     let z1 = y1 XOR word_rotl 7 (y0 + y3);
         z2 = y2 XOR word_rotl 9 (z1 + y0);
         z3 = y3 XOR word_rotl 13 (z2 + z1);
         z0 = y0 XOR word_rotl 18 (z3 + z2)
     in (z0, z1, z2, z3))"

text \<open>Row \<open>i\<close> is rotated so that its quarter round starts on the diagonal.\<close>

definition row_round :: "matrix4 \<Rightarrow> matrix4" where
  "row_round = (\<lambda>(r0, r1, r2, r3).
     (salsa_qr r0,
      rot_left (rot_left (rot_left (salsa_qr (rot_left r1)))),
      rot_left (rot_left (salsa_qr (rot_left (rot_left r2)))),
      rot_left (salsa_qr (rot_left (rot_left (rot_left r3))))))"

definition transpose4 :: "matrix4 \<Rightarrow> matrix4" where
  "transpose4 = (\<lambda>(r0, r1, r2, r3). columns r0 r1 r2 r3)"

definition salsa_double_round :: "matrix4 \<Rightarrow> matrix4" where
  "salsa_double_round m = row_round (transpose4 (row_round (transpose4 m)))"

definition salsa_words :: "u32 list \<Rightarrow> u32 list" where
  "salsa_words s = map2 (+) (matrix_list ((salsa_double_round ^^ 10) (list_matrix s))) s"

text \<open>The initial matrix, with the two halves of the counter in the diagonal's row 2.\<close>

definition salsa_matrix :: "bytes \<Rightarrow> u32 list \<Rightarrow> u32 list" where
  "salsa_matrix key n =
     (let k = words_le 8 key
      in [0x61707865] @ take 4 k @ [0x3320646e] @ n @ [0x79622d32] @ drop 4 k @ [0x6b206574])"

definition counter_words :: "u64 \<Rightarrow> u32 list" where
  "counter_words c = [ucast c, ucast (drop_bit 32 c)]"

definition salsa20_block_spec :: "bytes \<Rightarrow> bytes \<Rightarrow> u64 \<Rightarrow> bytes" where
  "salsa20_block_spec key nonce c =
     bytes_le (salsa_words (salsa_matrix key (words_le 2 nonce @ counter_words c)))"

definition hsalsa20_spec :: "bytes \<Rightarrow> bytes \<Rightarrow> bytes" where
  "hsalsa20_spec key nonce =
     (let z = matrix_list ((salsa_double_round ^^ 10) (list_matrix (salsa_matrix key (words_le 4 nonce))))
      in bytes_le (map (\<lambda>i. z ! i) [0, 5, 10, 15, 6, 7, 8, 9]))"

section \<open>The rounds and the block\<close>

lemma line_eq:
  assumes "0 < unat s" and "unat s < 32"
  shows "Hacl_Impl_Salsa20_line st a b d s = st[a := st ! a XOR word_rotl (unat s) (st ! b + st ! d)]"
  using assms by (simp add: Hacl_Impl_Salsa20_line_def Let_def unat_minus rotl_shifts)

lemma salsa_quarter_round_eq:
  assumes "distinct [a, b, c, d]" and "a < length st" "b < length st" "c < length st" "d < length st"
    and "salsa_qr (st ! a, st ! b, st ! c, st ! d) = (qa, qb, qc, qd)"
  shows "Hacl_Impl_Salsa20_quarter_round st a b c d = st[a := qa, b := qb, c := qc, d := qd]"
proof (rule nth_equalityI)
  fix i assume "i < length (Hacl_Impl_Salsa20_quarter_round st a b c d)"
  then have "i < length st"
    by (simp add: Hacl_Impl_Salsa20_quarter_round_def Let_def line_eq)
  with assms show "Hacl_Impl_Salsa20_quarter_round st a b c d ! i
                   = st[a := qa, b := qb, c := qc, d := qd] ! i"
    by (auto simp: Hacl_Impl_Salsa20_quarter_round_def salsa_qr_def Let_def line_eq nth_list_update)
qed (simp add: Hacl_Impl_Salsa20_quarter_round_def Let_def line_eq)

lemma salsa_column_rounds_eq:
  "(let st = Hacl_Impl_Salsa20_quarter_round (matrix_list m) 0 4 8 12;
        st = Hacl_Impl_Salsa20_quarter_round st 5 9 13 1;
        st = Hacl_Impl_Salsa20_quarter_round st 10 14 2 6
    in Hacl_Impl_Salsa20_quarter_round st 15 3 7 11)
   = matrix_list (transpose4 (row_round (transpose4 m)))"
proof -
  obtain x0 x1 x2 x3 x4 x5 x6 x7 x8 x9 x10 x11 x12 x13 x14 x15 where
    m: "m = ((x0, x1, x2, x3), (x4, x5, x6, x7), (x8, x9, x10, x11), (x12, x13, x14, x15))"
    by (metis prod_cases4)
  obtain y0 y4 y8 y12 where q0: "salsa_qr (x0, x4, x8, x12) = (y0, y4, y8, y12)" by (metis prod_cases4)
  obtain y1 y5 y9 y13 where q1: "salsa_qr (x5, x9, x13, x1) = (y5, y9, y13, y1)" by (metis prod_cases4)
  obtain y2 y6 y10 y14 where q2: "salsa_qr (x10, x14, x2, x6) = (y10, y14, y2, y6)" by (metis prod_cases4)
  obtain y3 y7 y11 y15 where q3: "salsa_qr (x15, x3, x7, x11) = (y15, y3, y7, y11)" by (metis prod_cases4)
  show ?thesis
    by (simp add: m matrix_list_def row_round_def transpose4_def rot_left_def columns_def q0 q1 q2 q3
          Let_def salsa_quarter_round_eq)
qed

lemma row_rounds_eq:
  "(let st = Hacl_Impl_Salsa20_quarter_round (matrix_list m) 0 1 2 3;
        st = Hacl_Impl_Salsa20_quarter_round st 5 6 7 4;
        st = Hacl_Impl_Salsa20_quarter_round st 10 11 8 9
    in Hacl_Impl_Salsa20_quarter_round st 15 12 13 14) = matrix_list (row_round m)"
proof -
  obtain x0 x1 x2 x3 x4 x5 x6 x7 x8 x9 x10 x11 x12 x13 x14 x15 where
    m: "m = ((x0, x1, x2, x3), (x4, x5, x6, x7), (x8, x9, x10, x11), (x12, x13, x14, x15))"
    by (metis prod_cases4)
  obtain y0 y1 y2 y3 where q0: "salsa_qr (x0, x1, x2, x3) = (y0, y1, y2, y3)" by (metis prod_cases4)
  obtain y5 y6 y7 y4 where q1: "salsa_qr (x5, x6, x7, x4) = (y5, y6, y7, y4)" by (metis prod_cases4)
  obtain y10 y11 y8 y9 where q2: "salsa_qr (x10, x11, x8, x9) = (y10, y11, y8, y9)" by (metis prod_cases4)
  obtain y15 y12 y13 y14 where q3: "salsa_qr (x15, x12, x13, x14) = (y15, y12, y13, y14)"
    by (metis prod_cases4)
  show ?thesis
    by (simp add: m matrix_list_def row_round_def rot_left_def q0 q1 q2 q3 Let_def salsa_quarter_round_eq)
qed

lemma salsa_double_round_eq:
  "Hacl_Impl_Salsa20_double_round (matrix_list m) = matrix_list (salsa_double_round m)"
  using salsa_column_rounds_eq [of m] row_rounds_eq [of "transpose4 (row_round (transpose4 m))"]
  by (simp add: Hacl_Impl_Salsa20_double_round_def salsa_double_round_def Let_def)

lemma salsa_rounds_eq:
  "Hacl_Impl_Salsa20_rounds (matrix_list m) = matrix_list ((salsa_double_round ^^ 10) m)"
proof -
  have "for_loop 0 n (\<lambda>i. Hacl_Impl_Salsa20_double_round) (matrix_list m)
        = matrix_list ((salsa_double_round ^^ n) m)" for n
    by (induction n) (simp_all add: for_loop_Suc salsa_double_round_eq)
  then show ?thesis by (simp add: Hacl_Impl_Salsa20_rounds_def)
qed

lemma salsa_core_eq:
  assumes "length k = 16" and "length st = 16"
  shows "Hacl_Impl_Salsa20_salsa20_core k st ctr
         = (let st' = st[8 := ucast ctr, 9 := ucast (drop_bit 32 ctr)] in (salsa_words st', st'))"
proof -
  let ?st = "st[8 := ucast ctr, 9 := ucast (drop_bit 32 ctr)]"
  have "Hacl_Impl_Salsa20_copy_state k ?st = matrix_list (list_matrix ?st)"
    using assms by (simp add: Hacl_Impl_Salsa20_copy_state_def memcpy_all matrix_list_inv)
  moreover have "Hacl_Impl_Salsa20_sum_states w ?st = map2 (+) w ?st" if "length w = 16" for w
    unfolding Hacl_Impl_Salsa20_sum_states_def using assms that by (intro add_words_loop) simp_all
  ultimately show ?thesis
    using assms by (simp add: Hacl_Impl_Salsa20_salsa20_core_def Let_def salsa_rounds_eq salsa_words_def)
qed

lemma length_salsa_words [simp]: "length st = 16 \<Longrightarrow> length (salsa_words st) = 16"
  by (simp add: salsa_words_def)

definition salsa_blk :: "u32 list \<Rightarrow> u64 \<Rightarrow> bytes" where
  "salsa_blk st c = bytes_le (salsa_words (st[8 := ucast c, 9 := ucast (drop_bit 32 c)]))"

lemma length_salsa_blk: "length st = 16 \<Longrightarrow> length (salsa_blk st c) = 64"
  by (simp add: salsa_blk_def)

lemma salsa_block_eq:
  "length st = 16 \<Longrightarrow> 64 \<le> length out \<Longrightarrow>
   Hacl_Impl_Salsa20_salsa20_block out st c
   = (salsa_blk st c @ drop 64 out, st[8 := ucast c, 9 := ucast (drop_bit 32 c)])"
  by (simp add: Hacl_Impl_Salsa20_salsa20_block_def Let_def salsa_core_eq buf salsa_blk_def)

lemma make_h32_16_eq:
  "length b = 16 \<Longrightarrow>
   Hacl_Lib_Create_make_h32_16 b s0 s1 s2 s3 s4 s5 s6 s7 s8 s9 s10 s11 s12 s13 s14 s15
   = [s0, s1, s2, s3, s4, s5, s6, s7, s8, s9, s10, s11, s12, s13, s14, s15]"
  by (erule list16E)
     (simp add: Hacl_Lib_Create_make_h32_16_def Hacl_Lib_Create_make_h32_8_def
       Hacl_Lib_Create_make_h32_4_def at_ptr_def)

lemma make_h32_8_eq:
  "Hacl_Lib_Create_make_h32_8 (replicate 8 0) s0 s1 s2 s3 s4 s5 s6 s7 = [s0, s1, s2, s3, s4, s5, s6, s7]"
  by (simp add: Hacl_Lib_Create_make_h32_8_def Hacl_Lib_Create_make_h32_4_def at_ptr_def
       numeral_eq_Suc)

lemma salsa_init_eq:
  "length st = 16 \<Longrightarrow>
   Hacl_Impl_Salsa20_init st k n1 = salsa_matrix k (words_le 2 n1 @ counter_words 0)"
  by (simp add: Hacl_Impl_Salsa20_init_def Hacl_Impl_Salsa20_setup_def Let_def buf make_h32_16_eq
       salsa_matrix_def counter_words_def words_le_def upt_rec)

lemma hsetup_eq:
  "length st = 16 \<Longrightarrow> Hacl_Impl_HSalsa20_setup st k n1 = salsa_matrix k (words_le 4 n1)"
  by (simp add: Hacl_Impl_HSalsa20_setup_def Let_def buf make_h32_16_eq salsa_matrix_def words_le_def upt_rec)

lemma length_salsa_matrix [simp]: "length n = 4 \<Longrightarrow> length (salsa_matrix k n) = 16"
  by (simp add: salsa_matrix_def Let_def)

lemma length_counter_words [simp]: "length (counter_words c) = 2"
  by (simp add: counter_words_def)

lemma salsa_blk_state [simp]:
  "salsa_blk (salsa_matrix k (words_le 2 n @ counter_words c0)) = salsa20_block_spec k n"
  by (rule ext)
     (simp add: salsa_blk_def salsa20_block_spec_def salsa_matrix_def counter_words_def Let_def
       words_le_def upt_rec)

lemma salsa_length_block_spec [simp]: "length (salsa20_block_spec k n c) = 64"
  by (simp add: salsa20_block_spec_def)

lemma salsa_update_eq:
  assumes "length st = 16" and "64 \<le> length out" and "64 \<le> length p"
  shows "Hacl_Impl_Salsa20_update out p st c
         = (xor_bytes (take 64 p) (salsa_blk st c) @ drop 64 out,
            st[8 := ucast c, 9 := ucast (drop_bit 32 c)])"
proof -
  let ?w = "salsa_words (st[8 := ucast c, 9 := ucast (drop_bit 32 c)])"
  have l: "length ?w = 16" using assms by simp
  have "bytes_le (map2 (XOR) (words_le 16 p) ?w) = xor_bytes (take 64 p) (salsa_blk st c)"
    using l assms(3) bytes_words_le [of 16 p] by (simp add: bytes_le_xor salsa_blk_def)
  then show ?thesis
    using assms l xor_words_loop [of "replicate 16 0" 16 "words_le 16 p" ?w]
    by (simp add: Hacl_Impl_Salsa20_update_def Let_def salsa_core_eq buf)
qed

lemma salsa_update_last_eq:
  assumes "length st = 16" and "unat len \<le> 64" and "unat len \<le> length out" and "unat len \<le> length p"
  shows "Hacl_Impl_Salsa20_update_last out p len st c
         = (xor_bytes (take (unat len) p) (take (unat len) (salsa_blk st c)) @ drop (unat len) out,
            st[8 := ucast c, 9 := ucast (drop_bit 32 c)])"
  using assms length_salsa_blk [OF assms(1), of c] xor_loop [of "unat len" out p "salsa_blk st c"]
  by (simp add: Hacl_Impl_Salsa20_update_last_def salsa_block_eq)

section \<open>The stream is counter mode\<close>

lemma update_state:
  assumes "length st = 16"
  shows "length (snd (Hacl_Impl_Salsa20_update out p st c)) = 16"
    and "salsa_blk (snd (Hacl_Impl_Salsa20_update out p st c)) = salsa_blk st"
  using assms
  by (auto simp: Hacl_Impl_Salsa20_update_def salsa_core_eq Let_def salsa_blk_def list_update_swap [of 9 8])

interpretation salsa: counter_cipher salsa_blk "\<lambda>st. length st = 16"
    Hacl_Impl_Salsa20_update Hacl_Impl_Salsa20_update_last
  by unfold_locales (simp_all add: salsa_update_eq salsa_update_last_eq update_state length_salsa_blk)

lemma salsa20_eq:
  assumes "unat len \<le> length out" and "unat len \<le> length m"
  shows "Hacl_Salsa20_salsa20 out m len k n ctr
         = ctr_encrypt (salsa20_block_spec k n) ctr (take (unat len) m) @ drop (unat len) out"
proof -
  let ?st = "salsa_matrix k (words_le 2 n @ counter_words 0)"
  have "fst (Hacl_Impl_Salsa20_salsa20_counter_mode out m len ?st ctr)
        = ctr_encrypt (salsa20_block_spec k n) ctr (take (unat len) m) @ drop (unat len) out"
    unfolding salsa_blk_state [of k n 0, symmetric]
    by (rule salsa.counter_mode [OF _ assms])
       (simp_all add: Hacl_Impl_Salsa20_salsa20_counter_mode_def
          Hacl_Impl_Salsa20_salsa20_counter_mode_blocks_def Let_def)
  then show ?thesis
    by (simp add: Hacl_Salsa20_salsa20_def Hacl_Impl_Salsa20_salsa20_def salsa_init_eq split_beta)
qed

lemma hsalsa20_eq:
  assumes "32 \<le> length out"
  shows "Hacl_Salsa20_hsalsa20 out k n = hsalsa20_spec k n @ drop 32 out"
proof -
  define z where
    "z = matrix_list ((salsa_double_round ^^ 10) (list_matrix (salsa_matrix k (words_le 4 n))))"
  have "Hacl_Impl_Salsa20_rounds (salsa_matrix k (words_le 4 n)) = z"
    using salsa_rounds_eq [of "list_matrix (salsa_matrix k (words_le 4 n))"]
    by (simp add: z_def matrix_list_inv)
  then show ?thesis
    using assms
    by (simp add: Hacl_Salsa20_hsalsa20_def Hacl_Impl_HSalsa20_crypto_core_hsalsa20_def hsetup_eq
          make_h32_8_eq Let_def buf hsalsa20_spec_def z_def [symmetric])
qed

lemma salsa20_key: "length k = 32 \<Longrightarrow> salsa20_block_spec (k @ x) n = salsa20_block_spec k n"
  by (rule ext) (simp add: salsa20_block_spec_def salsa_matrix_def words_le_append)

lemma hsalsa20_key: "length k = 32 \<Longrightarrow> hsalsa20_spec (k @ x) n = hsalsa20_spec k n"
  by (simp add: hsalsa20_spec_def salsa_matrix_def words_le_append)

lemma length_hsalsa20 [simp]: "length (hsalsa20_spec k n) = 32"
  by (simp add: hsalsa20_spec_def Let_def)

lemma salsa20_twice:
  assumes "unat len = length m" and "length out = length m" and "length out' = length m"
  shows "Hacl_Salsa20_salsa20 out' (Hacl_Salsa20_salsa20 out m len k n ctr) len k n ctr = m"
  using assms by (simp add: salsa20_eq ctr_encrypt_twice)

text \<open>
  C38: Salsa20 encryption writes the exclusive or of the first \<open>len\<close> message bytes with the key
  stream of Bernstein's blocks for the 64-bit counters \<open>ctr, ctr + 1, ...\<close>, nothing else, and
  is its own inverse.
\<close>

theorem salsa20_counter_mode:
  assumes "unat len \<le> length out" and "unat len \<le> length m" and "length out' = unat len"
  shows "Hacl_Salsa20_salsa20 out m len k n ctr
         = ctr_encrypt (salsa20_block_spec k n) ctr (take (unat len) m) @ drop (unat len) out
         \<and> Hacl_Salsa20_salsa20 out' (Hacl_Salsa20_salsa20 out m len k n ctr) len k n ctr
           = take (unat len) m"
  using assms by (simp add: salsa20_eq ctr_encrypt_twice)

theorem salsa20_counter_mode_witness:
  "Hacl_Salsa20_salsa20 [0, 0, 5] [1, 2] 2 [] [] 7
     = ctr_encrypt (salsa20_block_spec [] []) 7 [1, 2] @ [5]
   \<and> Hacl_Salsa20_salsa20 [0, 0] (Hacl_Salsa20_salsa20 [0, 0, 5] [1, 2] 2 [] [] 7) 2 [] [] 7 = [1, 2]"
  by (rule salsa20_counter_mode [of 2 "[0, 0, 5]" "[1, 2]" "[0, 0]" "[]" "[]" 7, simplified])

text \<open>
  The derived key is the first and last four words (the diagonal and the input block) of
  the 20-round permutation of the matrix of key and nonce, without the final addition.
\<close>

theorem hsalsa20_refines:
  assumes "32 \<le> length out"
  shows "Hacl_Salsa20_hsalsa20 out k n = hsalsa20_spec k n @ drop 32 out"
  using assms by (rule hsalsa20_eq)

theorem hsalsa20_refines_witness:
  "Hacl_Salsa20_hsalsa20 (replicate 33 5) (replicate 32 1) (replicate 16 2)
   = hsalsa20_spec (replicate 32 1) (replicate 16 2) @ [5]"
  using hsalsa20_refines [of "replicate 33 5" "replicate 32 1" "replicate 16 2"]
  by (simp add: drop_replicate)

end
