(* ===== verification/Sha2_Constants.thy ===== *)
theory Sha2_Constants
  imports Prelude
begin

text \<open>
  The constants of FIPS 180-4, computed from what the standard says they are: the first bits of
  the fractional parts of cube roots (round constants) and square roots (initial values) of the
  first primes.  The tables written in the C code are compared with these.
\<close>

text \<open>The primes below 410, two and odd numbers: a composite below 410 has a prime factor of at most 19.\<close>

definition small_primes :: "nat list" where
  "small_primes =
     2 # filter (\<lambda>p. list_all (\<lambda>d. p mod d \<noteq> 0 \<or> p = d) [3, 5, 7, 11, 13, 17, 19])
           (map (\<lambda>i. 2 * i + 1) [1..<205])"

text \<open>The integer part of the \<open>e\<close>-th root of \<open>n\<close>, found bit by bit from bit \<open>b - 1\<close> down.\<close>

fun root_bits :: "nat \<Rightarrow> nat \<Rightarrow> nat \<Rightarrow> nat \<Rightarrow> nat" where
  "root_bits e n 0 r = r"
| "root_bits e n (Suc b) r = root_bits e n b (if (r + 2 ^ b) ^ e \<le> n then r + 2 ^ b else r)"

text \<open>The first \<open>w\<close> bits of the fractional part of the \<open>e\<close>-th root of \<open>p\<close>, a root below 8.\<close>

definition frac_const :: "nat \<Rightarrow> nat \<Rightarrow> nat \<Rightarrow> nat" where
  "frac_const e w p = root_bits e (p * 2 ^ (w * e)) (w + 3) 0 mod 2 ^ w"

definition root_consts :: "nat \<Rightarrow> nat list \<Rightarrow> 'w::len word list" where
  "root_consts e ps = map (\<lambda>p. word_of_nat (frac_const e LENGTH('w) p)) ps"

section \<open>Checking a table\<close>

lemma root_bits_bounds:
  "0 < e \<Longrightarrow> r ^ e \<le> n \<Longrightarrow> n < (r + 2 ^ b) ^ e \<Longrightarrow>
   root_bits e n b r ^ e \<le> n \<and> n < (root_bits e n b r + 1) ^ e"
proof (induction b arbitrary: r)
  case (Suc b)
  show ?case
  proof (cases "(r + 2 ^ b) ^ e \<le> n")
    case True
    then show ?thesis using Suc.IH [of "r + 2 ^ b"] Suc.prems by (simp add: add.assoc mult_2 [symmetric])
  next
    case False
    then show ?thesis using Suc.IH [of r] Suc.prems by simp
  qed
qed simp

lemma root_unique:
  fixes x y n :: nat
  assumes "x ^ e \<le> n" "n < (x + 1) ^ e" "y ^ e \<le> n" "n < (y + 1) ^ e"
  shows "x = y"
proof (rule ccontr)
  assume "x \<noteq> y"
  then consider "x + 1 \<le> y" | "y + 1 \<le> x" by linarith
  then show False
  proof cases
    case 1
    then have "(x + 1) ^ e \<le> y ^ e" by (rule power_mono) simp
    with assms show False by linarith
  next
    case 2
    then have "(y + 1) ^ e \<le> x ^ e" by (rule power_mono) simp
    with assms show False by linarith
  qed
qed

text \<open>The integer part of a root below 8, and the check of one constant with two powers.\<close>

definition int_root :: "nat \<Rightarrow> nat \<Rightarrow> nat" where
  "int_root e n = length (filter (\<lambda>i. i ^ e \<le> n) [1..<9])"

definition frac_root :: "nat \<Rightarrow> nat \<Rightarrow> nat \<Rightarrow> nat \<Rightarrow> bool" where
  "frac_root e w p k \<longleftrightarrow>
     0 < e \<and> p < 8 ^ e \<and> k < 2 ^ w \<and> (int_root e p * 2 ^ w + k) ^ e \<le> p * 2 ^ (w * e)
     \<and> p * 2 ^ (w * e) < (int_root e p * 2 ^ w + k + 1) ^ e"

lemma frac_root_const:
  assumes "frac_root e w p k"
  shows "frac_const e w p = k"
proof -
  let ?n = "p * 2 ^ (w * e)"
  let ?r = "root_bits e ?n (w + 3) 0"
  have a: "0 < e" "p < 8 ^ e" "k < 2 ^ w" "(int_root e p * 2 ^ w + k) ^ e \<le> ?n"
    "?n < (int_root e p * 2 ^ w + k + 1) ^ e"
    using assms by (simp_all add: frac_root_def)
  have "?n < 8 ^ e * 2 ^ (w * e)" using a(2) by simp
  also have "\<dots> = (0 + 2 ^ (w + 3)) ^ e" by (simp add: power_add power_mult_distrib power_mult)
  finally have "?r ^ e \<le> ?n \<and> ?n < (?r + 1) ^ e"
    using a(1) by (intro root_bits_bounds) (simp_all add: zero_power)
  then have "?r = int_root e p * 2 ^ w + k" using a root_unique [of ?r e ?n] by blast
  then show ?thesis using a(3) by (simp add: frac_const_def)
qed

lemma root_consts_eq:
  "list_all2 (frac_root e LENGTH('w)) ps (map unat ks) \<Longrightarrow> root_consts e ps = (ks :: 'w::len word list)"
proof (induction ps arbitrary: ks)
  case (Cons p ps)
  then obtain k ks' where "ks = k # ks'" "frac_root e LENGTH('w) p (unat k)"
    "list_all2 (frac_root e LENGTH('w)) ps (map unat ks')"
    by (auto simp: list_all2_Cons1)
  with Cons.IH [of ks'] frac_root_const [of e "LENGTH('w)" p "unat k"] show ?case
    by (simp add: root_consts_def)
qed (simp add: root_consts_def)

lemma len_32: "LENGTH(32) = 32" and len_64: "LENGTH(64) = 64"
  by simp_all

lemma list_all2_parts:
  "list_all2 P (take n xs) (map f (take n ys)) \<Longrightarrow> list_all2 P (drop n xs) (map f (drop n ys)) \<Longrightarrow>
   list_all2 P xs (map f ys)"
  using list_all2_appendI [of P "take n xs" "map f (take n ys)" "drop n xs" "map f (drop n ys)"]
  by (simp flip: map_append)

lemma small_primes_eq:
  "small_primes =
     [2, 3, 5, 7, 11, 13, 17, 19, 23, 29, 31, 37, 41, 43, 47, 53, 59, 61, 67, 71, 73, 79, 83, 89, 97,
      101, 103, 107, 109, 113, 127, 131, 137, 139, 149, 151, 157, 163, 167, 173, 179, 181, 191, 193,
      197, 199, 211, 223, 227, 229, 233, 239, 241, 251, 257, 263, 269, 271, 277, 281, 283, 293, 307,
      311, 313, 317, 331, 337, 347, 349, 353, 359, 367, 373, 379, 383, 389, 397, 401, 409]"
  by (simp add: small_primes_def upt_rec)

lemma int_root_eq:
  "int_root e n = (if 8 ^ e \<le> n then 1 else 0) + (if 7 ^ e \<le> n then 1 else 0)
     + (if 6 ^ e \<le> n then 1 else 0) + (if 5 ^ e \<le> n then 1 else 0) + (if 4 ^ e \<le> n then 1 else 0)
     + (if 3 ^ e \<le> n then 1 else 0) + (if 2 ^ e \<le> n then 1 else 0) + (if 1 ^ e \<le> n then 1 else 0)"
proof -
  have "[1..<9] = [1, 2, 3, 4, 5, 6, 7, 8 :: nat]" by (simp add: upt_rec)
  then show ?thesis unfolding int_root_def by simp
qed

lemmas root_check = small_primes_eq frac_root_def int_root_eq

lemma length_root_consts [simp]: "length (root_consts e ps) = length ps"
  by (simp add: root_consts_def)

lemma length_small_primes [simp]: "length small_primes = 80"
  by (simp add: small_primes_eq)

text \<open>Four consecutive assignments, as the initialisation writes its tables.\<close>

lemma write4_first:
  "4 \<le> length s \<Longrightarrow>
   at_ptr 0 (\<lambda>b. b[0 := w, 1 := x, 2 := y, 3 := z]) s = [w, x, y, z] @ drop 4 s"
  by (cases s rule: list.exhaust; cases "tl s"; cases "tl (tl s)"; cases "tl (tl (tl s))")
     (auto simp: at_ptr_def)

lemma write4_next:
  "length xs = off \<Longrightarrow> 4 \<le> length s \<Longrightarrow>
   at_ptr off (\<lambda>b. b[0 := w, 1 := x, 2 := y, 3 := z]) (xs @ s) = (xs @ [w, x, y, z]) @ drop 4 s"
  using write4_first [of s w x y z] by (simp add: at_ptr_def)

lemma length_write4 [simp]:
  "length (at_ptr off (\<lambda>b. b[0 := w, 1 := x, 2 := y, 3 := z]) s) = length s"
  by (simp add: at_ptr_def)

lemma length_write1 [simp]: "length (at_ptr off (\<lambda>b. b[0 := w]) s) = length s"
  by (simp add: at_ptr_def)

lemma take_at_ptr: "n \<le> off \<Longrightarrow> off \<le> length b \<Longrightarrow> take n (at_ptr off f b) = take n b"
  by (simp add: at_ptr_def min_def)

end
