(* ===== verification/UInt128.thy ===== *)
theory UInt128
  imports Kremlib
begin

text \<open>
  The portable 128-bit integers of \<open>FStar.c\<close>: a struct of two 64-bit halves, used when the
  compiler has no \<open>__int128\<close>.  \<open>val128\<close> is the number a struct stands for and \<open>abs128\<close>
  the compiler's 128-bit word; every operation of \<open>FStar.c\<close> is shown to refine the
  operation of the compiler.  The locale \<open>uint128_ops\<close> is the contract the field
  arithmetic relies on, and both configurations are instances of it.
\<close>

section \<open>The struct and its operations\<close>

record uint128 =
  low :: u64
  high :: u64

definition FStar_UInt128_constant_time_carry :: "u64 \<Rightarrow> u64 \<Rightarrow> u64" where
  "FStar_UInt128_constant_time_carry a b = drop_bit 63 (a XOR ((a XOR b) OR ((a - b) XOR b)))"

definition FStar_UInt128_carry :: "u64 \<Rightarrow> u64 \<Rightarrow> u64" where
  "FStar_UInt128_carry a b = FStar_UInt128_constant_time_carry a b"

definition FStar_UInt128_add :: "uint128 \<Rightarrow> uint128 \<Rightarrow> uint128" where
  "FStar_UInt128_add a b =
     \<lparr>low = low a + low b,
      high = high a + high b + FStar_UInt128_carry (low a + low b) (low b)\<rparr>"

definition FStar_UInt128_add_mod :: "uint128 \<Rightarrow> uint128 \<Rightarrow> uint128" where
  "FStar_UInt128_add_mod a b =
     \<lparr>low = low a + low b,
      high = high a + high b + FStar_UInt128_carry (low a + low b) (low b)\<rparr>"

definition FStar_UInt128_sub :: "uint128 \<Rightarrow> uint128 \<Rightarrow> uint128" where
  "FStar_UInt128_sub a b =
     \<lparr>low = low a - low b,
      high = high a - high b - FStar_UInt128_carry (low a) (low a - low b)\<rparr>"

definition FStar_UInt128_sub_mod_impl :: "uint128 \<Rightarrow> uint128 \<Rightarrow> uint128" where
  "FStar_UInt128_sub_mod_impl a b =
     \<lparr>low = low a - low b,
      high = high a - high b - FStar_UInt128_carry (low a) (low a - low b)\<rparr>"

definition FStar_UInt128_sub_mod :: "uint128 \<Rightarrow> uint128 \<Rightarrow> uint128" where
  "FStar_UInt128_sub_mod a b = FStar_UInt128_sub_mod_impl a b"

definition FStar_UInt128_logand :: "uint128 \<Rightarrow> uint128 \<Rightarrow> uint128" where
  "FStar_UInt128_logand a b = \<lparr>low = low a AND low b, high = high a AND high b\<rparr>"

definition FStar_UInt128_logxor :: "uint128 \<Rightarrow> uint128 \<Rightarrow> uint128" where
  "FStar_UInt128_logxor a b = \<lparr>low = low a XOR low b, high = high a XOR high b\<rparr>"

definition FStar_UInt128_logor :: "uint128 \<Rightarrow> uint128 \<Rightarrow> uint128" where
  "FStar_UInt128_logor a b = \<lparr>low = low a OR low b, high = high a OR high b\<rparr>"

definition FStar_UInt128_lognot :: "uint128 \<Rightarrow> uint128" where
  "FStar_UInt128_lognot a = \<lparr>low = NOT (low a), high = NOT (high a)\<rparr>"

definition FStar_UInt128_u32_64 :: u32 where
  "FStar_UInt128_u32_64 = 64"

definition FStar_UInt128_add_u64_shift_left :: "u64 \<Rightarrow> u64 \<Rightarrow> u32 \<Rightarrow> u64" where
  "FStar_UInt128_add_u64_shift_left hi lo s =
     push_bit (unat s) hi + drop_bit (unat (FStar_UInt128_u32_64 - s)) lo"

definition FStar_UInt128_add_u64_shift_left_respec :: "u64 \<Rightarrow> u64 \<Rightarrow> u32 \<Rightarrow> u64" where
  "FStar_UInt128_add_u64_shift_left_respec hi lo s = FStar_UInt128_add_u64_shift_left hi lo s"

definition FStar_UInt128_shift_left_small :: "uint128 \<Rightarrow> u32 \<Rightarrow> uint128" where
  "FStar_UInt128_shift_left_small a s =
     (if s = 0 then a
      else \<lparr>low = push_bit (unat s) (low a),
            high = FStar_UInt128_add_u64_shift_left_respec (high a) (low a) s\<rparr>)"

definition FStar_UInt128_shift_left_large :: "uint128 \<Rightarrow> u32 \<Rightarrow> uint128" where
  "FStar_UInt128_shift_left_large a s =
     \<lparr>low = 0, high = push_bit (unat (s - FStar_UInt128_u32_64)) (low a)\<rparr>"

definition FStar_UInt128_shift_left :: "uint128 \<Rightarrow> u32 \<Rightarrow> uint128" where
  "FStar_UInt128_shift_left a s =
     (if s < FStar_UInt128_u32_64 then FStar_UInt128_shift_left_small a s
      else FStar_UInt128_shift_left_large a s)"

definition FStar_UInt128_add_u64_shift_right :: "u64 \<Rightarrow> u64 \<Rightarrow> u32 \<Rightarrow> u64" where
  "FStar_UInt128_add_u64_shift_right hi lo s =
     drop_bit (unat s) lo + push_bit (unat (FStar_UInt128_u32_64 - s)) hi"

definition FStar_UInt128_add_u64_shift_right_respec :: "u64 \<Rightarrow> u64 \<Rightarrow> u32 \<Rightarrow> u64" where
  "FStar_UInt128_add_u64_shift_right_respec hi lo s = FStar_UInt128_add_u64_shift_right hi lo s"

definition FStar_UInt128_shift_right_small :: "uint128 \<Rightarrow> u32 \<Rightarrow> uint128" where
  "FStar_UInt128_shift_right_small a s =
     (if s = 0 then a
      else \<lparr>low = FStar_UInt128_add_u64_shift_right_respec (high a) (low a) s,
            high = drop_bit (unat s) (high a)\<rparr>)"

definition FStar_UInt128_shift_right_large :: "uint128 \<Rightarrow> u32 \<Rightarrow> uint128" where
  "FStar_UInt128_shift_right_large a s =
     \<lparr>low = drop_bit (unat (s - FStar_UInt128_u32_64)) (high a), high = 0\<rparr>"

definition FStar_UInt128_shift_right :: "uint128 \<Rightarrow> u32 \<Rightarrow> uint128" where
  "FStar_UInt128_shift_right a s =
     (if s < FStar_UInt128_u32_64 then FStar_UInt128_shift_right_small a s
      else FStar_UInt128_shift_right_large a s)"

definition FStar_UInt128_eq_mask :: "uint128 \<Rightarrow> uint128 \<Rightarrow> uint128" where
  "FStar_UInt128_eq_mask a b =
     \<lparr>low = FStar_UInt64_eq_mask (low a) (low b) AND FStar_UInt64_eq_mask (high a) (high b),
      high = FStar_UInt64_eq_mask (low a) (low b) AND FStar_UInt64_eq_mask (high a) (high b)\<rparr>"

definition FStar_UInt128_gte_mask :: "uint128 \<Rightarrow> uint128 \<Rightarrow> uint128" where
  "FStar_UInt128_gte_mask a b =
     \<lparr>low = (FStar_UInt64_gte_mask (high a) (high b) AND NOT (FStar_UInt64_eq_mask (high a) (high b)))
            OR (FStar_UInt64_eq_mask (high a) (high b) AND FStar_UInt64_gte_mask (low a) (low b)),
      high = (FStar_UInt64_gte_mask (high a) (high b) AND NOT (FStar_UInt64_eq_mask (high a) (high b)))
            OR (FStar_UInt64_eq_mask (high a) (high b) AND FStar_UInt64_gte_mask (low a) (low b))\<rparr>"

definition FStar_UInt128_uint64_to_uint128 :: "u64 \<Rightarrow> uint128" where
  "FStar_UInt128_uint64_to_uint128 a = \<lparr>low = a, high = 0\<rparr>"

definition FStar_UInt128_uint128_to_uint64 :: "uint128 \<Rightarrow> u64" where
  "FStar_UInt128_uint128_to_uint64 a = low a"

definition FStar_UInt128_u64_l32_mask :: u64 where
  "FStar_UInt128_u64_l32_mask = 0xffffffff"

definition FStar_UInt128_u64_mod_32 :: "u64 \<Rightarrow> u64" where
  "FStar_UInt128_u64_mod_32 a = a AND FStar_UInt128_u64_l32_mask"

definition FStar_UInt128_u32_32 :: u32 where
  "FStar_UInt128_u32_32 = 32"

definition FStar_UInt128_mul_wide_impl_t' :: "u64 \<Rightarrow> u64 \<Rightarrow> u64 \<times> u64 \<times> u64 \<times> u64" where
  "FStar_UInt128_mul_wide_impl_t' x y =
     (FStar_UInt128_u64_mod_32 x,
      FStar_UInt128_u64_mod_32 (FStar_UInt128_u64_mod_32 x * FStar_UInt128_u64_mod_32 y),
      drop_bit (unat FStar_UInt128_u32_32) x,
      drop_bit (unat FStar_UInt128_u32_32) x * FStar_UInt128_u64_mod_32 y
      + drop_bit (unat FStar_UInt128_u32_32) (FStar_UInt128_u64_mod_32 x * FStar_UInt128_u64_mod_32 y))"

definition FStar_UInt128_u32_combine' :: "u64 \<Rightarrow> u64 \<Rightarrow> u64" where
  "FStar_UInt128_u32_combine' hi lo = lo + push_bit (unat FStar_UInt128_u32_32) hi"

definition FStar_UInt128_mul_wide_impl :: "u64 \<Rightarrow> u64 \<Rightarrow> uint128" where
  "FStar_UInt128_mul_wide_impl x y =
     (let (u1, w3, x', t') = FStar_UInt128_mul_wide_impl_t' x y
      in \<lparr>low = FStar_UInt128_u32_combine'
                  (u1 * drop_bit (unat FStar_UInt128_u32_32) y + FStar_UInt128_u64_mod_32 t') w3,
          high = x' * drop_bit (unat FStar_UInt128_u32_32) y
                 + drop_bit (unat FStar_UInt128_u32_32) t'
                 + drop_bit (unat FStar_UInt128_u32_32)
                     (u1 * drop_bit (unat FStar_UInt128_u32_32) y + FStar_UInt128_u64_mod_32 t')\<rparr>)"

definition FStar_UInt128_mul_wide :: "u64 \<Rightarrow> u64 \<Rightarrow> uint128" where
  "FStar_UInt128_mul_wide x y = FStar_UInt128_mul_wide_impl x y"

section \<open>The number a struct stands for\<close>

definition val128 :: "uint128 \<Rightarrow> nat" where
  "val128 a = unat (low a) + 2 ^ 64 * unat (high a)"

definition abs128 :: "uint128 \<Rightarrow> u128" where
  "abs128 a = word_of_nat (val128 a)"

lemma val128_bound: "val128 a < 2 ^ 128"
  using unat_bound [of "low a"] unat_bound [of "high a"] by (simp add: val128_def)

lemma unat_abs128: "unat (abs128 a) = val128 a"
  using val128_bound [of a] by (simp add: abs128_def unat_of_nat)

lemma abs128_inj: "abs128 a = abs128 b \<Longrightarrow> a = b"
proof -
  assume "abs128 a = abs128 b"
  then have v: "val128 a = val128 b" by (metis unat_abs128)
  have d: "val128 c mod 2 ^ 64 = unat (low c)" "val128 c div 2 ^ 64 = unat (high c)" for c
    using unat_bound [of "low c"] by (simp_all add: val128_def)
  from d [of a] d [of b] v have "low a = low b" "high a = high b"
    by (auto intro: unsigned_word_eqI)
  then show "a = b" by simp
qed

subsection \<open>Carry\<close>

lemma carry_iff: "FStar_UInt128_constant_time_carry a b = (if a < b then 1 else 0)"
proof -
  have top: "drop_bit 63 z = (if bit z 63 then 1 else 0)" for z :: u64
  proof (rule bit_word_eqI)
    fix n assume "n < LENGTH(64)"
    show "bit (drop_bit 63 z) n = bit (if bit z 63 then 1 else (0 :: u64)) n"
      by (cases "n = 0") (auto simp: bit_drop_bit_eq bit_1_iff dest: bit_imp_le_length)
  qed
  have a: "bit a 63 = (2 ^ 63 \<le> unat a)" and b: "bit b 63 = (2 ^ 63 \<le> unat b)"
    and d: "bit (a - b) 63 = (2 ^ 63 \<le> unat (a - b))"
    by (simp_all add: top_bit_iff)
  have "bit (a XOR ((a XOR b) OR ((a - b) XOR b))) 63 \<longleftrightarrow> unat a < unat b"
    using unat_bound [of a] unat_bound [of b]
    by (auto simp: bit_xor_iff bit_or_iff a b d unat_diff_wrap split: if_splits)
  then show ?thesis
    unfolding FStar_UInt128_constant_time_carry_def top word_less_nat_alt by simp
qed

lemma unat_carry: "unat (FStar_UInt128_carry a b) = (if unat a < unat b then 1 else 0)"
  by (simp add: FStar_UInt128_carry_def carry_iff word_less_nat_alt)

subsection \<open>Addition and subtraction\<close>

lemma abs128_mod: "val128 a = n mod 2 ^ 128 \<Longrightarrow> abs128 a = word_of_nat n"
  by (rule word_unatI) (simp add: unat_abs128 unat_of_nat)

lemma join_mod:
  fixes l h :: nat
  shows "l mod 2 ^ 64 + 2 ^ 64 * ((h + l div 2 ^ 64) mod 2 ^ 64) = (l + 2 ^ 64 * h) mod 2 ^ 128"
proof -
  have "(l + 2 ^ 64 * h) mod (2 ^ 64 * 2 ^ 64)
        = 2 ^ 64 * ((l + 2 ^ 64 * h) div 2 ^ 64 mod 2 ^ 64) + (l + 2 ^ 64 * h) mod 2 ^ 64"
    by (rule mod_mult2_eq)
  then show ?thesis by (simp add: add.commute)
qed

lemma val_add: "val128 (FStar_UInt128_add a b) = (val128 a + val128 b) mod 2 ^ 128"
proof -
  let ?l = "unat (low a) + unat (low b)"
  have lo: "unat (low a + low b) = ?l mod 2 ^ 64" by (simp add: unat_word_ariths)
  have "unat (FStar_UInt128_carry (low a + low b) (low b)) = ?l div 2 ^ 64"
  proof (cases "?l < 2 ^ 64")
    case False
    then have "?l mod 2 ^ 64 = ?l - 2 ^ 64" "?l div 2 ^ 64 = 1"
      using unat_bound [of "low a"] unat_bound [of "low b"]
      by (simp_all add: le_mod_geq div_nat_eqI)
    then show ?thesis using unat_bound [of "low a"] False by (simp add: unat_carry lo)
  qed (simp add: unat_carry lo)
  then have hi: "unat (high a + high b + FStar_UInt128_carry (low a + low b) (low b))
                 = (unat (high a) + unat (high b) + ?l div 2 ^ 64) mod 2 ^ 64"
    by (simp add: unat_word_ariths mod_simps)
  have "val128 (FStar_UInt128_add a b)
        = ?l mod 2 ^ 64 + 2 ^ 64 * ((unat (high a) + unat (high b) + ?l div 2 ^ 64) mod 2 ^ 64)"
    using lo hi by (simp add: val128_def FStar_UInt128_add_def)
  also have "\<dots> = (?l + 2 ^ 64 * (unat (high a) + unat (high b))) mod 2 ^ 128"
    by (rule join_mod)
  finally show ?thesis by (simp add: val128_def algebra_simps)
qed

lemma add_mod_eq_add: "FStar_UInt128_add_mod a b = FStar_UInt128_add a b"
  by (simp add: FStar_UInt128_add_def FStar_UInt128_add_mod_def)

lemma sub_then_add: "FStar_UInt128_add (FStar_UInt128_sub a b) b = a"
proof -
  have "low a < low a - low b \<longleftrightarrow> low a < low b"
    using unat_bound [of "low b"] unat_bound [of "low a"]
    by (auto simp: word_less_nat_alt unat_diff_wrap)
  then show ?thesis
    by (cases a) (simp add: FStar_UInt128_add_def FStar_UInt128_sub_def FStar_UInt128_carry_def carry_iff)
qed

lemma abs_add: "abs128 (FStar_UInt128_add a b) = abs128 a + abs128 b"
  using val_add [THEN abs128_mod, of a b] by (simp add: abs128_def)

lemma abs_sub: "abs128 (FStar_UInt128_sub a b) = abs128 a - abs128 b"
  using abs_add [of "FStar_UInt128_sub a b" b] by (simp add: sub_then_add)

subsection \<open>Bitwise operations and shifts\<close>

lemma abs128_bits: "abs128 a = push_bit 64 (ucast (high a)) OR ucast (low a)"
proof (rule word_unatI)
  show "unat (abs128 a) = unat (push_bit 64 (ucast (high a)) OR ucast (low a) :: u128)"
    using unat_bound [of "low a"] unat_bound [of "high a"]
    by (subst unat_or_shift) (simp_all add: unat_ucast_same_or_up unat_abs128 val128_def)
qed

lemma bit_abs128:
  "bit (abs128 a) n = (if n < 64 then bit (low a) n else n < 128 \<and> bit (high a) (n - 64))"
  by (auto simp: abs128_bits bit_or_iff bit_push_bit_iff bit_ucast_iff dest: bit_imp_le_length)

lemma abs_logand: "abs128 (FStar_UInt128_logand a b) = abs128 a AND abs128 b"
  by (rule bit_word_eqI) (auto simp: bit_abs128 bit_and_iff FStar_UInt128_logand_def)

lemma abs_logor: "abs128 (FStar_UInt128_logor a b) = abs128 a OR abs128 b"
  by (rule bit_word_eqI) (auto simp: bit_abs128 bit_or_iff FStar_UInt128_logor_def)

lemma abs_logxor: "abs128 (FStar_UInt128_logxor a b) = abs128 a XOR abs128 b"
  by (rule bit_word_eqI) (auto simp: bit_abs128 bit_xor_iff FStar_UInt128_logxor_def)

lemma abs_lognot: "abs128 (FStar_UInt128_lognot a) = NOT (abs128 a)"
  by (rule bit_word_eqI) (auto simp: bit_abs128 bit_not_iff FStar_UInt128_lognot_def)

text \<open>Two words without a common bit: the sum is the union, bit by bit.\<close>

lemma bit_disjoint_plus:
  assumes "\<And>n. \<not> (bit a n \<and> bit b n)"
  shows "bit (a + b) n = (bit a n \<or> bit (b :: 'a::len word) n)"
proof -
  have "a AND b = 0" using assms by (intro bit_eqI) (auto simp: bit_and_iff)
  then show ?thesis by (simp add: disjunctive_add_eq_or bit_or_iff)
qed

lemma unat_64_minus: "s < FStar_UInt128_u32_64 \<Longrightarrow> unat (FStar_UInt128_u32_64 - s) = 64 - unat s"
  by (subst unat_minus) (auto simp: word_less_nat_alt FStar_UInt128_u32_64_def)

lemma unat_minus_64: "\<not> s < FStar_UInt128_u32_64 \<Longrightarrow> unat (s - FStar_UInt128_u32_64) = unat s - 64"
  by (subst unat_minus) (auto simp: word_less_nat_alt FStar_UInt128_u32_64_def)

lemma abs_shift_left:
  assumes "unat s < 128"
  shows "abs128 (FStar_UInt128_shift_left a s) = push_bit (unat s) (abs128 a)"
proof (cases "s < FStar_UInt128_u32_64")
  case True
  then have s: "unat s < 64" by (simp add: word_less_nat_alt FStar_UInt128_u32_64_def)
  have "bit (push_bit (unat s) hi + drop_bit (64 - unat s) lo) n
        = (bit (push_bit (unat s) hi) n \<or> bit (drop_bit (64 - unat s) lo) n)" for hi lo :: u64 and n
    by (rule bit_disjoint_plus) (auto simp: bit_push_bit_iff bit_drop_bit_eq dest: bit_imp_le_length)
  with True s show ?thesis
    by (intro bit_word_eqI)
       (auto simp: FStar_UInt128_shift_left_def FStar_UInt128_shift_left_small_def
          FStar_UInt128_add_u64_shift_left_respec_def FStar_UInt128_add_u64_shift_left_def
          unat_64_minus bit_abs128 bit_push_bit_iff bit_drop_bit_eq add.commute dest: bit_imp_le_length)
next
  case False
  then have "64 \<le> unat s" by (simp add: word_less_nat_alt FStar_UInt128_u32_64_def)
  with False assms show ?thesis
    by (intro bit_word_eqI)
       (auto simp: FStar_UInt128_shift_left_def FStar_UInt128_shift_left_large_def
          unat_minus_64 bit_abs128 bit_push_bit_iff dest: bit_imp_le_length)
qed

lemma abs_shift_right:
  assumes "unat s < 128"
  shows "abs128 (FStar_UInt128_shift_right a s) = drop_bit (unat s) (abs128 a)"
proof (cases "s < FStar_UInt128_u32_64")
  case True
  then have s: "unat s < 64" by (simp add: word_less_nat_alt FStar_UInt128_u32_64_def)
  have "bit (drop_bit (unat s) lo + push_bit (64 - unat s) hi) n
        = (bit (drop_bit (unat s) lo) n \<or> bit (push_bit (64 - unat s) hi) n)" for hi lo :: u64 and n
    by (rule bit_disjoint_plus) (auto simp: bit_push_bit_iff bit_drop_bit_eq dest: bit_imp_le_length)
  with True s show ?thesis
    by (intro bit_word_eqI)
       (auto simp: FStar_UInt128_shift_right_def FStar_UInt128_shift_right_small_def
          FStar_UInt128_add_u64_shift_right_respec_def FStar_UInt128_add_u64_shift_right_def
          unat_64_minus bit_abs128 bit_push_bit_iff bit_drop_bit_eq add.commute dest: bit_imp_le_length)
next
  case False
  then have "64 \<le> unat s" by (simp add: word_less_nat_alt FStar_UInt128_u32_64_def)
  with False assms show ?thesis
    by (intro bit_word_eqI)
       (auto simp: FStar_UInt128_shift_right_def FStar_UInt128_shift_right_large_def
          unat_minus_64 bit_abs128 bit_drop_bit_eq dest: bit_imp_le_length)
qed

lemma val_shift_right:
  "unat s < 128 \<Longrightarrow> val128 (FStar_UInt128_shift_right a s) = val128 a div 2 ^ unat s"
  using abs_shift_right [of s a] unat_shr [of "unat s" "abs128 a"] by (metis unat_abs128)

subsection \<open>Comparison masks and conversions\<close>

lemma eq_mask_val:
  "abs128 (FStar_UInt128_eq_mask a b) = (if a = b then - 1 else 0)"
  "u128_eq_mask (abs128 a) (abs128 b) = abs128 (FStar_UInt128_eq_mask a b)"
proof -
  have m: "abs128 \<lparr>low = - 1, high = - 1\<rparr> = - 1"
    by (auto intro!: bit_word_eqI simp: bit_abs128)
  have z: "abs128 \<lparr>low = 0, high = 0\<rparr> = 0"
    by (simp add: abs128_def val128_def)
  have h: "ucast (drop_bit 64 (abs128 c)) = high c" "ucast (abs128 c) = low c" for c
    by (auto intro!: bit_word_eqI simp: bit_ucast_iff bit_drop_bit_eq bit_abs128 add.commute)
  show e: "abs128 (FStar_UInt128_eq_mask a b) = (if a = b then - 1 else 0)"
    by (cases a; cases b) (simp add: FStar_UInt128_eq_mask_def eq_mask64 m z)
  show "u128_eq_mask (abs128 a) (abs128 b) = abs128 (FStar_UInt128_eq_mask a b)"
    unfolding u128_eq_mask_def Let_def h abs128_bits [of "FStar_UInt128_eq_mask a b"]
    by (simp add: FStar_UInt128_eq_mask_def and.commute)
qed

lemma gte_mask_abs: "u128_gte_mask (abs128 a) (abs128 b) = abs128 (FStar_UInt128_gte_mask a b)"
proof -
  have h: "ucast (drop_bit 64 (abs128 c)) = high c" "ucast (abs128 c) = low c" for c
    by (auto intro!: bit_word_eqI simp: bit_ucast_iff bit_drop_bit_eq bit_abs128 add.commute)
  show ?thesis
    unfolding u128_gte_mask_def Let_def h abs128_bits [of "FStar_UInt128_gte_mask a b"]
    by (simp add: FStar_UInt128_gte_mask_def)
qed

lemma val_of_u64: "val128 (FStar_UInt128_uint64_to_uint128 x) = unat x"
  by (simp add: val128_def FStar_UInt128_uint64_to_uint128_def)

lemma unat_to_u64: "unat (FStar_UInt128_uint128_to_uint64 a) = val128 a mod 2 ^ 64"
  using unat_bound [of "low a"] by (simp add: val128_def FStar_UInt128_uint128_to_uint64_def)

subsection \<open>The 64 by 64 bit product\<close>

lemma unat_u64_mod_32: "unat (FStar_UInt128_u64_mod_32 x) = unat x mod 2 ^ 32"
proof -
  have "(0xffffffff :: u64) = mask 32" by (simp add: mask_eq_exp_minus_1)
  then show ?thesis
    by (simp only: FStar_UInt128_u64_mod_32_def FStar_UInt128_u64_l32_mask_def unat_and_mask)
qed

lemma unat_u32_combine:
  assumes "unat lo < 2 ^ 32"
  shows "unat (FStar_UInt128_u32_combine' hi lo) = unat lo + 2 ^ 32 * (unat hi mod 2 ^ 32)"
proof -
  have "unat (push_bit 32 hi) = 2 ^ 32 * (unat hi mod 2 ^ 32)"
    using mult_mod_right [of "2 ^ 32" "unat hi" "2 ^ 32"]
    by (subst unsigned_push_bit_eq) (simp add: push_bit_eq_mult take_bit_eq_mod mult.commute)
  then show ?thesis
    using assms by (subst FStar_UInt128_u32_combine'_def, subst unat_plus)
       (simp_all add: FStar_UInt128_u32_32_def)
qed

text \<open>The schoolbook product of the 32-bit halves, on natural numbers.\<close>

lemma half_products:
  fixes x y :: nat
  defines "x0 \<equiv> x mod 2 ^ 32" and "x1 \<equiv> x div 2 ^ 32" and "y0 \<equiv> y mod 2 ^ 32" and "y1 \<equiv> y div 2 ^ 32"
  defines "t \<equiv> x1 * y0 + x0 * y0 div 2 ^ 32"
  defines "m \<equiv> x0 * y1 + t mod 2 ^ 32"
  shows "x0 * y0 mod 2 ^ 32 + 2 ^ 32 * (m mod 2 ^ 32) + 2 ^ 64 * (x1 * y1 + t div 2 ^ 32 + m div 2 ^ 32)
         = x * y"
proof -
  have x: "x = x0 + 2 ^ 32 * x1" and y: "y = y0 + 2 ^ 32 * y1"
    by (simp_all add: x0_def x1_def y0_def y1_def)
  have a: "2 ^ 32 * (m mod 2 ^ 32) + 2 ^ 64 * (m div 2 ^ 32) = 2 ^ 32 * m"
    using mod_div_scaled [of "2 ^ 32" m "2 ^ 32"] by simp
  have b: "2 ^ 32 * (t mod 2 ^ 32) + 2 ^ 64 * (t div 2 ^ 32) = 2 ^ 32 * t"
    using mod_div_scaled [of "2 ^ 32" t "2 ^ 32"] by simp
  have c: "x0 * y0 mod 2 ^ 32 + 2 ^ 32 * (x0 * y0 div 2 ^ 32) = x0 * y0"
    by (rule mod_mult_div_eq)
  have "x * y = x0 * y0 + 2 ^ 32 * (x0 * y1) + 2 ^ 32 * (x1 * y0) + 2 ^ 64 * (x1 * y1)"
    unfolding x y by (simp add: algebra_simps)
  moreover have "2 ^ 32 * m = 2 ^ 32 * (x0 * y1) + 2 ^ 32 * (t mod 2 ^ 32)"
    by (simp add: m_def algebra_simps)
  moreover have "2 ^ 32 * t = 2 ^ 32 * (x1 * y0) + 2 ^ 32 * (x0 * y0 div 2 ^ 32)"
    by (simp add: t_def algebra_simps)
  moreover have "2 ^ 64 * (x1 * y1 + t div 2 ^ 32 + m div 2 ^ 32)
      = 2 ^ 64 * (x1 * y1) + 2 ^ 64 * (t div 2 ^ 32) + 2 ^ 64 * (m div 2 ^ 32)"
    by (simp only: distrib_left)
  ultimately show ?thesis using a b c by linarith
qed

lemma half_product_bound: "(a::nat) < 2 ^ 32 \<Longrightarrow> b < 2 ^ 32 \<Longrightarrow> c < 2 ^ 32 \<Longrightarrow> a * b + c < 2 ^ 64"
proof -
  assume "a < 2 ^ 32" "b < 2 ^ 32" and c: "c < 2 ^ 32"
  then have "a \<le> 2 ^ 32 - 1" "b \<le> 2 ^ 32 - 1" by simp_all
  then have "a * b \<le> (2 ^ 32 - 1) * (2 ^ 32 - 1)" by (rule mult_le_mono)
  with c show ?thesis by simp
qed

lemma val_mul_wide: "val128 (FStar_UInt128_mul_wide x y) = unat x * unat y"
proof -
  define x0 x1 y0 y1 where d: "x0 = unat x mod 2 ^ 32" "x1 = unat x div 2 ^ 32"
    "y0 = unat y mod 2 ^ 32" "y1 = unat y div 2 ^ 32"
  define t where "t = x1 * y0 + x0 * y0 div 2 ^ 32"
  define m where "m = x0 * y1 + t mod 2 ^ 32"
  have b: "x0 < 2 ^ 32" "x1 < 2 ^ 32" "y0 < 2 ^ 32" "y1 < 2 ^ 32"
    using unat_bound [of x] unat_bound [of y] by (simp_all add: d)
  have tb: "t < 2 ^ 64" unfolding t_def
    using b half_product_bound [of x0 y0 0] by (intro half_product_bound) simp_all
  have mb: "m < 2 ^ 64" unfolding m_def using b by (intro half_product_bound) simp_all
  have eq: "x0 * y0 mod 2 ^ 32 + 2 ^ 32 * (m mod 2 ^ 32)
            + 2 ^ 64 * (x1 * y1 + t div 2 ^ 32 + m div 2 ^ 32) = unat x * unat y"
    unfolding m_def t_def d by (rule half_products)
  have "unat x * unat y < 2 ^ 64 * 2 ^ 64"
    using unat_bound [of x] unat_bound [of y] by (intro mult_strict_mono) simp_all
  with eq have hb: "x1 * y1 + t div 2 ^ 32 + m div 2 ^ 32 < 2 ^ 64" by simp
  obtain u1 w3 x' t' where sc: "FStar_UInt128_mul_wide_impl_t' x y = (u1, w3, x', t')"
    by (cases "FStar_UInt128_mul_wide_impl_t' x y") auto
  have p00: "unat (FStar_UInt128_u64_mod_32 x * FStar_UInt128_u64_mod_32 y) = x0 * y0"
    using half_product_bound [of x0 y0 0] b
    by (subst unat_times) (simp_all add: unat_u64_mod_32 d)
  have u: "unat u1 = x0" "unat w3 = x0 * y0 mod 2 ^ 32" "unat x' = x1" "unat t' = t"
  proof -
    have s: "u1 = FStar_UInt128_u64_mod_32 x" "x' = drop_bit 32 x"
      "w3 = FStar_UInt128_u64_mod_32 (FStar_UInt128_u64_mod_32 x * FStar_UInt128_u64_mod_32 y)"
      "t' = drop_bit 32 x * FStar_UInt128_u64_mod_32 y
            + drop_bit 32 (FStar_UInt128_u64_mod_32 x * FStar_UInt128_u64_mod_32 y)"
      using sc by (auto simp: FStar_UInt128_mul_wide_impl_t'_def FStar_UInt128_u32_32_def)
    show "unat u1 = x0" "unat w3 = x0 * y0 mod 2 ^ 32" "unat x' = x1"
      by (simp_all only: s unat_u64_mod_32 p00 unat_shr d)
    have "unat (drop_bit 32 x * FStar_UInt128_u64_mod_32 y) = x1 * y0"
      using half_product_bound [of x1 y0 0] b
      by (subst unat_times) (simp_all add: unat_u64_mod_32 unat_shr d)
    then show "unat t' = t"
      using tb by (subst s, subst unat_plus) (simp_all add: unat_shr p00 t_def)
  qed
  have y1: "unat (drop_bit 32 y) = y1" by (simp add: unat_shr d)
  have um: "unat (u1 * drop_bit 32 y + FStar_UInt128_u64_mod_32 t') = m"
  proof -
    have "unat (u1 * drop_bit 32 y) = x0 * y1"
      using half_product_bound [of x0 y1 0] b by (subst unat_times) (simp_all add: u y1)
    then show ?thesis
      using mb by (subst unat_plus) (simp_all add: unat_u64_mod_32 u m_def)
  qed
  have "unat (x' * drop_bit 32 y) = x1 * y1"
    using half_product_bound [of x1 y1 0] b by (subst unat_times) (simp_all add: u y1)
  then have h: "unat (x' * drop_bit 32 y + drop_bit 32 t'
      + drop_bit 32 (u1 * drop_bit 32 y + FStar_UInt128_u64_mod_32 t'))
      = x1 * y1 + t div 2 ^ 32 + m div 2 ^ 32"
    using hb by (simp add: unat_plus unat_shr u um)
  show ?thesis
    using eq h u(2) um
    by (simp add: FStar_UInt128_mul_wide_def FStar_UInt128_mul_wide_impl_def sc val128_def
          FStar_UInt128_u32_32_def unat_u32_combine)
qed

section \<open>The interface the field arithmetic uses\<close>

locale uint128_ops =
  fixes val :: "'w \<Rightarrow> nat"
    and add :: "'w \<Rightarrow> 'w \<Rightarrow> 'w"
    and add_mod :: "'w \<Rightarrow> 'w \<Rightarrow> 'w"
    and mul_wide :: "u64 \<Rightarrow> u64 \<Rightarrow> 'w"
    and shift_right :: "'w \<Rightarrow> u32 \<Rightarrow> 'w"
    and of_u64 :: "u64 \<Rightarrow> 'w"
    and to_u64 :: "'w \<Rightarrow> u64"
  assumes val_lt: "val a < 2 ^ 128"
    and val_add: "val (add a b) = (val a + val b) mod 2 ^ 128"
    and val_add_mod: "val (add_mod a b) = (val a + val b) mod 2 ^ 128"
    and val_mul: "val (mul_wide x y) = unat x * unat y"
    and val_shr: "unat s < 128 \<Longrightarrow> val (shift_right a s) = val a div 2 ^ unat s"
    and val_of: "val (of_u64 x) = unat x"
    and unat_to: "unat (to_u64 a) = val a mod 2 ^ 64"
begin

lemma add_exact: "val a + val b < 2 ^ 128 \<Longrightarrow> val (add a b) = val a + val b"
  by (simp add: val_add)

lemma mul_acc:
  "val a + unat x * unat y < 2 ^ 128 \<Longrightarrow> val (add_mod a (mul_wide x y)) = val a + unat x * unat y"
  by (simp add: val_add_mod val_mul)

lemma to_exact: "val a < 2 ^ 64 \<Longrightarrow> unat (to_u64 a) = val a"
  by (simp add: unat_to)

text \<open>One step of a carry chain: the low \<open>k\<close> bits stay in the limb, the rest moves up.\<close>

lemma carry_low: "k \<le> 64 \<Longrightarrow> val (of_u64 (to_u64 a AND mask k)) = val a mod 2 ^ k"
  using mod_exp_eq [of "val a" 64 k] by (simp add: val_of unat_and_mask unat_to min_def)

lemma carry_high:
  "unat s < 128 \<Longrightarrow> val b + val a div 2 ^ unat s < 2 ^ 128 \<Longrightarrow>
   val (add b (shift_right a s)) = val b + val a div 2 ^ unat s"
  by (simp add: val_add val_shr)

end

interpretation native: uint128_ops unat u128_add u128_add_mod u128_mul_wide u128_shift_right
  uint64_to_uint128 uint128_to_uint64
proof unfold_locales
  fix a b :: u128 and x y :: u64 and s :: u32
  show "unat a < 2 ^ 128" using unat_bound [of a] by simp
  show "unat (u128_add a b) = (unat a + unat b) mod 2 ^ 128"
    by (simp add: u128_add_def unat_word_ariths)
  show "unat (u128_add_mod a b) = (unat a + unat b) mod 2 ^ 128"
    by (simp add: u128_add_mod_def unat_word_ariths)
  show "unat (u128_mul_wide x y) = unat x * unat y" by (rule unat_mul_wide)
  show "unat (u128_shift_right a s) = unat a div 2 ^ unat s"
    by (simp add: u128_shift_right_def unat_shr)
  show "unat (uint64_to_uint128 x) = unat x"
    by (simp add: uint64_to_uint128_def unat_ucast_same_or_up)
  show "unat (uint128_to_uint64 a) = unat a mod 2 ^ 64"
    by (simp add: uint128_to_uint64_def unat_ucast_down)
qed

interpretation struct: uint128_ops val128 FStar_UInt128_add FStar_UInt128_add_mod FStar_UInt128_mul_wide
  FStar_UInt128_shift_right FStar_UInt128_uint64_to_uint128 FStar_UInt128_uint128_to_uint64
  by unfold_locales
     (simp_all add: val128_bound [simplified] val_add add_mod_eq_add val_mul_wide val_shift_right
        val_of_u64 unat_to_u64)

section \<open>Comparison\<close>

lemma top_bit_le:
  fixes x y :: u64
  assumes "bit x 63" and "\<not> bit y 63"
  shows "y \<le> x"
  using assms by (simp add: top_bit_iff word_le_nat_alt)

lemma gte_mask64_cases: "FStar_UInt64_gte_mask x y = (if y \<le> x \<and> bit x 63 = bit y 63 then - 1 else 0)"
proof (cases "bit x 63 = bit y 63")
  case False
  then have "FStar_UInt64_gte_mask x y = 0"
    by (cases "bit x 63") (simp_all add: gte_mask64_wrong gte_mask64_less)
  with False show ?thesis by simp
qed (simp add: gte_mask64)

lemma val128_le: "val128 b \<le> val128 a \<longleftrightarrow> (if high a = high b then low b \<le> low a else high b \<le> high a)"
proof (cases "high a = high b")
  case False
  then have "unat (high a) < unat (high b) \<or> unat (high b) < unat (high a)"
    by (metis unsigned_word_eqI linorder_neqE_nat)
  then have "val128 b \<le> val128 a \<longleftrightarrow> unat (high b) \<le> unat (high a)"
    using unat_bound [of "low a"] unat_bound [of "low b"] by (auto simp: val128_def)
  with False show ?thesis by (simp add: word_le_nat_alt)
qed (simp add: val128_def word_le_nat_alt)

section \<open>Properties\<close>

text \<open>
  C39: The 64 by 64 bit product of \<open>FStar.c\<close>, computed from four 32-bit half products with
  their carries, is the exact 128-bit product; no intermediate sum overflows.
\<close>

theorem mul_wide_exact:
  "val128 (FStar_UInt128_mul_wide x y) = unat x * unat y
   \<and> abs128 (FStar_UInt128_mul_wide x y) = u128_mul_wide x y"
proof
  show "val128 (FStar_UInt128_mul_wide x y) = unat x * unat y" by (rule struct.val_mul)
  then show "abs128 (FStar_UInt128_mul_wide x y) = u128_mul_wide x y"
    by (intro word_unatI) (simp add: unat_abs128 native.val_mul)
qed

text \<open>
  Addition, modular addition, subtraction and the bitwise operations on the struct
  refine the operations of the compiler's 128-bit type, wrap-around included.
\<close>

theorem uint128_ring_refines:
  "abs128 (FStar_UInt128_add a b) = abs128 a + abs128 b
   \<and> abs128 (FStar_UInt128_add_mod a b) = abs128 a + abs128 b
   \<and> abs128 (FStar_UInt128_sub a b) = abs128 a - abs128 b
   \<and> abs128 (FStar_UInt128_sub_mod a b) = abs128 a - abs128 b
   \<and> abs128 (FStar_UInt128_logand a b) = abs128 a AND abs128 b
   \<and> abs128 (FStar_UInt128_logor a b) = abs128 a OR abs128 b
   \<and> abs128 (FStar_UInt128_logxor a b) = abs128 a XOR abs128 b
   \<and> abs128 (FStar_UInt128_lognot a) = NOT (abs128 a)"
  using abs_sub [of a b]
  by (simp add: abs_add add_mod_eq_add abs_logand abs_logor abs_logxor abs_lognot
        FStar_UInt128_sub_mod_def FStar_UInt128_sub_mod_impl_def FStar_UInt128_sub_def)

text \<open>
  Both shifts of the struct refine the shifts of the compiler's 128-bit type for every
  shift below 128, including 0 and the shifts across the 64-bit boundary.
\<close>

theorem uint128_shift_refines:
  assumes "unat s < 128"
  shows "abs128 (FStar_UInt128_shift_left a s) = u128_shift_left (abs128 a) s
         \<and> abs128 (FStar_UInt128_shift_right a s) = u128_shift_right (abs128 a) s"
  using assms by (simp add: abs_shift_left abs_shift_right u128_shift_left_def u128_shift_right_def)

theorem uint128_shift_refines_witness:
  "abs128 (FStar_UInt128_shift_left \<lparr>low = 5, high = 7\<rparr> 44) = u128_shift_left (abs128 \<lparr>low = 5, high = 7\<rparr>) 44
   \<and> abs128 (FStar_UInt128_shift_right \<lparr>low = 5, high = 7\<rparr> 44) = u128_shift_right (abs128 \<lparr>low = 5, high = 7\<rparr>) 44"
  by (rule uint128_shift_refines) simp

text \<open>
  C40: What the comparison masks return on all inputs.  The 64-bit mask is all ones exactly when
  \<open>y \<le> x\<close> and both numbers have the same top bit, so it differs from the comparison
  exactly when \<open>x\<close> has its top bit and \<open>y\<close> does not.  The 128-bit mask built from it is
  all ones exactly when \<open>b \<le> a\<close>, the high words have the same top bit and, where the high words are
  equal, the low words have the same top bit; otherwise it is 0.
\<close>

theorem gte_mask_exact:
  "FStar_UInt64_gte_mask x y = (if y \<le> x \<and> bit x 63 = bit y 63 then - 1 else 0)
   \<and> (FStar_UInt64_gte_mask x y \<noteq> (if y \<le> x then - 1 else 0) \<longleftrightarrow> bit x 63 \<and> \<not> bit y 63)
   \<and> FStar_UInt128_gte_mask a b =
       (if val128 b \<le> val128 a \<and> bit (high a) 63 = bit (high b) 63
           \<and> (high a \<noteq> high b \<or> bit (low a) 63 = bit (low b) 63)
        then \<lparr>low = - 1, high = - 1\<rparr> else \<lparr>low = 0, high = 0\<rparr>)"
proof (intro conjI)
  show m: "FStar_UInt64_gte_mask x y = (if y \<le> x \<and> bit x 63 = bit y 63 then - 1 else 0)"
    by (rule gte_mask64_cases)
  have "y \<le> x" if "bit x 63" "\<not> bit y 63" using that by (rule top_bit_le)
  then show "FStar_UInt64_gte_mask x y \<noteq> (if y \<le> x then - 1 else 0) \<longleftrightarrow> bit x 63 \<and> \<not> bit y 63"
    using top_bit_le [of y x] by (auto simp: m)
  have le: "val128 b \<le> val128 a \<longleftrightarrow> (if high a = high b then low b \<le> low a else high b \<le> high a)"
    by (rule val128_le)
  show "FStar_UInt128_gte_mask a b =
       (if val128 b \<le> val128 a \<and> bit (high a) 63 = bit (high b) 63
           \<and> (high a \<noteq> high b \<or> bit (low a) 63 = bit (low b) 63)
        then \<lparr>low = - 1, high = - 1\<rparr> else \<lparr>low = 0, high = 0\<rparr>)"
    unfolding le by (simp add: FStar_UInt128_gte_mask_def eq_mask64 gte_mask64_cases)
qed

theorem gte_mask_exact_witness:
  "FStar_UInt64_gte_mask (2 ^ 63) 0 = 0 \<and> FStar_UInt64_gte_mask (2 ^ 63) 0 \<noteq> (if (0 :: u64) \<le> 2 ^ 63 then - 1 else 0)
   \<and> FStar_UInt128_gte_mask \<lparr>low = 0, high = 2 ^ 63\<rparr> \<lparr>low = 0, high = 0\<rparr> = \<lparr>low = 0, high = 0\<rparr>
   \<and> FStar_UInt128_gte_mask \<lparr>low = 5, high = 7\<rparr> \<lparr>low = 5, high = 6\<rparr> = \<lparr>low = - 1, high = - 1\<rparr>"
proof -
  have t: "bit (2 ^ 63 :: u64) 63" "\<not> bit (0 :: u64) 63" by (simp_all add: bit_exp_iff)
  have s: "bit (7 :: u64) 63 = bit (6 :: u64) 63" by (simp add: top_bit_iff)
  have v: "val128 \<lparr>low = 5, high = 6\<rparr> \<le> val128 \<lparr>low = 5, high = 7\<rparr>" by (simp add: val128_def)
  show ?thesis
    using gte_mask_exact [of "2 ^ 63" 0 "\<lparr>low = 0, high = 2 ^ 63\<rparr>" "\<lparr>low = 0, high = 0\<rparr>"]
      gte_mask_exact [of 0 0 "\<lparr>low = 5, high = 7\<rparr>" "\<lparr>low = 5, high = 6\<rparr>"] t s v
    by simp
qed

end
