(* ===== verification/Limbs.thy ===== *)
theory Limbs
  imports UInt128
begin

text \<open>
  Numbers in radix \<open>2 ^ w\<close>: the value of an array of limbs, and the steps of carry
  propagation on it.  Shared by the fields of Poly1305 and Curve25519.
\<close>

fun eval_limbs :: "nat \<Rightarrow> 'a::len word list \<Rightarrow> nat" where
  "eval_limbs w [] = 0"
| "eval_limbs w (x # xs) = unat x + 2 ^ w * eval_limbs w xs"

text \<open>The loops of the field code run over at most five limbs.\<close>

lemma for_loop_small:
  "for_loop 0 2 body s = body 1 (body 0 s)"
  "for_loop 0 3 body s = body 2 (body 1 (body 0 s))"
  "for_loop 0 4 body s = body 3 (body 2 (body 1 (body 0 s)))"
  "for_loop 0 5 body s = body 4 (body 3 (body 2 (body 1 (body 0 s))))"
  by (simp_all add: for_loop_def upt_rec numeral_eq_Suc)

text \<open>Reading and writing the limbs of a three-limb number.\<close>

lemma limbs3:
  "[a, b, c] ! 0 = a" "[a, b, c] ! 1 = b" "[a, b, c] ! 2 = c"
  "[a, b, c][0 := x] = [x, b, c]" "[a, b, c][1 := x] = [a, x, c]" "[a, b, c][2 := x] = [a, b, x]"
  by simp_all

text \<open>A carry step keeps the value.\<close>

lemma carry_nat: "x mod 2 ^ w + 2 ^ w * (y + x div 2 ^ w) = x + 2 ^ w * (y::nat)"
  by (simp add: distrib_left)

lemma and_mask_44 [word_nat]: "unat (x AND 0xfffffffffff :: u64) = unat x mod 2 ^ 44"
  using unat_and_mask [of x 44] by (simp add: mask_eq_exp_minus_1)

lemma and_mask_42 [word_nat]: "unat (x AND 0x3ffffffffff :: u64) = unat x mod 2 ^ 42"
  using unat_and_mask [of x 42] by (simp add: mask_eq_exp_minus_1)

lemma and_mask_51 [word_nat]: "unat (x AND 0x7ffffffffffff :: u64) = unat x mod 2 ^ 51"
  using unat_and_mask [of x 51] by (simp add: mask_eq_exp_minus_1)

text \<open>Multiplication by a small constant through shifts does not overflow.\<close>

lemma unat_times_5: "unat x * 5 < 2 ^ 64 \<Longrightarrow> unat (push_bit 2 x + x) = 5 * unat (x :: u64)"
  by (simp add: unat_plus unat_shl)

lemma unat_times_20: "unat x * 20 < 2 ^ 64 \<Longrightarrow> unat (push_bit 4 x + push_bit 2 x) = 20 * unat (x :: u64)"
  by (simp add: unat_plus unat_shl)

end
