(* ===== verification/Field25519.thy ===== *)
theory Field25519
  imports Limbs LoadStore
begin

text \<open>
  The field of \<open>Hacl_Curve25519.c\<close>: integers modulo \<open>2 ^ 255 - 19\<close> in five limbs of 51 bits,
  with 128-bit products.  Every operation is shown to compute the field operation on the value
  of the limbs, for the limb sizes under which the Montgomery ladder calls it; inversion is
  exponentiation by \<open>p - 2\<close>; reading and writing the 32-byte format are inverse to the value.

  A pointer to a field element is a list with at least five entries; an operation changes the
  first five and leaves the rest (the \<open>frame\<close> lemmas).
\<close>

section \<open>Multiplication\<close>

definition Hacl_Bignum_Modulo_carry_top_25519 :: "u64 list \<Rightarrow> u64 list" where
  "Hacl_Bignum_Modulo_carry_top_25519 b =
     (let b4 = b ! 4; b0 = b ! 0;
          b4' = b4 AND 0x7ffffffffffff;
          b0' = b0 + 19 * drop_bit 51 b4;
          b = b[4 := b4'];
          b = b[0 := b0']
      in b)"

definition Hacl_Bignum_Fproduct_copy_from_wide_25519 :: "u64 list \<Rightarrow> u128 list \<Rightarrow> u64 list" where
  "Hacl_Bignum_Fproduct_copy_from_wide_25519 output input =
     for_loop 0 5 (\<lambda>i output. let xi = input ! i in output[i := uint128_to_uint64 xi]) output"

definition Hacl_Bignum_Fproduct_sum_scalar_multiplication_25519 ::
    "u128 list \<Rightarrow> u64 list \<Rightarrow> u64 \<Rightarrow> u128 list" where
  "Hacl_Bignum_Fproduct_sum_scalar_multiplication_25519 output input s =
     for_loop 0 5 (\<lambda>i output. let xi = output ! i; yi = input ! i
                              in output[i := u128_add_mod xi (u128_mul_wide yi s)]) output"

definition Hacl_Bignum_Fproduct_carry_wide_25519 :: "u128 list \<Rightarrow> u128 list" where
  "Hacl_Bignum_Fproduct_carry_wide_25519 tmp =
     for_loop 0 4
       (\<lambda>ctr tmp. let tctr = tmp ! ctr; tctrp1 = tmp ! (ctr + 1);
                      r0 = uint128_to_uint64 tctr AND 0x7ffffffffffff;
                      c = u128_shift_right tctr 51;
                      tmp = tmp[ctr := uint64_to_uint128 r0]
                  in tmp[ctr + 1 := u128_add tctrp1 c]) tmp"

definition Hacl_Bignum_Fmul_shift_reduce_25519 :: "u64 list \<Rightarrow> u64 list" where
  "Hacl_Bignum_Fmul_shift_reduce_25519 output =
     (let tmp = output ! 4;
          output = for_loop 0 4 (\<lambda>i output. let ctr = 5 - i - 1; z = output ! (ctr - 1)
                                            in output[ctr := z]) output;
          output = output[0 := tmp];
          b0 = output ! 0
      in output[0 := 19 * b0])"

text \<open>The products are accumulated in \<open>output\<close>; \<open>input\<close> is multiplied by \<open>2 ^ 51\<close> after each.\<close>

definition Hacl_Bignum_Fmul_mul_shift_reduce_25519 ::
    "u128 list \<Rightarrow> u64 list \<Rightarrow> u64 list \<Rightarrow> u128 list \<times> u64 list" where
  "Hacl_Bignum_Fmul_mul_shift_reduce_25519 output input input21 =
     (let (output, input) =
            for_loop 0 4
              (\<lambda>i (output, input).
                 let input2i = input21 ! i;
                     output = Hacl_Bignum_Fproduct_sum_scalar_multiplication_25519 output input input2i;
                     input = Hacl_Bignum_Fmul_shift_reduce_25519 input
                 in (output, input)) (output, input);
          i = 4;
          input2i = input21 ! i;
          output = Hacl_Bignum_Fproduct_sum_scalar_multiplication_25519 output input input2i
      in (output, input))"

definition Hacl_Bignum_Fmul_fmul_25519 :: "u64 list \<Rightarrow> u64 list \<Rightarrow> u64 list \<Rightarrow> u64 list" where
  "Hacl_Bignum_Fmul_fmul_25519 output input input21 =
     (let tmp = replicate 5 0;
          tmp = memcpy tmp input 5;
          t = replicate 5 (uint64_to_uint128 0);
          (t, tmp) = Hacl_Bignum_Fmul_mul_shift_reduce_25519 t tmp input21;
          t = Hacl_Bignum_Fproduct_carry_wide_25519 t;
          b4 = t ! 4; b0 = t ! 0;
          b4' = u128_logand b4 (uint64_to_uint128 0x7ffffffffffff);
          b0' = u128_add b0 (u128_mul_wide 19 (uint128_to_uint64 (u128_shift_right b4 51)));
          t = t[4 := b4'];
          t = t[0 := b0'];
          output = Hacl_Bignum_Fproduct_copy_from_wide_25519 output t;
          i0 = output ! 0; i1 = output ! 1;
          i0' = i0 AND 0x7ffffffffffff;
          i1' = i1 + drop_bit 51 i0;
          output = output[0 := i0'];
          output = output[1 := i1']
      in output)"

section \<open>Squaring and inversion\<close>

definition Hacl_Bignum_Fsquare_fsquare'' :: "u128 list \<Rightarrow> u64 list \<Rightarrow> u128 list" where
  "Hacl_Bignum_Fsquare_fsquare'' tmp output =
     (let r0 = output ! 0; r1 = output ! 1; r2 = output ! 2; r3 = output ! 3; r4 = output ! 4;
          d0 = r0 * 2;
          d1 = r1 * 2;
          d2 = r2 * 2 * 19;
          d419 = r4 * 19;
          d4 = d419 * 2;
          s0 = u128_add (u128_add (u128_mul_wide r0 r0) (u128_mul_wide d4 r1)) (u128_mul_wide d2 r3);
          s1 = u128_add (u128_add (u128_mul_wide d0 r1) (u128_mul_wide d4 r2)) (u128_mul_wide (r3 * 19) r3);
          s2 = u128_add (u128_add (u128_mul_wide d0 r2) (u128_mul_wide r1 r1)) (u128_mul_wide d4 r3);
          s3 = u128_add (u128_add (u128_mul_wide d0 r3) (u128_mul_wide d1 r2)) (u128_mul_wide r4 d419);
          s4 = u128_add (u128_add (u128_mul_wide d0 r4) (u128_mul_wide d1 r3)) (u128_mul_wide r2 r2);
          tmp = tmp[0 := s0];
          tmp = tmp[1 := s1];
          tmp = tmp[2 := s2];
          tmp = tmp[3 := s3];
          tmp = tmp[4 := s4]
      in tmp)"

definition Hacl_Bignum_Fsquare_fsquare' :: "u128 list \<Rightarrow> u64 list \<Rightarrow> u128 list \<times> u64 list" where
  "Hacl_Bignum_Fsquare_fsquare' tmp output =
     (let tmp = Hacl_Bignum_Fsquare_fsquare'' tmp output;
          tmp = Hacl_Bignum_Fproduct_carry_wide_25519 tmp;
          b4 = tmp ! 4; b0 = tmp ! 0;
          b4' = u128_logand b4 (uint64_to_uint128 0x7ffffffffffff);
          b0' = u128_add b0 (u128_mul_wide 19 (uint128_to_uint64 (u128_shift_right b4 51)));
          tmp = tmp[4 := b4'];
          tmp = tmp[0 := b0'];
          output = Hacl_Bignum_Fproduct_copy_from_wide_25519 output tmp;
          i0 = output ! 0; i1 = output ! 1;
          i0' = i0 AND 0x7ffffffffffff;
          i1' = i1 + drop_bit 51 i0;
          output = output[0 := i0'];
          output = output[1 := i1']
      in (tmp, output))"

definition Hacl_Bignum_Fsquare_fsquare_times' ::
    "u64 list \<Rightarrow> u128 list \<Rightarrow> u32 \<Rightarrow> u64 list \<times> u128 list" where
  "Hacl_Bignum_Fsquare_fsquare_times' input tmp count1 =
     (let (tmp, input) = Hacl_Bignum_Fsquare_fsquare' tmp input;
          (input, tmp) = for_loop 1 (unat count1)
                           (\<lambda>i (input, tmp). let (tmp, input) = Hacl_Bignum_Fsquare_fsquare' tmp input
                                             in (input, tmp)) (input, tmp)
      in (input, tmp))"

definition Hacl_Bignum_Fsquare_fsquare_times :: "u64 list \<Rightarrow> u64 list \<Rightarrow> u32 \<Rightarrow> u64 list" where
  "Hacl_Bignum_Fsquare_fsquare_times output input count1 =
     (let t = replicate 5 (uint64_to_uint128 0);
          output = memcpy output input 5
      in fst (Hacl_Bignum_Fsquare_fsquare_times' output t count1))"

definition Hacl_Bignum_Fsquare_fsquare_times_inplace :: "u64 list \<Rightarrow> u32 \<Rightarrow> u64 list" where
  "Hacl_Bignum_Fsquare_fsquare_times_inplace output count1 =
     (let t = replicate 5 (uint64_to_uint128 0)
      in fst (Hacl_Bignum_Fsquare_fsquare_times' output t count1))"

text \<open>The four elements \<open>a\<close>, \<open>t0\<close>, \<open>b\<close>, \<open>c\<close> lie in one buffer at offsets 0, 5, 10 and 15.\<close>

definition Hacl_Bignum_Crecip_crecip :: "u64 list \<Rightarrow> u64 list \<Rightarrow> u64 list" where
  "Hacl_Bignum_Crecip_crecip out z =
     (let buf = replicate 20 0;
          buf = at_ptr 0 (\<lambda>a. Hacl_Bignum_Fsquare_fsquare_times a z 1) buf;
          buf = at_ptr 5 (\<lambda>t00. Hacl_Bignum_Fsquare_fsquare_times t00 (drop 0 buf) 2) buf;
          buf = at_ptr 10 (\<lambda>b0. Hacl_Bignum_Fmul_fmul_25519 b0 (drop 5 buf) z) buf;
          buf = at_ptr 0 (\<lambda>a. Hacl_Bignum_Fmul_fmul_25519 a (drop 10 buf) a) buf;
          buf = at_ptr 5 (\<lambda>t00. Hacl_Bignum_Fsquare_fsquare_times t00 (drop 0 buf) 1) buf;
          buf = at_ptr 10 (\<lambda>b0. Hacl_Bignum_Fmul_fmul_25519 b0 (drop 5 buf) b0) buf;
          buf = at_ptr 5 (\<lambda>t00. Hacl_Bignum_Fsquare_fsquare_times t00 (drop 10 buf) 5) buf;
          buf = at_ptr 10 (\<lambda>b1. Hacl_Bignum_Fmul_fmul_25519 b1 (drop 5 buf) b1) buf;
          buf = at_ptr 5 (\<lambda>t01. Hacl_Bignum_Fsquare_fsquare_times t01 (drop 10 buf) 10) buf;
          buf = at_ptr 15 (\<lambda>c0. Hacl_Bignum_Fmul_fmul_25519 c0 (drop 5 buf) (drop 10 buf)) buf;
          buf = at_ptr 5 (\<lambda>t01. Hacl_Bignum_Fsquare_fsquare_times t01 (drop 15 buf) 20) buf;
          buf = at_ptr 5 (\<lambda>t01. Hacl_Bignum_Fmul_fmul_25519 t01 t01 (drop 15 buf)) buf;
          buf = at_ptr 5 (\<lambda>t01. Hacl_Bignum_Fsquare_fsquare_times_inplace t01 10) buf;
          buf = at_ptr 10 (\<lambda>b1. Hacl_Bignum_Fmul_fmul_25519 b1 (drop 5 buf) b1) buf;
          buf = at_ptr 5 (\<lambda>t01. Hacl_Bignum_Fsquare_fsquare_times t01 (drop 10 buf) 50) buf;
          buf = at_ptr 15 (\<lambda>c. Hacl_Bignum_Fmul_fmul_25519 c (drop 5 buf) (drop 10 buf)) buf;
          buf = at_ptr 5 (\<lambda>t0. Hacl_Bignum_Fsquare_fsquare_times t0 (drop 15 buf) 100) buf;
          buf = at_ptr 5 (\<lambda>t0. Hacl_Bignum_Fmul_fmul_25519 t0 t0 (drop 15 buf)) buf;
          buf = at_ptr 5 (\<lambda>t0. Hacl_Bignum_Fsquare_fsquare_times_inplace t0 50) buf;
          buf = at_ptr 5 (\<lambda>t0. Hacl_Bignum_Fmul_fmul_25519 t0 t0 (drop 10 buf)) buf;
          buf = at_ptr 5 (\<lambda>t0. Hacl_Bignum_Fsquare_fsquare_times_inplace t0 5) buf
      in Hacl_Bignum_Fmul_fmul_25519 out (drop 5 buf) (drop 0 buf))"

section \<open>Addition, subtraction, multiplication by a constant\<close>

definition Hacl_Bignum_fsum :: "u64 list \<Rightarrow> u64 list \<Rightarrow> u64 list" where
  "Hacl_Bignum_fsum a b =
     for_loop 0 5 (\<lambda>i a. let xi = a ! i; yi = b ! i in a[i := xi + yi]) a"

definition Hacl_Bignum_fdifference :: "u64 list \<Rightarrow> u64 list \<Rightarrow> u64 list" where
  "Hacl_Bignum_fdifference a b =
     (let tmp = replicate 5 0;
          tmp = memcpy tmp b 5;
          b0 = tmp ! 0; b1 = tmp ! 1; b2 = tmp ! 2; b3 = tmp ! 3; b4 = tmp ! 4;
          tmp = tmp[0 := b0 + 0x3fffffffffff68];
          tmp = tmp[1 := b1 + 0x3ffffffffffff8];
          tmp = tmp[2 := b2 + 0x3ffffffffffff8];
          tmp = tmp[3 := b3 + 0x3ffffffffffff8];
          tmp = tmp[4 := b4 + 0x3ffffffffffff8]
      in for_loop 0 5 (\<lambda>i a. let xi = a ! i; yi = tmp ! i in a[i := yi - xi]) a)"

definition Hacl_Bignum_fscalar :: "u64 list \<Rightarrow> u64 list \<Rightarrow> u64 \<Rightarrow> u64 list" where
  "Hacl_Bignum_fscalar output b s =
     (let tmp = replicate 5 (uint64_to_uint128 0);
          tmp = for_loop 0 5 (\<lambda>i tmp. let xi = b ! i in tmp[i := u128_mul_wide xi s]) tmp;
          tmp = Hacl_Bignum_Fproduct_carry_wide_25519 tmp;
          b4 = tmp ! 4; b0 = tmp ! 0;
          b4' = u128_logand b4 (uint64_to_uint128 0x7ffffffffffff);
          b0' = u128_add b0 (u128_mul_wide 19 (uint128_to_uint64 (u128_shift_right b4 51)));
          tmp = tmp[4 := b4'];
          tmp = tmp[0 := b0']
      in Hacl_Bignum_Fproduct_copy_from_wide_25519 output tmp)"

definition Hacl_Bignum_fmul :: "u64 list \<Rightarrow> u64 list \<Rightarrow> u64 list \<Rightarrow> u64 list" where
  "Hacl_Bignum_fmul output a b = Hacl_Bignum_Fmul_fmul_25519 output a b"

definition Hacl_Bignum_crecip :: "u64 list \<Rightarrow> u64 list \<Rightarrow> u64 list" where
  "Hacl_Bignum_crecip output input = Hacl_Bignum_Crecip_crecip output input"

section \<open>Reduction of the wide limbs\<close>

definition p25519 :: int where
  "p25519 = 2 ^ 255 - 19"

text \<open>The field element a pointer refers to, and the bounds on its limbs.\<close>

definition fval :: "u64 list \<Rightarrow> int" where
  "fval l = int (eval_limbs 51 (take 5 l)) mod p25519"

definition limbs_below :: "nat \<Rightarrow> u64 list \<Rightarrow> bool" where
  "limbs_below n l \<longleftrightarrow> 5 \<le> length l \<and> (\<forall>i < 5. unat (l ! i) < n)"

text \<open>The result of a multiplication, and what multiplication accepts.\<close>

abbreviation fe_red :: "u64 list \<Rightarrow> bool" where
  "fe_red \<equiv> limbs_below (2 ^ 51 + 2 ^ 13)"

abbreviation fe_arg :: "u64 list \<Rightarrow> bool" where
  "fe_arg \<equiv> limbs_below (2 ^ 54 + 2 ^ 51 + 2 ^ 13)"

lemma limbs_below_Cons:
  "limbs_below n (a0 # a1 # a2 # a3 # a4 # r)
   \<longleftrightarrow> unat a0 < n \<and> unat a1 < n \<and> unat a2 < n \<and> unat a3 < n \<and> unat a4 < n"
proof -
  have "{..<5 :: nat} = {0, 1, 2, 3, 4}" by auto
  then have "(\<forall>i < 5. P i) \<longleftrightarrow> P 0 \<and> P 1 \<and> P 2 \<and> P 3 \<and> P 4" for P :: "nat \<Rightarrow> bool"
    unfolding lessThan_def by (simp add: set_eq_iff) metis
  then show ?thesis by (simp add: limbs_below_def)
qed

lemma limbs5E:
  assumes "5 \<le> length l"
  obtains a0 a1 a2 a3 a4 r where "l = a0 # a1 # a2 # a3 # a4 # r"
  using assms by (cases l; cases "tl l"; cases "tl (tl l)"; cases "tl (tl (tl l))";
      cases "tl (tl (tl (tl l)))") auto

lemma limbs_belowE:
  assumes "limbs_below n l"
  obtains a0 a1 a2 a3 a4 r where "l = a0 # a1 # a2 # a3 # a4 # r"
    "unat a0 < n" "unat a1 < n" "unat a2 < n" "unat a3 < n" "unat a4 < n"
proof -
  have "5 \<le> length l" using assms by (simp add: limbs_below_def)
  then obtain a0 a1 a2 a3 a4 r where l: "l = a0 # a1 # a2 # a3 # a4 # r" by (rule limbs5E)
  with that [OF l] assms show thesis by (simp add: limbs_below_Cons)
qed

lemma limbs_below_mono: "limbs_below m l \<Longrightarrow> m \<le> n \<Longrightarrow> limbs_below n l"
  by (auto simp: limbs_below_def)

lemma fe_red_arg: "fe_red l \<Longrightarrow> fe_arg l"
  by (erule limbs_below_mono) simp

lemma fval_Cons:
  "fval (a0 # a1 # a2 # a3 # a4 # r)
   = int (unat a0 + 2 ^ 51 * (unat a1 + 2 ^ 51 * (unat a2 + 2 ^ 51 * (unat a3 + 2 ^ 51 * unat a4)))) mod p25519"
  by (simp add: fval_def)

text \<open>The carries on natural numbers.\<close>

lemma carry5_nat:
  fixes t0 t1 t2 t3 t4 s1 s2 s3 s4 e v0 :: nat
  assumes s1: "s1 = t1 + t0 div 2 ^ 51" and s2: "s2 = t2 + s1 div 2 ^ 51"
    and s3: "s3 = t3 + s2 div 2 ^ 51" and s4: "s4 = t4 + s3 div 2 ^ 51"
    and e: "e = s4 div 2 ^ 51" and v0: "v0 = t0 mod 2 ^ 51 + 19 * e"
  shows "int (v0 + 2 ^ 51 * (s1 mod 2 ^ 51 + 2 ^ 51 * (s2 mod 2 ^ 51
           + 2 ^ 51 * (s3 mod 2 ^ 51 + 2 ^ 51 * (s4 mod 2 ^ 51))))) + p25519 * int e
         = int (t0 + 2 ^ 51 * (t1 + 2 ^ 51 * (t2 + 2 ^ 51 * (t3 + 2 ^ 51 * t4))))"
proof -
  have lin: "int (v0 + 2 ^ 51 * (u1 + 2 ^ 51 * (u2 + 2 ^ 51 * (u3 + 2 ^ 51 * u4)))) + p25519 * int e
      = int (t0 + 2 ^ 51 * (t1 + 2 ^ 51 * (t2 + 2 ^ 51 * (t3 + 2 ^ 51 * t4))))"
    if "v0 = u0 + 19 * e" "u0 + 2 ^ 51 * q0 = t0" "u1 + 2 ^ 51 * q1 = t1 + q0"
       "u2 + 2 ^ 51 * q2 = t2 + q1" "u3 + 2 ^ 51 * q3 = t3 + q2" "u4 + 2 ^ 51 * e = t4 + q3"
    for u0 u1 u2 u3 u4 q0 q1 q2 q3 :: nat
  proof -
    have "int v0 = int u0 + 19 * int e" "int t0 = int u0 + 2 ^ 51 * int q0"
      "int t1 = int u1 + 2 ^ 51 * int q1 - int q0" "int t2 = int u2 + 2 ^ 51 * int q2 - int q1"
      "int t3 = int u3 + 2 ^ 51 * int q3 - int q2" "int t4 = int u4 + 2 ^ 51 * int e - int q3"
      using that by simp_all
    then show ?thesis by (simp add: p25519_def)
  qed
  show ?thesis
    by (rule lin [of "t0 mod 2 ^ 51" "t0 div 2 ^ 51" _ "s1 div 2 ^ 51" _ "s2 div 2 ^ 51" _ "s3 div 2 ^ 51"])
       (simp_all only: v0 e mod_mult_div_eq, simp_all only: s1 s2 s3 s4)
qed

text \<open>The carries in the code, and the limbs it leaves.\<close>

lemma unat_lo51: "unat (uint128_to_uint64 x AND 0x7ffffffffffff) = unat x mod 2 ^ 51"
  using native.carry_low [of 51 x] by (simp add: native.val_of mask_eq_exp_minus_1)

lemma unat_lo51_wide: "unat (u128_logand x (uint64_to_uint128 0x7ffffffffffff)) = unat x mod 2 ^ 51"
proof -
  have "u128_logand x (uint64_to_uint128 0x7ffffffffffff) = x AND mask 51"
    by (simp add: u128_logand_def uint64_to_uint128_def mask_eq_exp_minus_1)
  then show ?thesis by (simp only: unat_and_mask)
qed

lemma mod51_lt: "(x::nat) mod 2 ^ 51 < 2 ^ 51"
  by simp

lemma shift51_lt: "(x::nat) < 2 ^ 117 \<Longrightarrow> x div 2 ^ 51 < 2 ^ 66"
  by (intro less_mult_imp_div_less) simp

lemma reduce_wide_25519:
  fixes t0 t1 t2 t3 t4 :: u128 and o0 o1 o2 o3 o4 :: u64 and r :: "u64 list"
  assumes t: "unat t0 < 2 ^ 116" "unat t1 < 2 ^ 116" "unat t2 < 2 ^ 116" "unat t3 < 2 ^ 116"
    and t4: "unat t4 < 13 * 2 ^ 107"
  obtains v0 v1 v2 v3 v4 where
    "(let t = Hacl_Bignum_Fproduct_carry_wide_25519 [t0, t1, t2, t3, t4];
            b4 = t ! 4; b0 = t ! 0;
            b4' = u128_logand b4 (uint64_to_uint128 0x7ffffffffffff);
            b0' = u128_add b0 (u128_mul_wide 19 (uint128_to_uint64 (u128_shift_right b4 51)));
            t = t[4 := b4'];
            t = t[0 := b0']
        in Hacl_Bignum_Fproduct_copy_from_wide_25519 (o0 # o1 # o2 # o3 # o4 # r) t)
       = v0 # v1 # v2 # v3 # v4 # r"
    "unat v0 < 2 ^ 51 + 19 * ((unat t4 + 2 ^ 66) div 2 ^ 51 + 1)" "unat v1 < 2 ^ 51" "unat v2 < 2 ^ 51"
    "unat v3 < 2 ^ 51" "unat v4 < 2 ^ 51"
    "fval (v0 # v1 # v2 # v3 # v4 # r)
       = int (unat t0 + 2 ^ 51 * (unat t1 + 2 ^ 51 * (unat t2 + 2 ^ 51 * (unat t3 + 2 ^ 51 * unat t4)))) mod p25519"
proof -
  define s1 where "s1 = u128_add t1 (u128_shift_right t0 51)"
  define s2 where "s2 = u128_add t2 (u128_shift_right s1 51)"
  define s3 where "s3 = u128_add t3 (u128_shift_right s2 51)"
  define s4 where "s4 = u128_add t4 (u128_shift_right s3 51)"
  define e where "e = uint128_to_uint64 (u128_shift_right s4 51)"
  define lo where "lo x = uint64_to_uint128 (uint128_to_uint64 x AND 0x7ffffffffffff)" for x :: u128
  define w0 where "w0 = u128_add (lo t0) (u128_mul_wide 19 e)"
  have lo: "unat (lo x) = unat x mod 2 ^ 51" for x by (simp add: lo_def native.val_of unat_lo51)
  have step: "unat (u128_add b (u128_shift_right a 51)) = unat b + unat a div 2 ^ 51
      \<and> unat b + unat a div 2 ^ 51 < 2 ^ 117"
    if "unat a < 2 ^ 117" "unat b < 2 ^ 116" for a b :: u128
    using that shift51_lt [OF that(1)] by (subst native.carry_high) simp_all
  have s1: "unat s1 = unat t1 + unat t0 div 2 ^ 51" "unat s1 < 2 ^ 117"
    using step [of t0 t1] t by (simp_all add: s1_def)
  have s2: "unat s2 = unat t2 + unat s1 div 2 ^ 51" "unat s2 < 2 ^ 117"
    using step [of s1 t2] t s1(2) by (simp_all add: s2_def)
  have s3: "unat s3 = unat t3 + unat s2 div 2 ^ 51" "unat s3 < 2 ^ 117"
    using step [of s2 t3] t s2(2) by (simp_all add: s3_def)
  have s4: "unat s4 = unat t4 + unat s3 div 2 ^ 51"
    using step [of s3 t4] t4 s3(2) by (simp add: s4_def)
  have q: "unat s4 div 2 ^ 51 \<le> (unat t4 + 2 ^ 66) div 2 ^ 51"
    using s4 shift51_lt [OF s3(2)] by (intro div_le_mono) simp
  have q1: "(unat t4 + 2 ^ 66) div 2 ^ 51 < 13 * 2 ^ 56 + 2 ^ 15"
    using t4 by (intro less_mult_imp_div_less) simp
  have e: "unat e = unat s4 div 2 ^ 51"
    unfolding e_def using q q1 by (subst native.to_exact) (simp_all add: native.val_shr)
  have w0: "unat w0 = unat t0 mod 2 ^ 51 + 19 * unat e"
    unfolding w0_def using e q q1 mod51_lt [of "unat t0"]
    by (subst native.add_exact) (simp_all add: native.val_mul lo)
  have w0b: "unat w0 < 2 ^ 51 + 19 * ((unat t4 + 2 ^ 66) div 2 ^ 51 + 1)"
    using w0 e q mod51_lt [of "unat t0"] by simp
  with q1 have w64: "unat w0 < 2 ^ 64" by simp
  have v0: "unat (uint128_to_uint64 w0) = unat w0" using w64 by (rule native.to_exact)
  have v: "unat (uint128_to_uint64 (lo x)) = unat x mod 2 ^ 51" for x
    using mod51_lt [of "unat x"] by (subst native.to_exact) (simp_all add: lo)
  have v4: "unat (uint128_to_uint64 (u128_logand s4 (uint64_to_uint128 0x7ffffffffffff))) = unat s4 mod 2 ^ 51"
    using mod51_lt [of "unat s4"] by (subst native.to_exact) (simp_all only: unat_lo51_wide, simp_all)
  show thesis
  proof (rule that)
    show "(let t = Hacl_Bignum_Fproduct_carry_wide_25519 [t0, t1, t2, t3, t4];
            b4 = t ! 4; b0 = t ! 0;
            b4' = u128_logand b4 (uint64_to_uint128 0x7ffffffffffff);
            b0' = u128_add b0 (u128_mul_wide 19 (uint128_to_uint64 (u128_shift_right b4 51)));
            t = t[4 := b4'];
            t = t[0 := b0']
        in Hacl_Bignum_Fproduct_copy_from_wide_25519 (o0 # o1 # o2 # o3 # o4 # r) t)
       = uint128_to_uint64 w0 # uint128_to_uint64 (lo s1) # uint128_to_uint64 (lo s2)
         # uint128_to_uint64 (lo s3) # uint128_to_uint64 (u128_logand s4 (uint64_to_uint128 0x7ffffffffffff)) # r"
      by (simp add: Hacl_Bignum_Fproduct_carry_wide_25519_def Hacl_Bignum_Fproduct_copy_from_wide_25519_def
          for_loop_small Let_def w0_def e_def s4_def s3_def s2_def s1_def lo_def)
    show "unat (uint128_to_uint64 w0) < 2 ^ 51 + 19 * ((unat t4 + 2 ^ 66) div 2 ^ 51 + 1)"
      using w0b v0 by simp
    show "unat (uint128_to_uint64 (lo s1)) < 2 ^ 51" "unat (uint128_to_uint64 (lo s2)) < 2 ^ 51"
      "unat (uint128_to_uint64 (lo s3)) < 2 ^ 51"
      "unat (uint128_to_uint64 (u128_logand s4 (uint64_to_uint128 0x7ffffffffffff))) < 2 ^ 51"
      unfolding v v4 by (rule mod51_lt)+
    have "int (unat w0 + 2 ^ 51 * (unat s1 mod 2 ^ 51 + 2 ^ 51 * (unat s2 mod 2 ^ 51
           + 2 ^ 51 * (unat s3 mod 2 ^ 51 + 2 ^ 51 * (unat s4 mod 2 ^ 51))))) + p25519 * int (unat e)
         = int (unat t0 + 2 ^ 51 * (unat t1 + 2 ^ 51 * (unat t2 + 2 ^ 51 * (unat t3 + 2 ^ 51 * unat t4))))"
      by (rule carry5_nat [OF s1(1) s2(1) s3(1) s4 e w0])
    then show "fval (uint128_to_uint64 w0 # uint128_to_uint64 (lo s1) # uint128_to_uint64 (lo s2)
         # uint128_to_uint64 (lo s3) # uint128_to_uint64 (u128_logand s4 (uint64_to_uint128 0x7ffffffffffff)) # r)
       = int (unat t0 + 2 ^ 51 * (unat t1 + 2 ^ 51 * (unat t2 + 2 ^ 51 * (unat t3 + 2 ^ 51 * unat t4)))) mod p25519"
      unfolding fval_Cons v0 v v4 by (metis mod_mult_self2)
  qed
qed

text \<open>The last carry, from the first limb to the second.\<close>

lemma last_carry_25519:
  fixes v0 v1 v2 v3 v4 :: u64 and r :: "u64 list"
  assumes "unat v1 < 2 ^ 51" "unat v2 < 2 ^ 51" "unat v3 < 2 ^ 51" "unat v4 < 2 ^ 51"
  defines "l \<equiv> (v0 AND 0x7ffffffffffff) # (v1 + drop_bit 51 v0) # v2 # v3 # v4 # r"
  shows "fe_red l" and "fval l = fval (v0 # v1 # v2 # v3 # v4 # r)"
proof -
  have q: "unat v0 div 2 ^ 51 < 2 ^ 13" using unat_bound [of v0] by (intro less_mult_imp_div_less) simp
  then have u: "unat (v1 + drop_bit 51 v0) = unat v1 + unat v0 div 2 ^ 51"
    using assms by (subst unat_plus) (simp_all add: unat_shr)
  show "fe_red l"
    using assms(1-4) q mod51_lt [of "unat v0"] by (simp add: l_def limbs_below_Cons u and_mask_51)
  have "unat v0 mod 2 ^ 51 + 2 ^ 51 * (unat v1 + unat v0 div 2 ^ 51 + m) = unat v0 + 2 ^ 51 * (unat v1 + m)" for m
    using carry_nat [of "unat v0" 51 "unat v1 + m"] by (simp add: ac_simps)
  then show "fval l = fval (v0 # v1 # v2 # v3 # v4 # r)"
    unfolding l_def fval_Cons u and_mask_51 by (simp only: add.assoc)
qed

section \<open>The operations on the value\<close>

text \<open>Multiplication: the wide limbs, then their value.\<close>

lemma mul_shift_reduce_25519:
  fixes a0 a1 a2 a3 a4 b0 b1 b2 b3 b4 :: u64 and r :: "u64 list"
  assumes a: "unat a0 < M" "unat a1 < M" "unat a2 < M" "unat a3 < M" "unat a4 < M"
    and b: "unat b0 < M" "unat b1 < M" "unat b2 < M" "unat b3 < M" "unat b4 < M"
    and M: "M = 2 ^ 54 + 2 ^ 51 + 2 ^ 13"
  obtains t0 t1 t2 t3 t4 where
    "fst (Hacl_Bignum_Fmul_mul_shift_reduce_25519 [0, 0, 0, 0, 0] [a0, a1, a2, a3, a4]
            (b0 # b1 # b2 # b3 # b4 # r)) = [t0, t1, t2, t3, t4]"
    "unat t0 = unat a0 * unat b0 + 19 * unat a4 * unat b1 + 19 * unat a3 * unat b2
               + 19 * unat a2 * unat b3 + 19 * unat a1 * unat b4"
    "unat t1 = unat a1 * unat b0 + unat a0 * unat b1 + 19 * unat a4 * unat b2
               + 19 * unat a3 * unat b3 + 19 * unat a2 * unat b4"
    "unat t2 = unat a2 * unat b0 + unat a1 * unat b1 + unat a0 * unat b2
               + 19 * unat a4 * unat b3 + 19 * unat a3 * unat b4"
    "unat t3 = unat a3 * unat b0 + unat a2 * unat b1 + unat a1 * unat b2 + unat a0 * unat b3
               + 19 * unat a4 * unat b4"
    "unat t4 = unat a4 * unat b0 + unat a3 * unat b1 + unat a2 * unat b2 + unat a1 * unat b3
               + unat a0 * unat b4"
proof -
  let ?t = "\<lambda>v w x y z. u128_add_mod (u128_add_mod (u128_add_mod (u128_add_mod (u128_add_mod 0
      (u128_mul_wide v b0)) (u128_mul_wide w b1)) (u128_mul_wide x b2)) (u128_mul_wide y b3)) (u128_mul_wide z b4)"
  have eq: "fst (Hacl_Bignum_Fmul_mul_shift_reduce_25519 [0, 0, 0, 0, 0] [a0, a1, a2, a3, a4]
            (b0 # b1 # b2 # b3 # b4 # r))
      = [?t a0 (19 * a4) (19 * a3) (19 * a2) (19 * a1), ?t a1 a0 (19 * a4) (19 * a3) (19 * a2),
         ?t a2 a1 a0 (19 * a4) (19 * a3), ?t a3 a2 a1 a0 (19 * a4), ?t a4 a3 a2 a1 a0]"
    by (simp add: Hacl_Bignum_Fmul_mul_shift_reduce_25519_def Hacl_Bignum_Fmul_shift_reduce_25519_def
          Hacl_Bignum_Fproduct_sum_scalar_multiplication_25519_def for_loop_small Let_def)
  have r: "unat (19 * a1) = 19 * unat a1" "unat (19 * a2) = 19 * unat a2" "unat (19 * a3) = 19 * unat a3"
    "unat (19 * a4) = 19 * unat a4"
    using a by (subst unat_times; simp add: M)+
  have t: "unat (?t v w x y z) = unat v * unat b0 + unat w * unat b1 + unat x * unat b2 + unat y * unat b3
      + unat z * unat b4"
    if "unat v < 2 ^ 60" "unat w < 2 ^ 60" "unat x < 2 ^ 60" "unat y < 2 ^ 60" "unat z < 2 ^ 60" for v w x y z
  proof -
    have "unat v * unat b0 < 2 ^ 115" "unat w * unat b1 < 2 ^ 115" "unat x * unat b2 < 2 ^ 115"
      "unat y * unat b3 < 2 ^ 115" "unat z * unat b4 < 2 ^ 115"
      using that b mult_lt_bound [of _ "2 ^ 60" _ "2 ^ 55" "2 ^ 115"] by (simp_all add: M)
    then show ?thesis by (simp add: native.mul_acc)
  qed
  show thesis
    using a by (intro that [OF eq]; subst t; simp add: r M)
qed

lemma product_value_25519:
  fixes a0 a1 a2 a3 a4 b0 b1 b2 b3 b4 :: int
  shows "(a0 * b0 + 19 * a4 * b1 + 19 * a3 * b2 + 19 * a2 * b3 + 19 * a1 * b4
          + 2 ^ 51 * (a1 * b0 + a0 * b1 + 19 * a4 * b2 + 19 * a3 * b3 + 19 * a2 * b4
          + 2 ^ 51 * (a2 * b0 + a1 * b1 + a0 * b2 + 19 * a4 * b3 + 19 * a3 * b4
          + 2 ^ 51 * (a3 * b0 + a2 * b1 + a1 * b2 + a0 * b3 + 19 * a4 * b4
          + 2 ^ 51 * (a4 * b0 + a3 * b1 + a2 * b2 + a1 * b3 + a0 * b4)))))
         + p25519 * (a4 * b1 + a3 * b2 + a2 * b3 + a1 * b4 + 2 ^ 51 * (a4 * b2 + a3 * b3 + a2 * b4
            + 2 ^ 51 * (a4 * b3 + a3 * b4 + 2 ^ 51 * (a4 * b4))))
       = (a0 + 2 ^ 51 * (a1 + 2 ^ 51 * (a2 + 2 ^ 51 * (a3 + 2 ^ 51 * a4))))
         * (b0 + 2 ^ 51 * (b1 + 2 ^ 51 * (b2 + 2 ^ 51 * (b3 + 2 ^ 51 * b4))))"
  by (simp add: p25519_def algebra_simps)

text \<open>The sizes of the products.\<close>

lemma products_25519:
  fixes a0 a1 a2 a3 a4 b0 b1 b2 b3 b4 :: nat
  assumes "a0 < 2 ^ 54 + 2 ^ 51 + 2 ^ 13" "a1 < 2 ^ 54 + 2 ^ 51 + 2 ^ 13" "a2 < 2 ^ 54 + 2 ^ 51 + 2 ^ 13"
    "a3 < 2 ^ 54 + 2 ^ 51 + 2 ^ 13" "a4 < 2 ^ 54 + 2 ^ 51 + 2 ^ 13"
    and "b0 < 2 ^ 54 + 2 ^ 51 + 2 ^ 13" "b1 < 2 ^ 54 + 2 ^ 51 + 2 ^ 13" "b2 < 2 ^ 54 + 2 ^ 51 + 2 ^ 13"
    "b3 < 2 ^ 54 + 2 ^ 51 + 2 ^ 13" "b4 < 2 ^ 54 + 2 ^ 51 + 2 ^ 13"
  shows "a0 * b0 + 19 * a4 * b1 + 19 * a3 * b2 + 19 * a2 * b3 + 19 * a1 * b4 < 2 ^ 116
    \<and> a1 * b0 + a0 * b1 + 19 * a4 * b2 + 19 * a3 * b3 + 19 * a2 * b4 < 2 ^ 116
    \<and> a2 * b0 + a1 * b1 + a0 * b2 + 19 * a4 * b3 + 19 * a3 * b4 < 2 ^ 116
    \<and> a3 * b0 + a2 * b1 + a1 * b2 + a0 * b3 + 19 * a4 * b4 < 2 ^ 116
    \<and> a4 * b0 + a3 * b1 + a2 * b2 + a1 * b3 + a0 * b4 < 13 * 2 ^ 107"
proof -
  have "x * y \<le> 325 * 2 ^ 100"
    if "x < 2 ^ 54 + 2 ^ 51 + 2 ^ 13" "y < 2 ^ 54 + 2 ^ 51 + 2 ^ 13" for x y :: nat
    using mult_mono [of x "2 ^ 54 + 2 ^ 51 + 2 ^ 13" y "2 ^ 54 + 2 ^ 51 + 2 ^ 13"] that by simp
  note p = this [OF assms(1)] this [OF assms(2)] this [OF assms(3)] this [OF assms(4)] this [OF assms(5)]
  have "a0 * b0 \<le> 325 * 2 ^ 100" "a4 * b1 \<le> 325 * 2 ^ 100" "a3 * b2 \<le> 325 * 2 ^ 100"
    "a2 * b3 \<le> 325 * 2 ^ 100" "a1 * b4 \<le> 325 * 2 ^ 100" "a1 * b0 \<le> 325 * 2 ^ 100"
    "a0 * b1 \<le> 325 * 2 ^ 100" "a4 * b2 \<le> 325 * 2 ^ 100" "a3 * b3 \<le> 325 * 2 ^ 100"
    "a2 * b4 \<le> 325 * 2 ^ 100" "a2 * b0 \<le> 325 * 2 ^ 100" "a1 * b1 \<le> 325 * 2 ^ 100"
    "a0 * b2 \<le> 325 * 2 ^ 100" "a4 * b3 \<le> 325 * 2 ^ 100" "a3 * b4 \<le> 325 * 2 ^ 100"
    "a3 * b0 \<le> 325 * 2 ^ 100" "a2 * b1 \<le> 325 * 2 ^ 100" "a1 * b2 \<le> 325 * 2 ^ 100"
    "a0 * b3 \<le> 325 * 2 ^ 100" "a4 * b4 \<le> 325 * 2 ^ 100" "a4 * b0 \<le> 325 * 2 ^ 100"
    "a3 * b1 \<le> 325 * 2 ^ 100" "a2 * b2 \<le> 325 * 2 ^ 100" "a1 * b3 \<le> 325 * 2 ^ 100"
    "a0 * b4 \<le> 325 * 2 ^ 100"
    by (simp_all only: p assms(6-10))
  then show ?thesis by simp
qed

text \<open>
  What a field operation does through its output pointer \<open>out\<close>: five new words with limbs below
  \<open>n\<close> and the value \<open>v\<close>, the rest of the buffer as it was.
\<close>

definition fe_writes :: "nat \<Rightarrow> int \<Rightarrow> u64 list \<Rightarrow> u64 list \<Rightarrow> bool" where
  "fe_writes n v out out' \<longleftrightarrow>
     length out' = length out \<and> drop 5 out' = drop 5 out \<and> limbs_below n out' \<and> fval out' = v mod p25519"

lemma fe_writes_Cons:
  "limbs_below n (c0 # c1 # c2 # c3 # c4 # r) \<Longrightarrow> fval (c0 # c1 # c2 # c3 # c4 # r) = v mod p25519 \<Longrightarrow>
   fe_writes n v (o0 # o1 # o2 # o3 # o4 # r) (c0 # c1 # c2 # c3 # c4 # r)"
  by (simp add: fe_writes_def)

lemma wide_zero: "replicate 5 (uint64_to_uint128 0) = [0, 0, 0, 0, 0]" "replicate 5 (0 :: u64) = [0, 0, 0, 0, 0]"
  by (simp_all add: uint64_to_uint128_def numeral_eq_Suc)

lemma memcpy_5: "memcpy (o0 # o1 # o2 # o3 # o4 # r) (a0 # a1 # a2 # a3 # a4 # q) 5 = a0 # a1 # a2 # a3 # a4 # r"
  by (simp add: memcpy_def)

lemma fmul_writes:
  assumes "5 \<le> length out" and "fe_arg a" and "fe_arg b"
  shows "fe_writes (2 ^ 51 + 2 ^ 13) (fval a * fval b) out (Hacl_Bignum_Fmul_fmul_25519 out a b)"
proof -
  obtain o0 o1 o2 o3 o4 r where out: "out = o0 # o1 # o2 # o3 # o4 # r" using assms(1) by (rule limbs5E)
  obtain a0 a1 a2 a3 a4 ra where a: "a = a0 # a1 # a2 # a3 # a4 # ra"
    and al: "unat a0 < 2 ^ 54 + 2 ^ 51 + 2 ^ 13" "unat a1 < 2 ^ 54 + 2 ^ 51 + 2 ^ 13"
      "unat a2 < 2 ^ 54 + 2 ^ 51 + 2 ^ 13" "unat a3 < 2 ^ 54 + 2 ^ 51 + 2 ^ 13" "unat a4 < 2 ^ 54 + 2 ^ 51 + 2 ^ 13"
    using assms(2) by (rule limbs_belowE)
  obtain b0 b1 b2 b3 b4 rb where b: "b = b0 # b1 # b2 # b3 # b4 # rb"
    and bl: "unat b0 < 2 ^ 54 + 2 ^ 51 + 2 ^ 13" "unat b1 < 2 ^ 54 + 2 ^ 51 + 2 ^ 13"
      "unat b2 < 2 ^ 54 + 2 ^ 51 + 2 ^ 13" "unat b3 < 2 ^ 54 + 2 ^ 51 + 2 ^ 13" "unat b4 < 2 ^ 54 + 2 ^ 51 + 2 ^ 13"
    using assms(3) by (rule limbs_belowE)
  obtain t0 t1 t2 t3 t4 where eq: "fst (Hacl_Bignum_Fmul_mul_shift_reduce_25519 [0, 0, 0, 0, 0]
        [a0, a1, a2, a3, a4] (b0 # b1 # b2 # b3 # b4 # rb)) = [t0, t1, t2, t3, t4]"
    and t: "unat t0 = unat a0 * unat b0 + 19 * unat a4 * unat b1 + 19 * unat a3 * unat b2
               + 19 * unat a2 * unat b3 + 19 * unat a1 * unat b4"
    "unat t1 = unat a1 * unat b0 + unat a0 * unat b1 + 19 * unat a4 * unat b2
               + 19 * unat a3 * unat b3 + 19 * unat a2 * unat b4"
    "unat t2 = unat a2 * unat b0 + unat a1 * unat b1 + unat a0 * unat b2
               + 19 * unat a4 * unat b3 + 19 * unat a3 * unat b4"
    "unat t3 = unat a3 * unat b0 + unat a2 * unat b1 + unat a1 * unat b2 + unat a0 * unat b3
               + 19 * unat a4 * unat b4"
    "unat t4 = unat a4 * unat b0 + unat a3 * unat b1 + unat a2 * unat b2 + unat a1 * unat b3
               + unat a0 * unat b4"
    using al bl refl by (rule mul_shift_reduce_25519)
  have ub: "unat t0 < 2 ^ 116 \<and> unat t1 < 2 ^ 116 \<and> unat t2 < 2 ^ 116 \<and> unat t3 < 2 ^ 116
      \<and> unat t4 < 13 * 2 ^ 107"
    unfolding t using products_25519 [OF al bl] by simp
  then have "unat t0 < 2 ^ 116" "unat t1 < 2 ^ 116" "unat t2 < 2 ^ 116" "unat t3 < 2 ^ 116"
    "unat t4 < 13 * 2 ^ 107" by simp_all
  then obtain v0 v1 v2 v3 v4 where w:
    "(let t = Hacl_Bignum_Fproduct_carry_wide_25519 [t0, t1, t2, t3, t4];
            b4 = t ! 4; b0 = t ! 0;
            b4' = u128_logand b4 (uint64_to_uint128 0x7ffffffffffff);
            b0' = u128_add b0 (u128_mul_wide 19 (uint128_to_uint64 (u128_shift_right b4 51)));
            t = t[4 := b4'];
            t = t[0 := b0']
        in Hacl_Bignum_Fproduct_copy_from_wide_25519 (o0 # o1 # o2 # o3 # o4 # r) t)
       = v0 # v1 # v2 # v3 # v4 # r"
    and v: "unat v1 < 2 ^ 51" "unat v2 < 2 ^ 51" "unat v3 < 2 ^ 51" "unat v4 < 2 ^ 51"
    and fv: "fval (v0 # v1 # v2 # v3 # v4 # r)
       = int (unat t0 + 2 ^ 51 * (unat t1 + 2 ^ 51 * (unat t2 + 2 ^ 51 * (unat t3 + 2 ^ 51 * unat t4)))) mod p25519"
    by (rule reduce_wide_25519)
  have "Hacl_Bignum_Fmul_fmul_25519 out a b = (v0 AND 0x7ffffffffffff) # (v1 + drop_bit 51 v0) # v2 # v3 # v4 # r"
    using eq w
    by (simp add: Hacl_Bignum_Fmul_fmul_25519_def out a b wide_zero memcpy_5 Let_def split_beta)
  moreover have "fval (v0 # v1 # v2 # v3 # v4 # r) = (fval a * fval b) mod p25519"
    unfolding fv unfolding a b fval_Cons t mod_mult_eq
    by (simp only: product_value_25519 [symmetric] of_nat_add of_nat_mult of_nat_numeral of_nat_power mod_mult_self2)
  ultimately show ?thesis
    unfolding out using last_carry_25519 [OF v, of v0 r] by (simp add: fe_writes_Cons)
qed

text \<open>Squaring computes the same wide limbs from 15 instead of 25 products.\<close>

lemma fsquare_wide:
  fixes a0 a1 a2 a3 a4 :: u64 and x0 x1 x2 x3 x4 :: u128
  assumes a: "unat a0 < M" "unat a1 < M" "unat a2 < M" "unat a3 < M" "unat a4 < M"
    and M: "M = 2 ^ 54 + 2 ^ 51 + 2 ^ 13"
  obtains t0 t1 t2 t3 t4 where
    "Hacl_Bignum_Fsquare_fsquare'' [x0, x1, x2, x3, x4] (a0 # a1 # a2 # a3 # a4 # r) = [t0, t1, t2, t3, t4]"
    "unat t0 = unat a0 * unat a0 + 19 * unat a4 * unat a1 + 19 * unat a3 * unat a2
               + 19 * unat a2 * unat a3 + 19 * unat a1 * unat a4"
    "unat t1 = unat a1 * unat a0 + unat a0 * unat a1 + 19 * unat a4 * unat a2
               + 19 * unat a3 * unat a3 + 19 * unat a2 * unat a4"
    "unat t2 = unat a2 * unat a0 + unat a1 * unat a1 + unat a0 * unat a2
               + 19 * unat a4 * unat a3 + 19 * unat a3 * unat a4"
    "unat t3 = unat a3 * unat a0 + unat a2 * unat a1 + unat a1 * unat a2 + unat a0 * unat a3
               + 19 * unat a4 * unat a4"
    "unat t4 = unat a4 * unat a0 + unat a3 * unat a1 + unat a2 * unat a2 + unat a1 * unat a3
               + unat a0 * unat a4"
proof -
  have two: "unat (x * 2) = 2 * unat x" "unat (x * 19) = 19 * unat x" "unat (38 * x) = 38 * unat x" if "unat x < M" for x :: u64
    using that by (simp_all add: unat_times M)
  have sum: "unat (u128_add (u128_add (u128_mul_wide u v) (u128_mul_wide w x)) (u128_mul_wide y z))
      = unat u * unat v + unat w * unat x + unat y * unat z"
    if "unat u < 2 ^ 60" "unat v < 2 ^ 60" "unat w < 2 ^ 60" "unat x < 2 ^ 60" "unat y < 2 ^ 60" "unat z < 2 ^ 60"
    for u v w x y z
  proof -
    have "unat u * unat v < 2 ^ 120" "unat w * unat x < 2 ^ 120" "unat y * unat z < 2 ^ 120"
      using that mult_lt_bound [of _ "2 ^ 60" _ "2 ^ 60" "2 ^ 120"] by simp_all
    then show ?thesis by (simp add: native.val_add native.val_mul)
  qed
  have b: "unat a0 < 2 ^ 60" "unat a1 < 2 ^ 60" "unat a2 < 2 ^ 60" "unat a3 < 2 ^ 60" "unat a4 < 2 ^ 60"
    and b2: "2 * unat a0 < 2 ^ 60" "2 * unat a1 < 2 ^ 60" "38 * unat a2 < 2 ^ 60" "38 * unat a4 < 2 ^ 60"
      "19 * unat a3 < 2 ^ 60" "19 * unat a4 < 2 ^ 60"
    using a by (simp_all add: M)
  show thesis
  proof (rule that)
    show "Hacl_Bignum_Fsquare_fsquare'' [x0, x1, x2, x3, x4] (a0 # a1 # a2 # a3 # a4 # r)
      = [u128_add (u128_add (u128_mul_wide a0 a0) (u128_mul_wide (a4 * 19 * 2) a1)) (u128_mul_wide (a2 * 2 * 19) a3),
         u128_add (u128_add (u128_mul_wide (a0 * 2) a1) (u128_mul_wide (a4 * 19 * 2) a2)) (u128_mul_wide (a3 * 19) a3),
         u128_add (u128_add (u128_mul_wide (a0 * 2) a2) (u128_mul_wide a1 a1)) (u128_mul_wide (a4 * 19 * 2) a3),
         u128_add (u128_add (u128_mul_wide (a0 * 2) a3) (u128_mul_wide (a1 * 2) a2)) (u128_mul_wide a4 (a4 * 19)),
         u128_add (u128_add (u128_mul_wide (a0 * 2) a4) (u128_mul_wide (a1 * 2) a3)) (u128_mul_wide a2 a2)]"
      by (simp only: Hacl_Bignum_Fsquare_fsquare''_def Let_def) simp
  qed (subst sum; use a b b2 in \<open>simp add: two\<close>)+
qed

lemma fsquare'_writes:
  assumes "5 \<le> length out" and "fe_arg out" and "length tmp = 5"
  defines "res \<equiv> Hacl_Bignum_Fsquare_fsquare' tmp out"
  shows "length (fst res) = 5" and "fe_writes (2 ^ 51 + 2 ^ 13) (fval out ^ 2) out (snd res)"
proof -
  obtain a0 a1 a2 a3 a4 r where a: "out = a0 # a1 # a2 # a3 # a4 # r"
    and al: "unat a0 < 2 ^ 54 + 2 ^ 51 + 2 ^ 13" "unat a1 < 2 ^ 54 + 2 ^ 51 + 2 ^ 13"
      "unat a2 < 2 ^ 54 + 2 ^ 51 + 2 ^ 13" "unat a3 < 2 ^ 54 + 2 ^ 51 + 2 ^ 13" "unat a4 < 2 ^ 54 + 2 ^ 51 + 2 ^ 13"
    using assms(2) by (rule limbs_belowE)
  obtain x0 x1 x2 x3 x4 where x: "tmp = [x0, x1, x2, x3, x4]" using assms(3) by (rule list5E)
  obtain t0 t1 t2 t3 t4 where
    eq: "Hacl_Bignum_Fsquare_fsquare'' [x0, x1, x2, x3, x4] (a0 # a1 # a2 # a3 # a4 # r) = [t0, t1, t2, t3, t4]"
    and t: "unat t0 = unat a0 * unat a0 + 19 * unat a4 * unat a1 + 19 * unat a3 * unat a2
               + 19 * unat a2 * unat a3 + 19 * unat a1 * unat a4"
    "unat t1 = unat a1 * unat a0 + unat a0 * unat a1 + 19 * unat a4 * unat a2
               + 19 * unat a3 * unat a3 + 19 * unat a2 * unat a4"
    "unat t2 = unat a2 * unat a0 + unat a1 * unat a1 + unat a0 * unat a2
               + 19 * unat a4 * unat a3 + 19 * unat a3 * unat a4"
    "unat t3 = unat a3 * unat a0 + unat a2 * unat a1 + unat a1 * unat a2 + unat a0 * unat a3
               + 19 * unat a4 * unat a4"
    "unat t4 = unat a4 * unat a0 + unat a3 * unat a1 + unat a2 * unat a2 + unat a1 * unat a3
               + unat a0 * unat a4"
    using al refl by (rule fsquare_wide)
  have "unat t0 < 2 ^ 116 \<and> unat t1 < 2 ^ 116 \<and> unat t2 < 2 ^ 116 \<and> unat t3 < 2 ^ 116
      \<and> unat t4 < 13 * 2 ^ 107"
    unfolding t using products_25519 [OF al al] by simp
  then have "unat t0 < 2 ^ 116" "unat t1 < 2 ^ 116" "unat t2 < 2 ^ 116" "unat t3 < 2 ^ 116"
    "unat t4 < 13 * 2 ^ 107" by simp_all
  then obtain v0 v1 v2 v3 v4 where w:
    "(let t = Hacl_Bignum_Fproduct_carry_wide_25519 [t0, t1, t2, t3, t4];
            b4 = t ! 4; b0 = t ! 0;
            b4' = u128_logand b4 (uint64_to_uint128 0x7ffffffffffff);
            b0' = u128_add b0 (u128_mul_wide 19 (uint128_to_uint64 (u128_shift_right b4 51)));
            t = t[4 := b4'];
            t = t[0 := b0']
        in Hacl_Bignum_Fproduct_copy_from_wide_25519 (a0 # a1 # a2 # a3 # a4 # r) t)
       = v0 # v1 # v2 # v3 # v4 # r"
    and v: "unat v1 < 2 ^ 51" "unat v2 < 2 ^ 51" "unat v3 < 2 ^ 51" "unat v4 < 2 ^ 51"
    and fv: "fval (v0 # v1 # v2 # v3 # v4 # r)
       = int (unat t0 + 2 ^ 51 * (unat t1 + 2 ^ 51 * (unat t2 + 2 ^ 51 * (unat t3 + 2 ^ 51 * unat t4)))) mod p25519"
    by (rule reduce_wide_25519)
  have "snd res = (v0 AND 0x7ffffffffffff) # (v1 + drop_bit 51 v0) # v2 # v3 # v4 # r"
    using eq w by (simp add: res_def Hacl_Bignum_Fsquare_fsquare'_def a x Let_def)
  moreover have "fval (v0 # v1 # v2 # v3 # v4 # r) = (fval out ^ 2) mod p25519"
    unfolding fv unfolding a fval_Cons t power2_eq_square mod_mult_eq
    by (simp only: product_value_25519 [symmetric] of_nat_add of_nat_mult of_nat_numeral of_nat_power mod_mult_self2)
  ultimately show "fe_writes (2 ^ 51 + 2 ^ 13) (fval out ^ 2) out (snd res)"
    unfolding a using last_carry_25519 [OF v, of v0 r] by (simp add: fe_writes_Cons a)
  show "length (fst res) = 5"
    by (simp add: res_def Hacl_Bignum_Fsquare_fsquare'_def Hacl_Bignum_Fproduct_carry_wide_25519_def
        Let_def a x eq for_loop_small)
qed

lemma fe_writes_trans:
  "fe_writes m u out l \<Longrightarrow> fe_writes n v l l' \<Longrightarrow> fe_writes n v out l'"
  by (simp add: fe_writes_def)

lemma fe_writesD: "fe_writes n v out l \<Longrightarrow> limbs_below n l" "fe_writes n v out l \<Longrightarrow> fval l = v mod p25519"
    "fe_writes n v out l \<Longrightarrow> length l = length out" "fe_writes n v out l \<Longrightarrow> drop 5 l = drop 5 out"
  by (simp_all add: fe_writes_def)

lemma limbs_below_length: "limbs_below n l \<Longrightarrow> 5 \<le> length l"
  by (simp add: limbs_below_def)

lemma fe_writes_cong: "u mod p25519 = v mod p25519 \<Longrightarrow> fe_writes n u out l \<Longrightarrow> fe_writes n v out l"
  by (simp add: fe_writes_def)

lemma fsquare_times'_writes:
  assumes "fe_arg input" and "length tmp = 5" and "0 < unat count"
  shows "fe_writes (2 ^ 51 + 2 ^ 13) (fval input ^ 2 ^ unat count) input
           (fst (Hacl_Bignum_Fsquare_fsquare_times' input tmp count))"
proof -
  let ?P = "\<lambda>i (l, t). length (t :: u128 list) = 5
      \<and> fe_writes (2 ^ 51 + 2 ^ 13) (fval input ^ 2 ^ i) input l"
  let ?f = "Hacl_Bignum_Fsquare_fsquare' tmp input"
  let ?b = "\<lambda>i (input, tmp). let (tmp, input) = Hacl_Bignum_Fsquare_fsquare' tmp input in (input, tmp)"
  have i: "?P 1 (snd ?f, fst ?f)"
    using fsquare'_writes [OF limbs_below_length [OF assms(1)] assms(1,2)] by simp
  have st: "?P (Suc i) (?b i s)" if "?P i s" for i s
  proof -
    obtain l t where s: "s = (l, t)" by (cases s)
    with that have l: "length t = 5" "fe_writes (2 ^ 51 + 2 ^ 13) (fval input ^ 2 ^ i) input l" by simp_all
    have la: "fe_arg l" using fe_red_arg [OF fe_writesD(1) [OF l(2)]] .
    note sq = fsquare'_writes [OF limbs_below_length [OF la] la l(1)]
    have "(fval l ^ 2) mod p25519 = (fval input ^ 2 ^ Suc i) mod p25519"
      using fe_writesD(2) [OF l(2)]
      by (simp add: power_mod power_mult [symmetric] mult.commute)
    then have "fe_writes (2 ^ 51 + 2 ^ 13) (fval input ^ 2 ^ Suc i) input (snd (Hacl_Bignum_Fsquare_fsquare' t l))"
      by (rule fe_writes_cong [OF _ fe_writes_trans [OF l(2) sq(2)]])
    with sq(1) show ?thesis by (simp add: s Let_def split_beta)
  qed
  have "?P (unat count) (for_loop 1 (unat count) ?b (snd ?f, fst ?f))"
    using assms(3) by (intro for_loop_inv [where P = ?P] i st) simp_all
  then show ?thesis
    by (simp add: Hacl_Bignum_Fsquare_fsquare_times'_def Let_def split_beta)
qed

lemma fsquare_times_inplace_writes:
  assumes "fe_arg out" and "0 < unat count"
  shows "fe_writes (2 ^ 51 + 2 ^ 13) (fval out ^ 2 ^ unat count) out
           (Hacl_Bignum_Fsquare_fsquare_times_inplace out count)"
  unfolding Hacl_Bignum_Fsquare_fsquare_times_inplace_def Let_def
  using assms by (intro fsquare_times'_writes) simp_all

lemma memcpy_fe:
  assumes "5 \<le> length out" and "limbs_below n input"
  shows "fe_writes n (fval input) out (memcpy out input 5)" "fval (memcpy out input 5) = fval input"
proof -
  obtain o0 o1 o2 o3 o4 r where out: "out = o0 # o1 # o2 # o3 # o4 # r" using assms(1) by (rule limbs5E)
  have "5 \<le> length input" using assms(2) by (rule limbs_below_length)
  then obtain a0 a1 a2 a3 a4 q where a: "input = a0 # a1 # a2 # a3 # a4 # q" by (rule limbs5E)
  show "fe_writes n (fval input) out (memcpy out input 5)"
    using assms(2) by (simp add: out a memcpy_5 fe_writes_def limbs_below_Cons fval_Cons)
  show "fval (memcpy out input 5) = fval input" by (simp add: out a memcpy_5 fval_Cons)
qed

lemma fsquare_times_writes:
  assumes "5 \<le> length out" and "fe_arg input" and "0 < unat count"
  shows "fe_writes (2 ^ 51 + 2 ^ 13) (fval input ^ 2 ^ unat count) out
           (Hacl_Bignum_Fsquare_fsquare_times out input count)"
proof -
  note mc = memcpy_fe [OF assms(1,2)]
  show ?thesis
    unfolding Hacl_Bignum_Fsquare_fsquare_times_def Let_def mc(2) [symmetric]
    by (rule fe_writes_trans [OF mc(1) fsquare_times'_writes [OF fe_writesD(1) [OF mc(1)] _ assms(3)]]) simp
qed

lemma fsum_writes:
  assumes "limbs_below m a" and "limbs_below n b" and "m + n \<le> 2 ^ 64"
  shows "fe_writes (m + n) (fval a + fval b) a (Hacl_Bignum_fsum a b)"
proof -
  obtain a0 a1 a2 a3 a4 r where a: "a = a0 # a1 # a2 # a3 # a4 # r"
    and al: "unat a0 < m" "unat a1 < m" "unat a2 < m" "unat a3 < m" "unat a4 < m"
    using assms(1) by (rule limbs_belowE)
  obtain b0 b1 b2 b3 b4 q where b: "b = b0 # b1 # b2 # b3 # b4 # q"
    and bl: "unat b0 < n" "unat b1 < n" "unat b2 < n" "unat b3 < n" "unat b4 < n"
    using assms(2) by (rule limbs_belowE)
  have eq: "Hacl_Bignum_fsum a b = (a0 + b0) # (a1 + b1) # (a2 + b2) # (a3 + b3) # (a4 + b4) # r"
    by (simp add: Hacl_Bignum_fsum_def a b for_loop_small Let_def)
  have u: "unat (x + y) = unat x + unat y" if "unat x < m" "unat y < n" for x y :: u64
    using that assms(3) by (subst unat_plus) simp_all
  show ?thesis
    unfolding eq unfolding a
    by (rule fe_writes_Cons)
       (use al bl in \<open>simp_all add: limbs_below_Cons b fval_Cons u add_strict_mono mod_add_eq algebra_simps\<close>)
qed

text \<open>Subtraction adds eight times the modulus first, which keeps every limb positive.\<close>

lemma fdifference_writes:
  assumes "fe_red a" and "fe_red b"
  shows "fe_writes (2 ^ 54 + 2 ^ 51 + 2 ^ 13) (fval b - fval a) a (Hacl_Bignum_fdifference a b)"
proof -
  obtain a0 a1 a2 a3 a4 r where a: "a = a0 # a1 # a2 # a3 # a4 # r"
    and al: "unat a0 < 2 ^ 51 + 2 ^ 13" "unat a1 < 2 ^ 51 + 2 ^ 13" "unat a2 < 2 ^ 51 + 2 ^ 13"
      "unat a3 < 2 ^ 51 + 2 ^ 13" "unat a4 < 2 ^ 51 + 2 ^ 13"
    using assms(1) by (rule limbs_belowE)
  obtain b0 b1 b2 b3 b4 q where b: "b = b0 # b1 # b2 # b3 # b4 # q"
    and bl: "unat b0 < 2 ^ 51 + 2 ^ 13" "unat b1 < 2 ^ 51 + 2 ^ 13" "unat b2 < 2 ^ 51 + 2 ^ 13"
      "unat b3 < 2 ^ 51 + 2 ^ 13" "unat b4 < 2 ^ 51 + 2 ^ 13"
    using assms(2) by (rule limbs_belowE)
  have eq: "Hacl_Bignum_fdifference a b =
      (b0 + 0x3fffffffffff68 - a0) # (b1 + 0x3ffffffffffff8 - a1) # (b2 + 0x3ffffffffffff8 - a2)
      # (b3 + 0x3ffffffffffff8 - a3) # (b4 + 0x3ffffffffffff8 - a4) # r"
    by (simp add: Hacl_Bignum_fdifference_def a b wide_zero memcpy_5 for_loop_small Let_def)
  have u: "unat (y + c - x) = unat y + unat c - unat x \<and> unat x \<le> unat y + unat c"
    if "unat x < 2 ^ 51 + 2 ^ 13" "unat y < 2 ^ 51 + 2 ^ 13" "2 ^ 52 \<le> unat c" "unat c < 2 ^ 54" for x y c :: u64
    using that by (simp add: unat_minus unat_plus)
  note u0 = u [OF al(1) bl(1), of "0x3fffffffffff68", simplified]
    u [OF al(2) bl(2), of "0x3ffffffffffff8", simplified] u [OF al(3) bl(3), of "0x3ffffffffffff8", simplified]
    u [OF al(4) bl(4), of "0x3ffffffffffff8", simplified] u [OF al(5) bl(5), of "0x3ffffffffffff8", simplified]
  have eight: "int (d0 + 2 ^ 51 * (d1 + 2 ^ 51 * (d2 + 2 ^ 51 * (d3 + 2 ^ 51 * d4))))
     = int (y0 + 2 ^ 51 * (y1 + 2 ^ 51 * (y2 + 2 ^ 51 * (y3 + 2 ^ 51 * y4))))
       - int (x0 + 2 ^ 51 * (x1 + 2 ^ 51 * (x2 + 2 ^ 51 * (x3 + 2 ^ 51 * x4)))) + p25519 * 8"
    if "d0 = y0 + 0x3fffffffffff68 - x0 \<and> x0 \<le> y0 + 0x3fffffffffff68"
      "d1 = y1 + 0x3ffffffffffff8 - x1 \<and> x1 \<le> y1 + 0x3ffffffffffff8"
      "d2 = y2 + 0x3ffffffffffff8 - x2 \<and> x2 \<le> y2 + 0x3ffffffffffff8"
      "d3 = y3 + 0x3ffffffffffff8 - x3 \<and> x3 \<le> y3 + 0x3ffffffffffff8"
      "d4 = y4 + 0x3ffffffffffff8 - x4 \<and> x4 \<le> y4 + 0x3ffffffffffff8"
    for d0 d1 d2 d3 d4 x0 x1 x2 x3 x4 y0 y1 y2 y3 y4 :: nat
    using that by (simp add: p25519_def of_nat_diff algebra_simps)
  show ?thesis
    unfolding eq unfolding a
  proof (rule fe_writes_Cons)
    show "fval ((b0 + 0x3fffffffffff68 - a0) # (b1 + 0x3ffffffffffff8 - a1) # (b2 + 0x3ffffffffffff8 - a2)
      # (b3 + 0x3ffffffffffff8 - a3) # (b4 + 0x3ffffffffffff8 - a4) # r)
      = (fval b - fval (a0 # a1 # a2 # a3 # a4 # r)) mod p25519"
      unfolding b fval_Cons eight [OF u0] mod_mult_self2 mod_diff_eq ..
  qed (use al bl u0 in \<open>simp add: limbs_below_Cons, intro conjI, linarith+\<close>)
qed

lemma fscalar_writes:
  assumes "5 \<le> length out" and "fe_arg b" and "unat s < 2 ^ 17"
  shows "fe_writes (2 ^ 51 + 2 ^ 27) (fval b * int (unat s)) out (Hacl_Bignum_fscalar out b s)"
proof -
  obtain o0 o1 o2 o3 o4 r where out: "out = o0 # o1 # o2 # o3 # o4 # r" using assms(1) by (rule limbs5E)
  obtain b0 b1 b2 b3 b4 q where b: "b = b0 # b1 # b2 # b3 # b4 # q"
    and bl: "unat b0 < 2 ^ 54 + 2 ^ 51 + 2 ^ 13" "unat b1 < 2 ^ 54 + 2 ^ 51 + 2 ^ 13"
      "unat b2 < 2 ^ 54 + 2 ^ 51 + 2 ^ 13" "unat b3 < 2 ^ 54 + 2 ^ 51 + 2 ^ 13" "unat b4 < 2 ^ 54 + 2 ^ 51 + 2 ^ 13"
    using assms(2) by (rule limbs_belowE)
  have m: "unat (u128_mul_wide x s) = unat x * unat s" for x by (rule native.val_mul)
  have bd: "unat (u128_mul_wide x s) < 2 ^ 72" if "unat x < 2 ^ 54 + 2 ^ 51 + 2 ^ 13" for x
    unfolding m using that assms(3) mult_lt_bound [of "unat x" "2 ^ 55" "unat s" "2 ^ 17" "2 ^ 72"] by simp
  have "unat (u128_mul_wide b0 s) < 2 ^ 116" "unat (u128_mul_wide b1 s) < 2 ^ 116"
    "unat (u128_mul_wide b2 s) < 2 ^ 116" "unat (u128_mul_wide b3 s) < 2 ^ 116"
    "unat (u128_mul_wide b4 s) < 13 * 2 ^ 107"
    by (rule less_trans [OF bd]; simp add: bl [simplified])+
  then obtain v0 v1 v2 v3 v4 where w:
    "(let t = Hacl_Bignum_Fproduct_carry_wide_25519 [u128_mul_wide b0 s, u128_mul_wide b1 s,
                u128_mul_wide b2 s, u128_mul_wide b3 s, u128_mul_wide b4 s];
            b4 = t ! 4; b0 = t ! 0;
            b4' = u128_logand b4 (uint64_to_uint128 0x7ffffffffffff);
            b0' = u128_add b0 (u128_mul_wide 19 (uint128_to_uint64 (u128_shift_right b4 51)));
            t = t[4 := b4'];
            t = t[0 := b0']
        in Hacl_Bignum_Fproduct_copy_from_wide_25519 (o0 # o1 # o2 # o3 # o4 # r) t)
       = v0 # v1 # v2 # v3 # v4 # r"
    and v0: "unat v0 < 2 ^ 51 + 19 * ((unat (u128_mul_wide b4 s) + 2 ^ 66) div 2 ^ 51 + 1)"
    and v: "unat v1 < 2 ^ 51" "unat v2 < 2 ^ 51" "unat v3 < 2 ^ 51" "unat v4 < 2 ^ 51"
    and fv: "fval (v0 # v1 # v2 # v3 # v4 # r)
       = int (unat (u128_mul_wide b0 s) + 2 ^ 51 * (unat (u128_mul_wide b1 s) + 2 ^ 51 * (unat (u128_mul_wide b2 s)
           + 2 ^ 51 * (unat (u128_mul_wide b3 s) + 2 ^ 51 * unat (u128_mul_wide b4 s))))) mod p25519"
    by (rule reduce_wide_25519)
  have "(unat (u128_mul_wide b4 s) + 2 ^ 66) div 2 ^ 51 < 2 ^ 22"
    using bd [OF bl(5)] by (intro less_mult_imp_div_less) simp
  then have "limbs_below (2 ^ 51 + 2 ^ 27) (v0 # v1 # v2 # v3 # v4 # r)"
    using v0 v by (simp add: limbs_below_Cons)
  moreover have "Hacl_Bignum_fscalar out b s = v0 # v1 # v2 # v3 # v4 # r"
    using w by (simp add: Hacl_Bignum_fscalar_def out b wide_zero for_loop_small Let_def)
  moreover have "fval (v0 # v1 # v2 # v3 # v4 # r) = (fval b * int (unat s)) mod p25519"
    unfolding fv unfolding m b fval_Cons mod_mult_left_eq by (simp add: algebra_simps)
  ultimately show ?thesis by (simp add: out fe_writes_Cons)
qed

section \<open>Buffers of field elements\<close>

text \<open>
  A buffer that holds several field elements, five words each.  A cell records a bound on the
  limbs and the value of an element, or nothing.
\<close>

type_synonym cell = "(nat \<times> int) option"

definition holds :: "cell \<Rightarrow> u64 list \<Rightarrow> bool" where
  "holds c l \<longleftrightarrow> 5 \<le> length l
     \<and> (case c of None \<Rightarrow> True | Some (n, v) \<Rightarrow> limbs_below n l \<and> fval l = v mod p25519)"

definition slots :: "cell list \<Rightarrow> u64 list \<Rightarrow> bool" where
  "slots cs buf \<longleftrightarrow> length buf = 5 * length cs \<and> (\<forall>i < length cs. holds (cs ! i) (drop (5 * i) buf))"

lemma limbs_below_take: "limbs_below n l \<longleftrightarrow> 5 \<le> length l \<and> limbs_below n (take 5 l)"
  by (auto simp: limbs_below_def)

lemma holds_take: "holds c l \<longleftrightarrow> 5 \<le> length l \<and> holds c (take 5 l)"
proof (cases c)
  case (Some p)
  then show ?thesis using limbs_below_take [of "fst p" l] by (cases p) (auto simp: holds_def fval_def)
qed (simp add: holds_def)

lemma holds_cong: "take 5 l = take 5 l' \<Longrightarrow> length l = length l' \<Longrightarrow> holds c l \<longleftrightarrow> holds c l'"
  using holds_take [of c l] holds_take [of c l'] by simp

lemma fe_writes_holds: "fe_writes n v out l \<Longrightarrow> 5 \<le> length out \<Longrightarrow> holds (Some (n, v)) l"
  by (simp add: holds_def fe_writes_def)

lemma slots_get: "slots cs buf \<Longrightarrow> off mod 5 = 0 \<Longrightarrow> off div 5 < length cs \<Longrightarrow> holds (cs ! (off div 5)) (drop off buf)"
proof -
  assume "slots cs buf" "off mod 5 = 0" "off div 5 < length cs"
  moreover from this(2) have "off = 5 * (off div 5)" by presburger
  ultimately show ?thesis unfolding slots_def by metis
qed

lemma slots_length: "slots cs buf \<Longrightarrow> length buf = 5 * length cs"
  by (simp add: slots_def)

lemma slots_zero: "slots (replicate n None) (replicate (5 * n) x)"
  by (simp add: slots_def holds_def Suc_le_eq flip: diff_mult_distrib2)

lemma slots_put:
  assumes "slots cs buf" and "off = 5 * s" and "s < length cs" and "fe_writes n v (drop off buf) new"
  shows "slots (cs[s := Some (n, v)]) (take off buf @ new)"
proof -
  let ?b = "take off buf @ new"
  have len: "length buf = 5 * length cs" using assms(1) by (rule slots_length)
  have ln: "length new = length buf - off" and dn: "drop 5 new = drop (off + 5) buf"
    using fe_writesD(3,4) [OF assms(4)] by (simp_all add: add.commute)
  have lb: "length ?b = length buf" using ln len assms(2,3) by simp
  have "holds (cs[s := Some (n, v)] ! i) (drop (5 * i) ?b)" if i: "i < length cs" for i
  proof (cases "i = s")
    case True
    have "5 \<le> length (drop off buf)" using len assms(2,3) by simp
    with fe_writes_holds [OF assms(4)] show ?thesis using True i len assms(2) by simp
  next
    case False
    then consider "i < s" | "s < i" by linarith
    then have "take 5 (drop (5 * i) ?b) = take 5 (drop (5 * i) buf)"
    proof cases
      case 1
      then have "take 5 (drop (5 * i) (take off buf)) = take 5 (drop (5 * i) buf)"
        using assms(2) by (simp add: drop_take min_def)
      with 1 show ?thesis using len assms(2,3) i by simp
    next
      case 2
      then obtain k where "i = s + 1 + k" by (metis Suc_eq_plus1 add_Suc_right less_imp_Suc_add add_Suc)
      then have "drop (5 * i) ?b = drop (5 * k) (drop 5 new)" "drop (5 * i) buf = drop (5 * k) (drop (off + 5) buf)"
        using len assms(2,3) by (simp_all add: algebra_simps)
      with dn show ?thesis by simp
    qed
    then have "holds (cs ! i) (drop (5 * i) ?b) \<longleftrightarrow> holds (cs ! i) (drop (5 * i) buf)"
      by (rule holds_cong) (simp only: length_drop lb)
    with False show ?thesis using assms(1) i by (simp add: slots_def)
  qed
  with lb len show ?thesis by (simp add: slots_def)
qed

text \<open>One statement of the code: an operation that writes an element of the buffer.\<close>

lemma slots_let:
  assumes "slots cs buf" and "off mod 5 = 0" and "off div 5 < length cs"
    and "5 \<le> length (drop off buf) \<Longrightarrow> fe_writes n v (drop off buf) new"
    and "\<And>b. slots (cs[off div 5 := Some (n, v)]) b \<Longrightarrow> Q (f b)"
  shows "Q (Let (take off buf @ new) f)"
proof -
  have off: "off = 5 * (off div 5)" using assms(2) by presburger
  have "5 \<le> length (drop off buf)" using assms(1,3) off by (simp add: slots_def)
  from slots_put [OF assms(1) off assms(3) assms(4) [OF this]]
  show ?thesis using assms(5) by (simp add: Let_def)
qed

section \<open>Inversion\<close>

text \<open>The addition chain of \<open>crecip\<close>, on the exponents.\<close>

definition powcell :: "int \<Rightarrow> nat \<Rightarrow> cell" where
  "powcell z e = Some (2 ^ 51 + 2 ^ 13, z ^ e)"

lemma holds_powcell: "holds (powcell z e) l \<longleftrightarrow> fe_red l \<and> fval l = z ^ e mod p25519"
  by (auto simp: holds_def powcell_def limbs_below_def)

lemma pow_mul_writes:
  assumes "holds (powcell z m) a" and "holds (powcell z n) b" and "5 \<le> length out"
  shows "fe_writes (2 ^ 51 + 2 ^ 13) (z ^ (m + n)) out (Hacl_Bignum_Fmul_fmul_25519 out a b)"
proof -
  have "fe_writes (2 ^ 51 + 2 ^ 13) (fval a * fval b) out (Hacl_Bignum_Fmul_fmul_25519 out a b)"
    using assms by (intro fmul_writes fe_red_arg) (simp_all add: holds_powcell)
  moreover have "fval a * fval b mod p25519 = z ^ (m + n) mod p25519"
    using assms by (simp add: holds_powcell power_add mod_mult_eq)
  ultimately show ?thesis by (rule fe_writes_cong [rotated])
qed

lemma pow_sq_writes:
  assumes "holds (powcell z m) a" and "0 < unat n" and "5 \<le> length out"
  shows "fe_writes (2 ^ 51 + 2 ^ 13) (z ^ (m * 2 ^ unat n)) out (Hacl_Bignum_Fsquare_fsquare_times out a n)"
proof -
  have "fe_writes (2 ^ 51 + 2 ^ 13) (fval a ^ 2 ^ unat n) out (Hacl_Bignum_Fsquare_fsquare_times out a n)"
    using assms by (intro fsquare_times_writes fe_red_arg) (simp_all add: holds_powcell)
  moreover have "fval a ^ 2 ^ unat n mod p25519 = z ^ (m * 2 ^ unat n) mod p25519"
    using assms by (simp add: holds_powcell power_mult power_mod)
  ultimately show ?thesis by (rule fe_writes_cong [rotated])
qed

lemma pow_sq_inplace_writes:
  assumes "holds (powcell z m) out" and "0 < unat n"
  shows "fe_writes (2 ^ 51 + 2 ^ 13) (z ^ (m * 2 ^ unat n)) out (Hacl_Bignum_Fsquare_fsquare_times_inplace out n)"
proof -
  have "fe_writes (2 ^ 51 + 2 ^ 13) (fval out ^ 2 ^ unat n) out (Hacl_Bignum_Fsquare_fsquare_times_inplace out n)"
    using assms by (intro fsquare_times_inplace_writes fe_red_arg) (simp_all add: holds_powcell)
  moreover have "fval out ^ 2 ^ unat n mod p25519 = z ^ (m * 2 ^ unat n) mod p25519"
    using assms by (simp add: holds_powcell power_mult power_mod)
  ultimately show ?thesis by (rule fe_writes_cong [rotated])
qed

lemma pow_get:
  "slots cs buf \<Longrightarrow> off mod 5 = 0 \<Longrightarrow> off div 5 < length cs \<Longrightarrow> cs ! (off div 5) = powcell z e \<Longrightarrow>
   holds (powcell z e) (drop off buf)"
  using slots_get [of cs buf off] by simp

text \<open>The statements of \<open>crecip\<close>, by the operation they call.\<close>

lemma crecip_sq:
  assumes "slots cs buf" and "off mod 5 = 0" and "off div 5 < length cs"
    and "i mod 5 = 0" and "i div 5 < length cs" and "cs ! (i div 5) = powcell z m" and "0 < unat n"
    and "cs[off div 5 := powcell z (m * 2 ^ unat n)] = cs2"
    and "\<And>b. slots cs2 b \<Longrightarrow> fe_writes k v out (f b)"
  shows "fe_writes k v out
    (Let (take off buf @ Hacl_Bignum_Fsquare_fsquare_times (drop off buf) (drop i buf) n) f)"
  by (rule slots_let [where Q = "fe_writes k v out", OF assms(1-3)],
      rule pow_sq_writes [OF pow_get [OF assms(1,4-6)] assms(7)], assumption,
      rule assms(9) [folded assms(8), unfolded powcell_def])

lemma crecip_sq_inplace:
  assumes "slots cs buf" and "off mod 5 = 0" and "off div 5 < length cs"
    and "cs ! (off div 5) = powcell z m" and "0 < unat n"
    and "cs[off div 5 := powcell z (m * 2 ^ unat n)] = cs2"
    and "\<And>b. slots cs2 b \<Longrightarrow> fe_writes k v out (f b)"
  shows "fe_writes k v out
    (Let (take off buf @ Hacl_Bignum_Fsquare_fsquare_times_inplace (drop off buf) n) f)"
  by (rule slots_let [where Q = "fe_writes k v out", OF assms(1-3)],
      rule pow_sq_inplace_writes [OF pow_get [OF assms(1-4)] assms(5)],
      rule assms(7) [folded assms(6), unfolded powcell_def])

lemma crecip_mul:
  assumes "slots cs buf" and "off mod 5 = 0" and "off div 5 < length cs"
    and "i mod 5 = 0" and "i div 5 < length cs" and "cs ! (i div 5) = powcell z m"
    and "j mod 5 = 0" and "j div 5 < length cs" and "cs ! (j div 5) = powcell z n"
    and "cs[off div 5 := powcell z (m + n)] = cs2"
    and "\<And>b. slots cs2 b \<Longrightarrow> fe_writes k v out (f b)"
  shows "fe_writes k v out
    (Let (take off buf @ Hacl_Bignum_Fmul_fmul_25519 (drop off buf) (drop i buf) (drop j buf)) f)"
  by (rule slots_let [where Q = "fe_writes k v out", OF assms(1-3)],
      rule pow_mul_writes [OF pow_get [OF assms(1,4-6)] pow_get [OF assms(1,7-9)]], assumption,
      rule assms(11) [folded assms(10), unfolded powcell_def])

lemma crecip_start:
  "slots cs e \<Longrightarrow> (\<And>b. slots cs b \<Longrightarrow> fe_writes k v out (f b)) \<Longrightarrow> fe_writes k v out (Let e f)"
  by (simp add: Let_def)

lemma crecip_sq_input:
  assumes "slots cs buf" and "off mod 5 = 0" and "off div 5 < length cs" and "holds (powcell z m) a"
    and "0 < unat n"
    and "cs[off div 5 := powcell z (m * 2 ^ unat n)] = cs2"
    and "\<And>b. slots cs2 b \<Longrightarrow> fe_writes k v out (f b)"
  shows "fe_writes k v out
    (Let (take off buf @ Hacl_Bignum_Fsquare_fsquare_times (drop off buf) a n) f)"
  by (rule slots_let [where Q = "fe_writes k v out", OF assms(1-3)],
      rule pow_sq_writes [OF assms(4,5)], assumption, rule assms(7) [folded assms(6), unfolded powcell_def])

lemma crecip_mul_input:
  assumes "slots cs buf" and "off mod 5 = 0" and "off div 5 < length cs"
    and "i mod 5 = 0" and "i div 5 < length cs" and "cs ! (i div 5) = powcell z m"
    and "holds (powcell z n) a"
    and "cs[off div 5 := powcell z (m + n)] = cs2"
    and "\<And>b. slots cs2 b \<Longrightarrow> fe_writes k v out (f b)"
  shows "fe_writes k v out
    (Let (take off buf @ Hacl_Bignum_Fmul_fmul_25519 (drop off buf) (drop i buf) a) f)"
  by (rule slots_let [where Q = "fe_writes k v out", OF assms(1-3)],
      rule pow_mul_writes [OF pow_get [OF assms(1,4-6)] assms(7)], assumption,
      rule assms(9) [folded assms(8), unfolded powcell_def])

lemma crecip_last:
  assumes "slots cs buf" and "i mod 5 = 0" and "i div 5 < length cs" and "cs ! (i div 5) = powcell z m"
    and "j mod 5 = 0" and "j div 5 < length cs" and "cs ! (j div 5) = powcell z n"
    and "5 \<le> length out" and "m + n = e"
  shows "fe_writes (2 ^ 51 + 2 ^ 13) (z ^ e) out (Hacl_Bignum_Fmul_fmul_25519 out (drop i buf) (drop j buf))"
  using pow_mul_writes [OF pow_get [OF assms(1-4)] pow_get [OF assms(1,5-7)] assms(8)] assms(9) by simp

lemma crecip_writes:
  assumes "5 \<le> length out" and "fe_red z"
  shows "fe_writes (2 ^ 51 + 2 ^ 13) (fval z ^ (2 ^ 255 - 21)) out (Hacl_Bignum_Crecip_crecip out z)"
proof -
  have z: "holds (powcell (fval z) 1) z"
    using assms(2) by (simp add: holds_powcell) (simp add: fval_def)
  have z0: "slots [None, None, None, None] (replicate 20 0)"
    using slots_zero [of 4 0] by (simp add: numeral_eq_Suc)
  show ?thesis
    unfolding Hacl_Bignum_Crecip_crecip_def at_ptr_def
    by (rule crecip_start [OF z0],
        rule crecip_sq_input [OF _ _ _ z], assumption, simp, simp, simp, simp,
        rule crecip_sq, assumption, simp, simp, simp, simp, simp, simp, simp,
        rule crecip_mul_input [OF _ _ _ _ _ _ z], assumption, simp, simp, simp, simp, simp, simp,
        ((rule crecip_sq, assumption, simp, simp, simp, simp, simp, simp, simp)
         | (rule crecip_sq_inplace, assumption, simp, simp, simp, simp, simp)
         | (rule crecip_mul, assumption, simp, simp, simp, simp, simp, simp, simp, simp, simp))+,
        rule crecip_last, assumption, simp, simp, simp, simp, simp, simp, rule assms(1), simp)
qed

section \<open>Properties\<close>

text \<open>
  C35: Multiplication of two elements with limbs below \<open>2^54 + 2^51 + 2^13\<close> overflows no word: it
  writes the product modulo \<open>2^255 - 19\<close> with limbs below \<open>2^51 + 2^13\<close> and leaves the rest of
  the buffer alone; squaring \<open>count\<close> times writes the power \<open>2 ^ count\<close> in the same form.
\<close>

theorem field25519_mult:
  assumes "fe_arg a" and "fe_arg b" and "5 \<le> length out" and "0 < unat count"
  shows "fe_red (Hacl_Bignum_fmul out a b)
         \<and> fval (Hacl_Bignum_fmul out a b) = fval a * fval b mod p25519
         \<and> drop 5 (Hacl_Bignum_fmul out a b) = drop 5 out
         \<and> fe_red (Hacl_Bignum_Fsquare_fsquare_times out a count)
         \<and> fval (Hacl_Bignum_Fsquare_fsquare_times out a count) = fval a ^ 2 ^ unat count mod p25519
         \<and> drop 5 (Hacl_Bignum_Fsquare_fsquare_times out a count) = drop 5 out"
  using fmul_writes [OF assms(3,1,2)] fsquare_times_writes [OF assms(3,1,4)]
  by (simp only: Hacl_Bignum_fmul_def fe_writes_def simp_thms)

theorem field25519_mult_witness:
  "fval (Hacl_Bignum_fmul [0, 0, 0, 0, 0] [2 ^ 54, 0, 0, 0, 2 ^ 53] [3, 2 ^ 54, 0, 0, 0])
   = fval [2 ^ 54, 0, 0, 0, 2 ^ 53] * fval [3, 2 ^ 54, 0, 0, 0] mod p25519"
proof -
  have "fe_arg [2 ^ 54, 0, 0, 0, 2 ^ 53]" "fe_arg [3, 2 ^ 54, 0, 0, 0]" by (simp_all add: limbs_below_Cons)
  from field25519_mult [OF this, of "[0, 0, 0, 0, 0]" 1] show ?thesis by simp
qed

text \<open>
  Sums and differences of reduced elements and the multiplication by a 17-bit constant
  overflow no limb and compute the field operation; their results are accepted by the
  multiplication again.
\<close>

theorem field25519_add_sub:
  assumes "fe_red a" and "fe_red b" and "fe_arg c" and "unat s < 2 ^ 17"
  shows "fe_arg (Hacl_Bignum_fsum a b) \<and> fval (Hacl_Bignum_fsum a b) = (fval a + fval b) mod p25519
         \<and> fe_arg (Hacl_Bignum_fdifference a b)
         \<and> fval (Hacl_Bignum_fdifference a b) = (fval b - fval a) mod p25519
         \<and> fe_arg (Hacl_Bignum_fscalar a c s)
         \<and> fval (Hacl_Bignum_fscalar a c s) = fval c * int (unat s) mod p25519"
proof -
  have "5 \<le> length a" using assms(1) by (rule limbs_below_length)
  from fscalar_writes [OF this assms(3,4)] fdifference_writes [OF assms(1,2)] fsum_writes [OF assms(1,2)]
  show ?thesis by (auto simp: fe_writes_def intro: limbs_below_mono)
qed

theorem field25519_add_sub_witness:
  "fval (Hacl_Bignum_fdifference [5, 0, 0, 0, 0] [3, 0, 0, 0, 0]) = (fval [3, 0, 0, 0, 0] - fval [5, 0, 0, 0, 0]) mod p25519"
proof -
  have "fe_red [5, 0, 0, 0, 0]" "fe_red [3, 0, 0, 0, 0]" "fe_arg [3, 0, 0, 0, 0]"
    by (simp_all add: limbs_below_Cons)
  from field25519_add_sub [OF this, of 2] show ?thesis by simp
qed

text \<open>
  The addition chain of \<open>crecip\<close> raises a reduced element to the power \<open>p - 2\<close>: with
  \<open>254\<close> squarings and \<open>11\<close> multiplications in one buffer of 20 words.
\<close>

theorem field25519_inverse:
  assumes "fe_red z" and "5 \<le> length out"
  shows "fe_red (Hacl_Bignum_crecip out z)
         \<and> fval (Hacl_Bignum_crecip out z) = fval z ^ nat (p25519 - 2) mod p25519
         \<and> drop 5 (Hacl_Bignum_crecip out z) = drop 5 out"
proof -
  have "nat (p25519 - 2) = 2 ^ 255 - 21" by (simp add: p25519_def)
  with crecip_writes [OF assms(2,1)] show ?thesis
    by (simp only: Hacl_Bignum_crecip_def fe_writes_def simp_thms)
qed

theorem field25519_inverse_witness:
  "fval (Hacl_Bignum_crecip (replicate 5 0) [2, 0, 0, 0, 0]) = fval [2, 0, 0, 0, 0] ^ nat (p25519 - 2) mod p25519"
proof -
  have "fe_red [2, 0, 0, 0, 0]" by (simp add: limbs_below_Cons)
  from field25519_inverse [OF this, of "replicate 5 0"] show ?thesis by simp
qed

end
