(* ===== verification/Format25519.thy ===== *)
theory Format25519
  imports Field25519
begin

text \<open>
  The 32-byte little-endian format of \<open>Hacl_Curve25519.c\<close> (\<open>Hacl_EC_Format\<close>): \<open>fexpand\<close> reads
  the low 255 bits into five limbs, \<open>fcontract\<close> writes the canonical representative of a field
  element.
\<close>

section \<open>The code\<close>

definition Hacl_EC_Format_fexpand :: "u64 list \<Rightarrow> bytes \<Rightarrow> u64 list" where
  "Hacl_EC_Format_fexpand output input =
     (let i0 = load64_le input;
          x00 = drop 6 input; i1 = load64_le x00;
          x01 = drop 12 input; i2 = load64_le x01;
          x02 = drop 19 input; i3 = load64_le x02;
          x0 = drop 24 input; i4 = load64_le x0;
          output0 = i0 AND 0x7ffffffffffff;
          output1 = drop_bit 3 i1 AND 0x7ffffffffffff;
          output2 = drop_bit 6 i2 AND 0x7ffffffffffff;
          output3 = drop_bit 1 i3 AND 0x7ffffffffffff;
          output4 = drop_bit 12 i4 AND 0x7ffffffffffff;
          output = output[0 := output0];
          output = output[1 := output1];
          output = output[2 := output2];
          output = output[3 := output3];
          output = output[4 := output4]
      in output)"

definition Hacl_EC_Format_fcontract_first_carry_pass :: "u64 list \<Rightarrow> u64 list" where
  "Hacl_EC_Format_fcontract_first_carry_pass input =
     (let t0 = input ! 0; t1 = input ! 1; t2 = input ! 2; t3 = input ! 3; t4 = input ! 4;
          t1' = t1 + drop_bit 51 t0;
          t0' = t0 AND 0x7ffffffffffff;
          t2' = t2 + drop_bit 51 t1';
          t1'' = t1' AND 0x7ffffffffffff;
          t3' = t3 + drop_bit 51 t2';
          t2'' = t2' AND 0x7ffffffffffff;
          t4' = t4 + drop_bit 51 t3';
          t3'' = t3' AND 0x7ffffffffffff;
          input = input[0 := t0'];
          input = input[1 := t1''];
          input = input[2 := t2''];
          input = input[3 := t3''];
          input = input[4 := t4']
      in input)"

definition Hacl_EC_Format_fcontract_first_carry_full :: "u64 list \<Rightarrow> u64 list" where
  "Hacl_EC_Format_fcontract_first_carry_full input =
     (let input = Hacl_EC_Format_fcontract_first_carry_pass input
      in Hacl_Bignum_Modulo_carry_top_25519 input)"

definition Hacl_EC_Format_fcontract_second_carry_pass :: "u64 list \<Rightarrow> u64 list" where
  "Hacl_EC_Format_fcontract_second_carry_pass input =
     (let t0 = input ! 0; t1 = input ! 1; t2 = input ! 2; t3 = input ! 3; t4 = input ! 4;
          t1' = t1 + drop_bit 51 t0;
          t0' = t0 AND 0x7ffffffffffff;
          t2' = t2 + drop_bit 51 t1';
          t1'' = t1' AND 0x7ffffffffffff;
          t3' = t3 + drop_bit 51 t2';
          t2'' = t2' AND 0x7ffffffffffff;
          t4' = t4 + drop_bit 51 t3';
          t3'' = t3' AND 0x7ffffffffffff;
          input = input[0 := t0'];
          input = input[1 := t1''];
          input = input[2 := t2''];
          input = input[3 := t3''];
          input = input[4 := t4']
      in input)"

definition Hacl_EC_Format_fcontract_second_carry_full :: "u64 list \<Rightarrow> u64 list" where
  "Hacl_EC_Format_fcontract_second_carry_full input =
     (let input = Hacl_EC_Format_fcontract_second_carry_pass input;
          input = Hacl_Bignum_Modulo_carry_top_25519 input;
          i0 = input ! 0; i1 = input ! 1;
          i0' = i0 AND 0x7ffffffffffff;
          i1' = i1 + drop_bit 51 i0;
          input = input[0 := i0'];
          input = input[1 := i1']
      in input)"

definition Hacl_EC_Format_fcontract_trim :: "u64 list \<Rightarrow> u64 list" where
  "Hacl_EC_Format_fcontract_trim input =
     (let a0 = input ! 0; a1 = input ! 1; a2 = input ! 2; a3 = input ! 3; a4 = input ! 4;
          mask0 = FStar_UInt64_gte_mask a0 0x7ffffffffffed;
          mask1 = FStar_UInt64_eq_mask a1 0x7ffffffffffff;
          mask2 = FStar_UInt64_eq_mask a2 0x7ffffffffffff;
          mask3 = FStar_UInt64_eq_mask a3 0x7ffffffffffff;
          mask4 = FStar_UInt64_eq_mask a4 0x7ffffffffffff;
          msk = (((mask0 AND mask1) AND mask2) AND mask3) AND mask4;
          a0' = a0 - (0x7ffffffffffed AND msk);
          a1' = a1 - (0x7ffffffffffff AND msk);
          a2' = a2 - (0x7ffffffffffff AND msk);
          a3' = a3 - (0x7ffffffffffff AND msk);
          a4' = a4 - (0x7ffffffffffff AND msk);
          input = input[0 := a0'];
          input = input[1 := a1'];
          input = input[2 := a2'];
          input = input[3 := a3'];
          input = input[4 := a4']
      in input)"

definition Hacl_EC_Format_fcontract_store :: "bytes \<Rightarrow> u64 list \<Rightarrow> bytes" where
  "Hacl_EC_Format_fcontract_store output input =
     (let t0 = input ! 0; t1 = input ! 1; t2 = input ! 2; t3 = input ! 3; t4 = input ! 4;
          o0 = push_bit 51 t1 OR t0;
          o1 = push_bit 38 t2 OR drop_bit 13 t1;
          o2 = push_bit 25 t3 OR drop_bit 26 t2;
          o3 = push_bit 12 t4 OR drop_bit 39 t3;
          output = at_ptr 0 (\<lambda>b0. store64_le b0 o0) output;
          output = at_ptr 8 (\<lambda>b1. store64_le b1 o1) output;
          output = at_ptr 16 (\<lambda>b2. store64_le b2 o2) output;
          output = at_ptr 24 (\<lambda>b3. store64_le b3 o3) output
      in output)"

definition Hacl_EC_Format_fcontract :: "bytes \<Rightarrow> u64 list \<Rightarrow> bytes \<times> u64 list" where
  "Hacl_EC_Format_fcontract output input =
     (let input = Hacl_EC_Format_fcontract_first_carry_full input;
          input = Hacl_EC_Format_fcontract_second_carry_full input;
          input = Hacl_EC_Format_fcontract_trim input
      in (Hacl_EC_Format_fcontract_store output input, input))"

section \<open>Reading\<close>

lemma le_val_window:
  assumes "k + n \<le> length b"
  shows "le_val (take n (drop k b)) = le_val b div 256 ^ k mod 256 ^ n"
proof -
  have "b = take k b @ take n (drop k b) @ drop (k + n) b"
    using append_take_drop_id [of n "drop k b"] by (simp add: add.commute)
  then have "le_val b = le_val (take k b) + 256 ^ k * (le_val (take n (drop k b)) + 256 ^ n * le_val (drop (k + n) b))"
    using assms le_val_append [of "take k b" "take n (drop k b) @ drop (k + n) b"]
      le_val_append [of "take n (drop k b)" "drop (k + n) b"] by (simp add: min_def)
  moreover have "le_val (take k b) < 256 ^ k" "le_val (take n (drop k b)) < 256 ^ n"
    by (rule le_val_take_less)+
  ultimately show ?thesis by simp
qed

lemma window_limb:
  "a + 51 \<le> 64 \<Longrightarrow> (x :: nat) div 2 ^ k mod 2 ^ 64 div 2 ^ a mod 2 ^ 51 = x div 2 ^ (k + a) mod 2 ^ 51"
proof -
  assume a: "a + 51 \<le> 64"
  have "x div 2 ^ k mod 2 ^ 64 div 2 ^ a mod 2 ^ 51 = take_bit 51 (drop_bit a (take_bit 64 (drop_bit k x)))"
    by (simp only: take_bit_eq_mod drop_bit_eq_div)
  also have "\<dots> = take_bit 51 (drop_bit (k + a) x)"
    using a by (intro bit_eqI) (auto simp: bit_take_bit_iff bit_drop_bit_eq ac_simps)
  finally show ?thesis by (simp only: take_bit_eq_mod drop_bit_eq_div)
qed

lemma limbs_of_nat:
  fixes x :: nat
  shows "x mod 2 ^ 51 + 2 ^ 51 * (x div 2 ^ 51 mod 2 ^ 51 + 2 ^ 51 * (x div 2 ^ 102 mod 2 ^ 51
    + 2 ^ 51 * (x div 2 ^ 153 mod 2 ^ 51 + 2 ^ 51 * (x div 2 ^ 204 mod 2 ^ 51)))) = x mod 2 ^ 255"
proof -
  have m: "y mod 2 ^ 51 + 2 ^ 51 * (y div 2 ^ 51 mod 2 ^ n) = y mod 2 ^ (51 + n)" for y n :: nat
    using mod_mult2_eq [of y "2 ^ 51" "2 ^ n"] by (simp only: power_add)
  have d: "x div 2 ^ m div 2 ^ 51 = x div 2 ^ (m + 51)" for m
    by (simp only: power_add div_mult2_eq)
  have "x div 2 ^ 153 mod 2 ^ 51 + 2 ^ 51 * (x div 2 ^ 204 mod 2 ^ 51) = x div 2 ^ 153 mod 2 ^ 102"
    using m [of "x div 2 ^ 153" 51] d [of 153] by simp
  moreover have "x div 2 ^ 102 mod 2 ^ 51 + 2 ^ 51 * (x div 2 ^ 153 mod 2 ^ 102) = x div 2 ^ 102 mod 2 ^ 153"
    using m [of "x div 2 ^ 102" 102] d [of 102] by simp
  moreover have "x div 2 ^ 51 mod 2 ^ 51 + 2 ^ 51 * (x div 2 ^ 102 mod 2 ^ 153) = x div 2 ^ 51 mod 2 ^ 204"
    using m [of "x div 2 ^ 51" 153] d [of 51] by simp
  moreover have "x mod 2 ^ 51 + 2 ^ 51 * (x div 2 ^ 51 mod 2 ^ 204) = x mod 2 ^ 255"
    using m [of x 204] by simp
  ultimately show ?thesis by (simp only:)
qed

lemma fexpand_writes:
  assumes "5 \<le> length out" and "32 \<le> length input"
  shows "fe_writes (2 ^ 51) (int (le_val (take 32 input) mod 2 ^ 255)) out (Hacl_EC_Format_fexpand out input)"
    and "eval_limbs 51 (take 5 (Hacl_EC_Format_fexpand out input)) = le_val (take 32 input) mod 2 ^ 255"
proof -
  define x where "x = le_val (take 32 input)"
  obtain o0 o1 o2 o3 o4 r where out: "out = o0 # o1 # o2 # o3 # o4 # r" using assms(1) by (rule limbs5E)
  have w: "unat (load64_le (drop k input)) = x div 2 ^ (8 * k) mod 2 ^ 64" if "k + 8 \<le> 32" for k
  proof -
    have "take 8 (drop k (take 32 input)) = take 8 (drop k input)" using that by (simp add: drop_take min_def)
    then show ?thesis
      using that assms(2) le_val_window [of k 8 "take 32 input"]
      by (simp add: unat_load64_le x_def power_mult)
  qed
  have l: "unat (drop_bit a (load64_le (drop k input)) AND 0x7ffffffffffff) = x div 2 ^ (8 * k + a) mod 2 ^ 51"
    if "k + 8 \<le> 32" "a + 51 \<le> 64" for k a
    unfolding and_mask_51 unat_shr w [OF that(1)] by (rule window_limb [OF that(2)])
  note ls = l [of 0 0, simplified] l [of 6 3, simplified] l [of 12 6, simplified] l [of 19 1, simplified]
    l [of 24 12, simplified]
  have eq: "Hacl_EC_Format_fexpand out input =
      (load64_le input AND 0x7ffffffffffff) # (drop_bit 3 (load64_le (drop 6 input)) AND 0x7ffffffffffff)
      # (drop_bit 6 (load64_le (drop 12 input)) AND 0x7ffffffffffff)
      # (drop_bit 1 (load64_le (drop 19 input)) AND 0x7ffffffffffff)
      # (drop_bit 12 (load64_le (drop 24 input)) AND 0x7ffffffffffff) # r" (is "_ = ?l")
    by (simp add: Hacl_EC_Format_fexpand_def out Let_def)
  have lv: "eval_limbs 51 (take 5 ?l) = x mod 2 ^ 255"
    unfolding limbs_of_nat [symmetric] by (simp add: ls)
  then show "eval_limbs 51 (take 5 (Hacl_EC_Format_fexpand out input)) = le_val (take 32 input) mod 2 ^ 255"
    unfolding eq x_def .
  have "limbs_below (2 ^ 51) ?l"
    by (simp add: limbs_below_Cons ls)
  moreover have "fval ?l = int (x mod 2 ^ 255) mod p25519"
    unfolding fval_def lv ..
  ultimately show "fe_writes (2 ^ 51) (int (le_val (take 32 input) mod 2 ^ 255)) out (Hacl_EC_Format_fexpand out input)"
    unfolding eq by (simp only: out x_def fe_writes_Cons)
qed

section \<open>Writing\<close>

text \<open>One pass of carries with the reduction of the top limb, as both passes of \<open>fcontract\<close> do it.\<close>

lemma second_pass_eq: "Hacl_EC_Format_fcontract_second_carry_pass = Hacl_EC_Format_fcontract_first_carry_pass"
  by (rule ext) (simp only: Hacl_EC_Format_fcontract_second_carry_pass_def Hacl_EC_Format_fcontract_first_carry_pass_def)

lemma div51_small: "(x::nat) < 2 ^ 57 \<Longrightarrow> x div 2 ^ 51 < 64"
  by (intro less_mult_imp_div_less) simp

lemma full_pass:
  fixes t0 t1 t2 t3 t4 :: u64
  assumes t: "unat t0 < 2 ^ 56" "unat t1 < 2 ^ 56" "unat t2 < 2 ^ 56" "unat t3 < 2 ^ 56" "unat t4 < 2 ^ 56"
  obtains v0 v1 v2 v3 v4 s1 s2 s3 s4 where
    "Hacl_Bignum_Modulo_carry_top_25519 (Hacl_EC_Format_fcontract_first_carry_pass (t0 # t1 # t2 # t3 # t4 # r))
     = v0 # v1 # v2 # v3 # v4 # r"
    "s1 = unat t1 + unat t0 div 2 ^ 51" "s2 = unat t2 + s1 div 2 ^ 51" "s3 = unat t3 + s2 div 2 ^ 51"
    "s4 = unat t4 + s3 div 2 ^ 51" "unat v0 = unat t0 mod 2 ^ 51 + 19 * (s4 div 2 ^ 51)"
    "unat v1 = s1 mod 2 ^ 51" "unat v2 = s2 mod 2 ^ 51" "unat v3 = s3 mod 2 ^ 51" "unat v4 = s4 mod 2 ^ 51"
proof -
  define u1 where "u1 = t1 + drop_bit 51 t0"
  define u2 where "u2 = t2 + drop_bit 51 u1"
  define u3 where "u3 = t3 + drop_bit 51 u2"
  define u4 where "u4 = t4 + drop_bit 51 u3"
  have step: "unat (y + drop_bit 51 x) = unat y + unat x div 2 ^ 51 \<and> unat (y + drop_bit 51 x) < 2 ^ 57"
    if "unat x < 2 ^ 57" "unat y < 2 ^ 56" for x y :: u64
    using that div51_small [OF that(1)] by (subst unat_plus; simp add: unat_shr)+
  have u1: "unat u1 = unat t1 + unat t0 div 2 ^ 51 \<and> unat u1 < 2 ^ 57"
    unfolding u1_def using t by (intro step) simp_all
  have u2: "unat u2 = unat t2 + unat u1 div 2 ^ 51 \<and> unat u2 < 2 ^ 57"
    unfolding u2_def using t u1 by (intro step) simp_all
  have u3: "unat u3 = unat t3 + unat u2 div 2 ^ 51 \<and> unat u3 < 2 ^ 57"
    unfolding u3_def using t u2 by (intro step) simp_all
  have u4: "unat u4 = unat t4 + unat u3 div 2 ^ 51 \<and> unat u4 < 2 ^ 57"
    unfolding u4_def using t u3 by (intro step) simp_all
  have q: "unat u4 div 2 ^ 51 < 64" using u4 by (intro div51_small) simp
  have n19: "unat (19 * drop_bit 51 u4) = 19 * (unat u4 div 2 ^ 51)"
    using q by (subst unat_times) (simp_all add: unat_shr)
  have v0: "unat ((t0 AND 0x7ffffffffffff) + 19 * drop_bit 51 u4) = unat t0 mod 2 ^ 51 + 19 * (unat u4 div 2 ^ 51)"
    using q n19 mod51_lt [of "unat t0"] by (subst unat_plus) (simp_all add: and_mask_51)
  show thesis
  proof (rule that)
    show "Hacl_Bignum_Modulo_carry_top_25519 (Hacl_EC_Format_fcontract_first_carry_pass (t0 # t1 # t2 # t3 # t4 # r))
      = ((t0 AND 0x7ffffffffffff) + 19 * drop_bit 51 u4) # (u1 AND 0x7ffffffffffff) # (u2 AND 0x7ffffffffffff)
        # (u3 AND 0x7ffffffffffff) # (u4 AND 0x7ffffffffffff) # r"
      by (simp add: Hacl_Bignum_Modulo_carry_top_25519_def Hacl_EC_Format_fcontract_first_carry_pass_def Let_def
          u1_def u2_def u3_def u4_def)
  qed (use u1 u2 u3 u4 v0 in \<open>simp_all only: and_mask_51\<close>)
qed

text \<open>After both passes the limbs are below \<open>2 ^ 51\<close>.\<close>

lemma carry_bit: "(t :: nat) < 2 ^ 51 \<Longrightarrow> c \<le> 1 \<Longrightarrow> (t + c) div 2 ^ 51 \<le> 1 \<and> ((t + c) div 2 ^ 51 = 1 \<longrightarrow> c = 1)"
  by (cases "t + c < 2 ^ 51") auto

lemma two_passes:
  fixes t0 t1 t2 t3 t4 :: u64
  assumes t: "unat t0 < 2 ^ 51 + 2 ^ 13" "unat t1 < 2 ^ 51 + 2 ^ 13" "unat t2 < 2 ^ 51 + 2 ^ 13"
    "unat t3 < 2 ^ 51 + 2 ^ 13" "unat t4 < 2 ^ 51 + 2 ^ 13"
  obtains v0 v1 v2 v3 v4 where
    "Hacl_EC_Format_fcontract_second_carry_full (Hacl_EC_Format_fcontract_first_carry_full (t0 # t1 # t2 # t3 # t4 # r))
     = v0 # v1 # v2 # v3 # v4 # r"
    "limbs_below (2 ^ 51) (v0 # v1 # v2 # v3 # v4 # r)"
    "fval (v0 # v1 # v2 # v3 # v4 # r) = fval (t0 # t1 # t2 # t3 # t4 # r)"
proof -
  have t56: "unat t0 < 2 ^ 56" "unat t1 < 2 ^ 56" "unat t2 < 2 ^ 56" "unat t3 < 2 ^ 56" "unat t4 < 2 ^ 56"
    using t by simp_all
  obtain w0 w1 w2 w3 w4 s1 s2 s3 s4 where
    w: "Hacl_Bignum_Modulo_carry_top_25519 (Hacl_EC_Format_fcontract_first_carry_pass (t0 # t1 # t2 # t3 # t4 # r))
     = w0 # w1 # w2 # w3 # w4 # r"
    and s: "s1 = unat t1 + unat t0 div 2 ^ 51" "s2 = unat t2 + s1 div 2 ^ 51" "s3 = unat t3 + s2 div 2 ^ 51"
    "s4 = unat t4 + s3 div 2 ^ 51" and w0: "unat w0 = unat t0 mod 2 ^ 51 + 19 * (s4 div 2 ^ 51)"
    and wi: "unat w1 = s1 mod 2 ^ 51" "unat w2 = s2 mod 2 ^ 51" "unat w3 = s3 mod 2 ^ 51" "unat w4 = s4 mod 2 ^ 51"
    using t56 by (rule full_pass [where r = r])
  have q: "x div 2 ^ 51 \<le> 1" if "x < 2 ^ 52" for x :: nat
    using less_mult_imp_div_less [of x 2 "2 ^ 51"] that by simp
  have s52: "s1 < 2 ^ 52" "s2 < 2 ^ 52" "s3 < 2 ^ 52" "s4 < 2 ^ 52"
    using t q [of "unat t0"] q [of s1] q [of s2] q [of s3] by (simp_all add: s)
  have wb: "unat w1 < 2 ^ 51" "unat w2 < 2 ^ 51" "unat w3 < 2 ^ 51" "unat w4 < 2 ^ 51"
    unfolding wi by (rule mod51_lt)+
  have w0b: "unat w0 < 2 ^ 51 + 19"
    using q [OF s52(4)] mod51_lt [of "unat t0"] by (simp add: w0)
  have w56: "unat w0 < 2 ^ 56" "unat w1 < 2 ^ 56" "unat w2 < 2 ^ 56" "unat w3 < 2 ^ 56" "unat w4 < 2 ^ 56"
    using w0b wb by simp_all
  obtain v0 v1 v2 v3 v4 x1 x2 x3 x4 where
    v: "Hacl_Bignum_Modulo_carry_top_25519 (Hacl_EC_Format_fcontract_first_carry_pass (w0 # w1 # w2 # w3 # w4 # r))
     = v0 # v1 # v2 # v3 # v4 # r"
    and x: "x1 = unat w1 + unat w0 div 2 ^ 51" "x2 = unat w2 + x1 div 2 ^ 51" "x3 = unat w3 + x2 div 2 ^ 51"
    "x4 = unat w4 + x3 div 2 ^ 51" and v0: "unat v0 = unat w0 mod 2 ^ 51 + 19 * (x4 div 2 ^ 51)"
    and vi: "unat v1 = x1 mod 2 ^ 51" "unat v2 = x2 mod 2 ^ 51" "unat v3 = x3 mod 2 ^ 51" "unat v4 = x4 mod 2 ^ 51"
    using w56 by (rule full_pass [where r = r])
  have c1: "unat w0 div 2 ^ 51 \<le> 1" using w0b by (intro q) simp
  note c2 = carry_bit [OF wb(1) c1, folded x(1)]
  note c3 = carry_bit [OF wb(2) conjunct1 [OF c2], folded x(2)]
  note c4 = carry_bit [OF wb(3) conjunct1 [OF c3], folded x(3)]
  note c5 = carry_bit [OF wb(4) conjunct1 [OF c4], folded x(4)]
  have v0b: "unat v0 < 2 ^ 51"
  proof (cases "x4 div 2 ^ 51 = 0")
    case False
    with c5 have "x4 div 2 ^ 51 = 1" by linarith
    with c2 c3 c4 c5 have "unat w0 div 2 ^ 51 = 1" by blast
    then have "unat w0 mod 2 ^ 51 < 19"
      using w0b mult_div_mod_eq [of "2 ^ 51" "unat w0"] by simp
    with c5 show ?thesis by (simp add: v0)
  qed (simp add: v0)
  have vb: "unat v1 < 2 ^ 51" "unat v2 < 2 ^ 51" "unat v3 < 2 ^ 51" "unat v4 < 2 ^ 51"
    unfolding vi by (rule mod51_lt)+
  have z: "drop_bit 51 v0 = 0" "v0 AND 0x7ffffffffffff = v0"
    using v0b by (auto intro!: word_unatI simp: unat_shr and_mask_51)
  show thesis
  proof (rule that)
    show "Hacl_EC_Format_fcontract_second_carry_full
        (Hacl_EC_Format_fcontract_first_carry_full (t0 # t1 # t2 # t3 # t4 # r)) = v0 # v1 # v2 # v3 # v4 # r"
      by (simp add: Hacl_EC_Format_fcontract_second_carry_full_def Hacl_EC_Format_fcontract_first_carry_full_def
          w second_pass_eq v z Let_def)
    show "limbs_below (2 ^ 51) (v0 # v1 # v2 # v3 # v4 # r)"
      using v0b vb by (simp add: limbs_below_Cons)
    have "int (unat v0 + 2 ^ 51 * (unat v1 + 2 ^ 51 * (unat v2 + 2 ^ 51 * (unat v3 + 2 ^ 51 * unat v4)))) mod p25519
        = int (unat w0 + 2 ^ 51 * (unat w1 + 2 ^ 51 * (unat w2 + 2 ^ 51 * (unat w3 + 2 ^ 51 * unat w4)))) mod p25519"
      using carry5_nat [OF x refl v0] unfolding vi by (metis mod_mult_self2)
    moreover have "\<dots> = int (unat t0 + 2 ^ 51 * (unat t1 + 2 ^ 51 * (unat t2 + 2 ^ 51 * (unat t3 + 2 ^ 51 * unat t4)))) mod p25519"
      using carry5_nat [OF s refl w0] unfolding wi by (metis mod_mult_self2)
    ultimately show "fval (v0 # v1 # v2 # v3 # v4 # r) = fval (t0 # t1 # t2 # t3 # t4 # r)"
      by (simp only: fval_Cons)
  qed
qed

text \<open>The value of the limbs themselves, before it is taken modulo the prime.\<close>

abbreviation lval :: "u64 list \<Rightarrow> nat" where
  "lval l \<equiv> eval_limbs 51 (take 5 l)"

lemma lval_Cons:
  "lval (a0 # a1 # a2 # a3 # a4 # r)
   = unat a0 + 2 ^ 51 * (unat a1 + 2 ^ 51 * (unat a2 + 2 ^ 51 * (unat a3 + 2 ^ 51 * unat a4)))"
  by simp

text \<open>The last conditional subtraction of the prime.\<close>

lemma trim_correct:
  assumes "limbs_below (2 ^ 51) l"
  shows "limbs_below (2 ^ 51) (Hacl_EC_Format_fcontract_trim l)"
    and "int (lval (Hacl_EC_Format_fcontract_trim l)) = fval l"
proof -
  obtain a0 a1 a2 a3 a4 r where l: "l = a0 # a1 # a2 # a3 # a4 # r"
    and a: "unat a0 < 2 ^ 51" "unat a1 < 2 ^ 51" "unat a2 < 2 ^ 51" "unat a3 < 2 ^ 51" "unat a4 < 2 ^ 51"
    using assms by (rule limbs_belowE)
  define full where "full \<longleftrightarrow> 0x7ffffffffffed \<le> a0 \<and> a1 = 0x7ffffffffffff \<and> a2 = 0x7ffffffffffff
    \<and> a3 = 0x7ffffffffffff \<and> a4 = 0x7ffffffffffff"
  have "FStar_UInt64_gte_mask a0 0x7ffffffffffed = (if 0x7ffffffffffed \<le> a0 then - 1 else 0)"
    using a by (intro gte_mask64_small) simp_all
  then have m: "(((FStar_UInt64_gte_mask a0 0x7ffffffffffed AND FStar_UInt64_eq_mask a1 0x7ffffffffffff)
      AND FStar_UInt64_eq_mask a2 0x7ffffffffffff) AND FStar_UInt64_eq_mask a3 0x7ffffffffffff)
      AND FStar_UInt64_eq_mask a4 0x7ffffffffffff = (if full then - 1 else 0)"
    by (simp add: full_def eq_mask64)
  have eq: "Hacl_EC_Format_fcontract_trim l =
      (if full then (a0 - 0x7ffffffffffed) # 0 # 0 # 0 # 0 # r else l)"
    by (simp add: Hacl_EC_Format_fcontract_trim_def l Let_def m) (simp add: full_def)
  have "limbs_below (2 ^ 51) (Hacl_EC_Format_fcontract_trim l)
      \<and> int (lval (Hacl_EC_Format_fcontract_trim l)) = fval l"
  proof (cases full)
    case True
    then have f: "0x7ffffffffffed \<le> unat a0" "unat a1 = 0x7ffffffffffff" "unat a2 = 0x7ffffffffffff"
      "unat a3 = 0x7ffffffffffff" "unat a4 = 0x7ffffffffffff"
      by (simp_all add: full_def word_le_nat_alt)
    then have u: "unat (a0 - 0x7ffffffffffed) = unat a0 - 0x7ffffffffffed" by (subst unat_minus) simp_all
    have "int (unat a0 + 2 ^ 51 * (unat a1 + 2 ^ 51 * (unat a2 + 2 ^ 51 * (unat a3 + 2 ^ 51 * unat a4))))
        = (int (unat a0) - 0x7ffffffffffed) + p25519 * 1"
      by (simp add: f p25519_def)
    moreover have "(int k - 0x7ffffffffffed) mod p25519 = int k - 0x7ffffffffffed"
      if "0x7ffffffffffed \<le> k" "k < 2 ^ 51" for k
      using that by (intro mod_pos_pos_trivial) (simp_all add: p25519_def)
    note this [OF f(1) a(1)]
    ultimately have "fval l = int (unat a0) - 0x7ffffffffffed" by (simp only: l fval_Cons mod_mult_self2)
    moreover have "int (lval ((a0 - 0x7ffffffffffed) # 0 # 0 # 0 # 0 # r)) = int (unat a0) - 0x7ffffffffffed"
      using f(1) by (simp add: u of_nat_diff)
    ultimately show ?thesis using True a(1) by (simp add: eq limbs_below_Cons u)
  next
    case False
    let ?v = "lval (a0 # a1 # a2 # a3 # a4 # r)"
    have ne: "unat x \<noteq> 0x7ffffffffffff" if "x \<noteq> 0x7ffffffffffff" for x :: u64
      using that by (auto simp: word_unat_eq_iff)
    have "?v < 2 ^ 255 - 19"
    proof (cases "a1 = 0x7ffffffffffff \<and> a2 = 0x7ffffffffffff \<and> a3 = 0x7ffffffffffff \<and> a4 = 0x7ffffffffffff")
      case True
      with False have "unat a0 < 0x7ffffffffffed" by (auto simp: full_def word_le_nat_alt)
      with True show ?thesis by (simp only: lval_Cons) simp
    next
      case False
      then have "unat a1 \<noteq> 0x7ffffffffffff \<or> unat a2 \<noteq> 0x7ffffffffffff
        \<or> unat a3 \<noteq> 0x7ffffffffffff \<or> unat a4 \<noteq> 0x7ffffffffffff"
        using ne by blast
      with a show ?thesis unfolding lval_Cons by (simp, linarith)
    qed
    moreover have "int k mod p25519 = int k" if "k < 2 ^ 255 - 19" for k
      using that by (intro mod_pos_pos_trivial) (simp_all add: p25519_def)
    ultimately have "int ?v mod p25519 = int ?v" by blast
    with False assms show ?thesis by (simp only: eq if_False) (simp only: fval_def l simp_thms)
  qed
  then show "limbs_below (2 ^ 51) (Hacl_EC_Format_fcontract_trim l)"
    "int (lval (Hacl_EC_Format_fcontract_trim l)) = fval l" by blast+
qed

text \<open>Joining the limbs into four words and storing them.\<close>

lemma or_limbs:
  fixes h l :: u64
  assumes "unat l < 2 ^ n" and "n \<le> 64"
  shows "unat (push_bit n h OR l) = 2 ^ n * (unat h mod 2 ^ (64 - n)) + unat l"
proof -
  have p: "unat (push_bit n h) = 2 ^ n * (unat h mod 2 ^ (64 - n))"
    using assms(2) mult_mod_right [of "2 ^ n" "unat h" "2 ^ (64 - n)"]
    by (subst unsigned_push_bit_eq) (simp add: push_bit_eq_mult take_bit_eq_mod mult.commute flip: power_add)
  have "unat h mod 2 ^ (64 - n) + 1 \<le> 2 ^ (64 - n)" by (simp add: Suc_leI)
  then have "2 ^ n * (unat h mod 2 ^ (64 - n) + 1) \<le> 2 ^ n * (2 ^ (64 - n) :: nat)" by (rule mult_le_mono2)
  also have "\<dots> = 2 ^ 64" using assms(2) by (simp flip: power_add)
  finally have "unat (push_bit n h) + unat l < 2 ^ 64" using assms(1) by (simp add: p)
  then show ?thesis using assms(1) p by (simp add: or_eq_plus unat_plus)
qed

lemma store_correct:
  assumes "limbs_below (2 ^ 51) l" and "32 \<le> length out"
  shows "Hacl_EC_Format_fcontract_store out l = le_bytes 32 (lval l) @ drop 32 out"
proof -
  obtain t0 t1 t2 t3 t4 r where l: "l = t0 # t1 # t2 # t3 # t4 # r"
    and t: "unat t0 < 2 ^ 51" "unat t1 < 2 ^ 51" "unat t2 < 2 ^ 51" "unat t3 < 2 ^ 51" "unat t4 < 2 ^ 51"
    using assms(1) by (rule limbs_belowE)
  let ?o0 = "push_bit 51 t1 OR t0" and ?o1 = "push_bit 38 t2 OR drop_bit 13 t1"
    and ?o2 = "push_bit 25 t3 OR drop_bit 26 t2" and ?o3 = "push_bit 12 t4 OR drop_bit 39 t3"
  have sh: "unat (drop_bit k x) = unat x div 2 ^ k \<and> unat x div 2 ^ k < 2 ^ (51 - k)"
    if "unat x < 2 ^ 51" "k \<le> 51" for k and x :: u64
    using that less_mult_imp_div_less [of "unat x" "2 ^ (51 - k)" "2 ^ k"] by (simp add: unat_shr flip: power_add)
  have o0: "unat ?o0 = 2 ^ 51 * (unat t1 mod 2 ^ 13) + unat t0"
    using t or_limbs [of t0 51 t1] by simp
  have o1: "unat ?o1 = 2 ^ 38 * (unat t2 mod 2 ^ 26) + unat t1 div 2 ^ 13"
    using sh [OF t(2), of 13] or_limbs [of "drop_bit 13 t1" 38 t2] by simp
  have o2: "unat ?o2 = 2 ^ 25 * (unat t3 mod 2 ^ 39) + unat t2 div 2 ^ 26"
    using sh [OF t(3), of 26] or_limbs [of "drop_bit 26 t2" 25 t3] by simp
  have o3: "unat ?o3 = 2 ^ 12 * unat t4 + unat t3 div 2 ^ 39"
    using sh [OF t(4), of 39] or_limbs [of "drop_bit 39 t3" 12 t4] t(5) by simp
  have val: "unat ?o0 + 2 ^ 64 * (unat ?o1 + 2 ^ 64 * (unat ?o2 + 2 ^ 64 * unat ?o3)) = lval l"
  proof -
    have "2 ^ 51 * m1 + x0 + 2 ^ 64 * (2 ^ 38 * m2 + q1 + 2 ^ 64 * (2 ^ 25 * m3 + q2 + 2 ^ 64 * (2 ^ 12 * x4 + q3)))
        = x0 + 2 ^ 51 * (x1 + 2 ^ 51 * (x2 + 2 ^ 51 * (x3 + 2 ^ 51 * x4)))"
      if "m1 + 2 ^ 13 * q1 = x1" "m2 + 2 ^ 26 * q2 = x2" "m3 + 2 ^ 39 * q3 = x3"
      for x0 x1 x2 x3 x4 m1 m2 m3 q1 q2 q3 :: nat
      by (simp flip: that)
    from this [OF mod_mult_div_eq mod_mult_div_eq mod_mult_div_eq]
    show ?thesis unfolding l lval_Cons o0 o1 o2 o3 .
  qed
  let ?b = "le_bytes 8 (unat ?o0) @ le_bytes 8 (unat ?o1) @ le_bytes 8 (unat ?o2) @ le_bytes 8 (unat ?o3)"
  have "Hacl_EC_Format_fcontract_store out l = ?b @ drop 32 out"
    using assms(2) by (simp add: Hacl_EC_Format_fcontract_store_def l Let_def at_ptr_def store64_le_def)
  moreover have "le_val ?b = lval l"
    using val unat_bound [of ?o0] unat_bound [of ?o1] unat_bound [of ?o2] unat_bound [of ?o3]
    by (simp add: le_val_append le_val_le_bytes)
  moreover have "le_bytes 32 (le_val ?b) = ?b" using le_bytes_le_val [of ?b] by simp
  ultimately show ?thesis by simp
qed

text \<open>The whole conversion: the bytes of the canonical representative.\<close>

lemma fcontract_correct:
  assumes "fe_red l" and "32 \<le> length out"
  shows "fst (Hacl_EC_Format_fcontract out l) = le_bytes 32 (nat (fval l)) @ drop 32 out"
proof -
  obtain t0 t1 t2 t3 t4 r where l: "l = t0 # t1 # t2 # t3 # t4 # r"
    and t: "unat t0 < 2 ^ 51 + 2 ^ 13" "unat t1 < 2 ^ 51 + 2 ^ 13" "unat t2 < 2 ^ 51 + 2 ^ 13"
      "unat t3 < 2 ^ 51 + 2 ^ 13" "unat t4 < 2 ^ 51 + 2 ^ 13"
    using assms(1) by (rule limbs_belowE)
  obtain v0 v1 v2 v3 v4 where
    v: "Hacl_EC_Format_fcontract_second_carry_full (Hacl_EC_Format_fcontract_first_carry_full (t0 # t1 # t2 # t3 # t4 # r))
     = v0 # v1 # v2 # v3 # v4 # r"
    and vl: "limbs_below (2 ^ 51) (v0 # v1 # v2 # v3 # v4 # r)"
    and vf: "fval (v0 # v1 # v2 # v3 # v4 # r) = fval (t0 # t1 # t2 # t3 # t4 # r)"
    using t by (rule two_passes [where r = r])
  note tr = trim_correct [OF vl]
  have "fst (Hacl_EC_Format_fcontract out l)
      = Hacl_EC_Format_fcontract_store out (Hacl_EC_Format_fcontract_trim (v0 # v1 # v2 # v3 # v4 # r))"
    by (simp only: Hacl_EC_Format_fcontract_def Let_def l v fst_conv)
  also have "\<dots> = le_bytes 32 (lval (Hacl_EC_Format_fcontract_trim (v0 # v1 # v2 # v3 # v4 # r))) @ drop 32 out"
    by (rule store_correct [OF tr(1) assms(2)])
  also have "lval (Hacl_EC_Format_fcontract_trim (v0 # v1 # v2 # v3 # v4 # r)) = nat (fval l)"
    using tr(2) vf by (simp only: l nat_int flip: tr(2) vf)
  finally show ?thesis .
qed

section \<open>Properties\<close>

text \<open>
  Writing a reduced element gives the 32 bytes of its canonical representative, the number
  below \<open>2^255 - 19\<close>, for every choice of limbs.
\<close>

theorem format25519_canonical:
  assumes "fe_red l" and "32 \<le> length out"
  shows "fst (Hacl_EC_Format_fcontract out l) = le_bytes 32 (nat (fval l)) @ drop 32 out
         \<and> le_val (take 32 (fst (Hacl_EC_Format_fcontract out l))) < 2 ^ 255 - 19"
proof -
  note c = fcontract_correct [OF assms]
  have "0 \<le> fval l \<and> fval l < 2 ^ 255 - 19" by (simp add: fval_def p25519_def)
  then have "nat (fval l) < 2 ^ 255 - 19" by (simp add: nat_less_iff)
  then show ?thesis using c by (simp add: le_val_le_bytes)
qed

theorem format25519_canonical_witness:
  "fst (Hacl_EC_Format_fcontract (replicate 32 0) [2 ^ 51, 2 ^ 51, 2 ^ 51, 2 ^ 51, 2 ^ 51])
   = le_bytes 32 (nat (fval [2 ^ 51, 2 ^ 51, 2 ^ 51, 2 ^ 51, 2 ^ 51]))"
proof -
  have "fe_red [2 ^ 51, 2 ^ 51, 2 ^ 51, 2 ^ 51, 2 ^ 51]" by (simp add: limbs_below_Cons)
  from format25519_canonical [OF this, of "replicate 32 0"] show ?thesis by simp
qed

text \<open>
  Reading 32 bytes and writing them again gives the bytes back when they encode a number
  below the prime, and in general the number without its top bit, reduced modulo the prime.
\<close>

theorem format25519_roundtrip:
  assumes "length b = 32" and "5 \<le> length l" and "32 \<le> length out"
  shows "fst (Hacl_EC_Format_fcontract out (Hacl_EC_Format_fexpand l b))
         = le_bytes 32 (le_val b mod 2 ^ 255 mod (2 ^ 255 - 19)) @ drop 32 out"
proof -
  have w: "fe_writes (2 ^ 51) (int (le_val b mod 2 ^ 255)) l (Hacl_EC_Format_fexpand l b)"
    using fexpand_writes(1) [OF assms(2), of b] assms(1) by simp
  then have r: "fe_red (Hacl_EC_Format_fexpand l b)"
    using fe_writesD(1) limbs_below_mono by fastforce
  have "nat (int n mod p25519) = n mod (2 ^ 255 - 19)" for n
    using nat_mod_distrib [of "int n" p25519] by (simp add: p25519_def)
  then show ?thesis
    using fcontract_correct [OF r assms(3)] fe_writesD(2) [OF w] by (simp only:)
qed

theorem format25519_roundtrip_witness:
  "fst (Hacl_EC_Format_fcontract (replicate 32 0) (Hacl_EC_Format_fexpand (replicate 5 0) (replicate 32 1)))
   = le_bytes 32 (le_val (replicate 32 1) mod 2 ^ 255 mod (2 ^ 255 - 19))"
  using format25519_roundtrip [of "replicate 32 1" "replicate 5 0" "replicate 32 0"] by simp

end
