(* ===== verification/Curve25519.thy ===== *)
theory Curve25519
  imports Format25519
begin

text \<open>
  The rest of \<open>Hacl_Curve25519.c\<close>: points (ten words, \<open>x\<close> in the first
  five and \<open>z\<close> in the last five), the Montgomery ladder and \<open>crypto_scalarmult\<close>.
\<close>

section \<open>Points\<close>

definition Hacl_EC_Point_swap_conditional_step ::
    "u64 list \<Rightarrow> u64 list \<Rightarrow> u64 \<Rightarrow> u32 \<Rightarrow> u64 list \<times> u64 list" where
  "Hacl_EC_Point_swap_conditional_step a b swap1 ctr =
     (let i = unat (ctr - 1);
          ai = a ! i; bi = b ! i;
          x = swap1 AND (ai XOR bi);
          ai1 = ai XOR x;
          bi1 = bi XOR x
      in (a[i := ai1], b[i := bi1]))"

function Hacl_EC_Point_swap_conditional' ::
    "u64 list \<Rightarrow> u64 list \<Rightarrow> u64 \<Rightarrow> u32 \<Rightarrow> u64 list \<times> u64 list" where
  "Hacl_EC_Point_swap_conditional' a b swap1 ctr =
     (if \<not> ctr = 0 then
        let (a, b) = Hacl_EC_Point_swap_conditional_step a b swap1 ctr;
            i = ctr - 1
        in Hacl_EC_Point_swap_conditional' a b swap1 i
      else (a, b))"
  by pat_completeness auto
termination
  by (relation "measure (\<lambda>(_, _, _, ctr). unat ctr)") (auto simp: unat_minus_one unat_gt_0)

declare Hacl_EC_Point_swap_conditional'.simps [simp del]

definition Hacl_EC_Point_swap_conditional :: "u64 list \<Rightarrow> u64 list \<Rightarrow> u64 \<Rightarrow> u64 list \<times> u64 list" where
  "Hacl_EC_Point_swap_conditional a b iswap =
     (let swap1 = 0 - iswap;
          (a, b) = Hacl_EC_Point_swap_conditional' a b swap1 5;
          (az, bz) = Hacl_EC_Point_swap_conditional' (drop 5 a) (drop 5 b) swap1 5
      in (take 5 a @ az, take 5 b @ bz))"

definition Hacl_EC_Point_copy :: "u64 list \<Rightarrow> u64 list \<Rightarrow> u64 list" where
  "Hacl_EC_Point_copy output input =
     (let output = memcpy output input 5
      in at_ptr 5 (\<lambda>p. memcpy p (drop 5 input) 5) output)"

section \<open>The ladder\<close>

text \<open>
  \<open>fmonty\<close> overwrites the points \<open>p\<close> and \<open>pq\<close> as well.  Its buffer of 40 words holds
  \<open>origx\<close>, \<open>origxprime\<close>, \<open>zzz\<close>, \<open>xx\<close>, \<open>zz\<close>, \<open>xxprime\<close>, \<open>zzprime\<close> and \<open>zzzprime\<close> in this order.
\<close>

definition Hacl_EC_AddAndDouble_fmonty ::
    "u64 list \<Rightarrow> u64 list \<Rightarrow> u64 list \<Rightarrow> u64 list \<Rightarrow> u64 list
     \<Rightarrow> u64 list \<times> u64 list \<times> u64 list \<times> u64 list" where
  "Hacl_EC_AddAndDouble_fmonty pp ppq p pq qmqp =
     (let qx = qmqp;
          buf = replicate 40 0;
          buf = at_ptr 0 (\<lambda>origx. memcpy origx p 5) buf;
          p = at_ptr 0 (\<lambda>x. Hacl_Bignum_fsum x (drop 5 p)) p;
          p = at_ptr 5 (\<lambda>z. Hacl_Bignum_fdifference z (drop 0 buf)) p;
          buf = at_ptr 5 (\<lambda>origxprime. memcpy origxprime pq 5) buf;
          pq = at_ptr 0 (\<lambda>xprime. Hacl_Bignum_fsum xprime (drop 5 pq)) pq;
          pq = at_ptr 5 (\<lambda>zprime. Hacl_Bignum_fdifference zprime (drop 5 buf)) pq;
          buf = at_ptr 25 (\<lambda>xxprime0. Hacl_Bignum_fmul xxprime0 pq (drop 5 p)) buf;
          buf = at_ptr 30 (\<lambda>zzprime0. Hacl_Bignum_fmul zzprime0 p (drop 5 pq)) buf;
          buf = at_ptr 5 (\<lambda>origxprime0. memcpy origxprime0 (drop 25 buf) 5) buf;
          buf = at_ptr 25 (\<lambda>xxprime. Hacl_Bignum_fsum xxprime (drop 30 buf)) buf;
          buf = at_ptr 30 (\<lambda>zzprime. Hacl_Bignum_fdifference zzprime (drop 5 buf)) buf;
          ppq = at_ptr 0 (\<lambda>x3. Hacl_Bignum_Fsquare_fsquare_times x3 (drop 25 buf) 1) ppq;
          buf = at_ptr 35 (\<lambda>zzzprime. Hacl_Bignum_Fsquare_fsquare_times zzzprime (drop 30 buf) 1) buf;
          ppq = at_ptr 5 (\<lambda>z3. Hacl_Bignum_fmul z3 (drop 35 buf) qx) ppq;
          buf = at_ptr 15 (\<lambda>xx0. Hacl_Bignum_Fsquare_fsquare_times xx0 p 1) buf;
          buf = at_ptr 20 (\<lambda>zz0. Hacl_Bignum_Fsquare_fsquare_times zz0 (drop 5 p) 1) buf;
          pp = at_ptr 0 (\<lambda>x2. Hacl_Bignum_fmul x2 (drop 15 buf) (drop 20 buf)) pp;
          buf = at_ptr 20 (\<lambda>zz. Hacl_Bignum_fdifference zz (drop 15 buf)) buf;
          scalar = 121665;
          buf = at_ptr 10 (\<lambda>zzz. Hacl_Bignum_fscalar zzz (drop 20 buf) scalar) buf;
          buf = at_ptr 10 (\<lambda>zzz. Hacl_Bignum_fsum zzz (drop 15 buf)) buf;
          pp = at_ptr 5 (\<lambda>z2. Hacl_Bignum_fmul z2 (drop 10 buf) (drop 20 buf)) pp
      in (pp, ppq, p, pq))"

type_synonym ladder_bufs = "u64 list \<times> u64 list \<times> u64 list \<times> u64 list"

text \<open>The four points \<open>nq\<close>, \<open>nqpq\<close>, \<open>nq2\<close>, \<open>nqpq2\<close> are returned in the order of the arguments.\<close>

definition Hacl_EC_Ladder_SmallLoop_cmult_small_loop_step ::
    "ladder_bufs \<Rightarrow> u64 list \<Rightarrow> u8 \<Rightarrow> ladder_bufs" where
  "Hacl_EC_Ladder_SmallLoop_cmult_small_loop_step = (\<lambda>(nq, nqpq, nq2, nqpq2) q byt.
     (let bit1 = ucast (drop_bit 7 byt);
          (nq, nqpq) = Hacl_EC_Point_swap_conditional nq nqpq bit1;
          (nq2, nqpq2, nq, nqpq) = Hacl_EC_AddAndDouble_fmonty nq2 nqpq2 nq nqpq q;
          bit0 = ucast (drop_bit 7 byt);
          (nq2, nqpq2) = Hacl_EC_Point_swap_conditional nq2 nqpq2 bit0
      in (nq, nqpq, nq2, nqpq2)))"

definition Hacl_EC_Ladder_SmallLoop_cmult_small_loop_double_step ::
    "ladder_bufs \<Rightarrow> u64 list \<Rightarrow> u8 \<Rightarrow> ladder_bufs" where
  "Hacl_EC_Ladder_SmallLoop_cmult_small_loop_double_step = (\<lambda>(nq, nqpq, nq2, nqpq2) q byt.
     (let (nq, nqpq, nq2, nqpq2) =
            Hacl_EC_Ladder_SmallLoop_cmult_small_loop_step (nq, nqpq, nq2, nqpq2) q byt;
          byt1 = push_bit 1 byt;
          (nq2, nqpq2, nq, nqpq) =
            Hacl_EC_Ladder_SmallLoop_cmult_small_loop_step (nq2, nqpq2, nq, nqpq) q byt1
      in (nq, nqpq, nq2, nqpq2)))"

function Hacl_EC_Ladder_SmallLoop_cmult_small_loop ::
    "ladder_bufs \<Rightarrow> u64 list \<Rightarrow> u8 \<Rightarrow> u32 \<Rightarrow> ladder_bufs" where
  "Hacl_EC_Ladder_SmallLoop_cmult_small_loop pts q byt i =
     (if \<not> i = 0 then
        let i' = i - 1;
            pts = Hacl_EC_Ladder_SmallLoop_cmult_small_loop_double_step pts q byt;
            byt' = push_bit 2 byt
        in Hacl_EC_Ladder_SmallLoop_cmult_small_loop pts q byt' i'
      else pts)"
  by pat_completeness auto
termination
  by (relation "measure (\<lambda>(_, _, _, i). unat i)") (auto simp: unat_minus_one unat_gt_0)

declare Hacl_EC_Ladder_SmallLoop_cmult_small_loop.simps [simp del]

function Hacl_EC_Ladder_BigLoop_cmult_big_loop ::
    "bytes \<Rightarrow> ladder_bufs \<Rightarrow> u64 list \<Rightarrow> u32 \<Rightarrow> ladder_bufs" where
  "Hacl_EC_Ladder_BigLoop_cmult_big_loop n1 pts q i =
     (if \<not> i = 0 then
        let i1 = i - 1;
            byte = n1 ! unat i1;
            pts = Hacl_EC_Ladder_SmallLoop_cmult_small_loop pts q byte 4
        in Hacl_EC_Ladder_BigLoop_cmult_big_loop n1 pts q i1
      else pts)"
  by pat_completeness auto
termination
  by (relation "measure (\<lambda>(_, _, _, i). unat i)") (auto simp: unat_minus_one unat_gt_0)

declare Hacl_EC_Ladder_BigLoop_cmult_big_loop.simps [simp del]

text \<open>The four points are the consecutive ten-word pieces of \<open>point_buf\<close>.\<close>

definition Hacl_EC_Ladder_cmult :: "u64 list \<Rightarrow> bytes \<Rightarrow> u64 list \<Rightarrow> u64 list" where
  "Hacl_EC_Ladder_cmult result n1 q =
     (let point_buf = replicate 40 0;
          nq = take 10 point_buf;
          nqpq = take 10 (drop 10 point_buf);
          nq2 = take 10 (drop 20 point_buf);
          nqpq2 = drop 30 point_buf;
          nqpq = Hacl_EC_Point_copy nqpq q;
          nq = nq[0 := 1];
          (nq, nqpq, nq2, nqpq2) =
            Hacl_EC_Ladder_BigLoop_cmult_big_loop n1 (nq, nqpq, nq2, nqpq2) q 32
      in Hacl_EC_Point_copy result nq)"

definition Hacl_EC_Format_scalar_of_point :: "bytes \<Rightarrow> u64 list \<Rightarrow> bytes" where
  "Hacl_EC_Format_scalar_of_point scalar point =
     (let x = point;
          z = drop 5 point;
          buf = replicate 10 0;
          buf = at_ptr 0 (\<lambda>zmone. Hacl_Bignum_crecip zmone z) buf;
          buf = at_ptr 5 (\<lambda>sc. Hacl_Bignum_fmul sc x (drop 0 buf)) buf
      in fst (Hacl_EC_Format_fcontract scalar (drop 5 buf)))"

definition Hacl_EC_crypto_scalarmult :: "bytes \<Rightarrow> bytes \<Rightarrow> bytes \<Rightarrow> bytes" where
  "Hacl_EC_crypto_scalarmult mypublic secret basepoint =
     (let buf0 = replicate 10 0;
          buf0 = at_ptr 0 (\<lambda>x0. Hacl_EC_Format_fexpand x0 basepoint) buf0;
          buf0 = at_ptr 5 (\<lambda>z. z[0 := 1]) buf0;
          q = buf0;
          e = replicate 32 0;
          e = memcpy e secret 32;
          e0 = e ! 0;
          e31 = e ! 31;
          e01 = e0 AND 248;
          e311 = e31 AND 127;
          e312 = e311 OR 64;
          e = e[0 := e01];
          e = e[31 := e312];
          scalar = e;
          nq = replicate 15 0;
          nq = nq[0 := 1];
          nq = Hacl_EC_Ladder_cmult nq scalar q
      in Hacl_EC_Format_scalar_of_point mypublic nq)"

definition Hacl_Curve25519_crypto_scalarmult :: "bytes \<Rightarrow> bytes \<Rightarrow> bytes \<Rightarrow> bytes" where
  "Hacl_Curve25519_crypto_scalarmult mypublic secret basepoint =
     Hacl_EC_crypto_scalarmult mypublic secret basepoint"

section \<open>Montgomery curve arithmetic\<close>

text \<open>
  The x-coordinates of points in projective form, as integers modulo \<open>p25519\<close>, and the step of
  the ladder of RFC 7748: it doubles the first point and adds the two, whose difference has the
  x-coordinate \<open>x1\<close>.
\<close>

type_synonym point = "int \<times> int"

definition mont_step :: "int \<Rightarrow> point \<Rightarrow> point \<Rightarrow> point \<times> point" where
  "mont_step x1 = (\<lambda>(x2, z2) (x3, z3).
     let a = x2 + z2; aa = a ^ 2; b = x2 - z2; bb = b ^ 2; e = aa - bb;
         c = x3 + z3; d = x3 - z3; da = d * a; cb = c * b
     in ((aa * bb mod p25519, e * (aa + 121665 * e) mod p25519),
         ((da + cb) ^ 2 mod p25519, x1 * (da - cb) ^ 2 mod p25519)))"

text \<open>One bit of the scalar: the two points are exchanged before and after when it is set.\<close>

definition ladder_bit :: "int \<Rightarrow> bool \<Rightarrow> point \<times> point \<Rightarrow> point \<times> point" where
  "ladder_bit x1 b = (\<lambda>(P, Q). if b then prod.swap (mont_step x1 Q P) else mont_step x1 P Q)"

definition byte_bits :: "u8 \<Rightarrow> bool list" where
  "byte_bits b = map (bit b) (rev [0..<8])"

text \<open>The bits of the 32-byte number, the most significant one first.\<close>

definition scalar_bits :: "bytes \<Rightarrow> bool list" where
  "scalar_bits n = map (bit (le_val n)) (rev [0..<8 * length n])"

definition ladder :: "int \<Rightarrow> bool list \<Rightarrow> point" where
  "ladder x1 bs = fst (fold (ladder_bit x1) bs ((1, 0), (x1, 1)))"

definition clamp_scalar :: "bytes \<Rightarrow> bytes" where
  "clamp_scalar k = (take 32 k)[0 := (k ! 0) AND 248, 31 := ((k ! 31) AND 127) OR 64]"

definition x25519 :: "bytes \<Rightarrow> bytes \<Rightarrow> bytes" where
  "x25519 k u =
     (let x1 = int (le_val (take 32 u) mod 2 ^ 255);
          (x, z) = ladder x1 (scalar_bits (clamp_scalar k))
      in le_bytes 32 (nat (x * z ^ (2 ^ 255 - 21) mod p25519)))"

section \<open>Conditional swap and copy\<close>

lemma swap_zero: "Hacl_EC_Point_swap_conditional' a b 0 ctr = (a, b)"
proof (induction a b "0 :: u64" ctr rule: Hacl_EC_Point_swap_conditional'.induct)
  case (1 a b ctr)
  then show ?case
    by (subst Hacl_EC_Point_swap_conditional'.simps)
       (simp add: Hacl_EC_Point_swap_conditional_step_def Let_def)
qed

lemma swap_ones:
  "unat ctr \<le> length a \<Longrightarrow> unat ctr \<le> length b \<Longrightarrow>
   Hacl_EC_Point_swap_conditional' a b (- 1) ctr
   = (take (unat ctr) b @ drop (unat ctr) a, take (unat ctr) a @ drop (unat ctr) b)"
proof (induction a b "- 1 :: u64" ctr rule: Hacl_EC_Point_swap_conditional'.induct)
  case (1 a b ctr)
  show ?case
  proof (cases "ctr = 0")
    case True
    then show ?thesis by (simp add: Hacl_EC_Point_swap_conditional'.simps [of _ _ _ 0])
  next
    case False
    define i where "i = unat (ctr - 1)"
    have n: "unat ctr = Suc i" using False by (simp add: i_def unat_minus_one unat_gt_0)
    have i: "i < length a" "i < length b" using 1(2,3) n by simp_all
    have st: "Hacl_EC_Point_swap_conditional_step a b (- 1) ctr = (a[i := b ! i], b[i := a ! i])"
      by (simp add: Hacl_EC_Point_swap_conditional_step_def Let_def i_def [symmetric] xor.left_commute xor.commute)
    have "Hacl_EC_Point_swap_conditional' a b (- 1) ctr
        = Hacl_EC_Point_swap_conditional' (a[i := b ! i]) (b[i := a ! i]) (- 1) (ctr - 1)"
      using False by (subst Hacl_EC_Point_swap_conditional'.simps) (simp add: st)
    also have "\<dots> = (take i b @ drop i (a[i := b ! i]), take i a @ drop i (b[i := a ! i]))"
      using 1(1) [OF False st [symmetric]] i by (simp add: i_def [symmetric])
    also have "drop i (a[i := b ! i]) = b ! i # drop (Suc i) a"
      using i Cons_nth_drop_Suc [of i "a[i := b ! i]"] by simp
    also have "drop i (b[i := a ! i]) = a ! i # drop (Suc i) b"
      using i Cons_nth_drop_Suc [of i "b[i := a ! i]"] by simp
    finally show ?thesis using i by (simp add: n take_Suc_conv_app_nth)
  qed
qed

lemma swap_correct:
  assumes "length a = 10" "length b = 10"
  shows "Hacl_EC_Point_swap_conditional a b (if s then 1 else 0) = (if s then (b, a) else (a, b))"
proof (cases s)
  case True
  then show ?thesis
    using assms swap_ones [of 5 a b] swap_ones [of 5 "drop 5 a" "drop 5 b"]
    by (simp add: Hacl_EC_Point_swap_conditional_def Let_def)
next
  case False
  then show ?thesis
    using assms by (simp add: Hacl_EC_Point_swap_conditional_def Let_def swap_zero)
qed

lemma copy_correct: "10 \<le> length out \<Longrightarrow> 10 \<le> length inp \<Longrightarrow> Hacl_EC_Point_copy out inp = take 10 inp @ drop 10 out"
  using take_add [of 5 5 inp] by (simp add: Hacl_EC_Point_copy_def at_ptr_def memcpy_def Let_def)

section \<open>The doubling and adding step\<close>

text \<open>The field operations on cells.\<close>

lemma holds_Some: "holds (Some (n, v)) l \<longleftrightarrow> limbs_below n l \<and> fval l = v mod p25519"
  by (auto simp: holds_def limbs_below_def)

lemma holds_arg: "holds (Some (n, v)) l \<Longrightarrow> n \<le> 2 ^ 54 + 2 ^ 51 + 2 ^ 13 \<Longrightarrow> fe_arg l"
  by (auto simp: holds_Some intro: limbs_below_mono)

lemma holds_red: "holds (Some (n, v)) l \<Longrightarrow> n \<le> 2 ^ 51 + 2 ^ 13 \<Longrightarrow> fe_red l"
  by (auto simp: holds_Some intro: limbs_below_mono)

lemma holds_value: "holds (Some (n, v)) l \<Longrightarrow> fval l = v mod p25519"
  by (simp add: holds_Some)

lemma w_mul:
  assumes "holds (Some (m, u)) a" "holds (Some (n, v)) b" "m \<le> 2 ^ 54 + 2 ^ 51 + 2 ^ 13"
    "n \<le> 2 ^ 54 + 2 ^ 51 + 2 ^ 13" "5 \<le> length out"
  shows "fe_writes (2 ^ 51 + 2 ^ 13) (u * v) out (Hacl_Bignum_fmul out a b)"
  unfolding Hacl_Bignum_fmul_def
  by (rule fe_writes_cong [OF _ fmul_writes [OF assms(5) holds_arg [OF assms(1,3)] holds_arg [OF assms(2,4)]]])
     (simp add: holds_value [OF assms(1)] holds_value [OF assms(2)] mod_mult_eq)

lemma w_sq:
  assumes "holds (Some (m, u)) a" "m \<le> 2 ^ 54 + 2 ^ 51 + 2 ^ 13" "5 \<le> length out"
  shows "fe_writes (2 ^ 51 + 2 ^ 13) (u ^ 2) out (Hacl_Bignum_Fsquare_fsquare_times out a 1)"
  by (rule fe_writes_cong [OF _ fsquare_times_writes [OF assms(3) holds_arg [OF assms(1,2)]]])
     (simp_all add: holds_value [OF assms(1)] power_mod)

lemma w_sum:
  assumes "holds (Some (m, u)) out" "holds (Some (n, v)) b" "m + n \<le> 2 ^ 64"
  shows "fe_writes (m + n) (u + v) out (Hacl_Bignum_fsum out b)"
  by (rule fe_writes_cong [OF _ fsum_writes])
     (use assms in \<open>simp_all add: holds_Some mod_add_eq\<close>)

lemma w_diff:
  assumes "holds (Some (m, u)) out" "holds (Some (n, v)) b" "m \<le> 2 ^ 51 + 2 ^ 13" "n \<le> 2 ^ 51 + 2 ^ 13"
  shows "fe_writes (2 ^ 54 + 2 ^ 51 + 2 ^ 13) (v - u) out (Hacl_Bignum_fdifference out b)"
  by (rule fe_writes_cong [OF _ fdifference_writes [OF holds_red [OF assms(1,3)] holds_red [OF assms(2,4)]]])
     (simp add: holds_value [OF assms(1)] holds_value [OF assms(2)] mod_diff_eq)

lemma w_scalar:
  assumes "holds (Some (m, u)) b" "m \<le> 2 ^ 54 + 2 ^ 51 + 2 ^ 13" "5 \<le> length out"
  shows "fe_writes (2 ^ 51 + 2 ^ 27) (u * 121665) out (Hacl_Bignum_fscalar out b 121665)"
  by (rule fe_writes_cong [OF _ fscalar_writes [OF assms(3) holds_arg [OF assms(1,2)]]])
     (simp_all add: holds_value [OF assms(1)] mod_mult_left_eq)

lemma w_copy:
  assumes "holds (Some (m, u)) a" "5 \<le> length out"
  shows "fe_writes m u out (memcpy out a 5)"
  by (rule fe_writes_cong [OF _ memcpy_fe(1) [OF assms(2)]]) (use assms(1) in \<open>simp_all add: holds_Some\<close>)

text \<open>Reading an element of a buffer, and one statement that writes one.\<close>

lemma slots_read:
  "slots cs buf \<Longrightarrow> off mod 5 = 0 \<Longrightarrow> off div 5 < length cs \<Longrightarrow> cs ! (off div 5) = c \<Longrightarrow> holds c (drop off buf)"
  using slots_get [of cs buf off] by simp

lemma slots_read0: "slots cs buf \<Longrightarrow> 0 < length cs \<Longrightarrow> cs ! 0 = c \<Longrightarrow> holds c buf"
  using slots_get [of cs buf 0] by simp

lemma fm_step:
  assumes "slots cs buf" and "off mod 5 = 0" and "off div 5 < length cs"
    and "5 \<le> length (drop off buf) \<Longrightarrow> fe_writes n v (drop off buf) new"
    and "cs[off div 5 := Some (n, v)] = cs2"
    and "\<And>b. slots cs2 b \<Longrightarrow> Q (f b)"
  shows "Q (Let (take off buf @ new) f)"
  by (rule slots_let [where Q = Q, OF assms(1-4) assms(6) [folded assms(5)]])

lemma let_now: "Q (f e) \<Longrightarrow> Q (Let e f)"
  by (simp add: Let_def)

text \<open>A point whose coordinates are reduced.\<close>

definition is_point :: "point \<Rightarrow> u64 list \<Rightarrow> bool" where
  "is_point P l \<longleftrightarrow> slots [Some (2 ^ 51 + 2 ^ 13, fst P), Some (2 ^ 51 + 2 ^ 13, snd P)] l"

lemma slots_two: "slots [c, d] l \<longleftrightarrow> length l = 10 \<and> holds c l \<and> holds d (drop 5 l)"
  by (auto simp: slots_def All_less_Suc)

lemma is_point_cong:
  "fst P mod p25519 = fst Q mod p25519 \<Longrightarrow> snd P mod p25519 = snd Q mod p25519 \<Longrightarrow> is_point P l = is_point Q l"
  by (simp add: is_point_def slots_two holds_Some)

lemma mont_step_values:
  "slots [Some (2251799813693440, (x2 + z2)\<^sup>2 * (x2 - z2)\<^sup>2),
      Some (2251799813693440, (121666 * (x2 + z2)\<^sup>2 - (x2 - z2)\<^sup>2 * 121665) * ((x2 + z2)\<^sup>2 - (x2 - z2)\<^sup>2))] l
   \<Longrightarrow> is_point (fst (mont_step x1 (x2, z2) (x3, z3))) l"
  "slots [Some (2251799813693440, ((x3 + z3) * (x2 - z2) + (x2 + z2) * (x3 - z3))\<^sup>2),
      Some (2251799813693440, ((x3 + z3) * (x2 - z2) - (x2 + z2) * (x3 - z3))\<^sup>2 * x1)] l
   \<Longrightarrow> is_point (snd (mont_step x1 (x2, z2) (x3, z3))) l"
proof -
  have v: "(121666 * a - b * 121665) * (a - b) = (a - b) * (a + 121665 * (a - b))" for a b :: int
    by (simp add: algebra_simps)
  have w: "((x3 + z3) * (x2 - z2) - (x2 + z2) * (x3 - z3))\<^sup>2 * x1
      = x1 * ((x3 - z3) * (x2 + z2) - (x3 + z3) * (x2 - z2))\<^sup>2"
    by (simp add: power2_commute mult.commute)
  have u: "(x3 + z3) * (x2 - z2) + (x2 + z2) * (x3 - z3) = (x3 - z3) * (x2 + z2) + (x3 + z3) * (x2 - z2)"
    by (simp add: algebra_simps)
  note defs = is_point_def slots_two holds_Some mont_step_def Let_def case_prod_conv fst_conv snd_conv
    mod_mod_trivial
  show "slots [Some (2251799813693440, (x2 + z2)\<^sup>2 * (x2 - z2)\<^sup>2),
      Some (2251799813693440, (121666 * (x2 + z2)\<^sup>2 - (x2 - z2)\<^sup>2 * 121665) * ((x2 + z2)\<^sup>2 - (x2 - z2)\<^sup>2))] l
   \<Longrightarrow> is_point (fst (mont_step x1 (x2, z2) (x3, z3))) l"
    unfolding v by (simp only: defs) simp
  show "slots [Some (2251799813693440, ((x3 + z3) * (x2 - z2) + (x2 + z2) * (x3 - z3))\<^sup>2),
      Some (2251799813693440, ((x3 + z3) * (x2 - z2) - (x2 + z2) * (x3 - z3))\<^sup>2 * x1)] l
   \<Longrightarrow> is_point (snd (mont_step x1 (x2, z2) (x3, z3))) l"
    unfolding w u by (simp only: defs) simp
qed

lemma slots_two_length: "slots [c, d] l \<Longrightarrow> length l = 10"
  by (simp add: slots_two)

lemma fmonty_correct:
  assumes p: "slots [Some (2 ^ 51 + 2 ^ 13, x2), Some (2 ^ 51 + 2 ^ 13, z2)] p"
    and pq: "slots [Some (2 ^ 51 + 2 ^ 13, x3), Some (2 ^ 51 + 2 ^ 13, z3)] pq"
    and q: "holds (Some (2 ^ 51 + 2 ^ 13, x1)) q"
    and len: "length pp = 10" "length ppq = 10"
    and Q: "\<And>pp' ppq' p' pq'. \<lbrakk>is_point (fst (mont_step x1 (x2, z2) (x3, z3))) pp';
       is_point (snd (mont_step x1 (x2, z2) (x3, z3))) ppq'; length p' = 10; length pq' = 10\<rbrakk>
       \<Longrightarrow> Q (pp', ppq', p', pq')"
  shows "Q (Hacl_EC_AddAndDouble_fmonty pp ppq p pq q)"
proof -
  have b0: "slots [None, None, None, None, None, None, None, None] (replicate 40 0)"
    using slots_zero [of 8 0] by (simp add: numeral_eq_Suc)
  have two: "slots [None, None] pp" "slots [None, None] ppq"
    using len by (simp_all add: slots_two holds_def)
  note step = fm_step [where Q = Q]
  show ?thesis
    unfolding Hacl_EC_AddAndDouble_fmonty_def at_ptr_def
    by (insert p pq q two b0, rule let_now [where Q = Q], subst Let_def [of "replicate 40 0"],
        ((rule step, assumption) | rule let_now [where Q = Q]
         | rule w_copy w_sum w_diff w_mul w_sq w_scalar
         | (rule slots_read, assumption, simp, simp, simp) | (rule slots_read0, assumption, simp, simp)
         | assumption | (simp; fail))+,
        rule Q, rule mont_step_values, assumption, rule mont_step_values, assumption,
        rule slots_two_length, assumption, rule slots_two_length, assumption)
qed

end
