(* ===== verification/X25519.thy ===== *)
theory X25519
  imports Curve25519
begin

text \<open>
  The ladder of \<open>Hacl_Curve25519.c\<close> computes the ladder of RFC 7748: the loops over the bytes and
  bits of the scalar, and the function \<open>crypto_scalarmult\<close> from bytes to bytes.
\<close>

section \<open>The loops over the scalar\<close>

text \<open>The four buffers between two steps: two points and two scratch areas.\<close>

definition ladder_rel :: "point \<times> point \<Rightarrow> ladder_bufs \<Rightarrow> bool" where
  "ladder_rel s = (\<lambda>(nq, nqpq, nq2, nqpq2).
     is_point (fst s) nq \<and> is_point (snd s) nqpq \<and> length nq2 = 10 \<and> length nqpq2 = 10)"

lemma is_point_length: "is_point P l \<Longrightarrow> length l = 10"
  unfolding is_point_def by (rule slots_two_length)

lemma top_bit_byte: "ucast (drop_bit 7 (b :: u8)) = (if bit b 7 then 1 else 0 :: u64)"
proof (rule bit_word_eqI)
  fix n assume "n < LENGTH(64)"
  show "bit (ucast (drop_bit 7 b) :: u64) n = bit (if bit b 7 then 1 else 0 :: u64) n"
    using \<open>n < LENGTH(64)\<close> bit_imp_le_length [of b "7 + n"]
    by (cases n) (auto simp: bit_ucast_iff bit_drop_bit_eq bit_1_iff)
qed

lemma step_correct:
  assumes rel: "ladder_rel s (nq, nqpq, nq2, nqpq2)" and q: "holds (Some (2 ^ 51 + 2 ^ 13, x1)) q"
    and Q: "\<And>nq nqpq nq2 nqpq2. ladder_rel (ladder_bit x1 (bit byt 7) s) (nq2, nqpq2, nq, nqpq) \<Longrightarrow> Q (nq, nqpq, nq2, nqpq2)"
  shows "Q (Hacl_EC_Ladder_SmallLoop_cmult_small_loop_step (nq, nqpq, nq2, nqpq2) q byt)"
proof -
  obtain P R where s: "s = (P, R)" by (cases s)
  define b where "b = bit byt 7"
  define A where "A = (if b then R else P)"
  define B where "B = (if b then P else R)"
  define p where "p = (if b then nqpq else nq)"
  define pq where "pq = (if b then nq else nqpq)"
  have len: "length nq = 10" "length nqpq = 10" "length nq2 = 10" "length nqpq2 = 10"
    using rel by (auto simp: ladder_rel_def is_point_length)
  have pA: "is_point A p" and pB: "is_point B pq"
    using rel by (auto simp: ladder_rel_def s A_def B_def p_def pq_def)
  have swap1: "Hacl_EC_Point_swap_conditional nq nqpq (ucast (drop_bit 7 byt)) = (p, pq)"
    using swap_correct [OF len(1,2), of b] by (simp add: top_bit_byte b_def p_def pq_def)
  define Q' where "Q' = (\<lambda>(nq2, nqpq2, nq, nqpq).
    let bit0 = ucast (drop_bit 7 byt); (nq2, nqpq2) = Hacl_EC_Point_swap_conditional nq2 nqpq2 bit0
    in Q (nq, nqpq, nq2, nqpq2))"
  have "Q' (Hacl_EC_AddAndDouble_fmonty nq2 nqpq2 p pq q)"
  proof (rule fmonty_correct [where Q = Q', of "fst A" "snd A" p "fst B" "snd B" pq x1])
    show "slots [Some (2 ^ 51 + 2 ^ 13, fst A), Some (2 ^ 51 + 2 ^ 13, snd A)] p"
      "slots [Some (2 ^ 51 + 2 ^ 13, fst B), Some (2 ^ 51 + 2 ^ 13, snd B)] pq"
      using pA pB by (simp_all only: is_point_def)
    fix pp' ppq' p' pq' :: "u64 list"
    assume r: "is_point (fst (mont_step x1 (fst A, snd A) (fst B, snd B))) pp'"
      "is_point (snd (mont_step x1 (fst A, snd A) (fst B, snd B))) ppq'" "length p' = 10" "length pq' = 10"
    have sw: "Hacl_EC_Point_swap_conditional pp' ppq' (ucast (drop_bit 7 byt)) = (if b then (ppq', pp') else (pp', ppq'))"
      using swap_correct [OF is_point_length [OF r(1)] is_point_length [OF r(2)], of b] by (simp add: top_bit_byte b_def)
    have "ladder_rel (ladder_bit x1 (bit byt 7) s) (if b then ppq' else pp', if b then pp' else ppq', p', pq')"
      using r by (cases b) (simp_all add: ladder_rel_def ladder_bit_def s A_def B_def b_def [symmetric])
    from Q [OF this] show "Q' (pp', ppq', p', pq')"
      by (cases b) (simp_all add: Q'_def sw)
  qed (use q len in simp_all)
  then show ?thesis
    by (simp add: Hacl_EC_Ladder_SmallLoop_cmult_small_loop_step_def swap1 Q'_def Let_def split_beta)
qed

lemma double_step_correct:
  assumes "ladder_rel s pts" and "holds (Some (2 ^ 51 + 2 ^ 13, x1)) q"
  shows "ladder_rel (ladder_bit x1 (bit byt 6) (ladder_bit x1 (bit byt 7) s))
           (Hacl_EC_Ladder_SmallLoop_cmult_small_loop_double_step pts q byt)"
proof -
  obtain nq nqpq nq2 nqpq2 where pts: "pts = (nq, nqpq, nq2, nqpq2)" by (cases pts)
  let ?R = "ladder_rel (ladder_bit x1 (bit byt 6) (ladder_bit x1 (bit byt 7) s))"
  define Q2 where "Q2 = (\<lambda>(nq2, nqpq2, nq, nqpq). ?R (nq, nqpq, nq2, nqpq2))"
  define Q1 where "Q1 = (\<lambda>(nq, nqpq, nq2, nqpq2).
    Q2 (Hacl_EC_Ladder_SmallLoop_cmult_small_loop_step (nq2, nqpq2, nq, nqpq) q (push_bit 1 byt)))"
  have "Q1 (Hacl_EC_Ladder_SmallLoop_cmult_small_loop_step (nq, nqpq, nq2, nqpq2) q byt)"
  proof (rule step_correct [where Q = Q1, OF assms(1) [unfolded pts] assms(2)])
    fix nq nqpq nq2 nqpq2
    assume r: "ladder_rel (ladder_bit x1 (bit byt 7) s) (nq2, nqpq2, nq, nqpq)"
    have b6: "bit (push_bit 1 byt) 7 = bit byt 6" by (simp only: bit_push_bit_iff) simp
    have "Q2 (Hacl_EC_Ladder_SmallLoop_cmult_small_loop_step (nq2, nqpq2, nq, nqpq) q (push_bit 1 byt))"
      by (rule step_correct [where Q = Q2, OF r assms(2)]) (simp only: Q2_def b6 case_prod_conv)
    then show "Q1 (nq, nqpq, nq2, nqpq2)" by (simp add: Q1_def)
  qed
  moreover obtain a b c d where
    st: "Hacl_EC_Ladder_SmallLoop_cmult_small_loop_step (nq, nqpq, nq2, nqpq2) q byt = (a, b, c, d)"
    by (metis prod_cases4)
  moreover obtain e f g h where
    st2: "Hacl_EC_Ladder_SmallLoop_cmult_small_loop_step (c, d, a, b) q (push_bit 1 byt) = (e, f, g, h)"
    by (metis prod_cases4)
  ultimately have "?R (g, h, e, f)"
    by (simp only: Q1_def Q2_def case_prod_conv)
  then show ?thesis
    by (simp only: pts Hacl_EC_Ladder_SmallLoop_cmult_small_loop_double_step_def Let_def case_prod_conv st st2)
qed

lemma small_loop_correct:
  assumes "ladder_rel s pts" and "holds (Some (2 ^ 51 + 2 ^ 13, x1)) q" and "unat i \<le> 4"
  shows "ladder_rel (fold (ladder_bit x1) (map (\<lambda>k. bit byt (7 - k)) [0..<2 * unat i]) s)
           (Hacl_EC_Ladder_SmallLoop_cmult_small_loop pts q byt i)"
  using assms
proof (induction pts q byt i arbitrary: s rule: Hacl_EC_Ladder_SmallLoop_cmult_small_loop.induct)
  case (1 pts q byt i)
  show ?case
  proof (cases "i = 0")
    case True
    with 1 show ?thesis by (simp add: Hacl_EC_Ladder_SmallLoop_cmult_small_loop.simps [of _ _ _ 0])
  next
    case False
    define n where "n = unat (i - 1)"
    have n: "unat i = Suc n" using False by (simp add: n_def unat_minus_one unat_gt_0)
    let ?s = "ladder_bit x1 (bit byt 6) (ladder_bit x1 (bit byt 7) s)"
    have "ladder_rel (fold (ladder_bit x1) (map (\<lambda>k. bit (push_bit 2 byt) (7 - k)) [0..<2 * n]) ?s)
        (Hacl_EC_Ladder_SmallLoop_cmult_small_loop
          (Hacl_EC_Ladder_SmallLoop_cmult_small_loop_double_step pts q byt) q (push_bit 2 byt) (i - 1))"
      unfolding n_def
      by (rule "1.IH" [OF False refl refl refl])
         (use double_step_correct [OF "1.prems"(1,2)] "1.prems"(2,3) n in \<open>simp_all add: n_def\<close>)
    moreover have "map (\<lambda>k. bit (push_bit 2 byt) (7 - k)) [0..<2 * n] = map (\<lambda>k. bit byt (7 - k)) [2..<2 * n + 2]"
      using "1.prems"(3) n
      by (simp only: map_add_upt [of 2, symmetric] map_map comp_def, intro map_cong refl)
         (auto simp: bit_push_bit_iff)
    moreover have "[0..<2 * n + 2] = 0 # 1 # [2..<2 * n + 2]" by (simp add: upt_conv_Cons numeral_2_eq_2 del: upt_Suc)
    ultimately show ?thesis
      using False by (subst Hacl_EC_Ladder_SmallLoop_cmult_small_loop.simps) (simp add: n Let_def del: upt_Suc)
  qed
qed

lemma byte_bits_eq: "byte_bits b = map (\<lambda>k. bit b (7 - k)) [0..<8]"
  by (rule nth_equalityI) (simp_all add: byte_bits_def rev_nth)

lemma big_loop_correct:
  assumes "ladder_rel s pts" and "holds (Some (2 ^ 51 + 2 ^ 13, x1)) q" and "unat i \<le> length n1"
  shows "ladder_rel (fold (ladder_bit x1) (concat (map byte_bits (rev (take (unat i) n1)))) s)
           (Hacl_EC_Ladder_BigLoop_cmult_big_loop n1 pts q i)"
  using assms
proof (induction n1 pts q i arbitrary: s rule: Hacl_EC_Ladder_BigLoop_cmult_big_loop.induct)
  case (1 n1 pts q i)
  show ?case
  proof (cases "i = 0")
    case True
    with 1 show ?thesis by (simp add: Hacl_EC_Ladder_BigLoop_cmult_big_loop.simps [of _ _ _ 0])
  next
    case False
    define n where "n = unat (i - 1)"
    have n: "unat i = Suc n" using False by (simp add: n_def unat_minus_one unat_gt_0)
    let ?s = "fold (ladder_bit x1) (byte_bits (n1 ! n)) s"
    let ?pts = "Hacl_EC_Ladder_SmallLoop_cmult_small_loop pts q (n1 ! n) 4"
    have "ladder_rel ?s ?pts"
      using small_loop_correct [OF "1.prems"(1,2), of 4] by (simp add: byte_bits_eq)
    then have "ladder_rel (fold (ladder_bit x1) (concat (map byte_bits (rev (take n n1)))) ?s)
        (Hacl_EC_Ladder_BigLoop_cmult_big_loop n1 ?pts q (i - 1))"
      unfolding n_def
      by (intro "1.IH" [OF False refl refl refl]) (use "1.prems"(2,3) n in \<open>simp_all add: n_def\<close>)
    moreover have "take (Suc n) n1 = take n n1 @ [n1 ! n]"
      using "1.prems"(3) n by (simp add: take_Suc_conv_app_nth)
    ultimately show ?thesis
      using False by (subst Hacl_EC_Ladder_BigLoop_cmult_big_loop.simps) (simp add: n Let_def n_def [symmetric])
  qed
qed

text \<open>The bytes taken from the last to the first give the bits of the number.\<close>

lemma concat_byte_bits: "concat (map byte_bits (rev n)) = scalar_bits n"
proof (induction n)
  case (Cons b n)
  have e: "[0..<8 * length (b # n)] = [0..<8] @ map (\<lambda>i. i + 8) [0..<8 * length n]"
    by (simp add: map_add_upt upt_add_eq_append [of 0 8] add.commute)
  have "map (bit (le_val (b # n))) [0..<8 * length (b # n)]
      = map (bit b) [0..<8] @ map (bit (le_val n)) [0..<8 * length n]"
    unfolding e map_append map_map by (simp add: bit_byte_cons comp_def cong: map_cong)
  then have "scalar_bits (b # n) = scalar_bits n @ byte_bits b"
    unfolding scalar_bits_def byte_bits_def rev_map [symmetric] by simp
  with Cons show ?case by simp
qed (simp add: scalar_bits_def)

section \<open>From bytes to bytes\<close>

lemma ladder_cmult:
  assumes "is_point (x1, 1) q" and "length n1 = 32" and "10 \<le> length result"
  shows "is_point (ladder x1 (scalar_bits n1)) (take 10 (Hacl_EC_Ladder_cmult result n1 q))"
    and "length (Hacl_EC_Ladder_cmult result n1 q) = length result"
proof -
  have q: "holds (Some (2 ^ 51 + 2 ^ 13, x1)) q" "length q = 10"
    using assms(1) by (simp_all add: is_point_def slots_two)
  let ?nq = "(replicate 10 0)[0 := 1]" and ?z = "replicate 10 0"
  have one: "?nq = [1, 0, 0, 0, 0, 0, 0, 0, 0, 0]" by (simp add: numeral_eq_Suc)
  have inf: "is_point (1, 0) ?nq"
    unfolding one by (simp add: is_point_def slots_two holds_Some limbs_below_Cons fval_Cons p25519_def)
  have cp: "Hacl_EC_Point_copy ?z q = q" using q(2) by (simp add: copy_correct)
  obtain nq nqpq nq2 nqpq2 where
    big: "Hacl_EC_Ladder_BigLoop_cmult_big_loop n1 (?nq, q, ?z, ?z) q 32 = (nq, nqpq, nq2, nqpq2)"
    by (metis prod_cases4)
  have "ladder_rel ((1, 0), (x1, 1)) (?nq, q, ?z, ?z)"
    using inf assms(1) by (simp add: ladder_rel_def)
  from big_loop_correct [OF this q(1), of 32 n1]
  have nq: "is_point (ladder x1 (scalar_bits n1)) nq"
    using assms(2) by (simp add: big ladder_rel_def ladder_def concat_byte_bits)
  have "Hacl_EC_Ladder_cmult result n1 q = Hacl_EC_Point_copy result nq"
    by (simp add: Hacl_EC_Ladder_cmult_def Let_def cp big)
  also have "\<dots> = nq @ drop 10 result"
    using assms(3) is_point_length [OF nq] by (simp add: copy_correct)
  finally have eq: "Hacl_EC_Ladder_cmult result n1 q = nq @ drop 10 result" .
  show "is_point (ladder x1 (scalar_bits n1)) (take 10 (Hacl_EC_Ladder_cmult result n1 q))"
    using nq is_point_length [OF nq] by (simp add: eq)
  show "length (Hacl_EC_Ladder_cmult result n1 q) = length result"
    using assms(3) is_point_length [OF nq] by (simp add: eq)
qed

lemma holds_prefix: "holds c (take n l) \<Longrightarrow> 5 \<le> n \<Longrightarrow> holds c l"
  using holds_take [of c "take n l"] holds_take [of c l] by (simp add: min_def split: if_splits)

lemma scalar_of_point_correct:
  assumes "is_point (x, z) (take 10 pt)" and "32 \<le> length out"
  shows "Hacl_EC_Format_scalar_of_point out pt
         = le_bytes 32 (nat (x * z ^ (2 ^ 255 - 21) mod p25519)) @ drop 32 out"
proof -
  have hx: "holds (Some (2 ^ 51 + 2 ^ 13, x)) pt"
    using assms(1) holds_prefix [of _ 10 pt] by (simp add: is_point_def slots_two)
  have "holds (Some (2 ^ 51 + 2 ^ 13, z)) (take 5 (drop 5 pt))"
    using assms(1) by (simp add: is_point_def slots_two drop_take)
  then have hz: "holds (Some (2 ^ 51 + 2 ^ 13, z)) (drop 5 pt)" by (rule holds_prefix) simp
  let ?e = "2 ^ 255 - 21 :: nat"
  define zi where "zi = Hacl_Bignum_crecip (replicate 10 0) (drop 5 pt)"
  have w: "fe_writes (2 ^ 51 + 2 ^ 13) (fval (drop 5 pt) ^ ?e) (replicate 10 0) zi"
    unfolding zi_def Hacl_Bignum_crecip_def by (rule crecip_writes) (use hz in \<open>simp_all add: holds_Some\<close>)
  then have hzi: "holds (Some (2 ^ 51 + 2 ^ 13, fval (drop 5 pt) ^ ?e)) zi" by (rule fe_writes_holds) simp
  define sc where "sc = Hacl_Bignum_fmul (drop 5 zi) pt zi"
  have "length zi = 10" using fe_writesD(3) [OF w] by simp
  then have wsc: "fe_writes (2 ^ 51 + 2 ^ 13) (x * fval (drop 5 pt) ^ ?e) (drop 5 zi) sc"
    unfolding sc_def by (intro w_mul [OF hx hzi]) simp_all
  have "fval sc = (x * (z mod p25519) ^ ?e) mod p25519"
    using fe_writesD(2) [OF wsc] hz by (simp only: holds_Some)
  also have "\<dots> = (x * z ^ ?e) mod p25519"
    by (metis mod_mult_right_eq power_mod)
  finally have v: "fval sc = (x * z ^ ?e) mod p25519" .
  have "Hacl_EC_Format_scalar_of_point out pt = fst (Hacl_EC_Format_fcontract out sc)"
    using \<open>length zi = 10\<close>
    by (simp only: Hacl_EC_Format_scalar_of_point_def Let_def at_ptr_def take_0 drop_0 append_Nil
        zi_def [symmetric] sc_def [symmetric]) (simp add: sc_def [symmetric])
  also have "\<dots> = le_bytes 32 (nat (fval sc)) @ drop 32 out"
    by (rule fcontract_correct [OF fe_writesD(1) [OF wsc] assms(2)])
  finally show ?thesis by (simp only: v)
qed

lemma scalarmult_correct:
  assumes "32 \<le> length secret" and "32 \<le> length basepoint" and "32 \<le> length out"
  shows "Hacl_EC_crypto_scalarmult out secret basepoint = x25519 secret basepoint @ drop 32 out"
proof -
  define x1 where "x1 = int (le_val (take 32 basepoint) mod 2 ^ 255)"
  define fx where "fx = Hacl_EC_Format_fexpand (replicate 10 0) basepoint"
  define q where "q = take 5 fx @ (drop 5 fx)[0 := 1]"
  define e where "e = (take 32 secret)[0 := secret ! 0 AND 248, 31 := (secret ! 31 AND 127) OR 64]"
  have w: "fe_writes (2 ^ 51) x1 (replicate 10 0) fx"
    unfolding fx_def x1_def by (rule fexpand_writes(1)) (simp_all add: assms)
  have "drop 5 fx = [0, 0, 0, 0, 0]" using fe_writesD(4) [OF w] by (simp add: numeral_eq_Suc)
  moreover have "holds (Some (2 ^ 51 + 2 ^ 13, x1)) fx"
    using fe_writesD(1,2) [OF w] by (auto simp: holds_Some intro: limbs_below_mono)
  ultimately have q: "is_point (x1, 1) q"
    using holds_prefix [of _ 5 q] fe_writesD(3) [OF w] holds_take [of _ fx]
    by (simp add: q_def is_point_def slots_two) (simp add: holds_Some limbs_below_Cons fval_Cons p25519_def)
  have le: "length e = 32" using assms(1) by (simp add: e_def)
  define nq where "nq = Hacl_EC_Ladder_cmult ((replicate 15 0)[0 := 1]) e q"
  obtain x z where xz: "ladder x1 (scalar_bits e) = (x, z)" by (cases "ladder x1 (scalar_bits e)")
  have nq: "is_point (x, z) (take 10 nq)"
    using ladder_cmult(1) [OF q le, of "(replicate 15 0)[0 := 1]"] by (simp add: nq_def xz)
  have m: "memcpy (replicate 32 0) secret 32 = take 32 secret" using assms(1) by (simp add: memcpy_def)
  have "Hacl_EC_crypto_scalarmult out secret basepoint = Hacl_EC_Format_scalar_of_point out nq"
    by (simp only: Hacl_EC_crypto_scalarmult_def Let_def at_ptr_def take_0 drop_0 append_Nil m nth_take
        zero_less_numeral numeral_less_iff rel_simps
        fx_def [symmetric] q_def [symmetric] e_def [symmetric] nq_def [symmetric] cong: let_weak_cong)
  also have "\<dots> = le_bytes 32 (nat (x * z ^ (2 ^ 255 - 21) mod p25519)) @ drop 32 out"
    by (rule scalar_of_point_correct [OF nq assms(3)])
  also have "le_bytes 32 (nat (x * z ^ (2 ^ 255 - 21) mod p25519)) = x25519 secret basepoint"
    by (simp only: x25519_def Let_def clamp_scalar_def e_def [symmetric] x1_def [symmetric] xz case_prod_conv)
  finally show ?thesis .
qed

section \<open>Properties\<close>

text \<open>
  C34: Scalar multiplication writes the X25519 function of RFC 7748 to the first 32 bytes of the
  output: the bits above 254 of the point are ignored, the scalar is clamped, the ladder is run
  over all 256 bits of the clamped scalar, and the quotient is the product with the power
  \<open>p - 2\<close>, written in canonical form.
\<close>

theorem curve25519_scalarmult:
  assumes "32 \<le> length secret" and "32 \<le> length basepoint" and "32 \<le> length mypublic"
  shows "Hacl_Curve25519_crypto_scalarmult mypublic secret basepoint
         = x25519 secret basepoint @ drop 32 mypublic"
  unfolding Hacl_Curve25519_crypto_scalarmult_def using assms by (rule scalarmult_correct)

theorem curve25519_scalarmult_witness:
  "Hacl_Curve25519_crypto_scalarmult (replicate 32 0) (replicate 32 5) (9 # replicate 31 0)
   = x25519 (replicate 32 5) (9 # replicate 31 0)"
  using curve25519_scalarmult [of "replicate 32 5" "9 # replicate 31 0" "replicate 32 0"] by simp

text \<open>
  One step of the ladder, in place on the limbs, maps reduced points to reduced points and
  computes the doubling and the differential addition of the Montgomery curve with
  \<open>A = 486662\<close>: with \<open>P = (x2 : z2)\<close> and \<open>R = (x3 : z3)\<close> the new coordinates are
  \<open>(x2^2 - z2^2)^2\<close> over \<open>4 x2 z2 (x2^2 + A x2 z2 + z2^2)\<close> and
  \<open>4 (x2 x3 - z2 z3)^2\<close> over \<open>4 x1 (x3 z2 - z3 x2)^2\<close>.
\<close>

theorem fmonty_step:
  assumes "is_point (x2, z2) p" and "is_point (x3, z3) pq" and "is_point (x1, 1) q"
    and "length pp = 10" and "length ppq = 10"
  shows "is_point ((x2\<^sup>2 - z2\<^sup>2)\<^sup>2, 4 * x2 * z2 * (x2\<^sup>2 + 486662 * x2 * z2 + z2\<^sup>2))
           (fst (Hacl_EC_AddAndDouble_fmonty pp ppq p pq q))
         \<and> is_point (4 * (x2 * x3 - z2 * z3)\<^sup>2, 4 * x1 * (x3 * z2 - z3 * x2)\<^sup>2)
             (fst (snd (Hacl_EC_AddAndDouble_fmonty pp ppq p pq q)))"
proof -
  let ?Q = "\<lambda>(pp', ppq', p', pq'). is_point (fst (mont_step x1 (x2, z2) (x3, z3))) pp'
      \<and> is_point (snd (mont_step x1 (x2, z2) (x3, z3))) ppq'"
  have "?Q (Hacl_EC_AddAndDouble_fmonty pp ppq p pq q)"
    by (rule fmonty_correct [where Q = ?Q, of x2 z2 p x3 z3 pq x1])
       (use assms in \<open>simp_all add: is_point_def slots_two\<close>)
  then have m: "is_point (fst (mont_step x1 (x2, z2) (x3, z3))) (fst (Hacl_EC_AddAndDouble_fmonty pp ppq p pq q))"
    "is_point (snd (mont_step x1 (x2, z2) (x3, z3))) (fst (snd (Hacl_EC_AddAndDouble_fmonty pp ppq p pq q)))"
    by (simp_all only: split_beta)
  have d: "(x2 + z2)\<^sup>2 * (x2 - z2)\<^sup>2 = (x2\<^sup>2 - z2\<^sup>2)\<^sup>2"
    "((x2 + z2)\<^sup>2 - (x2 - z2)\<^sup>2) * ((x2 + z2)\<^sup>2 + 121665 * ((x2 + z2)\<^sup>2 - (x2 - z2)\<^sup>2))
     = 4 * x2 * z2 * (x2\<^sup>2 + 486662 * x2 * z2 + z2\<^sup>2)"
    "((x3 - z3) * (x2 + z2) + (x3 + z3) * (x2 - z2))\<^sup>2 = 4 * (x2 * x3 - z2 * z3)\<^sup>2"
    "x1 * ((x3 - z3) * (x2 + z2) - (x3 + z3) * (x2 - z2))\<^sup>2 = 4 * x1 * (x3 * z2 - z3 * x2)\<^sup>2"
    by (simp_all add: power2_eq_square algebra_simps)
  show ?thesis
    using m by (simp only: mont_step_def Let_def case_prod_conv fst_conv snd_conv d)
      (simp only: is_point_def slots_two holds_Some fst_conv snd_conv mod_mod_trivial simp_thms)
qed

theorem fmonty_step_witness:
  "is_point (1, 0) (fst (Hacl_EC_AddAndDouble_fmonty (replicate 10 0) (replicate 10 0)
     [1, 0, 0, 0, 0, 0, 0, 0, 0, 0] [9, 0, 0, 0, 0, 1, 0, 0, 0, 0] [9, 0, 0, 0, 0, 1, 0, 0, 0, 0]))"
proof -
  have "is_point (1, 0) [1, 0, 0, 0, 0, 0, 0, 0, 0, 0]" "is_point (9, 1) [9, 0, 0, 0, 0, 1, 0, 0, 0, 0]"
    by (simp_all add: is_point_def slots_two holds_Some limbs_below_Cons fval_Cons p25519_def)
  from fmonty_step [OF this(1,2,2), of "replicate 10 0" "replicate 10 0"] show ?thesis by simp
qed

end
