(* ===== verification/Vec128.thy ===== *)
theory Vec128
  imports Stream_Cipher
begin

text \<open>
  The vectors of four 32-bit words of \<open>vec128.h\<close>, in the portable version of the header (the
  branches for SSE and NEON replace the same operations by compiler intrinsics, which are not
  modelled).  The array in the struct is a list of four words; the lemmas give each operation on
  vectors that are written out.
\<close>

section \<open>The operations\<close>

record vec =
  vec_v :: "u32 list"

definition vec_xor :: "vec \<Rightarrow> vec \<Rightarrow> vec" where
  "vec_xor v1 v2 =
     \<lparr>vec_v = [vec_v v1 ! 0 XOR vec_v v2 ! 0, vec_v v1 ! 1 XOR vec_v v2 ! 1,
              vec_v v1 ! 2 XOR vec_v v2 ! 2, vec_v v1 ! 3 XOR vec_v v2 ! 3]\<rparr>"

definition vec_rotate_left :: "vec \<Rightarrow> u32 \<Rightarrow> vec" where
  "vec_rotate_left w n =
     (let l = unat n; r = unat (32 - n) in
      \<lparr>vec_v = [push_bit l (vec_v w ! 0) XOR drop_bit r (vec_v w ! 0),
               push_bit l (vec_v w ! 1) XOR drop_bit r (vec_v w ! 1),
               push_bit l (vec_v w ! 2) XOR drop_bit r (vec_v w ! 2),
               push_bit l (vec_v w ! 3) XOR drop_bit r (vec_v w ! 3)]\<rparr>)"

definition vec_rotate_right :: "vec \<Rightarrow> u32 \<Rightarrow> vec" where
  "vec_rotate_right w n = vec_rotate_left w (32 - n)"

definition vec_shuffle_right :: "vec \<Rightarrow> u32 \<Rightarrow> vec" where
  "vec_shuffle_right w n =
     \<lparr>vec_v = [vec_v w ! unat (n mod 4), vec_v w ! unat ((n + 1) mod 4),
              vec_v w ! unat ((n + 2) mod 4), vec_v w ! unat ((n + 3) mod 4)]\<rparr>"

definition vec_shuffle_left :: "vec \<Rightarrow> u32 \<Rightarrow> vec" where
  "vec_shuffle_left x n = vec_shuffle_right x (4 - n)"

definition vec_load_32x4 :: "u32 \<Rightarrow> u32 \<Rightarrow> u32 \<Rightarrow> u32 \<Rightarrow> vec" where
  "vec_load_32x4 x0 x1 x2 x3 = \<lparr>vec_v = [x0, x1, x2, x3]\<rparr>"

definition vec_load_32 :: "u32 \<Rightarrow> vec" where
  "vec_load_32 x0 = \<lparr>vec_v = [x0, x0, x0, x0]\<rparr>"

definition vec_load_le :: "bytes \<Rightarrow> vec" where
  "vec_load_le inp =
     \<lparr>vec_v = [load32_le inp, load32_le (drop 4 inp), load32_le (drop 8 inp), load32_le (drop 12 inp)]\<rparr>"

definition vec_store_le :: "bytes \<Rightarrow> vec \<Rightarrow> bytes" where
  "vec_store_le out r =
     (let out = store32_le out (vec_v r ! 0);
          out = at_ptr 4 (\<lambda>p. store32_le p (vec_v r ! 1)) out;
          out = at_ptr 8 (\<lambda>p. store32_le p (vec_v r ! 2)) out
      in at_ptr 12 (\<lambda>p. store32_le p (vec_v r ! 3)) out)"

definition vec_load128_le :: "bytes \<Rightarrow> vec" where
  "vec_load128_le inp = vec_load_le inp"

definition vec_add :: "vec \<Rightarrow> vec \<Rightarrow> vec" where
  "vec_add v1 v2 =
     \<lparr>vec_v = [vec_v v1 ! 0 + vec_v v2 ! 0, vec_v v1 ! 1 + vec_v v2 ! 1,
              vec_v v1 ! 2 + vec_v v2 ! 2, vec_v v1 ! 3 + vec_v v2 ! 3]\<rparr>"

definition vec_add_u32 :: "vec \<Rightarrow> u32 \<Rightarrow> vec" where
  "vec_add_u32 v1 x = (let v2 = vec_load_32x4 x 0 0 0 in vec_add v1 v2)"

definition vec_increment :: "vec \<Rightarrow> vec" where
  "vec_increment v1 = (let one = vec_load_32x4 1 0 0 0 in vec_add v1 one)"

definition vec_zero :: vec where
  "vec_zero = vec_load_32x4 0 0 0 0"

section \<open>Vectors and rows of a matrix\<close>

definition row :: "quad \<Rightarrow> vec" where
  "row q = \<lparr>vec_v = quad_list q\<rparr>"

text \<open>A state of 16 words as four vectors.\<close>

definition rows :: "matrix4 \<Rightarrow> vec list" where
  "rows = (\<lambda>(r0, r1, r2, r3). [row r0, row r1, row r2, row r3])"

definition vec_state :: "u32 list \<Rightarrow> vec list" where
  "vec_state ws = rows (list_matrix ws)"

lemma rows_nth [simp]:
  "rows (r0, r1, r2, r3) = [row r0, row r1, row r2, row r3]"
  by (simp add: rows_def)

lemma xor_shifts:
  assumes "0 < k" and "k < 32"
  shows "push_bit k (a :: u32) XOR drop_bit (32 - k) a = word_rotl k a"
proof -
  have "push_bit k a XOR drop_bit (32 - k) a = push_bit k a OR drop_bit (32 - k) a"
  proof (rule bit_word_eqI)
    fix n assume "n < LENGTH(32)"
    moreover from assms have "\<not> bit a (32 - k + n)" if "k \<le> n" using that bit_imp_le_length [of a "32 - k + n"] by auto
    ultimately show "bit (push_bit k a XOR drop_bit (32 - k) a) n = bit (push_bit k a OR drop_bit (32 - k) a) n"
      by (cases "k \<le> n") (simp_all add: bit_simps)
  qed
  also have "\<dots> = word_rotl k a" using assms rotl_shifts [of k a] by simp
  finally show ?thesis .
qed

lemma vec_ops:
  "vec_add (row (a, b, c, d)) (row (a', b', c', d')) = row (a + a', b + b', c + c', d + d')"
  "vec_xor (row (a, b, c, d)) (row (a', b', c', d')) = row (a XOR a', b XOR b', c XOR c', d XOR d')"
  "vec_load_32x4 a b c d = row (a, b, c, d)"
  "vec_increment (row (a, b, c, d)) = row (a + 1, b, c, d)"
  by (simp_all add: row_def vec_add_def vec_xor_def vec_load_32x4_def vec_increment_def)

lemma vec_rotate_row:
  "0 < unat n \<Longrightarrow> unat n < 32 \<Longrightarrow>
   vec_rotate_left (row (a, b, c, d)) n
   = row (word_rotl (unat n) a, word_rotl (unat n) b, word_rotl (unat n) c, word_rotl (unat n) d)"
  by (simp add: row_def vec_rotate_left_def Let_def unat_minus xor_shifts)

lemma vec_shuffle_row:
  "vec_shuffle_right (row q) 1 = row (rot_left q)"
  "vec_shuffle_right (row q) 2 = row (rot_left (rot_left q))"
  "vec_shuffle_right (row q) 3 = row (rot_left (rot_left (rot_left q)))"
  by (cases q; simp add: row_def vec_shuffle_right_def rot_left_def)+

text \<open>Loading and storing.\<close>

lemma vec_load_row: "vec_load_le p = row (list_quad (words_le 4 p))"
  by (simp add: row_def vec_load_le_def list_quad_def words_le_def eval_nat_numeral)

lemma vec_store_row:
  "16 \<le> length out \<Longrightarrow> vec_store_le out (row q) = bytes_le (quad_list q) @ drop 16 out"
  by (cases q) (simp add: row_def vec_store_le_def at_ptr_def store32_le_def bytes_le_def)

section \<open>Sanity of the operations the ciphers do not call\<close>

lemma vec_shuffle_left_right:
  "vec_shuffle_left (vec_shuffle_right (row q) 1) 1 = row q"
  by (cases q) (simp add: row_def vec_shuffle_left_def vec_shuffle_right_def)

lemma vec_rotate_right_left:
  assumes "0 < unat n" and "unat n < 32"
  shows "vec_rotate_right (vec_rotate_left (row q) n) n = row q"
proof -
  have n: "unat (32 - n) = 32 - unat n" using assms by (simp add: unat_minus)
  have "word_rotl (32 - unat n) (word_rotl (unat n) a) = a" for a :: u32
    using assms by (simp add: word_rotl_eq_word_rotr [of "32 - unat n"])
  then show ?thesis
    using assms n by (cases q) (simp add: vec_rotate_right_def vec_rotate_row)
qed

end
