(* ===== verification/Chacha20.thy ===== *)
theory Chacha20
  imports Stream_Cipher
begin

text \<open>
  \<open>Hacl_Chacha20.c\<close>.  The 16-word state is a list of words that every function receives and
  returns; the local buffers are the lists the C code carves out of its stack arrays.  The
  block function is related to the description of RFC 8439 (rows, columns and diagonals of a
  4 by 4 matrix), and the stream to counter mode.
\<close>

section \<open>The code\<close>

definition Hacl_Impl_Chacha20_rotate_left :: "u32 \<Rightarrow> u32 \<Rightarrow> u32" where
  "Hacl_Impl_Chacha20_rotate_left a s = push_bit (unat s) a OR drop_bit (unat (32 - s)) a"

definition Hacl_Impl_Chacha20_quarter_round ::
    "u32 list \<Rightarrow> nat \<Rightarrow> nat \<Rightarrow> nat \<Rightarrow> nat \<Rightarrow> u32 list" where
  "Hacl_Impl_Chacha20_quarter_round st a b c d =
     (let sa = st ! a; sb0 = st ! b; st = st[a := sa + sb0];
          sd = st ! d; sa10 = st ! a; sda = sd XOR sa10;
          st = st[d := Hacl_Impl_Chacha20_rotate_left sda 16];
          sa0 = st ! c; sb1 = st ! d; st = st[c := sa0 + sb1];
          sd0 = st ! b; sa11 = st ! c; sda0 = sd0 XOR sa11;
          st = st[b := Hacl_Impl_Chacha20_rotate_left sda0 12];
          sa2 = st ! a; sb2 = st ! b; st = st[a := sa2 + sb2];
          sd1 = st ! d; sa12 = st ! a; sda1 = sd1 XOR sa12;
          st = st[d := Hacl_Impl_Chacha20_rotate_left sda1 8];
          sa3 = st ! c; sb = st ! d; st = st[c := sa3 + sb];
          sd2 = st ! b; sa1 = st ! c; sda2 = sd2 XOR sa1;
          st = st[b := Hacl_Impl_Chacha20_rotate_left sda2 7]
      in st)"

definition Hacl_Impl_Chacha20_double_round :: "u32 list \<Rightarrow> u32 list" where
  "Hacl_Impl_Chacha20_double_round st =
     (let st = Hacl_Impl_Chacha20_quarter_round st 0 4 8 12;
          st = Hacl_Impl_Chacha20_quarter_round st 1 5 9 13;
          st = Hacl_Impl_Chacha20_quarter_round st 2 6 10 14;
          st = Hacl_Impl_Chacha20_quarter_round st 3 7 11 15;
          st = Hacl_Impl_Chacha20_quarter_round st 0 5 10 15;
          st = Hacl_Impl_Chacha20_quarter_round st 1 6 11 12;
          st = Hacl_Impl_Chacha20_quarter_round st 2 7 8 13;
          st = Hacl_Impl_Chacha20_quarter_round st 3 4 9 14
      in st)"

definition Hacl_Impl_Chacha20_rounds :: "u32 list \<Rightarrow> u32 list" where
  "Hacl_Impl_Chacha20_rounds st = for_loop 0 10 (\<lambda>i st. Hacl_Impl_Chacha20_double_round st) st"

definition Hacl_Impl_Chacha20_sum_states :: "u32 list \<Rightarrow> u32 list \<Rightarrow> u32 list" where
  "Hacl_Impl_Chacha20_sum_states st st' =
     for_loop 0 16 (\<lambda>i st. let xi = st ! i; yi = st' ! i in st[i := xi + yi]) st"

definition Hacl_Impl_Chacha20_copy_state :: "u32 list \<Rightarrow> u32 list \<Rightarrow> u32 list" where
  "Hacl_Impl_Chacha20_copy_state st st' = memcpy st st' 16"

text \<open>Writes \<open>k\<close> and the counter word of \<open>st\<close>; returns both.\<close>

definition Hacl_Impl_Chacha20_chacha20_core :: "u32 list \<Rightarrow> u32 list \<Rightarrow> u32 \<Rightarrow> u32 list \<times> u32 list" where
  "Hacl_Impl_Chacha20_chacha20_core k st ctr =
     (let st = st[12 := ctr];
          k = Hacl_Impl_Chacha20_copy_state k st;
          k = Hacl_Impl_Chacha20_rounds k;
          k = Hacl_Impl_Chacha20_sum_states k st
      in (k, st))"

definition Hacl_Impl_Chacha20_chacha20_block :: "bytes \<Rightarrow> u32 list \<Rightarrow> u32 \<Rightarrow> bytes \<times> u32 list" where
  "Hacl_Impl_Chacha20_chacha20_block stream_block st ctr =
     (let st' = replicate 16 0;
          (st', st) = Hacl_Impl_Chacha20_chacha20_core st' st ctr
      in (Hacl_Lib_LoadStore32_uint32s_to_le_bytes stream_block st' 16, st))"

definition Hacl_Impl_Chacha20_init :: "u32 list \<Rightarrow> bytes \<Rightarrow> bytes \<Rightarrow> u32 list" where
  "Hacl_Impl_Chacha20_init st k n1 =
     (let st = st[0 := 0x61707865];
          st = st[1 := 0x3320646e];
          st = st[2 := 0x79622d32];
          st = st[3 := 0x6b206574];
          st = at_ptr 4 (\<lambda>stk. Hacl_Lib_LoadStore32_uint32s_from_le_bytes stk k 8) st;
          st = at_ptr 12 (\<lambda>stc. stc[0 := 0]) st;
          st = at_ptr 13 (\<lambda>stn. Hacl_Lib_LoadStore32_uint32s_from_le_bytes stn n1 3) st
      in st)"

definition Hacl_Impl_Chacha20_update :: "bytes \<Rightarrow> bytes \<Rightarrow> u32 list \<Rightarrow> u32 \<Rightarrow> bytes \<times> u32 list" where
  "Hacl_Impl_Chacha20_update output plain st ctr =
     (let k = replicate 16 0; ib = replicate 16 0; ob = replicate 16 0;
          (k, st) = Hacl_Impl_Chacha20_chacha20_core k st ctr;
          ib = Hacl_Lib_LoadStore32_uint32s_from_le_bytes ib plain 16;
          ob = for_loop 0 16 (\<lambda>i ob. let xi = ib ! i; yi = k ! i in ob[i := xi XOR yi]) ob
      in (Hacl_Lib_LoadStore32_uint32s_to_le_bytes output ob 16, st))"

definition Hacl_Impl_Chacha20_update_last ::
    "bytes \<Rightarrow> bytes \<Rightarrow> u32 \<Rightarrow> u32 list \<Rightarrow> u32 \<Rightarrow> bytes \<times> u32 list" where
  "Hacl_Impl_Chacha20_update_last output plain len st ctr =
     (let block = replicate 64 0;
          (block, st) = Hacl_Impl_Chacha20_chacha20_block block st ctr;
          mask = block;
          output = for_loop 0 (unat len)
                     (\<lambda>i output. let xi = plain ! i; yi = mask ! i in output[i := xi XOR yi]) output
      in (output, st))"

definition Hacl_Impl_Chacha20_chacha20_counter_mode_blocks ::
    "bytes \<Rightarrow> bytes \<Rightarrow> u32 \<Rightarrow> u32 list \<Rightarrow> u32 \<Rightarrow> bytes \<times> u32 list" where
  "Hacl_Impl_Chacha20_chacha20_counter_mode_blocks output plain num_blocks st ctr =
     for_loop 0 (unat num_blocks)
       (\<lambda>i. at_ptr_st (off32 64 i)
              (\<lambda>o' st. Hacl_Impl_Chacha20_update o' (drop (off32 64 i) plain) st (ctr + word_of_nat i)))
       (output, st)"

definition Hacl_Impl_Chacha20_chacha20_counter_mode ::
    "bytes \<Rightarrow> bytes \<Rightarrow> u32 \<Rightarrow> u32 list \<Rightarrow> u32 \<Rightarrow> bytes \<times> u32 list" where
  "Hacl_Impl_Chacha20_chacha20_counter_mode output plain len st ctr =
     (let blocks_len = drop_bit 6 len;
          part_len = len AND 0x3f;
          off = unat (64 * blocks_len);
          (output, st) =
            Hacl_Impl_Chacha20_chacha20_counter_mode_blocks output plain blocks_len st ctr
      in if part_len > 0
         then at_ptr_st off (\<lambda>o' st. Hacl_Impl_Chacha20_update_last o' (drop off plain) part_len st
                                        (ctr + blocks_len)) (output, st)
         else (output, st))"

definition Hacl_Impl_Chacha20_chacha20 ::
    "bytes \<Rightarrow> bytes \<Rightarrow> u32 \<Rightarrow> bytes \<Rightarrow> bytes \<Rightarrow> u32 \<Rightarrow> bytes" where
  "Hacl_Impl_Chacha20_chacha20 output plain len k n1 ctr =
     (let st = replicate 16 0;
          st = Hacl_Impl_Chacha20_init st k n1;
          (output, st) = Hacl_Impl_Chacha20_chacha20_counter_mode output plain len st ctr
      in output)"

definition Hacl_Chacha20_chacha20_key_block :: "bytes \<Rightarrow> bytes \<Rightarrow> bytes \<Rightarrow> u32 \<Rightarrow> bytes" where
  "Hacl_Chacha20_chacha20_key_block block k n1 ctr =
     (let st = replicate 16 0;
          st = Hacl_Impl_Chacha20_init st k n1;
          (block, st) = Hacl_Impl_Chacha20_chacha20_block block st ctr
      in block)"

definition Hacl_Chacha20_chacha20 :: "bytes \<Rightarrow> bytes \<Rightarrow> u32 \<Rightarrow> bytes \<Rightarrow> bytes \<Rightarrow> u32 \<Rightarrow> bytes" where
  "Hacl_Chacha20_chacha20 output plain len k n1 ctr =
     Hacl_Impl_Chacha20_chacha20 output plain len k n1 ctr"

section \<open>The description of RFC 8439\<close>

definition chacha_qr :: "quad \<Rightarrow> quad" where
  "chacha_qr = (\<lambda>(a, b, c, d).
     let a = a + b; d = word_rotl 16 (d XOR a);
         c = c + d; b = word_rotl 12 (b XOR c);
         a = a + b; d = word_rotl 8 (d XOR a);
         c = c + d; b = word_rotl 7 (b XOR c)
     in (a, b, c, d))"

text \<open>A column round applies the quarter round down the columns.\<close>

definition column_round :: "matrix4 \<Rightarrow> matrix4" where
  "column_round = (\<lambda>(r0, r1, r2, r3).
     case columns r0 r1 r2 r3 of (c0, c1, c2, c3) \<Rightarrow>
       columns (chacha_qr c0) (chacha_qr c1) (chacha_qr c2) (chacha_qr c3))"

text \<open>Rotating row \<open>i\<close> left by \<open>i\<close> moves the diagonals into the columns.\<close>

definition diagonal_round :: "matrix4 \<Rightarrow> matrix4" where
  "diagonal_round = (\<lambda>(r0, r1, r2, r3).
     case column_round (r0, rot_left r1, rot_left (rot_left r2), rot_left (rot_left (rot_left r3))) of
       (s0, s1, s2, s3) \<Rightarrow>
         (s0, rot_left (rot_left (rot_left s1)), rot_left (rot_left s2), rot_left s3))"

definition chacha_inner_block :: "matrix4 \<Rightarrow> matrix4" where
  "chacha_inner_block m = diagonal_round (column_round m)"

text \<open>The initial matrix of a key, counter and nonce, and the serialised block.\<close>

definition chacha_state :: "bytes \<Rightarrow> bytes \<Rightarrow> u32 \<Rightarrow> u32 list" where
  "chacha_state key nonce ctr =
     [0x61707865, 0x3320646e, 0x79622d32, 0x6b206574] @ words_le 8 key @ [ctr] @ words_le 3 nonce"

definition chacha_words :: "u32 list \<Rightarrow> u32 list" where
  "chacha_words s = map2 (+) (matrix_list ((chacha_inner_block ^^ 10) (list_matrix s))) s"

definition chacha20_block_spec :: "bytes \<Rightarrow> bytes \<Rightarrow> u32 \<Rightarrow> bytes" where
  "chacha20_block_spec key nonce ctr = bytes_le (chacha_words (chacha_state key nonce ctr))"

section \<open>The block function refines the RFC\<close>

lemma rotate_left_rotl:
  "unat s < 32 \<Longrightarrow> Hacl_Impl_Chacha20_rotate_left a s = word_rotl (unat s) a"
  by (simp add: Hacl_Impl_Chacha20_rotate_left_def unat_minus rotl_shifts)

lemma chacha_quarter_round_eq:
  assumes "distinct [a, b, c, d]" and "a < length st" "b < length st" "c < length st" "d < length st"
    and "chacha_qr (st ! a, st ! b, st ! c, st ! d) = (qa, qb, qc, qd)"
  shows "Hacl_Impl_Chacha20_quarter_round st a b c d = st[a := qa, b := qb, c := qc, d := qd]"
proof (rule nth_equalityI)
  fix i assume "i < length (Hacl_Impl_Chacha20_quarter_round st a b c d)"
  then have "i < length st"
    by (simp add: Hacl_Impl_Chacha20_quarter_round_def Let_def)
  with assms show "Hacl_Impl_Chacha20_quarter_round st a b c d ! i
                   = st[a := qa, b := qb, c := qc, d := qd] ! i"
    by (auto simp: Hacl_Impl_Chacha20_quarter_round_def chacha_qr_def Let_def rotate_left_rotl
          nth_list_update cong: let_weak_cong)
qed (simp add: Hacl_Impl_Chacha20_quarter_round_def Let_def)

lemma chacha_column_rounds_eq:
  "(let st = Hacl_Impl_Chacha20_quarter_round (matrix_list m) 0 4 8 12;
        st = Hacl_Impl_Chacha20_quarter_round st 1 5 9 13;
        st = Hacl_Impl_Chacha20_quarter_round st 2 6 10 14
    in Hacl_Impl_Chacha20_quarter_round st 3 7 11 15) = matrix_list (column_round m)"
proof -
  obtain x0 x1 x2 x3 x4 x5 x6 x7 x8 x9 x10 x11 x12 x13 x14 x15 where
    m: "m = ((x0, x1, x2, x3), (x4, x5, x6, x7), (x8, x9, x10, x11), (x12, x13, x14, x15))"
    by (metis prod_cases4)
  obtain y0 y4 y8 y12 where q0: "chacha_qr (x0, x4, x8, x12) = (y0, y4, y8, y12)" by (metis prod_cases4)
  obtain y1 y5 y9 y13 where q1: "chacha_qr (x1, x5, x9, x13) = (y1, y5, y9, y13)" by (metis prod_cases4)
  obtain y2 y6 y10 y14 where q2: "chacha_qr (x2, x6, x10, x14) = (y2, y6, y10, y14)" by (metis prod_cases4)
  obtain y3 y7 y11 y15 where q3: "chacha_qr (x3, x7, x11, x15) = (y3, y7, y11, y15)" by (metis prod_cases4)
  show ?thesis
    by (simp add: m matrix_list_def column_round_def columns_def q0 q1 q2 q3 Let_def chacha_quarter_round_eq)
qed

lemma diagonal_rounds_eq:
  "(let st = Hacl_Impl_Chacha20_quarter_round (matrix_list m) 0 5 10 15;
        st = Hacl_Impl_Chacha20_quarter_round st 1 6 11 12;
        st = Hacl_Impl_Chacha20_quarter_round st 2 7 8 13
    in Hacl_Impl_Chacha20_quarter_round st 3 4 9 14) = matrix_list (diagonal_round m)"
proof -
  obtain x0 x1 x2 x3 x4 x5 x6 x7 x8 x9 x10 x11 x12 x13 x14 x15 where
    m: "m = ((x0, x1, x2, x3), (x4, x5, x6, x7), (x8, x9, x10, x11), (x12, x13, x14, x15))"
    by (metis prod_cases4)
  obtain y0 y5 y10 y15 where q0: "chacha_qr (x0, x5, x10, x15) = (y0, y5, y10, y15)" by (metis prod_cases4)
  obtain y1 y6 y11 y12 where q1: "chacha_qr (x1, x6, x11, x12) = (y1, y6, y11, y12)" by (metis prod_cases4)
  obtain y2 y7 y8 y13 where q2: "chacha_qr (x2, x7, x8, x13) = (y2, y7, y8, y13)" by (metis prod_cases4)
  obtain y3 y4 y9 y14 where q3: "chacha_qr (x3, x4, x9, x14) = (y3, y4, y9, y14)" by (metis prod_cases4)
  show ?thesis
    by (simp add: m matrix_list_def diagonal_round_def rot_left_def column_round_def columns_def
          q0 q1 q2 q3 Let_def chacha_quarter_round_eq)
qed

lemma chacha_double_round_eq:
  "Hacl_Impl_Chacha20_double_round (matrix_list m) = matrix_list (chacha_inner_block m)"
  using chacha_column_rounds_eq [of m] diagonal_rounds_eq [of "column_round m"]
  by (simp add: Hacl_Impl_Chacha20_double_round_def chacha_inner_block_def Let_def)

lemma chacha_rounds_eq:
  "Hacl_Impl_Chacha20_rounds (matrix_list m) = matrix_list ((chacha_inner_block ^^ 10) m)"
proof -
  have "for_loop 0 n (\<lambda>i. Hacl_Impl_Chacha20_double_round) (matrix_list m)
        = matrix_list ((chacha_inner_block ^^ n) m)" for n
    by (induction n) (simp_all add: for_loop_Suc chacha_double_round_eq)
  then show ?thesis by (simp add: Hacl_Impl_Chacha20_rounds_def)
qed

lemma sum_states_eq:
  "length k = 16 \<Longrightarrow> length st = 16 \<Longrightarrow> Hacl_Impl_Chacha20_sum_states k st = map2 (+) k st"
  unfolding Hacl_Impl_Chacha20_sum_states_def by (rule add_words_loop)

lemma chacha_core_eq:
  assumes "length k = 16" and "length st = 16"
  shows "Hacl_Impl_Chacha20_chacha20_core k st ctr = (chacha_words (st[12 := ctr]), st[12 := ctr])"
proof -
  have "Hacl_Impl_Chacha20_copy_state k (st[12 := ctr]) = matrix_list (list_matrix (st[12 := ctr]))"
    using assms by (simp add: Hacl_Impl_Chacha20_copy_state_def memcpy_all matrix_list_inv)
  then show ?thesis
    using assms
    by (simp add: Hacl_Impl_Chacha20_chacha20_core_def Let_def chacha_rounds_eq sum_states_eq chacha_words_def)
qed

lemma length_chacha_words [simp]: "length st = 16 \<Longrightarrow> length (chacha_words st) = 16"
  by (simp add: chacha_words_def)

definition chacha_blk :: "u32 list \<Rightarrow> u32 \<Rightarrow> bytes" where
  "chacha_blk st c = bytes_le (chacha_words (st[12 := c]))"

lemma chacha_block_eq:
  "length st = 16 \<Longrightarrow> 64 \<le> length out \<Longrightarrow>
   Hacl_Impl_Chacha20_chacha20_block out st ctr = (chacha_blk st ctr @ drop 64 out, st[12 := ctr])"
  by (simp add: Hacl_Impl_Chacha20_chacha20_block_def Let_def chacha_core_eq buf chacha_blk_def)

lemma chacha_init_eq:
  "length st = 16 \<Longrightarrow> Hacl_Impl_Chacha20_init st k n1 = chacha_state k n1 0"
  by (erule list16E)
     (simp add: Hacl_Impl_Chacha20_init_def Let_def at_ptr_def buf chacha_state_def)

lemma length_chacha_state [simp]: "length (chacha_state k n1 c) = 16"
  by (simp add: chacha_state_def)

lemma chacha_blk_state [simp]: "chacha_blk (chacha_state k n1 c) = chacha20_block_spec k n1"
  by (rule ext) (simp add: chacha_blk_def chacha20_block_spec_def chacha_state_def list_update_append)

lemma chacha_length_block_spec [simp]: "length (chacha20_block_spec k n1 c) = 64"
  by (simp add: chacha20_block_spec_def)

lemma chacha_update_eq:
  assumes "length st = 16" and "64 \<le> length out" and "64 \<le> length p"
  shows "Hacl_Impl_Chacha20_update out p st c
         = (xor_bytes (take 64 p) (chacha_blk st c) @ drop 64 out, st[12 := c])"
proof -
  let ?w = "chacha_words (st[12 := c])"
  have l: "length ?w = 16" using assms by simp
  have "bytes_le (map2 (XOR) (words_le 16 p) ?w) = xor_bytes (take 64 p) (chacha_blk st c)"
    using l assms(3) bytes_words_le [of 16 p] by (simp add: bytes_le_xor chacha_blk_def)
  then show ?thesis
    using assms l xor_words_loop [of "replicate 16 0" 16 "words_le 16 p" ?w]
    by (simp add: Hacl_Impl_Chacha20_update_def Let_def chacha_core_eq buf)
qed

lemma chacha_update_last_eq:
  assumes "length st = 16" and "unat len \<le> 64" and "unat len \<le> length out" and "unat len \<le> length p"
  shows "Hacl_Impl_Chacha20_update_last out p len st c
         = (xor_bytes (take (unat len) p) (take (unat len) (chacha_blk st c)) @ drop (unat len) out,
            st[12 := c])"
proof -
  have "length (chacha_blk st c) = 64" using assms(1) by (simp add: chacha_blk_def)
  with assms show ?thesis
    using xor_loop [of "unat len" out p "chacha_blk st c"]
    by (simp add: Hacl_Impl_Chacha20_update_last_def chacha_block_eq)
qed

section \<open>The stream is counter mode\<close>

lemma update_length: "length st = 16 \<Longrightarrow> length (snd (Hacl_Impl_Chacha20_update out p st c)) = 16"
  by (simp add: Hacl_Impl_Chacha20_update_def chacha_core_eq)

lemma update_blk:
  "length st = 16 \<Longrightarrow> chacha_blk (snd (Hacl_Impl_Chacha20_update out p st c)) = chacha_blk st"
  by (rule ext) (simp add: Hacl_Impl_Chacha20_update_def chacha_core_eq chacha_blk_def)

interpretation chacha: counter_cipher chacha_blk "\<lambda>st. length st = 16"
    Hacl_Impl_Chacha20_update Hacl_Impl_Chacha20_update_last
  by unfold_locales
     (simp_all add: chacha_update_eq chacha_update_last_eq update_length update_blk, simp_all add: chacha_blk_def)

lemma chacha20_eq:
  assumes "unat len \<le> length out" and "unat len \<le> length m"
  shows "Hacl_Chacha20_chacha20 out m len k n ctr
         = ctr_encrypt (chacha20_block_spec k n) ctr (take (unat len) m) @ drop (unat len) out"
proof -
  have "fst (Hacl_Impl_Chacha20_chacha20_counter_mode out m len (chacha_state k n 0) ctr)
        = ctr_encrypt (chacha20_block_spec k n) ctr (take (unat len) m) @ drop (unat len) out"
    unfolding chacha_blk_state [of k n 0, symmetric]
    by (rule chacha.counter_mode [OF _ assms])
       (simp_all add: Hacl_Impl_Chacha20_chacha20_counter_mode_def
          Hacl_Impl_Chacha20_chacha20_counter_mode_blocks_def Let_def)
  then show ?thesis
    by (simp add: Hacl_Chacha20_chacha20_def Hacl_Impl_Chacha20_chacha20_def chacha_init_eq split_beta)
qed

lemma key_block_eq:
  "64 \<le> length out \<Longrightarrow>
   Hacl_Chacha20_chacha20_key_block out k n ctr = chacha20_block_spec k n ctr @ drop 64 out"
  by (simp add: Hacl_Chacha20_chacha20_key_block_def chacha_init_eq chacha_block_eq)

text \<open>
  The key block the code writes is the ChaCha20 block of RFC 8439 for that key, nonce and
  counter, written to the first 64 bytes of the buffer; the rest is untouched.
\<close>

theorem chacha20_block_refines:
  assumes "64 \<le> length out"
  shows "Hacl_Chacha20_chacha20_key_block out k n ctr = chacha20_block_spec k n ctr @ drop 64 out"
  using assms by (rule key_block_eq)

theorem chacha20_block_refines_witness:
  "Hacl_Chacha20_chacha20_key_block (replicate 65 9) (replicate 32 1) (replicate 12 2) 3
   = chacha20_block_spec (replicate 32 1) (replicate 12 2) 3 @ [9]"
  using chacha20_block_refines [of "replicate 65 9" "replicate 32 1" "replicate 12 2" 3]
  by (simp add: drop_replicate)

text \<open>
  C36: Encryption writes the exclusive or of the first \<open>len\<close> bytes of the message with the key
  stream of the RFC's blocks \<open>ctr, ctr + 1, ...\<close> (the counter wraps at 32 bits), and nothing
  else, for every length including partial last blocks.
\<close>

theorem chacha20_counter_mode:
  assumes "unat len \<le> length out" and "unat len \<le> length m"
  shows "Hacl_Chacha20_chacha20 out m len k n ctr
         = ctr_encrypt (chacha20_block_spec k n) ctr (take (unat len) m) @ drop (unat len) out"
  using assms by (rule chacha20_eq)

theorem chacha20_counter_mode_witness:
  "Hacl_Chacha20_chacha20 [0, 0, 5] [1, 2] 2 (replicate 32 3) (replicate 12 4) 1
   = ctr_encrypt (chacha20_block_spec (replicate 32 3) (replicate 12 4)) 1 [1, 2] @ [5]"
  using chacha20_counter_mode [of 2 "[0, 0, 5]" "[1, 2]" "replicate 32 3" "replicate 12 4" 1] by simp

text \<open>
  Running the cipher over its own output with the same key, nonce and counter gives the
  message back, and an encryption started at block \<open>j\<close> continues the one started at
  \<open>ctr\<close>: the output from byte \<open>64 * j\<close> on is the encryption of the rest with
  counter \<open>ctr + j\<close>.
\<close>

theorem chacha20_decrypts:
  assumes "unat len = length m" and "length m = length out" and "length m = length out'"
    and "unat len' = length (drop (64 * j) m)" and "length (drop (64 * j) m) = length out''"
    and "64 * j \<le> length m"
  shows "Hacl_Chacha20_chacha20 out' (Hacl_Chacha20_chacha20 out m len k n ctr) len k n ctr = m
         \<and> drop (64 * j) (Hacl_Chacha20_chacha20 out m len k n ctr)
           = Hacl_Chacha20_chacha20 out'' (drop (64 * j) m) len' k n (ctr + word_of_nat j)"
proof -
  have "Hacl_Chacha20_chacha20 out m len k n ctr = ctr_encrypt (chacha20_block_spec k n) ctr m"
    using assms by (subst chacha20_eq) simp_all
  moreover have "drop (64 * j) (ctr_encrypt (chacha20_block_spec k n) ctr m)
      = ctr_encrypt (chacha20_block_spec k n) (ctr + word_of_nat j) (drop (64 * j) m)"
    using assms by (subst ctr_encrypt_seek [of _ j]) simp_all
  ultimately show ?thesis
    using assms by (simp add: chacha20_eq ctr_encrypt_twice)
qed

theorem chacha20_decrypts_witness:
  "Hacl_Chacha20_chacha20 (replicate 65 0)
     (Hacl_Chacha20_chacha20 (replicate 65 0) (replicate 65 7) 65 [] [] 0) 65 [] [] 0 = replicate 65 7
   \<and> drop 64 (Hacl_Chacha20_chacha20 (replicate 65 0) (replicate 65 7) 65 [] [] 0)
     = Hacl_Chacha20_chacha20 [0] [7] 1 [] [] 1"
  using chacha20_decrypts [of 65 "replicate 65 7" "replicate 65 0" "replicate 65 0" 1 1 "[0]" "[]" "[]" 0]
  by (simp add: drop_replicate)

end
