(* ===== verification/Chacha20_Vec128.thy ===== *)
theory Chacha20_Vec128
  imports Vec128 Chacha20
begin

text \<open>
  \<open>Hacl_Chacha20_Vec128.c\<close>: ChaCha20 on vectors of four words, a row of the matrix in each, that
  works on three blocks at a time and keeps the block counter in the state.  The state is a list
  of four vectors; a function that changes several buffers returns them in the order of its
  arguments.  The theory ends with the proof that the cipher is the scalar one of \<open>Chacha20\<close>.
\<close>

section \<open>The code\<close>

definition Hacl_Impl_Chacha20_Vec128_State_state_incr :: "vec list \<Rightarrow> vec list" where
  "Hacl_Impl_Chacha20_Vec128_State_state_incr k = (let k3 = k ! 3 in k[3 := vec_increment k3])"

definition Hacl_Impl_Chacha20_Vec128_State_state_to_key_block :: "bytes \<Rightarrow> vec list \<Rightarrow> bytes" where
  "Hacl_Impl_Chacha20_Vec128_State_state_to_key_block stream_block k =
     (let k0 = k ! 0; k1 = k ! 1; k2 = k ! 2; k3 = k ! 3;
          stream_block = vec_store_le stream_block k0;
          stream_block = at_ptr 16 (\<lambda>b. vec_store_le b k1) stream_block;
          stream_block = at_ptr 32 (\<lambda>c. vec_store_le c k2) stream_block
      in at_ptr 48 (\<lambda>d. vec_store_le d k3) stream_block)"

definition Hacl_Impl_Chacha20_Vec128_State_state_setup :: "vec list \<Rightarrow> bytes \<Rightarrow> bytes \<Rightarrow> u32 \<Rightarrow> vec list" where
  "Hacl_Impl_Chacha20_Vec128_State_state_setup st k n1 c =
     (let st = st[0 := vec_load_32x4 0x61707865 0x3320646e 0x79622d32 0x6b206574];
          k0 = vec_load128_le k;
          k1 = vec_load128_le (drop 16 k);
          st = st[1 := k0];
          st = st[2 := k1];
          n0 = load32_le n1;
          x00 = drop 4 n1;
          n10 = load32_le x00;
          x0 = drop 8 n1;
          n2 = load32_le x0;
          v1 = vec_load_32x4 c n0 n10 n2
      in st[3 := v1])"

definition Hacl_Impl_Chacha20_Vec128_round :: "vec list \<Rightarrow> vec list" where
  "Hacl_Impl_Chacha20_Vec128_round st =
     (let sa = st ! 0; sb0 = st ! 1; sd0 = st ! 3;
          sa10 = vec_add sa sb0;
          sd10 = vec_rotate_left (vec_xor sd0 sa10) 16;
          st = st[0 := sa10]; st = st[3 := sd10];
          sa0 = st ! 2; sb1 = st ! 3; sd2 = st ! 1;
          sa11 = vec_add sa0 sb1;
          sd11 = vec_rotate_left (vec_xor sd2 sa11) 12;
          st = st[2 := sa11]; st = st[1 := sd11];
          sa2 = st ! 0; sb2 = st ! 1; sd3 = st ! 3;
          sa12 = vec_add sa2 sb2;
          sd12 = vec_rotate_left (vec_xor sd3 sa12) 8;
          st = st[0 := sa12]; st = st[3 := sd12];
          sa3 = st ! 2; sb = st ! 3; sd = st ! 1;
          sa1 = vec_add sa3 sb;
          sd1 = vec_rotate_left (vec_xor sd sa1) 7;
          st = st[2 := sa1]; st = st[1 := sd1]
      in st)"

definition Hacl_Impl_Chacha20_Vec128_double_round :: "vec list \<Rightarrow> vec list" where
  "Hacl_Impl_Chacha20_Vec128_double_round st =
     (let st = Hacl_Impl_Chacha20_Vec128_round st;
          r1 = st ! 1; r20 = st ! 2; r30 = st ! 3;
          st = st[1 := vec_shuffle_right r1 1];
          st = st[2 := vec_shuffle_right r20 2];
          st = st[3 := vec_shuffle_right r30 3];
          st = Hacl_Impl_Chacha20_Vec128_round st;
          r10 = st ! 1; r2 = st ! 2; r3 = st ! 3;
          st = st[1 := vec_shuffle_right r10 3];
          st = st[2 := vec_shuffle_right r2 2];
          st = st[3 := vec_shuffle_right r3 1]
      in st)"

definition Hacl_Impl_Chacha20_Vec128_double_round3 ::
    "vec list \<Rightarrow> vec list \<Rightarrow> vec list \<Rightarrow> vec list \<times> vec list \<times> vec list" where
  "Hacl_Impl_Chacha20_Vec128_double_round3 st st' st'' =
     (let st = Hacl_Impl_Chacha20_Vec128_double_round st;
          st' = Hacl_Impl_Chacha20_Vec128_double_round st';
          st'' = Hacl_Impl_Chacha20_Vec128_double_round st''
      in (st, st', st''))"

definition Hacl_Impl_Chacha20_Vec128_sum_states :: "vec list \<Rightarrow> vec list \<Rightarrow> vec list" where
  "Hacl_Impl_Chacha20_Vec128_sum_states st' st =
     (let s0 = st ! 0; s1 = st ! 1; s2 = st ! 2; s3 = st ! 3;
          s0' = st' ! 0; s1' = st' ! 1; s2' = st' ! 2; s3' = st' ! 3;
          st' = st'[0 := vec_add s0' s0];
          st' = st'[1 := vec_add s1' s1];
          st' = st'[2 := vec_add s2' s2];
          st' = st'[3 := vec_add s3' s3]
      in st')"

definition Hacl_Impl_Chacha20_Vec128_copy_state :: "vec list \<Rightarrow> vec list \<Rightarrow> vec list" where
  "Hacl_Impl_Chacha20_Vec128_copy_state st' st =
     (let st0 = st ! 0; st1 = st ! 1; st2 = st ! 2; st3 = st ! 3;
          st' = st'[0 := st0]; st' = st'[1 := st1]; st' = st'[2 := st2]; st' = st'[3 := st3]
      in st')"

definition Hacl_Impl_Chacha20_Vec128_chacha20_core :: "vec list \<Rightarrow> vec list \<Rightarrow> vec list" where
  "Hacl_Impl_Chacha20_Vec128_chacha20_core k st =
     (let k = Hacl_Impl_Chacha20_Vec128_copy_state k st;
          k = for_loop 0 10 (\<lambda>i k. Hacl_Impl_Chacha20_Vec128_double_round k) k
      in Hacl_Impl_Chacha20_Vec128_sum_states k st)"

definition Hacl_Impl_Chacha20_Vec128_state_incr :: "vec list \<Rightarrow> vec list" where
  "Hacl_Impl_Chacha20_Vec128_state_incr st = Hacl_Impl_Chacha20_Vec128_State_state_incr st"

definition Hacl_Impl_Chacha20_Vec128_chacha20_incr3 ::
    "vec list \<Rightarrow> vec list \<Rightarrow> vec list \<Rightarrow> vec list \<Rightarrow> vec list \<times> vec list \<times> vec list" where
  "Hacl_Impl_Chacha20_Vec128_chacha20_incr3 k0 k1 k2 st =
     (let k0 = Hacl_Impl_Chacha20_Vec128_copy_state k0 st;
          k1 = Hacl_Impl_Chacha20_Vec128_copy_state k1 st;
          k1 = Hacl_Impl_Chacha20_Vec128_state_incr k1;
          k2 = Hacl_Impl_Chacha20_Vec128_copy_state k2 k1;
          k2 = Hacl_Impl_Chacha20_Vec128_state_incr k2
      in (k0, k1, k2))"

definition Hacl_Impl_Chacha20_Vec128_chacha20_sum3 ::
    "vec list \<Rightarrow> vec list \<Rightarrow> vec list \<Rightarrow> vec list \<Rightarrow> vec list \<times> vec list \<times> vec list \<times> vec list" where
  "Hacl_Impl_Chacha20_Vec128_chacha20_sum3 k0 k1 k2 st =
     (let k0 = Hacl_Impl_Chacha20_Vec128_sum_states k0 st;
          st = Hacl_Impl_Chacha20_Vec128_state_incr st;
          k1 = Hacl_Impl_Chacha20_Vec128_sum_states k1 st;
          st = Hacl_Impl_Chacha20_Vec128_state_incr st;
          k2 = Hacl_Impl_Chacha20_Vec128_sum_states k2 st
      in (k0, k1, k2, st))"

definition Hacl_Impl_Chacha20_Vec128_chacha20_core3 ::
    "vec list \<Rightarrow> vec list \<Rightarrow> vec list \<Rightarrow> vec list \<Rightarrow> vec list \<times> vec list \<times> vec list \<times> vec list" where
  "Hacl_Impl_Chacha20_Vec128_chacha20_core3 k0 k1 k2 st =
     (let (k0, k1, k2) = Hacl_Impl_Chacha20_Vec128_chacha20_incr3 k0 k1 k2 st;
          (k0, k1, k2) = for_loop 0 10
            (\<lambda>i (k0, k1, k2). Hacl_Impl_Chacha20_Vec128_double_round3 k0 k1 k2) (k0, k1, k2)
      in Hacl_Impl_Chacha20_Vec128_chacha20_sum3 k0 k1 k2 st)"

definition Hacl_Impl_Chacha20_Vec128_chacha20_block :: "bytes \<Rightarrow> vec list \<Rightarrow> bytes" where
  "Hacl_Impl_Chacha20_Vec128_chacha20_block stream_block st =
     (let k = replicate 4 vec_zero;
          k = Hacl_Impl_Chacha20_Vec128_chacha20_core k st
      in Hacl_Impl_Chacha20_Vec128_State_state_to_key_block stream_block k)"

definition Hacl_Impl_Chacha20_Vec128_init :: "vec list \<Rightarrow> bytes \<Rightarrow> bytes \<Rightarrow> u32 \<Rightarrow> vec list" where
  "Hacl_Impl_Chacha20_Vec128_init st k n1 ctr = Hacl_Impl_Chacha20_Vec128_State_state_setup st k n1 ctr"

definition Hacl_Impl_Chacha20_Vec128_update_last :: "bytes \<Rightarrow> bytes \<Rightarrow> u32 \<Rightarrow> vec list \<Rightarrow> bytes" where
  "Hacl_Impl_Chacha20_Vec128_update_last output plain len st =
     (let block = replicate 64 0;
          block = Hacl_Impl_Chacha20_Vec128_chacha20_block block st;
          mask' = block
      in for_loop 0 (unat len)
           (\<lambda>i output. let xi = plain ! i; yi = mask' ! i in output[i := xi XOR yi]) output)"

definition Hacl_Impl_Chacha20_Vec128_xor_block :: "bytes \<Rightarrow> bytes \<Rightarrow> vec list \<Rightarrow> bytes" where
  "Hacl_Impl_Chacha20_Vec128_xor_block output plain st =
     (let p0 = vec_load_le plain;
          p1 = vec_load_le (drop 16 plain);
          p2 = vec_load_le (drop 32 plain);
          p3 = vec_load_le (drop 48 plain);
          k0 = st ! 0; k1 = st ! 1; k2 = st ! 2; k3 = st ! 3;
          o00 = vec_xor p0 k0; o10 = vec_xor p1 k1; o20 = vec_xor p2 k2; o30 = vec_xor p3 k3;
          output = vec_store_le output o00;
          output = at_ptr 16 (\<lambda>o1. vec_store_le o1 o10) output;
          output = at_ptr 32 (\<lambda>o2. vec_store_le o2 o20) output
      in at_ptr 48 (\<lambda>o3. vec_store_le o3 o30) output)"

definition Hacl_Impl_Chacha20_Vec128_update :: "bytes \<Rightarrow> bytes \<Rightarrow> vec list \<Rightarrow> bytes" where
  "Hacl_Impl_Chacha20_Vec128_update output plain st =
     (let k = replicate 4 vec_zero;
          k = Hacl_Impl_Chacha20_Vec128_chacha20_core k st
      in Hacl_Impl_Chacha20_Vec128_xor_block output plain k)"

definition Hacl_Impl_Chacha20_Vec128_update3 :: "bytes \<Rightarrow> bytes \<Rightarrow> vec list \<Rightarrow> bytes \<times> vec list" where
  "Hacl_Impl_Chacha20_Vec128_update3 output plain st =
     (let k0 = replicate 4 vec_zero;
          k1 = replicate 4 vec_zero;
          k2 = replicate 4 vec_zero;
          (k0, k1, k2, st) = Hacl_Impl_Chacha20_Vec128_chacha20_core3 k0 k1 k2 st;
          p0 = plain;
          p1 = drop 64 plain;
          p2 = drop 128 plain;
          output = Hacl_Impl_Chacha20_Vec128_xor_block output p0 k0;
          output = at_ptr 64 (\<lambda>o1. Hacl_Impl_Chacha20_Vec128_xor_block o1 p1 k1) output;
          output = at_ptr 128 (\<lambda>o2. Hacl_Impl_Chacha20_Vec128_xor_block o2 p2 k2) output
      in (output, st))"

definition Hacl_Impl_Chacha20_Vec128_update3' ::
    "bytes \<Rightarrow> bytes \<Rightarrow> u32 \<Rightarrow> vec list \<Rightarrow> u32 \<Rightarrow> bytes \<times> vec list" where
  "Hacl_Impl_Chacha20_Vec128_update3' output plain len st i =
     (let off = unat (192 * i);
          plain_block = drop off plain;
          (output, st) = at_ptr_st off
            (\<lambda>out_block st. Hacl_Impl_Chacha20_Vec128_update3 out_block plain_block st) (output, st);
          st = Hacl_Impl_Chacha20_Vec128_state_incr st
      in (output, st))"

definition Hacl_Impl_Chacha20_Vec128_chacha20_counter_mode_blocks3 ::
    "bytes \<Rightarrow> bytes \<Rightarrow> u32 \<Rightarrow> vec list \<Rightarrow> bytes \<times> vec list" where
  "Hacl_Impl_Chacha20_Vec128_chacha20_counter_mode_blocks3 output plain len st =
     for_loop 0 (unat len)
       (\<lambda>i (output, st). Hacl_Impl_Chacha20_Vec128_update3' output plain len st (word_of_nat i))
       (output, st)"

definition Hacl_Impl_Chacha20_Vec128_chacha20_counter_mode_blocks ::
    "bytes \<Rightarrow> bytes \<Rightarrow> u32 \<Rightarrow> vec list \<Rightarrow> bytes \<times> vec list" where
  "Hacl_Impl_Chacha20_Vec128_chacha20_counter_mode_blocks output plain len st =
     (let len3 = len div 3;
          rest3 = len mod 3;
          off = unat (192 * len3);
          blocks1 = drop off plain;
          (output, st) = Hacl_Impl_Chacha20_Vec128_chacha20_counter_mode_blocks3 output plain len3 st
      in if rest3 = 2 then
           let block0 = blocks1;
               block1 = drop 64 blocks1;
               output = at_ptr off (\<lambda>out0. Hacl_Impl_Chacha20_Vec128_update out0 block0 st) output;
               st = Hacl_Impl_Chacha20_Vec128_state_incr st;
               output = at_ptr (off + 64) (\<lambda>out1. Hacl_Impl_Chacha20_Vec128_update out1 block1 st) output;
               st = Hacl_Impl_Chacha20_Vec128_state_incr st
           in (output, st)
         else if rest3 = 1 then
           let output = at_ptr off (\<lambda>outs. Hacl_Impl_Chacha20_Vec128_update outs blocks1 st) output;
               st = Hacl_Impl_Chacha20_Vec128_state_incr st
           in (output, st)
         else (output, st))"

definition Hacl_Impl_Chacha20_Vec128_chacha20_counter_mode ::
    "bytes \<Rightarrow> bytes \<Rightarrow> u32 \<Rightarrow> vec list \<Rightarrow> bytes \<times> vec list" where
  "Hacl_Impl_Chacha20_Vec128_chacha20_counter_mode output plain len st =
     (let blocks_len = drop_bit 6 len;
          part_len = len AND 0x3f;
          off = unat (64 * blocks_len);
          plain'' = drop off plain;
          (output, st) = Hacl_Impl_Chacha20_Vec128_chacha20_counter_mode_blocks output plain blocks_len st
      in if part_len > 0 then
           let output = at_ptr off (\<lambda>output''. Hacl_Impl_Chacha20_Vec128_update_last output'' plain'' part_len st) output
           in (output, st)
         else (output, st))"

definition Hacl_Impl_Chacha20_Vec128_chacha20 ::
    "bytes \<Rightarrow> bytes \<Rightarrow> u32 \<Rightarrow> bytes \<Rightarrow> bytes \<Rightarrow> u32 \<Rightarrow> bytes" where
  "Hacl_Impl_Chacha20_Vec128_chacha20 output plain len k n1 ctr =
     (let buf = replicate 4 vec_zero;
          st = buf;
          st = Hacl_Impl_Chacha20_Vec128_init st k n1 ctr;
          (output, st) = Hacl_Impl_Chacha20_Vec128_chacha20_counter_mode output plain len st
      in output)"

definition Hacl_Chacha20_Vec128_chacha20 ::
    "bytes \<Rightarrow> bytes \<Rightarrow> u32 \<Rightarrow> bytes \<Rightarrow> bytes \<Rightarrow> u32 \<Rightarrow> bytes" where
  "Hacl_Chacha20_Vec128_chacha20 output plain len k n1 ctr =
     Hacl_Impl_Chacha20_Vec128_chacha20 output plain len k n1 ctr"

section \<open>Rounds\<close>

lemma vec_round_eq: "Hacl_Impl_Chacha20_Vec128_round (rows m) = rows (column_round m)"
proof -
  obtain x0 x1 x2 x3 x4 x5 x6 x7 x8 x9 x10 x11 x12 x13 x14 x15 where
    m: "m = ((x0, x1, x2, x3), (x4, x5, x6, x7), (x8, x9, x10, x11), (x12, x13, x14, x15))"
    by (metis prod_cases4)
  show ?thesis
    by (simp add: m Hacl_Impl_Chacha20_Vec128_round_def Let_def vec_ops vec_rotate_row column_round_def columns_def
        chacha_qr_def)
qed

lemma vec_double_round_eq: "Hacl_Impl_Chacha20_Vec128_double_round (rows m) = rows (chacha_inner_block m)"
proof -
  obtain r0 r1 r2 r3 where r: "column_round m = (r0, r1, r2, r3)" by (metis prod_cases4)
  obtain s0 s1 s2 s3 where
    s: "column_round (r0, rot_left r1, rot_left (rot_left r2), rot_left (rot_left (rot_left r3))) = (s0, s1, s2, s3)"
    by (metis prod_cases4)
  have "Hacl_Impl_Chacha20_Vec128_round
      [row r0, row (rot_left r1), row (rot_left (rot_left r2)), row (rot_left (rot_left (rot_left r3)))]
      = [row s0, row s1, row s2, row s3]"
    using vec_round_eq [of "(r0, rot_left r1, rot_left (rot_left r2), rot_left (rot_left (rot_left r3)))"] s by simp
  then show ?thesis
    by (simp add: Hacl_Impl_Chacha20_Vec128_double_round_def vec_round_eq Let_def r vec_shuffle_row
        chacha_inner_block_def diagonal_round_def s)
qed

lemma vec_rounds_eq:
  "for_loop 0 n (\<lambda>i k. Hacl_Impl_Chacha20_Vec128_double_round k) (rows m) = rows ((chacha_inner_block ^^ n) m)"
  by (induction n) (simp_all add: for_loop_Suc vec_double_round_eq)

lemma vec_rounds3_eq:
  "for_loop 0 n (\<lambda>i (k0, k1, k2). Hacl_Impl_Chacha20_Vec128_double_round3 k0 k1 k2) (rows m0, rows m1, rows m2)
   = (rows ((chacha_inner_block ^^ n) m0), rows ((chacha_inner_block ^^ n) m1), rows ((chacha_inner_block ^^ n) m2))"
  by (induction n) (simp_all add: for_loop_Suc Hacl_Impl_Chacha20_Vec128_double_round3_def vec_double_round_eq)

section \<open>States\<close>

lemma vec_stateE:
  assumes "length ws = 16"
  obtains x0 x1 x2 x3 x4 x5 x6 x7 x8 x9 x10 x11 x12 x13 x14 x15
  where "ws = [x0, x1, x2, x3, x4, x5, x6, x7, x8, x9, x10, x11, x12, x13, x14, x15]"
    and "vec_state ws = [row (x0, x1, x2, x3), row (x4, x5, x6, x7), row (x8, x9, x10, x11), row (x12, x13, x14, x15)]"
  using assms by (elim list16E) (simp add: vec_state_def list_matrix_def list_quad_def)

lemma vec_copy_eq:
  assumes "length k = 4" and "length ws = 16"
  shows "Hacl_Impl_Chacha20_Vec128_copy_state k (vec_state ws) = vec_state ws"
proof -
  obtain a b c d where "k = [a, b, c, d]" using assms(1) by (auto simp: numeral_eq_Suc length_Suc_conv)
  then show ?thesis
    using assms(2) by (elim vec_stateE) (simp add: Hacl_Impl_Chacha20_Vec128_copy_state_def Let_def)
qed

lemma vec_sum_eq:
  assumes "length ws = 16"
  shows "Hacl_Impl_Chacha20_Vec128_sum_states (rows m) (vec_state ws) = vec_state (map2 (+) (matrix_list m) ws)"
proof -
  obtain y0 y1 y2 y3 y4 y5 y6 y7 y8 y9 y10 y11 y12 y13 y14 y15 where
    m: "m = ((y0, y1, y2, y3), (y4, y5, y6, y7), (y8, y9, y10, y11), (y12, y13, y14, y15))"
    by (metis prod_cases4)
  show ?thesis
    by (rule vec_stateE [OF assms])
       (simp add: m Hacl_Impl_Chacha20_Vec128_sum_states_def Let_def vec_ops matrix_list_def
          vec_state_def list_matrix_def list_quad_def)
qed

lemma vec_incr_eq:
  assumes "length ws = 16"
  shows "Hacl_Impl_Chacha20_Vec128_state_incr (vec_state ws) = vec_state (ws[12 := ws ! 12 + 1])"
  by (rule vec_stateE [OF assms])
     (simp add: Hacl_Impl_Chacha20_Vec128_state_incr_def Hacl_Impl_Chacha20_Vec128_State_state_incr_def Let_def
        vec_ops vec_state_def list_matrix_def list_quad_def)

lemma length_vec_state [simp]: "length (vec_state ws) = 4"
  by (simp add: vec_state_def rows_def split_beta)

lemma vec_core_eq:
  assumes "length k = 4" and "length ws = 16"
  shows "Hacl_Impl_Chacha20_Vec128_chacha20_core k (vec_state ws) = vec_state (chacha_words ws)"
  using assms
  by (simp add: Hacl_Impl_Chacha20_Vec128_chacha20_core_def Let_def vec_copy_eq)
     (simp add: vec_state_def [of ws] vec_rounds_eq vec_sum_eq [OF assms(2), unfolded vec_state_def [of ws]] chacha_words_def)

abbreviation incr :: "u32 list \<Rightarrow> u32 list" where
  "incr ws \<equiv> ws[12 := ws ! 12 + 1]"

lemma vec_core3_eq:
  assumes "length k0 = 4" and "length k1 = 4" and "length k2 = 4" and "length ws = 16"
  shows "Hacl_Impl_Chacha20_Vec128_chacha20_core3 k0 k1 k2 (vec_state ws)
         = (vec_state (chacha_words ws), vec_state (chacha_words (incr ws)), vec_state (chacha_words (incr (incr ws))),
            vec_state (incr (incr ws)))"
proof -
  have i: "Hacl_Impl_Chacha20_Vec128_chacha20_incr3 k0 k1 k2 (vec_state ws)
      = (rows (list_matrix ws), rows (list_matrix (incr ws)), rows (list_matrix (incr (incr ws))))"
    using assms by (simp add: Hacl_Impl_Chacha20_Vec128_chacha20_incr3_def Let_def vec_copy_eq vec_incr_eq)
       (simp add: vec_state_def)
  show ?thesis
    using assms(4)
    by (simp add: Hacl_Impl_Chacha20_Vec128_chacha20_core3_def i vec_rounds3_eq
        Hacl_Impl_Chacha20_Vec128_chacha20_sum3_def vec_sum_eq vec_incr_eq chacha_words_def)
qed

lemma vec_setup_eq:
  assumes "length st = 4"
  shows "Hacl_Impl_Chacha20_Vec128_init st k n c = vec_state (chacha_state k n c)"
proof -
  obtain s0 s1 s2 s3 where st: "st = [s0, s1, s2, s3]" using assms by (auto simp: numeral_eq_Suc length_Suc_conv)
  show ?thesis
    by (simp add: st Hacl_Impl_Chacha20_Vec128_init_def Hacl_Impl_Chacha20_Vec128_State_state_setup_def Let_def
        vec_load128_le_def vec_load_row vec_ops chacha_state_def vec_state_def list_matrix_def list_quad_def
        words_le_def eval_nat_numeral)
qed

lemma incr_state: "incr (chacha_state k n c) = chacha_state k n (c + 1)"
  by (simp add: chacha_state_def list_update_append nth_append)

section \<open>Blocks\<close>

lemma vec_stores_eq:
  assumes "64 \<le> length out"
  shows "at_ptr 48 (\<lambda>d. vec_store_le d (row q3)) (at_ptr 32 (\<lambda>c. vec_store_le c (row q2))
           (at_ptr 16 (\<lambda>b. vec_store_le b (row q1)) (vec_store_le out (row q0))))
         = bytes_le (matrix_list (q0, q1, q2, q3)) @ drop 64 out"
  using assms
  by (cases q0; cases q1; cases q2; cases q3)
     (simp add: at_ptr_def vec_store_row matrix_list_def bytes_le_def)

lemma vec_key_block_eq:
  assumes "length ws = 16" and "64 \<le> length out"
  shows "Hacl_Impl_Chacha20_Vec128_State_state_to_key_block out (vec_state ws) = bytes_le ws @ drop 64 out"
  by (rule vec_stateE [OF assms(1)])
     (simp add: Hacl_Impl_Chacha20_Vec128_State_state_to_key_block_def Let_def vec_stores_eq [OF assms(2)]
        matrix_list_def)

lemma words_le_4: "words_le 4 p = [load32_le p, load32_le (drop 4 p), load32_le (drop 8 p), load32_le (drop 12 p)]"
  by (simp add: words_le_def eval_nat_numeral)

lemma vec_xor_block_eq:
  assumes "length ws = 16" and "64 \<le> length out" and "64 \<le> length p"
  shows "Hacl_Impl_Chacha20_Vec128_xor_block out p (vec_state ws)
         = xor_bytes (take 64 p) (bytes_le ws) @ drop 64 out"
proof -
  have w: "words_le 16 p = words_le 4 p @ words_le 4 (drop 16 p) @ words_le 4 (drop 32 p) @ words_le 4 (drop 48 p)"
    by (simp add: words_le_def eval_nat_numeral)
  have "Hacl_Impl_Chacha20_Vec128_xor_block out p (vec_state ws) = bytes_le (map2 (XOR) (words_le 16 p) ws) @ drop 64 out"
    by (rule vec_stateE [OF assms(1)])
       (simp add: Hacl_Impl_Chacha20_Vec128_xor_block_def Let_def vec_load_row vec_ops list_quad_def
          vec_stores_eq [OF assms(2)] matrix_list_def w words_le_4)
  also have "bytes_le (map2 (XOR) (words_le 16 p) ws) = xor_bytes (take 64 p) (bytes_le ws)"
    using assms bytes_words_le [of 16 p] by (simp add: bytes_le_xor)
  finally show ?thesis .
qed

section \<open>Counter mode\<close>

text \<open>Writing the next piece of the output after the first \<open>a\<close> bytes.\<close>

lemma xor_extend:
  assumes "length ks = a" and "a \<le> length out" and "a \<le> length p"
    and "f (drop a out) = xor_bytes (take b (drop a p)) ks' @ drop b (drop a out)"
  shows "at_ptr a f (xor_bytes (take a p) ks @ drop a out)
         = xor_bytes (take (a + b) p) (ks @ ks') @ drop (a + b) out"
proof -
  have "take (a + b) p = take a p @ take b (drop a p)" by (rule take_add)
  moreover have "xor_bytes (take a p @ take b (drop a p)) (ks @ ks')
      = xor_bytes (take a p) ks @ xor_bytes (take b (drop a p)) ks'"
    using assms(1,3) by (intro xor_bytes_append) simp
  ultimately show ?thesis using assms by (simp add: at_ptr_def add.commute)
qed

abbreviation vst :: "bytes \<Rightarrow> bytes \<Rightarrow> u32 \<Rightarrow> vec list" where
  "vst k n c \<equiv> vec_state (chacha_state k n c)"

lemma vec_incr_vst: "Hacl_Impl_Chacha20_Vec128_state_incr (vst k n c) = vst k n (c + 1)"
  by (simp add: vec_incr_eq incr_state)

lemma vec_update_eq:
  "64 \<le> length out \<Longrightarrow> 64 \<le> length p \<Longrightarrow>
   Hacl_Impl_Chacha20_Vec128_update out p (vst k n c)
   = xor_bytes (take 64 p) (chacha20_block_spec k n c) @ drop 64 out"
  by (simp add: Hacl_Impl_Chacha20_Vec128_update_def Let_def vec_core_eq vec_xor_block_eq chacha20_block_spec_def)

lemma keystream_one: "keystream blk c (Suc 0) = blk c"
  by (simp add: keystream_def)

lemma keystream_three: "keystream blk c 3 = (blk c @ blk (c + 1)) @ blk (c + 2)"
  by (simp add: keystream_def eval_nat_numeral)

lemma vec_update3_eq:
  assumes "192 \<le> length out" and "192 \<le> length p"
  shows "Hacl_Impl_Chacha20_Vec128_update3 out p (vst k n c)
         = (xor_bytes (take 192 p) (keystream (chacha20_block_spec k n) c 3) @ drop 192 out, vst k n (c + 2))"
proof -
  let ?b = "chacha20_block_spec k n"
  have x: "Hacl_Impl_Chacha20_Vec128_xor_block o' q (vec_state (chacha_words (chacha_state k n c')))
      = xor_bytes (take 64 q) (?b c') @ drop 64 o'" if "64 \<le> length o'" "64 \<le> length q" for o' q c'
    using that by (simp add: vec_xor_block_eq chacha20_block_spec_def)
  have "at_ptr 64 (\<lambda>o1. Hacl_Impl_Chacha20_Vec128_xor_block o1 (drop 64 p) (vec_state (chacha_words (chacha_state k n (c + 1)))))
      (xor_bytes (take 64 p) (?b c) @ drop 64 out)
      = xor_bytes (take (64 + 64) p) (?b c @ ?b (c + 1)) @ drop (64 + 64) out"
    using assms by (intro xor_extend) (simp_all add: x)
  moreover have "at_ptr 128 (\<lambda>o2. Hacl_Impl_Chacha20_Vec128_xor_block o2 (drop 128 p) (vec_state (chacha_words (chacha_state k n (c + 2)))))
      (xor_bytes (take 128 p) (?b c @ ?b (c + 1)) @ drop 128 out)
      = xor_bytes (take (128 + 64) p) ((?b c @ ?b (c + 1)) @ ?b (c + 2)) @ drop (128 + 64) out"
    using assms by (intro xor_extend) (simp_all add: x)
  moreover have "c + 1 + 1 = c + 2" by simp
  ultimately show ?thesis
    using assms
    by (simp add: Hacl_Impl_Chacha20_Vec128_update3_def Let_def vec_core3_eq incr_state x keystream_three
        add.commute [of 2 c])
qed

lemma vec_blocks3_eq:
  assumes "192 * m \<le> length out" and "192 * m \<le> length p" and "192 * m < 2 ^ 32"
  shows "for_loop 0 m (\<lambda>i (out, st). Hacl_Impl_Chacha20_Vec128_update3' out p len st (word_of_nat i)) (out, vst k n c)
         = (xor_bytes (take (192 * m) p) (keystream (chacha20_block_spec k n) c (3 * m)) @ drop (192 * m) out,
            vst k n (c + word_of_nat (3 * m)))"
  using assms
proof (induction m)
  case 0
  then show ?case by (simp add: keystream_def xor_bytes_def)
next
  case (Suc m)
  let ?b = "chacha20_block_spec k n"
  define c' where "c' = c + word_of_nat (3 * m)"
  define x where "x = xor_bytes (take (192 * m) p) (keystream ?b c (3 * m)) @ drop (192 * m) out"
  have off: "unat (192 * word_of_nat m :: u32) = 192 * m"
    using Suc.prems by (simp add: unat_word_ariths(2) unat_of_nat)
  have ks: "length (keystream ?b c (3 * m)) = 192 * m" by (simp add: length_keystream)
  have u: "Hacl_Impl_Chacha20_Vec128_update3 (drop (192 * m) out) (drop (192 * m) p) (vst k n c')
      = (xor_bytes (take 192 (drop (192 * m) p)) (keystream ?b c' 3) @ drop 192 (drop (192 * m) out), vst k n (c' + 2))"
    using Suc.prems by (intro vec_update3_eq) simp_all
  have "take (192 * m) x = xor_bytes (take (192 * m) p) (keystream ?b c (3 * m))" "drop (192 * m) x = drop (192 * m) out"
    using ks Suc.prems by (simp_all add: x_def)
  moreover have "at_ptr (192 * m) (\<lambda>o'. fst (Hacl_Impl_Chacha20_Vec128_update3 o' (drop (192 * m) p) (vst k n c'))) x
      = xor_bytes (take (192 * m + 192) p) (keystream ?b c (3 * m) @ keystream ?b c' 3) @ drop (192 * m + 192) out"
    unfolding x_def using ks Suc.prems by (intro xor_extend) (simp_all add: u)
  moreover have "keystream ?b c (3 * m) @ keystream ?b c' 3 = keystream ?b c (3 * Suc m)"
    using keystream_plus [of ?b c "3 * m" 3] by (simp add: add.commute c'_def)
  moreover have "c' + 2 + 1 = c + word_of_nat (3 * Suc m)" by (simp add: c'_def)
  moreover have "192 * m + 192 = 192 * Suc m" by simp
  ultimately have "Hacl_Impl_Chacha20_Vec128_update3' x p len (vst k n c') (word_of_nat m)
      = (xor_bytes (take (192 * Suc m) p) (keystream ?b c (3 * Suc m)) @ drop (192 * Suc m) out, vst k n (c + word_of_nat (3 * Suc m)))"
    by (simp only: Hacl_Impl_Chacha20_Vec128_update3'_def Let_def off at_ptr_st_pair case_prod_conv u snd_conv fst_conv
        at_ptr_def vec_incr_vst)
  then show ?case
    using Suc by (simp add: for_loop_Suc x_def [symmetric] c'_def [symmetric] del: of_nat_mult)
qed

text \<open>One more block after the first \<open>j\<close>.\<close>

lemma vec_next_block:
  assumes "64 * Suc j \<le> length out" and "64 * Suc j \<le> length p"
  shows "at_ptr (64 * j) (\<lambda>o'. Hacl_Impl_Chacha20_Vec128_update o' (drop (64 * j) p) (vst k n (c + word_of_nat j)))
           (xor_bytes (take (64 * j) p) (keystream (chacha20_block_spec k n) c j) @ drop (64 * j) out)
         = xor_bytes (take (64 * Suc j) p) (keystream (chacha20_block_spec k n) c (Suc j)) @ drop (64 * Suc j) out"
  using xor_extend [of "keystream (chacha20_block_spec k n) c j" "64 * j" out p
      "\<lambda>o'. Hacl_Impl_Chacha20_Vec128_update o' (drop (64 * j) p) (vst k n (c + word_of_nat j))" 64
      "chacha20_block_spec k n (c + word_of_nat j)"] assms
  by (simp add: length_keystream keystream_Suc vec_update_eq add.commute [of 64])

lemma vec_blocks_eq:
  assumes len: "64 * unat len \<le> length out" "64 * unat len \<le> length p" "64 * unat len < 2 ^ 32"
  shows "Hacl_Impl_Chacha20_Vec128_chacha20_counter_mode_blocks out p len (vst k n c)
         = (xor_bytes (take (64 * unat len) p) (keystream (chacha20_block_spec k n) c (unat len)) @ drop (64 * unat len) out,
            vst k n (c + len))"
proof -
  let ?b = "chacha20_block_spec k n"
  define m r where "m = unat len div 3" and "r = unat len mod 3"
  have mr: "unat len = 3 * m + r" "r < 3" by (simp_all add: m_def r_def)
  have um: "unat (len div 3) = m" "unat (len mod 3) = r" by (simp_all add: m_def r_def unat_div unat_mod)
  have off: "unat (192 * (len div 3)) = 192 * m" using um len(3) mr by (subst unat_times) simp_all
  have b3: "Hacl_Impl_Chacha20_Vec128_chacha20_counter_mode_blocks3 out p (len div 3) (vst k n c)
      = (xor_bytes (take (64 * (3 * m)) p) (keystream ?b c (3 * m)) @ drop (64 * (3 * m)) out, vst k n (c + word_of_nat (3 * m)))"
    unfolding Hacl_Impl_Chacha20_Vec128_chacha20_counter_mode_blocks3_def um
    using vec_blocks3_eq [of m out p "len div 3" k n c] len mr by simp
  have r: "len mod 3 = 2 \<longleftrightarrow> r = 2" "len mod 3 = 1 \<longleftrightarrow> r = 1"
    unfolding um(2) [symmetric] by (simp_all add: word_unat_eq_iff)
  have l: "len = word_of_nat (3 * m + r)" unfolding mr(1) [symmetric] by simp
  define j where "j = 3 * m"
  have o: "192 * m = 64 * j" "64 * j + 64 = 64 * Suc j" "drop (192 * m) p = drop (64 * j) p"
    "drop 64 (drop (64 * j) p) = drop (64 * Suc j) p"
    by (simp_all add: j_def)
  have c1: "c + word_of_nat j + 1 = c + word_of_nat (Suc j)" by simp
  have c2: "c + word_of_nat (Suc j) + 1 = c + word_of_nat (Suc (Suc j))" by simp
  consider "r = 0" | "r = 1" | "r = 2" using mr(2) by linarith
  then show ?thesis
  proof cases
    case 1
    have u: "unat len = j" "c + len = c + word_of_nat j" using 1 mr(1) l by (simp_all add: j_def)
    have q: "(r = 2) = False" "(r = 1) = False" using 1 by simp_all
    show ?thesis
      unfolding Hacl_Impl_Chacha20_Vec128_chacha20_counter_mode_blocks_def Let_def b3 u r q j_def [symmetric]
        if_False case_prod_conv ..
  next
    case 2
    have "64 * Suc j \<le> length out" "64 * Suc j \<le> length p" using len mr 2 by (simp_all add: j_def)
    note n = vec_next_block [OF this, of k n c]
    have u: "unat len = Suc j" "c + len = c + word_of_nat (Suc j)" using 2 mr(1) l by (simp_all add: j_def)
    have q: "(r = 2) = False" "(r = 1) = True" using 2 by simp_all
    show ?thesis
      unfolding Hacl_Impl_Chacha20_Vec128_chacha20_counter_mode_blocks_def Let_def b3 off u r q j_def [symmetric]
        if_True if_False case_prod_conv vec_incr_vst o n c1 ..
  next
    case 3
    have "64 * Suc (Suc j) \<le> length out" "64 * Suc (Suc j) \<le> length p" using len mr 3 by (simp_all add: j_def)
    note n = vec_next_block [OF this, of k n c]
    from this have "64 * Suc j \<le> length out" "64 * Suc j \<le> length p"
      using len mr 3 by (simp_all add: j_def)
    note n1 = vec_next_block [OF this, of k n c]
    have u: "unat len = Suc (Suc j)" "c + len = c + word_of_nat (Suc (Suc j))" using 3 mr(1) l by (simp_all add: j_def)
    have q: "(r = 2) = True" using 3 by simp
    show ?thesis
      unfolding Hacl_Impl_Chacha20_Vec128_chacha20_counter_mode_blocks_def Let_def b3 off u r q j_def [symmetric]
        if_True case_prod_conv vec_incr_vst o n1 c1 n c2 ..
  qed
qed

lemma vec_update_last_eq:
  assumes "unat len \<le> 64" and "unat len \<le> length out" and "unat len \<le> length p"
  shows "Hacl_Impl_Chacha20_Vec128_update_last out p len (vst k n c)
         = xor_bytes (take (unat len) p) (take (unat len) (chacha20_block_spec k n c)) @ drop (unat len) out"
proof -
  have b: "Hacl_Impl_Chacha20_Vec128_chacha20_block (replicate 64 0) (vst k n c) = chacha20_block_spec k n c"
    by (simp add: Hacl_Impl_Chacha20_Vec128_chacha20_block_def Let_def vec_core_eq vec_key_block_eq chacha20_block_spec_def)
  show ?thesis
    unfolding Hacl_Impl_Chacha20_Vec128_update_last_def Let_def b
    using xor_loop [of "unat len" out p "chacha20_block_spec k n c"] assms by (simp add: Let_def)
qed

lemma vec_chacha20_eq:
  assumes "unat len \<le> length out" and "unat len \<le> length m"
  shows "Hacl_Chacha20_Vec128_chacha20 out m len k n ctr
         = ctr_encrypt (chacha20_block_spec k n) ctr (take (unat len) m) @ drop (unat len) out"
proof -
  let ?b = "chacha20_block_spec k n"
  define j r where "j = unat len div 64" and "r = unat len mod 64"
  have jr: "unat len = 64 * j + r" "r < 64" by (simp_all add: j_def r_def)
  have uj: "unat (drop_bit 6 len) = j" by (simp add: unat_shr j_def)
  have "(0x3f :: u32) = mask 6" by (simp add: mask_eq_exp_minus_1)
  then have ur: "unat (len AND 0x3f) = r" by (simp only: unat_and_mask r_def) simp
  have bound: "64 * j < 2 ^ 32" using unat_bound [of len] jr by simp
  have uo: "unat (64 * drop_bit 6 len) = 64 * j" using bound uj by (subst unat_times) simp_all
  define o1 where "o1 = xor_bytes (take (64 * j) m) (keystream ?b ctr j) @ drop (64 * j) out"
  have b: "Hacl_Impl_Chacha20_Vec128_chacha20_counter_mode_blocks out m (drop_bit 6 len) (vst k n ctr)
      = (o1, vst k n (ctr + drop_bit 6 len))"
    using vec_blocks_eq [of "drop_bit 6 len" out m k n ctr] bound jr assms by (simp add: uj o1_def)
  have w: "ctr + drop_bit 6 len = ctr + word_of_nat j" unfolding uj [symmetric] by simp
  have full: "o1 = ctr_encrypt ?b ctr (take (64 * j) m) @ drop (64 * j) out"
    using assms jr by (simp add: o1_def ctr_encrypt_def)
  have i: "Hacl_Impl_Chacha20_Vec128_init (replicate 4 vec_zero) k n ctr = vst k n ctr"
    by (rule vec_setup_eq) simp
  have seek: "ctr_encrypt ?b ctr (take (unat len) m)
      = ctr_encrypt ?b ctr (take (64 * j) m) @ ctr_encrypt ?b (ctr + word_of_nat j) (take r (drop (64 * j) m))"
    using ctr_encrypt_seek [of ?b j "take (unat len) m" ctr] assms jr by (simp add: min_absorb1 drop_take)
  show ?thesis
  proof (cases "r = 0")
    case True
    then have "\<not> len AND 0x3f > 0" using ur by (simp add: word_less_nat_alt)
    then show ?thesis
      using True jr
      by (simp add: Hacl_Chacha20_Vec128_chacha20_def Hacl_Impl_Chacha20_Vec128_chacha20_def i b
          Hacl_Impl_Chacha20_Vec128_chacha20_counter_mode_def full)
  next
    case False
    then have pos: "len AND 0x3f > 0" using ur by (simp add: word_less_nat_alt)
    have l1: "take (64 * j) o1 = ctr_encrypt ?b ctr (take (64 * j) m)" "drop (64 * j) o1 = drop (64 * j) out"
      using assms jr by (simp_all add: full)
    have one: "(r + 63) div 64 = 1" using False jr(2) by simp
    have "Hacl_Impl_Chacha20_Vec128_update_last (drop (64 * j) out) (drop (64 * j) m) (len AND 0x3f) (vst k n (ctr + word_of_nat j))
        = xor_bytes (take r (drop (64 * j) m)) (take r (?b (ctr + word_of_nat j))) @ drop r (drop (64 * j) out)"
      using assms jr by (subst vec_update_last_eq) (simp_all add: ur)
    also have "xor_bytes (take r (drop (64 * j) m)) (take r (?b (ctr + word_of_nat j)))
        = ctr_encrypt ?b (ctr + word_of_nat j) (take r (drop (64 * j) m))"
      using assms jr xor_bytes_take [of "take r (drop (64 * j) m)" "?b (ctr + word_of_nat j)"]
      by (simp add: ctr_encrypt_def one keystream_one)
    finally have last: "Hacl_Impl_Chacha20_Vec128_update_last (drop (64 * j) out) (drop (64 * j) m) (len AND 0x3f) (vst k n (ctr + word_of_nat j))
        = ctr_encrypt ?b (ctr + word_of_nat j) (take r (drop (64 * j) m)) @ drop r (drop (64 * j) out)" .
    have d: "drop r (drop (64 * j) out) = drop (unat len) out" by (simp add: jr(1) add.commute)
    have "Hacl_Chacha20_Vec128_chacha20 out m len k n ctr
        = take (64 * j) o1 @ Hacl_Impl_Chacha20_Vec128_update_last (drop (64 * j) o1) (drop (64 * j) m) (len AND 0x3f)
            (vst k n (ctr + word_of_nat j))"
      unfolding Hacl_Chacha20_Vec128_chacha20_def Hacl_Impl_Chacha20_Vec128_chacha20_def
        Hacl_Impl_Chacha20_Vec128_chacha20_counter_mode_def Let_def i uo b w case_prod_conv if_P [OF pos] at_ptr_def ..
    then show ?thesis by (simp only: l1 last d seek append_assoc)
  qed
qed

section \<open>Property\<close>

text \<open>
  C37: The vectorised cipher, which interleaves three blocks, is the scalar one: for every key, nonce,
  counter and length the two functions leave the same output buffer.
\<close>

theorem chacha20_vec128_equiv:
  assumes "unat len \<le> length out" and "unat len \<le> length m"
  shows "Hacl_Chacha20_Vec128_chacha20 out m len k n ctr = Hacl_Chacha20_chacha20 out m len k n ctr"
  by (simp only: vec_chacha20_eq [OF assms] chacha20_eq [OF assms])

theorem chacha20_vec128_equiv_witness:
  "Hacl_Chacha20_Vec128_chacha20 (replicate 300 0) (replicate 260 7) 260 (replicate 32 1) (replicate 12 2) 0xffffffff
   = Hacl_Chacha20_chacha20 (replicate 300 0) (replicate 260 7) 260 (replicate 32 1) (replicate 12 2) 0xffffffff"
  using chacha20_vec128_equiv [of 260 "replicate 300 0" "replicate 260 7" "replicate 32 1" "replicate 12 2" "0xffffffff"]
  by simp

end
