(* ===== verification/Poly1305_64.thy ===== *)
theory Poly1305_64
  imports Limbs LoadStore
begin

text \<open>
  \<open>Hacl_Poly1305_64.c\<close>: Poly1305 with three limbs of 44, 44 and 42 bits and 128-bit
  products.  The field arithmetic is related to arithmetic modulo \<open>2 ^ 130 - 5\<close> on the value
  of the limbs, with the bounds that exclude overflow; the two interfaces of the file
  (one-shot and streaming) to the polynomial of RFC 8439.
\<close>

section \<open>The field arithmetic\<close>

definition Hacl_Bignum_Modulo_reduce :: "u64 list \<Rightarrow> u64 list" where
  "Hacl_Bignum_Modulo_reduce b = (let b0 = b ! 0 in b[0 := push_bit 4 b0 + push_bit 2 b0])"

definition Hacl_Bignum_Modulo_carry_top :: "u64 list \<Rightarrow> u64 list" where
  "Hacl_Bignum_Modulo_carry_top b =
     (let b2 = b ! 2; b0 = b ! 0; b2_42 = drop_bit 42 b2;
          b = b[2 := b2 AND 0x3ffffffffff];
          b = b[0 := push_bit 2 b2_42 + b2_42 + b0]
      in b)"

definition Hacl_Bignum_Modulo_carry_top_wide :: "u128 list \<Rightarrow> u128 list" where
  "Hacl_Bignum_Modulo_carry_top_wide b =
     (let b2 = b ! 2; b0 = b ! 0;
          b2' = u128_logand b2 (uint64_to_uint128 0x3ffffffffff);
          b2_42 = uint128_to_uint64 (u128_shift_right b2 42);
          b0' = u128_add b0 (uint64_to_uint128 (push_bit 2 b2_42 + b2_42));
          b = b[2 := b2'];
          b = b[0 := b0']
      in b)"

definition Hacl_Bignum_Fproduct_copy_from_wide' :: "u64 list \<Rightarrow> u128 list \<Rightarrow> u64 list" where
  "Hacl_Bignum_Fproduct_copy_from_wide' output input =
     for_loop 0 3 (\<lambda>i output. let xi = input ! i in output[i := uint128_to_uint64 xi]) output"

definition Hacl_Bignum_Fproduct_sum_scalar_multiplication' ::
    "u128 list \<Rightarrow> u64 list \<Rightarrow> u64 \<Rightarrow> u128 list" where
  "Hacl_Bignum_Fproduct_sum_scalar_multiplication' output input s =
     for_loop 0 3
       (\<lambda>i output. let xi = output ! i; yi = input ! i
                   in output[i := u128_add_mod xi (u128_mul_wide yi s)]) output"

definition Hacl_Bignum_Fproduct_carry_wide' :: "u128 list \<Rightarrow> u128 list" where
  "Hacl_Bignum_Fproduct_carry_wide' tmp =
     for_loop 0 2
       (\<lambda>ctr tmp. let tctr = tmp ! ctr; tctrp1 = tmp ! (ctr + 1);
                      r0 = uint128_to_uint64 tctr AND 0xfffffffffff;
                      c = u128_shift_right tctr 44;
                      tmp = tmp[ctr := uint64_to_uint128 r0];
                      tmp = tmp[ctr + 1 := u128_add tctrp1 c]
                  in tmp) tmp"

definition Hacl_Bignum_Fproduct_carry_limb' :: "u64 list \<Rightarrow> u64 list" where
  "Hacl_Bignum_Fproduct_carry_limb' tmp =
     for_loop 0 2
       (\<lambda>ctr tmp. let tctr = tmp ! ctr; tctrp1 = tmp ! (ctr + 1);
                      r0 = tctr AND 0xfffffffffff;
                      c = drop_bit 44 tctr;
                      tmp = tmp[ctr := r0];
                      tmp = tmp[ctr + 1 := tctrp1 + c]
                  in tmp) tmp"

definition Hacl_Bignum_Fmul_shift_reduce :: "u64 list \<Rightarrow> u64 list" where
  "Hacl_Bignum_Fmul_shift_reduce output =
     (let tmp = output ! 2;
          output = for_loop 0 2
                     (\<lambda>i output. let ctr = 3 - i - 1; z = output ! (ctr - 1) in output[ctr := z]) output;
          output = output[0 := tmp]
      in Hacl_Bignum_Modulo_reduce output)"

text \<open>The second buffer, \<open>input\<close>, is scratch space: it comes back rotated.\<close>

definition Hacl_Bignum_Fmul_mul_shift_reduce' ::
    "u128 list \<Rightarrow> u64 list \<Rightarrow> u64 list \<Rightarrow> u128 list \<times> u64 list" where
  "Hacl_Bignum_Fmul_mul_shift_reduce' output input input2 =
     (let (output, input) =
            for_loop 0 2
              (\<lambda>i (output, input).
                 let input2i = input2 ! i;
                     output = Hacl_Bignum_Fproduct_sum_scalar_multiplication' output input input2i;
                     input = Hacl_Bignum_Fmul_shift_reduce input
                 in (output, input)) (output, input);
          i = 2;
          input2i = input2 ! i
      in (Hacl_Bignum_Fproduct_sum_scalar_multiplication' output input input2i, input))"

definition Hacl_Bignum_Fmul_fmul :: "u64 list \<Rightarrow> u64 list \<Rightarrow> u64 list \<Rightarrow> u64 list" where
  "Hacl_Bignum_Fmul_fmul output input input2 =
     (let tmp = memcpy (replicate 3 0) input 3;
          t = replicate 3 (uint64_to_uint128 0);
          (t, tmp) = Hacl_Bignum_Fmul_mul_shift_reduce' t tmp input2;
          t = Hacl_Bignum_Fproduct_carry_wide' t;
          t = Hacl_Bignum_Modulo_carry_top_wide t;
          output = Hacl_Bignum_Fproduct_copy_from_wide' output t;
          i0 = output ! 0; i1 = output ! 1;
          i0' = i0 AND 0xfffffffffff;
          i1' = i1 + drop_bit 44 i0;
          output = output[0 := i0'];
          output = output[1 := i1']
      in output)"

text \<open>The C code passes \<open>acc\<close> both as output and as input of the product.\<close>

definition Hacl_Bignum_AddAndMultiply_add_and_multiply :: "u64 list \<Rightarrow> u64 list \<Rightarrow> u64 list \<Rightarrow> u64 list" where
  "Hacl_Bignum_AddAndMultiply_add_and_multiply acc block r =
     (let acc = for_loop 0 3 (\<lambda>i acc. let xi = acc ! i; yi = block ! i in acc[i := xi + yi]) acc
      in Hacl_Bignum_Fmul_fmul acc acc r)"

section \<open>The message authentication code\<close>

record poly1305_state =
  poly_r :: "u64 list"
  poly_h :: "u64 list"

definition Hacl_Impl_Poly1305_64_poly1305_update :: "poly1305_state \<Rightarrow> bytes \<Rightarrow> poly1305_state" where
  "Hacl_Impl_Poly1305_64_poly1305_update st m =
     (let acc = poly_h st; r3 = poly_r st;
          tmp = replicate 3 0;
          m0 = load128_le m;
          r0 = uint128_to_uint64 m0 AND 0xfffffffffff;
          r1 = uint128_to_uint64 (u128_shift_right m0 44) AND 0xfffffffffff;
          r2 = uint128_to_uint64 (u128_shift_right m0 88);
          tmp = tmp[0 := r0]; tmp = tmp[1 := r1]; tmp = tmp[2 := r2];
          b2 = tmp ! 2;
          b2' = 0x10000000000 OR b2;
          tmp = tmp[2 := b2']
      in st\<lparr>poly_h := Hacl_Bignum_AddAndMultiply_add_and_multiply acc tmp r3\<rparr>)"

definition Hacl_Impl_Poly1305_64_poly1305_process_last_block' ::
    "bytes \<Rightarrow> poly1305_state \<Rightarrow> bytes \<Rightarrow> u64 \<Rightarrow> poly1305_state" where
  "Hacl_Impl_Poly1305_64_poly1305_process_last_block' block st m rem' =
     (let tmp = replicate 3 0;
          m0 = load128_le block;
          r0 = uint128_to_uint64 m0 AND 0xfffffffffff;
          r1 = uint128_to_uint64 (u128_shift_right m0 44) AND 0xfffffffffff;
          r2 = uint128_to_uint64 (u128_shift_right m0 88);
          tmp = tmp[0 := r0]; tmp = tmp[1 := r1]; tmp = tmp[2 := r2];
          h = poly_h st; r = poly_r st
      in st\<lparr>poly_h := Hacl_Bignum_AddAndMultiply_add_and_multiply h tmp r\<rparr>)"

definition Hacl_Impl_Poly1305_64_poly1305_process_last_block ::
    "poly1305_state \<Rightarrow> bytes \<Rightarrow> u64 \<Rightarrow> poly1305_state" where
  "Hacl_Impl_Poly1305_64_poly1305_process_last_block st m rem' =
     (let zero1 = 0;
          block = replicate 16 zero1;
          i0 = (ucast rem' :: u32);
          i = (ucast rem' :: u32);
          block = memcpy block m (unat i);
          block = block[unat i0 := 1]
      in Hacl_Impl_Poly1305_64_poly1305_process_last_block' block st m rem')"

definition Hacl_Impl_Poly1305_64_poly1305_last_pass :: "u64 list \<Rightarrow> u64 list" where
  "Hacl_Impl_Poly1305_64_poly1305_last_pass acc =
     (let acc = Hacl_Bignum_Fproduct_carry_limb' acc;
          acc = Hacl_Bignum_Modulo_carry_top acc;
          a0 = acc ! 0; a10 = acc ! 1; a20 = acc ! 2;
          a0' = a0 AND 0xfffffffffff;
          r0 = drop_bit 44 a0;
          a1' = (a10 + r0) AND 0xfffffffffff;
          r1 = drop_bit 44 (a10 + r0);
          a2' = a20 + r1;
          acc = acc[0 := a0']; acc = acc[1 := a1']; acc = acc[2 := a2'];
          acc = Hacl_Bignum_Modulo_carry_top acc;
          i0 = acc ! 0; i1 = acc ! 1;
          i0' = i0 AND 0xfffffffffff;
          i1' = i1 + drop_bit 44 i0;
          acc = acc[0 := i0']; acc = acc[1 := i1'];
          a00 = acc ! 0; a1 = acc ! 1; a2 = acc ! 2;
          mask0 = FStar_UInt64_gte_mask a00 0xffffffffffb;
          mask1 = FStar_UInt64_eq_mask a1 0xfffffffffff;
          mask2 = FStar_UInt64_eq_mask a2 0x3ffffffffff;
          mask = (mask0 AND mask1) AND mask2;
          a0_0 = a00 - (0xffffffffffb AND mask);
          a1_0 = a1 - (0xfffffffffff AND mask);
          a2_0 = a2 - (0x3ffffffffff AND mask);
          acc = acc[0 := a0_0]; acc = acc[1 := a1_0]; acc = acc[2 := a2_0]
      in acc)"

definition Hacl_Impl_Poly1305_64_mk_state :: "u64 list \<Rightarrow> u64 list \<Rightarrow> poly1305_state" where
  "Hacl_Impl_Poly1305_64_mk_state r h = \<lparr>poly_r = r, poly_h = h\<rparr>"

function Hacl_Standalone_Poly1305_64_poly1305_blocks ::
    "poly1305_state \<Rightarrow> bytes \<Rightarrow> u64 \<Rightarrow> poly1305_state" where
  "Hacl_Standalone_Poly1305_64_poly1305_blocks st m len1 =
     (if \<not> len1 = 0 then
        let block = m; tail1 = drop 16 m;
            st = Hacl_Impl_Poly1305_64_poly1305_update st block;
            len2 = len1 - 1
        in Hacl_Standalone_Poly1305_64_poly1305_blocks st tail1 len2
      else st)"
  by pat_completeness auto
termination
  by (relation "measure (\<lambda>(_, _, len). unat len)") (auto simp: unat_minus_one unat_gt_0)

declare Hacl_Standalone_Poly1305_64_poly1305_blocks.simps [simp del]

definition Hacl_Standalone_Poly1305_64_poly1305_partial ::
    "poly1305_state \<Rightarrow> bytes \<Rightarrow> u64 \<Rightarrow> bytes \<Rightarrow> poly1305_state" where
  "Hacl_Standalone_Poly1305_64_poly1305_partial st input len1 kr =
     (let x0 = poly_r st;
          k1 = load128_le kr;
          k_clamped = u128_logand k1
            (u128_logor (u128_shift_left (uint64_to_uint128 0x0ffffffc0ffffffc) 64)
               (uint64_to_uint128 0x0ffffffc0fffffff));
          r0 = uint128_to_uint64 k_clamped AND 0xfffffffffff;
          r1 = uint128_to_uint64 (u128_shift_right k_clamped 44) AND 0xfffffffffff;
          r2 = uint128_to_uint64 (u128_shift_right k_clamped 88);
          x0 = x0[0 := r0]; x0 = x0[1 := r1]; x0 = x0[2 := r2];
          st = st\<lparr>poly_r := x0\<rparr>;
          x00 = poly_h st;
          x00 = x00[0 := 0]; x00 = x00[1 := 0]; x00 = x00[2 := 0];
          st = st\<lparr>poly_h := x00\<rparr>
      in Hacl_Standalone_Poly1305_64_poly1305_blocks st input len1)"

definition Hacl_Standalone_Poly1305_64_poly1305_complete ::
    "poly1305_state \<Rightarrow> bytes \<Rightarrow> u64 \<Rightarrow> bytes \<Rightarrow> poly1305_state" where
  "Hacl_Standalone_Poly1305_64_poly1305_complete st m len1 k1 =
     (let kr = k1;
          len16 = drop_bit 4 len1;
          rem16 = len1 AND 0xf;
          part_input = m;
          last_block = drop (unat (ucast (16 * len16) :: u32)) m;
          st = Hacl_Standalone_Poly1305_64_poly1305_partial st part_input len16 kr;
          st = (if \<not> rem16 = 0
                then Hacl_Impl_Poly1305_64_poly1305_process_last_block st last_block rem16
                else st);
          acc = poly_h st
      in st\<lparr>poly_h := Hacl_Impl_Poly1305_64_poly1305_last_pass acc\<rparr>)"

definition Hacl_Standalone_Poly1305_64_crypto_onetimeauth' ::
    "bytes \<Rightarrow> bytes \<Rightarrow> u64 \<Rightarrow> bytes \<Rightarrow> bytes" where
  "Hacl_Standalone_Poly1305_64_crypto_onetimeauth' output input len1 k1 =
     (let r = replicate 3 0; h = replicate 3 0;
          st = Hacl_Impl_Poly1305_64_mk_state r h;
          key_s = drop 16 k1;
          st = Hacl_Standalone_Poly1305_64_poly1305_complete st input len1 k1;
          acc = poly_h st;
          k' = load128_le key_s;
          h0 = acc ! 0; h1 = acc ! 1; h2 = acc ! 2;
          acc' = u128_logor
                   (u128_shift_left (uint64_to_uint128 (push_bit 24 h2 OR drop_bit 20 h1)) 64)
                   (uint64_to_uint128 (push_bit 44 h1 OR h0));
          mac' = u128_add_mod acc' k'
      in store128_le output mac')"

definition Hacl_Standalone_Poly1305_64_crypto_onetimeauth ::
    "bytes \<Rightarrow> bytes \<Rightarrow> u64 \<Rightarrow> bytes \<Rightarrow> bytes" where
  "Hacl_Standalone_Poly1305_64_crypto_onetimeauth output input len1 k1 =
     Hacl_Standalone_Poly1305_64_crypto_onetimeauth' output input len1 k1"

section \<open>The streaming interface\<close>

definition Hacl_Poly1305_64_mk_state :: "u64 list \<Rightarrow> u64 list \<Rightarrow> poly1305_state" where
  "Hacl_Poly1305_64_mk_state r acc = Hacl_Impl_Poly1305_64_mk_state r acc"

definition Hacl_Poly1305_64_init :: "poly1305_state \<Rightarrow> bytes \<Rightarrow> poly1305_state" where
  "Hacl_Poly1305_64_init st k1 =
     (let x0 = poly_r st;
          k10 = load128_le k1;
          k_clamped = u128_logand k10
            (u128_logor (u128_shift_left (uint64_to_uint128 0x0ffffffc0ffffffc) 64)
               (uint64_to_uint128 0x0ffffffc0fffffff));
          r0 = uint128_to_uint64 k_clamped AND 0xfffffffffff;
          r1 = uint128_to_uint64 (u128_shift_right k_clamped 44) AND 0xfffffffffff;
          r2 = uint128_to_uint64 (u128_shift_right k_clamped 88);
          x0 = x0[0 := r0]; x0 = x0[1 := r1]; x0 = x0[2 := r2];
          st = st\<lparr>poly_r := x0\<rparr>;
          x00 = poly_h st;
          x00 = x00[0 := 0]; x00 = x00[1 := 0]; x00 = x00[2 := 0]
      in st\<lparr>poly_h := x00\<rparr>)"

definition Hacl_Poly1305_64_update_block :: "poly1305_state \<Rightarrow> bytes \<Rightarrow> poly1305_state" where
  "Hacl_Poly1305_64_update_block st m = Hacl_Impl_Poly1305_64_poly1305_update st m"

function Hacl_Poly1305_64_update :: "poly1305_state \<Rightarrow> bytes \<Rightarrow> u32 \<Rightarrow> poly1305_state" where
  "Hacl_Poly1305_64_update st m num_blocks =
     (if \<not> num_blocks = 0 then
        let block = m; m' = drop 16 m;
            n1 = num_blocks - 1;
            st = Hacl_Poly1305_64_update_block st block
        in Hacl_Poly1305_64_update st m' n1
      else st)"
  by pat_completeness auto
termination
  by (relation "measure (\<lambda>(_, _, n). unat n)") (auto simp: unat_minus_one unat_gt_0)

declare Hacl_Poly1305_64_update.simps [simp del]

definition Hacl_Poly1305_64_update_last :: "poly1305_state \<Rightarrow> bytes \<Rightarrow> u32 \<Rightarrow> poly1305_state" where
  "Hacl_Poly1305_64_update_last st m len1 =
     (let st = (if \<not> (ucast len1 :: u64) = 0
                then Hacl_Impl_Poly1305_64_poly1305_process_last_block st m (ucast len1)
                else st);
          acc = poly_h st
      in st\<lparr>poly_h := Hacl_Impl_Poly1305_64_poly1305_last_pass acc\<rparr>)"

definition Hacl_Poly1305_64_finish :: "poly1305_state \<Rightarrow> bytes \<Rightarrow> bytes \<Rightarrow> bytes" where
  "Hacl_Poly1305_64_finish st mac k1 =
     (let acc = poly_h st;
          k' = load128_le k1;
          h0 = acc ! 0; h1 = acc ! 1; h2 = acc ! 2;
          acc' = u128_logor
                   (u128_shift_left (uint64_to_uint128 (push_bit 24 h2 OR drop_bit 20 h1)) 64)
                   (uint64_to_uint128 (push_bit 44 h1 OR h0));
          mac' = u128_add_mod acc' k'
      in store128_le mac mac')"

definition Hacl_Poly1305_64_crypto_onetimeauth :: "bytes \<Rightarrow> bytes \<Rightarrow> u64 \<Rightarrow> bytes \<Rightarrow> bytes" where
  "Hacl_Poly1305_64_crypto_onetimeauth output input len1 k1 =
     Hacl_Standalone_Poly1305_64_crypto_onetimeauth output input len1 k1"

section \<open>The polynomial of RFC 8439\<close>

definition poly_p :: nat where
  "poly_p = 2 ^ 130 - 5"

definition poly_block :: "bytes \<Rightarrow> nat" where
  "poly_block b = le_val b + 2 ^ (8 * length b)"

function poly_eval :: "nat \<Rightarrow> nat \<Rightarrow> bytes \<Rightarrow> nat" where
  "poly_eval r acc m =
     (if m = [] then acc
      else poly_eval r ((acc + poly_block (take 16 m)) * r mod poly_p) (drop 16 m))"
  by pat_completeness auto
termination
  by (relation "measure (\<lambda>(_, _, m). length m)") auto

declare poly_eval.simps [simp del]

definition clamp :: "bytes \<Rightarrow> nat" where
  "clamp k = unat (load128_le k AND 0x0ffffffc0ffffffc0ffffffc0fffffff)"

definition poly1305_mac :: "bytes \<Rightarrow> bytes \<Rightarrow> bytes" where
  "poly1305_mac m k =
     le_bytes 16 ((poly_eval (clamp k) 0 m + le_val (take 16 (drop 16 k))) mod 2 ^ 128)"

section \<open>Correctness of the field arithmetic\<close>

abbreviation pval :: "u64 list \<Rightarrow> nat" where
  "pval \<equiv> eval_limbs 44"

text \<open>The limbs of the accumulator between two blocks, and those of a multiplier or block.\<close>

definition acc_ok :: "u64 list \<Rightarrow> bool" where
  "acc_ok h \<longleftrightarrow> length h = 3 \<and> unat (h ! 0) < 2 ^ 44 \<and> unat (h ! 1) < 2 ^ 45 \<and> unat (h ! 2) < 2 ^ 42"

definition arg_ok :: "u64 list \<Rightarrow> bool" where
  "arg_ok b \<longleftrightarrow> length b = 3 \<and> unat (b ! 0) < 2 ^ 44 \<and> unat (b ! 1) < 2 ^ 44 \<and> unat (b ! 2) < 2 ^ 42"

lemma mul_shift_reduce_eq:
  fixes a0 a1 a2 b0 b1 b2 :: u64
  assumes "unat a0 < 2 ^ 46" "unat a1 < 2 ^ 46" "unat a2 < 2 ^ 43"
    and "unat b0 < 2 ^ 44" "unat b1 < 2 ^ 44" "unat b2 < 2 ^ 44"
  obtains t0 t1 t2 where
    "fst (Hacl_Bignum_Fmul_mul_shift_reduce' [0, 0, 0] [a0, a1, a2] [b0, b1, b2]) = [t0, t1, t2]"
    "unat t0 = unat a0 * unat b0 + 20 * unat a2 * unat b1 + 20 * unat a1 * unat b2"
    "unat t1 = unat a1 * unat b0 + unat a0 * unat b1 + 20 * unat a2 * unat b2"
    "unat t2 = unat a2 * unat b0 + unat a1 * unat b1 + unat a0 * unat b2"
proof -
  let ?r = "\<lambda>x::u64. push_bit 4 x + push_bit 2 x"
  let ?t = "\<lambda>x y z. u128_add_mod (u128_add_mod (u128_add_mod 0 (u128_mul_wide x b0))
                      (u128_mul_wide y b1)) (u128_mul_wide z b2)"
  have eq: "fst (Hacl_Bignum_Fmul_mul_shift_reduce' [0, 0, 0] [a0, a1, a2] [b0, b1, b2])
        = [?t a0 (?r a2) (?r a1), ?t a1 a0 (?r a2), ?t a2 a1 a0]"
    by (simp add: Hacl_Bignum_Fmul_mul_shift_reduce'_def Hacl_Bignum_Fmul_shift_reduce_def
          Hacl_Bignum_Fproduct_sum_scalar_multiplication'_def Hacl_Bignum_Modulo_reduce_def
          for_loop_small Let_def)
  have r: "unat (?r a1) = 20 * unat a1" "unat (?r a2) = 20 * unat a2"
    using assms by (intro unat_times_20; simp)+
  have t: "unat (?t x y z) = unat x * unat b0 + unat y * unat b1 + unat z * unat b2"
    if "unat x < 2 ^ 51" "unat y < 2 ^ 51" "unat z < 2 ^ 51" for x y z
  proof -
    have "unat x * unat b0 < 2 ^ 95" "unat y * unat b1 < 2 ^ 95" "unat z * unat b2 < 2 ^ 95"
      using that assms mult_lt_bound [of _ "2 ^ 51" _ "2 ^ 44" "2 ^ 95"] by simp_all
    then show ?thesis by (simp add: native.mul_acc)
  qed
  show thesis
    using assms by (intro that [OF eq]; subst t; simp add: r)
qed

text \<open>The carries after the product, from the three wide limbs to a reduced element.\<close>

lemma carry_chain_nat:
  fixes t0 t1 t2 s1 s2 e v0 :: nat
  assumes s1: "s1 = t1 + t0 div 2 ^ 44" and s2: "s2 = t2 + s1 div 2 ^ 44"
    and e: "e = s2 div 2 ^ 42" and v0: "v0 = t0 mod 2 ^ 44 + 5 * e"
  shows "v0 mod 2 ^ 44 + 2 ^ 44 * (s1 mod 2 ^ 44 + v0 div 2 ^ 44 + 2 ^ 44 * (s2 mod 2 ^ 42)) + poly_p * e
         = t0 + 2 ^ 44 * (t1 + 2 ^ 44 * t2)"
proof -
  have lin: "c0 + 2 ^ 44 * (u1 + q3 + 2 ^ 44 * u2) + poly_p * e = t0 + 2 ^ 44 * (t1 + 2 ^ 44 * t2)"
    if "c0 + 2 ^ 44 * q3 = u0 + 5 * e" "u0 + 2 ^ 44 * q0 = t0" "u1 + 2 ^ 44 * q1 = t1 + q0"
       "u2 + 2 ^ 42 * e = t2 + q1" for c0 q0 q1 q3 u0 u1 u2 :: nat
    using that by (simp add: poly_p_def algebra_simps)
  show ?thesis
    by (rule lin [of _ _ "t0 mod 2 ^ 44" "t0 div 2 ^ 44" _ "s1 div 2 ^ 44"])
       (simp_all only: e mod_mult_div_eq, simp_all only: v0 s1 s2 e)
qed

lemma reduce_wide_eq:
  fixes t0 t1 t2 :: u128
  assumes "unat t0 < 2 ^ 96" "unat t1 < 2 ^ 95" "unat t2 < 2 ^ 92"
  obtains c0 c1 c2 where
    "(let t = Hacl_Bignum_Fproduct_carry_wide' [t0, t1, t2];
          t = Hacl_Bignum_Modulo_carry_top_wide t;
          out = Hacl_Bignum_Fproduct_copy_from_wide' [o0, o1, o2] t;
          i0 = out ! 0; i1 = out ! 1; i0' = i0 AND 0xfffffffffff; i1' = i1 + drop_bit 44 i0;
          out = out[0 := i0']; out = out[1 := i1'] in out) = [c0, c1, c2]"
    "acc_ok [c0, c1, c2]"
    "pval [c0, c1, c2] mod poly_p = (unat t0 + 2 ^ 44 * (unat t1 + 2 ^ 44 * unat t2)) mod poly_p"
proof -
  define s1 where "s1 = u128_add t1 (u128_shift_right t0 44)"
  define s2 where "s2 = u128_add t2 (u128_shift_right s1 44)"
  define e where "e = uint128_to_uint64 (u128_shift_right s2 42)"
  define w0 where "w0 = u128_add (uint64_to_uint128 (uint128_to_uint64 t0 AND 0xfffffffffff))
                          (uint64_to_uint128 (push_bit 2 e + e))"
  define v0 where "v0 = uint128_to_uint64 w0"
  define v1 where "v1 = uint128_to_uint64 (uint64_to_uint128 (uint128_to_uint64 s1 AND 0xfffffffffff))"
  define c2 where "c2 = uint128_to_uint64 (u128_logand s2 (uint64_to_uint128 0x3ffffffffff))"
  note defs = s1_def s2_def e_def w0_def v0_def v1_def c2_def
  have m44: "unat (uint128_to_uint64 x AND 0xfffffffffff) = unat x mod 2 ^ 44" for x
    using native.carry_low [of 44 x] by (simp add: native.val_of mask_eq_exp_minus_1)
  have q0: "unat t0 div 2 ^ 44 < 2 ^ 52" using assms by (intro less_mult_imp_div_less) simp
  have s1: "unat s1 = unat t1 + unat t0 div 2 ^ 44"
    unfolding s1_def using q0 assms by (subst native.carry_high) simp_all
  have q1: "unat s1 div 2 ^ 44 < 2 ^ 52"
    using s1 q0 assms by (intro less_mult_imp_div_less) simp
  have s2: "unat s2 = unat t2 + unat s1 div 2 ^ 44"
    unfolding s2_def using q1 assms by (subst native.carry_high) simp_all
  have q2: "unat s2 div 2 ^ 42 < 2 ^ 51"
    using s2 q1 assms by (intro less_mult_imp_div_less) simp
  have e: "unat e = unat s2 div 2 ^ 42"
    unfolding e_def using q2 by (subst native.to_exact) (simp_all add: native.val_shr)
  have e5: "unat (push_bit 2 e + e) = 5 * unat e"
    using e q2 by (intro unat_times_5) simp
  have w0: "unat w0 = unat t0 mod 2 ^ 44 + 5 * unat e"
    unfolding w0_def using e q2 e5 m44 by (subst native.add_exact) (simp_all add: native.val_of)
  have w0b: "unat w0 < 2 ^ 54"
    using w0 e q2 mod_less_divisor [of "2 ^ 44" "unat t0"] by simp
  then have v0: "unat v0 = unat w0" unfolding v0_def by (subst native.to_exact) simp_all
  have v1: "unat v1 = unat s1 mod 2 ^ 44"
    unfolding v1_def by (subst native.to_exact) (simp_all add: native.val_of m44)
  have "u128_logand s2 (uint64_to_uint128 0x3ffffffffff) = s2 AND mask 42"
    by (simp add: u128_logand_def uint64_to_uint128_def mask_eq_exp_minus_1)
  then have c2: "unat c2 = unat s2 mod 2 ^ 42"
    unfolding c2_def by (subst native.to_exact) (simp_all only: unat_and_mask, simp_all)
  have q3: "unat v0 div 2 ^ 44 < 2 ^ 11" using v0 w0b by (intro less_mult_imp_div_less) simp
  have c1: "unat (v1 + drop_bit 44 v0) = unat s1 mod 2 ^ 44 + unat v0 div 2 ^ 44"
    using v1 q3 mod_less_divisor [of "2 ^ 44" "unat s1"] by (subst unat_plus) (simp_all add: unat_shr)
  show thesis
  proof (rule that [of "v0 AND 0xfffffffffff" "v1 + drop_bit 44 v0" c2])
    show "(let t = Hacl_Bignum_Fproduct_carry_wide' [t0, t1, t2];
          t = Hacl_Bignum_Modulo_carry_top_wide t;
          out = Hacl_Bignum_Fproduct_copy_from_wide' [o0, o1, o2] t;
          i0 = out ! 0; i1 = out ! 1; i0' = i0 AND 0xfffffffffff; i1' = i1 + drop_bit 44 i0;
          out = out[0 := i0']; out = out[1 := i1'] in out)
       = [v0 AND 0xfffffffffff, v1 + drop_bit 44 v0, c2]"
      by (simp add: Hacl_Bignum_Fproduct_carry_wide'_def Hacl_Bignum_Modulo_carry_top_wide_def
           Hacl_Bignum_Fproduct_copy_from_wide'_def for_loop_small Let_def defs)
    show "acc_ok [v0 AND 0xfffffffffff, v1 + drop_bit 44 v0, c2]"
      using q3 c1 c2 mod_less_divisor [of "2 ^ 44" "unat s1"]
        mod_less_divisor [of "2 ^ 42" "unat s2"] mod_less_divisor [of "2 ^ 44" "unat v0"]
      by (simp add: acc_ok_def and_mask_44)
    have "pval [v0 AND 0xfffffffffff, v1 + drop_bit 44 v0, c2] + poly_p * unat e
          = unat t0 + 2 ^ 44 * (unat t1 + 2 ^ 44 * unat t2)"
      using carry_chain_nat [OF s1 s2 e w0]
      by (simp only: eval_limbs.simps c1 c2 v0 and_mask_44) simp
    then show "pval [v0 AND 0xfffffffffff, v1 + drop_bit 44 v0, c2] mod poly_p
               = (unat t0 + 2 ^ 44 * (unat t1 + 2 ^ 44 * unat t2)) mod poly_p"
      by (metis mod_mult_self2)
  qed
qed

text \<open>The product of the accumulator plus a block with the multiplier.\<close>

lemma product_value:
  fixes a0 a1 a2 b0 b1 b2 :: nat
  shows "(a0 * b0 + 20 * a2 * b1 + 20 * a1 * b2
           + 2 ^ 44 * (a1 * b0 + a0 * b1 + 20 * a2 * b2 + 2 ^ 44 * (a2 * b0 + a1 * b1 + a0 * b2)))
         + poly_p * (4 * (a2 * b1 + a1 * b2 + 2 ^ 44 * (a2 * b2)))
         = (a0 + 2 ^ 44 * (a1 + 2 ^ 44 * a2)) * (b0 + 2 ^ 44 * (b1 + 2 ^ 44 * b2))"
  by (simp add: poly_p_def algebra_simps)

lemma fmul_correct:
  assumes "length out = 3" and "length a = 3"
    and "unat (a ! 0) < 2 ^ 46" "unat (a ! 1) < 2 ^ 46" "unat (a ! 2) < 2 ^ 43" and "arg_ok b"
  shows "acc_ok (Hacl_Bignum_Fmul_fmul out a b)"
    and "pval (Hacl_Bignum_Fmul_fmul out a b) mod poly_p = (pval a * pval b) mod poly_p"
proof -
  obtain o0 o1 o2 where out: "out = [o0, o1, o2]" using assms(1) by (rule list3E)
  obtain a0 a1 a2 where a: "a = [a0, a1, a2]" using assms(2) by (rule list3E)
  have "length b = 3" using assms by (simp add: arg_ok_def)
  then obtain b0 b1 b2 where b: "b = [b0, b1, b2]" by (rule list3E)
  have bb: "unat b0 < 2 ^ 44" "unat b1 < 2 ^ 44" "unat b2 < 2 ^ 44"
    using assms by (simp_all add: b arg_ok_def)
  have ab: "unat a0 < 2 ^ 46" "unat a1 < 2 ^ 46" "unat a2 < 2 ^ 43" using assms by (simp_all add: a)
  obtain t0 t1 t2 where t:
    "fst (Hacl_Bignum_Fmul_mul_shift_reduce' [0, 0, 0] [a0, a1, a2] [b0, b1, b2]) = [t0, t1, t2]"
    "unat t0 = unat a0 * unat b0 + 20 * unat a2 * unat b1 + 20 * unat a1 * unat b2"
    "unat t1 = unat a1 * unat b0 + unat a0 * unat b1 + 20 * unat a2 * unat b2"
    "unat t2 = unat a2 * unat b0 + unat a1 * unat b1 + unat a0 * unat b2"
    using ab bb by (rule mul_shift_reduce_eq)
  have p: "x * unat b0 < 2 ^ n * 2 ^ 44" "x * unat b1 < 2 ^ n * 2 ^ 44" "x * unat b2 < 2 ^ n * 2 ^ 44"
    if "x < 2 ^ n" for x n
    using that bb by (auto intro!: mult_strict_mono)
  have bounds: "unat t0 < 2 ^ 96" "unat t1 < 2 ^ 95" "unat t2 < 2 ^ 92"
    using p [OF ab(1)] p [OF ab(2)] p [OF ab(3)] by (simp_all add: t)
  obtain c0 c1 c2 where c:
    "(let t = Hacl_Bignum_Fproduct_carry_wide' [t0, t1, t2];
          t = Hacl_Bignum_Modulo_carry_top_wide t;
          out = Hacl_Bignum_Fproduct_copy_from_wide' [o0, o1, o2] t;
          i0 = out ! 0; i1 = out ! 1; i0' = i0 AND 0xfffffffffff; i1' = i1 + drop_bit 44 i0;
          out = out[0 := i0']; out = out[1 := i1'] in out) = [c0, c1, c2]"
    "acc_ok [c0, c1, c2]"
    "pval [c0, c1, c2] mod poly_p = (unat t0 + 2 ^ 44 * (unat t1 + 2 ^ 44 * unat t2)) mod poly_p"
    using bounds by (rule reduce_wide_eq)
  have "replicate 3 (0::u128) = [0, 0, 0]" "memcpy (replicate 3 0) [a0, a1, a2] 3 = [a0, a1, a2]"
    "uint64_to_uint128 0 = 0"
    by (simp_all add: numeral_eq_Suc memcpy_def uint64_to_uint128_def)
  then have eq: "Hacl_Bignum_Fmul_fmul out a b = [c0, c1, c2]"
    using c(1) t(1)
    by (simp add: Hacl_Bignum_Fmul_fmul_def out a b Let_def split_beta)
  show "acc_ok (Hacl_Bignum_Fmul_fmul out a b)" using c(2) by (simp add: eq)
  have "pval a * pval b = unat t0 + 2 ^ 44 * (unat t1 + 2 ^ 44 * unat t2)
      + poly_p * (4 * (unat a2 * unat b1 + unat a1 * unat b2 + 2 ^ 44 * (unat a2 * unat b2)))"
    unfolding t product_value by (simp add: a b)
  then show "pval (Hacl_Bignum_Fmul_fmul out a b) mod poly_p = (pval a * pval b) mod poly_p"
    using c(3) by (simp add: eq)
qed

lemma add_and_multiply_correct:
  assumes "acc_ok acc" and "arg_ok block" and "arg_ok r"
  shows "acc_ok (Hacl_Bignum_AddAndMultiply_add_and_multiply acc block r)"
    and "pval (Hacl_Bignum_AddAndMultiply_add_and_multiply acc block r) mod poly_p
         = ((pval acc + pval block) * pval r) mod poly_p"
proof -
  obtain h0 h1 h2 where h: "acc = [h0, h1, h2]" using assms(1) by (auto simp: acc_ok_def elim: list3E)
  obtain b0 b1 b2 where b: "block = [b0, b1, b2]" using assms(2) by (auto simp: arg_ok_def elim: list3E)
  let ?a = "[h0 + b0, h1 + b1, h2 + b2]"
  have eq: "Hacl_Bignum_AddAndMultiply_add_and_multiply acc block r = Hacl_Bignum_Fmul_fmul ?a ?a r"
    by (simp add: Hacl_Bignum_AddAndMultiply_add_and_multiply_def h b for_loop_small Let_def)
  have u: "unat (h0 + b0) = unat h0 + unat b0" "unat (h1 + b1) = unat h1 + unat b1"
    "unat (h2 + b2) = unat h2 + unat b2"
    using assms by (simp_all add: unat_plus acc_ok_def arg_ok_def h b)
  have fm: "acc_ok (Hacl_Bignum_Fmul_fmul ?a ?a r)
      \<and> pval (Hacl_Bignum_Fmul_fmul ?a ?a r) mod poly_p = (pval ?a * pval r) mod poly_p"
    using assms by (intro conjI fmul_correct) (simp_all add: u acc_ok_def arg_ok_def h b)
  then show "acc_ok (Hacl_Bignum_AddAndMultiply_add_and_multiply acc block r)" by (simp add: eq)
  have "pval ?a = pval acc + pval block" by (simp add: u h b)
  with fm show "pval (Hacl_Bignum_AddAndMultiply_add_and_multiply acc block r) mod poly_p
      = ((pval acc + pval block) * pval r) mod poly_p"
    by (simp add: eq)
qed

section \<open>Blocks\<close>

text \<open>Splitting a 128-bit number into limbs, and setting the bit above the block.\<close>

lemma split_limbs:
  fixes w :: u128
  defines "r0 \<equiv> uint128_to_uint64 w AND 0xfffffffffff"
    and "r1 \<equiv> uint128_to_uint64 (u128_shift_right w 44) AND 0xfffffffffff"
    and "r2 \<equiv> uint128_to_uint64 (u128_shift_right w 88)"
  shows "unat r0 < 2 ^ 44" "unat r1 < 2 ^ 44" "unat r2 < 2 ^ 40" "pval [r0, r1, r2] = unat w"
    and "unat (0x10000000000 OR r2) = 2 ^ 40 + unat r2"
proof -
  have m44: "unat (uint128_to_uint64 x AND 0xfffffffffff) = unat x mod 2 ^ 44" for x
    using native.carry_low [of 44 x] by (simp add: native.val_of mask_eq_exp_minus_1)
  have "unat w div 2 ^ 88 < 2 ^ 40" using unat_bound [of w] by (intro less_mult_imp_div_less) simp
  then have r2: "unat r2 = unat w div 2 ^ 88" and r2b: "unat r2 < 2 ^ 40"
    unfolding r2_def by (subst native.to_exact; simp add: native.val_shr)+
  have r0: "unat r0 = unat w mod 2 ^ 44" unfolding r0_def by (rule m44)
  have r1: "unat r1 = unat w div 2 ^ 44 mod 2 ^ 44" unfolding r1_def m44 by (simp add: native.val_shr)
  show "unat r0 < 2 ^ 44" "unat r1 < 2 ^ 44" "unat r2 < 2 ^ 40" using r0 r1 r2b by simp_all
  have "x mod 2 ^ 44 + 2 ^ 44 * (x div 2 ^ 44 mod 2 ^ 44 + 2 ^ 44 * (x div 2 ^ 44 div 2 ^ 44)) = x"
    for x :: nat by (simp only: mod_mult_div_eq)
  from this [of "unat w"] show "pval [r0, r1, r2] = unat w" by (simp add: r0 r1 r2 div_mult2_eq [symmetric])
  have "push_bit 40 1 OR r2 = (0x10000000000 OR r2 :: u64)" by (simp add: push_bit_eq_mult)
  then show "unat (0x10000000000 OR r2) = 2 ^ 40 + unat r2"
    using unat_or_shift [of r2 40 1] r2b by simp
qed

definition poly_ok :: "poly1305_state \<Rightarrow> bool" where
  "poly_ok st \<longleftrightarrow> arg_ok (poly_r st) \<and> acc_ok (poly_h st)"

definition poly_acc :: "poly1305_state \<Rightarrow> nat" where
  "poly_acc st = pval (poly_h st) mod poly_p"

lemma poly_p_pos: "0 < poly_p" by (simp add: poly_p_def)

lemma poly_step_mod: "(x mod p + y) * r mod p = (x + y) * r mod (p::nat)"
  by (metis mod_add_left_eq mod_mult_left_eq)

lemma poly_update_correct:
  assumes "poly_ok st" and "16 \<le> length m"
  defines "st' \<equiv> Hacl_Impl_Poly1305_64_poly1305_update st m"
  shows "poly_ok st'" and "poly_r st' = poly_r st"
    and "poly_acc st' = (poly_acc st + poly_block (take 16 m)) * pval (poly_r st) mod poly_p"
proof -
  define w where "w = load128_le m"
  define r0 where "r0 = uint128_to_uint64 w AND 0xfffffffffff"
  define r1 where "r1 = uint128_to_uint64 (u128_shift_right w 44) AND 0xfffffffffff"
  define r2 where "r2 = uint128_to_uint64 (u128_shift_right w 88)"
  define b where "b = [r0, r1, 0x10000000000 OR r2]"
  note sp = split_limbs [of w, folded r0_def r1_def r2_def]
  have b_ok: "arg_ok b" using sp by (simp add: arg_ok_def b_def)
  have "pval b = unat w + 2 ^ 128" using sp(4,5) by (simp add: b_def)
  then have b_val: "pval b = poly_block (take 16 m)"
    using assms(2) by (simp add: poly_block_def w_def unat_load128_le min_def)
  have eq: "st' = st\<lparr>poly_h := Hacl_Bignum_AddAndMultiply_add_and_multiply (poly_h st) b (poly_r st)\<rparr>"
    by (simp add: st'_def Hacl_Impl_Poly1305_64_poly1305_update_def Let_def b_def r0_def r1_def r2_def
        w_def numeral_eq_Suc)
  show "poly_r st' = poly_r st" by (simp add: eq)
  show "poly_ok st'"
    using assms(1) b_ok add_and_multiply_correct(1) by (simp add: eq poly_ok_def)
  show "poly_acc st' = (poly_acc st + poly_block (take 16 m)) * pval (poly_r st) mod poly_p"
    using assms(1) b_ok add_and_multiply_correct(2) [of "poly_h st" b "poly_r st"]
    by (simp add: eq poly_ok_def poly_acc_def b_val poly_step_mod)
qed

lemma last_block_correct:
  assumes "poly_ok st" and "0 < unat rem'" "unat rem' < 16" "unat rem' \<le> length m"
  defines "st' \<equiv> Hacl_Impl_Poly1305_64_poly1305_process_last_block st m rem'"
  shows "poly_ok st'" and "poly_r st' = poly_r st"
    and "poly_acc st' = (poly_acc st + poly_block (take (unat rem') m)) * pval (poly_r st) mod poly_p"
proof -
  define n where "n = unat rem'"
  define blk where "blk = take n m @ 1 # replicate (15 - n) (0::u8)"
  define w where "w = load128_le blk"
  define r0 where "r0 = uint128_to_uint64 w AND 0xfffffffffff"
  define r1 where "r1 = uint128_to_uint64 (u128_shift_right w 44) AND 0xfffffffffff"
  define r2 where "r2 = uint128_to_uint64 (u128_shift_right w 88)"
  define b where "b = [r0, r1, r2]"
  note sp = split_limbs [of w, folded r0_def r1_def r2_def]
  have b_ok: "arg_ok b" using sp by (simp add: arg_ok_def b_def)
  have n: "n < 16" "n \<le> length m" using assms by (simp_all add: n_def)
  have "le_val blk = le_val (take n m) + 256 ^ n"
    using n by (simp add: blk_def le_val_append le_val_replicate)
  then have b_val: "pval b = poly_block (take n m)"
    using n sp(4) by (simp add: b_def poly_block_def w_def unat_load128_le blk_def min_def power_mult)
  have "unat (ucast rem' :: u32) = n" using n by (simp add: n_def unat_ucast_down)
  moreover have s16: "16 - n = Suc (15 - n)" using n by simp
  ultimately have "(memcpy (replicate 16 0) m (unat (ucast rem' :: u32)))[unat (ucast rem' :: u32) := 1] = blk"
    using n s16 by (simp add: memcpy_def blk_def list_update_append drop_replicate)
  then have eq: "st' = st\<lparr>poly_h := Hacl_Bignum_AddAndMultiply_add_and_multiply (poly_h st) b (poly_r st)\<rparr>"
    by (simp add: st'_def Hacl_Impl_Poly1305_64_poly1305_process_last_block_def
        Hacl_Impl_Poly1305_64_poly1305_process_last_block'_def Let_def b_def r0_def r1_def r2_def
        w_def numeral_eq_Suc)
  show "poly_r st' = poly_r st" by (simp add: eq)
  show "poly_ok st'"
    using assms(1) b_ok add_and_multiply_correct(1) by (simp add: eq poly_ok_def)
  show "poly_acc st' = (poly_acc st + poly_block (take (unat rem') m)) * pval (poly_r st) mod poly_p"
    using assms(1) b_ok add_and_multiply_correct(2) [of "poly_h st" b "poly_r st"]
    by (simp add: eq poly_ok_def poly_acc_def b_val poly_step_mod n_def)
qed

lemma poly_eval_Nil [simp]: "poly_eval r acc [] = acc"
  by (simp add: poly_eval.simps)

lemma poly_eval_block:
  "length b = 16 \<Longrightarrow> poly_eval r acc (b @ m) = poly_eval r ((acc + poly_block b) * r mod poly_p) m"
  by (subst poly_eval.simps) auto

lemma poly_eval_last:
  "0 < length b \<Longrightarrow> length b \<le> 16 \<Longrightarrow> poly_eval r acc b = (acc + poly_block b) * r mod poly_p"
  by (subst poly_eval.simps) auto

lemma poly_eval_append:
  "length m = 16 * n \<Longrightarrow> poly_eval r acc (m @ m') = poly_eval r (poly_eval r acc m) m'"
proof (induction n arbitrary: acc m)
  case (Suc n)
  define b t where "b = take 16 m" and "t = drop 16 m"
  have m: "m = b @ t" "length b = 16" "length t = 16 * n" using Suc.prems by (simp_all add: b_def t_def)
  from Suc.IH [OF m(3)] show ?case by (simp add: m poly_eval_block)
qed simp

lemma poly_eval_less: "acc < poly_p \<Longrightarrow> poly_eval r acc m < poly_p"
proof (induction r acc m rule: poly_eval.induct)
  case (1 r acc m)
  then show ?case using poly_p_pos by (subst poly_eval.simps) simp
qed

text \<open>
  What both implementations of the file pair \<open>Hacl_Poly1305_64.c\<close>, \<open>Hacl_Poly1305_32.c\<close> promise of
  their state: a block is one step of the polynomial, and the loop over the blocks applies it.  The
  count of blocks is a machine word of any width.
\<close>

locale poly_machine =
  fixes ok :: "'s \<Rightarrow> bool" and r :: "'s \<Rightarrow> 'r" and rv :: "'r \<Rightarrow> nat" and acc :: "'s \<Rightarrow> nat"
    and step :: "'s \<Rightarrow> bytes \<Rightarrow> 's" and run :: "'s \<Rightarrow> bytes \<Rightarrow> 'n::len word \<Rightarrow> 's"
  assumes step: "ok st \<Longrightarrow> 16 \<le> length m \<Longrightarrow> ok (step st m) \<and> r (step st m) = r st
      \<and> acc (step st m) = (acc st + poly_block (take 16 m)) * rv (r st) mod poly_p"
    and run: "run st m n = (if n = 0 then st else run (step st m) (drop 16 m) (n - 1))"
begin

lemma machine_run:
  "ok st \<Longrightarrow> 16 * unat n \<le> length m \<Longrightarrow>
   ok (run st m n) \<and> r (run st m n) = r st
   \<and> acc (run st m n) = poly_eval (rv (r st)) (acc st) (take (16 * unat n) m)"
proof (induction "unat n" arbitrary: n st m)
  case 0
  then show ?case by (subst (1 2 3) run) (simp add: unat_eq_zero)
next
  case (Suc u)
  then have nz: "n \<noteq> 0" by auto
  have n: "unat n = Suc u" "u = unat (n - 1)" using Suc.hyps(2) nz by (simp_all add: unat_minus_one)
  have l16: "16 \<le> length m" using Suc.prems n by simp
  have t: "take (16 * unat n) m = take 16 m @ take (16 * u) (drop 16 m)"
    using take_add [of 16 "16 * u" m] n by simp
  have "ok (run (step st m) (drop 16 m) (n - 1)) \<and> r (run (step st m) (drop 16 m) (n - 1)) = r (step st m)
      \<and> acc (run (step st m) (drop 16 m) (n - 1))
        = poly_eval (rv (r (step st m))) (acc (step st m)) (take (16 * unat (n - 1)) (drop 16 m))"
    using Suc.hyps(1) [OF n(2)] Suc.prems step [OF Suc.prems(1) l16] n by simp
  moreover have "run st m n = run (step st m) (drop 16 m) (n - 1)" using run [of st m n] nz by simp
  ultimately show ?case using step [OF Suc.prems(1) l16] l16 n t by (simp add: poly_eval_block)
qed

lemma machine_append:
  "unat n1 + unat n2 < 2 ^ LENGTH('n) \<Longrightarrow> run (run st m n1) (drop (16 * unat n1) m) n2 = run st m (n1 + n2)"
proof (induction "unat n1" arbitrary: n1 st m)
  case 0
  then have "n1 = 0" by (simp add: unat_eq_zero)
  then show ?case using run [of st m 0] by simp
next
  case (Suc u)
  then have nz: "n1 \<noteq> 0" by auto
  have n1: "unat n1 = Suc u" "u = unat (n1 - 1)" using Suc.hyps(2) nz by (simp_all add: unat_minus_one)
  have "unat (n1 + n2) = unat n1 + unat n2" using Suc.prems by (simp add: unat_plus)
  then have nz2: "n1 + n2 \<noteq> 0" using n1 by (metis Zero_not_Suc add_Suc unat_0)
  have e: "n1 + n2 - 1 = n1 - 1 + n2" by simp
  have "run (run (step st m) (drop 16 m) (n1 - 1)) (drop (16 * unat (n1 - 1)) (drop 16 m)) n2
      = run (step st m) (drop 16 m) (n1 - 1 + n2)"
    using Suc.prems n1 by (intro Suc.hyps(1)) simp_all
  then show ?case using run [of st m n1] run [of st m "n1 + n2"] nz nz2 n1 by (simp add: e add.commute)
qed

end

interpretation blocks64: poly_machine poly_ok poly_r pval poly_acc Hacl_Impl_Poly1305_64_poly1305_update
  Hacl_Standalone_Poly1305_64_poly1305_blocks
  by unfold_locales
     (simp_all add: poly_update_correct, simp add: Hacl_Standalone_Poly1305_64_poly1305_blocks.simps Let_def)

lemmas blocks_correct = blocks64.machine_run
lemmas blocks_append = blocks64.machine_append

text \<open>The streaming loop is the same recursion with a 32-bit count.\<close>

lemma update_eq_blocks:
  "Hacl_Poly1305_64_update st m n = Hacl_Standalone_Poly1305_64_poly1305_blocks st m (ucast n)"
proof (induction st m n rule: Hacl_Poly1305_64_update.induct)
  case (1 st m n)
  show ?case
  proof (cases "n = 0")
    case False
    have "unat (ucast n :: u64) = unat n" by (simp add: unat_ucast_same_or_up)
    then have nz: "(ucast n :: u64) \<noteq> 0" using False by (metis unat_eq_zero)
    have "(ucast (n - 1) :: u64) = ucast n - 1"
      using False nz by (intro word_unatI) (simp add: unat_minus_one unat_ucast_same_or_up)
    then show ?thesis
      using 1 [OF False refl refl refl refl] False nz
      by (simp add: Hacl_Poly1305_64_update.simps [of st m n] Hacl_Poly1305_64_update_block_def
          Hacl_Standalone_Poly1305_64_poly1305_blocks.simps [of st m "ucast n"] Let_def)
  qed (simp add: Hacl_Poly1305_64_update.simps Hacl_Standalone_Poly1305_64_poly1305_blocks.simps)
qed

section \<open>The final reduction\<close>

text \<open>Limbs of a number below \<open>2 ^ 130\<close>.\<close>

definition canonical :: "u64 list \<Rightarrow> bool" where
  "canonical c \<longleftrightarrow> length c = 3 \<and> unat (c ! 0) < 2 ^ 44 \<and> unat (c ! 1) < 2 ^ 44 \<and> unat (c ! 2) < 2 ^ 42"

text \<open>Two passes of carries bring the accumulator below \<open>2 ^ 130\<close>.\<close>

lemma two_passes_nat:
  fixes h0 h1 h2 s1 s2 y0 t1 t2 w0 e f :: nat
  assumes b: "h0 < 2 ^ 44" "h1 < 2 ^ 45" "h2 < 2 ^ 42"
    and s1: "s1 = h1 + h0 div 2 ^ 44" and s2: "s2 = h2 + s1 div 2 ^ 44"
    and e: "e = s2 div 2 ^ 42" and y0: "y0 = 5 * e + h0 mod 2 ^ 44"
    and t1: "t1 = s1 mod 2 ^ 44 + y0 div 2 ^ 44" and t2: "t2 = s2 mod 2 ^ 42 + t1 div 2 ^ 44"
    and f: "f = t2 div 2 ^ 42" and w0: "w0 = 5 * f + y0 mod 2 ^ 44"
  shows "s1 < 2 ^ 46" "s2 \<le> 2 ^ 42" "e \<le> 1" "y0 < 2 ^ 45" "t1 \<le> 2 ^ 44" "t2 \<le> 2 ^ 42" "f \<le> 1"
    "w0 < 2 ^ 45" "t1 mod 2 ^ 44 + w0 div 2 ^ 44 < 2 ^ 44"
    "w0 mod 2 ^ 44 + 2 ^ 44 * (t1 mod 2 ^ 44 + w0 div 2 ^ 44 + 2 ^ 44 * (t2 mod 2 ^ 42)) + poly_p * (e + f)
     = h0 + 2 ^ 44 * (h1 + 2 ^ 44 * h2)"
proof -
  have mb: "x mod 2 ^ n < 2 ^ n" for x n :: nat by simp
  have s1': "s1 = h1" using b s1 by simp
  show s1b: "s1 < 2 ^ 46" using b s1' by simp
  have "s1 div 2 ^ 44 \<le> 1" using b s1' by simp
  then show s2b: "s2 \<le> 2 ^ 42" using b s2 by simp
  then have "s2 < 2 ^ 42 * 2" by simp
  then have "e < 2" unfolding e by (intro less_mult_imp_div_less) simp
  then show eb: "e \<le> 1" by simp
  show y0b: "y0 < 2 ^ 45" using eb b y0 by simp
  then have "y0 div 2 ^ 44 < 2" by (intro less_mult_imp_div_less) simp
  then have q: "y0 div 2 ^ 44 \<le> 1" by simp
  show t1b: "t1 \<le> 2 ^ 44" using q mb [of s1 44] unfolding t1 by linarith
  then have "t1 < 2 ^ 44 * 2" by simp
  then have "t1 div 2 ^ 44 < 2" by (intro less_mult_imp_div_less) simp
  then show t2b: "t2 \<le> 2 ^ 42" using mb [of s2 42] unfolding t2 by linarith
  then have "t2 < 2 ^ 42 * 2" by simp
  then have "f < 2" unfolding f by (intro less_mult_imp_div_less) simp
  then show fb: "f \<le> 1" by simp
  have m: "y0 mod 2 ^ 44 < 2 ^ 44" by simp
  have "5 * f + z < 2 ^ 45" if "z < 2 ^ 44" for z using that fb by simp
  from this [OF m] show w0b: "w0 < 2 ^ 45" unfolding w0 .
  have "w0 < 2 ^ 44 * 2" using w0b by simp
  then have "w0 div 2 ^ 44 < 2" by (intro less_mult_imp_div_less) simp
  then have q1: "w0 div 2 ^ 44 \<le> 1" by simp
  show "t1 mod 2 ^ 44 + w0 div 2 ^ 44 < 2 ^ 44"
  proof (cases "t1 = 2 ^ 44")
    case True
    with q1 show ?thesis by simp
  next
    case False
    then have lt: "t1 < 2 ^ 44" using t1b by simp
    then have "t2 < 2 ^ 42" using mb [of s2 42] unfolding t2 by simp
    then have "f = 0" unfolding f by simp
    then have "w0 div 2 ^ 44 = 0" using m w0 by simp
    with lt show ?thesis by simp
  qed
  have lin: "c0 + 2 ^ 44 * (v1 + q3 + 2 ^ 44 * v2) + poly_p * (e + f) = h0 + 2 ^ 44 * (h1 + 2 ^ 44 * h2)"
    if "c0 + 2 ^ 44 * q3 = 5 * f + v0" "v0 + 2 ^ 44 * p0 = 5 * e + u0" "u0 + 2 ^ 44 * q0 = h0"
      "u1 + 2 ^ 44 * q1 = h1 + q0" "v1 + 2 ^ 44 * p1 = u1 + p0" "u2 + 2 ^ 42 * e = h2 + q1"
      "v2 + 2 ^ 42 * f = u2 + p1" for c0 v0 v1 v2 p0 p1 q0 q1 q3 u0 u1 u2 :: nat
    using that by (simp add: poly_p_def algebra_simps)
  show "w0 mod 2 ^ 44 + 2 ^ 44 * (t1 mod 2 ^ 44 + w0 div 2 ^ 44 + 2 ^ 44 * (t2 mod 2 ^ 42)) + poly_p * (e + f)
     = h0 + 2 ^ 44 * (h1 + 2 ^ 44 * h2)"
  proof (rule lin)
    show "w0 mod 2 ^ 44 + 2 ^ 44 * (w0 div 2 ^ 44) = 5 * f + y0 mod 2 ^ 44"
      by (simp only: mod_mult_div_eq w0)
    show "y0 mod 2 ^ 44 + 2 ^ 44 * (y0 div 2 ^ 44) = 5 * e + h0 mod 2 ^ 44"
      by (simp only: mod_mult_div_eq y0)
    show "h0 mod 2 ^ 44 + 2 ^ 44 * (h0 div 2 ^ 44) = h0" by (rule mod_mult_div_eq)
    show "s1 mod 2 ^ 44 + 2 ^ 44 * (s1 div 2 ^ 44) = h1 + h0 div 2 ^ 44"
      by (simp only: mod_mult_div_eq s1)
    show "t1 mod 2 ^ 44 + 2 ^ 44 * (t1 div 2 ^ 44) = s1 mod 2 ^ 44 + y0 div 2 ^ 44"
      by (simp only: mod_mult_div_eq t1)
    show "s2 mod 2 ^ 42 + 2 ^ 42 * e = h2 + s1 div 2 ^ 44" by (simp only: mod_mult_div_eq e s2)
    show "t2 mod 2 ^ 42 + 2 ^ 42 * f = s2 mod 2 ^ 42 + t1 div 2 ^ 44"
      by (simp only: mod_mult_div_eq f t2)
  qed
qed

text \<open>The masked subtraction of the prime.\<close>

lemma subtract_prime:
  assumes "canonical [a0, a1, a2]"
  defines "mk \<equiv> (FStar_UInt64_gte_mask a0 0xffffffffffb AND FStar_UInt64_eq_mask a1 0xfffffffffff)
                  AND FStar_UInt64_eq_mask a2 0x3ffffffffff"
  defines "c \<equiv> [a0 - (0xffffffffffb AND mk), a1 - (0xfffffffffff AND mk), a2 - (0x3ffffffffff AND mk)]"
  shows "canonical c" and "pval c = pval [a0, a1, a2] mod poly_p"
proof -
  have b: "unat a0 < 2 ^ 44" "unat a1 < 2 ^ 44" "unat a2 < 2 ^ 42"
    using assms(1) by (simp_all add: canonical_def)
  have g: "FStar_UInt64_gte_mask a0 0xffffffffffb = (if 0xffffffffffb \<le> a0 then - 1 else 0)"
    using b by (intro gte_mask64_small) simp_all
  show "canonical c" "pval c = pval [a0, a1, a2] mod poly_p"
  proof (atomize (full), cases "0xffffffffffb \<le> a0 \<and> a1 = 0xfffffffffff \<and> a2 = 0x3ffffffffff")
    case True
    then have c: "c = [a0 - 0xffffffffffb, 0, 0]" by (simp add: c_def mk_def g eq_mask64)
    have ge: "unat a0 \<ge> 0xffffffffffb" using True by (simp add: word_le_nat_alt)
    then have u: "unat (a0 - 0xffffffffffb) = unat a0 - 0xffffffffffb" by (subst unat_minus) simp_all
    have "unat a0 + 2 ^ 44 * (0xfffffffffff + 2 ^ 44 * 0x3ffffffffff) = unat a0 - 0xffffffffffb + poly_p"
      using ge by (simp add: poly_p_def)
    then have "pval [a0, a1, a2] = unat a0 - 0xffffffffffb + poly_p" using True by simp
    moreover have "unat a0 - 0xffffffffffb < poly_p" using b by (simp add: poly_p_def)
    ultimately show "canonical c \<and> pval c = pval [a0, a1, a2] mod poly_p"
      using b u by (simp add: c canonical_def)
  next
    case False
    then have c: "c = [a0, a1, a2]" by (auto simp: c_def mk_def g eq_mask64)
    have ne: "unat a0 < 0xffffffffffb \<or> unat a1 \<noteq> 0xfffffffffff \<or> unat a2 \<noteq> 0x3ffffffffff"
      using False by (auto simp: word_le_nat_alt not_le intro: word_unatI)
    have "pval [a0, a1, a2] < poly_p"
      using b ne by (simp add: poly_p_def) linarith
    with assms(1) show "canonical c \<and> pval c = pval [a0, a1, a2] mod poly_p" by (simp add: c)
  qed
qed

lemma carry_limb_eq:
  "Hacl_Bignum_Fproduct_carry_limb' [h0, h1, h2]
   = [h0 AND 0xfffffffffff, (h1 + drop_bit 44 h0) AND 0xfffffffffff, h2 + drop_bit 44 (h1 + drop_bit 44 h0)]"
  by (simp add: Hacl_Bignum_Fproduct_carry_limb'_def for_loop_small Let_def)

lemma carry_top_eq:
  "Hacl_Bignum_Modulo_carry_top [x, y, z]
   = [push_bit 2 (drop_bit 42 z) + drop_bit 42 z + x, y, z AND 0x3ffffffffff]"
  by (simp add: Hacl_Bignum_Modulo_carry_top_def Let_def)

lemma last_pass_correct:
  assumes "acc_ok h"
  shows "canonical (Hacl_Impl_Poly1305_64_poly1305_last_pass h)"
    and "pval (Hacl_Impl_Poly1305_64_poly1305_last_pass h) = pval h mod poly_p"
proof -
  obtain h0 h1 h2 where h: "h = [h0, h1, h2]" using assms by (auto simp: acc_ok_def elim: list3E)
  have b: "unat h0 < 2 ^ 44" "unat h1 < 2 ^ 45" "unat h2 < 2 ^ 42"
    using assms by (simp_all add: acc_ok_def h)
  define s1 where "s1 = h1 + drop_bit 44 h0"
  define s2 where "s2 = h2 + drop_bit 44 s1"
  define e where "e = drop_bit 42 s2"
  define y0 where "y0 = push_bit 2 e + e + (h0 AND 0xfffffffffff)"
  define t1 where "t1 = (s1 AND 0xfffffffffff) + drop_bit 44 y0"
  define t2 where "t2 = (s2 AND 0x3ffffffffff) + drop_bit 44 t1"
  define f where "f = drop_bit 42 t2"
  define w0 where "w0 = push_bit 2 f + f + (y0 AND 0xfffffffffff)"
  define c where "c = [w0 AND 0xfffffffffff, (t1 AND 0xfffffffffff) + drop_bit 44 w0, t2 AND 0x3ffffffffff]"
  have s1: "unat s1 = unat h1 + unat h0 div 2 ^ 44"
    unfolding s1_def using b by (subst unat_plus) (simp_all add: unat_shr)
  note nat = two_passes_nat [OF b s1 refl refl refl refl refl refl refl]
  have s2: "unat s2 = unat h2 + unat s1 div 2 ^ 44"
    unfolding s2_def using nat(2) by (subst unat_plus) (simp_all add: unat_shr)
  have e: "unat e = unat s2 div 2 ^ 42" unfolding e_def by (rule unat_shr)
  note nat = two_passes_nat [OF b s1 s2 e refl refl refl refl refl]
  have e5: "unat (push_bit 2 e + e) = 5 * unat e" using nat(3) by (intro unat_times_5) simp
  have y0: "unat y0 = 5 * unat e + unat h0 mod 2 ^ 44"
    unfolding y0_def using nat(4) e5 by (subst unat_plus) (simp_all add: and_mask_44)
  note nat = two_passes_nat [OF b s1 s2 e y0 refl refl refl refl]
  have t1: "unat t1 = unat s1 mod 2 ^ 44 + unat y0 div 2 ^ 44"
    unfolding t1_def using nat(5) by (subst unat_plus) (simp_all add: and_mask_44 unat_shr)
  note nat = two_passes_nat [OF b s1 s2 e y0 t1 refl refl refl]
  have t2: "unat t2 = unat s2 mod 2 ^ 42 + unat t1 div 2 ^ 44"
    unfolding t2_def using nat(6) by (subst unat_plus) (simp_all add: and_mask_42 unat_shr)
  have f: "unat f = unat t2 div 2 ^ 42" unfolding f_def by (rule unat_shr)
  note nat = two_passes_nat [OF b s1 s2 e y0 t1 t2 f refl]
  have f5: "unat (push_bit 2 f + f) = 5 * unat f" using nat(7) by (intro unat_times_5) simp
  have w0: "unat w0 = 5 * unat f + unat y0 mod 2 ^ 44"
    unfolding w0_def using nat(8) f5 by (subst unat_plus) (simp_all add: and_mask_44)
  note nat = two_passes_nat [OF b s1 s2 e y0 t1 t2 f w0]
  have c1: "unat ((t1 AND 0xfffffffffff) + drop_bit 44 w0) = unat t1 mod 2 ^ 44 + unat w0 div 2 ^ 44"
    using nat(9) by (subst unat_plus) (simp_all add: and_mask_44 unat_shr)
  have c_ok: "canonical c"
    using nat(9) c1 by (simp add: canonical_def c_def and_mask_44 and_mask_42)
  have "pval c + poly_p * (unat e + unat f) = pval h"
    using nat(10) by (simp add: c_def h and_mask_44 and_mask_42 c1)
  then have c_val: "pval c mod poly_p = pval h mod poly_p" by (metis mod_mult_self2)
  have eq: "Hacl_Impl_Poly1305_64_poly1305_last_pass h
      = (let mk = (FStar_UInt64_gte_mask (c ! 0) 0xffffffffffb AND FStar_UInt64_eq_mask (c ! 1) 0xfffffffffff)
                  AND FStar_UInt64_eq_mask (c ! 2) 0x3ffffffffff
         in [c ! 0 - (0xffffffffffb AND mk), c ! 1 - (0xfffffffffff AND mk), c ! 2 - (0x3ffffffffff AND mk)])"
    by (simp only: Hacl_Impl_Poly1305_64_poly1305_last_pass_def carry_limb_eq carry_top_eq Let_def c_def h
        limbs3 s1_def [symmetric] s2_def [symmetric] e_def [symmetric] y0_def [symmetric]
        t1_def [symmetric] t2_def [symmetric] f_def [symmetric] w0_def [symmetric]
        cong: let_weak_cong)
  have "canonical [c ! 0, c ! 1, c ! 2]" "pval [c ! 0, c ! 1, c ! 2] = pval c"
    using c_ok by (simp_all add: c_def)
  with subtract_prime [of "c ! 0" "c ! 1" "c ! 2"] c_val
  show "canonical (Hacl_Impl_Poly1305_64_poly1305_last_pass h)"
    "pval (Hacl_Impl_Poly1305_64_poly1305_last_pass h) = pval h mod poly_p"
    by (simp_all only: eq Let_def)
qed

text \<open>Repacking the limbs into 128 bits drops the two top bits of the number.\<close>

lemma pack_limbs:
  assumes "canonical [h0, h1, h2]"
  shows "unat (u128_logor (u128_shift_left (uint64_to_uint128 (push_bit 24 h2 OR drop_bit 20 h1)) 64)
                 (uint64_to_uint128 (push_bit 44 h1 OR h0))) = pval [h0, h1, h2] mod 2 ^ 128"
proof -
  have b: "unat h0 < 2 ^ 44" "unat h1 < 2 ^ 44" "unat h2 < 2 ^ 42"
    using assms by (simp_all add: canonical_def)
  have h1s: "unat (drop_bit 20 h1) < 2 ^ 24"
    unfolding unat_shr using b by (intro less_mult_imp_div_less) simp
  have hi: "unat (push_bit 24 h2 OR drop_bit 20 h1) = (unat h2 * 2 ^ 24 + unat h1 div 2 ^ 20) mod 2 ^ 64"
    using or_eq_plus [OF h1s, of h2]
    by (simp add: unat_word_ariths push_bit_eq_mult unat_shr mod_simps mult.commute)
  have lo: "unat (push_bit 44 h1 OR h0) = (unat h1 * 2 ^ 44 + unat h0) mod 2 ^ 64"
    using or_eq_plus [OF b(1), of h1]
    by (simp add: unat_word_ariths push_bit_eq_mult mod_simps mult.commute)
  have "unat (push_bit 44 h1 OR h0) < 2 ^ 64" using unat_bound [of "push_bit 44 h1 OR h0"] by simp
  moreover have "unat (push_bit 24 h2 OR drop_bit 20 h1) * 2 ^ 64 + unat (push_bit 44 h1 OR h0) < 2 ^ 128"
    using unat_bound [of "push_bit 44 h1 OR h0"] unat_bound [of "push_bit 24 h2 OR drop_bit 20 h1"] by simp
  ultimately have "unat (u128_logor (u128_shift_left (uint64_to_uint128 (push_bit 24 h2 OR drop_bit 20 h1)) 64)
        (uint64_to_uint128 (push_bit 44 h1 OR h0)))
      = unat (push_bit 24 h2 OR drop_bit 20 h1) * 2 ^ 64 + unat (push_bit 44 h1 OR h0)"
    unfolding u128_logor_def u128_shift_left_def
    by (subst unat_or_shift) (simp_all add: native.val_of [unfolded])
  also have "\<dots> = pval [h0, h1, h2] mod 2 ^ 128"
  proof -
    have p: "(x + 2 ^ 64 * y) mod 2 ^ 128 = x mod 2 ^ 64 + 2 ^ 64 * ((y + x div 2 ^ 64) mod 2 ^ 64)" for x y :: nat
      using mod_mult2_eq [of "x + 2 ^ 64 * y" "2 ^ 64" "2 ^ 64"] by simp
    have d: "unat h1 = unat h1 mod 2 ^ 20 + 2 ^ 20 * (unat h1 div 2 ^ 20)" by simp
    have l: "unat h1 mod 2 ^ 20 * 2 ^ 44 + unat h0 < 2 ^ 64"
      using b(1) mod_less_divisor [of "2 ^ 20" "unat h1"] by simp
    have sp: "m * 2 ^ 44 + z = a * 2 ^ 44 + z + 2 ^ 64 * q" if "m = a + 2 ^ 20 * q" for m a q z :: nat
      using that by simp
    have "unat h1 * 2 ^ 44 + unat h0 = unat h1 mod 2 ^ 20 * 2 ^ 44 + unat h0 + 2 ^ 64 * (unat h1 div 2 ^ 20)"
      using d by (rule sp)
    then have lo': "(unat h1 * 2 ^ 44 + unat h0) mod 2 ^ 64 = unat h1 mod 2 ^ 20 * 2 ^ 44 + unat h0"
      by (simp only: mod_mult_self2 mod_less [OF l])
    have "pval [h0, h1, h2] = unat h1 * 2 ^ 44 + unat h0 + 2 ^ 88 * unat h2" by simp
    also have "\<dots> = (unat h1 mod 2 ^ 20 * 2 ^ 44 + unat h0) + 2 ^ 64 * (unat h2 * 2 ^ 24 + unat h1 div 2 ^ 20)"
      unfolding sp [OF d] by simp
    finally have "pval [h0, h1, h2] = (unat h1 mod 2 ^ 20 * 2 ^ 44 + unat h0)
            + 2 ^ 64 * (unat h2 * 2 ^ 24 + unat h1 div 2 ^ 20)" .
    then show ?thesis using l by (simp only: hi lo lo' p) simp
  qed
  finally show ?thesis .
qed

section \<open>The tag\<close>

lemma finish_correct:
  assumes "canonical (poly_h st)" and "16 \<le> length mac" and "16 \<le> length k"
  shows "Hacl_Poly1305_64_finish st mac k
         = le_bytes 16 ((pval (poly_h st) + le_val (take 16 k)) mod 2 ^ 128) @ drop 16 mac"
proof -
  have "length (poly_h st) = 3" using assms(1) by (simp add: canonical_def)
  then obtain h0 h1 h2 where h: "poly_h st = [h0, h1, h2]" by (rule list3E)
  let ?a = "u128_logor (u128_shift_left (uint64_to_uint128 (push_bit 24 h2 OR drop_bit 20 h1)) 64)
                 (uint64_to_uint128 (push_bit 44 h1 OR h0))"
  have "unat ?a = pval (poly_h st) mod 2 ^ 128" using assms(1) unfolding h by (rule pack_limbs)
  then have "unat (u128_add_mod ?a (load128_le k)) = (pval (poly_h st) + le_val (take 16 k)) mod 2 ^ 128"
    using assms(3) by (simp add: native.val_add_mod unat_load128_le mod_simps)
  then show ?thesis
    using assms(2) by (simp add: Hacl_Poly1305_64_finish_def Let_def h store128_le_eq)
qed

lemma clamp_constant:
  "u128_logor (u128_shift_left (uint64_to_uint128 0x0ffffffc0ffffffc) 64)
     (uint64_to_uint128 0x0ffffffc0fffffff) = 0x0ffffffc0ffffffc0ffffffc0fffffff"
  by (simp add: u128_logor_def u128_shift_left_def uint64_to_uint128_def push_bit_eq_mult)

lemma init_correct:
  assumes "length (poly_r st) = 3" and "length (poly_h st) = 3"
  shows "poly_ok (Hacl_Poly1305_64_init st k)" and "pval (poly_r (Hacl_Poly1305_64_init st k)) = clamp k"
    and "poly_acc (Hacl_Poly1305_64_init st k) = 0"
proof -
  obtain a0 a1 a2 where r: "poly_r st = [a0, a1, a2]" using assms(1) by (rule list3E)
  obtain h0 h1 h2 where h: "poly_h st = [h0, h1, h2]" using assms(2) by (rule list3E)
  let ?w = "load128_le k AND 0x0ffffffc0ffffffc0ffffffc0fffffff"
  note sp = split_limbs [of ?w]
  have "Hacl_Poly1305_64_init st k = st\<lparr>poly_r := [uint128_to_uint64 ?w AND 0xfffffffffff,
      uint128_to_uint64 (u128_shift_right ?w 44) AND 0xfffffffffff,
      uint128_to_uint64 (u128_shift_right ?w 88)], poly_h := [0, 0, 0]\<rparr>"
    by (simp only: Hacl_Poly1305_64_init_def clamp_constant u128_logand_def Let_def r h limbs3) (simp add: h)
  with sp show "poly_ok (Hacl_Poly1305_64_init st k)"
    "pval (poly_r (Hacl_Poly1305_64_init st k)) = clamp k"
    "poly_acc (Hacl_Poly1305_64_init st k) = 0"
    by (simp_all add: poly_ok_def arg_ok_def acc_ok_def poly_acc_def clamp_def del: eval_limbs.simps(2))
       simp
qed

lemma partial_eq:
  "Hacl_Standalone_Poly1305_64_poly1305_partial st m len k
   = Hacl_Standalone_Poly1305_64_poly1305_blocks (Hacl_Poly1305_64_init st k) m len"
  by (simp add: Hacl_Standalone_Poly1305_64_poly1305_partial_def Hacl_Poly1305_64_init_def Let_def)

lemma poly_r_last: "poly_acc st < poly_p" by (simp add: poly_acc_def poly_p_pos)

lemma update_last_correct:
  assumes "poly_ok st" and "unat len < 16" and "unat len \<le> length m"
  defines "st' \<equiv> Hacl_Poly1305_64_update_last st m len"
  shows "canonical (poly_h st')"
    and "pval (poly_h st') = poly_eval (pval (poly_r st)) (poly_acc st) (take (unat len) m)"
proof -
  let ?len = "ucast len :: u64"
  let ?st = "if ?len = 0 then st else Hacl_Impl_Poly1305_64_poly1305_process_last_block st m ?len"
  have u: "unat ?len = unat len" by (simp add: unat_ucast_same_or_up)
  have z: "?len = 0 \<longleftrightarrow> unat len = 0" by (simp flip: u add: unat_eq_zero)
  have ok: "poly_ok ?st" "poly_acc ?st = poly_eval (pval (poly_r st)) (poly_acc st) (take (unat len) m)"
    using assms(1-3) last_block_correct [of st ?len m] by (auto simp: z u poly_eval_last)
  have "st' = ?st\<lparr>poly_h := Hacl_Impl_Poly1305_64_poly1305_last_pass (poly_h ?st)\<rparr>"
    by (simp add: st'_def Hacl_Poly1305_64_update_last_def Let_def)
  then show "canonical (poly_h st')"
    and "pval (poly_h st') = poly_eval (pval (poly_r st)) (poly_acc st) (take (unat len) m)"
    using ok last_pass_correct [of "poly_h ?st"] by (simp_all add: poly_ok_def poly_acc_def)
qed

text \<open>Init, blocks, last block, finish: the tag of the whole message.\<close>

locale poly_mac = poly_machine +
  fixes start :: "bytes \<Rightarrow> 's" and last :: "'s \<Rightarrow> bytes \<Rightarrow> u32 \<Rightarrow> 's" and done' :: "'s \<Rightarrow> bytes \<Rightarrow> bytes \<Rightarrow> bytes"
  assumes start: "ok (start k) \<and> rv (r (start k)) = clamp k \<and> acc (start k) = 0"
    and finish: "ok st \<Longrightarrow> unat len < 16 \<Longrightarrow> unat len \<le> length m \<Longrightarrow> 16 \<le> length out \<Longrightarrow> 16 \<le> length k \<Longrightarrow>
      done' (last st m len) out k
      = le_bytes 16 ((poly_eval (rv (r st)) (acc st) (take (unat len) m) + le_val (take 16 k)) mod 2 ^ 128)
        @ drop 16 out"
begin

lemma machine_tag:
  assumes "16 * unat n + unat len \<le> length m" and "unat len < 16" and "32 \<le> length k" and "16 \<le> length out"
  shows "done' (last (run (start k) m n) (drop (16 * unat n) m) len) out (drop 16 k)
         = poly1305_mac (take (16 * unat n + unat len) m) k @ drop 16 out"
proof -
  have b: "ok (run (start k) m n)" "r (run (start k) m n) = r (start k)"
    "acc (run (start k) m n) = poly_eval (clamp k) 0 (take (16 * unat n) m)"
    using machine_run [of "start k" n m] start [of k] assms(1) by simp_all
  have "take (16 * unat n + unat len) m = take (16 * unat n) m @ take (unat len) (drop (16 * unat n) m)"
    by (rule take_add)
  then have "poly_eval (clamp k) 0 (take (16 * unat n + unat len) m)
      = poly_eval (clamp k) (poly_eval (clamp k) 0 (take (16 * unat n) m)) (take (unat len) (drop (16 * unat n) m))"
    using assms(1) by (simp add: poly_eval_append [of _ "unat n"])
  then show ?thesis
    using b start [of k] assms finish [OF b(1), of len "drop (16 * unat n) m" out "drop 16 k"]
    by (simp add: poly1305_mac_def)
qed

end

text \<open>The 64-bit code starts from any state whose buffers have three limbs.\<close>

lemma finish_last:
  assumes "poly_ok st" and "unat len < 16" and "unat len \<le> length m" and "16 \<le> length out" and "16 \<le> length k"
  shows "Hacl_Poly1305_64_finish (Hacl_Poly1305_64_update_last st m len) out k
     = le_bytes 16 ((poly_eval (pval (poly_r st)) (poly_acc st) (take (unat len) m) + le_val (take 16 k)) mod 2 ^ 128)
       @ drop 16 out"
  using update_last_correct [OF assms(1-3)] assms(4,5) by (simp add: finish_correct)

definition poly64_start :: "bytes \<Rightarrow> poly1305_state" where
  "poly64_start k = Hacl_Poly1305_64_init (Hacl_Poly1305_64_mk_state [0, 0, 0] [0, 0, 0]) k"

interpretation mac64: poly_mac poly_ok poly_r pval poly_acc Hacl_Impl_Poly1305_64_poly1305_update
  Hacl_Standalone_Poly1305_64_poly1305_blocks poly64_start Hacl_Poly1305_64_update_last Hacl_Poly1305_64_finish
  by unfold_locales
     (simp add: poly64_start_def init_correct Hacl_Poly1305_64_mk_state_def Hacl_Impl_Poly1305_64_mk_state_def,
      rule finish_last)

lemma init_start:
  assumes "length (poly_r st) = 3" and "length (poly_h st) = 3"
  shows "Hacl_Poly1305_64_init st k = poly64_start k"
proof -
  obtain a b c x y z where "st = \<lparr>poly_r = [a, b, c], poly_h = [x, y, z]\<rparr>"
    using assms by (cases st) (auto elim!: list3E)
  then show ?thesis
    by (simp add: poly64_start_def Hacl_Poly1305_64_init_def Hacl_Poly1305_64_mk_state_def
        Hacl_Impl_Poly1305_64_mk_state_def Let_def limbs3)
qed

lemma stream_correct:
  assumes "length (poly_r st) = 3" and "length (poly_h st) = 3"
    and "16 * unat n + unat len \<le> length m" and "unat len < 16" and "32 \<le> length k" and "16 \<le> length out"
  shows "Hacl_Poly1305_64_finish
           (Hacl_Poly1305_64_update_last
             (Hacl_Standalone_Poly1305_64_poly1305_blocks (Hacl_Poly1305_64_init st k) m n)
             (drop (16 * unat n) m) len) out (drop 16 k)
         = poly1305_mac (take (16 * unat n + unat len) m) k @ drop 16 out"
  unfolding init_start [OF assms(1,2)] using assms(3-6) by (rule mac64.machine_tag)

lemma onetimeauth_eq:
  "Hacl_Poly1305_64_crypto_onetimeauth out m len k
   = Hacl_Poly1305_64_finish
       (Hacl_Standalone_Poly1305_64_poly1305_complete
          (Hacl_Poly1305_64_mk_state (replicate 3 0) (replicate 3 0)) m len k) out (drop 16 k)"
  by (simp only: Hacl_Poly1305_64_crypto_onetimeauth_def Hacl_Standalone_Poly1305_64_crypto_onetimeauth_def
      Hacl_Standalone_Poly1305_64_crypto_onetimeauth'_def Hacl_Poly1305_64_mk_state_def
      Hacl_Poly1305_64_finish_def Let_def)

text \<open>The one-shot function runs the streaming operations on its own state.\<close>

lemma length_split:
  fixes len :: u64
  assumes "unat len < 2 ^ 32"
  shows "len AND 0xf = ucast (word_of_nat (unat len mod 16) :: u32)"
    and "unat (ucast (16 * drop_bit 4 len) :: u32) = 16 * (unat len div 16)"
proof -
  have l: "unat (word_of_nat (unat len mod 16) :: u32) = unat len mod 16" by (simp add: unat_of_nat)
  have "(0xf :: u64) = mask 4" by (simp add: mask_eq_exp_minus_1)
  then have "unat (len AND 0xf) = unat len mod 16" by (simp only: unat_and_mask) simp
  then show "len AND 0xf = ucast (word_of_nat (unat len mod 16) :: u32)"
    by (intro word_unatI) (simp add: l unat_ucast_same_or_up)
  have "unat (16 * drop_bit 4 len) = 16 * (unat len div 16)"
    using assms(1) by (subst unat_times) (simp_all add: unat_shr)
  then show "unat (ucast (16 * drop_bit 4 len) :: u32) = 16 * (unat len div 16)"
    using assms(1) by (simp add: unat_ucast_down)
qed

lemma complete_eq:
  assumes "unat len < 2 ^ 32"
  defines "l \<equiv> word_of_nat (unat len mod 16) :: u32"
  shows "Hacl_Standalone_Poly1305_64_poly1305_complete st m len k
         = Hacl_Poly1305_64_update_last
             (Hacl_Standalone_Poly1305_64_poly1305_blocks (Hacl_Poly1305_64_init st k) m (drop_bit 4 len))
             (drop (16 * (unat len div 16)) m) l"
  by (simp only: Hacl_Standalone_Poly1305_64_poly1305_complete_def Hacl_Poly1305_64_update_last_def
      Let_def partial_eq length_split [OF assms(1)] l_def)

lemma onetimeauth_correct:
  assumes "unat len < 2 ^ 32" and "unat len \<le> length m" and "32 \<le> length k" and "16 \<le> length out"
  shows "Hacl_Poly1305_64_crypto_onetimeauth out m len k
         = poly1305_mac (take (unat len) m) k @ drop 16 out"
proof -
  let ?l = "word_of_nat (unat len mod 16) :: u32"
  have l: "unat ?l = unat len mod 16" by (simp add: unat_of_nat)
  have n: "unat (drop_bit 4 len) = unat len div 16" by (simp add: unat_shr)
  have "16 * (unat len div 16) + unat len mod 16 = unat len" by simp
  then show ?thesis
    using assms stream_correct [of "Hacl_Poly1305_64_mk_state (replicate 3 0) (replicate 3 0)"
        "drop_bit 4 len" ?l m k out]
    by (simp add: onetimeauth_eq complete_eq l n Hacl_Poly1305_64_mk_state_def Hacl_Impl_Poly1305_64_mk_state_def)
qed

lemma length_mac [simp]: "length (poly1305_mac m k) = 16"
  by (simp add: poly1305_mac_def)

lemma poly1305_mac_take: "32 \<le> length k \<Longrightarrow> poly1305_mac m (take 32 k) = poly1305_mac m k"
  by (simp add: poly1305_mac_def clamp_def load128_le_eq drop_take min_def)

section \<open>Properties\<close>

text \<open>
  C21: The one-time authenticator writes the Poly1305 tag of RFC 8439 for the first \<open>len\<close> bytes
  (every length below \<open>2 ^ 32\<close>, empty and partial last blocks included) to the first 16
  bytes of the output: the limb arithmetic never overflows and the final reduction is complete.
\<close>

theorem poly1305_tag:
  assumes "unat len < 2 ^ 32" and "unat len \<le> length m" and "32 \<le> length k" and "16 \<le> length out"
  shows "Hacl_Poly1305_64_crypto_onetimeauth out m len k
         = poly1305_mac (take (unat len) m) k @ drop 16 out"
  using assms by (rule onetimeauth_correct)

theorem poly1305_tag_witness:
  "Hacl_Poly1305_64_crypto_onetimeauth (replicate 17 9) (replicate 20 7) 19 (replicate 32 1)
   = poly1305_mac (replicate 19 7) (replicate 32 1) @ [9]"
  using poly1305_tag [of 19 "replicate 20 7" "replicate 32 1" "replicate 17 9"]
  by (simp add: drop_replicate)

text \<open>
  The streaming interface (init, any split of the full blocks into two updates, last
  partial block, finish) computes the same tag as the one-shot function.
\<close>

theorem poly1305_streaming:
  assumes "16 * (unat n1 + unat n2) + unat len \<le> length m" and "unat len < 16"
    and "16 * (unat n1 + unat n2) + unat len < 2 ^ 32" and "32 \<le> length k" and "16 \<le> length out"
    and "st = Hacl_Poly1305_64_init (Hacl_Poly1305_64_mk_state [0, 0, 0] [0, 0, 0]) k"
    and "st1 = Hacl_Poly1305_64_update st m n1"
    and "st2 = Hacl_Poly1305_64_update st1 (drop (16 * unat n1) m) n2"
    and "st3 = Hacl_Poly1305_64_update_last st2 (drop (16 * (unat n1 + unat n2)) m) len"
  shows "Hacl_Poly1305_64_finish st3 out (drop 16 k)
         = Hacl_Poly1305_64_crypto_onetimeauth out m
             (16 * (ucast n1 + ucast n2) + ucast len) k"
proof -
  let ?s = "Hacl_Poly1305_64_mk_state [0, 0, 0] [0, 0, 0]"
  let ?n = "ucast n1 + ucast n2 :: u64"
  define L :: u64 where "L = 16 * ?n + ucast len"
  have u: "unat (ucast x :: u64) = unat x" for x :: u32 by (simp add: unat_ucast_same_or_up)
  have n: "unat ?n = unat n1 + unat n2" using assms(3) by (subst unat_plus) (simp_all add: u)
  have "unat (16 * ?n) = 16 * (unat n1 + unat n2)" using assms(3) by (subst unat_times) (simp_all add: n)
  then have l: "unat L = 16 * (unat n1 + unat n2) + unat len"
    unfolding L_def using assms(3) by (subst unat_plus) (simp_all add: u)
  have "st2 = Hacl_Standalone_Poly1305_64_poly1305_blocks (Hacl_Poly1305_64_init ?s k) m ?n"
    using assms(3) blocks_append [of "ucast n1" "ucast n2" "Hacl_Poly1305_64_init ?s k" m]
    by (simp add: assms(6-8) update_eq_blocks u)
  then have "Hacl_Poly1305_64_finish st3 out (drop 16 k)
      = poly1305_mac (take (unat L) m) k @ drop 16 out"
    using stream_correct [of ?s ?n len m k out] assms(1,2,4,5,9)
    by (simp add: n l Hacl_Poly1305_64_mk_state_def Hacl_Impl_Poly1305_64_mk_state_def)
  moreover have "Hacl_Poly1305_64_crypto_onetimeauth out m L k
      = poly1305_mac (take (unat L) m) k @ drop 16 out"
    by (rule onetimeauth_correct) (use assms(1-5) in \<open>simp_all only: l\<close>)
  ultimately show ?thesis by (simp only: L_def)
qed

theorem poly1305_streaming_witness:
  "Hacl_Poly1305_64_finish
     (Hacl_Poly1305_64_update_last
       (Hacl_Poly1305_64_update
         (Hacl_Poly1305_64_update
           (Hacl_Poly1305_64_init (Hacl_Poly1305_64_mk_state [0, 0, 0] [0, 0, 0]) (replicate 32 1))
           (replicate 50 7) 2)
         (drop 32 (replicate 50 7)) 1)
       (drop 48 (replicate 50 7)) 2) (replicate 16 0) (drop 16 (replicate 32 1))
   = Hacl_Poly1305_64_crypto_onetimeauth (replicate 16 0) (replicate 50 7) 50 (replicate 32 1)"
  using poly1305_streaming [of 2 1 2 "replicate 50 7" "replicate 32 1" "replicate 16 0", OF _ _ _ _ _ refl refl refl refl]
  by (simp add: drop_replicate)

text \<open>
  The product of a reduced accumulator plus a block with a clamped key is again reduced,
  and its value is the product of the values modulo \<open>2 ^ 130 - 5\<close>.
\<close>

theorem poly1305_field_mult:
  assumes "acc_ok acc" and "arg_ok block" and "arg_ok r"
  shows "acc_ok (Hacl_Bignum_AddAndMultiply_add_and_multiply acc block r)
         \<and> pval (Hacl_Bignum_AddAndMultiply_add_and_multiply acc block r) mod poly_p
           = ((pval acc + pval block) * pval r) mod poly_p"
  using assms add_and_multiply_correct by blast

theorem poly1305_field_mult_witness:
  "acc_ok (Hacl_Bignum_AddAndMultiply_add_and_multiply
             [0xfffffffffff, 0xfffffffffff, 0x3ffffffffff] [0xfffffffffff, 0xfffffffffff, 0x1ffffffffff]
             [0xffc0fffffff, 0xfffffc0ffff, 0xffffffc0f])
   \<and> pval (Hacl_Bignum_AddAndMultiply_add_and_multiply
             [0xfffffffffff, 0xfffffffffff, 0x3ffffffffff] [0xfffffffffff, 0xfffffffffff, 0x1ffffffffff]
             [0xffc0fffffff, 0xfffffc0ffff, 0xffffffc0f]) mod poly_p
     = ((pval [0xfffffffffff, 0xfffffffffff, 0x3ffffffffff] + pval [0xfffffffffff, 0xfffffffffff, 0x1ffffffffff])
        * pval [0xffc0fffffff, 0xfffffc0ffff, 0xffffffc0f]) mod poly_p"
  by (rule poly1305_field_mult) (simp_all add: acc_ok_def arg_ok_def)

text \<open>
  The final reduction returns the canonical representative: reduced limbs whose value is
  the accumulator modulo \<open>2 ^ 130 - 5\<close> (so below the prime).
\<close>

theorem poly1305_last_pass_canonical:
  assumes "acc_ok h"
  shows "canonical (Hacl_Impl_Poly1305_64_poly1305_last_pass h)
         \<and> pval (Hacl_Impl_Poly1305_64_poly1305_last_pass h) = pval h mod poly_p"
  using assms last_pass_correct by blast

theorem poly1305_last_pass_canonical_witness:
  "canonical (Hacl_Impl_Poly1305_64_poly1305_last_pass [0xffffffffffc, 0x1fffffffffff, 0x3ffffffffff])
   \<and> pval (Hacl_Impl_Poly1305_64_poly1305_last_pass [0xffffffffffc, 0x1fffffffffff, 0x3ffffffffff])
     = pval [0xffffffffffc, 0x1fffffffffff, 0x3ffffffffff] mod poly_p"
  by (rule poly1305_last_pass_canonical) (simp add: acc_ok_def)

end
