(* ===== verification/Poly1305_32.thy ===== *)
theory Poly1305_32
  imports Poly1305_64
begin

text \<open>
  \<open>Hacl_Poly1305_32.c\<close>: Poly1305 with five limbs of 26 bits and 64-bit products, for processors
  without a 128-bit product.  The functions of the file that have the name of one of
  \<open>Hacl_Poly1305_64.c\<close> carry the suffix \<open>_p32\<close> here.  The theory shows that the code computes the
  same polynomial of RFC 8439, so that the two implementations agree.
\<close>

section \<open>The field arithmetic\<close>

definition Hacl_Bignum_Modulo_reduce_p32 :: "u32 list \<Rightarrow> u32 list" where
  "Hacl_Bignum_Modulo_reduce_p32 b = (let b0 = b ! 0 in b[0 := push_bit 2 b0 + b0])"

definition Hacl_Bignum_Modulo_carry_top_p32 :: "u32 list \<Rightarrow> u32 list" where
  "Hacl_Bignum_Modulo_carry_top_p32 b =
     (let b4 = b ! 4; b0 = b ! 0; b4_26 = drop_bit 26 b4;
          b = b[4 := b4 AND 0x3ffffff];
          b = b[0 := push_bit 2 b4_26 + b4_26 + b0]
      in b)"

definition Hacl_Bignum_Modulo_carry_top_wide_p32 :: "u64 list \<Rightarrow> u64 list" where
  "Hacl_Bignum_Modulo_carry_top_wide_p32 b =
     (let b4 = b ! 4; b0 = b ! 0;
          b4' = b4 AND ucast (0x3ffffff :: u32);
          b4_26 = (ucast (drop_bit 26 b4) :: u32);
          b0' = b0 + ucast (push_bit 2 b4_26 + b4_26);
          b = b[4 := b4'];
          b = b[0 := b0']
      in b)"

definition Hacl_Bignum_Fproduct_copy_from_wide_p32 :: "u32 list \<Rightarrow> u64 list \<Rightarrow> u32 list" where
  "Hacl_Bignum_Fproduct_copy_from_wide_p32 output input =
     for_loop 0 5 (\<lambda>i output. let xi = input ! i in output[i := ucast xi]) output"

definition Hacl_Bignum_Fproduct_sum_scalar_multiplication_p32 ::
    "u64 list \<Rightarrow> u32 list \<Rightarrow> u32 \<Rightarrow> u64 list" where
  "Hacl_Bignum_Fproduct_sum_scalar_multiplication_p32 output input s =
     for_loop 0 5
       (\<lambda>i output. let xi = output ! i; yi = input ! i; x_wide = ucast yi; y_wide = ucast s
                   in output[i := xi + x_wide * y_wide]) output"

definition Hacl_Bignum_Fproduct_carry_wide_p32 :: "u64 list \<Rightarrow> u64 list" where
  "Hacl_Bignum_Fproduct_carry_wide_p32 tmp =
     for_loop 0 4
       (\<lambda>ctr tmp. let tctr = tmp ! ctr; tctrp1 = tmp ! (ctr + 1);
                      r0 = (ucast tctr :: u32) AND 0x3ffffff;
                      c = drop_bit 26 tctr;
                      tmp = tmp[ctr := ucast r0];
                      tmp = tmp[ctr + 1 := tctrp1 + c]
                  in tmp) tmp"

definition Hacl_Bignum_Fproduct_carry_limb_p32 :: "u32 list \<Rightarrow> u32 list" where
  "Hacl_Bignum_Fproduct_carry_limb_p32 tmp =
     for_loop 0 4
       (\<lambda>ctr tmp. let tctr = tmp ! ctr; tctrp1 = tmp ! (ctr + 1);
                      r0 = tctr AND 0x3ffffff;
                      c = drop_bit 26 tctr;
                      tmp = tmp[ctr := r0];
                      tmp = tmp[ctr + 1 := tctrp1 + c]
                  in tmp) tmp"

definition Hacl_Bignum_Fmul_shift_reduce_p32 :: "u32 list \<Rightarrow> u32 list" where
  "Hacl_Bignum_Fmul_shift_reduce_p32 output =
     (let tmp = output ! 4;
          output = for_loop 0 4
                     (\<lambda>i output. let ctr = 5 - i - 1; z = output ! (ctr - 1) in output[ctr := z]) output;
          output = output[0 := tmp]
      in Hacl_Bignum_Modulo_reduce_p32 output)"

definition Hacl_Bignum_Fmul_mul_shift_reduce_p32 ::
    "u64 list \<Rightarrow> u32 list \<Rightarrow> u32 list \<Rightarrow> u64 list \<times> u32 list" where
  "Hacl_Bignum_Fmul_mul_shift_reduce_p32 output input input2 =
     (let (output, input) =
            for_loop 0 4
              (\<lambda>i (output, input).
                 let input2i = input2 ! i;
                     output = Hacl_Bignum_Fproduct_sum_scalar_multiplication_p32 output input input2i;
                     input = Hacl_Bignum_Fmul_shift_reduce_p32 input
                 in (output, input)) (output, input);
          i = 4;
          input2i = input2 ! i
      in (Hacl_Bignum_Fproduct_sum_scalar_multiplication_p32 output input input2i, input))"

definition Hacl_Bignum_Fmul_fmul_p32 :: "u32 list \<Rightarrow> u32 list \<Rightarrow> u32 list \<Rightarrow> u32 list" where
  "Hacl_Bignum_Fmul_fmul_p32 output input input2 =
     (let tmp = memcpy (replicate 5 0) input 5;
          t = replicate 5 0;
          (t, tmp) = Hacl_Bignum_Fmul_mul_shift_reduce_p32 t tmp input2;
          t = Hacl_Bignum_Fproduct_carry_wide_p32 t;
          t = Hacl_Bignum_Modulo_carry_top_wide_p32 t;
          output = Hacl_Bignum_Fproduct_copy_from_wide_p32 output t;
          i0 = output ! 0; i1 = output ! 1;
          i0' = i0 AND 0x3ffffff;
          i1' = i1 + drop_bit 26 i0;
          output = output[0 := i0'];
          output = output[1 := i1']
      in output)"

text \<open>The C code passes \<open>acc\<close> both as output and as input of the product.\<close>

definition Hacl_Bignum_AddAndMultiply_add_and_multiply_p32 :: "u32 list \<Rightarrow> u32 list \<Rightarrow> u32 list \<Rightarrow> u32 list" where
  "Hacl_Bignum_AddAndMultiply_add_and_multiply_p32 acc block r =
     (let acc = for_loop 0 5 (\<lambda>i acc. let xi = acc ! i; yi = block ! i in acc[i := xi + yi]) acc
      in Hacl_Bignum_Fmul_fmul_p32 acc acc r)"

section \<open>The message authentication code\<close>

record poly1305_state32 =
  poly32_r :: "u32 list"
  poly32_h :: "u32 list"

definition Hacl_Impl_Poly1305_32_poly1305_update :: "poly1305_state32 \<Rightarrow> bytes \<Rightarrow> poly1305_state32" where
  "Hacl_Impl_Poly1305_32_poly1305_update st m =
     (let acc = poly32_h st; r5 = poly32_r st;
          tmp = replicate 5 0;
          s0 = m; s1 = drop 3 m; s2 = drop 6 m; s3 = drop 9 m; s4 = drop 12 m;
          i0 = load32_le s0; i1 = load32_le s1; i2 = load32_le s2; i3 = load32_le s3; i4 = load32_le s4;
          r0 = i0 AND 0x3ffffff;
          r1 = drop_bit 2 i1 AND 0x3ffffff;
          r2 = drop_bit 4 i2 AND 0x3ffffff;
          r3 = drop_bit 6 i3 AND 0x3ffffff;
          r4 = drop_bit 8 i4;
          tmp = tmp[0 := r0]; tmp = tmp[1 := r1]; tmp = tmp[2 := r2]; tmp = tmp[3 := r3]; tmp = tmp[4 := r4];
          b4 = tmp ! 4;
          b4' = 0x1000000 OR b4;
          tmp = tmp[4 := b4']
      in st\<lparr>poly32_h := Hacl_Bignum_AddAndMultiply_add_and_multiply_p32 acc tmp r5\<rparr>)"

definition Hacl_Impl_Poly1305_32_poly1305_process_last_block' ::
    "bytes \<Rightarrow> poly1305_state32 \<Rightarrow> bytes \<Rightarrow> u64 \<Rightarrow> poly1305_state32" where
  "Hacl_Impl_Poly1305_32_poly1305_process_last_block' block st m rem' =
     (let tmp = replicate 5 0;
          s0 = block; s1 = drop 3 block; s2 = drop 6 block; s3 = drop 9 block; s4 = drop 12 block;
          i0 = load32_le s0; i1 = load32_le s1; i2 = load32_le s2; i3 = load32_le s3; i4 = load32_le s4;
          r0 = i0 AND 0x3ffffff;
          r1 = drop_bit 2 i1 AND 0x3ffffff;
          r2 = drop_bit 4 i2 AND 0x3ffffff;
          r3 = drop_bit 6 i3 AND 0x3ffffff;
          r4 = drop_bit 8 i4;
          tmp = tmp[0 := r0]; tmp = tmp[1 := r1]; tmp = tmp[2 := r2]; tmp = tmp[3 := r3]; tmp = tmp[4 := r4];
          h = poly32_h st; r = poly32_r st
      in st\<lparr>poly32_h := Hacl_Bignum_AddAndMultiply_add_and_multiply_p32 h tmp r\<rparr>)"

definition Hacl_Impl_Poly1305_32_poly1305_process_last_block ::
    "poly1305_state32 \<Rightarrow> bytes \<Rightarrow> u64 \<Rightarrow> poly1305_state32" where
  "Hacl_Impl_Poly1305_32_poly1305_process_last_block st m rem' =
     (let zero1 = 0;
          block = replicate 16 zero1;
          i0 = (ucast rem' :: u32);
          i = (ucast rem' :: u32);
          block = memcpy block m (unat i);
          block = block[unat i0 := 1]
      in Hacl_Impl_Poly1305_32_poly1305_process_last_block' block st m rem')"

definition Hacl_Impl_Poly1305_32_poly1305_last_pass :: "u32 list \<Rightarrow> u32 list" where
  "Hacl_Impl_Poly1305_32_poly1305_last_pass acc =
     (let acc = Hacl_Bignum_Fproduct_carry_limb_p32 acc;
          acc = Hacl_Bignum_Modulo_carry_top_p32 acc;
          t0 = acc ! 0; t10 = acc ! 1; t20 = acc ! 2; t30 = acc ! 3; t40 = acc ! 4;
          t1' = t10 + drop_bit 26 t0;
          mask_261 = 0x3ffffff;
          t0' = t0 AND mask_261;
          t2' = t20 + drop_bit 26 t1';
          t1'' = t1' AND mask_261;
          t3' = t30 + drop_bit 26 t2';
          t2'' = t2' AND mask_261;
          t4' = t40 + drop_bit 26 t3';
          t3'' = t3' AND mask_261;
          acc = acc[0 := t0']; acc = acc[1 := t1'']; acc = acc[2 := t2'']; acc = acc[3 := t3'']; acc = acc[4 := t4'];
          acc = Hacl_Bignum_Modulo_carry_top_p32 acc;
          t00 = acc ! 0; t1 = acc ! 1; t2 = acc ! 2; t3 = acc ! 3; t4 = acc ! 4;
          t1_0 = t1 + drop_bit 26 t00;
          t0_0 = t00 AND 0x3ffffff;
          t2_0 = t2 + drop_bit 26 t1_0;
          t1'0 = t1_0 AND 0x3ffffff;
          t3_0 = t3 + drop_bit 26 t2_0;
          t2'0 = t2_0 AND 0x3ffffff;
          t4_0 = t4 + drop_bit 26 t3_0;
          t3'0 = t3_0 AND 0x3ffffff;
          acc = acc[0 := t0_0]; acc = acc[1 := t1'0]; acc = acc[2 := t2'0]; acc = acc[3 := t3'0]; acc = acc[4 := t4_0];
          acc = Hacl_Bignum_Modulo_carry_top_p32 acc;
          i0 = acc ! 0; i1 = acc ! 1;
          i0' = i0 AND 0x3ffffff;
          i1' = i1 + drop_bit 26 i0;
          acc = acc[0 := i0']; acc = acc[1 := i1'];
          a0 = acc ! 0; a1 = acc ! 1; a2 = acc ! 2; a3 = acc ! 3; a4 = acc ! 4;
          mask0 = FStar_UInt32_gte_mask a0 0x3fffffb;
          mask1 = FStar_UInt32_eq_mask a1 0x3ffffff;
          mask2 = FStar_UInt32_eq_mask a2 0x3ffffff;
          mask3 = FStar_UInt32_eq_mask a3 0x3ffffff;
          mask4 = FStar_UInt32_eq_mask a4 0x3ffffff;
          mask' = (((mask0 AND mask1) AND mask2) AND mask3) AND mask4;
          a0' = a0 - (0x3fffffb AND mask');
          a1' = a1 - (0x3ffffff AND mask');
          a2' = a2 - (0x3ffffff AND mask');
          a3' = a3 - (0x3ffffff AND mask');
          a4' = a4 - (0x3ffffff AND mask');
          acc = acc[0 := a0']; acc = acc[1 := a1']; acc = acc[2 := a2']; acc = acc[3 := a3']; acc = acc[4 := a4']
      in acc)"

definition Hacl_Impl_Poly1305_32_mk_state :: "u32 list \<Rightarrow> u32 list \<Rightarrow> poly1305_state32" where
  "Hacl_Impl_Poly1305_32_mk_state r h = \<lparr>poly32_r = r, poly32_h = h\<rparr>"

function Hacl_Standalone_Poly1305_32_poly1305_blocks ::
    "poly1305_state32 \<Rightarrow> bytes \<Rightarrow> u64 \<Rightarrow> poly1305_state32" where
  "Hacl_Standalone_Poly1305_32_poly1305_blocks st m len1 =
     (if \<not> len1 = 0 then
        let block = m; tail1 = drop 16 m;
            st = Hacl_Impl_Poly1305_32_poly1305_update st block;
            len2 = len1 - 1
        in Hacl_Standalone_Poly1305_32_poly1305_blocks st tail1 len2
      else st)"
  by pat_completeness auto
termination
  by (relation "measure (\<lambda>(_, _, len). unat len)") (auto simp: unat_minus_one unat_gt_0)

declare Hacl_Standalone_Poly1305_32_poly1305_blocks.simps [simp del]

definition Hacl_Standalone_Poly1305_32_poly1305_partial ::
    "poly1305_state32 \<Rightarrow> bytes \<Rightarrow> u64 \<Rightarrow> bytes \<Rightarrow> poly1305_state32" where
  "Hacl_Standalone_Poly1305_32_poly1305_partial st input len1 kr =
     (let x0 = poly32_r st;
          k1 = load128_le kr;
          k_clamped = u128_logand k1
            (u128_logor (u128_shift_left (uint64_to_uint128 0x0ffffffc0ffffffc) 64)
               (uint64_to_uint128 0x0ffffffc0fffffff));
          r0 = ucast (uint128_to_uint64 k_clamped) AND 0x3ffffff;
          r1 = ucast (uint128_to_uint64 (u128_shift_right k_clamped 26)) AND 0x3ffffff;
          r2 = ucast (uint128_to_uint64 (u128_shift_right k_clamped 52)) AND 0x3ffffff;
          r3 = ucast (uint128_to_uint64 (u128_shift_right k_clamped 78)) AND 0x3ffffff;
          r4 = ucast (uint128_to_uint64 (u128_shift_right k_clamped 104)) AND 0x3ffffff;
          x0 = x0[0 := r0]; x0 = x0[1 := r1]; x0 = x0[2 := r2]; x0 = x0[3 := r3]; x0 = x0[4 := r4];
          st = st\<lparr>poly32_r := x0\<rparr>;
          x00 = poly32_h st;
          x00 = x00[0 := 0]; x00 = x00[1 := 0]; x00 = x00[2 := 0]; x00 = x00[3 := 0]; x00 = x00[4 := 0];
          st = st\<lparr>poly32_h := x00\<rparr>
      in Hacl_Standalone_Poly1305_32_poly1305_blocks st input len1)"

definition Hacl_Standalone_Poly1305_32_poly1305_complete ::
    "poly1305_state32 \<Rightarrow> bytes \<Rightarrow> u64 \<Rightarrow> bytes \<Rightarrow> poly1305_state32" where
  "Hacl_Standalone_Poly1305_32_poly1305_complete st m len1 k1 =
     (let kr = k1;
          len16 = drop_bit 4 len1;
          rem16 = len1 AND 0xf;
          part_input = m;
          last_block = drop (unat (ucast (16 * len16) :: u32)) m;
          st = Hacl_Standalone_Poly1305_32_poly1305_partial st part_input len16 kr;
          st = (if \<not> rem16 = 0
                then Hacl_Impl_Poly1305_32_poly1305_process_last_block st last_block rem16
                else st);
          acc = poly32_h st
      in st\<lparr>poly32_h := Hacl_Impl_Poly1305_32_poly1305_last_pass acc\<rparr>)"

definition Hacl_Standalone_Poly1305_32_crypto_onetimeauth' ::
    "bytes \<Rightarrow> bytes \<Rightarrow> u64 \<Rightarrow> bytes \<Rightarrow> bytes" where
  "Hacl_Standalone_Poly1305_32_crypto_onetimeauth' output input len1 k1 =
     (let r = replicate 5 0; h = replicate 5 0;
          st = Hacl_Impl_Poly1305_32_mk_state r h;
          key_s = drop 16 k1;
          st = Hacl_Standalone_Poly1305_32_poly1305_complete st input len1 k1;
          acc = poly32_h st;
          k' = load128_le key_s;
          h0 = acc ! 0; h1 = acc ! 1; h2 = acc ! 2; h3 = acc ! 3; h4 = acc ! 4;
          acc' = u128_logor (u128_shift_left (uint64_to_uint128 (ucast h4)) 104)
                  (u128_logor (u128_shift_left (uint64_to_uint128 (ucast h3)) 78)
                    (u128_logor (u128_shift_left (uint64_to_uint128 (ucast h2)) 52)
                      (u128_logor (u128_shift_left (uint64_to_uint128 (ucast h1)) 26)
                        (uint64_to_uint128 (ucast h0)))));
          mac' = u128_add_mod acc' k'
      in store128_le output mac')"

definition Hacl_Standalone_Poly1305_32_crypto_onetimeauth ::
    "bytes \<Rightarrow> bytes \<Rightarrow> u64 \<Rightarrow> bytes \<Rightarrow> bytes" where
  "Hacl_Standalone_Poly1305_32_crypto_onetimeauth output input len1 k1 =
     Hacl_Standalone_Poly1305_32_crypto_onetimeauth' output input len1 k1"

section \<open>The streaming interface\<close>

definition Hacl_Poly1305_32_mk_state :: "u32 list \<Rightarrow> u32 list \<Rightarrow> poly1305_state32" where
  "Hacl_Poly1305_32_mk_state r acc = Hacl_Impl_Poly1305_32_mk_state r acc"

definition Hacl_Poly1305_32_init :: "poly1305_state32 \<Rightarrow> bytes \<Rightarrow> poly1305_state32" where
  "Hacl_Poly1305_32_init st k1 =
     (let x0 = poly32_r st;
          k10 = load128_le k1;
          k_clamped = u128_logand k10
            (u128_logor (u128_shift_left (uint64_to_uint128 0x0ffffffc0ffffffc) 64)
               (uint64_to_uint128 0x0ffffffc0fffffff));
          r0 = ucast (uint128_to_uint64 k_clamped) AND 0x3ffffff;
          r1 = ucast (uint128_to_uint64 (u128_shift_right k_clamped 26)) AND 0x3ffffff;
          r2 = ucast (uint128_to_uint64 (u128_shift_right k_clamped 52)) AND 0x3ffffff;
          r3 = ucast (uint128_to_uint64 (u128_shift_right k_clamped 78)) AND 0x3ffffff;
          r4 = ucast (uint128_to_uint64 (u128_shift_right k_clamped 104)) AND 0x3ffffff;
          x0 = x0[0 := r0]; x0 = x0[1 := r1]; x0 = x0[2 := r2]; x0 = x0[3 := r3]; x0 = x0[4 := r4];
          st = st\<lparr>poly32_r := x0\<rparr>;
          x00 = poly32_h st;
          x00 = x00[0 := 0]; x00 = x00[1 := 0]; x00 = x00[2 := 0]; x00 = x00[3 := 0]; x00 = x00[4 := 0]
      in st\<lparr>poly32_h := x00\<rparr>)"

definition Hacl_Poly1305_32_update_block :: "poly1305_state32 \<Rightarrow> bytes \<Rightarrow> poly1305_state32" where
  "Hacl_Poly1305_32_update_block st m = Hacl_Impl_Poly1305_32_poly1305_update st m"

function Hacl_Poly1305_32_update :: "poly1305_state32 \<Rightarrow> bytes \<Rightarrow> u32 \<Rightarrow> poly1305_state32" where
  "Hacl_Poly1305_32_update st m len1 =
     (if \<not> len1 = 0 then
        let block = m; m' = drop 16 m;
            len2 = len1 - 1;
            st = Hacl_Poly1305_32_update_block st block
        in Hacl_Poly1305_32_update st m' len2
      else st)"
  by pat_completeness auto
termination
  by (relation "measure (\<lambda>(_, _, n). unat n)") (auto simp: unat_minus_one unat_gt_0)

declare Hacl_Poly1305_32_update.simps [simp del]

definition Hacl_Poly1305_32_update_last :: "poly1305_state32 \<Rightarrow> bytes \<Rightarrow> u32 \<Rightarrow> poly1305_state32" where
  "Hacl_Poly1305_32_update_last st m len1 =
     (let st = (if \<not> (ucast len1 :: u64) = 0
                then Hacl_Impl_Poly1305_32_poly1305_process_last_block st m (ucast len1)
                else st);
          acc = poly32_h st
      in st\<lparr>poly32_h := Hacl_Impl_Poly1305_32_poly1305_last_pass acc\<rparr>)"

definition Hacl_Poly1305_32_finish :: "poly1305_state32 \<Rightarrow> bytes \<Rightarrow> bytes \<Rightarrow> bytes" where
  "Hacl_Poly1305_32_finish st mac k1 =
     (let acc = poly32_h st;
          k' = load128_le k1;
          h0 = acc ! 0; h1 = acc ! 1; h2 = acc ! 2; h3 = acc ! 3; h4 = acc ! 4;
          acc' = u128_logor (u128_shift_left (uint64_to_uint128 (ucast h4)) 104)
                  (u128_logor (u128_shift_left (uint64_to_uint128 (ucast h3)) 78)
                    (u128_logor (u128_shift_left (uint64_to_uint128 (ucast h2)) 52)
                      (u128_logor (u128_shift_left (uint64_to_uint128 (ucast h1)) 26)
                        (uint64_to_uint128 (ucast h0)))));
          mac' = u128_add_mod acc' k'
      in store128_le mac mac')"

definition Hacl_Poly1305_32_crypto_onetimeauth :: "bytes \<Rightarrow> bytes \<Rightarrow> u64 \<Rightarrow> bytes \<Rightarrow> bytes" where
  "Hacl_Poly1305_32_crypto_onetimeauth output input len1 k1 =
     Hacl_Standalone_Poly1305_32_crypto_onetimeauth output input len1 k1"

section \<open>Correctness of the field arithmetic\<close>

abbreviation pval32 :: "u32 list \<Rightarrow> nat" where
  "pval32 \<equiv> eval_limbs 26"

text \<open>The limbs of the accumulator between two blocks, and those of a multiplier or block.\<close>

definition acc32_ok :: "u32 list \<Rightarrow> bool" where
  "acc32_ok h \<longleftrightarrow> length h = 5 \<and> unat (h ! 0) < 2 ^ 26 \<and> unat (h ! 1) < 2 ^ 26 + 64 \<and> unat (h ! 2) < 2 ^ 26
     \<and> unat (h ! 3) < 2 ^ 26 \<and> unat (h ! 4) < 2 ^ 26"

definition arg32_ok :: "u32 list \<Rightarrow> bool" where
  "arg32_ok b \<longleftrightarrow> length b = 5 \<and> unat (b ! 0) < 2 ^ 26 \<and> unat (b ! 1) < 2 ^ 26 \<and> unat (b ! 2) < 2 ^ 26
     \<and> unat (b ! 3) < 2 ^ 26 \<and> unat (b ! 4) < 2 ^ 26"

lemma and_mask_26 [word_nat]: "unat (x AND 0x3ffffff :: u32) = unat x mod 2 ^ 26"
  using unat_and_mask [of x 26] by (simp add: mask_eq_exp_minus_1)

lemma and_mask_26_wide [word_nat]: "unat (x AND 0x3ffffff :: u64) = unat x mod 2 ^ 26"
  using unat_and_mask [of x 26] by (simp add: mask_eq_exp_minus_1)

lemma unat_times_5_32: "unat x * 5 < 2 ^ 32 \<Longrightarrow> unat (push_bit 2 x + x) = 5 * unat (x :: u32)"
  by (simp add: unat_plus unat_shl)

lemma product_value_p32:
  fixes a0 a1 a2 a3 a4 b0 b1 b2 b3 b4 :: nat
  shows "(a0 * b0 + 5 * a4 * b1 + 5 * a3 * b2 + 5 * a2 * b3 + 5 * a1 * b4
          + 2 ^ 26 * (a1 * b0 + a0 * b1 + 5 * a4 * b2 + 5 * a3 * b3 + 5 * a2 * b4
          + 2 ^ 26 * (a2 * b0 + a1 * b1 + a0 * b2 + 5 * a4 * b3 + 5 * a3 * b4
          + 2 ^ 26 * (a3 * b0 + a2 * b1 + a1 * b2 + a0 * b3 + 5 * a4 * b4
          + 2 ^ 26 * (a4 * b0 + a3 * b1 + a2 * b2 + a1 * b3 + a0 * b4)))))
         + poly_p * (a4 * b1 + a3 * b2 + a2 * b3 + a1 * b4 + 2 ^ 26 * (a4 * b2 + a3 * b3 + a2 * b4
            + 2 ^ 26 * (a4 * b3 + a3 * b4 + 2 ^ 26 * (a4 * b4))))
       = (a0 + 2 ^ 26 * (a1 + 2 ^ 26 * (a2 + 2 ^ 26 * (a3 + 2 ^ 26 * a4))))
         * (b0 + 2 ^ 26 * (b1 + 2 ^ 26 * (b2 + 2 ^ 26 * (b3 + 2 ^ 26 * b4))))"
  by (simp add: poly_p_def algebra_simps)

lemma mul_shift_reduce_p32_eq:
  fixes a0 a1 a2 a3 a4 b0 b1 b2 b3 b4 :: u32
  assumes a: "unat a0 < 2 ^ 28" "unat a1 < 2 ^ 28" "unat a2 < 2 ^ 28" "unat a3 < 2 ^ 28" "unat a4 < 2 ^ 28"
    and b: "unat b0 < 2 ^ 26" "unat b1 < 2 ^ 26" "unat b2 < 2 ^ 26" "unat b3 < 2 ^ 26" "unat b4 < 2 ^ 26"
  obtains t0 t1 t2 t3 t4 where
    "fst (Hacl_Bignum_Fmul_mul_shift_reduce_p32 [0, 0, 0, 0, 0] [a0, a1, a2, a3, a4] [b0, b1, b2, b3, b4]) = [t0, t1, t2, t3, t4]"
    "unat t0 = unat a0 * unat b0 + 5 * unat a4 * unat b1 + 5 * unat a3 * unat b2 + 5 * unat a2 * unat b3 + 5 * unat a1 * unat b4"
    "unat t1 = unat a1 * unat b0 + unat a0 * unat b1 + 5 * unat a4 * unat b2 + 5 * unat a3 * unat b3 + 5 * unat a2 * unat b4"
    "unat t2 = unat a2 * unat b0 + unat a1 * unat b1 + unat a0 * unat b2 + 5 * unat a4 * unat b3 + 5 * unat a3 * unat b4"
    "unat t3 = unat a3 * unat b0 + unat a2 * unat b1 + unat a1 * unat b2 + unat a0 * unat b3 + 5 * unat a4 * unat b4"
    "unat t4 = unat a4 * unat b0 + unat a3 * unat b1 + unat a2 * unat b2 + unat a1 * unat b3 + unat a0 * unat b4"
proof -
  let ?r = "\<lambda>x :: u32. push_bit 2 x + x"
  let ?m = "\<lambda>(x :: u32) (y :: u32). ucast x * ucast y :: u64"
  let ?t = "\<lambda>x y z u w. 0 + ?m x b0 + ?m y b1 + ?m z b2 + ?m u b3 + ?m w b4"
  have eq: "fst (Hacl_Bignum_Fmul_mul_shift_reduce_p32 [0, 0, 0, 0, 0] [a0, a1, a2, a3, a4] [b0, b1, b2, b3, b4])
      = [?t a0 (?r a4) (?r a3) (?r a2) (?r a1), ?t a1 a0 (?r a4) (?r a3) (?r a2), ?t a2 a1 a0 (?r a4) (?r a3),
         ?t a3 a2 a1 a0 (?r a4), ?t a4 a3 a2 a1 a0]"
    by (simp add: Hacl_Bignum_Fmul_mul_shift_reduce_p32_def Hacl_Bignum_Fmul_shift_reduce_p32_def
          Hacl_Bignum_Fproduct_sum_scalar_multiplication_p32_def Hacl_Bignum_Modulo_reduce_p32_def
          for_loop_small Let_def)
  have r: "unat (?r x) = 5 * unat x" "unat (?r x) < 2 ^ 31" if "unat x < 2 ^ 28" for x
  proof -
    show u: "unat (?r x) = 5 * unat x" using that by (intro unat_times_5_32) simp
    show "unat (?r x) < 2 ^ 31" unfolding u using that by simp
  qed
  have u: "unat (ucast x :: u64) = unat x" for x :: u32 by (simp add: unat_ucast_same_or_up)
  have m: "unat (?m x y) = unat x * unat y" "unat x * unat y < 2 ^ 57"
    if "unat x < 2 ^ 31" "unat y < 2 ^ 26" for x y :: u32
  proof -
    show l: "unat x * unat y < 2 ^ 57" using that mult_lt_bound [of _ "2 ^ 31" _ "2 ^ 26" "2 ^ 57"] by simp
    then show "unat (?m x y) = unat x * unat y" by (subst unat_times) (simp_all add: u)
  qed
  have t: "unat (?t x y z u w) = unat x * unat b0 + unat y * unat b1 + unat z * unat b2 + unat u * unat b3 + unat w * unat b4"
    if "unat x < 2 ^ 31" "unat y < 2 ^ 31" "unat z < 2 ^ 31" "unat u < 2 ^ 31" "unat w < 2 ^ 31" for x y z u w
    using m [OF that(1) b(1)] m [OF that(2) b(2)] m [OF that(3) b(3)] m [OF that(4) b(4)] m [OF that(5) b(5)]
    by (simp add: unat_plus)
  show thesis
    using a by (intro that [OF eq]; subst t; simp add: r)
qed

text \<open>The carries after the product, from the five wide limbs to a reduced element.\<close>

lemma carry_chain_p32_nat:
  fixes t0 t1 t2 t3 t4 s1 s2 s3 s4 e v0 :: nat
  assumes s1: "s1 = t1 + t0 div 2 ^ 26" and s2: "s2 = t2 + s1 div 2 ^ 26" and s3: "s3 = t3 + s2 div 2 ^ 26"
    and s4: "s4 = t4 + s3 div 2 ^ 26" and e: "e = s4 div 2 ^ 26" and v0: "v0 = t0 mod 2 ^ 26 + 5 * e"
  shows "v0 mod 2 ^ 26 + 2 ^ 26 * (s1 mod 2 ^ 26 + v0 div 2 ^ 26 + 2 ^ 26 * (s2 mod 2 ^ 26
           + 2 ^ 26 * (s3 mod 2 ^ 26 + 2 ^ 26 * (s4 mod 2 ^ 26)))) + poly_p * e
         = t0 + 2 ^ 26 * (t1 + 2 ^ 26 * (t2 + 2 ^ 26 * (t3 + 2 ^ 26 * t4)))"
proof -
  have lin: "c0 + 2 ^ 26 * (u1 + q + 2 ^ 26 * (u2 + 2 ^ 26 * (u3 + 2 ^ 26 * u4))) + poly_p * e
      = t0 + 2 ^ 26 * (t1 + 2 ^ 26 * (t2 + 2 ^ 26 * (t3 + 2 ^ 26 * t4)))"
    if "c0 + 2 ^ 26 * q = u0 + 5 * e" "u0 + 2 ^ 26 * q0 = t0" "u1 + 2 ^ 26 * q1 = t1 + q0"
       "u2 + 2 ^ 26 * q2 = t2 + q1" "u3 + 2 ^ 26 * q3 = t3 + q2" "u4 + 2 ^ 26 * e = t4 + q3"
    for c0 q q0 q1 q2 q3 u0 u1 u2 u3 u4 :: nat
    using that by (simp add: poly_p_def algebra_simps)
  show ?thesis
    by (rule lin [of _ _ "t0 mod 2 ^ 26" "t0 div 2 ^ 26" _ "s1 div 2 ^ 26" _ "s2 div 2 ^ 26" _ "s3 div 2 ^ 26"])
       (simp_all only: e mod_mult_div_eq, simp_all only: v0 s1 s2 s3 s4 e)
qed

lemma low_26: "unat (ucast (x :: u64) AND 0x3ffffff :: u32) = unat x mod 2 ^ 26"
  by (simp add: and_mask_26 unat_ucast_down mod_mod_cancel)

lemma unat_widen: "unat (ucast (x :: u32) :: u64) = unat x"
  by (simp add: unat_ucast_same_or_up)

lemma unat_narrow: "unat x < 2 ^ 32 \<Longrightarrow> unat (ucast (x :: u64) :: u32) = unat x"
  by (simp add: unat_ucast_down)

lemma reduce_wide_p32_eq:
  fixes t0 t1 t2 t3 t4 :: u64
  assumes "unat t0 < 2 ^ 59" "unat t1 < 2 ^ 59" "unat t2 < 2 ^ 59" "unat t3 < 2 ^ 59" "unat t4 < 6 * 2 ^ 53"
    and l: "length out = 5"
  obtains c where
    "(let t = Hacl_Bignum_Fproduct_carry_wide_p32 [t0, t1, t2, t3, t4];
          t = Hacl_Bignum_Modulo_carry_top_wide_p32 t;
          out = Hacl_Bignum_Fproduct_copy_from_wide_p32 out t;
          i0 = out ! 0; i1 = out ! 1; i0' = i0 AND 0x3ffffff; i1' = i1 + drop_bit 26 i0;
          out = out[0 := i0']; out = out[1 := i1'] in out) = c"
    "acc32_ok c"
    "pval32 c mod poly_p
     = (unat t0 + 2 ^ 26 * (unat t1 + 2 ^ 26 * (unat t2 + 2 ^ 26 * (unat t3 + 2 ^ 26 * unat t4)))) mod poly_p"
proof -
  obtain o0 o1 o2 o3 o4 where out: "out = [o0, o1, o2, o3, o4]"
    using l by (auto simp: length_Suc_conv numeral_eq_Suc)
  define s1 where "s1 = t1 + drop_bit 26 t0"
  define s2 where "s2 = t2 + drop_bit 26 s1"
  define s3 where "s3 = t3 + drop_bit 26 s2"
  define s4 where "s4 = t4 + drop_bit 26 s3"
  define e where "e = (ucast (drop_bit 26 s4) :: u32)"
  define w0 where "w0 = (ucast (ucast t0 AND 0x3ffffff :: u32) :: u64) + ucast (push_bit 2 e + e)"
  define v0 where "v0 = (ucast w0 :: u32)"
  define v1 where "v1 = (ucast (ucast (ucast s1 AND 0x3ffffff :: u32) :: u64) :: u32)"
  define v2 where "v2 = (ucast (ucast (ucast s2 AND 0x3ffffff :: u32) :: u64) :: u32)"
  define v3 where "v3 = (ucast (ucast (ucast s3 AND 0x3ffffff :: u32) :: u64) :: u32)"
  define v4 where "v4 = (ucast (s4 AND ucast (0x3ffffff :: u32)) :: u32)"
  define c where "c = [v0 AND 0x3ffffff, v1 + drop_bit 26 v0, v2, v3, v4]"
  note defs = s1_def s2_def s3_def s4_def e_def w0_def v0_def v1_def v2_def v3_def v4_def
  have dv: "x div 2 ^ 26 < 2 ^ 34" if "x < 2 ^ 60" for x :: nat
    using that by (intro less_mult_imp_div_less) simp
  have s1: "unat s1 = unat t1 + unat t0 div 2 ^ 26"
    unfolding s1_def using assms(1,2) dv [of "unat t0"] by (subst unat_plus) (simp_all add: unat_shr)
  then have b1: "unat s1 < 2 ^ 60" using assms(2) dv [of "unat t0"] assms(1) by simp
  have s2: "unat s2 = unat t2 + unat s1 div 2 ^ 26"
    unfolding s2_def using assms(3) dv [OF b1] by (subst unat_plus) (simp_all add: unat_shr)
  then have b2: "unat s2 < 2 ^ 60" using assms(3) dv [OF b1] by simp
  have s3: "unat s3 = unat t3 + unat s2 div 2 ^ 26"
    unfolding s3_def using assms(4) dv [OF b2] by (subst unat_plus) (simp_all add: unat_shr)
  then have b3: "unat s3 < 2 ^ 60" using assms(4) dv [OF b2] by simp
  have s4: "unat s4 = unat t4 + unat s3 div 2 ^ 26"
    unfolding s4_def using assms(5) dv [OF b3] by (subst unat_plus) (simp_all add: unat_shr)
  then have b4: "unat s4 < 2 ^ 26 * (6 * 2 ^ 27 + 2 ^ 8)" using assms(5) dv [OF b3] by simp
  then have q4: "unat s4 div 2 ^ 26 < 6 * 2 ^ 27 + 2 ^ 8"
    by (intro less_mult_imp_div_less) (simp add: mult.commute)
  have e: "unat e = unat s4 div 2 ^ 26"
    unfolding e_def using q4 by (subst unat_narrow) (simp_all add: unat_shr)
  have e5: "unat (push_bit 2 e + e) = 5 * unat e" using e q4 by (intro unat_times_5_32) simp
  have w0: "unat w0 = unat t0 mod 2 ^ 26 + 5 * unat e"
    unfolding w0_def using e q4 e5 mod_less_divisor [of "2 ^ 26" "unat t0"]
    by (subst unat_plus) (simp_all add: unat_widen low_26)
  then have w0b: "unat w0 < 2 ^ 26 * 62" using e q4 mod_less_divisor [of "2 ^ 26" "unat t0"] by simp
  then have v0: "unat v0 = unat w0" unfolding v0_def by (intro unat_narrow) simp
  have q0: "unat v0 div 2 ^ 26 < 62" unfolding v0 using w0b by (intro less_mult_imp_div_less) simp
  have v1: "unat v1 = unat s1 mod 2 ^ 26" and v2: "unat v2 = unat s2 mod 2 ^ 26"
    and v3: "unat v3 = unat s3 mod 2 ^ 26"
    unfolding v1_def v2_def v3_def by (subst unat_narrow; simp add: unat_widen low_26)+
  have m: "(ucast (0x3ffffff :: u32) :: u64) = 0x3ffffff" by simp
  have v4: "unat v4 = unat s4 mod 2 ^ 26"
    unfolding v4_def m by (subst unat_narrow) (simp_all only: and_mask_26_wide, simp)
  have c1: "unat (v1 + drop_bit 26 v0) = unat s1 mod 2 ^ 26 + unat v0 div 2 ^ 26"
    using v1 q0 mod_less_divisor [of "2 ^ 26" "unat s1"] by (subst unat_plus) (simp_all add: unat_shr)
  show thesis
  proof (rule that [of c])
    show "(let t = Hacl_Bignum_Fproduct_carry_wide_p32 [t0, t1, t2, t3, t4];
          t = Hacl_Bignum_Modulo_carry_top_wide_p32 t;
          out = Hacl_Bignum_Fproduct_copy_from_wide_p32 out t;
          i0 = out ! 0; i1 = out ! 1; i0' = i0 AND 0x3ffffff; i1' = i1 + drop_bit 26 i0;
          out = out[0 := i0']; out = out[1 := i1'] in out) = c"
      by (simp add: Hacl_Bignum_Fproduct_carry_wide_p32_def Hacl_Bignum_Modulo_carry_top_wide_p32_def
           Hacl_Bignum_Fproduct_copy_from_wide_p32_def for_loop_small Let_def defs c_def out)
    show "acc32_ok c"
      using q0 c1 v2 v3 v4 mod_less_divisor [of "2 ^ 26" "unat s1"] mod_less_divisor [of "2 ^ 26" "unat s2"]
        mod_less_divisor [of "2 ^ 26" "unat s3"] mod_less_divisor [of "2 ^ 26" "unat s4"]
        mod_less_divisor [of "2 ^ 26" "unat v0"]
      by (simp add: acc32_ok_def and_mask_26 c_def)
    have "pval32 c + poly_p * unat e
        = unat t0 + 2 ^ 26 * (unat t1 + 2 ^ 26 * (unat t2 + 2 ^ 26 * (unat t3 + 2 ^ 26 * unat t4)))"
      using carry_chain_p32_nat [OF s1 s2 s3 s4 e w0]
      by (simp only: c_def eval_limbs.simps c1 v2 v3 v4 v0 and_mask_26) simp
    then show "pval32 c mod poly_p
     = (unat t0 + 2 ^ 26 * (unat t1 + 2 ^ 26 * (unat t2 + 2 ^ 26 * (unat t3 + 2 ^ 26 * unat t4)))) mod poly_p"
      by (metis mod_mult_self2)
  qed
qed

lemma fmul_p32_correct:
  assumes "length out = 5" and "length a = 5"
    and "unat (a ! 0) < 2 ^ 27" "unat (a ! 1) < 2 ^ 27 + 2 ^ 20" "unat (a ! 2) < 2 ^ 27" "unat (a ! 3) < 2 ^ 27"
      "unat (a ! 4) < 2 ^ 27" and "arg32_ok b"
  shows "acc32_ok (Hacl_Bignum_Fmul_fmul_p32 out a b)
         \<and> pval32 (Hacl_Bignum_Fmul_fmul_p32 out a b) mod poly_p = (pval32 a * pval32 b) mod poly_p"
proof -
  obtain a0 a1 a2 a3 a4 where a: "a = [a0, a1, a2, a3, a4]" using assms(2) by (rule list5E)
  have "length b = 5" using assms by (simp add: arg32_ok_def)
  then obtain b0 b1 b2 b3 b4 where b: "b = [b0, b1, b2, b3, b4]" by (rule list5E)
  have bb: "unat b0 < 2 ^ 26" "unat b1 < 2 ^ 26" "unat b2 < 2 ^ 26" "unat b3 < 2 ^ 26" "unat b4 < 2 ^ 26"
    using assms(8) by (simp_all add: b arg32_ok_def)
  have ab: "unat a0 < 2 ^ 27 + 2 ^ 20" "unat a1 < 2 ^ 27 + 2 ^ 20" "unat a2 < 2 ^ 27 + 2 ^ 20"
    "unat a3 < 2 ^ 27 + 2 ^ 20" "unat a4 < 2 ^ 27 + 2 ^ 20"
    using assms(3-7) by (simp_all add: a)
  then have ac: "unat a0 < 2 ^ 28" "unat a1 < 2 ^ 28" "unat a2 < 2 ^ 28" "unat a3 < 2 ^ 28" "unat a4 < 2 ^ 28"
    by simp_all
  obtain t0 t1 t2 t3 t4 where t:
    "fst (Hacl_Bignum_Fmul_mul_shift_reduce_p32 [0, 0, 0, 0, 0] [a0, a1, a2, a3, a4] [b0, b1, b2, b3, b4]) = [t0, t1, t2, t3, t4]"
    "unat t0 = unat a0 * unat b0 + 5 * unat a4 * unat b1 + 5 * unat a3 * unat b2 + 5 * unat a2 * unat b3 + 5 * unat a1 * unat b4"
    "unat t1 = unat a1 * unat b0 + unat a0 * unat b1 + 5 * unat a4 * unat b2 + 5 * unat a3 * unat b3 + 5 * unat a2 * unat b4"
    "unat t2 = unat a2 * unat b0 + unat a1 * unat b1 + unat a0 * unat b2 + 5 * unat a4 * unat b3 + 5 * unat a3 * unat b4"
    "unat t3 = unat a3 * unat b0 + unat a2 * unat b1 + unat a1 * unat b2 + unat a0 * unat b3 + 5 * unat a4 * unat b4"
    "unat t4 = unat a4 * unat b0 + unat a3 * unat b1 + unat a2 * unat b2 + unat a1 * unat b3 + unat a0 * unat b4"
    using ac bb by (rule mul_shift_reduce_p32_eq)
  have p: "x * unat b0 < (2 ^ 27 + 2 ^ 20) * 2 ^ 26" "x * unat b1 < (2 ^ 27 + 2 ^ 20) * 2 ^ 26"
    "x * unat b2 < (2 ^ 27 + 2 ^ 20) * 2 ^ 26" "x * unat b3 < (2 ^ 27 + 2 ^ 20) * 2 ^ 26"
    "x * unat b4 < (2 ^ 27 + 2 ^ 20) * 2 ^ 26"
    if "x < 2 ^ 27 + 2 ^ 20" for x
    using mult_strict_mono [OF that bb(1)] mult_strict_mono [OF that bb(2)] mult_strict_mono [OF that bb(3)]
      mult_strict_mono [OF that bb(4)] mult_strict_mono [OF that bb(5)] by simp_all
  have bounds: "unat t0 < 2 ^ 59" "unat t1 < 2 ^ 59" "unat t2 < 2 ^ 59" "unat t3 < 2 ^ 59" "unat t4 < 6 * 2 ^ 53"
    using p [OF ab(1)] p [OF ab(2)] p [OF ab(3)] p [OF ab(4)] p [OF ab(5)] by (simp_all add: t)
  obtain c where c:
    "(let t = Hacl_Bignum_Fproduct_carry_wide_p32 [t0, t1, t2, t3, t4];
          t = Hacl_Bignum_Modulo_carry_top_wide_p32 t;
          out = Hacl_Bignum_Fproduct_copy_from_wide_p32 out t;
          i0 = out ! 0; i1 = out ! 1; i0' = i0 AND 0x3ffffff; i1' = i1 + drop_bit 26 i0;
          out = out[0 := i0']; out = out[1 := i1'] in out) = c"
    "acc32_ok c"
    "pval32 c mod poly_p
     = (unat t0 + 2 ^ 26 * (unat t1 + 2 ^ 26 * (unat t2 + 2 ^ 26 * (unat t3 + 2 ^ 26 * unat t4)))) mod poly_p"
    using bounds assms(1) by (rule reduce_wide_p32_eq)
  have "replicate 5 (0::u64) = [0, 0, 0, 0, 0]" "memcpy (replicate 5 0) [a0, a1, a2, a3, a4] 5 = [a0, a1, a2, a3, a4]"
    by (simp_all add: numeral_eq_Suc memcpy_def)
  then have eq: "Hacl_Bignum_Fmul_fmul_p32 out a b = c"
    using c(1) t(1) by (simp add: Hacl_Bignum_Fmul_fmul_p32_def a b Let_def split_beta)
  have "pval32 a * pval32 b
      = unat t0 + 2 ^ 26 * (unat t1 + 2 ^ 26 * (unat t2 + 2 ^ 26 * (unat t3 + 2 ^ 26 * unat t4)))
      + poly_p * (unat a4 * unat b1 + unat a3 * unat b2 + unat a2 * unat b3 + unat a1 * unat b4
          + 2 ^ 26 * (unat a4 * unat b2 + unat a3 * unat b3 + unat a2 * unat b4
          + 2 ^ 26 * (unat a4 * unat b3 + unat a3 * unat b4 + 2 ^ 26 * (unat a4 * unat b4))))"
    unfolding t product_value_p32 by (simp add: a b)
  then show ?thesis using c(2,3) by (simp add: eq)
qed

lemma add_and_multiply_p32_correct:
  assumes "acc32_ok acc" and "arg32_ok block" and "arg32_ok r"
  shows "acc32_ok (Hacl_Bignum_AddAndMultiply_add_and_multiply_p32 acc block r)"
    and "pval32 (Hacl_Bignum_AddAndMultiply_add_and_multiply_p32 acc block r) mod poly_p
         = ((pval32 acc + pval32 block) * pval32 r) mod poly_p"
proof -
  obtain h0 h1 h2 h3 h4 where h: "acc = [h0, h1, h2, h3, h4]"
    using assms(1) by (auto simp: acc32_ok_def elim: list5E)
  obtain b0 b1 b2 b3 b4 where b: "block = [b0, b1, b2, b3, b4]"
    using assms(2) by (auto simp: arg32_ok_def elim: list5E)
  let ?a = "[h0 + b0, h1 + b1, h2 + b2, h3 + b3, h4 + b4]"
  have eq: "Hacl_Bignum_AddAndMultiply_add_and_multiply_p32 acc block r = Hacl_Bignum_Fmul_fmul_p32 ?a ?a r"
    by (simp add: Hacl_Bignum_AddAndMultiply_add_and_multiply_p32_def h b for_loop_small Let_def)
  have u: "unat (h0 + b0) = unat h0 + unat b0" "unat (h1 + b1) = unat h1 + unat b1"
    "unat (h2 + b2) = unat h2 + unat b2" "unat (h3 + b3) = unat h3 + unat b3" "unat (h4 + b4) = unat h4 + unat b4"
    using assms(1,2) by (simp_all add: unat_plus acc32_ok_def arg32_ok_def h b)
  have fm: "acc32_ok (Hacl_Bignum_Fmul_fmul_p32 ?a ?a r)
      \<and> pval32 (Hacl_Bignum_Fmul_fmul_p32 ?a ?a r) mod poly_p = (pval32 ?a * pval32 r) mod poly_p"
    using assms by (intro fmul_p32_correct) (simp_all add: u acc32_ok_def arg32_ok_def h b)
  then show "acc32_ok (Hacl_Bignum_AddAndMultiply_add_and_multiply_p32 acc block r)" by (simp add: eq)
  have "pval32 ?a = pval32 acc + pval32 block" by (simp add: u h b)
  with fm show "pval32 (Hacl_Bignum_AddAndMultiply_add_and_multiply_p32 acc block r) mod poly_p
      = ((pval32 acc + pval32 block) * pval32 r) mod poly_p"
    by (simp add: eq)
qed

section \<open>Blocks\<close>

lemma le_val_split: "n \<le> length bs \<Longrightarrow> le_val bs = le_val (take n bs) + 256 ^ n * le_val (drop n bs)"
  using le_val_append [of "take n bs" "drop n bs"] by simp

lemma le_val_drop: "n \<le> length bs \<Longrightarrow> le_val (drop n bs) = le_val bs div 256 ^ n"
  using le_val_split [of n bs] le_val_take_less [of n bs] by simp

lemma le_val_take: "n \<le> length bs \<Longrightarrow> le_val (take n bs) = le_val bs mod 256 ^ n"
  using le_val_split [of n bs] le_val_take_less [of n bs] by simp

text \<open>The five overlapping 32-bit loads at the byte offsets 0, 3, 6, 9 and 12.\<close>

lemma load_at:
  assumes "n + 4 \<le> 16" and "16 \<le> length m"
  shows "unat (load32_le (drop n m)) = le_val (take 16 m) div 256 ^ n mod 2 ^ 32"
proof -
  have "take 4 (drop n m) = take 4 (drop n (take 16 m))"
    using assms(1) by (simp add: drop_take min_def)
  then show ?thesis
    using assms by (simp add: unat_load32_le le_val_take le_val_drop)
qed

definition split32 :: "bytes \<Rightarrow> u32 list" where
  "split32 m = [load32_le m AND 0x3ffffff, drop_bit 2 (load32_le (drop 3 m)) AND 0x3ffffff,
     drop_bit 4 (load32_le (drop 6 m)) AND 0x3ffffff, drop_bit 6 (load32_le (drop 9 m)) AND 0x3ffffff,
     drop_bit 8 (load32_le (drop 12 m))]"

text \<open>The digits of a number in radix \<open>2 ^ 26\<close>.\<close>

lemma radix_26:
  "v mod 2 ^ 26 + 2 ^ 26 * (v div 2 ^ 26 mod 2 ^ 26 + 2 ^ 26 * (v div 2 ^ 52 mod 2 ^ 26
     + 2 ^ 26 * (v div 2 ^ 78 mod 2 ^ 26 + 2 ^ 26 * (v div 2 ^ 104)))) = (v::nat)"
proof -
  have d: "v div 2 ^ 52 = v div 2 ^ 26 div 2 ^ 26" "v div 2 ^ 78 = v div 2 ^ 26 div 2 ^ 26 div 2 ^ 26"
    "v div 2 ^ 104 = v div 2 ^ 26 div 2 ^ 26 div 2 ^ 26 div 2 ^ 26"
    by (simp_all add: div_mult2_eq [symmetric])
  show ?thesis unfolding d by (simp only: mod_mult_div_eq)
qed

lemma window: "k + i \<le> n \<Longrightarrow> v mod 2 ^ n div 2 ^ i mod 2 ^ k = (v::nat) div 2 ^ i mod 2 ^ k"
  by (simp flip: take_bit_eq_mod drop_bit_eq_div add: take_bit_drop_bit)

lemma split32_correct:
  assumes "16 \<le> length m"
  shows "arg32_ok (split32 m)" and "unat (split32 m ! 4) < 2 ^ 24"
    and "pval32 (split32 m) = le_val (take 16 m)"
proof -
  define v where "v = le_val (take 16 m)"
  have vb: "v < 2 ^ 128" using le_val_take_less [of 16 m] by (simp add: v_def)
  have r0: "unat (split32 m ! 0) = v mod 2 ^ 26"
    using load_at [of 0 m] assms window [of 26 0 32 v] by (simp add: split32_def and_mask_26 v_def)
  have r1: "unat (split32 m ! 1) = v div 2 ^ 26 mod 2 ^ 26"
    using load_at [of 3 m] assms window [of 26 2 32 "v div 2 ^ 24"]
    by (simp add: split32_def and_mask_26 unat_shr v_def div_mult2_eq [symmetric])
  have r2: "unat (split32 m ! 2) = v div 2 ^ 52 mod 2 ^ 26"
    using load_at [of 6 m] assms window [of 26 4 32 "v div 2 ^ 48"]
    by (simp add: split32_def and_mask_26 unat_shr v_def div_mult2_eq [symmetric])
  have r3: "unat (split32 m ! 3) = v div 2 ^ 78 mod 2 ^ 26"
    using load_at [of 9 m] assms window [of 26 6 32 "v div 2 ^ 72"]
    by (simp add: split32_def and_mask_26 unat_shr v_def div_mult2_eq [symmetric])
  have "v div 2 ^ 96 < 2 ^ 32" using vb by (intro less_mult_imp_div_less) simp
  then have r4: "unat (split32 m ! 4) = v div 2 ^ 104"
    using load_at [of 12 m] assms by (simp add: split32_def unat_shr v_def div_mult2_eq [symmetric])
  have q: "v div 2 ^ 104 < 2 ^ 24" using vb by (intro less_mult_imp_div_less) simp
  show "unat (split32 m ! 4) < 2 ^ 24" using q by (simp add: r4)
  then show "arg32_ok (split32 m)"
    using r0 r1 r2 r3 by (simp add: arg32_ok_def) (simp add: split32_def)
  have s: "split32 m = [split32 m ! 0, split32 m ! 1, split32 m ! 2, split32 m ! 3, split32 m ! 4]"
    by (simp add: split32_def)
  have "pval32 [split32 m ! 0, split32 m ! 1, split32 m ! 2, split32 m ! 3, split32 m ! 4] = v"
    using radix_26 [of v] by (simp only: eval_limbs.simps r0 r1 r2 r3 r4) simp
  then show "pval32 (split32 m) = le_val (take 16 m)" by (simp only: s [symmetric] v_def)
qed

definition poly32_ok :: "poly1305_state32 \<Rightarrow> bool" where
  "poly32_ok st \<longleftrightarrow> arg32_ok (poly32_r st) \<and> acc32_ok (poly32_h st)"

definition poly32_acc :: "poly1305_state32 \<Rightarrow> nat" where
  "poly32_acc st = pval32 (poly32_h st) mod poly_p"

lemma step_p32_correct:
  assumes "poly32_ok st" and "arg32_ok b"
    and "st' = st\<lparr>poly32_h := Hacl_Bignum_AddAndMultiply_add_and_multiply_p32 (poly32_h st) b (poly32_r st)\<rparr>"
  shows "poly32_ok st'" and "poly32_r st' = poly32_r st"
    and "poly32_acc st' = (poly32_acc st + pval32 b) * pval32 (poly32_r st) mod poly_p"
  using assms(1,2) add_and_multiply_p32_correct [of "poly32_h st" b "poly32_r st"]
  by (simp_all add: assms(3) poly32_ok_def poly32_acc_def poly_step_mod)

lemma poly32_update_correct:
  assumes "poly32_ok st" and "16 \<le> length m"
  defines "st' \<equiv> Hacl_Impl_Poly1305_32_poly1305_update st m"
  shows "poly32_ok st'" and "poly32_r st' = poly32_r st"
    and "poly32_acc st' = (poly32_acc st + poly_block (take 16 m)) * pval32 (poly32_r st) mod poly_p"
proof -
  define b where "b = (split32 m)[4 := 0x1000000 OR split32 m ! 4]"
  note sp = split32_correct [OF assms(2)]
  have "push_bit 24 1 OR split32 m ! 4 = (0x1000000 OR split32 m ! 4 :: u32)" by (simp add: push_bit_eq_mult)
  then have top: "unat (0x1000000 OR split32 m ! 4) = 2 ^ 24 + unat (split32 m ! 4)"
    using unat_or_shift [of "split32 m ! 4" 24 1] sp(2) by simp
  have l: "length (split32 m) = 5" by (simp add: split32_def)
  then obtain a0 a1 a2 a3 a4 where a: "split32 m = [a0, a1, a2, a3, a4]" by (rule list5E)
  have b_ok: "arg32_ok b" using sp top by (simp add: arg32_ok_def b_def a)
  have "pval32 b = pval32 (split32 m) + 2 ^ 128" using top by (simp add: b_def a)
  then have b_val: "pval32 b = poly_block (take 16 m)"
    using assms(2) sp(3) by (simp add: poly_block_def min_def)
  have "st' = st\<lparr>poly32_h := Hacl_Bignum_AddAndMultiply_add_and_multiply_p32 (poly32_h st) b (poly32_r st)\<rparr>"
    by (simp add: st'_def Hacl_Impl_Poly1305_32_poly1305_update_def Let_def b_def split32_def numeral_eq_Suc)
  from step_p32_correct [OF assms(1) b_ok this] show "poly32_ok st'" and "poly32_r st' = poly32_r st"
    and "poly32_acc st' = (poly32_acc st + poly_block (take 16 m)) * pval32 (poly32_r st) mod poly_p"
    by (simp_all add: b_val)
qed

lemma last_block32_correct:
  assumes "poly32_ok st" and "0 < unat rem'" "unat rem' < 16" "unat rem' \<le> length m"
  defines "st' \<equiv> Hacl_Impl_Poly1305_32_poly1305_process_last_block st m rem'"
  shows "poly32_ok st'" and "poly32_r st' = poly32_r st"
    and "poly32_acc st' = (poly32_acc st + poly_block (take (unat rem') m)) * pval32 (poly32_r st) mod poly_p"
proof -
  define n where "n = unat rem'"
  define blk where "blk = take n m @ 1 # replicate (15 - n) (0::u8)"
  have n: "n < 16" "n \<le> length m" using assms by (simp_all add: n_def)
  have lb: "length blk = 16" using n by (simp add: blk_def)
  note sp = split32_correct [of blk, unfolded lb, OF order_refl]
  have "le_val blk = le_val (take n m) + 256 ^ n"
    using n by (simp add: blk_def le_val_append le_val_replicate)
  then have b_val: "pval32 (split32 blk) = poly_block (take n m)"
    using n sp(3) by (simp add: poly_block_def lb min_def power_mult)
  have "unat (ucast rem' :: u32) = n" using n by (simp add: n_def unat_ucast_down)
  moreover have s16: "16 - n = Suc (15 - n)" using n by simp
  ultimately have "(memcpy (replicate 16 0) m (unat (ucast rem' :: u32)))[unat (ucast rem' :: u32) := 1] = blk"
    using n s16 by (simp add: memcpy_def blk_def list_update_append drop_replicate)
  then have "st' = st\<lparr>poly32_h := Hacl_Bignum_AddAndMultiply_add_and_multiply_p32 (poly32_h st) (split32 blk) (poly32_r st)\<rparr>"
    by (simp add: st'_def Hacl_Impl_Poly1305_32_poly1305_process_last_block_def
        Hacl_Impl_Poly1305_32_poly1305_process_last_block'_def Let_def split32_def numeral_eq_Suc)
  from step_p32_correct [OF assms(1) sp(1) this] show "poly32_ok st'" and "poly32_r st' = poly32_r st"
    and "poly32_acc st' = (poly32_acc st + poly_block (take (unat rem') m)) * pval32 (poly32_r st) mod poly_p"
    by (simp_all add: b_val n_def)
qed

interpretation blocks32: poly_machine poly32_ok poly32_r pval32 poly32_acc Hacl_Impl_Poly1305_32_poly1305_update
  Hacl_Standalone_Poly1305_32_poly1305_blocks
  by unfold_locales
     (simp_all add: poly32_update_correct, simp add: Hacl_Standalone_Poly1305_32_poly1305_blocks.simps Let_def)

interpretation stream32: poly_machine poly32_ok poly32_r pval32 poly32_acc Hacl_Impl_Poly1305_32_poly1305_update
  Hacl_Poly1305_32_update
  by unfold_locales
     (simp_all add: poly32_update_correct,
      simp add: Hacl_Poly1305_32_update.simps Hacl_Poly1305_32_update_block_def Let_def)

section \<open>The final reduction\<close>

definition canonical32 :: "u32 list \<Rightarrow> bool" where
  "canonical32 c \<longleftrightarrow> length c = 5 \<and> unat (c ! 0) < 2 ^ 26 \<and> unat (c ! 1) < 2 ^ 26 \<and> unat (c ! 2) < 2 ^ 26
     \<and> unat (c ! 3) < 2 ^ 26 \<and> unat (c ! 4) < 2 ^ 26"

text \<open>
  The code carries through the five limbs and folds the top carry back three times.  One such
  round, on numbers: the first from the accumulator, the second after it, and a third one that
  changes nothing.
\<close>

lemma carry_round_nat:
  fixes x0 x1 x2 x3 x4 s1 s2 s3 s4 e :: nat
  assumes b: "x0 < 2 ^ 27" "x1 < 2 ^ 26 + 64" "x2 < 2 ^ 26" "x3 < 2 ^ 26" "x4 < 2 ^ 26"
    and s1: "s1 = x1 + x0 div 2 ^ 26" and s2: "s2 = x2 + s1 div 2 ^ 26" and s3: "s3 = x3 + s2 div 2 ^ 26"
    and s4: "s4 = x4 + s3 div 2 ^ 26" and e: "e = s4 div 2 ^ 26"
  shows "x0 div 2 ^ 26 \<le> 1" "s1 \<le> 2 ^ 26 + 64" "s2 \<le> 2 ^ 26" "s3 \<le> 2 ^ 26" "s4 \<le> 2 ^ 26" "e \<le> 1"
    and "5 * e + x0 mod 2 ^ 26 + 2 ^ 26 * (s1 mod 2 ^ 26 + 2 ^ 26 * (s2 mod 2 ^ 26
           + 2 ^ 26 * (s3 mod 2 ^ 26 + 2 ^ 26 * (s4 mod 2 ^ 26)))) + poly_p * e
         = x0 + 2 ^ 26 * (x1 + 2 ^ 26 * (x2 + 2 ^ 26 * (x3 + 2 ^ 26 * x4)))"
    and "x1 < 2 ^ 26 \<Longrightarrow> x0 < 2 ^ 26 + 5 \<Longrightarrow> 5 * e + x0 mod 2 ^ 26 < 2 ^ 26"
proof -
  have q: "s div 2 ^ 26 \<le> 1" if "s < 2 ^ 27" for s :: nat
  proof -
    have "s div 2 ^ 26 < 2" using that by (intro less_mult_imp_div_less) simp
    then show ?thesis by simp
  qed
  show q0: "x0 div 2 ^ 26 \<le> 1" using b(1) by (rule q)
  show s1b: "s1 \<le> 2 ^ 26 + 64" using b(2) q0 s1 by simp
  have q1: "s1 div 2 ^ 26 \<le> 1" using s1b by (intro q) simp
  show s2b: "s2 \<le> 2 ^ 26" using b(3) q1 s2 by simp
  have q2: "s2 div 2 ^ 26 \<le> 1" using s2b by (intro q) simp
  show s3b: "s3 \<le> 2 ^ 26" using b(4) q2 s3 by simp
  have q3: "s3 div 2 ^ 26 \<le> 1" using s3b by (intro q) simp
  show s4b: "s4 \<le> 2 ^ 26" using b(5) q3 s4 by simp
  show e1: "e \<le> 1" unfolding e using s4b by (intro q) simp
  have lin: "5 * e + u0 + 2 ^ 26 * (u1 + 2 ^ 26 * (u2 + 2 ^ 26 * (u3 + 2 ^ 26 * u4))) + poly_p * e
      = x0 + 2 ^ 26 * (x1 + 2 ^ 26 * (x2 + 2 ^ 26 * (x3 + 2 ^ 26 * x4)))"
    if "u0 + 2 ^ 26 * r0 = x0" "u1 + 2 ^ 26 * r1 = x1 + r0" "u2 + 2 ^ 26 * r2 = x2 + r1"
       "u3 + 2 ^ 26 * r3 = x3 + r2" "u4 + 2 ^ 26 * e = x4 + r3"
    for u0 u1 u2 u3 u4 r0 r1 r2 r3 :: nat
    using that by (simp add: poly_p_def algebra_simps)
  show "5 * e + x0 mod 2 ^ 26 + 2 ^ 26 * (s1 mod 2 ^ 26 + 2 ^ 26 * (s2 mod 2 ^ 26
           + 2 ^ 26 * (s3 mod 2 ^ 26 + 2 ^ 26 * (s4 mod 2 ^ 26)))) + poly_p * e
         = x0 + 2 ^ 26 * (x1 + 2 ^ 26 * (x2 + 2 ^ 26 * (x3 + 2 ^ 26 * x4)))"
    by (rule lin [of _ "x0 div 2 ^ 26" _ "s1 div 2 ^ 26" _ "s2 div 2 ^ 26" _ "s3 div 2 ^ 26"])
       (simp_all only: e mod_mult_div_eq, simp_all only: s1 s2 s3 s4 e)
  show "5 * e + x0 mod 2 ^ 26 < 2 ^ 26" if x1: "x1 < 2 ^ 26" and x0: "x0 < 2 ^ 26 + 5"
  proof (cases "e = 0")
    case False
    have carried: "2 ^ 26 \<le> t" if "z < 2 ^ 26" "2 ^ 26 \<le> z + t div 2 ^ 26" for z t :: nat
    proof (rule ccontr)
      assume "\<not> 2 ^ 26 \<le> t"
      then have "t div 2 ^ 26 = 0" by simp
      with that show False by simp
    qed
    have "2 ^ 26 \<le> s4" using False e by (cases "2 ^ 26 \<le> s4") simp_all
    then have "2 ^ 26 \<le> s3" using carried [OF b(5), of s3] s4 by simp
    then have "2 ^ 26 \<le> s2" using carried [OF b(4), of s2] s3 by simp
    then have "2 ^ 26 \<le> s1" using carried [OF b(3), of s1] s2 by simp
    then have "2 ^ 26 \<le> x0" using carried [OF x1, of x0] s1 by simp
    then have "x0 mod 2 ^ 26 = x0 - 2 ^ 26" using x0 by (simp add: mod_if)
    with x0 e1 show ?thesis by simp
  qed simp
qed

definition carry_round :: "u32 list \<Rightarrow> u32 list" where
  "carry_round x =
     (let s1 = x ! 1 + drop_bit 26 (x ! 0); s2 = x ! 2 + drop_bit 26 s1; s3 = x ! 3 + drop_bit 26 s2;
          s4 = x ! 4 + drop_bit 26 s3; e = drop_bit 26 s4
      in [push_bit 2 e + e + (x ! 0 AND 0x3ffffff), s1 AND 0x3ffffff, s2 AND 0x3ffffff, s3 AND 0x3ffffff,
          s4 AND 0x3ffffff])"

lemma carry_round_correct:
  assumes l: "length x = 5" and b: "unat (x ! 0) < 2 ^ 27" "unat (x ! 1) < 2 ^ 26 + 64" "unat (x ! 2) < 2 ^ 26"
    "unat (x ! 3) < 2 ^ 26" "unat (x ! 4) < 2 ^ 26"
  shows "pval32 (carry_round x) mod poly_p = pval32 x mod poly_p"
    and "unat (carry_round x ! 0) < 2 ^ 26 + 5" and "canonical32 ((carry_round x)[0 := 0])"
    and "unat (x ! 1) < 2 ^ 26 \<Longrightarrow> unat (x ! 0) < 2 ^ 26 + 5 \<Longrightarrow> canonical32 (carry_round x)"
proof -
  obtain x0 x1 x2 x3 x4 where x: "x = [x0, x1, x2, x3, x4]" using l by (rule list5E)
  have b: "unat x0 < 2 ^ 27" "unat x1 < 2 ^ 26 + 64" "unat x2 < 2 ^ 26" "unat x3 < 2 ^ 26" "unat x4 < 2 ^ 26"
    using b by (simp_all add: x)
  define s1 where "s1 = x1 + drop_bit 26 x0"
  define s2 where "s2 = x2 + drop_bit 26 s1"
  define s3 where "s3 = x3 + drop_bit 26 s2"
  define s4 where "s4 = x4 + drop_bit 26 s3"
  define e where "e = drop_bit 26 s4"
  define y0 where "y0 = push_bit 2 e + e + (x0 AND 0x3ffffff)"
  have c: "carry_round x = [y0, s1 AND 0x3ffffff, s2 AND 0x3ffffff, s3 AND 0x3ffffff, s4 AND 0x3ffffff]"
    by (simp add: carry_round_def x Let_def y0_def e_def s4_def s3_def s2_def s1_def)
  note n = carry_round_nat [OF b refl refl refl refl refl]
  have s1: "unat s1 = unat x1 + unat x0 div 2 ^ 26"
    unfolding s1_def using n(2) by (subst unat_plus) (simp_all add: unat_shr)
  note n = carry_round_nat [OF b s1 refl refl refl refl]
  have s2: "unat s2 = unat x2 + unat s1 div 2 ^ 26"
    unfolding s2_def using n(3) by (subst unat_plus) (simp_all add: unat_shr)
  note n = carry_round_nat [OF b s1 s2 refl refl refl]
  have s3: "unat s3 = unat x3 + unat s2 div 2 ^ 26"
    unfolding s3_def using n(4) by (subst unat_plus) (simp_all add: unat_shr)
  note n = carry_round_nat [OF b s1 s2 s3 refl refl]
  have s4: "unat s4 = unat x4 + unat s3 div 2 ^ 26"
    unfolding s4_def using n(5) by (subst unat_plus) (simp_all add: unat_shr)
  have e: "unat e = unat s4 div 2 ^ 26" unfolding e_def by (rule unat_shr)
  note n = carry_round_nat [OF b s1 s2 s3 s4 e]
  have e5: "unat (push_bit 2 e + e) = 5 * unat e" using n(6) by (intro unat_times_5_32) simp
  have y0: "unat y0 = 5 * unat e + unat x0 mod 2 ^ 26"
    unfolding y0_def using n(6) e5 mod_less_divisor [of "2 ^ 26" "unat x0"]
    by (subst unat_plus) (simp_all add: and_mask_26)
  have "pval32 (carry_round x) + poly_p * unat e = pval32 x"
    unfolding c using n(7) by (simp only: x eval_limbs.simps and_mask_26 y0) simp
  then show "pval32 (carry_round x) mod poly_p = pval32 x mod poly_p" by (metis mod_mult_self2)
  show "unat (carry_round x ! 0) < 2 ^ 26 + 5"
    using y0 n(6) mod_less_divisor [of "2 ^ 26" "unat x0"] by (simp add: c)
  show "canonical32 ((carry_round x)[0 := 0])" by (simp add: c canonical32_def and_mask_26)
  show "canonical32 (carry_round x)" if "unat (x ! 1) < 2 ^ 26" "unat (x ! 0) < 2 ^ 26 + 5"
    unfolding c using n(8) that y0 by (simp add: canonical32_def and_mask_26 x)
qed

lemma carry_top_p32_eq:
  "Hacl_Bignum_Modulo_carry_top_p32 [a, b, c, d, e]
   = [push_bit 2 (drop_bit 26 e) + drop_bit 26 e + a, b, c, d, e AND 0x3ffffff]"
  by (simp add: Hacl_Bignum_Modulo_carry_top_p32_def Let_def)

lemma carry_limb_p32_eq:
  "Hacl_Bignum_Fproduct_carry_limb_p32 [x0, x1, x2, x3, x4]
   = (let s1 = x1 + drop_bit 26 x0; s2 = x2 + drop_bit 26 s1; s3 = x3 + drop_bit 26 s2; s4 = x4 + drop_bit 26 s3
      in [x0 AND 0x3ffffff, s1 AND 0x3ffffff, s2 AND 0x3ffffff, s3 AND 0x3ffffff, s4])"
  by (simp add: Hacl_Bignum_Fproduct_carry_limb_p32_def for_loop_small Let_def)

text \<open>The masked subtraction of the prime.\<close>

definition masked_subtract :: "u32 list \<Rightarrow> u32 list" where
  "masked_subtract a =
     (let mk = (((FStar_UInt32_gte_mask (a ! 0) 0x3fffffb AND FStar_UInt32_eq_mask (a ! 1) 0x3ffffff)
                 AND FStar_UInt32_eq_mask (a ! 2) 0x3ffffff) AND FStar_UInt32_eq_mask (a ! 3) 0x3ffffff)
                 AND FStar_UInt32_eq_mask (a ! 4) 0x3ffffff
      in [a ! 0 - (0x3fffffb AND mk), a ! 1 - (0x3ffffff AND mk), a ! 2 - (0x3ffffff AND mk),
          a ! 3 - (0x3ffffff AND mk), a ! 4 - (0x3ffffff AND mk)])"

lemma masked_subtract_correct:
  assumes "canonical32 a"
  shows "canonical32 (masked_subtract a)" and "pval32 (masked_subtract a) = pval32 a mod poly_p"
proof -
  obtain a0 a1 a2 a3 a4 where a: "a = [a0, a1, a2, a3, a4]"
    using assms by (auto simp: canonical32_def elim: list5E)
  have b: "unat a0 < 2 ^ 26" "unat a1 < 2 ^ 26" "unat a2 < 2 ^ 26" "unat a3 < 2 ^ 26" "unat a4 < 2 ^ 26"
    using assms by (simp_all add: canonical32_def a)
  show "canonical32 (masked_subtract a)" "pval32 (masked_subtract a) = pval32 a mod poly_p"
  proof (atomize (full), cases "0x3fffffb \<le> a0 \<and> a1 = 0x3ffffff \<and> a2 = 0x3ffffff \<and> a3 = 0x3ffffff \<and> a4 = 0x3ffffff")
    case True
    then have c: "masked_subtract a = [a0 - 0x3fffffb, 0, 0, 0, 0]"
      by (simp add: masked_subtract_def a gte_mask32 eq_mask32)
    have ge: "unat a0 \<ge> 0x3fffffb" using True by (simp add: word_le_nat_alt)
    then have u: "unat (a0 - 0x3fffffb) = unat a0 - 0x3fffffb" by (subst unat_minus) simp_all
    have "pval32 a = unat a0 - 0x3fffffb + poly_p" using True ge by (simp add: poly_p_def a)
    moreover have "unat a0 - 0x3fffffb < poly_p" using b by (simp add: poly_p_def)
    ultimately show "canonical32 (masked_subtract a) \<and> pval32 (masked_subtract a) = pval32 a mod poly_p"
      using b u by (simp add: c canonical32_def)
  next
    case False
    then have c: "masked_subtract a = a" by (auto simp: masked_subtract_def a gte_mask32 eq_mask32)
    have ne: "unat a0 < 0x3fffffb \<or> unat a1 \<noteq> 0x3ffffff \<or> unat a2 \<noteq> 0x3ffffff \<or> unat a3 \<noteq> 0x3ffffff
        \<or> unat a4 \<noteq> 0x3ffffff"
      using False by (auto simp: word_le_nat_alt not_le intro: word_unatI)
    have "pval32 a < poly_p" using b ne by (simp add: poly_p_def a) linarith
    with assms show "canonical32 (masked_subtract a) \<and> pval32 (masked_subtract a) = pval32 a mod poly_p"
      by (simp add: c)
  qed
qed

lemma limbs5:
  "[a, b, c, d, e] ! 0 = a" "[a, b, c, d, e] ! 1 = b" "[a, b, c, d, e] ! 2 = c" "[a, b, c, d, e] ! 3 = d"
  "[a, b, c, d, e] ! 4 = e" "[a, b, c, d, e][0 := x] = [x, b, c, d, e]" "[a, b, c, d, e][1 := x] = [a, x, c, d, e]"
  "[a, b, c, d, e][2 := x] = [a, b, x, d, e]" "[a, b, c, d, e][3 := x] = [a, b, c, x, e]"
  "[a, b, c, d, e][4 := x] = [a, b, c, d, x]"
  by (simp_all add: numeral_eq_Suc)

lemma last_pass32_eq:
  assumes "length h = 5"
  shows "Hacl_Impl_Poly1305_32_poly1305_last_pass h
         = (let y = carry_round (carry_round (carry_round h));
                y = y[1 := y ! 1 + drop_bit 26 (y ! 0)];
                y = y[0 := y ! 0 AND 0x3ffffff]
            in masked_subtract y)"
proof -
  obtain h0 h1 h2 h3 h4 where h: "h = [h0, h1, h2, h3, h4]" using assms by (rule list5E)
  show ?thesis
    by (simp only: Hacl_Impl_Poly1305_32_poly1305_last_pass_def carry_limb_p32_eq carry_top_p32_eq Let_def h
        limbs5 carry_round_def masked_subtract_def)
qed

lemma last_pass32_correct:
  assumes "acc32_ok h"
  shows "canonical32 (Hacl_Impl_Poly1305_32_poly1305_last_pass h)"
    and "pval32 (Hacl_Impl_Poly1305_32_poly1305_last_pass h) = pval32 h mod poly_p"
proof -
  have wide: "unat (y ! 0) < 2 ^ 27 \<and> unat (y ! 1) < 2 ^ 26 + 64" if "unat (y ! 0) < 2 ^ 26 + 5" "canonical32 (y[0 := 0])"
    for y using that by (simp add: canonical32_def)
  have l: "length h = 5" using assms by (simp add: acc32_ok_def)
  define y1 where "y1 = carry_round h"
  define y2 where "y2 = carry_round y1"
  define y3 where "y3 = carry_round y2"
  have b: "unat (h ! 0) < 2 ^ 27" "unat (h ! 1) < 2 ^ 26 + 64" "unat (h ! 2) < 2 ^ 26" "unat (h ! 3) < 2 ^ 26"
    "unat (h ! 4) < 2 ^ 26" using assms by (simp_all add: acc32_ok_def)
  note r1 = carry_round_correct [OF l b, folded y1_def]
  have b1: "length y1 = 5" "unat (y1 ! 0) < 2 ^ 27" "unat (y1 ! 1) < 2 ^ 26 + 64" "unat (y1 ! 2) < 2 ^ 26"
    "unat (y1 ! 3) < 2 ^ 26" "unat (y1 ! 4) < 2 ^ 26" "unat (y1 ! 1) < 2 ^ 26"
    using r1(2,3) by (simp_all add: canonical32_def)
  note r2 = carry_round_correct [OF b1(1-6), folded y2_def]
  have c2: "canonical32 y2" using r2(4) b1(7) r1(2) by blast
  have b2: "length y2 = 5" "unat (y2 ! 0) < 2 ^ 27" "unat (y2 ! 1) < 2 ^ 26 + 64" "unat (y2 ! 2) < 2 ^ 26"
    "unat (y2 ! 3) < 2 ^ 26" "unat (y2 ! 4) < 2 ^ 26" "unat (y2 ! 1) < 2 ^ 26" "unat (y2 ! 0) < 2 ^ 26 + 5"
    using c2 by (simp_all add: canonical32_def)
  note r3 = carry_round_correct [OF b2(1-6), folded y3_def]
  have c3: "canonical32 y3" using r3(4) b2(7,8) by blast
  have v3: "pval32 y3 mod poly_p = pval32 h mod poly_p" using r1(1) r2(1) r3(1) by simp
  have "drop_bit 26 (y3 ! 0) = 0"
    using c3 by (intro word_unatI) (simp add: unat_shr canonical32_def)
  moreover have "y3 ! 0 AND 0x3ffffff = y3 ! 0"
    using c3 by (intro word_unatI) (simp add: and_mask_26 canonical32_def)
  ultimately have "Hacl_Impl_Poly1305_32_poly1305_last_pass h = masked_subtract y3"
    by (simp add: last_pass32_eq [OF l] Let_def y1_def y2_def y3_def)
  then show "canonical32 (Hacl_Impl_Poly1305_32_poly1305_last_pass h)"
    "pval32 (Hacl_Impl_Poly1305_32_poly1305_last_pass h) = pval32 h mod poly_p"
    using masked_subtract_correct [OF c3] v3 by simp_all
qed

text \<open>Repacking the limbs into 128 bits drops the two top bits of the number.\<close>

definition pack32 :: "u32 list \<Rightarrow> u128" where
  "pack32 h = u128_logor (u128_shift_left (uint64_to_uint128 (ucast (h ! 4))) 104)
                (u128_logor (u128_shift_left (uint64_to_uint128 (ucast (h ! 3))) 78)
                  (u128_logor (u128_shift_left (uint64_to_uint128 (ucast (h ! 2))) 52)
                    (u128_logor (u128_shift_left (uint64_to_uint128 (ucast (h ! 1))) 26)
                      (uint64_to_uint128 (ucast (h ! 0))))))"

lemma pack32_correct:
  assumes "canonical32 h"
  shows "unat (pack32 h) = pval32 h mod 2 ^ 128"
proof -
  obtain h0 h1 h2 h3 h4 where h: "h = [h0, h1, h2, h3, h4]"
    using assms by (auto simp: canonical32_def elim: list5E)
  have b: "unat h0 < 2 ^ 26" "unat h1 < 2 ^ 26" "unat h2 < 2 ^ 26" "unat h3 < 2 ^ 26" "unat h4 < 2 ^ 26"
    using assms by (simp_all add: canonical32_def h)
  define u where "u = (\<lambda>x :: u32. uint64_to_uint128 (ucast x))"
  have u: "unat (u x) = unat x" for x by (simp add: u_def native.val_of unat_widen)
  define p1 where "p1 = push_bit 26 (u h1) OR u h0"
  define p2 where "p2 = push_bit 52 (u h2) OR p1"
  define p3 where "p3 = push_bit 78 (u h3) OR p2"
  have p1: "unat p1 = unat h1 * 2 ^ 26 + unat h0"
    unfolding p1_def using b by (subst unat_or_shift) (simp_all add: u)
  then have p1b: "unat p1 < 2 ^ 52" using b by simp
  have p2: "unat p2 = unat h2 * 2 ^ 52 + unat p1"
    unfolding p2_def using b p1b by (subst unat_or_shift) (simp_all add: u)
  then have p2b: "unat p2 < 2 ^ 78" using b p1b by simp
  have p3: "unat p3 = unat h3 * 2 ^ 78 + unat p2"
    unfolding p3_def using b p2b by (subst unat_or_shift) (simp_all add: u)
  then have p3b: "unat p3 < 2 ^ 104" using b p2b by simp
  have "pack32 h = push_bit 104 (u h4) OR p3"
    by (simp add: pack32_def h u_def p1_def p2_def p3_def u128_logor_def u128_shift_left_def)
  then have "unat (pack32 h) = (unat h4 * 2 ^ 104 + unat p3) mod 2 ^ 128"
    using or_eq_plus [OF p3b, of "u h4"]
    by (simp add: unat_word_ariths push_bit_eq_mult mod_simps u mult.commute)
  also have "unat h4 * 2 ^ 104 + unat p3 = pval32 h" by (simp add: p1 p2 p3 h)
  finally show ?thesis .
qed

section \<open>The tag\<close>

lemma update_last32_correct:
  assumes "poly32_ok st" and "unat len < 16" and "unat len \<le> length m"
  defines "st' \<equiv> Hacl_Poly1305_32_update_last st m len"
  shows "canonical32 (poly32_h st')"
    and "pval32 (poly32_h st') = poly_eval (pval32 (poly32_r st)) (poly32_acc st) (take (unat len) m)"
proof -
  let ?len = "ucast len :: u64"
  let ?st = "if ?len = 0 then st else Hacl_Impl_Poly1305_32_poly1305_process_last_block st m ?len"
  have u: "unat ?len = unat len" by (rule unat_widen)
  have z: "?len = 0 \<longleftrightarrow> unat len = 0" by (simp flip: u add: unat_eq_zero)
  have ok: "poly32_ok ?st" "poly32_acc ?st = poly_eval (pval32 (poly32_r st)) (poly32_acc st) (take (unat len) m)"
    using assms(1-3) last_block32_correct [of st ?len m] by (auto simp: z u poly_eval_last)
  have "st' = ?st\<lparr>poly32_h := Hacl_Impl_Poly1305_32_poly1305_last_pass (poly32_h ?st)\<rparr>"
    by (simp add: st'_def Hacl_Poly1305_32_update_last_def Let_def)
  then show "canonical32 (poly32_h st')"
    and "pval32 (poly32_h st') = poly_eval (pval32 (poly32_r st)) (poly32_acc st) (take (unat len) m)"
    using ok last_pass32_correct [of "poly32_h ?st"] by (simp_all add: poly32_ok_def poly32_acc_def)
qed

lemma finish32_eq:
  "Hacl_Poly1305_32_finish st mac k = store128_le mac (u128_add_mod (pack32 (poly32_h st)) (load128_le k))"
  by (simp only: Hacl_Poly1305_32_finish_def pack32_def Let_def)

lemma finish_last32:
  assumes "poly32_ok st" and "unat len < 16" and "unat len \<le> length m" and "16 \<le> length out" and "16 \<le> length k"
  shows "Hacl_Poly1305_32_finish (Hacl_Poly1305_32_update_last st m len) out k
     = le_bytes 16 ((poly_eval (pval32 (poly32_r st)) (poly32_acc st) (take (unat len) m) + le_val (take 16 k)) mod 2 ^ 128)
       @ drop 16 out"
proof -
  note l = update_last32_correct [OF assms(1-3)]
  let ?h = "poly32_h (Hacl_Poly1305_32_update_last st m len)"
  have "unat (u128_add_mod (pack32 ?h) (load128_le k)) = (pval32 ?h + le_val (take 16 k)) mod 2 ^ 128"
    using assms(5) by (simp add: native.val_add_mod unat_load128_le pack32_correct [OF l(1)] mod_simps)
  then show ?thesis using assms(4) by (simp add: finish32_eq store128_le_eq l(2))
qed

definition poly32_start :: "bytes \<Rightarrow> poly1305_state32" where
  "poly32_start k = Hacl_Poly1305_32_init (Hacl_Poly1305_32_mk_state (replicate 5 0) (replicate 5 0)) k"

lemma start32_correct:
  "poly32_ok (poly32_start k) \<and> pval32 (poly32_r (poly32_start k)) = clamp k \<and> poly32_acc (poly32_start k) = 0"
proof -
  define w where "w = load128_le k AND 0x0ffffffc0ffffffc0ffffffc0fffffff"
  define l where "l = (\<lambda>i :: u32. ucast (uint128_to_uint64 (u128_shift_right w i)) AND 0x3ffffff :: u32)"
  define l0 where "l0 = (ucast (uint128_to_uint64 w) AND 0x3ffffff :: u32)"
  have s: "poly32_start k = \<lparr>poly32_r = [l0, l 26, l 52, l 78, l 104], poly32_h = [0, 0, 0, 0, 0]\<rparr>"
    by (simp add: poly32_start_def Hacl_Poly1305_32_init_def Hacl_Poly1305_32_mk_state_def
        Hacl_Impl_Poly1305_32_mk_state_def clamp_constant u128_logand_def Let_def l_def l0_def w_def numeral_eq_Suc)
  have v: "unat (l i) = unat w div 2 ^ unat i mod 2 ^ 26" if "unat i < 128" for i
    using that by (simp add: l_def low_26 native.val_shr unat_ucast_down uint128_to_uint64_def mod_mod_cancel)
  have v0: "unat l0 = unat w mod 2 ^ 26"
    by (simp add: l0_def low_26 unat_ucast_down uint128_to_uint64_def mod_mod_cancel)
  have "unat w div 2 ^ 104 < 2 ^ 24" using unat_bound [of w] by (intro less_mult_imp_div_less) simp
  then have v4: "unat (l 104) = unat w div 2 ^ 104" by (simp add: v)
  have "pval32 [l0, l 26, l 52, l 78, l 104] = unat w"
    using radix_26 [of "unat w"] by (simp only: eval_limbs.simps v0 v4) (simp add: v)
  then show ?thesis
    by (simp add: s poly32_ok_def arg32_ok_def acc32_ok_def poly32_acc_def clamp_def w_def [symmetric] v v0
        del: eval_limbs.simps(2)) simp
qed

interpretation mac32: poly_mac poly32_ok poly32_r pval32 poly32_acc Hacl_Impl_Poly1305_32_poly1305_update
  Hacl_Standalone_Poly1305_32_poly1305_blocks poly32_start Hacl_Poly1305_32_update_last Hacl_Poly1305_32_finish
  by unfold_locales (rule start32_correct, rule finish_last32)

interpretation stream_mac32: poly_mac poly32_ok poly32_r pval32 poly32_acc Hacl_Impl_Poly1305_32_poly1305_update
  Hacl_Poly1305_32_update poly32_start Hacl_Poly1305_32_update_last Hacl_Poly1305_32_finish
  by unfold_locales (rule start32_correct, rule finish_last32)

lemma onetimeauth32_eq:
  "Hacl_Poly1305_32_crypto_onetimeauth out m len k
   = Hacl_Poly1305_32_finish
       (Hacl_Standalone_Poly1305_32_poly1305_complete
          (Hacl_Poly1305_32_mk_state (replicate 5 0) (replicate 5 0)) m len k) out (drop 16 k)"
  by (simp only: Hacl_Poly1305_32_crypto_onetimeauth_def Hacl_Standalone_Poly1305_32_crypto_onetimeauth_def
      Hacl_Standalone_Poly1305_32_crypto_onetimeauth'_def Hacl_Poly1305_32_mk_state_def
      Hacl_Poly1305_32_finish_def Let_def)

lemma partial32_eq:
  "Hacl_Standalone_Poly1305_32_poly1305_partial st m len k
   = Hacl_Standalone_Poly1305_32_poly1305_blocks (Hacl_Poly1305_32_init st k) m len"
  by (simp add: Hacl_Standalone_Poly1305_32_poly1305_partial_def Hacl_Poly1305_32_init_def Let_def)

lemma complete32_eq:
  assumes "unat len < 2 ^ 32"
  defines "l \<equiv> word_of_nat (unat len mod 16) :: u32"
  shows "Hacl_Standalone_Poly1305_32_poly1305_complete st m len k
         = Hacl_Poly1305_32_update_last
             (Hacl_Standalone_Poly1305_32_poly1305_blocks (Hacl_Poly1305_32_init st k) m (drop_bit 4 len))
             (drop (16 * (unat len div 16)) m) l"
  by (simp only: Hacl_Standalone_Poly1305_32_poly1305_complete_def Hacl_Poly1305_32_update_last_def
      Let_def partial32_eq length_split [OF assms(1)] l_def)

lemma onetimeauth32_correct:
  assumes "unat len < 2 ^ 32" and "unat len \<le> length m" and "32 \<le> length k" and "16 \<le> length out"
  shows "Hacl_Poly1305_32_crypto_onetimeauth out m len k
         = poly1305_mac (take (unat len) m) k @ drop 16 out"
proof -
  let ?l = "word_of_nat (unat len mod 16) :: u32"
  have l: "unat ?l = unat len mod 16" by (simp add: unat_of_nat)
  have n: "unat (drop_bit 4 len) = unat len div 16" by (simp add: unat_shr)
  have "16 * (unat len div 16) + unat len mod 16 = unat len" by simp
  then show ?thesis
    using assms mac32.machine_tag [of "drop_bit 4 len" ?l m k out]
    by (simp add: onetimeauth32_eq complete32_eq l n poly32_start_def)
qed

section \<open>Properties\<close>

text \<open>
  C23: The 32-bit one-time authenticator writes the same tag as the 64-bit one, for every key, every
  message and every length below \<open>2 ^ 32\<close>: the five-limb arithmetic never overflows and
  its final reduction is complete.
\<close>

theorem poly1305_32_equiv:
  assumes "unat len < 2 ^ 32" and "unat len \<le> length m" and "32 \<le> length k" and "16 \<le> length out"
  shows "Hacl_Poly1305_32_crypto_onetimeauth out m len k = Hacl_Poly1305_64_crypto_onetimeauth out m len k"
  using assms by (simp only: onetimeauth32_correct onetimeauth_correct)

theorem poly1305_32_equiv_witness:
  "Hacl_Poly1305_32_crypto_onetimeauth (replicate 17 9) (replicate 20 7) 19 (replicate 32 1)
   = Hacl_Poly1305_64_crypto_onetimeauth (replicate 17 9) (replicate 20 7) 19 (replicate 32 1)"
  by (rule poly1305_32_equiv) simp_all

text \<open>
  The 32-bit streaming interface (init, any split of the full blocks into two updates, last
  partial block, finish) writes the Poly1305 tag of RFC 8439 for the bytes it was given.
\<close>

theorem poly1305_32_streaming:
  assumes "16 * (unat n1 + unat n2) + unat len \<le> length m" and "unat len < 16"
    and "unat n1 + unat n2 < 2 ^ 32" and "32 \<le> length k" and "16 \<le> length out"
    and "st = Hacl_Poly1305_32_init (Hacl_Poly1305_32_mk_state (replicate 5 0) (replicate 5 0)) k"
    and "st1 = Hacl_Poly1305_32_update st m n1"
    and "st2 = Hacl_Poly1305_32_update st1 (drop (16 * unat n1) m) n2"
    and "st3 = Hacl_Poly1305_32_update_last st2 (drop (16 * (unat n1 + unat n2)) m) len"
  shows "Hacl_Poly1305_32_finish st3 out (drop 16 k)
         = poly1305_mac (take (16 * (unat n1 + unat n2) + unat len) m) k @ drop 16 out"
proof -
  have n: "unat (n1 + n2) = unat n1 + unat n2" using assms(3) by (simp add: unat_plus)
  have "st2 = Hacl_Poly1305_32_update (poly32_start k) m (n1 + n2)"
    using assms(3) by (simp add: assms(6-8) poly32_start_def stream32.machine_append)
  then show ?thesis
    using stream_mac32.machine_tag [of "n1 + n2" len m k out] assms(1,2,4,5) by (simp add: assms(9) n)
qed

theorem poly1305_32_streaming_witness:
  "Hacl_Poly1305_32_finish
     (Hacl_Poly1305_32_update_last
       (Hacl_Poly1305_32_update
         (Hacl_Poly1305_32_update
           (Hacl_Poly1305_32_init (Hacl_Poly1305_32_mk_state (replicate 5 0) (replicate 5 0)) (replicate 32 1))
           (replicate 50 7) 2)
         (drop 32 (replicate 50 7)) 1)
       (drop 48 (replicate 50 7)) 2) (replicate 16 0) (drop 16 (replicate 32 1))
   = poly1305_mac (replicate 50 7) (replicate 32 1)"
  using poly1305_32_streaming [of 2 1 2 "replicate 50 7" "replicate 32 1" "replicate 16 0", OF _ _ _ _ _ refl refl refl refl]
  by (simp add: drop_replicate)

end
