(* ===== verification/Sha2.thy ===== *)
theory Sha2
  imports LoadStore
begin

text \<open>
  What the SHA-2 functions share, for both word sizes: the description of FIPS 180-4
  (message schedule, round, compression, padding), the lemmas that relate the loops of the C
  code to it, and the locale \<open>block_hash\<close> of a Merkle-Damgard hash run block by block.
\<close>

section \<open>FIPS 180-4\<close>

record 'w sha2 =
  ssig0 :: "'w \<Rightarrow> 'w"
  ssig1 :: "'w \<Rightarrow> 'w"
  bsig0 :: "'w \<Rightarrow> 'w"
  bsig1 :: "'w \<Rightarrow> 'w"
  kconst :: "'w list"

definition sha_ch :: "'w::len word \<Rightarrow> 'w word \<Rightarrow> 'w word \<Rightarrow> 'w word" where
  "sha_ch x y z = (x AND y) XOR (NOT x AND z)"

definition sha_maj :: "'w::len word \<Rightarrow> 'w word \<Rightarrow> 'w word \<Rightarrow> 'w word" where
  "sha_maj x y z = (x AND y) XOR (x AND z) XOR (y AND z)"

text \<open>The schedule after \<open>n\<close> words have been appended to the message block.\<close>

fun schedule :: "'w::len word sha2 \<Rightarrow> nat \<Rightarrow> 'w word list \<Rightarrow> 'w word list" where
  "schedule p 0 m = m"
| "schedule p (Suc n) m =
     (let w = schedule p n m; t = length w
      in w @ [ssig1 p (w ! (t - 2)) + w ! (t - 7) + ssig0 p (w ! (t - 15)) + w ! (t - 16)])"

type_synonym 'w octet = "'w \<times> 'w \<times> 'w \<times> 'w \<times> 'w \<times> 'w \<times> 'w \<times> 'w"

definition sha_round :: "'w::len word sha2 \<Rightarrow> 'w word \<times> 'w word \<Rightarrow> 'w word octet \<Rightarrow> 'w word octet" where
  "sha_round p = (\<lambda>(k, w) (a, b, c, d, e, f, g, h).
     let t1 = h + bsig1 p e + sha_ch e f g + k + w;
         t2 = bsig0 p a + sha_maj a b c
     in (t1 + t2, a, b, c, d + t1, e, f, g))"

fun octet_list :: "'w octet \<Rightarrow> 'w list" where
  "octet_list (a, b, c, d, e, f, g, h) = [a, b, c, d, e, f, g, h]"

definition list_octet :: "'w list \<Rightarrow> 'w octet" where
  "list_octet x = (x ! 0, x ! 1, x ! 2, x ! 3, x ! 4, x ! 5, x ! 6, x ! 7)"

definition sha_compress :: "'w::len word sha2 \<Rightarrow> 'w word list \<Rightarrow> 'w word list \<Rightarrow> 'w word list" where
  "sha_compress p h m =
     (let w = schedule p (length (kconst p) - 16) m
      in map2 (+) h (octet_list (fold (sha_round p) (zip (kconst p) w) (list_octet h))))"

text \<open>Iterating a compression function over \<open>n\<close> blocks of \<open>bl\<close> bytes.\<close>

fun md_fold :: "('h \<Rightarrow> bytes \<Rightarrow> 'h) \<Rightarrow> nat \<Rightarrow> nat \<Rightarrow> 'h \<Rightarrow> bytes \<Rightarrow> 'h" where
  "md_fold f bl 0 h m = h"
| "md_fold f bl (Suc n) h m = md_fold f bl n (f h (take bl m)) (drop bl m)"

text \<open>
  The end of a padded message: the last bytes \<open>x\<close> of a message of \<open>mlen\<close> bytes, a one bit,
  zeros, and the length in bits, big-endian, in \<open>ll\<close> bytes.
\<close>

definition md_tail :: "nat \<Rightarrow> nat \<Rightarrow> nat \<Rightarrow> bytes \<Rightarrow> bytes" where
  "md_tail bl ll mlen x =
     x @ 0x80 # replicate ((bl - (mlen + 1 + ll) mod bl) mod bl) 0 @ rev (le_bytes ll (8 * mlen))"

definition md_pad :: "nat \<Rightarrow> nat \<Rightarrow> bytes \<Rightarrow> bytes" where
  "md_pad bl ll m = md_tail bl ll (length m) m"

definition md_hash :: "('h \<Rightarrow> bytes \<Rightarrow> 'h) \<Rightarrow> nat \<Rightarrow> nat \<Rightarrow> 'h \<Rightarrow> bytes \<Rightarrow> 'h" where
  "md_hash f bl ll h m = md_fold f bl (length (md_pad bl ll m) div bl) h (md_pad bl ll m)"

section \<open>The loops of the compression function\<close>

lemma rotr_shifts:
  assumes "0 < k" and "k < LENGTH('w)"
  shows "drop_bit k a OR push_bit (LENGTH('w) - k) a = word_rotr k (a :: 'w::len word)"
proof (rule bit_word_eqI)
  fix n assume n: "n < LENGTH('w)"
  have m: "(n + k) mod LENGTH('w) = (if n + k < LENGTH('w) then n + k else n + k - LENGTH('w))"
    using n assms by (simp add: mod_if)
  have b: "bit a i \<Longrightarrow> i < LENGTH('w)" for i by (rule bit_imp_le_length)
  show "bit (drop_bit k a OR push_bit (LENGTH('w) - k) a) n = bit (word_rotr k a) n"
    unfolding bit_word_rotr_iff bit_or_iff bit_push_bit_iff bit_drop_bit_eq comp_def
    using n m assms b [of "n + k"] by (auto simp: bit_push_bit_iff ac_simps Suc_le_eq)
qed

lemma length_schedule [simp]: "length (schedule p n m) = length m + n"
  by (induction n) (simp_all add: Let_def)

lemma list8E:
  assumes "length xs = 8"
  obtains a b c d e f g h where "xs = [a, b, c, d, e, f, g, h]"
  using assms by (auto simp: numeral_eq_Suc length_Suc_conv)

lemma octet_list_inv: "length xs = 8 \<Longrightarrow> octet_list (list_octet xs) = xs"
  by (erule list8E) (simp add: list_octet_def)

lemma list_octet_inv [simp]: "list_octet (octet_list x) = x"
  by (cases x) (auto simp: list_octet_def)

lemma length_octet_list [simp]: "length (octet_list x) = 8"
  by (cases x) auto

lemma length_compress [simp]: "length h = 8 \<Longrightarrow> length (sha_compress p h m) = 8"
  by (simp add: sha_compress_def Let_def)

text \<open>Reading and writing a part of the state.\<close>

lemma nth_part: "length ks = o' \<Longrightarrow> i < length v \<Longrightarrow> (ks @ v @ rest) ! (o' + i) = v ! i"
  by (simp add: nth_append)

lemma update_part:
  "length ks = o' \<Longrightarrow> i < length v \<Longrightarrow> (ks @ v @ rest)[o' + i := x] = ks @ v[i := x] @ rest"
  by (simp add: list_update_append)

text \<open>Copying the block, extending the schedule, adding the result.\<close>

lemma copy_loop:
  assumes "length ks = o'" and "n \<le> length v" and "n \<le> length d"
  shows "for_loop 0 n (\<lambda>i st. st[o' + i := d ! i]) (ks @ v @ rest) = ks @ (take n d @ drop n v) @ rest"
  using assms(2,3)
proof (induction n)
  case (Suc n)
  then have v: "drop n v = v ! n # drop (Suc n) v" by (simp add: Cons_nth_drop_Suc)
  from Suc have "take (Suc n) d = take n d @ [d ! n]" by (simp add: take_Suc_conv_app_nth)
  with Suc assms(1) show ?case
    by (simp add: for_loop_Suc update_part list_update_append v)
qed simp

lemma schedule_step:
  assumes "length ks = o'" and "length w = n" and "16 \<le> n" and "n < length (w @ u)"
  shows "(let st = ks @ (w @ u) @ rest
          in st[o' + n := g (st ! (o' + (n - 2))) (st ! (o' + (n - 7))) (st ! (o' + (n - 15))) (st ! (o' + (n - 16)))])
         = ks @ ((w @ [g (w ! (n - 2)) (w ! (n - 7)) (w ! (n - 15)) (w ! (n - 16))]) @ tl u) @ rest"
proof -
  have r: "(ks @ (w @ u) @ rest) ! (o' + j) = w ! j" if "j < n" for j
    using that assms(1,2) by (simp add: nth_append)
  have u: "u = hd u # tl u" using assms(2,4) by (cases u) simp_all
  have "(ks @ (w @ u) @ rest)[o' + n := x] = ks @ ((w @ [x]) @ tl u) @ rest" for x
    using assms(1,2) by (subst u) (simp add: list_update_append)
  moreover have "n - 2 < n" "n - 7 < n" "n - 15 < n" "n - 16 < n" using assms(3) by simp_all
  ultimately show ?thesis by (simp only: Let_def r)
qed

lemma schedule_loop:
  assumes "length ks = o'" and "length m = 16" and "16 + k \<le> length v" and "take 16 v = m"
  shows "for_loop 16 (16 + k)
           (\<lambda>i st. st[o' + i := ssig1 p (st ! (o' + (i - 2))) + st ! (o' + (i - 7))
                                + ssig0 p (st ! (o' + (i - 15))) + st ! (o' + (i - 16))])
           (ks @ v @ rest)
         = ks @ (schedule p k m @ drop (16 + k) v) @ rest"
  using assms(3)
proof (induction k)
  case 0
  have "m @ drop 16 v = v" unfolding assms(4) [symmetric] by (rule append_take_drop_id)
  then show ?case by (simp del: append_assoc)
next
  case (Suc k)
  define w where "w = schedule p k m"
  have w: "length w = 16 + k" by (simp add: w_def assms(2))
  have t: "tl (drop (16 + k) v) = drop (16 + Suc k) v" by (simp only: tl_drop drop_Suc add_Suc_right)
  have "schedule p (Suc k) m
      = w @ [ssig1 p (w ! (16 + k - 2)) + w ! (16 + k - 7) + ssig0 p (w ! (16 + k - 15)) + w ! (16 + k - 16)]"
    by (simp only: schedule.simps Let_def w_def [symmetric] w)
  moreover have "for_loop 16 (16 + k)
           (\<lambda>i st. st[o' + i := ssig1 p (st ! (o' + (i - 2))) + st ! (o' + (i - 7))
                                + ssig0 p (st ! (o' + (i - 15))) + st ! (o' + (i - 16))])
           (ks @ v @ rest) = ks @ (w @ drop (16 + k) v) @ rest"
    using Suc by (simp add: w_def)
  ultimately show ?case
    using schedule_step [OF assms(1) w, where u = "drop (16 + k) v"
        and g = "\<lambda>a b c d. ssig1 p a + b + ssig0 p c + d" and rest = rest] Suc.prems w
    by (simp only: add_Suc_right for_loop_Suc le_add1 Let_def t) simp
qed

lemma add_loop:
  assumes "length ks = o'" and "n \<le> length h" and "n \<le> length (x :: 'w::len word list)"
  shows "for_loop 0 n (\<lambda>i st. st[o' + i := st ! (o' + i) + x ! i]) (ks @ h @ rest)
         = ks @ (map2 (+) (take n h) (take n x) @ drop n h) @ rest"
  using assms(2,3)
proof (induction n)
  case (Suc n)
  have h: "drop n h = h ! n # drop (Suc n) h" using Suc by (simp add: Cons_nth_drop_Suc)
  have l: "length (map2 (+) (take n h) (take n x)) = n" using Suc by simp
  have "map2 (+) (take (Suc n) h) (take (Suc n) x)
      = map2 (+) (take n h) (take n x) @ [h ! n + x ! n]"
    using Suc by (simp add: take_Suc_conv_app_nth)
  with Suc assms(1) l show ?case
    by (simp add: for_loop_Suc nth_append list_update_append h del: map_zip_map map_zip_map2)
qed simp

text \<open>The round loop, on the eight words of the local copy.\<close>

lemma round_loop:
  assumes "n \<le> length k" and "n \<le> length w" and "length x = 8"
    and body: "\<And>i y. i < n \<Longrightarrow> body i (octet_list y) = octet_list (sha_round p (k ! i, w ! i) y)"
  shows "for_loop 0 n body x = octet_list (fold (sha_round p) (zip (take n k) (take n w)) (list_octet x))"
  using assms
proof (induction n)
  case 0
  then show ?case by (simp add: octet_list_inv)
next
  case (Suc n)
  have "zip (take (Suc n) k) (take (Suc n) w) = zip (take n k) (take n w) @ [(k ! n, w ! n)]"
    using Suc.prems by (simp add: take_Suc_conv_app_nth)
  then show ?case using Suc by (simp add: for_loop_Suc)
qed

section \<open>Padding and iteration\<close>

lemma md_fold_append:
  "length m = bl * n \<Longrightarrow> md_fold f bl (n + k) h (m @ m') = md_fold f bl k (md_fold f bl n h m) m'"
proof (induction n arbitrary: h m)
  case (Suc n)
  then have l: "bl \<le> length m" "length (drop bl m) = bl * n" by simp_all
  then have "take bl (m @ m') = take bl m" "drop bl (m @ m') = drop bl m @ m'" by simp_all
  then show ?case using Suc.IH [OF l(2)] by (simp only: add_Suc md_fold.simps)
qed simp

lemma md_fold_take: "md_fold f bl n h (take (bl * n) m) = md_fold f bl n h m"
proof (induction n arbitrary: h m)
  case (Suc n)
  have "take bl (take (bl * Suc n) m) = take bl m" by (simp add: min_def)
  moreover have "drop bl (take (bl * Suc n) m) = take (bl * n) (drop bl m)" by (simp add: drop_take)
  ultimately show ?case using Suc by simp
qed simp

lemma md_fold_one: "md_fold f bl 1 h m = f h (take bl m)"
  by simp

lemma md_fold_snoc:
  "bl * Suc n \<le> length m \<Longrightarrow>
   md_fold f bl (Suc n) h m = f (md_fold f bl n h m) (take bl (drop (bl * n) m))"
proof -
  assume "bl * Suc n \<le> length m"
  then have "md_fold f bl (n + 1) h (take (bl * n) m @ drop (bl * n) m)
      = md_fold f bl 1 (md_fold f bl n h (take (bl * n) m)) (drop (bl * n) m)"
    by (intro md_fold_append) simp
  then show ?thesis
    by (simp only: append_take_drop_id md_fold_take md_fold_one Suc_eq_plus1)
qed

text \<open>The zeros fill one block, or two when the length field does not fit the first.\<close>

lemma pad_zeros:
  fixes bl :: nat
  assumes "L < bl" and "ll < bl"
  shows "L + 1 + (bl - (L + 1 + ll) mod bl) mod bl + ll = (if L < bl - ll then bl else 2 * bl)"
proof -
  define M where "M = L + 1 + ll"
  consider "M < bl" | "M = bl" | "bl < M" "M < 2 * bl" using assms M_def by linarith
  then have "M + (bl - M mod bl) mod bl = (if L < bl - ll then bl else 2 * bl)"
  proof cases
    case 3
    then have "M mod bl = M - bl" by (simp add: mod_if)
    with 3 show ?thesis unfolding M_def by auto
  qed (use assms in \<open>auto simp: M_def\<close>)
  then show ?thesis by (simp add: M_def)
qed

lemma length_md_tail:
  assumes "length x < bl" and "ll < bl" and "mlen = bl * n + length x"
  shows "length (md_tail bl ll mlen x) = (if length x < bl - ll then bl else 2 * bl)"
proof -
  have "(mlen + 1 + ll) mod bl = (length x + 1 + ll) mod bl"
    using mod_mult_self2 [of "length x + 1 + ll" bl n] by (simp add: assms(3) ac_simps)
  then show ?thesis using pad_zeros [OF assms(1,2)] by (simp add: md_tail_def)
qed

text \<open>Hashing a message whose full blocks have been absorbed.\<close>

lemma md_hash_split:
  assumes "length m = bl * n" and "length x < bl" and "ll < bl"
  shows "md_hash f bl ll h (m @ x)
         = md_fold f bl (if length x < bl - ll then 1 else 2) (md_fold f bl n h m)
             (md_tail bl ll (bl * n + length x) x)"
proof -
  let ?t = "md_tail bl ll (bl * n + length x) x"
  let ?k = "if length x < bl - ll then 1 else 2 :: nat"
  have l: "length ?t = bl * ?k" using length_md_tail [OF assms(2,3) refl, of n] by simp
  have p: "md_pad bl ll (m @ x) = m @ ?t" using assms(1) by (simp add: md_pad_def md_tail_def)
  have d: "length (m @ ?t) div bl = n + ?k"
  proof -
    have "length (m @ ?t) = bl * (n + ?k)" using l assms(1) by (simp add: distrib_left)
    then show ?thesis using assms(2) by simp
  qed
  show ?thesis unfolding md_hash_def p d by (rule md_fold_append [OF assms(1)])
qed

text \<open>The buffer the C functions build for the last blocks.\<close>

lemma final_buffer:
  fixes data :: bytes
  assumes "L \<le> length data" and "F = L + 1 + z + ll" and "length be = ll"
  shows "at_ptr (L + 1 + z) (\<lambda>b. be @ drop ll b)
           (at_ptr L (\<lambda>b. b[0 := 0x80]) (memcpy (replicate F 0) data L))
         = take L data @ 0x80 # replicate z 0 @ be"
proof -
  have "replicate (F - L) (0 :: u8) = 0 # replicate (z + ll) 0"
    using assms(2) by (simp flip: replicate_Suc)
  then have "at_ptr L (\<lambda>b. b[0 := 0x80]) (memcpy (replicate F 0) data L)
      = take L data @ 0x80 # replicate (z + ll) 0"
    using assms(1) by (simp add: at_ptr_def memcpy_def drop_replicate)
  then show ?thesis using assms(1,3) by (simp add: at_ptr_def replicate_add)
qed

section \<open>The interface of a hash run block by block\<close>

text \<open>
  \<open>chain\<close> reads the chaining value of a state, \<open>blocks\<close> its block counter, which wraps at
  \<open>cmax\<close>; \<open>update\<close> absorbs one block of \<open>bl\<close> bytes.
\<close>

locale block_hash =
  fixes ok :: "'s \<Rightarrow> bool"
    and chain :: "'s \<Rightarrow> 'h"
    and blocks :: "'s \<Rightarrow> nat"
    and cmax :: nat
    and compress :: "'h \<Rightarrow> bytes \<Rightarrow> 'h"
    and bl :: nat
    and update :: "'s \<Rightarrow> bytes \<Rightarrow> 's"
  assumes bl: "0 < bl" "bl < 2 ^ 32"
    and update_ok: "ok s \<Longrightarrow> bl \<le> length b \<Longrightarrow> ok (update s b)"
    and update_chain: "ok s \<Longrightarrow> bl \<le> length b \<Longrightarrow> chain (update s b) = compress (chain s) (take bl b)"
    and update_blocks: "ok s \<Longrightarrow> bl \<le> length b \<Longrightarrow> blocks (update s b) = (blocks s + 1) mod cmax"
begin

lemma multi_wrap:
  assumes "ok s" and "bl * n \<le> length data" and "bl * n < 2 ^ 32"
  defines "s' \<equiv> for_loop 0 n (\<lambda>i s. update s (drop (off32 bl i) data)) s"
  shows "ok s' \<and> chain s' = md_fold compress bl n (chain s) data
         \<and> blocks s' = (if n = 0 then blocks s else (blocks s + n) mod cmax)"
  unfolding s'_def using assms(2-3)
proof (induction n)
  case 0
  then show ?case using assms(1) by simp
next
  case (Suc n)
  have b: "bl * n < 2 ^ 32" using Suc.prems by simp
  have "n \<le> bl * n" using bl(1) by simp
  then have "n < 2 ^ 32" using b by (rule le_less_trans)
  with b bl(2) have off: "off32 bl n = bl * n" by (intro off32_small)
  have l: "bl \<le> length (drop (bl * n) data)" using Suc.prems by simp
  have IH: "ok (for_loop 0 n (\<lambda>i s. update s (drop (off32 bl i) data)) s)"
    "chain (for_loop 0 n (\<lambda>i s. update s (drop (off32 bl i) data)) s) = md_fold compress bl n (chain s) data"
    "blocks (for_loop 0 n (\<lambda>i s. update s (drop (off32 bl i) data)) s)
     = (if n = 0 then blocks s else (blocks s + n) mod cmax)"
    using Suc by simp_all
  then show ?case
    using l Suc.prems
    by (simp add: for_loop_Suc off update_ok update_chain update_blocks md_fold_snoc mod_simps
        del: md_fold.simps(2))
qed

lemma multi:
  assumes "ok s" and "bl * n \<le> length data" and "bl * n < 2 ^ 32" and "blocks s + n < cmax"
  defines "s' \<equiv> for_loop 0 n (\<lambda>i s. update s (drop (off32 bl i) data)) s"
  shows "ok s' \<and> chain s' = md_fold compress bl n (chain s) data \<and> blocks s' = blocks s + n"
  unfolding s'_def using multi_wrap [OF assms(1-3)] assms(4) by auto

text \<open>The padded tail, one block or two, completes the hash of the message.\<close>

lemma tail:
  fixes n :: nat
  assumes "ok s" and "l < bl" and "l \<le> length x" and "ll < bl" and "2 * bl < 2 ^ 32"
  defines "t \<equiv> md_tail bl ll (bl * n + l) (take l x)" and "k \<equiv> if l < bl - ll then 1 else 2"
  defines "s' \<equiv> for_loop 0 k (\<lambda>i s. update s (drop (off32 bl i) t)) s"
  shows "ok s'"
    and "chain s = md_fold compress bl n h0 m \<Longrightarrow> length m = bl * n \<Longrightarrow> blocks s = n \<Longrightarrow> n + 2 < cmax \<Longrightarrow>
         chain s' = md_hash compress bl ll h0 (m @ take l x)"
proof -
  have lx: "length (take l x) = l" using assms(3) by simp
  have lt: "length t = bl * k"
    unfolding t_def k_def using length_md_tail [of "take l x" bl ll "bl * n + l" n] assms(2,4) lx by simp
  have k: "bl * k < 2 ^ 32" using assms(5) by (simp add: k_def)
  show "ok s'" using multi_wrap [OF assms(1) _ k, of t] by (simp add: s'_def lt)
  show "chain s' = md_hash compress bl ll h0 (m @ take l x)"
    if "chain s = md_fold compress bl n h0 m" "length m = bl * n" "blocks s = n" "n + 2 < cmax"
  proof -
    have "chain s' = md_fold compress bl k (chain s) t"
      using multi_wrap [OF assms(1) _ k, of t] by (simp add: s'_def lt)
    also have "\<dots> = md_hash compress bl ll h0 (m @ take l x)"
      using md_hash_split [of m bl n "take l x" ll compress h0] that(1,2) assms(2,4) lx
      by (simp add: t_def k_def del: md_fold.simps)
    finally show ?thesis .
  qed
qed

end

end
