(* ===== verification/Sha2_256.thy ===== *)
theory Sha2_256
  imports Sha2 Sha2_Constants
begin

text \<open>
  \<open>Hacl_SHA2_256.c\<close>.  The state is one array of 137 words: the round constants (0..63), the
  message schedule (64..127), the chaining value (128..135) and the block counter (136); the
  pointers the C code derives from it are offsets.
\<close>

section \<open>The code\<close>

definition Hacl_Impl_SHA2_256_init :: "u32 list \<Rightarrow> u32 list" where
  "Hacl_Impl_SHA2_256_init state =
     (let state = at_ptr 0 (\<lambda>p12. p12[0 := 0x428a2f98, 1 := 0x71374491, 2 := 0xb5c0fbcf, 3 := 0xe9b5dba5]) state;
          state = at_ptr 4 (\<lambda>p22. p22[0 := 0x3956c25b, 1 := 0x59f111f1, 2 := 0x923f82a4, 3 := 0xab1c5ed5]) state;
          state = at_ptr 8 (\<lambda>p13. p13[0 := 0xd807aa98, 1 := 0x12835b01, 2 := 0x243185be, 3 := 0x550c7dc3]) state;
          state = at_ptr 12 (\<lambda>p23. p23[0 := 0x72be5d74, 1 := 0x80deb1fe, 2 := 0x9bdc06a7, 3 := 0xc19bf174]) state;
          state = at_ptr 16 (\<lambda>p15. p15[0 := 0xe49b69c1, 1 := 0xefbe4786, 2 := 0x0fc19dc6, 3 := 0x240ca1cc]) state;
          state = at_ptr 20 (\<lambda>p25. p25[0 := 0x2de92c6f, 1 := 0x4a7484aa, 2 := 0x5cb0a9dc, 3 := 0x76f988da]) state;
          state = at_ptr 24 (\<lambda>p16. p16[0 := 0x983e5152, 1 := 0xa831c66d, 2 := 0xb00327c8, 3 := 0xbf597fc7]) state;
          state = at_ptr 28 (\<lambda>p26. p26[0 := 0xc6e00bf3, 1 := 0xd5a79147, 2 := 0x06ca6351, 3 := 0x14292967]) state;
          state = at_ptr 32 (\<lambda>p18. p18[0 := 0x27b70a85, 1 := 0x2e1b2138, 2 := 0x4d2c6dfc, 3 := 0x53380d13]) state;
          state = at_ptr 36 (\<lambda>p28. p28[0 := 0x650a7354, 1 := 0x766a0abb, 2 := 0x81c2c92e, 3 := 0x92722c85]) state;
          state = at_ptr 40 (\<lambda>p19. p19[0 := 0xa2bfe8a1, 1 := 0xa81a664b, 2 := 0xc24b8b70, 3 := 0xc76c51a3]) state;
          state = at_ptr 44 (\<lambda>p29. p29[0 := 0xd192e819, 1 := 0xd6990624, 2 := 0xf40e3585, 3 := 0x106aa070]) state;
          state = at_ptr 48 (\<lambda>p1. p1[0 := 0x19a4c116, 1 := 0x1e376c08, 2 := 0x2748774c, 3 := 0x34b0bcb5]) state;
          state = at_ptr 52 (\<lambda>p211. p211[0 := 0x391c0cb3, 1 := 0x4ed8aa4a, 2 := 0x5b9cca4f, 3 := 0x682e6ff3]) state;
          state = at_ptr 56 (\<lambda>p111. p111[0 := 0x748f82ee, 1 := 0x78a5636f, 2 := 0x84c87814, 3 := 0x8cc70208]) state;
          state = at_ptr 60 (\<lambda>p212. p212[0 := 0x90befffa, 1 := 0xa4506ceb, 2 := 0xbef9a3f7, 3 := 0xc67178f2]) state;
          state = at_ptr 128 (\<lambda>p112. p112[0 := 0x6a09e667, 1 := 0xbb67ae85, 2 := 0x3c6ef372, 3 := 0xa54ff53a]) state;
          state = at_ptr 132 (\<lambda>p2. p2[0 := 0x510e527f, 1 := 0x9b05688c, 2 := 0x1f83d9ab, 3 := 0x5be0cd19]) state;
          state = at_ptr 136 (\<lambda>n1. n1[0 := 0]) state
      in state)"

definition Hacl_Impl_SHA2_256_update :: "u32 list \<Rightarrow> bytes \<Rightarrow> u32 list" where
  "Hacl_Impl_SHA2_256_update state data =
     (let data_w = replicate 16 0;
          data_w = Hacl_Hash_Lib_LoadStore_uint32s_from_be_bytes data_w data 16;
          state = for_loop 0 16 (\<lambda>i state. let b = data_w ! i in state[64 + i := b]) state;
          state = for_loop 16 64
                    (\<lambda>i state.
                       let t16 = state ! (64 + (i - 16)); t15 = state ! (64 + (i - 15));
                           t7 = state ! (64 + (i - 7)); t2 = state ! (64 + (i - 2))
                       in state[64 + i :=
                            ((drop_bit 17 t2 OR push_bit (32 - 17) t2)
                             XOR ((drop_bit 19 t2 OR push_bit (32 - 19) t2) XOR drop_bit 10 t2))
                            + (t7
                               + (((drop_bit 7 t15 OR push_bit (32 - 7) t15)
                                   XOR ((drop_bit 18 t15 OR push_bit (32 - 18) t15) XOR drop_bit 3 t15))
                                  + t16))]) state;
          hash_0 = replicate 8 0;
          hash_0 = memcpy hash_0 (drop 128 state) 8;
          hash_0 = for_loop 0 64
                     (\<lambda>i hash_0.
                        let a = hash_0 ! 0; b = hash_0 ! 1; c = hash_0 ! 2; d = hash_0 ! 3;
                            e = hash_0 ! 4; f1 = hash_0 ! 5; g = hash_0 ! 6; h = hash_0 ! 7;
                            kt = state ! i;
                            wst = state ! (64 + i);
                            t1 = h
                                 + ((drop_bit 6 e OR push_bit (32 - 6) e)
                                    XOR ((drop_bit 11 e OR push_bit (32 - 11) e)
                                         XOR (drop_bit 25 e OR push_bit (32 - 25) e)))
                                 + ((e AND f1) XOR (NOT e AND g)) + kt + wst;
                            t2 = ((drop_bit 2 a OR push_bit (32 - 2) a)
                                  XOR ((drop_bit 13 a OR push_bit (32 - 13) a)
                                       XOR (drop_bit 22 a OR push_bit (32 - 22) a)))
                                 + ((a AND b) XOR ((a AND c) XOR (b AND c)));
                            x1 = t1 + t2;
                            x5 = d + t1;
                            hash_0 = hash_0[0 := x1]; hash_0 = hash_0[1 := a];
                            hash_0 = hash_0[2 := b]; hash_0 = hash_0[3 := c];
                            hash_0 = at_ptr 4 (\<lambda>p2. p2[0 := x5, 1 := e, 2 := f1, 3 := g]) hash_0
                        in hash_0) hash_0;
          state = for_loop 0 8
                    (\<lambda>i state. let xi = state ! (128 + i); yi = hash_0 ! i
                                in state[128 + i := xi + yi]) state;
          c0 = state ! 136;
          one1 = 1;
          state = state[136 := c0 + one1]
      in state)"

definition Hacl_Impl_SHA2_256_update_multi :: "u32 list \<Rightarrow> bytes \<Rightarrow> u32 \<Rightarrow> u32 list" where
  "Hacl_Impl_SHA2_256_update_multi state data n1 =
     for_loop 0 (unat n1)
       (\<lambda>i state. Hacl_Impl_SHA2_256_update state (drop (off32 64 i) data)) state"

definition Hacl_Impl_SHA2_256_update_last :: "u32 list \<Rightarrow> bytes \<Rightarrow> u32 \<Rightarrow> u32 list" where
  "Hacl_Impl_SHA2_256_update_last state data len =
     (let blocks = replicate 128 0;
          nb = (if len < 56 then 1 else 2 :: u32);
          final_blocks = (if len < 56 then drop 64 blocks else blocks);
          final_blocks = memcpy final_blocks data (unat len);
          n1 = state ! 136;
          pad0len = (64 - (len + 8 + 1) mod 64) mod 64;
          encodedlen = (ucast n1 * ucast (64 :: u32) + ucast len) * ucast (8 :: u32);
          final_blocks = at_ptr (unat len) (\<lambda>buf1. buf1[0 := 0x80]) final_blocks;
          final_blocks = at_ptr (unat len + 1 + unat pad0len)
                           (\<lambda>buf2. store64_be buf2 encodedlen) final_blocks
      in Hacl_Impl_SHA2_256_update_multi state final_blocks nb)"

definition Hacl_Impl_SHA2_256_finish :: "u32 list \<Rightarrow> bytes \<Rightarrow> bytes" where
  "Hacl_Impl_SHA2_256_finish state hash1 =
     (let hash_w = drop 128 state in Hacl_Hash_Lib_LoadStore_uint32s_to_be_bytes hash1 hash_w 8)"

definition Hacl_Impl_SHA2_256_hash :: "bytes \<Rightarrow> bytes \<Rightarrow> u32 \<Rightarrow> bytes" where
  "Hacl_Impl_SHA2_256_hash hash1 input len =
     (let state = replicate 137 0;
          n1 = len div 64;
          r = len mod 64;
          input_blocks = input;
          input_last = drop (unat (n1 * 64)) input;
          state = Hacl_Impl_SHA2_256_init state;
          state = Hacl_Impl_SHA2_256_update_multi state input_blocks n1;
          state = Hacl_Impl_SHA2_256_update_last state input_last r
      in Hacl_Impl_SHA2_256_finish state hash1)"

definition Hacl_SHA2_256_init :: "u32 list \<Rightarrow> u32 list" where
  "Hacl_SHA2_256_init state = Hacl_Impl_SHA2_256_init state"

definition Hacl_SHA2_256_update :: "u32 list \<Rightarrow> bytes \<Rightarrow> u32 list" where
  "Hacl_SHA2_256_update state data_8 = Hacl_Impl_SHA2_256_update state data_8"

definition Hacl_SHA2_256_update_multi :: "u32 list \<Rightarrow> bytes \<Rightarrow> u32 \<Rightarrow> u32 list" where
  "Hacl_SHA2_256_update_multi state data n1 = Hacl_Impl_SHA2_256_update_multi state data n1"

definition Hacl_SHA2_256_update_last :: "u32 list \<Rightarrow> bytes \<Rightarrow> u32 \<Rightarrow> u32 list" where
  "Hacl_SHA2_256_update_last state data len = Hacl_Impl_SHA2_256_update_last state data len"

definition Hacl_SHA2_256_finish :: "u32 list \<Rightarrow> bytes \<Rightarrow> bytes" where
  "Hacl_SHA2_256_finish state hash1 = Hacl_Impl_SHA2_256_finish state hash1"

definition Hacl_SHA2_256_hash :: "bytes \<Rightarrow> bytes \<Rightarrow> u32 \<Rightarrow> bytes" where
  "Hacl_SHA2_256_hash hash1 input len = Hacl_Impl_SHA2_256_hash hash1 input len"

section \<open>SHA-256\<close>

definition sha256_k :: "u32 list" where
  "sha256_k = root_consts 3 (take 64 small_primes)"

definition sha256 :: "u32 sha2" where
  "sha256 =
     \<lparr>ssig0 = (\<lambda>x. word_rotr 7 x XOR word_rotr 18 x XOR drop_bit 3 x),
      ssig1 = (\<lambda>x. word_rotr 17 x XOR word_rotr 19 x XOR drop_bit 10 x),
      bsig0 = (\<lambda>x. word_rotr 2 x XOR word_rotr 13 x XOR word_rotr 22 x),
      bsig1 = (\<lambda>x. word_rotr 6 x XOR word_rotr 11 x XOR word_rotr 25 x),
      kconst = sha256_k\<rparr>"

definition sha256_h0 :: "u32 list" where
  "sha256_h0 = root_consts 2 (take 8 small_primes)"

definition sha256_block :: "u32 list \<Rightarrow> bytes \<Rightarrow> u32 list" where
  "sha256_block h b = sha_compress sha256 h (words_be 16 b)"

definition sha256_spec :: "bytes \<Rightarrow> bytes" where
  "sha256_spec m = bytes_be (md_hash sha256_block 64 8 sha256_h0 m)"

section \<open>One block\<close>

lemma rotr32: "0 < k \<Longrightarrow> k < 32 \<Longrightarrow> drop_bit k a OR push_bit (32 - k) a = word_rotr k (a :: u32)"
  using rotr_shifts [of k a] by simp

lemma sha256_schedule_body:
  "((drop_bit 17 t2 OR push_bit (32 - 17) t2) XOR ((drop_bit 19 t2 OR push_bit (32 - 19) t2) XOR drop_bit 10 t2))
   + (t7 + (((drop_bit 7 t15 OR push_bit (32 - 7) t15)
             XOR ((drop_bit 18 t15 OR push_bit (32 - 18) t15) XOR drop_bit 3 t15)) + t16))
   = ssig1 sha256 t2 + t7 + ssig0 sha256 t15 + t16"
  by (simp only: sha256_def sha2.simps rotr32 zero_less_numeral numeral_less_iff rel_simps) (simp add: ac_simps)

lemma sha256_round_body:
  "(let a = x ! 0; b = x ! 1; c = x ! 2; d = x ! 3; e = x ! 4; f1 = x ! 5; g = x ! 6; h = x ! 7;
        kt = k; wst = w;
        t1 = h
             + ((drop_bit 6 e OR push_bit (32 - 6) e)
                XOR ((drop_bit 11 e OR push_bit (32 - 11) e) XOR (drop_bit 25 e OR push_bit (32 - 25) e)))
             + ((e AND f1) XOR (NOT e AND g)) + kt + wst;
        t2 = ((drop_bit 2 a OR push_bit (32 - 2) a)
              XOR ((drop_bit 13 a OR push_bit (32 - 13) a) XOR (drop_bit 22 a OR push_bit (32 - 22) a)))
             + ((a AND b) XOR ((a AND c) XOR (b AND c)));
        x1 = t1 + t2; x5 = d + t1;
        x = x[0 := x1]; x = x[1 := a]; x = x[2 := b]; x = x[3 := c];
        x = at_ptr 4 (\<lambda>p2. p2[0 := x5, 1 := e, 2 := f1, 3 := g]) x
    in x) = octet_list (sha_round sha256 (k, w) (list_octet x))"
  if "length x = 8"
  using that
  by (rule list8E)
     (simp only: rotr32 zero_less_numeral numeral_less_iff rel_simps,
      simp add: sha_round_def sha256_def sha_ch_def sha_maj_def list_octet_def Let_def at_ptr_def ac_simps)

lemma sha256_update_eq:
  assumes "length ks = 64" and "ks = kconst sha256" and "length ws = 64" and "length hs = 8"
  shows "Hacl_Impl_SHA2_256_update (ks @ ws @ hs @ [n0]) data
         = ks @ schedule sha256 48 (words_be 16 data) @ sha256_block hs data @ [n0 + 1]"
proof -
  define m where "m = words_be 16 data"
  define w where "w = schedule sha256 48 m"
  define x where "x = octet_list (fold (sha_round sha256) (zip ks w) (list_octet hs))"
  have m: "length m = 16" by (simp add: m_def)
  have w: "length w = 64" by (simp add: w_def m)
  have x: "length x = 8" by (simp add: x_def)
  have dw: "Hacl_Hash_Lib_LoadStore_uint32s_from_be_bytes (replicate 16 0) data 16 = m"
    by (simp add: from_be_bytes_eq m_def)
  have l1: "for_loop 0 16 (\<lambda>i st. st[64 + i := m ! i]) (ks @ ws @ hs @ [n0])
      = ks @ (m @ drop 16 ws) @ hs @ [n0]"
    using assms m copy_loop [of ks 64 16 ws m "hs @ [n0]"] by simp
  have l2: "for_loop 16 64
      (\<lambda>i st. st[64 + i := ssig1 sha256 (st ! (64 + (i - 2))) + st ! (64 + (i - 7))
                            + ssig0 sha256 (st ! (64 + (i - 15))) + st ! (64 + (i - 16))])
      (ks @ (m @ drop 16 ws) @ hs @ [n0]) = ks @ w @ hs @ [n0]"
    using assms m schedule_loop [of ks 64 m 48 "m @ drop 16 ws" sha256 "hs @ [n0]"] by (simp add: w_def)
  have cp: "memcpy (replicate 8 0) (drop 128 (ks @ w @ hs @ [n0])) 8 = hs"
    using assms w by (simp add: memcpy_def)
  have l3: "for_loop 0 64 body hs = x"
    if "\<And>i y. i < 64 \<Longrightarrow> body i (octet_list y) = octet_list (sha_round sha256 (ks ! i, w ! i) y)" for body
    using assms w that round_loop [of 64 ks w hs body sha256] by (simp add: x_def)
  have l4: "for_loop 0 8 (\<lambda>i st. st[128 + i := st ! (128 + i) + x ! i]) (ks @ w @ hs @ [n0])
      = ks @ w @ sha256_block hs data @ [n0]"
    using assms w x add_loop [of "ks @ w" 128 8 hs x "[n0]"]
    by (simp add: sha256_block_def sha_compress_def Let_def x_def w_def m_def)
  have kc: "length (kconst sha256) = 64" using assms by simp
  have h: "length (sha256_block hs data) = 8" using assms(4) by (simp add: sha256_block_def)
  have cnt: "(ks @ w @ sha256_block hs data @ [n0]) ! 136 = n0"
    "(ks @ w @ sha256_block hs data @ [n0])[136 := y] = ks @ w @ sha256_block hs data @ [y]" for y
    using assms w h by (simp_all add: nth_append list_update_append)
  have part: "(ks @ w @ hs @ [n0]) ! i = ks ! i" "(ks @ w @ hs @ [n0]) ! (64 + i) = w ! i" if "i < 64" for i
    using that assms w by (simp_all add: nth_append)
  have l3': "for_loop 0 64
      (\<lambda>i x. let a = x ! 0; b = x ! 1; c = x ! 2; d = x ! 3; e = x ! 4; f1 = x ! 5; g = x ! 6; h = x ! 7;
        kt = (ks @ w @ hs @ [n0]) ! i; wst = (ks @ w @ hs @ [n0]) ! (64 + i);
        t1 = h
             + ((drop_bit 6 e OR push_bit (32 - 6) e)
                XOR ((drop_bit 11 e OR push_bit (32 - 11) e) XOR (drop_bit 25 e OR push_bit (32 - 25) e)))
             + ((e AND f1) XOR (NOT e AND g)) + kt + wst;
        t2 = ((drop_bit 2 a OR push_bit (32 - 2) a)
              XOR ((drop_bit 13 a OR push_bit (32 - 13) a) XOR (drop_bit 22 a OR push_bit (32 - 22) a)))
             + ((a AND b) XOR ((a AND c) XOR (b AND c)));
        x1 = t1 + t2; x5 = d + t1;
        x = x[0 := x1]; x = x[1 := a]; x = x[2 := b]; x = x[3 := c];
        x = at_ptr 4 (\<lambda>p2. p2[0 := x5, 1 := e, 2 := f1, 3 := g]) x
    in x) hs = x"
    by (rule l3) (simp only: part sha256_round_body length_octet_list list_octet_inv)
  show ?thesis
    by (simp only: Hacl_Impl_SHA2_256_update_def Let_def dw l1 sha256_schedule_body l2 cp l3' [unfolded Let_def]
        l4 cnt m_def [symmetric] w_def [symmetric] cong: let_weak_cong)
qed

text \<open>The table of round constants the code writes, and its check.\<close>

definition sha256_table :: "u32 list" where
  "sha256_table = take 64 (Hacl_Impl_SHA2_256_init (replicate 137 0))"

lemmas sha256_table_eq =
  sha256_table_def Hacl_Impl_SHA2_256_init_def Let_def take_at_ptr write4_first write4_next

lemma sha256_table_roots1: "list_all2 (frac_root 3 32) (take 32 (take 64 small_primes)) (map unat (take 32 sha256_table))"
  by (simp add: sha256_table_eq del: One_nat_def append_assoc append_Cons append_Nil) (simp add: root_check)

lemma sha256_table_roots2: "list_all2 (frac_root 3 32) (drop 32 (take 64 small_primes)) (map unat (drop 32 sha256_table))"
  by (simp add: sha256_table_eq del: One_nat_def append_assoc append_Cons append_Nil) (simp add: root_check)

lemma sha256_table_k: "sha256_table = sha256_k"
  unfolding sha256_k_def
  by (rule root_consts_eq [symmetric], unfold len_32)
     (rule list_all2_parts [OF sha256_table_roots1 sha256_table_roots2])

lemma sha256_init_h0:
  "[0x6a09e667, 0xbb67ae85, 0x3c6ef372, 0xa54ff53a] @
   [0x510e527f, 0x9b05688c, 0x1f83d9ab, 0x5be0cd19] = sha256_h0"
  unfolding sha256_h0_def by (rule root_consts_eq [symmetric]) (simp add: root_check)

lemma length_sha256_h0: "length sha256_h0 = 8"
  by (simp add: sha256_h0_def)

lemma sha256_init_eq:
  assumes "length s = 137"
  shows "Hacl_Impl_SHA2_256_init s = sha256_k @ take 64 (drop 64 s) @ sha256_h0 @ [0]"
proof -
  have d: "drop 64 s = take 64 (drop 64 s) @ drop 128 s"
    using append_take_drop_id [of 64 "drop 64 s"] by simp
  have e: "drop 136 s = [s ! 136]"
    using assms Cons_nth_drop_Suc [of 136 s] by simp
  have k: "length sha256_k = 64" by (simp add: sha256_k_def)
  have n: "at_ptr 136 (\<lambda>n1. n1[0 := 0]) (xs @ [x]) = xs @ [0]" if "length xs = 136" for xs and x :: u32
    using that by (simp add: at_ptr_def)
  have "Hacl_Impl_SHA2_256_init s =
      at_ptr 136 (\<lambda>n1. n1[0 := 0])
        (at_ptr 132 (\<lambda>p2. p2[0 := 0x510e527f, 1 := 0x9b05688c, 2 := 0x1f83d9ab, 3 := 0x5be0cd19])
          (at_ptr 128 (\<lambda>p112. p112[0 := 0x6a09e667, 1 := 0xbb67ae85, 2 := 0x3c6ef372, 3 := 0xa54ff53a])
            (sha256_k @ drop 64 s)))"
    using assms
    by (simp add: Hacl_Impl_SHA2_256_init_def write4_first write4_next
        del: One_nat_def append_assoc append_Cons append_Nil)
       (simp add: sha256_table_k [symmetric] sha256_table_eq del: One_nat_def append_assoc append_Cons append_Nil)
  also have "\<dots> = sha256_k @ take 64 (drop 64 s) @ sha256_h0 @ [0]"
    using assms k
    by (subst d, subst append_assoc [symmetric])
       (simp add: write4_next e n sha256_init_h0 [symmetric] del: One_nat_def append_assoc append_Cons append_Nil)
  finally show ?thesis .
qed

definition sha256_ok :: "u32 list \<Rightarrow> bool" where
  "sha256_ok s \<longleftrightarrow> length s = 137 \<and> take 64 s = sha256_k"

definition sha256_chain :: "u32 list \<Rightarrow> u32 list" where
  "sha256_chain s = take 8 (drop 128 s)"

definition sha256_blocks :: "u32 list \<Rightarrow> nat" where
  "sha256_blocks s = unat (s ! 136)"

lemma sha256_parts:
  assumes "sha256_ok s"
  obtains ws where "s = sha256_k @ ws @ sha256_chain s @ [s ! 136]" "length ws = 64"
proof
  have "s = take 64 s @ take 64 (drop 64 s) @ take 8 (drop 128 s) @ drop 136 s"
    using append_take_drop_id [of 8 "drop 128 s"] append_take_drop_id [of 64 "drop 64 s"]
      append_take_drop_id [of 64 s] by (simp only: drop_drop) simp
  moreover have "drop 136 s = [s ! 136]"
    using assms Cons_nth_drop_Suc [of 136 s] by (simp add: sha256_ok_def)
  ultimately show "s = sha256_k @ take 64 (drop 64 s) @ sha256_chain s @ [s ! 136]"
    using assms by (simp only: sha256_ok_def sha256_chain_def)
  show "length (take 64 (drop 64 s)) = 64" using assms by (simp add: sha256_ok_def)
qed

lemma sha256_k_kconst: "sha256_k = kconst sha256" "length sha256_k = 64"
  by (simp_all add: sha256_def) (simp add: sha256_k_def)

lemma sha256_state:
  "length ws = 64 \<Longrightarrow> length h = 8 \<Longrightarrow>
   sha256_ok (sha256_k @ ws @ h @ [n]) \<and> sha256_chain (sha256_k @ ws @ h @ [n]) = h
   \<and> sha256_blocks (sha256_k @ ws @ h @ [n]) = unat n"
  by (simp add: sha256_ok_def sha256_chain_def sha256_blocks_def sha256_k_kconst(2) nth_append)

lemma length_sha256_chain: "sha256_ok s \<Longrightarrow> length (sha256_chain s) = 8"
  by (simp add: sha256_ok_def sha256_chain_def)

lemma words_be_take: "words_be 16 (take 64 b) = words_be 16 b"
  by (simp add: words_be_def load32_be_def drop_take)

lemma sha256_update_step:
  assumes "sha256_ok s" and "64 \<le> length b"
  shows "sha256_ok (Hacl_Impl_SHA2_256_update s b)"
    and "sha256_chain (Hacl_Impl_SHA2_256_update s b) = sha256_block (sha256_chain s) (take 64 b)"
    and "sha256_blocks (Hacl_Impl_SHA2_256_update s b) = (sha256_blocks s + 1) mod 2 ^ 32"
proof -
  obtain ws where s: "s = sha256_k @ ws @ sha256_chain s @ [s ! 136]" "length ws = 64"
    using assms(1) by (rule sha256_parts)
  have h: "length (sha256_chain s) = 8" using assms(1) by (rule length_sha256_chain)
  have "Hacl_Impl_SHA2_256_update s b
      = sha256_k @ schedule sha256 48 (words_be 16 b) @ sha256_block (sha256_chain s) b @ [s ! 136 + 1]"
    by (subst s) (rule sha256_update_eq [OF sha256_k_kconst(2,1) s(2) h])
  moreover have "length (sha256_block (sha256_chain s) b) = 8" using h by (simp add: sha256_block_def)
  moreover have "sha256_block (sha256_chain s) (take 64 b) = sha256_block (sha256_chain s) b"
    by (simp add: sha256_block_def words_be_take)
  moreover have "unat (s ! 136 + 1) = (sha256_blocks s + 1) mod 2 ^ 32"
    by (simp add: sha256_blocks_def unat_word_ariths)
  ultimately show "sha256_ok (Hacl_Impl_SHA2_256_update s b)"
    "sha256_chain (Hacl_Impl_SHA2_256_update s b) = sha256_block (sha256_chain s) (take 64 b)"
    "sha256_blocks (Hacl_Impl_SHA2_256_update s b) = (sha256_blocks s + 1) mod 2 ^ 32"
    using sha256_state [of "schedule sha256 48 (words_be 16 b)" "sha256_block (sha256_chain s) b" "s ! 136 + 1"]
    by simp_all
qed

interpretation sha256: block_hash sha256_ok sha256_chain sha256_blocks "2 ^ 32" sha256_block 64
    Hacl_Impl_SHA2_256_update
  by unfold_locales (simp_all add: sha256_update_step)

section \<open>Whole messages\<close>

lemma sha256_multi:
  assumes "sha256_ok s" and "64 * unat n \<le> length data" and "64 * unat n < 2 ^ 32"
    and "sha256_blocks s + unat n < 2 ^ 32"
  defines "s' \<equiv> Hacl_Impl_SHA2_256_update_multi s data n"
  shows "sha256_ok s' \<and> sha256_chain s' = md_fold sha256_block 64 (unat n) (sha256_chain s) data
         \<and> sha256_blocks s' = sha256_blocks s + unat n"
  unfolding s'_def Hacl_Impl_SHA2_256_update_multi_def using assms(1-4) by (rule sha256.multi)

text \<open>The last block pads the whole message: the counter knows how long it was.\<close>

lemma sha256_update_last_eq:
  assumes "unat len < 64" and "unat len \<le> length data" and "sha256_blocks s = n"
  shows "Hacl_Impl_SHA2_256_update_last s data len
         = Hacl_Impl_SHA2_256_update_multi s (md_tail 64 8 (64 * n + unat len) (take (unat len) data))
             (if unat len < 56 then 1 else 2)"
proof -
  define L where "L = unat len"
  define F where "F = (if L < 56 then 64 else 128 :: nat)"
  define z where "z = unat ((64 - (len + 8 + 1) mod 64) mod 64 :: u32)"
  define el :: u64 where "el = (ucast (s ! 136) * ucast (64 :: u32) + ucast len) * ucast (8 :: u32)"
  have n: "n < 2 ^ 32" using assms(3) unat_bound [of "s ! 136"] by (simp add: sha256_blocks_def)
  have lt: "len < 56 \<longleftrightarrow> L < 56" by (simp add: L_def word_less_nat_alt)
  have "unat (len + 8 + 1) = L + 9" using assms(1) by (subst unat_plus; simp add: unat_plus L_def)+
  then have z: "z = (64 - (L + 9) mod 64) mod 64"
    unfolding z_def by (simp add: unat_mod unat_sub word_le_nat_alt)
  have F: "F = L + 1 + z + 8" using assms(1) pad_zeros [of L 64 8] by (simp add: z F_def L_def ac_simps split: if_splits)
  have zt: "z = (64 - (64 * n + L + 1 + 8) mod 64) mod 64"
    using mod_mult_self2 [of "L + 9" 64 n] by (simp add: z ac_simps)
  have "unat (ucast (s ! 136) * ucast (64 :: u32) + ucast len :: u64) = 64 * n + L"
    using n assms(1,3)
    by (simp add: unat_word_ariths unat_ucast_same_or_up sha256_blocks_def L_def)
  then have el: "unat el = 8 * (64 * n + L)"
    unfolding el_def using n assms(1) by (subst unat_times) (simp_all add: unat_ucast_same_or_up L_def)
  have fb: "(if len < 56 then drop 64 (replicate 128 0) else replicate 128 (0 :: u8)) = replicate F 0"
    by (simp add: lt F_def drop_replicate)
  have "at_ptr (L + 1 + z) (\<lambda>b. store64_be b el)
          (at_ptr L (\<lambda>b. b[0 := 0x80]) (memcpy (replicate F 0) data L))
        = md_tail 64 8 (64 * n + L) (take L data)"
    using final_buffer [of L data F z 8 "rev (le_bytes 8 (unat el))"] assms(2) F
    by (simp add: store64_be_def L_def md_tail_def zt el)
  moreover have "(if len < 56 then 1 else 2 :: u32) = (if L < 56 then 1 else 2)" by (simp add: lt)
  ultimately show ?thesis
    by (simp only: Hacl_Impl_SHA2_256_update_last_def Let_def fb z_def [symmetric] el_def [symmetric]
        L_def [symmetric])
qed

lemma sha256_finish_eq:
  "sha256_ok s \<Longrightarrow> 32 \<le> length out \<Longrightarrow>
   Hacl_Impl_SHA2_256_finish s out = bytes_be (sha256_chain s) @ drop 32 out"
  by (simp add: Hacl_Impl_SHA2_256_finish_def to_be_bytes_eq sha256_ok_def sha256_chain_def)

text \<open>
  Any state that has absorbed the full blocks \<open>m\<close> from the initial value is finished by
  \<open>update_last\<close> on the rest \<open>x\<close> to the hash of \<open>m @ x\<close>; whatever the counter says, it stays a
  state of the hash.
\<close>

lemma sha256_last_chain:
  assumes "sha256_ok s" and "unat len < 64" and "unat len \<le> length x"
  shows "sha256_ok (Hacl_Impl_SHA2_256_update_last s x len)"
    and "sha256_chain s = md_fold sha256_block 64 n h0 m \<Longrightarrow> length m = 64 * n \<Longrightarrow> sha256_blocks s = n \<Longrightarrow>
         n + 2 < 2 ^ 32 \<Longrightarrow>
         sha256_chain (Hacl_Impl_SHA2_256_update_last s x len)
         = md_hash sha256_block 64 8 h0 (m @ take (unat len) x)"
proof -
  have k: "unat (if unat len < 56 then 1 else 2 :: u32) = (if unat len < 64 - 8 then 1 else 2)" by simp
  note eq = sha256_update_last_eq [OF assms(2,3) refl, of s, unfolded Hacl_Impl_SHA2_256_update_multi_def k]
  show "sha256_ok (Hacl_Impl_SHA2_256_update_last s x len)"
    unfolding eq using assms by (intro sha256.tail(1)) simp_all
  show "sha256_chain (Hacl_Impl_SHA2_256_update_last s x len)
      = md_hash sha256_block 64 8 h0 (m @ take (unat len) x)"
    if "sha256_chain s = md_fold sha256_block 64 n h0 m" "length m = 64 * n" "sha256_blocks s = n" "n + 2 < 2 ^ 32"
    unfolding eq using assms that by (subst that(3), intro sha256.tail(2)) simp_all
qed

lemma sha256_last:
  assumes "sha256_ok s" and "sha256_chain s = md_fold sha256_block 64 n sha256_h0 m"
    and "length m = 64 * n" and "sha256_blocks s = n" and "n + 2 < 2 ^ 32"
    and "unat len < 64" and "unat len \<le> length x" and "32 \<le> length out"
  shows "Hacl_Impl_SHA2_256_finish (Hacl_Impl_SHA2_256_update_last s x len) out
         = sha256_spec (m @ take (unat len) x) @ drop 32 out"
  using sha256_last_chain [OF assms(1,6,7)] assms(2-5,8)
  by (simp add: sha256_finish_eq sha256_spec_def)

lemma sha256_init_ok:
  assumes "length s = 137"
  shows "sha256_ok (Hacl_Impl_SHA2_256_init s)" "sha256_chain (Hacl_Impl_SHA2_256_init s) = sha256_h0"
    "sha256_blocks (Hacl_Impl_SHA2_256_init s) = 0"
proof -
  have "length (take 64 (drop 64 s)) = 64" "length sha256_h0 = 8"
    using assms by (simp_all add: sha256_h0_def)
  from sha256_state [OF this, of 0]
  show "sha256_ok (Hacl_Impl_SHA2_256_init s)" "sha256_chain (Hacl_Impl_SHA2_256_init s) = sha256_h0"
    "sha256_blocks (Hacl_Impl_SHA2_256_init s) = 0"
    using assms by (simp_all add: sha256_init_eq)
qed

lemma sha256_hash_eq:
  assumes "unat len \<le> length m" and "32 \<le> length out"
  shows "Hacl_SHA2_256_hash out m len = sha256_spec (take (unat len) m) @ drop 32 out"
proof -
  define n r where "n = unat len div 64" and "r = unat len mod 64"
  have nr: "unat len = 64 * n + r" "r < 64" by (simp_all add: n_def r_def)
  have un: "unat (len div 64) = n" "unat (len mod 64) = r"
    by (simp_all add: n_def r_def unat_div unat_mod)
  have bound: "64 * n < 2 ^ 32" using unat_bound [of len] nr by simp
  have o64: "unat (len div 64 * 64) = 64 * n" using bound un by (subst unat_times) simp_all
  let ?i = "Hacl_Impl_SHA2_256_init (replicate 137 0)"
  let ?s = "Hacl_Impl_SHA2_256_update_multi ?i m (len div 64)"
  have i: "sha256_ok ?i" "sha256_chain ?i = sha256_h0" "sha256_blocks ?i = 0"
    by (rule sha256_init_ok; simp)+
  have s: "sha256_ok ?s" "sha256_chain ?s = md_fold sha256_block 64 n sha256_h0 (take (64 * n) m)"
    "sha256_blocks ?s = n"
    using sha256_multi [OF i(1), of "len div 64" m] i bound assms(1) nr un by (simp_all add: md_fold_take)
  have e: "Hacl_SHA2_256_hash out m len
      = Hacl_Impl_SHA2_256_finish (Hacl_Impl_SHA2_256_update_last ?s (drop (64 * n) m) (len mod 64)) out"
    by (simp only: Hacl_SHA2_256_hash_def Hacl_Impl_SHA2_256_hash_def Let_def o64)
  have "take (unat len) m = take (64 * n) m @ take r (drop (64 * n) m)"
    by (simp only: nr(1) take_add)
  then show ?thesis
    unfolding e using sha256_last [OF s(1,2) _ s(3), of "len mod 64" "drop (64 * n) m" out] bound nr assms un
    by simp
qed

section \<open>Properties\<close>

text \<open>
  One call of \<open>update\<close> on a state reached by \<open>init\<close> and earlier updates applies the
  compression function of FIPS 180-4 to the chaining value, advances the block counter (modulo
  \<open>2 ^ 32\<close>), and keeps the layout of the state, round constants included.
\<close>

theorem sha256_update_refines:
  assumes "sha256_ok s" and "64 \<le> length b"
  shows "sha256_ok (Hacl_SHA2_256_update s b)
         \<and> sha256_chain (Hacl_SHA2_256_update s b) = sha_compress sha256 (sha256_chain s) (words_be 16 b)
         \<and> sha256_blocks (Hacl_SHA2_256_update s b) = (sha256_blocks s + 1) mod 2 ^ 32"
  using sha256_update_step [OF assms]
  by (simp add: Hacl_SHA2_256_update_def sha256_block_def words_be_take)

theorem sha256_update_refines_witness:
  "sha256_ok (Hacl_SHA2_256_update (Hacl_SHA2_256_init (replicate 137 0)) (replicate 64 7))
   \<and> sha256_chain (Hacl_SHA2_256_update (Hacl_SHA2_256_init (replicate 137 0)) (replicate 64 7))
     = sha_compress sha256 (sha256_chain (Hacl_SHA2_256_init (replicate 137 0))) (words_be 16 (replicate 64 7))
   \<and> sha256_blocks (Hacl_SHA2_256_update (Hacl_SHA2_256_init (replicate 137 0)) (replicate 64 7))
     = (sha256_blocks (Hacl_SHA2_256_init (replicate 137 0)) + 1) mod 2 ^ 32"
  by (rule sha256_update_refines) (simp_all add: Hacl_SHA2_256_init_def sha256_init_ok)

text \<open>
  C26: The one-shot function writes the SHA-256 hash of the first \<open>len\<close> bytes of the input, for
  every 32-bit length, to the first 32 bytes of the output.
\<close>

theorem sha256_hash_correct:
  assumes "unat len \<le> length m" and "32 \<le> length out"
  shows "Hacl_SHA2_256_hash out m len = sha256_spec (take (unat len) m) @ drop 32 out"
  using assms by (rule sha256_hash_eq)

theorem sha256_hash_correct_witness:
  "Hacl_SHA2_256_hash (replicate 33 5) [0x61, 0x62, 0x63, 0x64] 3 = sha256_spec [0x61, 0x62, 0x63] @ [5]"
  using sha256_hash_correct [of 3 "[0x61, 0x62, 0x63, 0x64]" "replicate 33 5"] by (simp add: drop_replicate)

text \<open>
  Hashing incrementally (init, two calls of \<open>update_multi\<close> on consecutive runs of blocks,
  \<open>update_last\<close> on the rest, finish) gives the hash of the whole message.
\<close>

theorem sha256_incremental:
  assumes "length m1 = 64 * unat n1" and "length m2 = 64 * unat n2" and "length x = unat len"
    and "unat len < 64" and "64 * unat n1 < 2 ^ 32" and "64 * unat n2 < 2 ^ 32" and "length out = 32"
    and "length s = 137"
  shows "Hacl_SHA2_256_finish
           (Hacl_SHA2_256_update_last
             (Hacl_SHA2_256_update_multi
               (Hacl_SHA2_256_update_multi (Hacl_SHA2_256_init s) m1 n1) m2 n2) x len) out
         = sha256_spec (m1 @ m2 @ x)"
proof -
  let ?i = "Hacl_Impl_SHA2_256_init s"
  let ?s1 = "Hacl_Impl_SHA2_256_update_multi ?i m1 n1"
  let ?s2 = "Hacl_Impl_SHA2_256_update_multi ?s1 m2 n2"
  note i = sha256_init_ok [OF assms(8)]
  have s1: "sha256_ok ?s1" "sha256_chain ?s1 = md_fold sha256_block 64 (unat n1) sha256_h0 m1"
    "sha256_blocks ?s1 = unat n1"
    using sha256_multi [OF i(1), of n1 m1] i(2,3) assms(1,5) by simp_all
  have s2: "sha256_ok ?s2"
    "sha256_chain ?s2 = md_fold sha256_block 64 (unat n2) (md_fold sha256_block 64 (unat n1) sha256_h0 m1) m2"
    "sha256_blocks ?s2 = unat n1 + unat n2"
    using sha256_multi [OF s1(1), of n2 m2] s1(2,3) assms(2,5,6) by simp_all
  have "sha256_chain ?s2 = md_fold sha256_block 64 (unat n1 + unat n2) sha256_h0 (m1 @ m2)"
    unfolding s2(2) by (rule md_fold_append [OF assms(1), symmetric])
  then show ?thesis
    using sha256_last [OF s2(1) _ _ s2(3), of "m1 @ m2" len x out] assms
    by (simp add: Hacl_SHA2_256_finish_def Hacl_SHA2_256_update_last_def Hacl_SHA2_256_update_multi_def
        Hacl_SHA2_256_init_def)
qed

theorem sha256_incremental_witness:
  "Hacl_SHA2_256_finish
     (Hacl_SHA2_256_update_last
       (Hacl_SHA2_256_update_multi
         (Hacl_SHA2_256_update_multi (Hacl_SHA2_256_init (replicate 137 0)) (replicate 128 1) 2)
         (replicate 64 2) 1) [3, 4] 2) (replicate 32 0)
   = sha256_spec (replicate 128 1 @ replicate 64 2 @ [3, 4])"
  by (rule sha256_incremental) simp_all

end
