(* ===== verification/Sha2_512.thy ===== *)
theory Sha2_512
  imports Sha2 UInt128 Sha2_Constants
begin

text \<open>
  \<open>Hacl_SHA2_512.c\<close>.  The state is one array of 169 words: the round constants (0..79), the
  message schedule (80..159), the chaining value (160..167) and the block counter (168).  The
  length field is a 128-bit number.
\<close>

section \<open>The code\<close>

definition Hacl_Impl_SHA2_512_init :: "u64 list \<Rightarrow> u64 list" where
  "Hacl_Impl_SHA2_512_init state =
     (let state = at_ptr 0 (\<lambda>p12. p12[0 := 0x428a2f98d728ae22, 1 := 0x7137449123ef65cd, 2 := 0xb5c0fbcfec4d3b2f, 3 := 0xe9b5dba58189dbbc]) state;
          state = at_ptr 4 (\<lambda>p22. p22[0 := 0x3956c25bf348b538, 1 := 0x59f111f1b605d019, 2 := 0x923f82a4af194f9b, 3 := 0xab1c5ed5da6d8118]) state;
          state = at_ptr 8 (\<lambda>p13. p13[0 := 0xd807aa98a3030242, 1 := 0x12835b0145706fbe, 2 := 0x243185be4ee4b28c, 3 := 0x550c7dc3d5ffb4e2]) state;
          state = at_ptr 12 (\<lambda>p23. p23[0 := 0x72be5d74f27b896f, 1 := 0x80deb1fe3b1696b1, 2 := 0x9bdc06a725c71235, 3 := 0xc19bf174cf692694]) state;
          state = at_ptr 16 (\<lambda>p15. p15[0 := 0xe49b69c19ef14ad2, 1 := 0xefbe4786384f25e3, 2 := 0x0fc19dc68b8cd5b5, 3 := 0x240ca1cc77ac9c65]) state;
          state = at_ptr 20 (\<lambda>p25. p25[0 := 0x2de92c6f592b0275, 1 := 0x4a7484aa6ea6e483, 2 := 0x5cb0a9dcbd41fbd4, 3 := 0x76f988da831153b5]) state;
          state = at_ptr 24 (\<lambda>p16. p16[0 := 0x983e5152ee66dfab, 1 := 0xa831c66d2db43210, 2 := 0xb00327c898fb213f, 3 := 0xbf597fc7beef0ee4]) state;
          state = at_ptr 28 (\<lambda>p26. p26[0 := 0xc6e00bf33da88fc2, 1 := 0xd5a79147930aa725, 2 := 0x06ca6351e003826f, 3 := 0x142929670a0e6e70]) state;
          state = at_ptr 32 (\<lambda>p18. p18[0 := 0x27b70a8546d22ffc, 1 := 0x2e1b21385c26c926, 2 := 0x4d2c6dfc5ac42aed, 3 := 0x53380d139d95b3df]) state;
          state = at_ptr 36 (\<lambda>p28. p28[0 := 0x650a73548baf63de, 1 := 0x766a0abb3c77b2a8, 2 := 0x81c2c92e47edaee6, 3 := 0x92722c851482353b]) state;
          state = at_ptr 40 (\<lambda>p19. p19[0 := 0xa2bfe8a14cf10364, 1 := 0xa81a664bbc423001, 2 := 0xc24b8b70d0f89791, 3 := 0xc76c51a30654be30]) state;
          state = at_ptr 44 (\<lambda>p29. p29[0 := 0xd192e819d6ef5218, 1 := 0xd69906245565a910, 2 := 0xf40e35855771202a, 3 := 0x106aa07032bbd1b8]) state;
          state = at_ptr 48 (\<lambda>p111. p111[0 := 0x19a4c116b8d2d0c8, 1 := 0x1e376c085141ab53, 2 := 0x2748774cdf8eeb99, 3 := 0x34b0bcb5e19b48a8]) state;
          state = at_ptr 52 (\<lambda>p211. p211[0 := 0x391c0cb3c5c95a63, 1 := 0x4ed8aa4ae3418acb, 2 := 0x5b9cca4f7763e373, 3 := 0x682e6ff3d6b2b8a3]) state;
          state = at_ptr 56 (\<lambda>p112. p112[0 := 0x748f82ee5defb2fc, 1 := 0x78a5636f43172f60, 2 := 0x84c87814a1f0ab72, 3 := 0x8cc702081a6439ec]) state;
          state = at_ptr 60 (\<lambda>p212. p212[0 := 0x90befffa23631e28, 1 := 0xa4506cebde82bde9, 2 := 0xbef9a3f7b2c67915, 3 := 0xc67178f2e372532b]) state;
          state = at_ptr 64 (\<lambda>p1. p1[0 := 0xca273eceea26619c, 1 := 0xd186b8c721c0c207, 2 := 0xeada7dd6cde0eb1e, 3 := 0xf57d4f7fee6ed178]) state;
          state = at_ptr 68 (\<lambda>p214. p214[0 := 0x06f067aa72176fba, 1 := 0x0a637dc5a2c898a6, 2 := 0x113f9804bef90dae, 3 := 0x1b710b35131c471b]) state;
          state = at_ptr 72 (\<lambda>p114. p114[0 := 0x28db77f523047d84, 1 := 0x32caab7b40c72493, 2 := 0x3c9ebe0a15c9bebc, 3 := 0x431d67c49c100d4c]) state;
          state = at_ptr 76 (\<lambda>p215. p215[0 := 0x4cc5d4becb3e42b6, 1 := 0x597f299cfc657e2a, 2 := 0x5fcb6fab3ad6faec, 3 := 0x6c44198c4a475817]) state;
          state = at_ptr 160 (\<lambda>p115. p115[0 := 0x6a09e667f3bcc908, 1 := 0xbb67ae8584caa73b, 2 := 0x3c6ef372fe94f82b, 3 := 0xa54ff53a5f1d36f1]) state;
          state = at_ptr 164 (\<lambda>p2. p2[0 := 0x510e527fade682d1, 1 := 0x9b05688c2b3e6c1f, 2 := 0x1f83d9abfb41bd6b, 3 := 0x5be0cd19137e2179]) state;
          state = at_ptr 168 (\<lambda>n1. n1[0 := 0]) state
      in state)"

definition Hacl_Impl_SHA2_512_update :: "u64 list \<Rightarrow> bytes \<Rightarrow> u64 list" where
  "Hacl_Impl_SHA2_512_update state data =
     (let data_w = replicate 16 0;
          data_w = Hacl_Hash_Lib_LoadStore_uint64s_from_be_bytes data_w data 16;
          state = for_loop 0 16 (\<lambda>i state. let b = data_w ! i in state[80 + i := b]) state;
          state = for_loop 16 80
                    (\<lambda>i state.
                       let t16 = state ! (80 + (i - 16)); t15 = state ! (80 + (i - 15));
                           t7 = state ! (80 + (i - 7)); t2 = state ! (80 + (i - 2))
                       in state[80 + i :=
                            ((drop_bit 19 t2 OR push_bit (64 - 19) t2)
                             XOR ((drop_bit 61 t2 OR push_bit (64 - 61) t2) XOR drop_bit 6 t2))
                            + (t7
                               + (((drop_bit 1 t15 OR push_bit (64 - 1) t15)
                                   XOR ((drop_bit 8 t15 OR push_bit (64 - 8) t15) XOR drop_bit 7 t15))
                                  + t16))]) state;
          hash_0 = replicate 8 0;
          hash_0 = memcpy hash_0 (drop 160 state) 8;
          hash_0 = for_loop 0 80
                     (\<lambda>i hash_0.
                        let a = hash_0 ! 0; b = hash_0 ! 1; c = hash_0 ! 2; d = hash_0 ! 3;
                            e = hash_0 ! 4; f1 = hash_0 ! 5; g = hash_0 ! 6; h = hash_0 ! 7;
                            k_t = state ! i;
                            ws_t = state ! (80 + i);
                            t1 = h
                                 + ((drop_bit 14 e OR push_bit (64 - 14) e)
                                    XOR ((drop_bit 18 e OR push_bit (64 - 18) e)
                                         XOR (drop_bit 41 e OR push_bit (64 - 41) e)))
                                 + ((e AND f1) XOR (NOT e AND g)) + k_t + ws_t;
                            t2 = ((drop_bit 28 a OR push_bit (64 - 28) a)
                                  XOR ((drop_bit 34 a OR push_bit (64 - 34) a)
                                       XOR (drop_bit 39 a OR push_bit (64 - 39) a)))
                                 + ((a AND b) XOR ((a AND c) XOR (b AND c)));
                            x1 = t1 + t2;
                            x5 = d + t1;
                            hash_0 = hash_0[0 := x1]; hash_0 = hash_0[1 := a];
                            hash_0 = hash_0[2 := b]; hash_0 = hash_0[3 := c];
                            hash_0 = at_ptr 4 (\<lambda>p2. p2[0 := x5, 1 := e, 2 := f1, 3 := g]) hash_0
                        in hash_0) hash_0;
          state = for_loop 0 8
                    (\<lambda>i state. let xi = state ! (160 + i); yi = hash_0 ! i
                                in state[160 + i := xi + yi]) state;
          c0 = state ! 168;
          one1 = 1;
          state = state[168 := c0 + one1]
      in state)"

definition Hacl_Impl_SHA2_512_update_multi :: "u64 list \<Rightarrow> bytes \<Rightarrow> u32 \<Rightarrow> u64 list" where
  "Hacl_Impl_SHA2_512_update_multi state data n1 =
     for_loop 0 (unat n1)
       (\<lambda>i state. Hacl_Impl_SHA2_512_update state (drop (off32 128 i) data)) state"

definition Hacl_Impl_SHA2_512_update_last :: "u64 list \<Rightarrow> bytes \<Rightarrow> u64 \<Rightarrow> u64 list" where
  "Hacl_Impl_SHA2_512_update_last state data len =
     (let blocks = replicate 256 0;
          nb = (if len < 112 then 1 else 2 :: u32);
          final_blocks = (if len < 112 then drop 128 blocks else blocks);
          final_blocks = memcpy final_blocks data (unat (ucast len :: u32));
          n1 = state ! 168;
          encodedlen = u128_shift_left
            (u128_add (u128_mul_wide n1 (ucast (128 :: u32))) (uint64_to_uint128 len)) 3;
          pad0len = (256 - (ucast len + 16 + 1)) mod 128 :: u32;
          final_blocks = at_ptr (unat (ucast len :: u32)) (\<lambda>buf1. buf1[0 := 0x80]) final_blocks;
          final_blocks = at_ptr (unat (ucast len :: u32) + 1 + unat pad0len)
                           (\<lambda>buf2. store128_be buf2 encodedlen) final_blocks
      in Hacl_Impl_SHA2_512_update_multi state final_blocks nb)"

definition Hacl_Impl_SHA2_512_finish :: "u64 list \<Rightarrow> bytes \<Rightarrow> bytes" where
  "Hacl_Impl_SHA2_512_finish state hash1 =
     (let hash_w = drop 160 state in Hacl_Hash_Lib_LoadStore_uint64s_to_be_bytes hash1 hash_w 8)"

definition Hacl_Impl_SHA2_512_hash :: "bytes \<Rightarrow> bytes \<Rightarrow> u32 \<Rightarrow> bytes" where
  "Hacl_Impl_SHA2_512_hash hash1 input len =
     (let state = replicate 169 0;
          n1 = len div 128;
          r = len mod 128;
          input_blocks = input;
          input_last = drop (unat (n1 * 128)) input;
          state = Hacl_Impl_SHA2_512_init state;
          state = Hacl_Impl_SHA2_512_update_multi state input_blocks n1;
          state = Hacl_Impl_SHA2_512_update_last state input_last (ucast r)
      in Hacl_Impl_SHA2_512_finish state hash1)"

definition Hacl_SHA2_512_init :: "u64 list \<Rightarrow> u64 list" where
  "Hacl_SHA2_512_init state = Hacl_Impl_SHA2_512_init state"

definition Hacl_SHA2_512_update :: "u64 list \<Rightarrow> bytes \<Rightarrow> u64 list" where
  "Hacl_SHA2_512_update state data_8 = Hacl_Impl_SHA2_512_update state data_8"

definition Hacl_SHA2_512_update_multi :: "u64 list \<Rightarrow> bytes \<Rightarrow> u32 \<Rightarrow> u64 list" where
  "Hacl_SHA2_512_update_multi state data n1 = Hacl_Impl_SHA2_512_update_multi state data n1"

definition Hacl_SHA2_512_update_last :: "u64 list \<Rightarrow> bytes \<Rightarrow> u64 \<Rightarrow> u64 list" where
  "Hacl_SHA2_512_update_last state data len = Hacl_Impl_SHA2_512_update_last state data len"

definition Hacl_SHA2_512_finish :: "u64 list \<Rightarrow> bytes \<Rightarrow> bytes" where
  "Hacl_SHA2_512_finish state hash1 = Hacl_Impl_SHA2_512_finish state hash1"

definition Hacl_SHA2_512_hash :: "bytes \<Rightarrow> bytes \<Rightarrow> u32 \<Rightarrow> bytes" where
  "Hacl_SHA2_512_hash hash1 input len = Hacl_Impl_SHA2_512_hash hash1 input len"

section \<open>SHA-512\<close>

definition sha512_k :: "u64 list" where
  "sha512_k = root_consts 3 small_primes"

definition sha512 :: "u64 sha2" where
  "sha512 =
     \<lparr>ssig0 = (\<lambda>x. word_rotr 1 x XOR word_rotr 8 x XOR drop_bit 7 x),
      ssig1 = (\<lambda>x. word_rotr 19 x XOR word_rotr 61 x XOR drop_bit 6 x),
      bsig0 = (\<lambda>x. word_rotr 28 x XOR word_rotr 34 x XOR word_rotr 39 x),
      bsig1 = (\<lambda>x. word_rotr 14 x XOR word_rotr 18 x XOR word_rotr 41 x),
      kconst = sha512_k\<rparr>"

definition sha512_h0 :: "u64 list" where
  "sha512_h0 = root_consts 2 (take 8 small_primes)"

definition sha512_block :: "u64 list \<Rightarrow> bytes \<Rightarrow> u64 list" where
  "sha512_block h b = sha_compress sha512 h (words64_be 16 b)"

definition sha512_spec :: "bytes \<Rightarrow> bytes" where
  "sha512_spec m = bytes64_be (md_hash sha512_block 128 16 sha512_h0 m)"

section \<open>One block\<close>

lemma rotr64: "0 < k \<Longrightarrow> k < 64 \<Longrightarrow> drop_bit k a OR push_bit (64 - k) a = word_rotr k (a :: u64)"
  using rotr_shifts [of k a] by simp

lemma sha512_schedule_body:
  "((drop_bit 19 t2 OR push_bit (64 - 19) t2) XOR ((drop_bit 61 t2 OR push_bit (64 - 61) t2) XOR drop_bit 6 t2))
   + (t7 + (((drop_bit 1 t15 OR push_bit (64 - 1) t15)
             XOR ((drop_bit 8 t15 OR push_bit (64 - 8) t15) XOR drop_bit 7 t15)) + t16))
   = ssig1 sha512 t2 + t7 + ssig0 sha512 t15 + t16"
  by (simp only: sha512_def sha2.simps rotr64 zero_less_numeral numeral_less_iff rel_simps
      zero_less_one one_less_numeral_iff) (simp add: ac_simps)

lemma sha512_round_body:
  "(let a = x ! 0; b = x ! 1; c = x ! 2; d = x ! 3; e = x ! 4; f1 = x ! 5; g = x ! 6; h = x ! 7;
        k_t = k; ws_t = w;
        t1 = h
             + ((drop_bit 14 e OR push_bit (64 - 14) e)
                XOR ((drop_bit 18 e OR push_bit (64 - 18) e) XOR (drop_bit 41 e OR push_bit (64 - 41) e)))
             + ((e AND f1) XOR (NOT e AND g)) + k_t + ws_t;
        t2 = ((drop_bit 28 a OR push_bit (64 - 28) a)
              XOR ((drop_bit 34 a OR push_bit (64 - 34) a) XOR (drop_bit 39 a OR push_bit (64 - 39) a)))
             + ((a AND b) XOR ((a AND c) XOR (b AND c)));
        x1 = t1 + t2; x5 = d + t1;
        x = x[0 := x1]; x = x[1 := a]; x = x[2 := b]; x = x[3 := c];
        x = at_ptr 4 (\<lambda>p2. p2[0 := x5, 1 := e, 2 := f1, 3 := g]) x
    in x) = octet_list (sha_round sha512 (k, w) (list_octet x))"
  if "length x = 8"
  using that
  by (rule list8E)
     (simp only: rotr64 zero_less_numeral numeral_less_iff rel_simps,
      simp add: sha_round_def sha512_def sha_ch_def sha_maj_def list_octet_def Let_def at_ptr_def ac_simps)

lemma sha512_update_eq:
  assumes "length ks = 80" and "ks = kconst sha512" and "length ws = 80" and "length hs = 8"
  shows "Hacl_Impl_SHA2_512_update (ks @ ws @ hs @ [n0]) data
         = ks @ schedule sha512 64 (words64_be 16 data) @ sha512_block hs data @ [n0 + 1]"
proof -
  define m where "m = words64_be 16 data"
  define w where "w = schedule sha512 64 m"
  define x where "x = octet_list (fold (sha_round sha512) (zip ks w) (list_octet hs))"
  have m: "length m = 16" by (simp add: m_def)
  have w: "length w = 80" by (simp add: w_def m)
  have x: "length x = 8" by (simp add: x_def)
  have dw: "Hacl_Hash_Lib_LoadStore_uint64s_from_be_bytes (replicate 16 0) data 16 = m"
    by (simp add: from_be_bytes64_eq m_def)
  have l1: "for_loop 0 16 (\<lambda>i st. st[80 + i := m ! i]) (ks @ ws @ hs @ [n0])
      = ks @ (m @ drop 16 ws) @ hs @ [n0]"
    using assms m copy_loop [of ks 80 16 ws m "hs @ [n0]"] by simp
  have l2: "for_loop 16 80
      (\<lambda>i st. st[80 + i := ssig1 sha512 (st ! (80 + (i - 2))) + st ! (80 + (i - 7))
                            + ssig0 sha512 (st ! (80 + (i - 15))) + st ! (80 + (i - 16))])
      (ks @ (m @ drop 16 ws) @ hs @ [n0]) = ks @ w @ hs @ [n0]"
    using assms m schedule_loop [of ks 80 m 64 "m @ drop 16 ws" sha512 "hs @ [n0]"] by (simp add: w_def)
  have cp: "memcpy (replicate 8 0) (drop 160 (ks @ w @ hs @ [n0])) 8 = hs"
    using assms w by (simp add: memcpy_def)
  have l3: "for_loop 0 80 body hs = x"
    if "\<And>i y. i < 80 \<Longrightarrow> body i (octet_list y) = octet_list (sha_round sha512 (ks ! i, w ! i) y)" for body
    using assms w that round_loop [of 80 ks w hs body sha512] by (simp add: x_def)
  have l4: "for_loop 0 8 (\<lambda>i st. st[160 + i := st ! (160 + i) + x ! i]) (ks @ w @ hs @ [n0])
      = ks @ w @ sha512_block hs data @ [n0]"
    using assms w x add_loop [of "ks @ w" 160 8 hs x "[n0]"]
    by (simp add: sha512_block_def sha_compress_def Let_def x_def w_def m_def)
  have kc: "length (kconst sha512) = 80" using assms by simp
  have h: "length (sha512_block hs data) = 8" using assms(4) by (simp add: sha512_block_def)
  have cnt: "(ks @ w @ sha512_block hs data @ [n0]) ! 168 = n0"
    "(ks @ w @ sha512_block hs data @ [n0])[168 := y] = ks @ w @ sha512_block hs data @ [y]" for y
    using assms w h by (simp_all add: nth_append list_update_append)
  have part: "(ks @ w @ hs @ [n0]) ! i = ks ! i" "(ks @ w @ hs @ [n0]) ! (80 + i) = w ! i" if "i < 80" for i
    using that assms w by (simp_all add: nth_append)
  have l3': "for_loop 0 80
      (\<lambda>i x. let a = x ! 0; b = x ! 1; c = x ! 2; d = x ! 3; e = x ! 4; f1 = x ! 5; g = x ! 6; h = x ! 7;
        k_t = (ks @ w @ hs @ [n0]) ! i; ws_t = (ks @ w @ hs @ [n0]) ! (80 + i);
        t1 = h
             + ((drop_bit 14 e OR push_bit (64 - 14) e)
                XOR ((drop_bit 18 e OR push_bit (64 - 18) e) XOR (drop_bit 41 e OR push_bit (64 - 41) e)))
             + ((e AND f1) XOR (NOT e AND g)) + k_t + ws_t;
        t2 = ((drop_bit 28 a OR push_bit (64 - 28) a)
              XOR ((drop_bit 34 a OR push_bit (64 - 34) a) XOR (drop_bit 39 a OR push_bit (64 - 39) a)))
             + ((a AND b) XOR ((a AND c) XOR (b AND c)));
        x1 = t1 + t2; x5 = d + t1;
        x = x[0 := x1]; x = x[1 := a]; x = x[2 := b]; x = x[3 := c];
        x = at_ptr 4 (\<lambda>p2. p2[0 := x5, 1 := e, 2 := f1, 3 := g]) x
    in x) hs = x"
    by (rule l3) (simp only: part sha512_round_body length_octet_list list_octet_inv)
  show ?thesis
    by (simp only: Hacl_Impl_SHA2_512_update_def Let_def dw l1 sha512_schedule_body l2 cp l3' [unfolded Let_def]
        l4 cnt m_def [symmetric] w_def [symmetric] cong: let_weak_cong)
qed

text \<open>The table of round constants the code writes, and its check.\<close>

definition sha512_table :: "u64 list" where
  "sha512_table = take 80 (Hacl_Impl_SHA2_512_init (replicate 169 0))"

lemmas sha512_table_eq =
  sha512_table_def Hacl_Impl_SHA2_512_init_def Let_def take_at_ptr write4_first write4_next

lemma sha512_table_roots1: "list_all2 (frac_root 3 64) (take 20 small_primes) (map unat (take 20 sha512_table))"
  by (simp add: sha512_table_eq del: One_nat_def append_assoc append_Cons append_Nil) (simp add: root_check)

lemma sha512_table_roots2: "list_all2 (frac_root 3 64) (take 20 (drop 20 small_primes)) (map unat (take 20 (drop 20 sha512_table)))"
  by (simp add: sha512_table_eq del: One_nat_def append_assoc append_Cons append_Nil) (simp add: root_check)

lemma sha512_table_roots3: "list_all2 (frac_root 3 64) (take 20 (drop 20 (drop 20 small_primes))) (map unat (take 20 (drop 20 (drop 20 sha512_table))))"
  by (simp add: sha512_table_eq del: One_nat_def append_assoc append_Cons append_Nil) (simp add: root_check)

lemma sha512_table_roots4: "list_all2 (frac_root 3 64) (drop 20 (drop 20 (drop 20 small_primes))) (map unat (drop 20 (drop 20 (drop 20 sha512_table))))"
  by (simp add: sha512_table_eq del: One_nat_def append_assoc append_Cons append_Nil) (simp add: root_check)

lemma sha512_table_k: "sha512_table = sha512_k"
  unfolding sha512_k_def
  by (rule root_consts_eq [symmetric], unfold len_64)
     (rule list_all2_parts [OF sha512_table_roots1 list_all2_parts [OF sha512_table_roots2
        list_all2_parts [OF sha512_table_roots3 sha512_table_roots4]]])

lemma sha512_init_h0:
  "[0x6a09e667f3bcc908, 0xbb67ae8584caa73b, 0x3c6ef372fe94f82b, 0xa54ff53a5f1d36f1] @
   [0x510e527fade682d1, 0x9b05688c2b3e6c1f, 0x1f83d9abfb41bd6b, 0x5be0cd19137e2179] = sha512_h0"
  unfolding sha512_h0_def by (rule root_consts_eq [symmetric]) (simp add: root_check)

lemma length_sha512_h0: "length sha512_h0 = 8"
  by (simp add: sha512_h0_def)

lemma sha512_init_eq:
  assumes "length s = 169"
  shows "Hacl_Impl_SHA2_512_init s = sha512_k @ take 80 (drop 80 s) @ sha512_h0 @ [0]"
proof -
  have d: "drop 80 s = take 80 (drop 80 s) @ drop 160 s"
    using append_take_drop_id [of 80 "drop 80 s"] by simp
  have e: "drop 168 s = [s ! 168]"
    using assms Cons_nth_drop_Suc [of 168 s] by simp
  have k: "length sha512_k = 80" by (simp add: sha512_k_def)
  have n: "at_ptr 168 (\<lambda>n1. n1[0 := 0]) (xs @ [x]) = xs @ [0]" if "length xs = 168" for xs and x :: u64
    using that by (simp add: at_ptr_def)
  have "Hacl_Impl_SHA2_512_init s =
      at_ptr 168 (\<lambda>n1. n1[0 := 0])
        (at_ptr 164 (\<lambda>p2. p2[0 := 0x510e527fade682d1, 1 := 0x9b05688c2b3e6c1f, 2 := 0x1f83d9abfb41bd6b, 3 := 0x5be0cd19137e2179])
          (at_ptr 160 (\<lambda>p112. p112[0 := 0x6a09e667f3bcc908, 1 := 0xbb67ae8584caa73b, 2 := 0x3c6ef372fe94f82b, 3 := 0xa54ff53a5f1d36f1])
            (sha512_k @ drop 80 s)))"
    using assms
    by (simp add: Hacl_Impl_SHA2_512_init_def write4_first write4_next
        del: One_nat_def append_assoc append_Cons append_Nil)
       (simp add: sha512_table_k [symmetric] sha512_table_eq del: One_nat_def append_assoc append_Cons append_Nil)
  also have "\<dots> = sha512_k @ take 80 (drop 80 s) @ sha512_h0 @ [0]"
    using assms k
    by (subst d, subst append_assoc [symmetric])
       (simp add: write4_next e n sha512_init_h0 [symmetric] del: One_nat_def append_assoc append_Cons append_Nil)
  finally show ?thesis .
qed

definition sha512_ok :: "u64 list \<Rightarrow> bool" where
  "sha512_ok s \<longleftrightarrow> length s = 169 \<and> take 80 s = sha512_k"

definition sha512_chain :: "u64 list \<Rightarrow> u64 list" where
  "sha512_chain s = take 8 (drop 160 s)"

definition sha512_blocks :: "u64 list \<Rightarrow> nat" where
  "sha512_blocks s = unat (s ! 168)"

lemma sha512_parts:
  assumes "sha512_ok s"
  obtains ws where "s = sha512_k @ ws @ sha512_chain s @ [s ! 168]" "length ws = 80"
proof
  have "s = take 80 s @ take 80 (drop 80 s) @ take 8 (drop 160 s) @ drop 168 s"
    using append_take_drop_id [of 8 "drop 160 s"] append_take_drop_id [of 80 "drop 80 s"]
      append_take_drop_id [of 80 s] by (simp only: drop_drop) simp
  moreover have "drop 168 s = [s ! 168]"
    using assms Cons_nth_drop_Suc [of 168 s] by (simp add: sha512_ok_def)
  ultimately show "s = sha512_k @ take 80 (drop 80 s) @ sha512_chain s @ [s ! 168]"
    using assms by (simp only: sha512_ok_def sha512_chain_def)
  show "length (take 80 (drop 80 s)) = 80" using assms by (simp add: sha512_ok_def)
qed

lemma sha512_k_kconst: "sha512_k = kconst sha512" "length sha512_k = 80"
  by (simp_all add: sha512_def) (simp add: sha512_k_def)

lemma sha512_state:
  "length ws = 80 \<Longrightarrow> length h = 8 \<Longrightarrow>
   sha512_ok (sha512_k @ ws @ h @ [n]) \<and> sha512_chain (sha512_k @ ws @ h @ [n]) = h
   \<and> sha512_blocks (sha512_k @ ws @ h @ [n]) = unat n"
  by (simp add: sha512_ok_def sha512_chain_def sha512_blocks_def sha512_k_kconst(2) nth_append)

lemma length_sha512_chain: "sha512_ok s \<Longrightarrow> length (sha512_chain s) = 8"
  by (simp add: sha512_ok_def sha512_chain_def)

lemma words64_be_take: "words64_be 16 (take 128 b) = words64_be 16 b"
  by (simp add: words64_be_def load64_be_def drop_take)

lemma sha512_update_step:
  assumes "sha512_ok s" and "128 \<le> length b"
  shows "sha512_ok (Hacl_Impl_SHA2_512_update s b)"
    and "sha512_chain (Hacl_Impl_SHA2_512_update s b) = sha512_block (sha512_chain s) (take 128 b)"
    and "sha512_blocks (Hacl_Impl_SHA2_512_update s b) = (sha512_blocks s + 1) mod 2 ^ 64"
proof -
  obtain ws where s: "s = sha512_k @ ws @ sha512_chain s @ [s ! 168]" "length ws = 80"
    using assms(1) by (rule sha512_parts)
  have h: "length (sha512_chain s) = 8" using assms(1) by (rule length_sha512_chain)
  have "Hacl_Impl_SHA2_512_update s b
      = sha512_k @ schedule sha512 64 (words64_be 16 b) @ sha512_block (sha512_chain s) b @ [s ! 168 + 1]"
    by (subst s) (rule sha512_update_eq [OF sha512_k_kconst(2,1) s(2) h])
  moreover have "length (sha512_block (sha512_chain s) b) = 8" using h by (simp add: sha512_block_def)
  moreover have "sha512_block (sha512_chain s) (take 128 b) = sha512_block (sha512_chain s) b"
    by (simp add: sha512_block_def words64_be_take)
  moreover have "unat (s ! 168 + 1) = (sha512_blocks s + 1) mod 2 ^ 64"
    by (simp add: sha512_blocks_def unat_word_ariths)
  ultimately show "sha512_ok (Hacl_Impl_SHA2_512_update s b)"
    "sha512_chain (Hacl_Impl_SHA2_512_update s b) = sha512_block (sha512_chain s) (take 128 b)"
    "sha512_blocks (Hacl_Impl_SHA2_512_update s b) = (sha512_blocks s + 1) mod 2 ^ 64"
    using sha512_state [of "schedule sha512 64 (words64_be 16 b)" "sha512_block (sha512_chain s) b" "s ! 168 + 1"]
    by simp_all
qed

interpretation sha512: block_hash sha512_ok sha512_chain sha512_blocks "2 ^ 64" sha512_block 128
    Hacl_Impl_SHA2_512_update
  by unfold_locales (simp_all add: sha512_update_step)

section \<open>Whole messages\<close>

lemma sha512_multi:
  assumes "sha512_ok s" and "128 * unat n \<le> length data" and "128 * unat n < 2 ^ 32"
    and "sha512_blocks s + unat n < 2 ^ 64"
  defines "s' \<equiv> Hacl_Impl_SHA2_512_update_multi s data n"
  shows "sha512_ok s' \<and> sha512_chain s' = md_fold sha512_block 128 (unat n) (sha512_chain s) data
         \<and> sha512_blocks s' = sha512_blocks s + unat n"
  unfolding s'_def Hacl_Impl_SHA2_512_update_multi_def using assms(1-4) by (rule sha512.multi)

text \<open>The length field: a 128-bit number, stored big-endian.\<close>

lemma store128_be_eq:
  assumes "16 \<le> length b"
  shows "store128_be b n = rev (le_bytes 16 (unat n)) @ drop 16 b"
proof -
  have n: "unat (drop_bit 64 n) < 2 ^ 64"
    using unat_bound [of n] by (simp add: unat_shr)
  have "le_bytes 8 (unat n mod 2 ^ 64) = le_bytes 8 (unat n)"
    using le_bytes_mod [of 8 "unat n"] by simp
  moreover have "le_bytes (8 + 8) (unat n) = le_bytes 8 (unat n) @ le_bytes 8 (unat n div 256 ^ 8)"
    by (rule le_bytes_append)
  ultimately show ?thesis
    using n assms by (simp add: store128_be_def store64_be_def at_ptr_def unat_ucast_down unat_shr)
qed

lemma sha512_length_field:
  assumes "unat len < 128"
  shows "unat (u128_shift_left (u128_add (u128_mul_wide n (ucast (128 :: u32))) (uint64_to_uint128 len)) 3)
         = 8 * (128 * unat n + unat len)"
proof -
  have b: "unat n * 128 + unat len < 2 ^ 72" using assms unat_bound [of n] by simp
  have "unat (u128_add (u128_mul_wide n (ucast (128 :: u32))) (uint64_to_uint128 len))
      = unat n * 128 + unat len"
    using b by (subst native.add_exact)
      (simp_all add: native.val_mul native.val_of unat_ucast_same_or_up)
  then show ?thesis
    using b unfolding u128_shift_left_def by (subst unat_shl) simp_all
qed

text \<open>The last block pads the whole message: the counter knows how long it was.\<close>

lemma sha512_update_last_eq:
  assumes "unat len < 128" and "unat len \<le> length data" and "sha512_blocks s = n"
  shows "Hacl_Impl_SHA2_512_update_last s data len
         = Hacl_Impl_SHA2_512_update_multi s (md_tail 128 16 (128 * n + unat len) (take (unat len) data))
             (if unat len < 112 then 1 else 2)"
proof -
  define L where "L = unat len"
  define F where "F = (if L < 112 then 128 else 256 :: nat)"
  define z where "z = unat ((256 - (ucast len + 16 + 1)) mod 128 :: u32)"
  define el where "el = u128_shift_left
    (u128_add (u128_mul_wide (s ! 168) (ucast (128 :: u32))) (uint64_to_uint128 len)) 3"
  have lt: "len < 112 \<longleftrightarrow> L < 112" by (simp add: L_def word_less_nat_alt)
  have c: "unat (ucast len :: u32) = L" using assms(1) by (simp add: unat_ucast_down L_def)
  define w where "w = (ucast len + 16 + 1 :: u32)"
  have "unat w = L + 17"
    unfolding w_def using assms(1) by (subst unat_plus; simp add: unat_plus c L_def)+
  then have "unat (256 - w) = 256 - (L + 17)"
    using assms(1) by (subst unat_minus) (simp_all add: L_def)
  then have z: "z = (256 - (L + 17)) mod 128"
    unfolding z_def w_def [symmetric] by (simp add: unat_mod)
  have z': "z = (128 - (L + 1 + 16) mod 128) mod 128"
  proof (cases "L + 17 < 128")
    case True
    then have "(256 - (L + 17)) mod 128 = (128 + (128 - (L + 17))) mod 128" by (intro arg_cong2 [where f = "(mod)"]) simp_all
    also have "\<dots> = (128 - (L + 17)) mod 128" by simp
    finally show ?thesis using True by (simp add: z)
  next
    case False
    then have m: "(L + 1 + 16) mod 128 = L + 17 - 128" using assms(1) by (simp add: L_def mod_if)
    have "256 - (L + 17) = 128 - (L + 17 - 128)" using False by simp
    then show ?thesis unfolding z m by (rule arg_cong)
  qed
  have F: "F = L + 1 + z + 16"
    using assms(1) pad_zeros [of L 128 16] by (simp add: z' F_def L_def ac_simps split: if_splits)
  have zt: "z = (128 - (128 * n + L + 1 + 16) mod 128) mod 128"
    using mod_mult_self2 [of "L + 17" 128 n] by (simp add: z' ac_simps)
  have el: "unat el = 8 * (128 * n + L)"
    using sha512_length_field [OF assms(1)] assms(3) by (simp add: el_def L_def sha512_blocks_def)
  have fb: "(if len < 112 then drop 128 (replicate 256 0) else replicate 256 (0 :: u8)) = replicate F 0"
    by (simp add: lt F_def drop_replicate)
  let ?b = "at_ptr L (\<lambda>b. b[0 := 0x80]) (memcpy (replicate F 0) data L)"
  have "length ?b = F" using assms(2) F by (simp add: at_ptr_def L_def)
  then have "at_ptr (L + 1 + z) (\<lambda>b. store128_be b el) ?b
      = at_ptr (L + 1 + z) (\<lambda>b. rev (le_bytes 16 (unat el)) @ drop 16 b) ?b"
    using F by (simp add: at_ptr_def store128_be_eq)
  also have "\<dots> = md_tail 128 16 (128 * n + L) (take L data)"
    using final_buffer [of L data F z 16 "rev (le_bytes 16 (unat el))"] assms(2) F
    by (simp add: L_def md_tail_def zt el)
  finally have "at_ptr (L + 1 + z) (\<lambda>b. store128_be b el) ?b = md_tail 128 16 (128 * n + L) (take L data)" .
  moreover have "(if len < 112 then 1 else 2 :: u32) = (if L < 112 then 1 else 2)" by (simp add: lt)
  ultimately show ?thesis
    by (simp only: Hacl_Impl_SHA2_512_update_last_def Let_def fb z_def [symmetric] el_def [symmetric]
        L_def [symmetric] c)
qed

lemma sha512_finish_eq:
  "sha512_ok s \<Longrightarrow> 64 \<le> length out \<Longrightarrow>
   Hacl_Impl_SHA2_512_finish s out = bytes64_be (sha512_chain s) @ drop 64 out"
  by (simp add: Hacl_Impl_SHA2_512_finish_def to_be_bytes64_eq sha512_ok_def sha512_chain_def)

text \<open>
  Any state that has absorbed the full blocks \<open>m\<close> from an initial value \<open>h0\<close> is finished by
  \<open>update_last\<close> on the rest \<open>x\<close> to the hash of \<open>m @ x\<close>; whatever the counter says, it stays a
  state of the hash.
\<close>

lemma sha512_last_ok:
  assumes "sha512_ok s" and "unat len < 128" and "unat len \<le> length x"
  shows "sha512_ok (Hacl_Impl_SHA2_512_update_last s x len)"
    and "sha512_chain s = md_fold sha512_block 128 n h0 m \<Longrightarrow> length m = 128 * n \<Longrightarrow> sha512_blocks s = n \<Longrightarrow>
         n + 2 < 2 ^ 64 \<Longrightarrow>
         sha512_chain (Hacl_Impl_SHA2_512_update_last s x len)
         = md_hash sha512_block 128 16 h0 (m @ take (unat len) x)"
proof -
  have k: "unat (if unat len < 112 then 1 else 2 :: u32) = (if unat len < 128 - 16 then 1 else 2)" by simp
  note eq = sha512_update_last_eq [OF assms(2,3) refl, of s, unfolded Hacl_Impl_SHA2_512_update_multi_def k]
  show "sha512_ok (Hacl_Impl_SHA2_512_update_last s x len)"
    unfolding eq using assms by (intro sha512.tail(1)) simp_all
  show "sha512_chain (Hacl_Impl_SHA2_512_update_last s x len)
      = md_hash sha512_block 128 16 h0 (m @ take (unat len) x)"
    if "sha512_chain s = md_fold sha512_block 128 n h0 m" "length m = 128 * n" "sha512_blocks s = n" "n + 2 < 2 ^ 64"
    unfolding eq using assms that by (subst that(3), intro sha512.tail(2)) simp_all
qed

lemma sha512_last_chain:
  assumes "sha512_ok s" and "sha512_chain s = md_fold sha512_block 128 n h0 m"
    and "length m = 128 * n" and "sha512_blocks s = n" and "n + 2 < 2 ^ 64"
    and "unat len < 128" and "unat len \<le> length x"
  shows "sha512_ok (Hacl_Impl_SHA2_512_update_last s x len)"
    and "sha512_chain (Hacl_Impl_SHA2_512_update_last s x len)
         = md_hash sha512_block 128 16 h0 (m @ take (unat len) x)"
  using sha512_last_ok [OF assms(1,6,7)] assms(2-5) by blast+

lemma sha512_last:
  assumes "sha512_ok s" and "sha512_chain s = md_fold sha512_block 128 n sha512_h0 m"
    and "length m = 128 * n" and "sha512_blocks s = n" and "n + 2 < 2 ^ 64"
    and "unat len < 128" and "unat len \<le> length x" and "64 \<le> length out"
  shows "Hacl_Impl_SHA2_512_finish (Hacl_Impl_SHA2_512_update_last s x len) out
         = sha512_spec (m @ take (unat len) x) @ drop 64 out"
  using sha512_last_chain [OF assms(1-7)] assms(8)
  by (simp add: sha512_finish_eq sha512_spec_def)

lemma sha512_init_ok:
  assumes "length s = 169"
  shows "sha512_ok (Hacl_Impl_SHA2_512_init s)" "sha512_chain (Hacl_Impl_SHA2_512_init s) = sha512_h0"
    "sha512_blocks (Hacl_Impl_SHA2_512_init s) = 0"
proof -
  have "length (take 80 (drop 80 s)) = 80" "length sha512_h0 = 8"
    using assms by (simp_all add: sha512_h0_def)
  from sha512_state [OF this, of 0]
  show "sha512_ok (Hacl_Impl_SHA2_512_init s)" "sha512_chain (Hacl_Impl_SHA2_512_init s) = sha512_h0"
    "sha512_blocks (Hacl_Impl_SHA2_512_init s) = 0"
    using assms by (simp_all add: sha512_init_eq)
qed

lemma sha512_hash_eq:
  assumes "unat len \<le> length m" and "64 \<le> length out"
  shows "Hacl_SHA2_512_hash out m len = sha512_spec (take (unat len) m) @ drop 64 out"
proof -
  define n r where "n = unat len div 128" and "r = unat len mod 128"
  have nr: "unat len = 128 * n + r" "r < 128" by (simp_all add: n_def r_def)
  have un: "unat (len div 128) = n" "unat (len mod 128) = r"
    by (simp_all add: n_def r_def unat_div unat_mod)
  have ur: "unat (ucast (len mod 128) :: u64) = r" by (simp add: unat_ucast_same_or_up un)
  have bound: "128 * n < 2 ^ 32" using unat_bound [of len] nr by simp
  have o64: "unat (len div 128 * 128) = 128 * n" using bound un by (subst unat_times) simp_all
  let ?i = "Hacl_Impl_SHA2_512_init (replicate 169 0)"
  let ?s = "Hacl_Impl_SHA2_512_update_multi ?i m (len div 128)"
  have i: "sha512_ok ?i" "sha512_chain ?i = sha512_h0" "sha512_blocks ?i = 0"
    by (rule sha512_init_ok; simp)+
  have s: "sha512_ok ?s" "sha512_chain ?s = md_fold sha512_block 128 n sha512_h0 (take (128 * n) m)"
    "sha512_blocks ?s = n"
    using sha512_multi [OF i(1), of "len div 128" m] i bound assms(1) nr un by (simp_all add: md_fold_take)
  have e: "Hacl_SHA2_512_hash out m len
      = Hacl_Impl_SHA2_512_finish (Hacl_Impl_SHA2_512_update_last ?s (drop (128 * n) m) (ucast (len mod 128))) out"
    by (simp only: Hacl_SHA2_512_hash_def Hacl_Impl_SHA2_512_hash_def Let_def o64)
  have "take (unat len) m = take (128 * n) m @ take r (drop (128 * n) m)"
    by (simp only: nr(1) take_add)
  then show ?thesis
    unfolding e using sha512_last [OF s(1,2) _ s(3), of "ucast (len mod 128)" "drop (128 * n) m" out] bound nr assms un ur
    by simp
qed

section \<open>Properties\<close>

text \<open>
  One call of \<open>update\<close> on a state reached by \<open>init\<close> and earlier updates applies the
  compression function of FIPS 180-4 to the chaining value, advances the block counter (modulo
  \<open>2 ^ 64\<close>), and keeps the layout of the state, round constants included.
\<close>

theorem sha512_update_refines:
  assumes "sha512_ok s" and "128 \<le> length b"
  shows "sha512_ok (Hacl_SHA2_512_update s b)
         \<and> sha512_chain (Hacl_SHA2_512_update s b) = sha_compress sha512 (sha512_chain s) (words64_be 16 b)
         \<and> sha512_blocks (Hacl_SHA2_512_update s b) = (sha512_blocks s + 1) mod 2 ^ 64"
  using sha512_update_step [OF assms]
  by (simp add: Hacl_SHA2_512_update_def sha512_block_def words64_be_take)

theorem sha512_update_refines_witness:
  "sha512_ok (Hacl_SHA2_512_update (Hacl_SHA2_512_init (replicate 169 0)) (replicate 128 7))
   \<and> sha512_chain (Hacl_SHA2_512_update (Hacl_SHA2_512_init (replicate 169 0)) (replicate 128 7))
     = sha_compress sha512 (sha512_chain (Hacl_SHA2_512_init (replicate 169 0))) (words64_be 16 (replicate 128 7))
   \<and> sha512_blocks (Hacl_SHA2_512_update (Hacl_SHA2_512_init (replicate 169 0)) (replicate 128 7))
     = (sha512_blocks (Hacl_SHA2_512_init (replicate 169 0)) + 1) mod 2 ^ 64"
  by (rule sha512_update_refines) (simp_all add: Hacl_SHA2_512_init_def sha512_init_ok)

text \<open>
  C29: The one-shot function writes the SHA-512 hash of the first \<open>len\<close> bytes of the input, for
  every 32-bit length, to the first 64 bytes of the output.
\<close>

theorem sha512_hash_correct:
  assumes "unat len \<le> length m" and "64 \<le> length out"
  shows "Hacl_SHA2_512_hash out m len = sha512_spec (take (unat len) m) @ drop 64 out"
  using assms by (rule sha512_hash_eq)

theorem sha512_hash_correct_witness:
  "Hacl_SHA2_512_hash (replicate 65 5) [0x61, 0x62, 0x63, 0x64] 3 = sha512_spec [0x61, 0x62, 0x63] @ [5]"
  using sha512_hash_correct [of 3 "[0x61, 0x62, 0x63, 0x64]" "replicate 65 5"] by (simp add: drop_replicate)

text \<open>
  Hashing incrementally (init, two calls of \<open>update_multi\<close> on consecutive runs of blocks,
  \<open>update_last\<close> on the rest, finish) gives the hash of the whole message.
\<close>

theorem sha512_incremental:
  assumes "length m1 = 128 * unat n1" and "length m2 = 128 * unat n2" and "length x = unat len"
    and "unat len < 128" and "128 * unat n1 < 2 ^ 32" and "128 * unat n2 < 2 ^ 32" and "length out = 64"
    and "length s = 169"
  shows "Hacl_SHA2_512_finish
           (Hacl_SHA2_512_update_last
             (Hacl_SHA2_512_update_multi
               (Hacl_SHA2_512_update_multi (Hacl_SHA2_512_init s) m1 n1) m2 n2) x len) out
         = sha512_spec (m1 @ m2 @ x)"
proof -
  let ?i = "Hacl_Impl_SHA2_512_init s"
  let ?s1 = "Hacl_Impl_SHA2_512_update_multi ?i m1 n1"
  let ?s2 = "Hacl_Impl_SHA2_512_update_multi ?s1 m2 n2"
  note i = sha512_init_ok [OF assms(8)]
  have s1: "sha512_ok ?s1" "sha512_chain ?s1 = md_fold sha512_block 128 (unat n1) sha512_h0 m1"
    "sha512_blocks ?s1 = unat n1"
    using sha512_multi [OF i(1), of n1 m1] i(2,3) assms(1,5) by simp_all
  have s2: "sha512_ok ?s2"
    "sha512_chain ?s2 = md_fold sha512_block 128 (unat n2) (md_fold sha512_block 128 (unat n1) sha512_h0 m1) m2"
    "sha512_blocks ?s2 = unat n1 + unat n2"
    using sha512_multi [OF s1(1), of n2 m2] s1(2,3) assms(2,5,6) by simp_all
  have "sha512_chain ?s2 = md_fold sha512_block 128 (unat n1 + unat n2) sha512_h0 (m1 @ m2)"
    unfolding s2(2) by (rule md_fold_append [OF assms(1), symmetric])
  then show ?thesis
    using sha512_last [OF s2(1) _ _ s2(3), of "m1 @ m2" len x out] assms
    by (simp add: Hacl_SHA2_512_finish_def Hacl_SHA2_512_update_last_def Hacl_SHA2_512_update_multi_def
        Hacl_SHA2_512_init_def)
qed

theorem sha512_incremental_witness:
  "Hacl_SHA2_512_finish
     (Hacl_SHA2_512_update_last
       (Hacl_SHA2_512_update_multi
         (Hacl_SHA2_512_update_multi (Hacl_SHA2_512_init (replicate 169 0)) (replicate 256 1) 2)
         (replicate 128 2) 1) [3, 4] 2) (replicate 64 0)
   = sha512_spec (replicate 256 1 @ replicate 128 2 @ [3, 4])"
  by (rule sha512_incremental) simp_all

end
