(* ===== verification/Sha2_384.thy ===== *)
theory Sha2_384
  imports Sha2_512
begin

text \<open>
  \<open>Hacl_SHA2_384.c\<close>: the layout and the compression function of \<open>Hacl_SHA2_512.c\<close>, another
  initial value, and the first six words of the result.
\<close>

section \<open>The code\<close>

definition Hacl_Impl_SHA2_384_init :: "u64 list \<Rightarrow> u64 list" where
  "Hacl_Impl_SHA2_384_init state =
     (let state = at_ptr 0 (\<lambda>p12. p12[0 := 0x428a2f98d728ae22, 1 := 0x7137449123ef65cd, 2 := 0xb5c0fbcfec4d3b2f, 3 := 0xe9b5dba58189dbbc]) state;
          state = at_ptr 4 (\<lambda>p22. p22[0 := 0x3956c25bf348b538, 1 := 0x59f111f1b605d019, 2 := 0x923f82a4af194f9b, 3 := 0xab1c5ed5da6d8118]) state;
          state = at_ptr 8 (\<lambda>p13. p13[0 := 0xd807aa98a3030242, 1 := 0x12835b0145706fbe, 2 := 0x243185be4ee4b28c, 3 := 0x550c7dc3d5ffb4e2]) state;
          state = at_ptr 12 (\<lambda>p23. p23[0 := 0x72be5d74f27b896f, 1 := 0x80deb1fe3b1696b1, 2 := 0x9bdc06a725c71235, 3 := 0xc19bf174cf692694]) state;
          state = at_ptr 16 (\<lambda>p15. p15[0 := 0xe49b69c19ef14ad2, 1 := 0xefbe4786384f25e3, 2 := 0x0fc19dc68b8cd5b5, 3 := 0x240ca1cc77ac9c65]) state;
          state = at_ptr 20 (\<lambda>p25. p25[0 := 0x2de92c6f592b0275, 1 := 0x4a7484aa6ea6e483, 2 := 0x5cb0a9dcbd41fbd4, 3 := 0x76f988da831153b5]) state;
          state = at_ptr 24 (\<lambda>p16. p16[0 := 0x983e5152ee66dfab, 1 := 0xa831c66d2db43210, 2 := 0xb00327c898fb213f, 3 := 0xbf597fc7beef0ee4]) state;
          state = at_ptr 28 (\<lambda>p26. p26[0 := 0xc6e00bf33da88fc2, 1 := 0xd5a79147930aa725, 2 := 0x06ca6351e003826f, 3 := 0x142929670a0e6e70]) state;
          state = at_ptr 32 (\<lambda>p18. p18[0 := 0x27b70a8546d22ffc, 1 := 0x2e1b21385c26c926, 2 := 0x4d2c6dfc5ac42aed, 3 := 0x53380d139d95b3df]) state;
          state = at_ptr 36 (\<lambda>p28. p28[0 := 0x650a73548baf63de, 1 := 0x766a0abb3c77b2a8, 2 := 0x81c2c92e47edaee6, 3 := 0x92722c851482353b]) state;
          state = at_ptr 40 (\<lambda>p19. p19[0 := 0xa2bfe8a14cf10364, 1 := 0xa81a664bbc423001, 2 := 0xc24b8b70d0f89791, 3 := 0xc76c51a30654be30]) state;
          state = at_ptr 44 (\<lambda>p29. p29[0 := 0xd192e819d6ef5218, 1 := 0xd69906245565a910, 2 := 0xf40e35855771202a, 3 := 0x106aa07032bbd1b8]) state;
          state = at_ptr 48 (\<lambda>p111. p111[0 := 0x19a4c116b8d2d0c8, 1 := 0x1e376c085141ab53, 2 := 0x2748774cdf8eeb99, 3 := 0x34b0bcb5e19b48a8]) state;
          state = at_ptr 52 (\<lambda>p211. p211[0 := 0x391c0cb3c5c95a63, 1 := 0x4ed8aa4ae3418acb, 2 := 0x5b9cca4f7763e373, 3 := 0x682e6ff3d6b2b8a3]) state;
          state = at_ptr 56 (\<lambda>p112. p112[0 := 0x748f82ee5defb2fc, 1 := 0x78a5636f43172f60, 2 := 0x84c87814a1f0ab72, 3 := 0x8cc702081a6439ec]) state;
          state = at_ptr 60 (\<lambda>p212. p212[0 := 0x90befffa23631e28, 1 := 0xa4506cebde82bde9, 2 := 0xbef9a3f7b2c67915, 3 := 0xc67178f2e372532b]) state;
          state = at_ptr 64 (\<lambda>p1. p1[0 := 0xca273eceea26619c, 1 := 0xd186b8c721c0c207, 2 := 0xeada7dd6cde0eb1e, 3 := 0xf57d4f7fee6ed178]) state;
          state = at_ptr 68 (\<lambda>p214. p214[0 := 0x06f067aa72176fba, 1 := 0x0a637dc5a2c898a6, 2 := 0x113f9804bef90dae, 3 := 0x1b710b35131c471b]) state;
          state = at_ptr 72 (\<lambda>p114. p114[0 := 0x28db77f523047d84, 1 := 0x32caab7b40c72493, 2 := 0x3c9ebe0a15c9bebc, 3 := 0x431d67c49c100d4c]) state;
          state = at_ptr 76 (\<lambda>p215. p215[0 := 0x4cc5d4becb3e42b6, 1 := 0x597f299cfc657e2a, 2 := 0x5fcb6fab3ad6faec, 3 := 0x6c44198c4a475817]) state;
          state = at_ptr 160 (\<lambda>p115. p115[0 := 0xcbbb9d5dc1059ed8, 1 := 0x629a292a367cd507, 2 := 0x9159015a3070dd17, 3 := 0x152fecd8f70e5939]) state;
          state = at_ptr 164 (\<lambda>p2. p2[0 := 0x67332667ffc00b31, 1 := 0x8eb44a8768581511, 2 := 0xdb0c2e0d64f98fa7, 3 := 0x47b5481dbefa4fa4]) state;
          state = at_ptr 168 (\<lambda>n1. n1[0 := 0]) state
      in state)"

definition Hacl_Impl_SHA2_384_update :: "u64 list \<Rightarrow> bytes \<Rightarrow> u64 list" where
  "Hacl_Impl_SHA2_384_update state data =
     (let data_w = replicate 16 0;
          data_w = Hacl_Hash_Lib_LoadStore_uint64s_from_be_bytes data_w data 16;
          state = for_loop 0 16 (\<lambda>i state. let b = data_w ! i in state[80 + i := b]) state;
          state = for_loop 16 80
                    (\<lambda>i state.
                       let t16 = state ! (80 + (i - 16)); t15 = state ! (80 + (i - 15));
                           t7 = state ! (80 + (i - 7)); t2 = state ! (80 + (i - 2))
                       in state[80 + i :=
                            ((drop_bit 19 t2 OR push_bit (64 - 19) t2)
                             XOR ((drop_bit 61 t2 OR push_bit (64 - 61) t2) XOR drop_bit 6 t2))
                            + (t7
                               + (((drop_bit 1 t15 OR push_bit (64 - 1) t15)
                                   XOR ((drop_bit 8 t15 OR push_bit (64 - 8) t15) XOR drop_bit 7 t15))
                                  + t16))]) state;
          hash_0 = replicate 8 0;
          hash_0 = memcpy hash_0 (drop 160 state) 8;
          hash_0 = for_loop 0 80
                     (\<lambda>i hash_0.
                        let a = hash_0 ! 0; b = hash_0 ! 1; c = hash_0 ! 2; d = hash_0 ! 3;
                            e = hash_0 ! 4; f1 = hash_0 ! 5; g = hash_0 ! 6; h = hash_0 ! 7;
                            k_t = state ! i;
                            ws_t = state ! (80 + i);
                            t1 = h
                                 + ((drop_bit 14 e OR push_bit (64 - 14) e)
                                    XOR ((drop_bit 18 e OR push_bit (64 - 18) e)
                                         XOR (drop_bit 41 e OR push_bit (64 - 41) e)))
                                 + ((e AND f1) XOR (NOT e AND g)) + k_t + ws_t;
                            t2 = ((drop_bit 28 a OR push_bit (64 - 28) a)
                                  XOR ((drop_bit 34 a OR push_bit (64 - 34) a)
                                       XOR (drop_bit 39 a OR push_bit (64 - 39) a)))
                                 + ((a AND b) XOR ((a AND c) XOR (b AND c)));
                            x1 = t1 + t2;
                            x5 = d + t1;
                            hash_0 = hash_0[0 := x1]; hash_0 = hash_0[1 := a];
                            hash_0 = hash_0[2 := b]; hash_0 = hash_0[3 := c];
                            hash_0 = at_ptr 4 (\<lambda>p2. p2[0 := x5, 1 := e, 2 := f1, 3 := g]) hash_0
                        in hash_0) hash_0;
          state = for_loop 0 8
                    (\<lambda>i state. let xi = state ! (160 + i); yi = hash_0 ! i
                                in state[160 + i := xi + yi]) state;
          c0 = state ! 168;
          one1 = 1;
          state = state[168 := c0 + one1]
      in state)"

definition Hacl_Impl_SHA2_384_update_multi :: "u64 list \<Rightarrow> bytes \<Rightarrow> u32 \<Rightarrow> u64 list" where
  "Hacl_Impl_SHA2_384_update_multi state data n1 =
     for_loop 0 (unat n1)
       (\<lambda>i state. Hacl_Impl_SHA2_384_update state (drop (off32 128 i) data)) state"

definition Hacl_Impl_SHA2_384_update_last :: "u64 list \<Rightarrow> bytes \<Rightarrow> u64 \<Rightarrow> u64 list" where
  "Hacl_Impl_SHA2_384_update_last state data len =
     (let blocks = replicate 256 0;
          nb = (if len < 112 then 1 else 2 :: u32);
          final_blocks = (if len < 112 then drop 128 blocks else blocks);
          final_blocks = memcpy final_blocks data (unat (ucast len :: u32));
          n1 = state ! 168;
          encodedlen = u128_shift_left
            (u128_add (u128_mul_wide n1 (ucast (128 :: u32))) (uint64_to_uint128 len)) 3;
          pad0len = (128 - (ucast len + 16 + 1) mod 128) mod 128 :: u32;
          final_blocks = at_ptr (unat (ucast len :: u32)) (\<lambda>buf1. buf1[0 := 0x80]) final_blocks;
          final_blocks = at_ptr (unat (ucast len :: u32) + 1 + unat pad0len)
                           (\<lambda>buf2. store128_be buf2 encodedlen) final_blocks
      in Hacl_Impl_SHA2_384_update_multi state final_blocks nb)"

definition Hacl_Impl_SHA2_384_finish :: "u64 list \<Rightarrow> bytes \<Rightarrow> bytes" where
  "Hacl_Impl_SHA2_384_finish state hash1 =
     (let hash_w = drop 160 state in Hacl_Hash_Lib_LoadStore_uint64s_to_be_bytes hash1 hash_w 6)"

definition Hacl_Impl_SHA2_384_hash :: "bytes \<Rightarrow> bytes \<Rightarrow> u32 \<Rightarrow> bytes" where
  "Hacl_Impl_SHA2_384_hash hash1 input len =
     (let state = replicate 169 0;
          n1 = len div 128;
          r = len mod 128;
          input_blocks = input;
          input_last = drop (unat (n1 * 128)) input;
          state = Hacl_Impl_SHA2_384_init state;
          state = Hacl_Impl_SHA2_384_update_multi state input_blocks n1;
          state = Hacl_Impl_SHA2_384_update_last state input_last (ucast r)
      in Hacl_Impl_SHA2_384_finish state hash1)"

definition Hacl_SHA2_384_init :: "u64 list \<Rightarrow> u64 list" where
  "Hacl_SHA2_384_init state = Hacl_Impl_SHA2_384_init state"

definition Hacl_SHA2_384_update :: "u64 list \<Rightarrow> bytes \<Rightarrow> u64 list" where
  "Hacl_SHA2_384_update state data_8 = Hacl_Impl_SHA2_384_update state data_8"

definition Hacl_SHA2_384_update_multi :: "u64 list \<Rightarrow> bytes \<Rightarrow> u32 \<Rightarrow> u64 list" where
  "Hacl_SHA2_384_update_multi state data n1 = Hacl_Impl_SHA2_384_update_multi state data n1"

definition Hacl_SHA2_384_update_last :: "u64 list \<Rightarrow> bytes \<Rightarrow> u64 \<Rightarrow> u64 list" where
  "Hacl_SHA2_384_update_last state data len = Hacl_Impl_SHA2_384_update_last state data len"

definition Hacl_SHA2_384_finish :: "u64 list \<Rightarrow> bytes \<Rightarrow> bytes" where
  "Hacl_SHA2_384_finish state hash1 = Hacl_Impl_SHA2_384_finish state hash1"

definition Hacl_SHA2_384_hash :: "bytes \<Rightarrow> bytes \<Rightarrow> u32 \<Rightarrow> bytes" where
  "Hacl_SHA2_384_hash hash1 input len = Hacl_Impl_SHA2_384_hash hash1 input len"

section \<open>SHA-384\<close>

definition sha384_h0 :: "u64 list" where
  "sha384_h0 = root_consts 2 (take 8 (drop 8 small_primes))"

definition sha384_spec :: "bytes \<Rightarrow> bytes" where
  "sha384_spec m = bytes64_be (take 6 (md_hash sha512_block 128 16 sha384_h0 m))"

section \<open>Relation to the functions of SHA-512\<close>

lemma sha384_update_eq: "Hacl_Impl_SHA2_384_update = Hacl_Impl_SHA2_512_update"
  by (intro ext) (simp only: Hacl_Impl_SHA2_384_update_def Hacl_Impl_SHA2_512_update_def)

lemma sha384_update_multi_eq: "Hacl_Impl_SHA2_384_update_multi = Hacl_Impl_SHA2_512_update_multi"
  by (intro ext)
     (simp only: Hacl_Impl_SHA2_384_update_multi_def Hacl_Impl_SHA2_512_update_multi_def sha384_update_eq)

text \<open>The two files compute the number of padding zeros differently.\<close>

lemma pad0len_eq:
  assumes "unat w \<le> 144"
  shows "(128 - w mod 128) mod 128 = (256 - w) mod (128 :: u32)"
proof (rule word_unatI)
  have m: "unat (128 - w mod 128) = 128 - unat w mod 128"
    by (subst unat_minus) (simp_all add: unat_mod less_imp_le)
  have n: "unat (256 - w) = 256 - unat w" using assms by (subst unat_minus) simp_all
  define x where "x = unat w"
  have x: "x \<le> 144" using assms by (simp add: x_def)
  consider "x < 128" | "128 \<le> x" by linarith
  then have "(128 - x mod 128) mod 128 = (256 - x) mod 128"
  proof cases
    case 1
    then have "256 - x = 128 + (128 - x)" by simp
    then show ?thesis using 1 by (simp only: mod_add_self1 mod_less)
  next
    case 2
    then have "x mod 128 = x - 128" using x by (simp add: mod_if)
    then show ?thesis using 2 x by simp
  qed
  then show "unat ((128 - w mod 128) mod 128) = unat ((256 - w) mod (128 :: u32))"
    unfolding unat_mod m n by (simp add: x_def)
qed

lemma sha384_update_last_eq:
  assumes "unat len < 128"
  shows "Hacl_Impl_SHA2_384_update_last s data len = Hacl_Impl_SHA2_512_update_last s data len"
proof -
  have c: "unat (ucast len :: u32) = unat len" using assms by (simp add: unat_ucast_down)
  have "unat (ucast len + 16 + 1 :: u32) = unat len + 17"
    using assms by (subst unat_plus; simp add: unat_plus c)+
  then have "(128 - (ucast len + 16 + 1) mod 128) mod 128 = (256 - (ucast len + 16 + 1)) mod (128 :: u32)"
    using assms by (intro pad0len_eq) simp
  then show ?thesis
    by (simp only: Hacl_Impl_SHA2_384_update_last_def Hacl_Impl_SHA2_512_update_last_def
        sha384_update_multi_eq)
qed

text \<open>The table of round constants the code writes, and its check.\<close>

definition sha384_table :: "u64 list" where
  "sha384_table = take 80 (Hacl_Impl_SHA2_384_init (replicate 169 0))"

lemmas sha384_table_eq =
  sha384_table_def Hacl_Impl_SHA2_384_init_def Let_def take_at_ptr write4_first write4_next

lemma sha384_table_k: "sha384_table = sha512_k"
  unfolding sha512_table_k [symmetric]
  by (simp add: sha384_table_eq sha512_table_eq del: One_nat_def append_assoc append_Cons append_Nil)

lemma sha384_init_h0:
  "[0xcbbb9d5dc1059ed8, 0x629a292a367cd507, 0x9159015a3070dd17, 0x152fecd8f70e5939] @
   [0x67332667ffc00b31, 0x8eb44a8768581511, 0xdb0c2e0d64f98fa7, 0x47b5481dbefa4fa4] = sha384_h0"
  unfolding sha384_h0_def by (rule root_consts_eq [symmetric]) (simp add: root_check)

lemma length_sha384_h0: "length sha384_h0 = 8"
  by (simp add: sha384_h0_def)

lemma sha384_init_eq:
  assumes "length s = 169"
  shows "Hacl_Impl_SHA2_384_init s = sha512_k @ take 80 (drop 80 s) @ sha384_h0 @ [0]"
proof -
  have d: "drop 80 s = take 80 (drop 80 s) @ drop 160 s"
    using append_take_drop_id [of 80 "drop 80 s"] by simp
  have e: "drop 168 s = [s ! 168]"
    using assms Cons_nth_drop_Suc [of 168 s] by simp
  have k: "length sha512_k = 80" by (simp add: sha512_k_def)
  have n: "at_ptr 168 (\<lambda>n1. n1[0 := 0]) (xs @ [x]) = xs @ [0]" if "length xs = 168" for xs and x :: u64
    using that by (simp add: at_ptr_def)
  have "Hacl_Impl_SHA2_384_init s =
      at_ptr 168 (\<lambda>n1. n1[0 := 0])
        (at_ptr 164 (\<lambda>p2. p2[0 := 0x67332667ffc00b31, 1 := 0x8eb44a8768581511, 2 := 0xdb0c2e0d64f98fa7, 3 := 0x47b5481dbefa4fa4])
          (at_ptr 160 (\<lambda>p112. p112[0 := 0xcbbb9d5dc1059ed8, 1 := 0x629a292a367cd507, 2 := 0x9159015a3070dd17, 3 := 0x152fecd8f70e5939])
            (sha512_k @ drop 80 s)))"
    using assms
    by (simp add: Hacl_Impl_SHA2_384_init_def write4_first write4_next
        del: One_nat_def append_assoc append_Cons append_Nil)
       (simp add: sha384_table_k [symmetric] sha384_table_eq del: One_nat_def append_assoc append_Cons append_Nil)
  also have "\<dots> = sha512_k @ take 80 (drop 80 s) @ sha384_h0 @ [0]"
    using assms k
    by (subst d, subst append_assoc [symmetric])
       (simp add: write4_next e n sha384_init_h0 [symmetric] del: One_nat_def append_assoc append_Cons append_Nil)
  finally show ?thesis .
qed

lemma sha384_init_ok:
  assumes "length s = 169"
  shows "sha512_ok (Hacl_Impl_SHA2_384_init s)" "sha512_chain (Hacl_Impl_SHA2_384_init s) = sha384_h0"
    "sha512_blocks (Hacl_Impl_SHA2_384_init s) = 0"
proof -
  have "length (take 80 (drop 80 s)) = 80" "length sha384_h0 = 8"
    using assms by (simp_all add: sha384_h0_def)
  from sha512_state [OF this, of 0]
  show "sha512_ok (Hacl_Impl_SHA2_384_init s)" "sha512_chain (Hacl_Impl_SHA2_384_init s) = sha384_h0"
    "sha512_blocks (Hacl_Impl_SHA2_384_init s) = 0"
    using assms by (simp_all add: sha384_init_eq)
qed

lemma sha384_finish_eq:
  "sha512_ok s \<Longrightarrow> 48 \<le> length out \<Longrightarrow>
   Hacl_Impl_SHA2_384_finish s out = bytes64_be (take 6 (sha512_chain s)) @ drop 48 out"
  by (simp add: Hacl_Impl_SHA2_384_finish_def to_be_bytes64_eq sha512_ok_def sha512_chain_def)

section \<open>Properties\<close>

text \<open>
  The one-shot function writes the SHA-384 hash of the first \<open>len\<close> bytes of the input, for
  every 32-bit length, to the first 48 bytes of the output.
\<close>

theorem sha384_hash_correct:
  assumes "unat len \<le> length m" and "48 \<le> length out"
  shows "Hacl_SHA2_384_hash out m len = sha384_spec (take (unat len) m) @ drop 48 out"
proof -
  define n r where "n = unat len div 128" and "r = unat len mod 128"
  have nr: "unat len = 128 * n + r" "r < 128" by (simp_all add: n_def r_def)
  have un: "unat (len div 128) = n" "unat (len mod 128) = r"
    by (simp_all add: n_def r_def unat_div unat_mod)
  have ur: "unat (ucast (len mod 128) :: u64) = r" by (simp add: unat_ucast_same_or_up un)
  have bound: "128 * n < 2 ^ 32" using unat_bound [of len] nr by simp
  have o128: "unat (len div 128 * 128) = 128 * n" using bound un by (subst unat_times) simp_all
  let ?i = "Hacl_Impl_SHA2_384_init (replicate 169 0)"
  let ?s = "Hacl_Impl_SHA2_512_update_multi ?i m (len div 128)"
  let ?l = "Hacl_Impl_SHA2_512_update_last ?s (drop (128 * n) m) (ucast (len mod 128))"
  have i: "sha512_ok ?i" "sha512_chain ?i = sha384_h0" "sha512_blocks ?i = 0"
    by (rule sha384_init_ok; simp)+
  have s: "sha512_ok ?s" "sha512_chain ?s = md_fold sha512_block 128 n sha384_h0 (take (128 * n) m)"
    "sha512_blocks ?s = n"
    using sha512_multi [OF i(1), of "len div 128" m] i bound assms(1) nr un by (simp_all add: md_fold_take)
  have lr: "unat (ucast (len mod 128) :: u64) < 128" using ur nr(2) by simp
  have l: "sha512_ok ?l"
    "sha512_chain ?l = md_hash sha512_block 128 16 sha384_h0 (take (128 * n) m @ take r (drop (128 * n) m))"
    using sha512_last_chain [OF s(1,2) _ s(3) _ lr, of "drop (128 * n) m"] bound nr assms ur by simp_all
  have "Hacl_SHA2_384_hash out m len = Hacl_Impl_SHA2_384_finish ?l out"
    by (simp only: Hacl_SHA2_384_hash_def Hacl_Impl_SHA2_384_hash_def Let_def o128
        sha384_update_multi_eq sha384_update_last_eq [OF lr])
  moreover have "take (unat len) m = take (128 * n) m @ take r (drop (128 * n) m)"
    by (simp only: nr(1) take_add)
  ultimately show ?thesis using l assms(2) by (simp add: sha384_finish_eq sha384_spec_def)
qed

theorem sha384_hash_correct_witness:
  "Hacl_SHA2_384_hash (replicate 49 5) [0x61, 0x62, 0x63, 0x64] 3 = sha384_spec [0x61, 0x62, 0x63] @ [5]"
  using sha384_hash_correct [of 3 "[0x61, 0x62, 0x63, 0x64]" "replicate 49 5"] by (simp add: drop_replicate)

end
