(* ===== verification/Sha2_Stream.thy ===== *)
theory Sha2_Stream
  imports Sha2_256 Sha2_384
begin

text \<open>
  The streaming interfaces of \<open>Hacl_SHA2_256.c\<close>, \<open>Hacl_SHA2_384.c\<close> and \<open>Hacl_SHA2_512.c\<close> as a
  state machine.  A caller owns the state buffer and may call \<open>init\<close>, then \<open>update\<close> and
  \<open>update_multi\<close> in any order and number, then \<open>update_last\<close> once, then \<open>finish\<close>, and may start
  again from \<open>init\<close> at any time.  A configuration is the phase of the buffer together with
  the bytes handed over since \<open>init\<close>; one rule per call.  The invariants of the reachable
  configurations are proved once, in a locale, and interpreted for the three hashes.
\<close>

section \<open>The machine\<close>

record 'w hash_ops =
  state_words :: nat
  block_bytes :: nat
  digest_bytes :: nat
  op_init :: "'w list \<Rightarrow> 'w list"
  op_update :: "'w list \<Rightarrow> bytes \<Rightarrow> 'w list"
  op_update_multi :: "'w list \<Rightarrow> bytes \<Rightarrow> u32 \<Rightarrow> 'w list"
  op_update_last :: "'w list \<Rightarrow> bytes \<Rightarrow> nat \<Rightarrow> 'w list"
  op_finish :: "'w list \<Rightarrow> bytes \<Rightarrow> bytes"

definition sha256_ops :: "u32 hash_ops" where
  "sha256_ops =
     \<lparr>state_words = 137, block_bytes = 64, digest_bytes = 32, op_init = Hacl_SHA2_256_init,
      op_update = Hacl_SHA2_256_update, op_update_multi = Hacl_SHA2_256_update_multi,
      op_update_last = (\<lambda>s b l. Hacl_SHA2_256_update_last s b (word_of_nat l)),
      op_finish = Hacl_SHA2_256_finish\<rparr>"

definition sha384_ops :: "u64 hash_ops" where
  "sha384_ops =
     \<lparr>state_words = 169, block_bytes = 128, digest_bytes = 48, op_init = Hacl_SHA2_384_init,
      op_update = Hacl_SHA2_384_update, op_update_multi = Hacl_SHA2_384_update_multi,
      op_update_last = (\<lambda>s b l. Hacl_SHA2_384_update_last s b (word_of_nat l)),
      op_finish = Hacl_SHA2_384_finish\<rparr>"

definition sha512_ops :: "u64 hash_ops" where
  "sha512_ops =
     \<lparr>state_words = 169, block_bytes = 128, digest_bytes = 64, op_init = Hacl_SHA2_512_init,
      op_update = Hacl_SHA2_512_update, op_update_multi = Hacl_SHA2_512_update_multi,
      op_update_last = (\<lambda>s b l. Hacl_SHA2_512_update_last s b (word_of_nat l)),
      op_finish = Hacl_SHA2_512_finish\<rparr>"

datatype 'w phase =
    Fresh (buffer: "'w list")
  | Absorbing (buffer: "'w list")
  | Padded (buffer: "'w list")
  | Finished (buffer: "'w list") (digest: bytes)

inductive hash_step :: "'w hash_ops \<Rightarrow> 'w phase \<times> bytes \<Rightarrow> 'w phase \<times> bytes \<Rightarrow> bool" for H where
  init: "hash_step H (p, m) (Absorbing (op_init H (buffer p)), [])"
| update: "block_bytes H \<le> length b \<Longrightarrow>
    hash_step H (Absorbing s, m) (Absorbing (op_update H s b), m @ take (block_bytes H) b)"
| update_multi: "block_bytes H * unat n \<le> length b \<Longrightarrow> block_bytes H * unat n < 2 ^ 32 \<Longrightarrow>
    hash_step H (Absorbing s, m) (Absorbing (op_update_multi H s b n), m @ take (block_bytes H * unat n) b)"
| update_last: "l < block_bytes H \<Longrightarrow> l \<le> length b \<Longrightarrow>
    hash_step H (Absorbing s, m) (Padded (op_update_last H s b l), m @ take l b)"
| finish: "digest_bytes H \<le> length out \<Longrightarrow>
    hash_step H (Padded s, m) (Finished s (op_finish H s out), m)"

inductive_cases absorbing_step: "hash_step H (Absorbing s, m) c"
inductive_cases finished_step: "hash_step H c (Finished s d, m)"

text \<open>The configurations a caller with a buffer of the right size can reach.\<close>

definition hash_reach :: "'w hash_ops \<Rightarrow> 'w phase \<times> bytes \<Rightarrow> bool" where
  "hash_reach H c \<longleftrightarrow> (\<exists>s. length s = state_words H \<and> (hash_step H)\<^sup>*\<^sup>* (Fresh s, []) c)"

lemma reach_fresh: "length s = state_words H \<Longrightarrow> hash_reach H (Fresh s, [])"
  by (auto simp: hash_reach_def)

lemma reach_step: "hash_reach H c \<Longrightarrow> hash_step H c c' \<Longrightarrow> hash_reach H c'"
  unfolding hash_reach_def by (blast intro: rtranclp.rtrancl_into_rtrancl)

lemma reach_induct [consumes 1, case_names fresh step]:
  assumes "hash_reach H c"
    and "\<And>s. length s = state_words H \<Longrightarrow> P (Fresh s, [])"
    and "\<And>c c'. hash_reach H c \<Longrightarrow> hash_step H c c' \<Longrightarrow> P c \<Longrightarrow> P c'"
  shows "P c"
proof -
  obtain s where s: "length s = state_words H" "(hash_step H)\<^sup>*\<^sup>* (Fresh s, []) c"
    using assms(1) by (auto simp: hash_reach_def)
  from s(2) show ?thesis
  proof (induction rule: rtranclp_induct)
    case (step c c')
    have "hash_reach H c" unfolding hash_reach_def using s(1) step(1) by blast
    then show ?case using step(2,3) by (rule assms(3))
  qed (rule assms(2) [OF s(1)])
qed

section \<open>What the operations of a hash promise\<close>

locale hash_machine =
  fixes H :: "'w hash_ops" and ok :: "'w list \<Rightarrow> bool" and chain :: "'w list \<Rightarrow> 'h" and blocks :: "'w list \<Rightarrow> nat"
    and cmax :: nat and compress :: "'h \<Rightarrow> bytes \<Rightarrow> 'h" and ll :: nat and h0 :: 'h and dig :: "'h \<Rightarrow> bytes"
  assumes pos: "0 < block_bytes H"
    and ok_words: "ok s \<Longrightarrow> length s = state_words H"
    and init: "length s = state_words H \<Longrightarrow>
      ok (op_init H s) \<and> chain (op_init H s) = h0 \<and> blocks (op_init H s) = 0"
    and multi: "ok s \<Longrightarrow> block_bytes H * unat n \<le> length b \<Longrightarrow> block_bytes H * unat n < 2 ^ 32 \<Longrightarrow>
      ok (op_update_multi H s b n)
      \<and> chain (op_update_multi H s b n) = md_fold compress (block_bytes H) (unat n) (chain s) b
      \<and> blocks (op_update_multi H s b n) = (if n = 0 then blocks s else (blocks s + unat n) mod cmax)"
    and update: "ok s \<Longrightarrow> block_bytes H \<le> length b \<Longrightarrow>
      ok (op_update H s b) \<and> chain (op_update H s b) = compress (chain s) (take (block_bytes H) b)
      \<and> blocks (op_update H s b) = (blocks s + 1) mod cmax"
    and last_ok: "ok s \<Longrightarrow> l < block_bytes H \<Longrightarrow> l \<le> length b \<Longrightarrow> ok (op_update_last H s b l)"
    and last: "ok s \<Longrightarrow> l < block_bytes H \<Longrightarrow> l \<le> length b \<Longrightarrow>
      chain s = md_fold compress (block_bytes H) k h0 m \<Longrightarrow> length m = block_bytes H * k \<Longrightarrow>
      blocks s = k \<Longrightarrow> k + 2 < cmax \<Longrightarrow>
      chain (op_update_last H s b l) = md_hash compress (block_bytes H) ll h0 (m @ take l b)"
    and finish: "ok s \<Longrightarrow> digest_bytes H \<le> length out \<Longrightarrow>
      op_finish H s out = dig (chain s) @ drop (digest_bytes H) out"
    and dig: "ok s \<Longrightarrow> length (dig (chain s)) = digest_bytes H"
begin

text \<open>The counter and the chaining value say what was absorbed; the counter only modulo \<open>cmax\<close>.\<close>

fun inv where
  "inv (Fresh s, m) \<longleftrightarrow> length s = state_words H \<and> m = []"
| "inv (Absorbing s, m) \<longleftrightarrow> ok s \<and> (\<exists>k. length m = block_bytes H * k \<and> blocks s = k mod cmax
     \<and> chain s = md_fold compress (block_bytes H) k h0 m)"
| "inv (Padded s, m) \<longleftrightarrow> ok s \<and> (length m div block_bytes H + 2 < cmax \<longrightarrow>
     chain s = md_hash compress (block_bytes H) ll h0 m)"
| "inv (Finished s d, m) \<longleftrightarrow> ok s \<and> digest_bytes H \<le> length d \<and> (length m div block_bytes H + 2 < cmax \<longrightarrow>
     take (digest_bytes H) d = dig (md_hash compress (block_bytes H) ll h0 m))"

lemma inv_buffer: "inv (p, m) \<Longrightarrow> length (buffer p) = state_words H"
  by (cases p) (simp_all add: ok_words)

lemma inv_absorb:
  assumes "inv (Absorbing s, m)" and "ok s'" and "length x = block_bytes H * n"
    and "blocks s' mod cmax = (blocks s + n) mod cmax" and "blocks s' = blocks s' mod cmax"
    and "chain s' = md_fold compress (block_bytes H) n (chain s) x"
  shows "inv (Absorbing s', m @ x)"
proof -
  obtain k where k: "length m = block_bytes H * k" "blocks s = k mod cmax"
    "chain s = md_fold compress (block_bytes H) k h0 m" using assms(1) by auto
  have "blocks s' = (k + n) mod cmax" using assms(4,5) k(2) by (simp add: mod_simps)
  moreover have "chain s' = md_fold compress (block_bytes H) (k + n) h0 (m @ x)"
    unfolding assms(6) k(3) by (rule md_fold_append [OF k(1), symmetric])
  moreover have "length (m @ x) = block_bytes H * (k + n)" using assms(3) k(1) by (simp add: distrib_left)
  ultimately show ?thesis using assms(2) by (auto simp del: length_append)
qed

lemma inv_step: "hash_step H c c' \<Longrightarrow> inv c \<Longrightarrow> inv c'"
proof (induction rule: hash_step.induct)
  case (init p m)
  have "0 = block_bytes H * 0" by simp
  then show ?case
    using inv_buffer [OF init] hash_machine_axioms
    by (auto simp: hash_machine.init [OF hash_machine_axioms] intro!: exI [of _ 0])
next
  case (update b s m)
  then have ok: "ok s" by simp
  show ?case
    using update(2) by (rule inv_absorb [where n = 1]) (use update(1) hash_machine.update [OF hash_machine_axioms ok update(1)] in
      \<open>simp_all add: md_fold_one\<close>)
next
  case (update_multi n b s m)
  then obtain k where "ok s" "blocks s = k mod cmax" by auto
  then show ?case
    using update_multi(3) by (intro inv_absorb [where n = "unat n" and s = s])
      (use update_multi(1,2) multi [of s n b] in \<open>simp_all add: md_fold_take split: if_splits\<close>)
next
  case (update_last l b s m)
  then obtain k where k: "ok s" "length m = block_bytes H * k" "blocks s = k mod cmax"
    "chain s = md_fold compress (block_bytes H) k h0 m" by auto
  have "length (m @ take l b) div block_bytes H = k" using update_last(1,2) k(2) pos by simp
  then show ?case
    using last_ok [OF k(1) update_last(1,2)] last [OF k(1) update_last(1,2) k(4,2)] k(3) by simp
next
  case (finish out s m)
  then have s: "ok s" by simp
  have "take (digest_bytes H) (op_finish H s out) = dig (chain s)" "digest_bytes H \<le> length (op_finish H s out)"
    using hash_machine.finish [OF hash_machine_axioms s finish(1)] finish(1) dig [OF s] by simp_all
  then show ?case using finish(2) by simp
qed

lemma machine_inv: "hash_reach H c \<Longrightarrow> inv c"
  by (induction rule: reach_induct) (auto intro: inv_step)

lemma machine_shape: "hash_reach H (p, m) \<Longrightarrow> length (buffer p) = state_words H \<and> (is_Fresh p \<or> ok (buffer p))"
  using machine_inv [of "(p, m)"] inv_buffer [of p m] by (cases p) auto

lemma machine_absorbed:
  assumes "hash_reach H (Absorbing s, m)"
  shows "block_bytes H dvd length m" and "blocks s = length m div block_bytes H mod cmax"
    and "chain s = md_fold compress (block_bytes H) (length m div block_bytes H) h0 m"
proof -
  obtain k where k: "length m = block_bytes H * k" "blocks s = k mod cmax"
    "chain s = md_fold compress (block_bytes H) k h0 m" using machine_inv [OF assms] by auto
  have "length m div block_bytes H = k" using pos by (simp add: k(1))
  then show "block_bytes H dvd length m" "blocks s = length m div block_bytes H mod cmax"
    "chain s = md_fold compress (block_bytes H) (length m div block_bytes H) h0 m"
    using k by simp_all
qed

lemma machine_digest:
  assumes "hash_reach H (Finished s d, m)" and "length m div block_bytes H + 2 < cmax"
  shows "take (digest_bytes H) d = dig (md_hash compress (block_bytes H) ll h0 m)"
  using machine_inv [OF assms(1)] assms(2) by simp

end

section \<open>The three hashes\<close>

lemma small_tail: "l < 128 \<Longrightarrow> unat (word_of_nat l :: u32) = l" "l < 128 \<Longrightarrow> unat (word_of_nat l :: u64) = l"
  by (simp_all add: unat_of_nat)

lemma sha256_multi_wrap:
  assumes "sha256_ok s" and "64 * unat n \<le> length b" and "64 * unat n < 2 ^ 32"
  shows "sha256_ok (Hacl_Impl_SHA2_256_update_multi s b n)
     \<and> sha256_chain (Hacl_Impl_SHA2_256_update_multi s b n) = md_fold sha256_block 64 (unat n) (sha256_chain s) b
     \<and> sha256_blocks (Hacl_Impl_SHA2_256_update_multi s b n)
       = (if n = 0 then sha256_blocks s else (sha256_blocks s + unat n) mod 2 ^ 32)"
  using sha256.multi_wrap [OF assms]
  by (simp add: Hacl_Impl_SHA2_256_update_multi_def unat_eq_zero del: md_fold.simps)

lemma sha512_multi_wrap:
  assumes "sha512_ok s" and "128 * unat n \<le> length b" and "128 * unat n < 2 ^ 32"
  shows "sha512_ok (Hacl_Impl_SHA2_512_update_multi s b n)
     \<and> sha512_chain (Hacl_Impl_SHA2_512_update_multi s b n) = md_fold sha512_block 128 (unat n) (sha512_chain s) b
     \<and> sha512_blocks (Hacl_Impl_SHA2_512_update_multi s b n)
       = (if n = 0 then sha512_blocks s else (sha512_blocks s + unat n) mod 2 ^ 64)"
  using sha512.multi_wrap [OF assms]
  by (simp add: Hacl_Impl_SHA2_512_update_multi_def unat_eq_zero del: md_fold.simps)

lemma ok_length: "sha256_ok s \<Longrightarrow> length s = 137" "sha512_ok t \<Longrightarrow> length t = 169"
  by (simp_all add: sha256_ok_def sha512_ok_def)

interpretation stream256: hash_machine sha256_ops sha256_ok sha256_chain sha256_blocks "2 ^ 32" sha256_block 8
    sha256_h0 bytes_be
proof
  fix s b l k m assume *: "sha256_ok s" "l < block_bytes sha256_ops" "l \<le> length (b :: bytes)"
  then have l: "unat (word_of_nat l :: u32) = l" by (simp add: sha256_ops_def small_tail)
  note last = sha256_last_chain [OF *(1), of "word_of_nat l" b, unfolded l]
  show "sha256_ok (op_update_last sha256_ops s b l)"
    using last(1) * by (simp add: sha256_ops_def Hacl_SHA2_256_update_last_def)
  show "sha256_chain (op_update_last sha256_ops s b l)
      = md_hash sha256_block (block_bytes sha256_ops) 8 sha256_h0 (m @ take l b)"
    if "sha256_chain s = md_fold sha256_block (block_bytes sha256_ops) k sha256_h0 m"
      "length m = block_bytes sha256_ops * k" "sha256_blocks s = k" "k + 2 < 2 ^ 32"
    using last(2) * that by (simp add: sha256_ops_def Hacl_SHA2_256_update_last_def)
qed (simp_all add: sha256_ops_def sha256_init_ok sha256_update_step sha256_multi_wrap sha256_finish_eq
      ok_length length_sha256_chain Hacl_SHA2_256_init_def Hacl_SHA2_256_update_def
      Hacl_SHA2_256_update_multi_def Hacl_SHA2_256_finish_def del: md_fold.simps)

interpretation stream512: hash_machine sha512_ops sha512_ok sha512_chain sha512_blocks "2 ^ 64" sha512_block 16
    sha512_h0 bytes64_be
proof
  fix s b l k m assume *: "sha512_ok s" "l < block_bytes sha512_ops" "l \<le> length (b :: bytes)"
  then have l: "unat (word_of_nat l :: u64) = l" by (simp add: sha512_ops_def small_tail)
  note last = sha512_last_ok [OF *(1), of "word_of_nat l" b, unfolded l]
  show "sha512_ok (op_update_last sha512_ops s b l)"
    using last(1) * by (simp add: sha512_ops_def Hacl_SHA2_512_update_last_def)
  show "sha512_chain (op_update_last sha512_ops s b l)
      = md_hash sha512_block (block_bytes sha512_ops) 16 sha512_h0 (m @ take l b)"
    if "sha512_chain s = md_fold sha512_block (block_bytes sha512_ops) k sha512_h0 m"
      "length m = block_bytes sha512_ops * k" "sha512_blocks s = k" "k + 2 < 2 ^ 64"
    using last(2) * that by (simp add: sha512_ops_def Hacl_SHA2_512_update_last_def)
qed (simp_all add: sha512_ops_def sha512_init_ok sha512_update_step sha512_multi_wrap sha512_finish_eq
      ok_length length_sha512_chain Hacl_SHA2_512_init_def Hacl_SHA2_512_update_def
      Hacl_SHA2_512_update_multi_def Hacl_SHA2_512_finish_def del: md_fold.simps)

text \<open>SHA-384 is SHA-512 from another initial value, and its digest is cut to six words.\<close>

interpretation stream384: hash_machine sha384_ops sha512_ok sha512_chain sha512_blocks "2 ^ 64" sha512_block 16
    sha384_h0 "\<lambda>c. bytes64_be (take 6 c)"
proof
  fix s b l k m assume *: "sha512_ok s" "l < block_bytes sha384_ops" "l \<le> length (b :: bytes)"
  then have l: "unat (word_of_nat l :: u64) = l" by (simp add: sha384_ops_def small_tail)
  have e: "op_update_last sha384_ops s b l = Hacl_Impl_SHA2_512_update_last s b (word_of_nat l)"
    using * l by (simp add: sha384_ops_def Hacl_SHA2_384_update_last_def sha384_update_last_eq)
  note last = sha512_last_ok [OF *(1), of "word_of_nat l" b, unfolded l]
  show "sha512_ok (op_update_last sha384_ops s b l)"
    unfolding e using last(1) * by (simp add: sha384_ops_def)
  show "sha512_chain (op_update_last sha384_ops s b l)
      = md_hash sha512_block (block_bytes sha384_ops) 16 sha384_h0 (m @ take l b)"
    if "sha512_chain s = md_fold sha512_block (block_bytes sha384_ops) k sha384_h0 m"
      "length m = block_bytes sha384_ops * k" "sha512_blocks s = k" "k + 2 < 2 ^ 64"
    unfolding e using last(2) * that by (simp add: sha384_ops_def)
qed (simp_all add: sha384_ops_def sha384_init_ok sha512_update_step sha512_multi_wrap sha384_finish_eq
      sha384_update_eq sha384_update_multi_eq
      ok_length length_sha512_chain Hacl_SHA2_384_init_def Hacl_SHA2_384_update_def
      Hacl_SHA2_384_update_multi_def Hacl_SHA2_384_finish_def del: md_fold.simps)

text \<open>The layout of the states, with the constants of FIPS 180-4 in front.\<close>

lemma ok_constants:
  "sha256_ok s \<Longrightarrow> take 64 s = root_consts 3 (take 64 small_primes)"
  "sha512_ok t \<Longrightarrow> take 80 t = root_consts 3 small_primes"
  by (simp_all add: sha256_ok_def sha512_ok_def sha256_k_def sha512_k_def)

text \<open>One short run, for concrete instances of the properties.\<close>

lemma reach_absorbing:
  "length s = state_words H \<Longrightarrow> hash_reach H (Absorbing (op_init H s), [])"
  using reach_step [OF reach_fresh [of s H] hash_step.init [of H "Fresh s"]] by simp

lemma reach_block:
  assumes "length s = state_words H" and "block_bytes H = length b"
  shows "hash_reach H (Absorbing (op_update H (op_init H s) b), b)"
  using reach_step [OF reach_absorbing [OF assms(1)] hash_step.update [of H b "op_init H s" "[]"]] assms(2) by simp

lemma reach_finished:
  assumes "length s = state_words H" and "length b < block_bytes H" and "length out = digest_bytes H"
  shows "hash_reach H (Finished (op_update_last H (op_init H s) b (length b))
           (op_finish H (op_update_last H (op_init H s) b (length b)) out), b)"
  using reach_step [OF reach_step [OF reach_absorbing [OF assms(1)]
      hash_step.update_last [of "length b" H b "op_init H s" "[]"]] hash_step.finish [of H out]] assms(2,3)
  by simp

section \<open>Properties\<close>

text \<open>
  C30: Every state buffer that calls in the documented order produce has the size the header asks for
  (137 words, or 169), and from the first \<open>init\<close> on it starts with the round constants of
  FIPS 180-4: no call overwrites the table or changes the size.
\<close>

theorem sha2_stream_shape:
  assumes "hash_reach sha256_ops (p, m)" and "hash_reach sha384_ops (q, m')" and "hash_reach sha512_ops (r, m'')"
  shows "length (buffer p) = 137 \<and> (is_Fresh p \<or> take 64 (buffer p) = root_consts 3 (take 64 small_primes))
         \<and> length (buffer q) = 169 \<and> (is_Fresh q \<or> take 80 (buffer q) = root_consts 3 small_primes)
         \<and> length (buffer r) = 169 \<and> (is_Fresh r \<or> take 80 (buffer r) = root_consts 3 small_primes)"
  using stream256.machine_shape [OF assms(1)] stream384.machine_shape [OF assms(2)]
    stream512.machine_shape [OF assms(3)]
  by (auto simp: ok_constants sha256_ops_def sha384_ops_def sha512_ops_def)

theorem sha2_stream_shape_witness:
  "length (Hacl_SHA2_256_update (Hacl_SHA2_256_init (replicate 137 0)) (replicate 64 1)) = 137
   \<and> take 64 (Hacl_SHA2_256_update (Hacl_SHA2_256_init (replicate 137 0)) (replicate 64 1))
     = root_consts 3 (take 64 small_primes)"
  using sha2_stream_shape [OF reach_block [of "replicate 137 0" sha256_ops "replicate 64 1"]
      reach_absorbing [of "replicate 169 0" sha384_ops] reach_absorbing [of "replicate 169 0" sha512_ops]]
  by (simp add: sha256_ops_def sha384_ops_def sha512_ops_def)

text \<open>
  C28: Between \<open>init\<close> and \<open>update_last\<close>, after any sequence of updates of any sizes, the bytes absorbed
  are whole blocks, the chaining value is the compression function folded over them, and
  the counter is their number, modulo \<open>2 ^ 32\<close> for SHA-256 and \<open>2 ^ 64\<close> for the other two.
\<close>

theorem sha2_stream_invariant:
  assumes "hash_reach sha256_ops (Absorbing s, m)" and "hash_reach sha384_ops (Absorbing t, m')"
    and "hash_reach sha512_ops (Absorbing u, m'')"
  shows "64 dvd length m \<and> sha256_blocks s = length m div 64 mod 2 ^ 32
         \<and> sha256_chain s = md_fold sha256_block 64 (length m div 64) sha256_h0 m
         \<and> 128 dvd length m' \<and> sha512_blocks t = length m' div 128 mod 2 ^ 64
         \<and> sha512_chain t = md_fold sha512_block 128 (length m' div 128) sha384_h0 m'
         \<and> 128 dvd length m'' \<and> sha512_blocks u = length m'' div 128 mod 2 ^ 64
         \<and> sha512_chain u = md_fold sha512_block 128 (length m'' div 128) sha512_h0 m''"
  using stream256.machine_absorbed [OF assms(1)] stream384.machine_absorbed [OF assms(2)]
    stream512.machine_absorbed [OF assms(3)]
  by (simp add: sha256_ops_def sha384_ops_def sha512_ops_def del: md_fold.simps)

theorem sha2_stream_invariant_witness:
  "sha256_blocks (Hacl_SHA2_256_update (Hacl_SHA2_256_init (replicate 137 0)) (replicate 64 1)) = 1
   \<and> sha512_blocks (Hacl_SHA2_512_update (Hacl_SHA2_512_init (replicate 169 0)) (replicate 128 1)) = 1"
  using sha2_stream_invariant [OF reach_block [of "replicate 137 0" sha256_ops "replicate 64 1"]
      reach_absorbing [of "replicate 169 0" sha384_ops]
      reach_block [of "replicate 169 0" sha512_ops "replicate 128 1"]]
  by (simp add: sha256_ops_def sha384_ops_def sha512_ops_def)

text \<open>
  C27: Whatever the calls in the documented order that led to \<open>finish\<close>, the digest is the hash of
  FIPS 180-4 of exactly the bytes absorbed since the last \<open>init\<close>, for every message whose blocks,
  the padding included, the block counter can count: fewer than \<open>2 ^ 38 - 128\<close> bytes for SHA-256, whose
  counter has 32 bits, and fewer than \<open>2 ^ 71 - 256\<close> bytes for SHA-384 and SHA-512.  These
  bounds are below those of the standard, \<open>2 ^ 61\<close> and \<open>2 ^ 125\<close> bytes.
\<close>

theorem sha2_stream_digest:
  assumes "hash_reach sha256_ops (Finished s d, m)" and "length m div 64 + 2 < 2 ^ 32"
    and "hash_reach sha384_ops (Finished t e, m')" and "length m' div 128 + 2 < 2 ^ 64"
    and "hash_reach sha512_ops (Finished u f, m'')" and "length m'' div 128 + 2 < 2 ^ 64"
  shows "take 32 d = sha256_spec m \<and> take 48 e = sha384_spec m' \<and> take 64 f = sha512_spec m''"
  using stream256.machine_digest [OF assms(1)] stream384.machine_digest [OF assms(3)]
    stream512.machine_digest [OF assms(5)] assms(2,4,6)
  by (simp add: sha256_ops_def sha384_ops_def sha512_ops_def sha256_spec_def sha384_spec_def sha512_spec_def)

theorem sha2_stream_digest_witness:
  "take 32 (Hacl_SHA2_256_finish
      (Hacl_SHA2_256_update_last (Hacl_SHA2_256_init (replicate 137 0)) [1, 2, 3] 3) (replicate 32 0))
   = sha256_spec [1, 2, 3]
   \<and> take 48 (Hacl_SHA2_384_finish
      (Hacl_SHA2_384_update_last (Hacl_SHA2_384_init (replicate 169 0)) [1, 2, 3] 3) (replicate 48 0))
   = sha384_spec [1, 2, 3]"
  using sha2_stream_digest [OF reach_finished [of "replicate 137 0" sha256_ops "[1, 2, 3]" "replicate 32 0"] _
      reach_finished [of "replicate 169 0" sha384_ops "[1, 2, 3]" "replicate 48 0"] _
      reach_finished [of "replicate 169 0" sha512_ops "[1, 2, 3]" "replicate 64 0"]]
  by (simp add: sha256_ops_def sha384_ops_def sha512_ops_def)

end
