(* ===== verification/Policies.thy ===== *)
theory Policies
  imports Kremlib
begin

text \<open>
  \<open>Hacl_Policies.c\<close>: declassification (the identity) and the constant-time comparison of
  two buffers that every authenticated decryption of the library relies on.
\<close>

definition Hacl_Policies_declassify_u8 :: "u8 \<Rightarrow> u8" where
  "Hacl_Policies_declassify_u8 x = x"

definition Hacl_Policies_declassify_u32 :: "u32 \<Rightarrow> u32" where
  "Hacl_Policies_declassify_u32 x = x"

definition Hacl_Policies_declassify_u64 :: "u64 \<Rightarrow> u64" where
  "Hacl_Policies_declassify_u64 x = x"

definition Hacl_Policies_declassify_u128 :: "u128 \<Rightarrow> u128" where
  "Hacl_Policies_declassify_u128 x = x"

text \<open>The loop accumulates in the one-byte buffer \<open>tmp\<close>, which it also returns.\<close>

definition Hacl_Policies_cmp_bytes' :: "bytes \<Rightarrow> bytes \<Rightarrow> u32 \<Rightarrow> bytes \<Rightarrow> bytes \<times> u8" where
  "Hacl_Policies_cmp_bytes' b1 b2 len tmp =
     (let tmp = for_loop 0 (unat len)
                  (\<lambda>i tmp. let bi1 = b1 ! i; bi2 = b2 ! i; z0 = tmp ! 0
                           in tmp[0 := FStar_UInt8_eq_mask bi1 bi2 AND z0]) tmp
      in (tmp, tmp ! 0))"

definition Hacl_Policies_cmp_bytes :: "bytes \<Rightarrow> bytes \<Rightarrow> u32 \<Rightarrow> u8" where
  "Hacl_Policies_cmp_bytes b1 b2 len =
     (let tmp = [0]; tmp = tmp[0 := 255]; (tmp, z) = Hacl_Policies_cmp_bytes' b1 b2 len tmp
      in NOT z)"

lemma cmp_bytes_loop:
  "for_loop 0 n (\<lambda>i tmp. tmp[0 := FStar_UInt8_eq_mask (b1 ! i) (b2 ! i) AND tmp ! 0]) [255]
   = [if \<forall>i < n. b1 ! i = b2 ! i then 255 else 0 :: u8]"
  by (induction n) (auto simp: for_loop_Suc eq_mask8 less_Suc_eq)

lemma take_eq_iff:
  "n \<le> length xs \<Longrightarrow> n \<le> length ys \<Longrightarrow> take n xs = take n ys \<longleftrightarrow> (\<forall>i < n. xs ! i = ys ! i)"
  by (auto simp: list_eq_iff_nth_eq)

lemma cmp_bytes_value:
  assumes "unat len \<le> length b1" and "unat len \<le> length b2"
  shows "Hacl_Policies_cmp_bytes b1 b2 len
         = (if take (unat len) b1 = take (unat len) b2 then 0 else - 1)"
  using assms
  by (simp add: Hacl_Policies_cmp_bytes_def Hacl_Policies_cmp_bytes'_def Let_def cmp_bytes_loop
        take_eq_iff)

text \<open>
  \<open>Hacl_Policies_cmp_bytes\<close> returns 0 exactly when the two buffers agree on their first
  \<open>len\<close> bytes, and 255 otherwise: no other value, whatever bytes differ.
\<close>

theorem cmp_bytes_iff:
  assumes "unat len \<le> length b1" and "unat len \<le> length b2"
  shows "(Hacl_Policies_cmp_bytes b1 b2 len = 0 \<longleftrightarrow> take (unat len) b1 = take (unat len) b2)
         \<and> Hacl_Policies_cmp_bytes b1 b2 len \<in> {0, 255}"
  using assms by (simp add: cmp_bytes_value)

theorem cmp_bytes_iff_witness:
  "(Hacl_Policies_cmp_bytes [1, 2, 3] [1, 2, 4] 3 = 0 \<longleftrightarrow> take (unat (3 :: u32)) [1, 2, 3] = take (unat (3 :: u32)) [1, 2, 4 :: u8])
   \<and> Hacl_Policies_cmp_bytes [1, 2, 3] [1, 2, 4] 3 \<in> {0, 255}"
  by (rule cmp_bytes_iff) simp_all

end
