(* ===== verification/Hmac.thy ===== *)
theory Hmac
  imports Sha2_256 Stream_Cipher
begin

text \<open>
  \<open>Hacl_HMAC_SHA2_256.c\<close>: HMAC over the block interface of SHA-256 (the hash functions in the
  file are, line for line, those of \<open>Hacl_SHA2_256.c\<close>), related to RFC 2104.
\<close>

section \<open>The code\<close>

definition Hacl_Impl_HMAC_SHA2_256_xor_bytes_inplace :: "bytes \<Rightarrow> bytes \<Rightarrow> u32 \<Rightarrow> bytes" where
  "Hacl_Impl_HMAC_SHA2_256_xor_bytes_inplace a b len =
     for_loop 0 (unat len) (\<lambda>i a. let xi = a ! i; yi = b ! i in a[i := xi XOR yi]) a"

definition Hacl_Impl_HMAC_SHA2_256_hmac_core :: "bytes \<Rightarrow> bytes \<Rightarrow> bytes \<Rightarrow> u32 \<Rightarrow> bytes" where
  "Hacl_Impl_HMAC_SHA2_256_hmac_core mac key data len =
     (let ipad = replicate 64 0x36;
          opad = replicate 64 0x5c;
          ipad = Hacl_Impl_HMAC_SHA2_256_xor_bytes_inplace ipad key 64;
          state0 = replicate 137 0;
          n0 = len div 64;
          r0 = len mod 64;
          blocks0 = data;
          last0 = drop (unat (n0 * 64)) data;
          state0 = Hacl_Impl_SHA2_256_init state0;
          state0 = Hacl_Impl_SHA2_256_update state0 ipad;
          state0 = Hacl_Impl_SHA2_256_update_multi state0 blocks0 n0;
          state0 = Hacl_Impl_SHA2_256_update_last state0 last0 r0;
          ipad = Hacl_Impl_SHA2_256_finish state0 ipad;
          s4 = ipad;
          opad = Hacl_Impl_HMAC_SHA2_256_xor_bytes_inplace opad key 64;
          state1 = replicate 137 0;
          state1 = Hacl_Impl_SHA2_256_init state1;
          state1 = Hacl_Impl_SHA2_256_update state1 opad;
          state1 = Hacl_Impl_SHA2_256_update_last state1 s4 32
      in Hacl_Impl_SHA2_256_finish state1 mac)"

definition Hacl_Impl_HMAC_SHA2_256_hmac :: "bytes \<Rightarrow> bytes \<Rightarrow> u32 \<Rightarrow> bytes \<Rightarrow> u32 \<Rightarrow> bytes" where
  "Hacl_Impl_HMAC_SHA2_256_hmac mac key keylen data datalen =
     (let nkey = replicate 64 0;
          nkey = (if keylen \<le> 64 then memcpy nkey key (unat keylen)
                  else let nkey0 = nkey in Hacl_Impl_SHA2_256_hash nkey0 key keylen)
      in Hacl_Impl_HMAC_SHA2_256_hmac_core mac nkey data datalen)"

definition Hacl_HMAC_SHA2_256_hmac_core :: "bytes \<Rightarrow> bytes \<Rightarrow> bytes \<Rightarrow> u32 \<Rightarrow> bytes" where
  "Hacl_HMAC_SHA2_256_hmac_core mac key data len = Hacl_Impl_HMAC_SHA2_256_hmac_core mac key data len"

definition Hacl_HMAC_SHA2_256_hmac :: "bytes \<Rightarrow> bytes \<Rightarrow> u32 \<Rightarrow> bytes \<Rightarrow> u32 \<Rightarrow> bytes" where
  "Hacl_HMAC_SHA2_256_hmac mac key keylen data datalen =
     Hacl_Impl_HMAC_SHA2_256_hmac mac key keylen data datalen"

section \<open>RFC 2104\<close>

definition hmac_key :: "bytes \<Rightarrow> bytes" where
  "hmac_key k = (let k' = if length k \<le> 64 then k else sha256_spec k in k' @ replicate (64 - length k') 0)"

definition hmac_block_key :: "bytes \<Rightarrow> bytes \<Rightarrow> bytes" where
  "hmac_block_key k m =
     sha256_spec (xor_bytes (replicate 64 0x5c) k @ sha256_spec (xor_bytes (replicate 64 0x36) k @ m))"

definition hmac_spec :: "bytes \<Rightarrow> bytes \<Rightarrow> bytes" where
  "hmac_spec k m = hmac_block_key (hmac_key k) m"

section \<open>Correctness\<close>

lemma xor_inplace_eq:
  assumes "unat len = length a" and "length a \<le> length b"
  shows "Hacl_Impl_HMAC_SHA2_256_xor_bytes_inplace a b len = xor_bytes a (take (length a) b)"
proof -
  have "for_loop 0 (unat len) (\<lambda>i a. let xi = a ! i; yi = b ! i in a[i := xi XOR yi]) a
      = map (\<lambda>i. a ! i XOR b ! i) [0..<length a]"
    using assms for_loop_map [of "length a" a "\<lambda>i x. x XOR b ! i"] by (simp add: Let_def)
  also have "\<dots> = xor_bytes a (take (length a) b)" using assms by (intro nth_equalityI) simp_all
  finally show ?thesis by (simp add: Hacl_Impl_HMAC_SHA2_256_xor_bytes_inplace_def)
qed

lemma length_sha256_spec [simp]: "length (sha256_spec m) = 32"
proof -
  have "length (md_fold sha256_block 64 n h m) = 8" if "length h = 8" for n h m
    using that by (induction n arbitrary: h m) (simp_all add: sha256_block_def)
  then show ?thesis by (simp add: sha256_spec_def md_hash_def sha256_h0_def)
qed

text \<open>Absorbing a first block, then hashing the rest of the message.\<close>

lemma keyed_hash:
  assumes "length p = 64" and "unat len \<le> length data" and "32 \<le> length out"
  shows "Hacl_Impl_SHA2_256_finish
           (Hacl_Impl_SHA2_256_update_last
             (Hacl_Impl_SHA2_256_update_multi
               (Hacl_Impl_SHA2_256_update (Hacl_Impl_SHA2_256_init (replicate 137 0)) p) data (len div 64))
             (drop (unat (len div 64 * 64)) data) (len mod 64)) out
         = sha256_spec (p @ take (unat len) data) @ drop 32 out"
proof -
  define n r where "n = unat len div 64" and "r = unat len mod 64"
  have nr: "unat len = 64 * n + r" "r < 64" by (simp_all add: n_def r_def)
  have un: "unat (len div 64) = n" "unat (len mod 64) = r"
    by (simp_all add: n_def r_def unat_div unat_mod)
  have bound: "64 * n < 2 ^ 32" using unat_bound [of len] nr by simp
  have o64: "unat (len div 64 * 64) = 64 * n" using bound un by (subst unat_times) simp_all
  let ?u = "Hacl_Impl_SHA2_256_update (Hacl_Impl_SHA2_256_init (replicate 137 0)) p"
  let ?s = "Hacl_Impl_SHA2_256_update_multi ?u data (len div 64)"
  have i: "sha256_ok (Hacl_Impl_SHA2_256_init (replicate 137 0))"
    "sha256_chain (Hacl_Impl_SHA2_256_init (replicate 137 0)) = sha256_h0"
    "sha256_blocks (Hacl_Impl_SHA2_256_init (replicate 137 0)) = 0"
    by (rule sha256_init_ok; simp)+
  have u: "sha256_ok ?u" "sha256_chain ?u = md_fold sha256_block 64 1 sha256_h0 p" "sha256_blocks ?u = 1"
    using sha256_update_step [OF i(1), of p] i assms(1) by simp_all
  have s: "sha256_ok ?s" "sha256_chain ?s
      = md_fold sha256_block 64 n (md_fold sha256_block 64 1 sha256_h0 p) (take (64 * n) data)"
    "sha256_blocks ?s = 1 + n"
    using sha256_multi [OF u(1), of "len div 64" data] u bound assms(2) nr un
    by (simp_all add: md_fold_take)
  have "sha256_chain ?s = md_fold sha256_block 64 (1 + n) sha256_h0 (p @ take (64 * n) data)"
    unfolding s(2) using assms(1) by (intro md_fold_append [symmetric]) simp
  note last = sha256_last [OF s(1) this _ s(3), of "len mod 64" "drop (64 * n) data" out]
  have "take (unat len) data = take (64 * n) data @ take r (drop (64 * n) data)"
    by (simp only: nr(1) take_add)
  then show ?thesis unfolding o64 using last bound nr assms un by simp
qed

lemma hmac_core_eq:
  assumes "length k = 64" and "unat len \<le> length data" and "32 \<le> length mac"
  shows "Hacl_Impl_HMAC_SHA2_256_hmac_core mac k data len
         = hmac_block_key k (take (unat len) data) @ drop 32 mac"
proof -
  let ?ip = "xor_bytes (replicate 64 0x36) k" and ?op = "xor_bytes (replicate 64 0x5c) k"
  let ?h = "sha256_spec (?ip @ take (unat len) data)"
  have ip: "Hacl_Impl_HMAC_SHA2_256_xor_bytes_inplace (replicate 64 0x36) k 64 = ?ip"
    "Hacl_Impl_HMAC_SHA2_256_xor_bytes_inplace (replicate 64 0x5c) k 64 = ?op"
    using assms(1) by (simp_all add: xor_inplace_eq)
  have l: "length ?ip = 64" "length ?op = 64" using assms(1) by simp_all
  have inner: "Hacl_Impl_SHA2_256_finish
           (Hacl_Impl_SHA2_256_update_last
             (Hacl_Impl_SHA2_256_update_multi
               (Hacl_Impl_SHA2_256_update (Hacl_Impl_SHA2_256_init (replicate 137 0)) ?ip) data (len div 64))
             (drop (unat (len div 64 * 64)) data) (len mod 64)) ?ip = ?h @ drop 32 ?ip"
    using keyed_hash [OF l(1) assms(2), of ?ip] l by simp
  have none: "Hacl_Impl_SHA2_256_update_multi s d 0 = s" for s d
    by (simp add: Hacl_Impl_SHA2_256_update_multi_def)
  have "32 div 64 = (0 :: u32)" "32 mod 64 = (32 :: u32)"
    by (rule word_unatI; simp add: unat_div unat_mod)+
  then have outer: "Hacl_Impl_SHA2_256_finish
           (Hacl_Impl_SHA2_256_update_last
               (Hacl_Impl_SHA2_256_update (Hacl_Impl_SHA2_256_init (replicate 137 0)) ?op)
             (?h @ drop 32 ?ip) 32) mac = sha256_spec (?op @ ?h) @ drop 32 mac"
    using keyed_hash [OF l(2), of 32 "?h @ drop 32 ?ip" mac] assms(3) by (simp add: none)
  show ?thesis
    by (simp only: Hacl_Impl_HMAC_SHA2_256_hmac_core_def Let_def ip inner outer hmac_block_key_def)
qed

section \<open>Properties\<close>

text \<open>
  C25: The message authentication code is HMAC-SHA-256 of RFC 2104 for every key length (longer
  keys than a block are hashed first) and every data length that fits 32 bits.
\<close>

theorem hmac_correct:
  assumes "unat keylen \<le> length key" and "unat datalen \<le> length data" and "32 \<le> length mac"
  shows "Hacl_HMAC_SHA2_256_hmac mac key keylen data datalen
         = hmac_spec (take (unat keylen) key) (take (unat datalen) data) @ drop 32 mac"
proof -
  let ?k = "take (unat keylen) key"
  let ?n = "if keylen \<le> 64 then memcpy (replicate 64 0) key (unat keylen)
            else Hacl_Impl_SHA2_256_hash (replicate 64 0) key keylen"
  have k: "?n = hmac_key ?k"
    using assms(1) sha256_hash_eq [of keylen key "replicate 64 0"]
    by (auto simp: hmac_key_def Let_def memcpy_def word_le_nat_alt Hacl_SHA2_256_hash_def)
  have "Hacl_HMAC_SHA2_256_hmac mac key keylen data datalen
      = Hacl_Impl_HMAC_SHA2_256_hmac_core mac (hmac_key ?k) data datalen"
    by (simp only: Hacl_HMAC_SHA2_256_hmac_def Hacl_Impl_HMAC_SHA2_256_hmac_def Let_def k)
  moreover have "length (hmac_key ?k) = 64" by (simp add: hmac_key_def Let_def)
  ultimately show ?thesis using assms(2,3) by (simp add: hmac_core_eq hmac_spec_def)
qed

theorem hmac_correct_witness:
  "Hacl_HMAC_SHA2_256_hmac (replicate 32 0) (replicate 70 1) 70 [1, 2, 3] 2
   = hmac_spec (replicate 70 1) [1, 2]"
  using hmac_correct [of 70 "replicate 70 1" 2 "[1, 2, 3]" "replicate 32 0"] by simp

end
