(* ===== verification/C_Loops.thy ===== *)
theory C_Loops
  imports Policies Salsa20 Chacha20_Vec128 Sha2_384 Hmac "HOL-Library.While_Combinator"
begin

text \<open>
  The loops of the C code whose bound is an argument of the function.  The theories of the
  components write \<open>for (uint32_t i = lo; i < hi; i = i + 1) body\<close> as a fold over the
  numbers from \<open>lo\<close> to \<open>hi - 1\<close>; here the loop is the \<open>while\<close> loop of the source on a machine
  counter, whose increment wraps.  Each of them ends, with the counter at its bound and the
  buffers the fold computes.
\<close>

definition c_for :: "'a::len word \<Rightarrow> 'a word \<Rightarrow> ('a word \<Rightarrow> 's \<Rightarrow> 's) \<Rightarrow> 's \<Rightarrow> ('a word \<times> 's) option" where
  "c_for lo hi body s = while_option (\<lambda>(i, s). i < hi) (\<lambda>(i, s). (i + 1, body i s)) (lo, s)"

lemma c_for_step: "c_for lo hi body s = (if lo < hi then c_for (lo + 1) hi body (body lo s) else Some (lo, s))"
  unfolding c_for_def by (subst while_option_unfold) simp

text \<open>The counter does not wrap: the loop stops at \<open>hi\<close>, at most the largest word.\<close>

lemma c_for_eq:
  "lo \<le> hi \<Longrightarrow>
   c_for lo hi body s = Some (hi, for_loop (unat lo) (unat hi) (\<lambda>i. body (word_of_nat i)) s)"
proof (induction "unat hi - unat lo" arbitrary: lo s)
  case 0
  then have "lo = hi" by (simp add: word_le_nat_alt word_unatI)
  then show ?case by (subst c_for_step) simp
next
  case (Suc d)
  then have lt: "lo < hi" by (simp add: word_less_nat_alt)
  have "unat lo + unat (1 :: 'a word) < 2 ^ LENGTH('a)"
    using unat_bound [of hi] lt unfolding word_less_nat_alt unat_1 by linarith
  then have n: "unat (lo + 1) = Suc (unat lo)" by (simp add: unat_plus)
  then have "c_for (lo + 1) hi body (body lo s)
      = Some (hi, for_loop (unat (lo + 1)) (unat hi) (\<lambda>i. body (word_of_nat i)) (body lo s))"
    using Suc.hyps(2) lt by (intro Suc.hyps(1)) (simp_all add: word_le_nat_alt word_less_nat_alt)
  then show ?case
    using lt by (subst c_for_step) (simp add: n for_loop_first word_less_nat_alt)
qed

lemma c_for_bytes: "c_for 0 hi body s = Some (hi, for_loop 0 (unat hi) (\<lambda>i. body (word_of_nat i)) s)"
  using c_for_eq [of 0 hi body s] by simp

text \<open>Inside the bound the index of the fold is the counter.\<close>

lemma loop_index: "i < unat (n :: u32) \<Longrightarrow> unat (word_of_nat i :: u32) = i"
  using unat_bound [of n] by (simp add: unat_of_nat)

lemma loop_offset: "unat (64 * word_of_nat i :: u32) = off32 64 i" "unat (word_of_nat i * 64 :: u32) = off32 64 i"
    "unat (word_of_nat i * 128 :: u32) = off32 128 i"
  by (simp_all add: off32_def mult.commute)

lemma loop_index64: "i < unat (n :: u32) \<Longrightarrow> ucast (word_of_nat i :: u32) = (word_of_nat i :: u64)"
  using unat_bound [of n] by (intro word_unatI) (simp add: unat_ucast_same_or_up unat_of_nat)

lemma loop_result: "s = t \<Longrightarrow> Some (n, s) = Some (n, t)"
  by simp

text \<open>
  The loops over the bytes of HMAC and of the comparison, and over the blocks of a message in the
  ciphers and the hashes, with 32-bit pointer offsets.
\<close>

lemma byte_loops:
  "c_for 0 (n :: u32) (\<lambda>i a. a[unat i := a ! unat i XOR key ! unat i]) output
   = Some (n, Hacl_Impl_HMAC_SHA2_256_xor_bytes_inplace output key n)"
  "c_for 0 (n :: u32) (\<lambda>i t. t[0 := FStar_UInt8_eq_mask (plain ! unat i) (key ! unat i) AND t ! 0]) output
   = Some (n, fst (Hacl_Policies_cmp_bytes' plain key n output))"
  unfolding c_for_bytes Hacl_Impl_HMAC_SHA2_256_xor_bytes_inplace_def Hacl_Policies_cmp_bytes'_def Let_def fst_conv
  by (intro loop_result for_loop_cong,
      simp add: loop_index)+

lemma block_loops:
  fixes n :: u32
  shows "c_for 0 n (\<lambda>i. at_ptr_st (unat (64 * i))
       (\<lambda>o' st. Hacl_Impl_Chacha20_update o' (drop (unat (64 * i)) plain) st (ctr + i))) (output, st)
     = Some (n, Hacl_Impl_Chacha20_chacha20_counter_mode_blocks output plain n st ctr)"
    and "c_for 0 n (\<lambda>i. at_ptr_st (unat (64 * i))
       (\<lambda>o' st. Hacl_Impl_Salsa20_update o' (drop (unat (64 * i)) plain) st (ctr64 + ucast i))) (output, st)
     = Some (n, Hacl_Impl_Salsa20_salsa20_counter_mode_blocks output plain n st ctr64)"
    and "c_for 0 n (\<lambda>i (output, v). Hacl_Impl_Chacha20_Vec128_update3' output plain n v i) (output, v)
     = Some (n, Hacl_Impl_Chacha20_Vec128_chacha20_counter_mode_blocks3 output plain n v)"
    and "c_for 0 n (\<lambda>i s. Hacl_Impl_SHA2_256_update s (drop (unat (i * 64)) plain)) st
     = Some (n, Hacl_Impl_SHA2_256_update_multi st plain n)"
    and "c_for 0 n (\<lambda>i s. Hacl_Impl_SHA2_512_update s (drop (unat (i * 128)) plain)) w
     = Some (n, Hacl_Impl_SHA2_512_update_multi w plain n)"
    and "c_for 0 n (\<lambda>i s. Hacl_Impl_SHA2_384_update s (drop (unat (i * 128)) plain)) w
     = Some (n, Hacl_Impl_SHA2_384_update_multi w plain n)"
  unfolding c_for_bytes loop_offset Hacl_Impl_Chacha20_chacha20_counter_mode_blocks_def
    Hacl_Impl_Salsa20_salsa20_counter_mode_blocks_def Hacl_Impl_Chacha20_Vec128_chacha20_counter_mode_blocks3_def
    Hacl_Impl_SHA2_256_update_multi_def Hacl_Impl_SHA2_512_update_multi_def Hacl_Impl_SHA2_384_update_multi_def
  by (intro loop_result for_loop_cong,
      simp add: loop_index64)+

end
