(* ===== verification/Authenticated.thy ===== *)
theory Authenticated
  imports Prelude
begin

text \<open>
  Encrypt-then-MAC, the construction behind ChaCha20-Poly1305 and the secret boxes of NaCl.
  The locale \<open>encrypt_then_mac\<close> states what the construction needs from the cipher and the
  authenticator; its lemmas are the contract of an authenticated cipher and hold for both
  through their interpretations.
\<close>

text \<open>Sealing returns ciphertext and tag; opening checks the tag first.\<close>

definition seal ::
    "('k \<Rightarrow> bytes \<Rightarrow> bytes) \<Rightarrow> ('k \<Rightarrow> bytes \<Rightarrow> bytes \<Rightarrow> bytes) \<Rightarrow> 'k \<Rightarrow> bytes \<Rightarrow> bytes \<Rightarrow> bytes \<times> bytes" where
  "seal enc tag k ad m = (let c = enc k m in (c, tag k ad c))"

definition unseal ::
    "('k \<Rightarrow> bytes \<Rightarrow> bytes) \<Rightarrow> ('k \<Rightarrow> bytes \<Rightarrow> bytes \<Rightarrow> bytes) \<Rightarrow> 'k \<Rightarrow> bytes \<Rightarrow> bytes \<Rightarrow> bytes \<Rightarrow> bytes option" where
  "unseal enc tag k ad c t = (if t = tag k ad c then Some (enc k c) else None)"

locale encrypt_then_mac =
  fixes enc :: "'k \<Rightarrow> bytes \<Rightarrow> bytes"
    and tag :: "'k \<Rightarrow> bytes \<Rightarrow> bytes \<Rightarrow> bytes"
  assumes enc_enc: "enc k (enc k m) = m"
    and length_enc: "length (enc k m) = length m"
    and length_tag: "length (tag k ad c) = 16"
begin

lemma unseal_seal: "seal enc tag k ad m = (c, t) \<Longrightarrow> unseal enc tag k ad c t = Some m"
  by (auto simp: seal_def unseal_def Let_def enc_enc)

text \<open>Only what was sealed is accepted, and only with its own plaintext.\<close>

lemma unseal_iff: "unseal enc tag k ad c t = Some m \<longleftrightarrow> seal enc tag k ad m = (c, t)"
  by (auto simp: seal_def unseal_def Let_def enc_enc)

lemma unseal_reject: "t \<noteq> snd (seal enc tag k ad m) \<Longrightarrow> unseal enc tag k ad (fst (seal enc tag k ad m)) t = None"
  by (simp add: seal_def unseal_def Let_def)

lemma length_seal: "length (fst (seal enc tag k ad m)) = length m" "length (snd (seal enc tag k ad m)) = 16"
  by (simp_all add: seal_def Let_def length_enc length_tag)

lemma seal_inj: "seal enc tag k ad m = seal enc tag k ad m' \<Longrightarrow> m = m'"
  by (metis enc_enc fst_conv seal_def)

end

end
