(* ===== verification/NaCl.thy ===== *)
theory NaCl
  imports Salsa20 Poly1305_64 Policies Authenticated X25519
begin

text \<open>
  \<open>NaCl.c\<close>: secret boxes (XSalsa20 with Poly1305) and boxes (the same under a key derived from
  a Curve25519 exchange), in the zero-padded convention of NaCl: message and ciphertext buffers
  start with 32 bytes that are zero, and the easy functions keep the tag in bytes 16 to 31.

  A function that writes several buffers returns them, in the order of its arguments, followed
  by its return code.
\<close>

section \<open>Secret boxes\<close>

definition Hacl_SecretBox_ZeroPad_set_zero_bytes :: "bytes \<Rightarrow> bytes" where
  "Hacl_SecretBox_ZeroPad_set_zero_bytes b =
     (let zero1 = 0 in
      b[0 := zero1, 1 := zero1, 2 := zero1, 3 := zero1, 4 := zero1, 5 := zero1, 6 := zero1, 7 := zero1,
        8 := zero1, 9 := zero1, 10 := zero1, 11 := zero1, 12 := zero1, 13 := zero1, 14 := zero1, 15 := zero1,
        16 := zero1, 17 := zero1, 18 := zero1, 19 := zero1, 20 := zero1, 21 := zero1, 22 := zero1, 23 := zero1,
        24 := zero1, 25 := zero1, 26 := zero1, 27 := zero1, 28 := zero1, 29 := zero1, 30 := zero1, 31 := zero1])"

definition Hacl_SecretBox_ZeroPad_crypto_secretbox_detached ::
    "bytes \<Rightarrow> bytes \<Rightarrow> bytes \<Rightarrow> u64 \<Rightarrow> bytes \<Rightarrow> bytes \<Rightarrow> bytes \<times> bytes \<times> u32" where
  "Hacl_SecretBox_ZeroPad_crypto_secretbox_detached c mac m mlen n1 k1 =
     (let mlen' = (ucast mlen :: u32);
          subkey = replicate 32 0;
          subkey = Hacl_Salsa20_hsalsa20 subkey k1 n1;
          c = Hacl_Salsa20_salsa20 c m (mlen' + 32) subkey (drop 16 n1) 0;
          mac = Hacl_Poly1305_64_crypto_onetimeauth mac (drop 32 c) mlen c;
          c = Hacl_SecretBox_ZeroPad_set_zero_bytes c;
          subkey = Hacl_SecretBox_ZeroPad_set_zero_bytes subkey
      in (c, mac, 0))"

text \<open>Returns \<open>m\<close>, \<open>subkey\<close> and the code.\<close>

definition Hacl_SecretBox_ZeroPad_crypto_secretbox_open_detached_decrypt ::
    "bytes \<Rightarrow> bytes \<Rightarrow> u64 \<Rightarrow> bytes \<Rightarrow> bytes \<Rightarrow> u8 \<Rightarrow> bytes \<times> bytes \<times> u32" where
  "Hacl_SecretBox_ZeroPad_crypto_secretbox_open_detached_decrypt m c clen n1 subkey verify =
     (let clen' = (ucast clen :: u32) in
      if verify = 0 then
        let m = Hacl_Salsa20_salsa20 m c (clen' + 32) subkey (drop 16 n1) 0;
            subkey = Hacl_SecretBox_ZeroPad_set_zero_bytes subkey;
            m = Hacl_SecretBox_ZeroPad_set_zero_bytes m
        in (m, subkey, 0)
      else (m, subkey, 0xffffffff))"

text \<open>The buffer \<open>tmp\<close> holds \<open>subkey\<close>, \<open>mackey\<close>, \<open>mackey_\<close> and \<open>cmac\<close> at offsets 0, 32, 64 and 96.\<close>

definition Hacl_SecretBox_ZeroPad_crypto_secretbox_open_detached ::
    "bytes \<Rightarrow> bytes \<Rightarrow> bytes \<Rightarrow> u64 \<Rightarrow> bytes \<Rightarrow> bytes \<Rightarrow> bytes \<times> u32" where
  "Hacl_SecretBox_ZeroPad_crypto_secretbox_open_detached m c mac clen n1 k1 =
     (let tmp = replicate 112 0;
          tmp = at_ptr 0 (\<lambda>subkey. Hacl_Salsa20_hsalsa20 subkey k1 n1) tmp;
          tmp = at_ptr 32 (\<lambda>mackey. Hacl_Salsa20_salsa20 mackey (drop 64 tmp) 32 tmp (drop 16 n1) 0) tmp;
          tmp = at_ptr 96 (\<lambda>cmac. Hacl_Poly1305_64_crypto_onetimeauth cmac (drop 32 c) clen (drop 32 tmp)) tmp;
          result = Hacl_Policies_cmp_bytes mac (drop 96 tmp) 16;
          verify = result;
          (m, tmp, z) = Hacl_SecretBox_ZeroPad_crypto_secretbox_open_detached_decrypt m c clen n1 tmp verify
      in (m, z))"

definition Hacl_SecretBox_ZeroPad_crypto_secretbox_easy ::
    "bytes \<Rightarrow> bytes \<Rightarrow> u64 \<Rightarrow> bytes \<Rightarrow> bytes \<Rightarrow> bytes \<times> u32" where
  "Hacl_SecretBox_ZeroPad_crypto_secretbox_easy c m mlen n1 k1 =
     (let cmac = replicate 16 0;
          (c, cmac, res) = Hacl_SecretBox_ZeroPad_crypto_secretbox_detached c cmac m mlen n1 k1;
          c = at_ptr 16 (\<lambda>p. memcpy p cmac 16) c
      in (c, res))"

definition Hacl_SecretBox_ZeroPad_crypto_secretbox_open_easy ::
    "bytes \<Rightarrow> bytes \<Rightarrow> u64 \<Rightarrow> bytes \<Rightarrow> bytes \<Rightarrow> bytes \<times> u32" where
  "Hacl_SecretBox_ZeroPad_crypto_secretbox_open_easy m c clen n1 k1 =
     (let mac = c in Hacl_SecretBox_ZeroPad_crypto_secretbox_open_detached m c mac clen n1 k1)"

section \<open>Boxes\<close>

text \<open>The shared secret and the zero nonce of the key derivation lie in one buffer.\<close>

definition Hacl_Box_ZeroPad_crypto_box_beforenm :: "bytes \<Rightarrow> bytes \<Rightarrow> bytes \<Rightarrow> bytes \<times> u32" where
  "Hacl_Box_ZeroPad_crypto_box_beforenm k1 pk sk =
     (let tmp = replicate 48 0;
          tmp = at_ptr 0 (\<lambda>hsalsa_k. Hacl_Curve25519_crypto_scalarmult hsalsa_k sk pk) tmp;
          k1 = Hacl_Salsa20_hsalsa20 k1 tmp (drop 32 tmp)
      in (k1, 0))"

definition Hacl_Box_ZeroPad_crypto_box_detached_afternm ::
    "bytes \<Rightarrow> bytes \<Rightarrow> bytes \<Rightarrow> u64 \<Rightarrow> bytes \<Rightarrow> bytes \<Rightarrow> bytes \<times> bytes \<times> u32" where
  "Hacl_Box_ZeroPad_crypto_box_detached_afternm c mac m mlen n1 k1 =
     Hacl_SecretBox_ZeroPad_crypto_secretbox_detached c mac m mlen n1 k1"

definition Hacl_Box_ZeroPad_crypto_box_detached ::
    "bytes \<Rightarrow> bytes \<Rightarrow> bytes \<Rightarrow> u64 \<Rightarrow> bytes \<Rightarrow> bytes \<Rightarrow> bytes \<Rightarrow> bytes \<times> bytes \<times> u32" where
  "Hacl_Box_ZeroPad_crypto_box_detached c mac m mlen n1 pk sk =
     (let key = replicate 80 0;
          key = at_ptr 0 (\<lambda>k1. Hacl_Curve25519_crypto_scalarmult k1 sk pk) key;
          key = at_ptr 32 (\<lambda>subkey. Hacl_Salsa20_hsalsa20 subkey key (drop 64 key)) key
      in Hacl_SecretBox_ZeroPad_crypto_secretbox_detached c mac m mlen n1 (drop 32 key))"

definition Hacl_Box_ZeroPad_crypto_box_open_detached ::
    "bytes \<Rightarrow> bytes \<Rightarrow> bytes \<Rightarrow> u64 \<Rightarrow> bytes \<Rightarrow> bytes \<Rightarrow> bytes \<Rightarrow> bytes \<times> u32" where
  "Hacl_Box_ZeroPad_crypto_box_open_detached m c mac mlen n1 pk sk =
     (let key = replicate 80 0;
          key = at_ptr 0 (\<lambda>k1. Hacl_Curve25519_crypto_scalarmult k1 sk pk) key;
          key = at_ptr 32 (\<lambda>subkey. Hacl_Salsa20_hsalsa20 subkey key (drop 64 key)) key
      in Hacl_SecretBox_ZeroPad_crypto_secretbox_open_detached m c mac mlen n1 (drop 32 key))"

definition Hacl_Box_ZeroPad_crypto_box_easy_afternm ::
    "bytes \<Rightarrow> bytes \<Rightarrow> u64 \<Rightarrow> bytes \<Rightarrow> bytes \<Rightarrow> bytes \<times> u32" where
  "Hacl_Box_ZeroPad_crypto_box_easy_afternm c m mlen n1 k1 =
     (let cmac = replicate 16 0;
          (c, cmac, z) = Hacl_Box_ZeroPad_crypto_box_detached_afternm c cmac m mlen n1 k1;
          c = at_ptr 16 (\<lambda>p. memcpy p cmac 16) c
      in (c, z))"

definition Hacl_Box_ZeroPad_crypto_box_easy ::
    "bytes \<Rightarrow> bytes \<Rightarrow> u64 \<Rightarrow> bytes \<Rightarrow> bytes \<Rightarrow> bytes \<Rightarrow> bytes \<times> u32" where
  "Hacl_Box_ZeroPad_crypto_box_easy c m mlen n1 pk sk =
     (let cmac = replicate 16 0;
          (c, cmac, res) = Hacl_Box_ZeroPad_crypto_box_detached c cmac m mlen n1 pk sk;
          c = at_ptr 16 (\<lambda>p. memcpy p cmac 16) c
      in (c, res))"

definition Hacl_Box_ZeroPad_crypto_box_open_easy ::
    "bytes \<Rightarrow> bytes \<Rightarrow> u64 \<Rightarrow> bytes \<Rightarrow> bytes \<Rightarrow> bytes \<Rightarrow> bytes \<times> u32" where
  "Hacl_Box_ZeroPad_crypto_box_open_easy m c mlen n1 pk sk =
     (let mac = drop 16 c in Hacl_Box_ZeroPad_crypto_box_open_detached m c mac mlen n1 pk sk)"

definition Hacl_Box_ZeroPad_crypto_box_open_detached_afternm ::
    "bytes \<Rightarrow> bytes \<Rightarrow> bytes \<Rightarrow> u64 \<Rightarrow> bytes \<Rightarrow> bytes \<Rightarrow> bytes \<times> u32" where
  "Hacl_Box_ZeroPad_crypto_box_open_detached_afternm m c mac mlen n1 k1 =
     Hacl_SecretBox_ZeroPad_crypto_secretbox_open_detached m c mac mlen n1 k1"

definition Hacl_Box_ZeroPad_crypto_box_open_easy_afternm ::
    "bytes \<Rightarrow> bytes \<Rightarrow> u64 \<Rightarrow> bytes \<Rightarrow> bytes \<Rightarrow> bytes \<times> u32" where
  "Hacl_Box_ZeroPad_crypto_box_open_easy_afternm m c mlen n1 k1 =
     (let mac = drop 16 c in Hacl_Box_ZeroPad_crypto_box_open_detached_afternm m c mac mlen n1 k1)"

section \<open>The exported functions\<close>

definition NaCl_crypto_secretbox_detached ::
    "bytes \<Rightarrow> bytes \<Rightarrow> bytes \<Rightarrow> u64 \<Rightarrow> bytes \<Rightarrow> bytes \<Rightarrow> bytes \<times> bytes \<times> u32" where
  "NaCl_crypto_secretbox_detached c mac m mlen n1 k1 =
     Hacl_SecretBox_ZeroPad_crypto_secretbox_detached c mac m mlen n1 k1"

definition NaCl_crypto_secretbox_open_detached ::
    "bytes \<Rightarrow> bytes \<Rightarrow> bytes \<Rightarrow> u64 \<Rightarrow> bytes \<Rightarrow> bytes \<Rightarrow> bytes \<times> u32" where
  "NaCl_crypto_secretbox_open_detached m c mac clen n1 k1 =
     Hacl_SecretBox_ZeroPad_crypto_secretbox_open_detached m c mac clen n1 k1"

definition NaCl_crypto_secretbox_easy :: "bytes \<Rightarrow> bytes \<Rightarrow> u64 \<Rightarrow> bytes \<Rightarrow> bytes \<Rightarrow> bytes \<times> u32" where
  "NaCl_crypto_secretbox_easy c m mlen n1 k1 = Hacl_SecretBox_ZeroPad_crypto_secretbox_easy c m mlen n1 k1"

definition NaCl_crypto_secretbox_open_easy :: "bytes \<Rightarrow> bytes \<Rightarrow> u64 \<Rightarrow> bytes \<Rightarrow> bytes \<Rightarrow> bytes \<times> u32" where
  "NaCl_crypto_secretbox_open_easy m c clen n1 k1 =
     Hacl_SecretBox_ZeroPad_crypto_secretbox_open_easy m c clen n1 k1"

definition NaCl_crypto_box_beforenm :: "bytes \<Rightarrow> bytes \<Rightarrow> bytes \<Rightarrow> bytes \<times> u32" where
  "NaCl_crypto_box_beforenm k1 pk sk = Hacl_Box_ZeroPad_crypto_box_beforenm k1 pk sk"

definition NaCl_crypto_box_detached_afternm ::
    "bytes \<Rightarrow> bytes \<Rightarrow> bytes \<Rightarrow> u64 \<Rightarrow> bytes \<Rightarrow> bytes \<Rightarrow> bytes \<times> bytes \<times> u32" where
  "NaCl_crypto_box_detached_afternm c mac m mlen n1 k1 =
     Hacl_Box_ZeroPad_crypto_box_detached_afternm c mac m mlen n1 k1"

definition NaCl_crypto_box_detached ::
    "bytes \<Rightarrow> bytes \<Rightarrow> bytes \<Rightarrow> u64 \<Rightarrow> bytes \<Rightarrow> bytes \<Rightarrow> bytes \<Rightarrow> bytes \<times> bytes \<times> u32" where
  "NaCl_crypto_box_detached c mac m mlen n1 pk sk =
     Hacl_Box_ZeroPad_crypto_box_detached c mac m mlen n1 pk sk"

definition NaCl_crypto_box_open_detached ::
    "bytes \<Rightarrow> bytes \<Rightarrow> bytes \<Rightarrow> u64 \<Rightarrow> bytes \<Rightarrow> bytes \<Rightarrow> bytes \<Rightarrow> bytes \<times> u32" where
  "NaCl_crypto_box_open_detached m c mac mlen n1 pk sk =
     Hacl_Box_ZeroPad_crypto_box_open_detached m c mac mlen n1 pk sk"

definition NaCl_crypto_box_easy_afternm :: "bytes \<Rightarrow> bytes \<Rightarrow> u64 \<Rightarrow> bytes \<Rightarrow> bytes \<Rightarrow> bytes \<times> u32" where
  "NaCl_crypto_box_easy_afternm c m mlen n1 k1 = Hacl_Box_ZeroPad_crypto_box_easy_afternm c m mlen n1 k1"

definition NaCl_crypto_box_easy ::
    "bytes \<Rightarrow> bytes \<Rightarrow> u64 \<Rightarrow> bytes \<Rightarrow> bytes \<Rightarrow> bytes \<Rightarrow> bytes \<times> u32" where
  "NaCl_crypto_box_easy c m mlen n1 pk sk = Hacl_Box_ZeroPad_crypto_box_easy c m mlen n1 pk sk"

definition NaCl_crypto_box_open_easy ::
    "bytes \<Rightarrow> bytes \<Rightarrow> u64 \<Rightarrow> bytes \<Rightarrow> bytes \<Rightarrow> bytes \<Rightarrow> bytes \<times> u32" where
  "NaCl_crypto_box_open_easy m c mlen n1 pk sk = Hacl_Box_ZeroPad_crypto_box_open_easy m c mlen n1 pk sk"

definition NaCl_crypto_box_open_detached_afternm ::
    "bytes \<Rightarrow> bytes \<Rightarrow> bytes \<Rightarrow> u64 \<Rightarrow> bytes \<Rightarrow> bytes \<Rightarrow> bytes \<times> u32" where
  "NaCl_crypto_box_open_detached_afternm m c mac mlen n1 k1 =
     Hacl_Box_ZeroPad_crypto_box_open_detached_afternm m c mac mlen n1 k1"

definition NaCl_crypto_box_open_easy_afternm :: "bytes \<Rightarrow> bytes \<Rightarrow> u64 \<Rightarrow> bytes \<Rightarrow> bytes \<Rightarrow> bytes \<times> u32" where
  "NaCl_crypto_box_open_easy_afternm m c mlen n1 k1 =
     Hacl_Box_ZeroPad_crypto_box_open_easy_afternm m c mlen n1 k1"

definition xsalsa_blk :: "bytes \<times> bytes \<Rightarrow> u64 \<Rightarrow> bytes" where
  "xsalsa_blk = (\<lambda>(k, n). salsa20_block_spec (hsalsa20_spec k n) (drop 16 n))"

definition box_enc :: "bytes \<times> bytes \<Rightarrow> bytes \<Rightarrow> bytes" where
  "box_enc kn m = drop 32 (ctr_encrypt (xsalsa_blk kn) 0 (replicate 32 0 @ m))"

definition box_tag :: "bytes \<times> bytes \<Rightarrow> bytes \<Rightarrow> bytes \<Rightarrow> bytes" where
  "box_tag kn ad c = poly1305_mac c (take 32 (xsalsa_blk kn 0))"

lemma length_xsalsa_blk [simp]: "length (xsalsa_blk kn c) = 64"
  by (simp add: xsalsa_blk_def split_beta)

lemma ctr_encrypt_pad:
  "ctr_encrypt (xsalsa_blk kn) 0 (replicate 32 0 @ m) = take 32 (xsalsa_blk kn 0) @ box_enc kn m"
proof -
  let ?e = "ctr_encrypt (xsalsa_blk kn) 0 (replicate 32 0 @ m)"
  let ?n = "(length (replicate 32 0 @ m) + 63) div 64"
  have "Suc (?n - 1) = ?n" by simp
  then have "keystream (xsalsa_blk kn) 0 ?n = keystream (xsalsa_blk kn) 0 (1 + (?n - 1))" by simp
  then have "take 32 (keystream (xsalsa_blk kn) 0 ?n) = take 32 (xsalsa_blk kn 0)"
    by (simp only: keystream_plus) (simp add: keystream_def)
  then have "take 32 ?e = xor_bytes (replicate 32 0) (take 32 (xsalsa_blk kn 0))"
    by (simp add: ctr_encrypt_def take_xor_bytes)
  also have "\<dots> = take 32 (xsalsa_blk kn 0)" by (rule nth_equalityI) simp_all
  finally show ?thesis by (metis append_take_drop_id box_enc_def)
qed

lemma box_enc_keystream:
  "box_enc kn m = xor_bytes m (drop 32 (keystream (xsalsa_blk kn) 0 ((length m + 95) div 64)))"
  by (simp add: box_enc_def ctr_encrypt_def drop_xor_bytes add.commute)

lemma length_box_enc [simp]: "length (box_enc kn m) = length m"
  by (simp add: box_enc_def)

lemma box_enc_twice: "box_enc kn (box_enc kn m) = m"
proof -
  have "length m \<le> length (drop 32 (keystream (xsalsa_blk kn) 0 ((length m + 95) div 64)))"
    by (simp add: length_keystream)
  then have "xor_bytes (xor_bytes m (drop 32 (keystream (xsalsa_blk kn) 0 ((length m + 95) div 64))))
     (drop 32 (keystream (xsalsa_blk kn) 0 ((length m + 95) div 64))) = m"
    by (rule xor_bytes_twice)
  then show ?thesis using length_box_enc [of kn m] by (simp only: box_enc_keystream)
qed

interpretation secretbox: encrypt_then_mac box_enc box_tag
  by unfold_locales (simp_all add: box_enc_twice box_tag_def)

lemma set_zero_eq:
  assumes "32 \<le> length b"
  shows "Hacl_SecretBox_ZeroPad_set_zero_bytes b = replicate 32 0 @ drop 32 b"
proof -
  have "length (take 32 b) = 32" using assms by simp
  moreover obtain y where "y = drop 32 b" by blast
  moreover have "b = take 32 b @ drop 32 b" by simp
  ultimately have "\<exists>x y. length x = 32 \<and> b = x @ y" by blast
  then obtain x y where b: "length x = 32" "b = x @ y" by blast
  show ?thesis unfolding Hacl_SecretBox_ZeroPad_set_zero_bytes_def Let_def b(2) using b(1)
    by (auto simp: numeral_eq_Suc length_Suc_conv)
qed
section \<open>What the operations compute\<close>

text \<open>The padded message: 32 zero bytes, then the message.\<close>

definition padded :: "u64 \<Rightarrow> bytes \<Rightarrow> bool" where
  "padded mlen m \<longleftrightarrow> unat mlen + 32 < 2 ^ 32 \<and> length m = unat mlen + 32 \<and> take 32 m = replicate 32 0"

lemma padded_eq: "padded mlen m \<Longrightarrow> m = replicate 32 0 @ drop 32 m"
  by (metis append_take_drop_id padded_def)

lemma unat_len32: "unat mlen + 32 < 2 ^ 32 \<Longrightarrow> unat (ucast (mlen :: u64) + 32 :: u32) = unat mlen + 32"
  by (simp add: unat_word_ariths unat_ucast_down)

lemma xsalsa_key: 
  "salsa20_block_spec (hsalsa20_spec k n) (drop 16 n) = xsalsa_blk (k, n)"
  "salsa20_block_spec (hsalsa20_spec k n @ x) (drop 16 n) = xsalsa_blk (k, n)"
  by (simp_all add: xsalsa_blk_def salsa20_key)

lemma ctr_encrypt_drop: "32 \<le> length c \<Longrightarrow> drop 32 (ctr_encrypt (xsalsa_blk kn) 0 c) = box_enc kn (drop 32 c)"
  by (simp add: box_enc_keystream) (simp add: ctr_encrypt_def drop_xor_bytes add.commute)

lemma detached_eq:
  assumes "padded mlen m" and "length c = unat mlen + 32" and "length mac = 16"
  shows "Hacl_SecretBox_ZeroPad_crypto_secretbox_detached c mac m mlen n k
         = (case seal box_enc box_tag (k, n) [] (drop 32 m) of (ct, t) \<Rightarrow> (replicate 32 0 @ ct, t, 0))"
proof -
  have l: "unat (ucast mlen + 32 :: u32) = unat mlen + 32" "unat mlen < 2 ^ 32"
    using assms(1) unat_len32 by (simp_all add: padded_def)
  have m: "ctr_encrypt (xsalsa_blk (k, n)) 0 m = take 32 (xsalsa_blk (k, n) 0) @ box_enc (k, n) (drop 32 m)"
    using padded_eq [OF assms(1)] ctr_encrypt_pad by metis
  have d: "unat mlen = length (drop 32 m)" using assms(1) by (simp add: padded_def)
  have k: "poly1305_mac x (take 32 (xsalsa_blk (k, n) 0) @ y) = box_tag (k, n) [] x" for x y
    using poly1305_mac_take [of "take 32 (xsalsa_blk (k, n) 0) @ y" x] by (simp add: box_tag_def)
  show ?thesis using assms l(2)
    by (simp add: Hacl_SecretBox_ZeroPad_crypto_secretbox_detached_def Let_def hsalsa20_eq salsa20_eq l(1)
        xsalsa_key m onetimeauth_correct k seal_def set_zero_eq padded_def)
qed

lemma open_detached_eq:
  assumes "length m = unat mlen + 32" and "length c = unat mlen + 32" and "unat mlen + 32 < 2 ^ 32"
    and "16 \<le> length mac"
  shows "Hacl_SecretBox_ZeroPad_crypto_secretbox_open_detached m c mac mlen n k
         = (case unseal box_enc box_tag (k, n) [] (drop 32 c) (take 16 mac) of
              Some p \<Rightarrow> (replicate 32 0 @ p, 0)
            | None \<Rightarrow> (m, 0xffffffff))"
proof -
  let ?b = "xsalsa_blk (k, n)"
  define t1 where "t1 = hsalsa20_spec k n @ replicate 80 (0 :: u8)"
  define t2 where "t2 = hsalsa20_spec k n @ take 32 (?b 0) @ replicate 48 (0 :: u8)"
  define t3 where "t3 = hsalsa20_spec k n @ take 32 (?b 0) @ replicate 32 0 @ box_tag (k, n) [] (drop 32 c)"
  have l: "unat (ucast mlen + 32 :: u32) = unat mlen + 32" "unat mlen < 2 ^ 32"
    using assms(3) unat_len32 by simp_all
  have s1: "at_ptr 0 (\<lambda>subkey. Hacl_Salsa20_hsalsa20 subkey k n) (replicate 112 0) = t1"
    by (simp add: at_ptr_def hsalsa20_eq t1_def drop_replicate)
  have z: "ctr_encrypt ?b 0 (replicate 32 0) = take 32 (?b 0)"
    using ctr_encrypt_pad [of "(k, n)" "[]"] by (simp add: box_enc_def)
  have s2: "at_ptr 32 (\<lambda>mackey. Hacl_Salsa20_salsa20 mackey (drop 64 t1) 32 t1 (drop 16 n) 0) t1 = t2"
    by (simp add: at_ptr_def t1_def t2_def salsa20_eq xsalsa_key z drop_replicate)
  have s3: "at_ptr 96 (\<lambda>cmac. Hacl_Poly1305_64_crypto_onetimeauth cmac (drop 32 c) mlen (drop 32 t2)) t2 = t3"
    using assms l poly1305_mac_take [of "take 32 (?b 0) @ replicate 48 0" "drop 32 c"]
    by (simp add: at_ptr_def t2_def t3_def onetimeauth_correct drop_replicate box_tag_def)
  have v: "Hacl_Policies_cmp_bytes mac (drop 96 t3) 16
           = (if take 16 mac = box_tag (k, n) [] (drop 32 c) then 0 else - 1)"
    using assms secretbox.length_tag [of "(k, n)" "[]" "drop 32 c"] by (simp add: cmp_bytes_value t3_def)
  have d: "Hacl_Salsa20_salsa20 m c (ucast mlen + 32) t3 (drop 16 n) 0 = ctr_encrypt ?b 0 c"
    using assms by (simp add: salsa20_eq l t3_def xsalsa_key)
  show ?thesis using assms
    by (simp add: Hacl_SecretBox_ZeroPad_crypto_secretbox_open_detached_def Let_def s1 s2 s3 v
        Hacl_SecretBox_ZeroPad_crypto_secretbox_open_detached_decrypt_def d set_zero_eq unseal_def ctr_encrypt_drop)
qed

text \<open>The easy functions: the tag goes to the bytes 16 to 31.\<close>

definition boxed :: "bytes \<times> bytes \<Rightarrow> bytes \<Rightarrow> bytes" where
  "boxed kn m = (case seal box_enc box_tag kn [] m of (ct, t) \<Rightarrow> replicate 16 0 @ t @ ct)"

lemma seal_tag_length: "seal box_enc box_tag kn [] m = (ct, t) \<Longrightarrow> length t = 16 \<and> length ct = length m"
  using secretbox.length_seal [of kn "[]" m] by simp

lemma put_tag: "length t = 16 \<Longrightarrow> at_ptr 16 (\<lambda>p. memcpy p t 16) (replicate 32 0 @ ct) = replicate 16 0 @ t @ ct"
  by (simp add: at_ptr_def memcpy_def drop_replicate take_replicate)

lemma easy_eq:
  assumes "padded mlen m" and "length c = unat mlen + 32"
  shows "Hacl_SecretBox_ZeroPad_crypto_secretbox_easy c m mlen n k = (boxed (k, n) (drop 32 m), 0)"
proof -
  obtain ct t where s: "seal box_enc box_tag (k, n) [] (drop 32 m) = (ct, t)" by (rule prod.exhaust)
  with assms seal_tag_length [OF s] show ?thesis
    by (simp add: Hacl_SecretBox_ZeroPad_crypto_secretbox_easy_def detached_eq put_tag boxed_def)
qed

lemma open_boxed:
  assumes "padded mlen m0" and "length m = unat mlen + 32"
  shows "Hacl_SecretBox_ZeroPad_crypto_secretbox_open_detached m (boxed (k, n) (drop 32 m0))
           (drop 16 (boxed (k, n) (drop 32 m0))) mlen n k = (m0, 0)"
proof -
  obtain ct t where s: "seal box_enc box_tag (k, n) [] (drop 32 m0) = (ct, t)" by (rule prod.exhaust)
  have b: "boxed (k, n) (drop 32 m0) = replicate 16 0 @ t @ ct" by (simp add: boxed_def s)
  have l: "length t = 16" "length ct = unat mlen" using seal_tag_length [OF s] assms by (simp_all add: padded_def)
  have "unseal box_enc box_tag (k, n) [] ct t = Some (drop 32 m0)" using s by (rule secretbox.unseal_seal)
  then show ?thesis using assms l padded_eq [OF assms(1)] by (simp add: open_detached_eq b padded_def)
qed

text \<open>The key that both parties of a box derive.\<close>

definition box_key :: "bytes \<Rightarrow> bytes \<Rightarrow> bytes" where
  "box_key sk pk = hsalsa20_spec (x25519 sk pk) (replicate 16 0)"

lemma length_x25519 [simp]: "length (x25519 sk pk) = 32"
  by (simp add: x25519_def Let_def split_beta)

lemma detached_key: "length k = 32 \<Longrightarrow> 
  Hacl_SecretBox_ZeroPad_crypto_secretbox_detached c mac m mlen n (k @ z)
  = Hacl_SecretBox_ZeroPad_crypto_secretbox_detached c mac m mlen n k"
  by (simp add: Hacl_SecretBox_ZeroPad_crypto_secretbox_detached_def Let_def hsalsa20_eq hsalsa20_key)

lemma open_detached_key: "length k = 32 \<Longrightarrow> 
  Hacl_SecretBox_ZeroPad_crypto_secretbox_open_detached c mac m mlen n (k @ z)
  = Hacl_SecretBox_ZeroPad_crypto_secretbox_open_detached c mac m mlen n k"
  by (simp add: Hacl_SecretBox_ZeroPad_crypto_secretbox_open_detached_def Let_def hsalsa20_eq hsalsa20_key at_ptr_def)

lemma key_buffer:
  assumes "32 \<le> length sk" and "32 \<le> length pk"
  shows "at_ptr 0 (\<lambda>k1. Hacl_Curve25519_crypto_scalarmult k1 sk pk) (replicate (32 + j) 0)
         = x25519 sk pk @ replicate j 0"
  using assms by (simp add: at_ptr_def Hacl_Curve25519_crypto_scalarmult_def scalarmult_correct drop_replicate)

lemma beforenm_eq:
  assumes "32 \<le> length sk" and "32 \<le> length pk" and "32 \<le> length k1"
  shows "Hacl_Box_ZeroPad_crypto_box_beforenm k1 pk sk = (box_key sk pk @ drop 32 k1, 0)"
  using assms key_buffer [of sk pk 16]
  by (simp add: Hacl_Box_ZeroPad_crypto_box_beforenm_def hsalsa20_eq box_key_def hsalsa20_key)

lemma box_detached_eq:
  assumes "32 \<le> length sk" and "32 \<le> length pk"
  shows "Hacl_Box_ZeroPad_crypto_box_detached c mac m mlen n pk sk
         = Hacl_SecretBox_ZeroPad_crypto_secretbox_detached c mac m mlen n (box_key sk pk)"
  using assms key_buffer [of sk pk 48]
  by (simp add: Hacl_Box_ZeroPad_crypto_box_detached_def at_ptr_def [of 32] hsalsa20_eq
     hsalsa20_key detached_key box_key_def drop_replicate)


lemma box_open_detached_eq:
  assumes "32 \<le> length sk" and "32 \<le> length pk"
  shows "Hacl_Box_ZeroPad_crypto_box_open_detached m c mac mlen n pk sk
         = Hacl_SecretBox_ZeroPad_crypto_secretbox_open_detached m c mac mlen n (box_key sk pk)"
  using assms key_buffer [of sk pk 48]
  by (simp add: Hacl_Box_ZeroPad_crypto_box_open_detached_def at_ptr_def [of 32] hsalsa20_eq
     hsalsa20_key open_detached_key box_key_def drop_replicate)

lemmas box_easy_defs = NaCl_crypto_box_easy_def NaCl_crypto_box_open_easy_def
  NaCl_crypto_box_easy_afternm_def NaCl_crypto_box_open_easy_afternm_def NaCl_crypto_box_beforenm_def
  Hacl_Box_ZeroPad_crypto_box_easy_def Hacl_Box_ZeroPad_crypto_box_open_easy_def
  Hacl_Box_ZeroPad_crypto_box_easy_afternm_def Hacl_Box_ZeroPad_crypto_box_open_easy_afternm_def
  Hacl_Box_ZeroPad_crypto_box_detached_afternm_def Hacl_Box_ZeroPad_crypto_box_open_detached_afternm_def

lemma box_easy_eq:
  assumes "32 \<le> length sk" and "32 \<le> length pk"
  shows "NaCl_crypto_box_easy c m mlen n pk sk
         = Hacl_SecretBox_ZeroPad_crypto_secretbox_easy c m mlen n (box_key sk pk)"
  using assms by (simp add: box_easy_defs Hacl_SecretBox_ZeroPad_crypto_secretbox_easy_def box_detached_eq)

section \<open>Properties\<close>

text \<open>
  C4: Opening a detached secret box returns 0 with the padded message exactly when boxing that
  message under the same key and nonce gives this ciphertext and this tag; otherwise it returns
  0xffffffff and leaves the output buffer as it was.
\<close>

theorem secretbox_authentic:
  assumes "length m = unat mlen + 32" and "length c = unat mlen + 32" and "unat mlen + 32 < 2 ^ 32"
    and "length mac = 16" and "length c0 = unat mlen + 32" and "length mac0 = 16"
  shows "(NaCl_crypto_secretbox_open_detached m c mac mlen n k = (p, 0)
          \<longleftrightarrow> padded mlen p \<and> NaCl_crypto_secretbox_detached c0 mac0 p mlen n k
                = (replicate 32 0 @ drop 32 c, mac, 0))
         \<and> (snd (NaCl_crypto_secretbox_open_detached m c mac mlen n k) = 0
              \<or> NaCl_crypto_secretbox_open_detached m c mac mlen n k = (m, 0xffffffff))"
proof -
  let ?u = "unseal box_enc box_tag (k, n) [] (drop 32 c) mac"
  let ?s = "\<lambda>p. seal box_enc box_tag (k, n) [] p"
  have d: "NaCl_crypto_secretbox_open_detached m c mac mlen n k
      = (case ?u of Some p \<Rightarrow> (replicate 32 0 @ p, 0) | None \<Rightarrow> (m, 0xffffffff))"
    using assms by (simp add: NaCl_crypto_secretbox_open_detached_def open_detached_eq)
  have l: "length q = unat mlen" if "?s q = (drop 32 c, mac)" for q
    using seal_tag_length [OF that] assms by simp
  have e: "NaCl_crypto_secretbox_detached c0 mac0 p mlen n k = (replicate 32 0 @ drop 32 c, mac, 0)
      \<longleftrightarrow> ?s (drop 32 p) = (drop 32 c, mac)" if "padded mlen p"
    using assms that by (auto simp: NaCl_crypto_secretbox_detached_def detached_eq split: prod.split)
  have "(case ?u of Some q \<Rightarrow> (replicate 32 0 @ q, 0) | None \<Rightarrow> (m, 0xffffffff :: u32)) = (p, 0)
      \<longleftrightarrow> (\<exists>q. ?u = Some q \<and> p = replicate 32 0 @ q)"
    by (cases ?u) auto
  also have "\<dots> \<longleftrightarrow> padded mlen p \<and> ?s (drop 32 p) = (drop 32 c, mac)"
    using l assms padded_eq [of mlen p] by (auto simp: secretbox.unseal_iff padded_def)
  finally have "NaCl_crypto_secretbox_open_detached m c mac mlen n k = (p, 0)
      \<longleftrightarrow> padded mlen p \<and> ?s (drop 32 p) = (drop 32 c, mac)"
    by (simp only: d)
  moreover have "snd (NaCl_crypto_secretbox_open_detached m c mac mlen n k) = 0
      \<or> NaCl_crypto_secretbox_open_detached m c mac mlen n k = (m, 0xffffffff)"
    unfolding d by (cases ?u) simp_all
  ultimately show ?thesis using e by blast
qed

theorem secretbox_authentic_witness:
  "(NaCl_crypto_secretbox_open_detached (replicate 33 7) (replicate 33 9) (replicate 16 0) 1 [] [] = (replicate 33 0, 0)
    \<longleftrightarrow> padded 1 (replicate 33 0) \<and> NaCl_crypto_secretbox_detached (replicate 33 1) (replicate 16 1) (replicate 33 0) 1 [] []
          = (replicate 32 0 @ drop 32 (replicate 33 9), replicate 16 0, 0))
   \<and> (snd (NaCl_crypto_secretbox_open_detached (replicate 33 7) (replicate 33 9) (replicate 16 0) 1 [] []) = 0
        \<or> NaCl_crypto_secretbox_open_detached (replicate 33 7) (replicate 33 9) (replicate 16 0) 1 [] []
           = (replicate 33 7, 0xffffffff))"
  by (rule secretbox_authentic) simp_all

text \<open>
  C5: What one party boxes with \<open>crypto_box_easy\<close>, the other opens with \<open>crypto_box_open_easy\<close>,
  when the two sides of the Curve25519 exchange agree.
\<close>

theorem box_easy_roundtrip:
  assumes "padded mlen m" and "length c0 = unat mlen + 32" and "length m0 = unat mlen + 32"
    and "32 \<le> length sk" and "32 \<le> length pk" and "32 \<le> length sk'" and "32 \<le> length pk'"
    and agree: "x25519 sk pk' = x25519 sk' pk"
  shows "NaCl_crypto_box_open_easy m0 (fst (NaCl_crypto_box_easy c0 m mlen n pk' sk)) mlen n pk sk' = (m, 0)"
proof -
  have "box_key sk pk' = box_key sk' pk" using agree by (simp add: box_key_def)
  then show ?thesis
    using assms(1-7) open_boxed [of mlen m m0 "box_key sk pk'" n]
    by (simp add: box_easy_eq easy_eq NaCl_crypto_box_open_easy_def Hacl_Box_ZeroPad_crypto_box_open_easy_def
        box_open_detached_eq)
qed

theorem box_easy_roundtrip_witness:
  "NaCl_crypto_box_open_easy (replicate 34 0)
     (fst (NaCl_crypto_box_easy (replicate 34 0) (replicate 32 0 @ [1, 2]) 2 [] (9 # replicate 31 0) (replicate 32 5)))
     2 [] (9 # replicate 31 0) (replicate 32 5) = (replicate 32 0 @ [1, 2], 0)"
  by (rule box_easy_roundtrip) (simp_all add: padded_def)

text \<open>
  The two-step interface agrees with the one-step one: boxing and opening under the key that
  \<open>crypto_box_beforenm\<close> wrote is boxing and opening with the key pair itself.
\<close>

theorem box_afternm_equiv:
  assumes "32 \<le> length sk" and "32 \<le> length pk" and "32 \<le> length k1"
  shows "NaCl_crypto_box_easy_afternm c m mlen n (fst (NaCl_crypto_box_beforenm k1 pk sk))
           = NaCl_crypto_box_easy c m mlen n pk sk
         \<and> NaCl_crypto_box_open_easy_afternm m c mlen n (fst (NaCl_crypto_box_beforenm k1 pk sk))
           = NaCl_crypto_box_open_easy m c mlen n pk sk"
  using assms
  by (simp add: box_easy_defs beforenm_eq box_detached_eq box_open_detached_eq box_key_def
        detached_key open_detached_key)

theorem box_afternm_equiv_witness:
  "NaCl_crypto_box_easy_afternm [] [] 0 [] (fst (NaCl_crypto_box_beforenm (replicate 33 1) (replicate 32 9) (replicate 32 5)))
     = NaCl_crypto_box_easy [] [] 0 [] (replicate 32 9) (replicate 32 5)
   \<and> NaCl_crypto_box_open_easy_afternm [] [] 0 [] (fst (NaCl_crypto_box_beforenm (replicate 33 1) (replicate 32 9) (replicate 32 5)))
     = NaCl_crypto_box_open_easy [] [] 0 [] (replicate 32 9) (replicate 32 5)"
  by (rule box_afternm_equiv) simp_all

text \<open>
  C16: \<open>crypto_secretbox_open_easy\<close> reads the tag from the start of the ciphertext, where
  \<open>crypto_secretbox_easy\<close> leaves zeros, and not from byte 16, where it writes the tag.  So opening
  the output of \<open>crypto_secretbox_easy\<close> succeeds only when the Poly1305 tag is zero; otherwise it
  returns 0xffffffff and the output buffer is untouched.
\<close>

theorem secretbox_open_easy_tag:
  assumes "padded mlen m" and "length c0 = unat mlen + 32" and "length m0 = unat mlen + 32"
  shows "NaCl_crypto_secretbox_open_easy m0 (fst (NaCl_crypto_secretbox_easy c0 m mlen n k)) mlen n k
         = (if box_tag (k, n) [] (box_enc (k, n) (drop 32 m)) = replicate 16 0 then (m, 0)
            else (m0, 0xffffffff))"
proof -
  let ?ct = "box_enc (k, n) (drop 32 m)" and ?t = "box_tag (k, n) [] (box_enc (k, n) (drop 32 m))"
  have s: "seal box_enc box_tag (k, n) [] (drop 32 m) = (?ct, ?t)" by (simp add: seal_def Let_def)
  have l: "length ?t = 16" "length ?ct = unat mlen" using seal_tag_length [OF s] assms by (simp_all add: padded_def)
  show ?thesis
    using assms l padded_eq [OF assms(1)]
    by (auto simp: NaCl_crypto_secretbox_open_easy_def NaCl_crypto_secretbox_easy_def easy_eq boxed_def s
        Hacl_SecretBox_ZeroPad_crypto_secretbox_open_easy_def open_detached_eq padded_def unseal_def box_enc_twice)
qed

theorem secretbox_open_easy_tag_witness:
  "NaCl_crypto_secretbox_open_easy (replicate 33 7)
     (fst (NaCl_crypto_secretbox_easy (replicate 33 0) (replicate 33 0) 1 [] [])) 1 [] []
   = (if box_tag ([], []) [] (box_enc ([], []) [0]) = replicate 16 0 then (replicate 33 0, 0)
      else (replicate 33 7, 0xffffffff))"
  using secretbox_open_easy_tag [of 1 "replicate 33 0" "replicate 33 0" "replicate 33 7" "[]" "[]"]
  by (simp add: padded_def drop_replicate take_replicate)

end
