(* ===== verification/Aead.thy ===== *)
theory Aead
  imports Chacha20 Poly1305_64 Policies Authenticated
begin

text \<open>
  \<open>AEAD_Poly1305_64.c\<close> (Poly1305 over zero-padded inputs; its field arithmetic and block
  functions are, line for line, those of \<open>Hacl_Poly1305_64.c\<close>) and
  \<open>Hacl_Chacha20Poly1305.c\<close>, related to AEAD_CHACHA20_POLY1305 of RFC 8439.
\<close>

section \<open>Poly1305 with padding\<close>

definition AEAD_Poly1305_64_mk_state :: "u64 list \<Rightarrow> u64 list \<Rightarrow> poly1305_state" where
  "AEAD_Poly1305_64_mk_state r acc = Hacl_Impl_Poly1305_64_mk_state r acc"

definition AEAD_Poly1305_64_mul_div_16 :: "u32 \<Rightarrow> u32" where
  "AEAD_Poly1305_64_mul_div_16 len1 = 16 * drop_bit 4 len1"

definition AEAD_Poly1305_64_pad_last :: "poly1305_state \<Rightarrow> bytes \<Rightarrow> u32 \<Rightarrow> poly1305_state" where
  "AEAD_Poly1305_64_pad_last st input len1 =
     (if \<not> len1 = 0 then
        let b = replicate 16 0;
            b = memcpy b input (unat len1);
            b0 = b
        in Hacl_Impl_Poly1305_64_poly1305_update st b0
      else st)"

definition AEAD_Poly1305_64_poly1305_blocks_init ::
    "poly1305_state \<Rightarrow> bytes \<Rightarrow> u32 \<Rightarrow> bytes \<Rightarrow> poly1305_state" where
  "AEAD_Poly1305_64_poly1305_blocks_init st input len1 k1 =
     (let len_16 = drop_bit 4 len1;
          rem_16 = len1 AND 15;
          kr = k1;
          len' = 16 * drop_bit 4 len1;
          part_input = input;
          last_block = drop (unat len') input;
          st = Hacl_Standalone_Poly1305_64_poly1305_partial st part_input (ucast len_16) kr
      in AEAD_Poly1305_64_pad_last st last_block rem_16)"

definition AEAD_Poly1305_64_poly1305_blocks_continue ::
    "poly1305_state \<Rightarrow> bytes \<Rightarrow> u32 \<Rightarrow> poly1305_state" where
  "AEAD_Poly1305_64_poly1305_blocks_continue st input len1 =
     (let len_16 = drop_bit 4 len1;
          rem_16 = len1 AND 15;
          len' = 16 * drop_bit 4 len1;
          part_input = input;
          last_block = drop (unat len') input;
          st = Hacl_Standalone_Poly1305_64_poly1305_blocks st part_input (ucast len_16)
      in AEAD_Poly1305_64_pad_last st last_block rem_16)"

definition AEAD_Poly1305_64_poly1305_blocks_finish' :: "poly1305_state \<Rightarrow> bytes \<Rightarrow> poly1305_state" where
  "AEAD_Poly1305_64_poly1305_blocks_finish' st input =
     (let st = Hacl_Impl_Poly1305_64_poly1305_update st input;
          x2 = drop 16 input;
          st = (if \<not> (0 :: u64) = 0
                then Hacl_Impl_Poly1305_64_poly1305_process_last_block st x2 0 else st);
          acc = poly_h st
      in st\<lparr>poly_h := Hacl_Impl_Poly1305_64_poly1305_last_pass acc\<rparr>)"

definition AEAD_Poly1305_64_poly1305_blocks_finish ::
    "poly1305_state \<Rightarrow> bytes \<Rightarrow> bytes \<Rightarrow> bytes \<Rightarrow> bytes" where
  "AEAD_Poly1305_64_poly1305_blocks_finish st input mac key_s =
     (let st = Hacl_Impl_Poly1305_64_poly1305_update st input;
          x2 = drop 16 input;
          st = (if \<not> (0 :: u64) = 0
                then Hacl_Impl_Poly1305_64_poly1305_process_last_block st x2 0 else st);
          acc = poly_h st;
          st = st\<lparr>poly_h := Hacl_Impl_Poly1305_64_poly1305_last_pass acc\<rparr>;
          acc0 = poly_h st;
          k' = load128_le key_s;
          h0 = acc0 ! 0; h1 = acc0 ! 1; h2 = acc0 ! 2;
          acc' = u128_logor
                   (u128_shift_left (uint64_to_uint128 (push_bit 24 h2 OR drop_bit 20 h1)) 64)
                   (uint64_to_uint128 (push_bit 44 h1 OR h0));
          mac' = u128_add_mod acc' k'
      in store128_le mac mac')"

section \<open>The authenticated cipher\<close>

definition Hacl_Chacha20Poly1305_aead_encrypt_poly ::
    "bytes \<Rightarrow> u32 \<Rightarrow> bytes \<Rightarrow> bytes \<Rightarrow> u32 \<Rightarrow> bytes \<Rightarrow> bytes" where
  "Hacl_Chacha20Poly1305_aead_encrypt_poly c mlen mac aad1 aadlen tmp =
     (let b = tmp; lb = drop 64 tmp; mk = b; key_s = drop 16 mk;
          st = AEAD_Poly1305_64_mk_state (replicate 3 0) (replicate 3 0);
          st = AEAD_Poly1305_64_poly1305_blocks_init st aad1 aadlen mk;
          st = AEAD_Poly1305_64_poly1305_blocks_continue st c mlen
      in AEAD_Poly1305_64_poly1305_blocks_finish st lb mac key_s)"

definition Hacl_Chacha20Poly1305_encode_length :: "bytes \<Rightarrow> u32 \<Rightarrow> u32 \<Rightarrow> bytes" where
  "Hacl_Chacha20Poly1305_encode_length lb aad_len mlen =
     (let lb = store64_le lb (ucast aad_len)
      in at_ptr 8 (\<lambda>x0. store64_le x0 (ucast mlen)) lb)"

text \<open>Returns the ciphertext and tag buffers and the return code.\<close>

definition Hacl_Chacha20Poly1305_aead_encrypt' ::
    "bytes \<Rightarrow> bytes \<Rightarrow> bytes \<Rightarrow> u32 \<Rightarrow> bytes \<Rightarrow> u32 \<Rightarrow> bytes \<Rightarrow> bytes \<Rightarrow> bytes \<times> bytes \<times> u32" where
  "Hacl_Chacha20Poly1305_aead_encrypt' c mac m mlen aad1 aadlen k1 n1 =
     (let tmp = replicate 80 0;
          tmp = at_ptr 64 (\<lambda>lb. Hacl_Chacha20Poly1305_encode_length lb aadlen mlen) tmp;
          c = Hacl_Chacha20_chacha20 c m mlen k1 n1 1;
          tmp = at_ptr 0 (\<lambda>b. Hacl_Chacha20_chacha20_key_block b k1 n1 0) tmp;
          mac = Hacl_Chacha20Poly1305_aead_encrypt_poly c mlen mac aad1 aadlen tmp
      in (c, mac, 0))"

definition Hacl_Chacha20Poly1305_aead_encrypt ::
    "bytes \<Rightarrow> bytes \<Rightarrow> bytes \<Rightarrow> u32 \<Rightarrow> bytes \<Rightarrow> u32 \<Rightarrow> bytes \<Rightarrow> bytes \<Rightarrow> bytes \<times> bytes \<times> u32" where
  "Hacl_Chacha20Poly1305_aead_encrypt c mac m mlen aad1 aadlen k1 n1 =
     Hacl_Chacha20Poly1305_aead_encrypt' c mac m mlen aad1 aadlen k1 n1"

text \<open>Returns the plaintext buffer and the return code (1: the tag did not verify).\<close>

definition Hacl_Chacha20Poly1305_aead_decrypt ::
    "bytes \<Rightarrow> bytes \<Rightarrow> u32 \<Rightarrow> bytes \<Rightarrow> bytes \<Rightarrow> u32 \<Rightarrow> bytes \<Rightarrow> bytes \<Rightarrow> bytes \<times> u32" where
  "Hacl_Chacha20Poly1305_aead_decrypt m c mlen mac aad1 aadlen k1 n1 =
     (let tmp = replicate 96 0;
          tmp = at_ptr 64 (\<lambda>lb. Hacl_Chacha20Poly1305_encode_length lb aadlen mlen) tmp;
          tmp = at_ptr 0 (\<lambda>b. Hacl_Chacha20_chacha20_key_block b k1 n1 0) tmp;
          rmac = Hacl_Chacha20Poly1305_aead_encrypt_poly c mlen (drop 80 tmp) aad1 aadlen tmp;
          result = Hacl_Policies_cmp_bytes mac rmac 16;
          verify = result
      in if verify = 0
         then (Hacl_Chacha20_chacha20 m c mlen k1 n1 1, 0)
         else (m, 1))"

section \<open>AEAD_CHACHA20_POLY1305\<close>

definition pad16 :: "bytes \<Rightarrow> bytes" where
  "pad16 x = x @ replicate ((16 - length x mod 16) mod 16) 0"

definition aead_tag :: "bytes \<times> bytes \<Rightarrow> bytes \<Rightarrow> bytes \<Rightarrow> bytes" where
  "aead_tag = (\<lambda>(key, nonce) aad c.
     poly1305_mac (pad16 aad @ pad16 c @ le_bytes 8 (length aad) @ le_bytes 8 (length c))
       (take 32 (chacha20_block_spec key nonce 0)))"

definition aead_enc :: "bytes \<times> bytes \<Rightarrow> bytes \<Rightarrow> bytes" where
  "aead_enc = (\<lambda>(key, nonce) m. ctr_encrypt (chacha20_block_spec key nonce) 1 m)"

section \<open>Correctness of the padded authenticator\<close>

lemma length_pad16: "length (pad16 x) = 16 * ((length x + 15) div 16)"
proof -
  define q r where "q = length x div 16" and "r = length x mod 16"
  have qr: "length x = 16 * q + r" "r < 16" by (simp_all add: q_def r_def)
  show ?thesis
  proof (cases "r = 0")
    case True
    then show ?thesis using qr by (simp add: pad16_def)
  next
    case False
    then have "(16 * q + r + 15) div 16 = q + 1" using qr(2) by simp
    then show ?thesis using False qr by (simp add: pad16_def)
  qed
qed

lemma pad16_append: "length a = 16 * n \<Longrightarrow> pad16 (a @ b) = a @ pad16 b"
  by (simp add: pad16_def)

lemma length_pad16_dvd: "16 dvd length (pad16 x)"
  by (simp add: length_pad16)

lemma low4: "unat (x AND 15 :: u32) = unat x mod 16"
proof -
  have "(15 :: u32) = mask 4" by (simp add: mask_eq_exp_minus_1)
  then show ?thesis by (simp only: unat_and_mask) simp
qed

lemma pad_last_correct:
  assumes "poly_ok st" and "unat len < 16" and "unat len \<le> length m"
  defines "st' \<equiv> AEAD_Poly1305_64_pad_last st m len"
  shows "poly_ok st' \<and> poly_r st' = poly_r st
         \<and> poly_acc st' = poly_eval (pval (poly_r st)) (poly_acc st) (pad16 (take (unat len) m))"
proof (cases "len = 0")
  case True
  then show ?thesis using assms(1) by (simp add: st'_def AEAD_Poly1305_64_pad_last_def pad16_def)
next
  case False
  then have pos: "0 < unat len" by (simp add: unat_gt_0)
  let ?b = "memcpy (replicate 16 0) m (unat len)"
  have b: "?b = pad16 (take (unat len) m)"
    using assms(2,3) pos by (simp add: memcpy_def pad16_def drop_replicate min_def)
  have l: "length ?b = 16" using assms(2,3) by simp
  have "st' = Hacl_Impl_Poly1305_64_poly1305_update st ?b"
    using False by (simp add: st'_def AEAD_Poly1305_64_pad_last_def)
  then show ?thesis
    using poly_update_correct [OF assms(1), of ?b] l by (simp add: poly_eval_last flip: b)
qed

lemma continue_correct:
  assumes "poly_ok st" and "unat len \<le> length m"
  defines "st' \<equiv> AEAD_Poly1305_64_poly1305_blocks_continue st m len"
  shows "poly_ok st' \<and> poly_r st' = poly_r st
         \<and> poly_acc st' = poly_eval (pval (poly_r st)) (poly_acc st) (pad16 (take (unat len) m))"
proof -
  define q where "q = unat len div 16"
  have q: "unat len = 16 * q + unat len mod 16" by (simp add: q_def)
  have u: "unat (ucast (drop_bit 4 len) :: u64) = q"
    by (simp add: unat_ucast_same_or_up unat_shr q_def)
  have o: "unat (16 * drop_bit 4 len) = 16 * q"
    using unat_bound [of len] by (subst unat_times) (simp_all add: unat_shr q_def)
  let ?b = "Hacl_Standalone_Poly1305_64_poly1305_blocks st m (ucast (drop_bit 4 len))"
  have b: "poly_ok ?b" "poly_r ?b = poly_r st"
    "poly_acc ?b = poly_eval (pval (poly_r st)) (poly_acc st) (take (16 * q) m)"
    using blocks_correct [OF assms(1), of "ucast (drop_bit 4 len)" m] assms(2) q by (simp_all add: u)
  have st': "st' = AEAD_Poly1305_64_pad_last ?b (drop (16 * q) m) (len AND 15)"
    by (simp add: st'_def AEAD_Poly1305_64_poly1305_blocks_continue_def Let_def o)
  have l: "unat len mod 16 \<le> length (drop (16 * q) m)" using assms(2) q by simp
  note p = pad_last_correct [OF b(1), of "len AND 15" "drop (16 * q) m", folded st']
  have "pad16 (take (16 * q) m @ take (unat len mod 16) (drop (16 * q) m))
        = take (16 * q) m @ pad16 (take (unat len mod 16) (drop (16 * q) m))"
    using assms(2) q by (intro pad16_append [of _ q]) simp
  moreover have "take (unat len) m = take (16 * q) m @ take (unat len mod 16) (drop (16 * q) m)"
    by (subst q) (rule take_add)
  ultimately have e: "pad16 (take (unat len) m)
      = take (16 * q) m @ pad16 (take (unat len mod 16) (drop (16 * q) m))" by simp
  show ?thesis
    using p b l assms(2) q unfolding e by (simp add: low4 poly_eval_append [of _ q])
qed

lemma blocks_init_eq:
  "AEAD_Poly1305_64_poly1305_blocks_init st m len k
   = AEAD_Poly1305_64_poly1305_blocks_continue (Hacl_Poly1305_64_init st k) m len"
  by (simp add: AEAD_Poly1305_64_poly1305_blocks_init_def AEAD_Poly1305_64_poly1305_blocks_continue_def
      partial_eq)

lemma blocks_finish_eq:
  "AEAD_Poly1305_64_poly1305_blocks_finish st m mac k
   = Hacl_Poly1305_64_finish (AEAD_Poly1305_64_poly1305_blocks_finish' st m) mac k"
  by (simp add: AEAD_Poly1305_64_poly1305_blocks_finish_def
      AEAD_Poly1305_64_poly1305_blocks_finish'_def Hacl_Poly1305_64_finish_def Let_def)

lemma blocks_finish_correct:
  assumes "poly_ok st" and "16 \<le> length m" and "16 \<le> length mac" and "16 \<le> length k"
  shows "AEAD_Poly1305_64_poly1305_blocks_finish st m mac k
         = le_bytes 16 ((poly_eval (pval (poly_r st)) (poly_acc st) (take 16 m) + le_val (take 16 k))
                         mod 2 ^ 128) @ drop 16 mac"
proof -
  let ?u = "Hacl_Impl_Poly1305_64_poly1305_update st m"
  note u = poly_update_correct [OF assms(1,2)]
  have "acc_ok (poly_h ?u)" using u(1) by (simp add: poly_ok_def)
  note l = last_pass_correct [OF this]
  have e: "AEAD_Poly1305_64_poly1305_blocks_finish' st m
      = ?u\<lparr>poly_h := Hacl_Impl_Poly1305_64_poly1305_last_pass (poly_h ?u)\<rparr>"
    by (simp add: AEAD_Poly1305_64_poly1305_blocks_finish'_def Let_def)
  have "poly_eval (pval (poly_r st)) (poly_acc st) (take 16 m) = poly_acc ?u"
    using u(3) assms(2) by (simp add: poly_eval_last)
  with l assms(3,4) show ?thesis
    by (simp add: blocks_finish_eq e finish_correct poly_acc_def)
qed

text \<open>The tag over padded associated data, padded ciphertext and their lengths.\<close>

lemma poly_eval_padded: "poly_eval r acc (pad16 x @ m) = poly_eval r (poly_eval r acc (pad16 x)) m"
  by (rule poly_eval_append) (rule length_pad16)

lemma encrypt_poly_correct:
  assumes "unat clen \<le> length c" and "unat adlen \<le> length ad" and "80 \<le> length tmp" and "16 \<le> length mac"
  shows "Hacl_Chacha20Poly1305_aead_encrypt_poly c clen mac ad adlen tmp
         = poly1305_mac (pad16 (take (unat adlen) ad) @ pad16 (take (unat clen) c) @ take 16 (drop 64 tmp)) tmp
           @ drop 16 mac"
proof -
  let ?s = "AEAD_Poly1305_64_mk_state (replicate 3 0) (replicate 3 0)"
  let ?i = "Hacl_Poly1305_64_init ?s tmp"
  let ?a = "AEAD_Poly1305_64_poly1305_blocks_init ?s ad adlen tmp"
  let ?c = "AEAD_Poly1305_64_poly1305_blocks_continue ?a c clen"
  have i: "poly_ok ?i" "pval (poly_r ?i) = clamp tmp" "poly_acc ?i = 0"
    by (rule init_correct; simp add: AEAD_Poly1305_64_mk_state_def Hacl_Impl_Poly1305_64_mk_state_def)+
  have a: "poly_ok ?a" "poly_r ?a = poly_r ?i"
    "poly_acc ?a = poly_eval (clamp tmp) 0 (pad16 (take (unat adlen) ad))"
    using continue_correct [OF i(1) assms(2)] i by (simp_all add: blocks_init_eq)
  have c: "poly_ok ?c" "poly_r ?c = poly_r ?i"
    "poly_acc ?c = poly_eval (clamp tmp) (poly_eval (clamp tmp) 0 (pad16 (take (unat adlen) ad)))
                     (pad16 (take (unat clen) c))"
    using continue_correct [OF a(1) assms(1)] a i by simp_all
  have "Hacl_Chacha20Poly1305_aead_encrypt_poly c clen mac ad adlen tmp
      = AEAD_Poly1305_64_poly1305_blocks_finish ?c (drop 64 tmp) mac (drop 16 tmp)"
    by (simp add: Hacl_Chacha20Poly1305_aead_encrypt_poly_def Let_def)
  also have "\<dots> = le_bytes 16 ((poly_eval (clamp tmp) (poly_acc ?c) (take 16 (drop 64 tmp))
                     + le_val (take 16 (drop 16 tmp))) mod 2 ^ 128) @ drop 16 mac"
    using blocks_finish_correct [OF c(1), of "drop 64 tmp" mac "drop 16 tmp"] assms c(2) i(2) by simp
  finally show ?thesis
    by (simp add: c(3) poly1305_mac_def poly_eval_padded)
qed

section \<open>Correctness of the authenticated cipher\<close>

lemma poly1305_mac_key:
  "length k = 64 \<Longrightarrow> poly1305_mac m (k @ k') = poly1305_mac m (take 32 k)"
  by (simp add: poly1305_mac_def clamp_def load128_le_eq drop_take min_def)

interpretation aead: encrypt_then_mac aead_enc aead_tag
  by unfold_locales (auto simp: aead_enc_def aead_tag_def ctr_encrypt_twice)

lemma encode_length_eq:
  "16 \<le> length lb \<Longrightarrow>
   Hacl_Chacha20Poly1305_encode_length lb alen mlen
   = le_bytes 8 (unat alen) @ le_bytes 8 (unat mlen) @ drop 16 lb"
  by (simp add: Hacl_Chacha20Poly1305_encode_length_def Let_def at_ptr_def store64_le_def
      unat_ucast_same_or_up)

text \<open>The scratch buffer: one-time key block, lengths, and what follows them.\<close>

lemma scratch_eq:
  assumes "n = 80 + j"
  shows "at_ptr 0 (\<lambda>b. Hacl_Chacha20_chacha20_key_block b k n1 0)
           (at_ptr 64 (\<lambda>lb. Hacl_Chacha20Poly1305_encode_length lb alen mlen) (replicate n 0))
         = chacha20_block_spec k n1 0 @ le_bytes 8 (unat alen) @ le_bytes 8 (unat mlen) @ replicate j 0"
proof -
  have "at_ptr 64 (\<lambda>lb. Hacl_Chacha20Poly1305_encode_length lb alen mlen) (replicate n 0)
      = replicate 64 0 @ le_bytes 8 (unat alen) @ le_bytes 8 (unat mlen) @ replicate j 0"
    using assms by (simp add: at_ptr_def encode_length_eq drop_replicate take_replicate)
  then show ?thesis by (simp add: at_ptr_def key_block_eq)
qed

lemma encrypt_poly_scratch:
  assumes "unat clen \<le> length c" and "unat adlen \<le> length ad" and "16 \<le> length mac"
  shows "Hacl_Chacha20Poly1305_aead_encrypt_poly c clen mac ad adlen
           (chacha20_block_spec k n 0 @ le_bytes 8 (unat adlen) @ le_bytes 8 (unat clen) @ z)
         = aead_tag (k, n) (take (unat adlen) ad) (take (unat clen) c) @ drop 16 mac"
  using assms
  by (simp add: encrypt_poly_correct aead_tag_def poly1305_mac_key min_absorb2)

lemma aead_encrypt_eq:
  assumes "unat mlen \<le> length m" and "unat mlen \<le> length c" and "unat adlen \<le> length ad" and "16 \<le> length mac"
  shows "Hacl_Chacha20Poly1305_aead_encrypt c mac m mlen ad adlen k n
         = (case seal aead_enc aead_tag (k, n) (take (unat adlen) ad) (take (unat mlen) m) of
              (ct, t) \<Rightarrow> (ct @ drop (unat mlen) c, t @ drop 16 mac, 0))"
  using assms scratch_eq [of 80 0 k n adlen mlen]
  by (simp add: Hacl_Chacha20Poly1305_aead_encrypt_def Hacl_Chacha20Poly1305_aead_encrypt'_def Let_def
      chacha20_eq encrypt_poly_scratch [where z = "[]", simplified] seal_def aead_enc_def min_absorb2)

lemma aead_decrypt_eq:
  assumes "unat mlen \<le> length m" and "unat mlen \<le> length c" and "unat adlen \<le> length ad" and "16 \<le> length mac"
  shows "Hacl_Chacha20Poly1305_aead_decrypt m c mlen mac ad adlen k n
         = (case unseal aead_enc aead_tag (k, n) (take (unat adlen) ad) (take (unat mlen) c) (take 16 mac) of
              Some p \<Rightarrow> (p @ drop (unat mlen) m, 0) | None \<Rightarrow> (m, 1))"
proof -
  let ?tmp = "chacha20_block_spec k n 0 @ le_bytes 8 (unat adlen) @ le_bytes 8 (unat mlen) @ replicate 16 0"
  let ?t = "aead_tag (k, n) (take (unat adlen) ad) (take (unat mlen) c)"
  have "Hacl_Chacha20Poly1305_aead_encrypt_poly c mlen (drop 80 ?tmp) ad adlen ?tmp = ?t"
    using assms by (simp add: encrypt_poly_scratch)
  then have "Hacl_Chacha20Poly1305_aead_decrypt m c mlen mac ad adlen k n
      = (if Hacl_Policies_cmp_bytes mac ?t 16 = 0 then (Hacl_Chacha20_chacha20 m c mlen k n 1, 0) else (m, 1))"
    using scratch_eq [of 96 16 k n adlen mlen]
    by (simp add: Hacl_Chacha20Poly1305_aead_decrypt_def Let_def)
  moreover have "take 16 ?t = ?t" using aead.length_tag [of "(k, n)"] by simp
  ultimately show ?thesis
    using assms aead.length_tag [of "(k, n)" "take (unat adlen) ad" "take (unat mlen) c"]
    by (simp add: cmp_bytes_value unseal_def chacha20_eq aead_enc_def)
qed

section \<open>Properties\<close>

text \<open>
  C3: Encryption writes ciphertext and tag of RFC 8439 to the two output buffers, nothing else,
  and returns 0.
\<close>

theorem aead_encrypt_seals:
  assumes "unat mlen \<le> length m" and "unat mlen \<le> length c" and "unat adlen \<le> length ad" and "16 \<le> length mac"
  shows "Hacl_Chacha20Poly1305_aead_encrypt c mac m mlen ad adlen k n
         = (case seal aead_enc aead_tag (k, n) (take (unat adlen) ad) (take (unat mlen) m) of
              (ct, t) \<Rightarrow> (ct @ drop (unat mlen) c, t @ drop 16 mac, 0))"
  using assms by (rule aead_encrypt_eq)

theorem aead_encrypt_seals_witness:
  "Hacl_Chacha20Poly1305_aead_encrypt [0, 0] (replicate 16 0) [1, 2] 2 [3] 1 [] []
   = (case seal aead_enc aead_tag ([], []) [3] [1, 2] of (ct, t) \<Rightarrow> (ct, t, 0))"
  using aead_encrypt_seals [of 2 "[1, 2]" "[0, 0]" 1 "[3]" "replicate 16 0" "[]" "[]"] by simp

text \<open>
  C1: Decryption returns 0 with the plaintext exactly when the given tag is the one encryption
  computes for that ciphertext and associated data; otherwise it returns 1 and leaves the
  output buffer as it was.  So the accepted inputs are precisely the outputs of encryption.
\<close>

theorem aead_decrypt_authentic:
  assumes "length m = unat mlen" and "length c = unat mlen" and "length mac = 16"
    and "unat adlen \<le> length ad" and "length c0 = unat mlen" and "length mac0 = 16"
  shows "(Hacl_Chacha20Poly1305_aead_decrypt m c mlen mac ad adlen k n = (p, 0)
          \<longleftrightarrow> length p = unat mlen
            \<and> Hacl_Chacha20Poly1305_aead_encrypt c0 mac0 p mlen ad adlen k n = (c, mac, 0))
         \<and> (snd (Hacl_Chacha20Poly1305_aead_decrypt m c mlen mac ad adlen k n) = 0
              \<or> Hacl_Chacha20Poly1305_aead_decrypt m c mlen mac ad adlen k n = (m, 1))"
proof -
  let ?u = "unseal aead_enc aead_tag (k, n) (take (unat adlen) ad) c mac"
  let ?s = "\<lambda>p. seal aead_enc aead_tag (k, n) (take (unat adlen) ad) p"
  have l: "length p = unat mlen" if "?s p = (c, mac)" for p
    using that aead.length_seal(1) [of "(k, n)" "take (unat adlen) ad" p] assms by simp
  have d: "Hacl_Chacha20Poly1305_aead_decrypt m c mlen mac ad adlen k n
      = (case ?u of Some p \<Rightarrow> (p, 0) | None \<Rightarrow> (m, 1))"
  proof (cases ?u)
    case (Some q)
    then have "length q = unat mlen" by (intro l) (simp add: aead.unseal_iff)
    with Some assms show ?thesis by (simp add: aead_decrypt_eq)
  qed (use assms in \<open>simp add: aead_decrypt_eq\<close>)
  have e: "Hacl_Chacha20Poly1305_aead_encrypt c0 mac0 p mlen ad adlen k n = (fst (?s p), snd (?s p), 0)"
    if "length p = unat mlen"
    using assms that by (cases "?s p") (simp add: aead_encrypt_eq)
  have "(case ?u of Some p \<Rightarrow> (p, 0) | None \<Rightarrow> (m, 1)) = (p, 0 :: u32) \<longleftrightarrow> ?u = Some p"
    by (cases ?u) simp_all
  then have "Hacl_Chacha20Poly1305_aead_decrypt m c mlen mac ad adlen k n = (p, 0) \<longleftrightarrow> ?s p = (c, mac)"
    by (simp only: d aead.unseal_iff)
  moreover have "?s p = (c, mac) \<longleftrightarrow> length p = unat mlen
      \<and> Hacl_Chacha20Poly1305_aead_encrypt c0 mac0 p mlen ad adlen k n = (c, mac, 0)"
    using e l [of p] by (auto intro: prod_eqI)
  moreover have "snd (Hacl_Chacha20Poly1305_aead_decrypt m c mlen mac ad adlen k n) = 0
      \<or> Hacl_Chacha20Poly1305_aead_decrypt m c mlen mac ad adlen k n = (m, 1)"
    unfolding d by (cases ?u) simp_all
  ultimately show ?thesis by blast
qed

theorem aead_decrypt_authentic_witness:
  "(Hacl_Chacha20Poly1305_aead_decrypt [0] [9] 1 (replicate 16 0) [] 0 [] [] = ([5], 0)
     \<longleftrightarrow> length [5 :: u8] = unat (1 :: u32)
       \<and> Hacl_Chacha20Poly1305_aead_encrypt [0] (replicate 16 1) [5] 1 [] 0 [] [] = ([9], replicate 16 0, 0))
   \<and> (snd (Hacl_Chacha20Poly1305_aead_decrypt [0] [9] 1 (replicate 16 0) [] 0 [] []) = 0
        \<or> Hacl_Chacha20Poly1305_aead_decrypt [0] [9] 1 (replicate 16 0) [] 0 [] [] = ([0], 1))"
  by (rule aead_decrypt_authentic) simp_all

text \<open>
  C2: Decrypting what encryption produced returns the message and 0.
\<close>

theorem aead_roundtrip:
  assumes "length m = unat mlen" and "length c0 = unat mlen" and "length mac0 = 16"
    and "unat adlen \<le> length ad" and "length m0 = unat mlen"
    and "Hacl_Chacha20Poly1305_aead_encrypt c0 mac0 m mlen ad adlen k n = (c, mac, r)"
  shows "Hacl_Chacha20Poly1305_aead_decrypt m0 c mlen mac ad adlen k n = (m, 0)"
proof -
  obtain ct t where s: "seal aead_enc aead_tag (k, n) (take (unat adlen) ad) m = (ct, t)"
    by (rule prod.exhaust)
  have l: "length ct = unat mlen" "length t = 16"
    using aead.length_seal [of "(k, n)" "take (unat adlen) ad" m] assms(1) by (simp_all add: s)
  have "(c, mac, r) = (ct, t, 0)" using assms by (simp add: aead_encrypt_eq s flip: assms(6))
  then show ?thesis
    using assms l aead.unseal_seal [OF s] by (simp add: aead_decrypt_eq)
qed

theorem aead_roundtrip_witness:
  "Hacl_Chacha20Poly1305_aead_decrypt [0, 0]
     (fst (Hacl_Chacha20Poly1305_aead_encrypt [0, 0] (replicate 16 0) [1, 2] 2 [3] 1 [] []))
     2 (fst (snd (Hacl_Chacha20Poly1305_aead_encrypt [0, 0] (replicate 16 0) [1, 2] 2 [3] 1 [] [])))
     [3] 1 [] [] = ([1, 2], 0)"
  by (rule aead_roundtrip [of "[1, 2]" 2 "[0, 0]" "replicate 16 0" 1 "[3]" "[0, 0]" "[]" "[]" _ _
        "snd (snd (Hacl_Chacha20Poly1305_aead_encrypt [0, 0] (replicate 16 0) [1, 2] 2 [3] 1 [] []))"])
     (simp_all only: prod.collapse, simp_all)

end
