(* ===== verification/HaclNaCl.thy ===== *)
theory HaclNaCl
  imports NaCl Aead Hmac Sha2_512
begin

text \<open>
  \<open>haclnacl.c\<close>: the NaCl-like C interface over the primitives and over \<open>NaCl.c\<close>.  The lengths
  of this interface are 64 bits wide and are cut to the 32 bits of most primitives at the call.
  A result of type \<open>int\<close> is the signed reading of the 32-bit code.  \<open>randombytes\<close> is supplied by
  the application; it is a parameter that maps the buffer and the number of bytes asked for to the
  buffer it leaves, or to the error with which it ends the program.
  The uninitialised local tag buffers start as zeros; the theorems give results that do not
  depend on what they held.  \<open>crypto_stream\<close> encrypts in place: the cipher reads each byte of its
  input before it writes the byte at that offset, so the in-place call is the call on a copy.
\<close>

section \<open>Primitives and constructions\<close>

definition curve25519_scalarmult :: "bytes \<Rightarrow> bytes \<Rightarrow> bytes \<Rightarrow> bytes" where
  "curve25519_scalarmult out secret p = Hacl_Curve25519_crypto_scalarmult out secret p"

definition chacha20 :: "bytes \<Rightarrow> bytes \<Rightarrow> u32 \<Rightarrow> bytes \<Rightarrow> bytes \<Rightarrow> u32 \<Rightarrow> bytes" where
  "chacha20 output plain plain_len key nonce ctr = Hacl_Chacha20_chacha20 output plain plain_len key nonce ctr"

definition salsa20 :: "bytes \<Rightarrow> bytes \<Rightarrow> u32 \<Rightarrow> bytes \<Rightarrow> bytes \<Rightarrow> u64 \<Rightarrow> bytes" where
  "salsa20 output plain len key nonce ctr = Hacl_Salsa20_salsa20 output plain len key nonce ctr"

definition poly1305_onetimeauth :: "bytes \<Rightarrow> bytes \<Rightarrow> u64 \<Rightarrow> bytes \<Rightarrow> bytes" where
  "poly1305_onetimeauth output input input_len key = Hacl_Poly1305_64_crypto_onetimeauth output input input_len key"

definition aead_chacha20_poly1305_encrypt ::
    "bytes \<Rightarrow> bytes \<Rightarrow> bytes \<Rightarrow> u32 \<Rightarrow> bytes \<Rightarrow> u32 \<Rightarrow> bytes \<Rightarrow> bytes \<Rightarrow> bytes \<times> bytes \<times> u32" where
  "aead_chacha20_poly1305_encrypt cipher mac msg msg_len aad aad_len key nonce =
     Hacl_Chacha20Poly1305_aead_encrypt cipher mac msg msg_len aad aad_len key nonce"

definition aead_chacha20_poly1305_decrypt ::
    "bytes \<Rightarrow> bytes \<Rightarrow> u32 \<Rightarrow> bytes \<Rightarrow> bytes \<Rightarrow> u32 \<Rightarrow> bytes \<Rightarrow> bytes \<Rightarrow> bytes \<times> u32" where
  "aead_chacha20_poly1305_decrypt msg cipher msg_len mac aad aad_len key nonce =
     Hacl_Chacha20Poly1305_aead_decrypt msg cipher msg_len mac aad aad_len key nonce"

definition sha2_512_hash :: "bytes \<Rightarrow> bytes \<Rightarrow> u32 \<Rightarrow> bytes" where
  "sha2_512_hash hash1 input len = Hacl_SHA2_512_hash hash1 input len"

section \<open>Authenticators and hashing\<close>

definition crypto_auth :: "bytes \<Rightarrow> bytes \<Rightarrow> u64 \<Rightarrow> bytes \<Rightarrow> bytes \<times> int" where
  "crypto_auth output input input_len key =
     (let output = Hacl_HMAC_SHA2_256_hmac_core output key input (ucast input_len) in (output, 0))"

definition crypto_auth_verify :: "bytes \<Rightarrow> bytes \<Rightarrow> u64 \<Rightarrow> bytes \<Rightarrow> int" where
  "crypto_auth_verify tag input input_len key =
     (let recomputed_tag = replicate 32 0; tmp = 0xff :: u8;
          recomputed_tag = Hacl_HMAC_SHA2_256_hmac_core recomputed_tag key input (ucast input_len);
          tmp = for_loop 0 32 (\<lambda>i tmp. tmp AND FStar_UInt8_eq_mask (tag ! i) (recomputed_tag ! i)) tmp;
          tmp = drop_bit 7 tmp
      in uint tmp - 1)"

definition crypto_hash :: "bytes \<Rightarrow> bytes \<Rightarrow> u64 \<Rightarrow> bytes \<times> int" where
  "crypto_hash output input input_len =
     (let output = Hacl_SHA2_256_hash output input (ucast input_len) in (output, 0))"

definition crypto_onetimeauth :: "bytes \<Rightarrow> bytes \<Rightarrow> u64 \<Rightarrow> bytes \<Rightarrow> bytes \<times> int" where
  "crypto_onetimeauth output input input_len key =
     (let output = poly1305_onetimeauth output input input_len key in (output, 0))"

definition crypto_onetimeauth_verify :: "bytes \<Rightarrow> bytes \<Rightarrow> u64 \<Rightarrow> bytes \<Rightarrow> int" where
  "crypto_onetimeauth_verify auth input input_len key =
     (let tag = replicate 16 0; tmp = 0xff :: u8;
          tag = poly1305_onetimeauth tag input input_len key;
          tmp = for_loop 0 16 (\<lambda>i tmp. tmp AND FStar_UInt8_eq_mask (tag ! i) (auth ! i)) tmp;
          tmp = drop_bit 7 tmp
      in uint tmp - 1)"

section \<open>Scalar multiplication\<close>

definition crypto_scalarmult_base :: "bytes \<Rightarrow> bytes \<Rightarrow> bytes \<times> int" where
  "crypto_scalarmult_base q n =
     (let basepoint = 9 # replicate 31 0; q = Hacl_Curve25519_crypto_scalarmult q n basepoint in (q, 0))"

definition crypto_scalarmult :: "bytes \<Rightarrow> bytes \<Rightarrow> bytes \<Rightarrow> bytes \<times> int" where
  "crypto_scalarmult q n p = (let q = Hacl_Curve25519_crypto_scalarmult q n p in (q, 0))"

section \<open>Boxes\<close>

definition crypto_box_keypair ::
    "(bytes \<Rightarrow> u64 \<Rightarrow> 'e + bytes) \<Rightarrow> bytes \<Rightarrow> bytes \<Rightarrow> 'e + (bytes \<times> bytes \<times> int)" where
  "crypto_box_keypair randombytes pk sk =
     (case randombytes sk 32 of
        Inl e \<Rightarrow> Inl e
      | Inr sk \<Rightarrow>
          (let basepoint = 9 # replicate 31 0;
               pk = curve25519_scalarmult pk sk basepoint
           in Inr (pk, sk, 0)))"

definition crypto_box_easy :: "bytes \<Rightarrow> bytes \<Rightarrow> u64 \<Rightarrow> bytes \<Rightarrow> bytes \<Rightarrow> bytes \<Rightarrow> bytes \<times> int" where
  "crypto_box_easy c m mlen n pk sk = (case NaCl_crypto_box_easy c m mlen n pk sk of (c, r) \<Rightarrow> (c, sint r))"

definition crypto_box_open_easy :: "bytes \<Rightarrow> bytes \<Rightarrow> u64 \<Rightarrow> bytes \<Rightarrow> bytes \<Rightarrow> bytes \<Rightarrow> bytes \<times> int" where
  "crypto_box_open_easy m c clen n pk sk =
     (case NaCl_crypto_box_open_easy m c clen n pk sk of (m, r) \<Rightarrow> (m, sint r))"

definition crypto_box_beforenm :: "bytes \<Rightarrow> bytes \<Rightarrow> bytes \<Rightarrow> bytes \<times> int" where
  "crypto_box_beforenm k pk sk = (case NaCl_crypto_box_beforenm k pk sk of (k, r) \<Rightarrow> (k, sint r))"

definition crypto_box_easy_afternm :: "bytes \<Rightarrow> bytes \<Rightarrow> u64 \<Rightarrow> bytes \<Rightarrow> bytes \<Rightarrow> bytes \<times> int" where
  "crypto_box_easy_afternm c m mlen n k =
     (case NaCl_crypto_box_easy_afternm c m mlen n k of (c, r) \<Rightarrow> (c, sint r))"

definition crypto_box_open_easy_afternm :: "bytes \<Rightarrow> bytes \<Rightarrow> u64 \<Rightarrow> bytes \<Rightarrow> bytes \<Rightarrow> bytes \<times> int" where
  "crypto_box_open_easy_afternm m c clen n k =
     (case NaCl_crypto_box_open_easy_afternm m c clen n k of (m, r) \<Rightarrow> (m, sint r))"

definition crypto_box_detached_afternm ::
    "bytes \<Rightarrow> bytes \<Rightarrow> bytes \<Rightarrow> u64 \<Rightarrow> bytes \<Rightarrow> bytes \<Rightarrow> bytes \<times> bytes \<times> u32" where
  "crypto_box_detached_afternm c mac m mlen n k = NaCl_crypto_box_detached_afternm c mac m mlen n k"

definition crypto_box_detached ::
    "bytes \<Rightarrow> bytes \<Rightarrow> bytes \<Rightarrow> u64 \<Rightarrow> bytes \<Rightarrow> bytes \<Rightarrow> bytes \<Rightarrow> bytes \<times> bytes \<times> u32" where
  "crypto_box_detached c mac m mlen n pk sk = NaCl_crypto_box_detached c mac m mlen n pk sk"

definition crypto_box_open_detached ::
    "bytes \<Rightarrow> bytes \<Rightarrow> bytes \<Rightarrow> u64 \<Rightarrow> bytes \<Rightarrow> bytes \<Rightarrow> bytes \<Rightarrow> bytes \<times> u32" where
  "crypto_box_open_detached m c mac mlen n pk sk = NaCl_crypto_box_open_detached m c mac mlen n pk sk"

text \<open>The call is to the boxing function, which writes its first two arguments.\<close>

definition crypto_box_open_detached_afternm ::
    "bytes \<Rightarrow> bytes \<Rightarrow> bytes \<Rightarrow> u64 \<Rightarrow> bytes \<Rightarrow> bytes \<Rightarrow> bytes \<times> bytes \<times> u32" where
  "crypto_box_open_detached_afternm m c mac mlen n k = NaCl_crypto_box_detached_afternm m c mac mlen n k"

definition crypto_box :: "bytes \<Rightarrow> bytes \<Rightarrow> u64 \<Rightarrow> bytes \<Rightarrow> bytes \<Rightarrow> bytes \<Rightarrow> bytes \<times> int" where
  "crypto_box cipher msg msg_len nonce pk sk = crypto_box_easy cipher msg (msg_len - 32) nonce pk sk"

definition crypto_box_open :: "bytes \<Rightarrow> bytes \<Rightarrow> u64 \<Rightarrow> bytes \<Rightarrow> bytes \<Rightarrow> bytes \<Rightarrow> bytes \<times> int" where
  "crypto_box_open msg cipher cipher_len nonce pk sk =
     crypto_box_open_easy msg cipher (cipher_len - 32) nonce pk sk"

definition crypto_box_afternm :: "bytes \<Rightarrow> bytes \<Rightarrow> u64 \<Rightarrow> bytes \<Rightarrow> bytes \<Rightarrow> bytes \<times> int" where
  "crypto_box_afternm cipher msg msg_len nonce key =
     (case NaCl_crypto_box_easy_afternm cipher msg msg_len nonce key of (c, r) \<Rightarrow> (c, sint r))"

definition crypto_box_open_afternm :: "bytes \<Rightarrow> bytes \<Rightarrow> u64 \<Rightarrow> bytes \<Rightarrow> bytes \<Rightarrow> bytes \<times> int" where
  "crypto_box_open_afternm msg cipher cipher_len nonce key =
     (case NaCl_crypto_box_open_easy_afternm msg cipher cipher_len nonce key of (m, r) \<Rightarrow> (m, sint r))"

section \<open>Secret boxes and streams\<close>

definition crypto_secretbox_detached ::
    "bytes \<Rightarrow> bytes \<Rightarrow> bytes \<Rightarrow> u64 \<Rightarrow> bytes \<Rightarrow> bytes \<Rightarrow> bytes \<times> bytes \<times> u32" where
  "crypto_secretbox_detached c mac m mlen n k = NaCl_crypto_secretbox_detached c mac m mlen n k"

definition crypto_secretbox_open_detached ::
    "bytes \<Rightarrow> bytes \<Rightarrow> bytes \<Rightarrow> u64 \<Rightarrow> bytes \<Rightarrow> bytes \<Rightarrow> bytes \<times> u32" where
  "crypto_secretbox_open_detached m c mac clen n k = NaCl_crypto_secretbox_open_detached m c mac clen n k"

definition crypto_secretbox_easy :: "bytes \<Rightarrow> bytes \<Rightarrow> u64 \<Rightarrow> bytes \<Rightarrow> bytes \<Rightarrow> bytes \<times> u32" where
  "crypto_secretbox_easy c m mlen n k = NaCl_crypto_secretbox_easy c m mlen n k"

definition crypto_secretbox_open_easy :: "bytes \<Rightarrow> bytes \<Rightarrow> u64 \<Rightarrow> bytes \<Rightarrow> bytes \<Rightarrow> bytes \<times> u32" where
  "crypto_secretbox_open_easy m c clen n k = NaCl_crypto_secretbox_open_easy m c clen n k"

definition crypto_secretbox :: "bytes \<Rightarrow> bytes \<Rightarrow> u64 \<Rightarrow> bytes \<Rightarrow> bytes \<Rightarrow> bytes \<times> int" where
  "crypto_secretbox cipher msg msg_len nonce key =
     (case crypto_secretbox_easy cipher msg (msg_len - 32) nonce key of (c, r) \<Rightarrow> (c, sint r))"

definition crypto_secretbox_open :: "bytes \<Rightarrow> bytes \<Rightarrow> u64 \<Rightarrow> bytes \<Rightarrow> bytes \<Rightarrow> bytes \<times> int" where
  "crypto_secretbox_open msg cipher cipher_len nonce key =
     (case crypto_secretbox_open_detached msg cipher (drop 16 cipher) (cipher_len - 32) nonce key of
        (m, r) \<Rightarrow> (m, sint r))"

definition crypto_stream :: "bytes \<Rightarrow> u64 \<Rightarrow> bytes \<Rightarrow> bytes \<Rightarrow> bytes \<times> int" where
  "crypto_stream cipher cipher_len nonce key =
     (let subkey = replicate 32 0;
          cipher = replicate (unat cipher_len) 0 @ drop (unat cipher_len) cipher;
          subkey = Hacl_Salsa20_hsalsa20 subkey key nonce;
          cipher = Hacl_Salsa20_salsa20 cipher cipher (ucast cipher_len) subkey (drop 16 nonce) 0
      in (cipher, 0))"

definition crypto_stream_xor :: "bytes \<Rightarrow> bytes \<Rightarrow> u64 \<Rightarrow> bytes \<Rightarrow> bytes \<Rightarrow> bytes \<times> int" where
  "crypto_stream_xor cipher msg cipher_len nonce key =
     (let subkey = replicate 32 0;
          cipher = replicate (unat cipher_len) 0 @ drop (unat cipher_len) cipher;
          subkey = Hacl_Salsa20_hsalsa20 subkey key nonce;
          cipher = Hacl_Salsa20_salsa20 cipher msg (ucast cipher_len) subkey (drop 16 nonce) 0
      in (cipher, 0))"

section \<open>What the functions compute\<close>

text \<open>The comparison loops: the top bit of the accumulated mask says whether all bytes agree.\<close>

lemma verify_loop:
  "for_loop 0 n (\<lambda>i tmp. tmp AND FStar_UInt8_eq_mask (a ! i) (b ! i)) 255
   = (if \<forall>i < n. a ! i = b ! i then 255 else 0 :: u8)"
  by (induction n) (auto simp: for_loop_Suc eq_mask8 less_Suc_eq)

lemma verify_code:
  assumes "n \<le> length a" and "n \<le> length b"
  shows "uint (drop_bit 7 (for_loop 0 n (\<lambda>i tmp. tmp AND FStar_UInt8_eq_mask (a ! i) (b ! i)) 255)) - 1
         = (if take n a = take n b then 0 else - 1)"
  using assms by (simp add: verify_loop take_eq_iff)

lemma unat_cut: "unat len < 2 ^ 32 \<Longrightarrow> unat (ucast (len :: u64) :: u32) = unat len"
  by (simp add: unat_ucast_down)

text \<open>The authenticator reads 64 bytes of its key argument.\<close>

lemma crypto_auth_eq:
  fixes len :: u64
  assumes "unat len < 2 ^ 32" and "unat len \<le> length m" and "64 \<le> length k" and "32 \<le> length out"
  shows "Hacl_HMAC_SHA2_256_hmac_core out k m (ucast len)
         = hmac_block_key (take 64 k) (take (unat len) m) @ drop 32 out"
proof -
  have "Hacl_Impl_HMAC_SHA2_256_xor_bytes_inplace p k 64
        = Hacl_Impl_HMAC_SHA2_256_xor_bytes_inplace p (take 64 k) 64" if "length p = 64" for p
    using that assms(3) by (simp add: xor_inplace_eq min_absorb2)
  then have "Hacl_Impl_HMAC_SHA2_256_hmac_core out k m (ucast len)
      = Hacl_Impl_HMAC_SHA2_256_hmac_core out (take 64 k) m (ucast len)"
    by (simp only: Hacl_Impl_HMAC_SHA2_256_hmac_core_def Let_def length_replicate)
  moreover have "Hacl_Impl_HMAC_SHA2_256_hmac_core out (take 64 k) m (ucast len)
      = hmac_block_key (take 64 k) (take (unat (ucast len :: u32)) m) @ drop 32 out"
    using assms by (intro hmac_core_eq) (simp_all add: unat_cut)
  ultimately show ?thesis
    by (simp only: Hacl_HMAC_SHA2_256_hmac_core_def unat_cut [OF assms(1)])
qed

lemma length_hmac [simp]: "length (hmac_block_key k m) = 32"
  by (simp add: hmac_block_key_def)

lemma scalarmult_base_eq:
  "32 \<le> length n \<Longrightarrow> 32 \<le> length q \<Longrightarrow>
   crypto_scalarmult_base q n = (x25519 n (9 # replicate 31 0) @ drop 32 q, 0)"
  by (simp add: crypto_scalarmult_base_def Hacl_Curve25519_crypto_scalarmult_def scalarmult_correct)

text \<open>The public key of a new pair is the scalar multiple of the base point.\<close>

lemma box_keypair_eq:
  assumes "randombytes sk 32 = Inr s" and "32 \<le> length s" and "length pk = 32"
  shows "crypto_box_keypair randombytes pk sk = Inr (x25519 s (9 # replicate 31 0), s, 0)"
  using assms
  by (simp add: crypto_box_keypair_def curve25519_scalarmult_def Hacl_Curve25519_crypto_scalarmult_def
      scalarmult_correct Let_def)

lemma box_keypair_exit:
  "randombytes sk 32 = Inl e \<Longrightarrow> crypto_box_keypair randombytes pk sk = Inl e"
  by (simp add: crypto_box_keypair_def)

lemma hash_eq:
  assumes "unat len < 2 ^ 32" and "unat len \<le> length m" and "32 \<le> length out"
  shows "crypto_hash out m len = (sha256_spec (take (unat len) m) @ drop 32 out, 0)"
  using assms by (simp add: crypto_hash_def sha256_hash_eq unat_cut)

lemma stream_xor_eq:
  assumes "unat len < 2 ^ 32" and "length c = unat len" and "length m = unat len"
  shows "crypto_stream_xor c m len n k = (ctr_encrypt (xsalsa_blk (k, n)) 0 m, 0)"
    and "crypto_stream c len n k = (ctr_encrypt (xsalsa_blk (k, n)) 0 (replicate (unat len) 0), 0)"
  using assms
  by (simp_all add: crypto_stream_xor_def crypto_stream_def hsalsa20_eq salsa20_eq unat_cut xsalsa_key)

text \<open>
  The detached boxing of a buffer whose first 32 bytes need not be zero: the one-time key is what
  the cipher leaves in their place.
\<close>

lemma detached_unpadded:
  assumes "unat mlen + 32 < 2 ^ 32" and "length m = unat mlen + 32" and "length c = unat mlen + 32"
    and "16 \<le> length mac"
  shows "Hacl_SecretBox_ZeroPad_crypto_secretbox_detached c mac m mlen n k
         = (let e = ctr_encrypt (xsalsa_blk (k, n)) 0 m
            in (replicate 32 0 @ drop 32 e, poly1305_mac (drop 32 e) (take 32 e) @ drop 16 mac, 0))"
proof -
  have l: "unat (ucast mlen + 32 :: u32) = unat mlen + 32" "unat mlen < 2 ^ 32"
    using assms(1) unat_len32 by simp_all
  show ?thesis using assms l(2)
    by (simp add: Hacl_SecretBox_ZeroPad_crypto_secretbox_detached_def Let_def hsalsa20_eq salsa20_eq l(1)
        xsalsa_key onetimeauth_correct set_zero_eq poly1305_mac_take)
qed

section \<open>Properties\<close>

text \<open>
  C7: The two verification functions return 0 exactly when the given tag is the tag of the input,
  and \<open>-1\<close> for every other tag; no other code is returned.
\<close>

theorem tag_verification:
  assumes "unat len < 2 ^ 32" and "unat len \<le> length m"
    and "32 \<le> length tag" and "64 \<le> length k" and "16 \<le> length auth" and "32 \<le> length k1"
  shows "crypto_auth_verify tag m len k
           = (if take 32 tag = hmac_block_key (take 64 k) (take (unat len) m) then 0 else - 1)
         \<and> crypto_onetimeauth_verify auth m len k1
           = (if take 16 auth = poly1305_mac (take (unat len) m) k1 then 0 else - 1)"
  using assms
    verify_code [of 32 tag "hmac_block_key (take 64 k) (take (unat len) m)"]
    verify_code [of 16 "poly1305_mac (take (unat len) m) k1" auth]
  by (auto simp: crypto_auth_verify_def crypto_onetimeauth_verify_def poly1305_onetimeauth_def
      crypto_auth_eq onetimeauth_correct)

theorem tag_verification_witness:
  "crypto_auth_verify (replicate 32 7) [1, 2, 3] 2 (replicate 64 5)
     = (if replicate 32 7 = hmac_block_key (replicate 64 5) [1, 2] then 0 else - 1)
   \<and> crypto_onetimeauth_verify (replicate 16 7) [1, 2, 3] 2 (replicate 32 5)
     = (if replicate 16 7 = poly1305_mac [1, 2] (replicate 32 5) then 0 else - 1)"
  using tag_verification [of 2 "[1, 2, 3]" "replicate 32 7" "replicate 64 5" "replicate 16 7" "replicate 32 5"]
  by simp

text \<open>
  C6: The NaCl secret box: opening the output of \<open>crypto_secretbox\<close> with the same key and nonce
  returns 0 and the padded message, for every length up to 2^32.
\<close>

theorem crypto_secretbox_roundtrip:
  assumes "32 \<le> unat len" and "unat len < 2 ^ 32" and "length m = unat len" and "take 32 m = replicate 32 0"
    and "length c0 = unat len" and "length m0 = unat len"
  shows "crypto_secretbox_open m0 (fst (crypto_secretbox c0 m len n k)) len n k = (m, 0)"
proof -
  have l: "unat (len - 32) = unat len - 32" using assms(1) by (simp add: unat_minus)
  have "padded (len - 32) m" using assms l by (simp add: padded_def)
  then show ?thesis
    using assms l open_boxed [of "len - 32" m m0 k n]
    by (simp add: crypto_secretbox_open_def crypto_secretbox_def crypto_secretbox_easy_def
        crypto_secretbox_open_detached_def NaCl_crypto_secretbox_easy_def
        NaCl_crypto_secretbox_open_detached_def easy_eq)
qed

theorem crypto_secretbox_roundtrip_witness:
  "crypto_secretbox_open (replicate 33 0) (fst (crypto_secretbox (replicate 33 0) (replicate 32 0 @ [7]) 33 [] [])) 33 [] []
   = (replicate 32 0 @ [7], 0)"
  by (rule crypto_secretbox_roundtrip) simp_all

text \<open>
  The stream cipher: \<open>crypto_stream\<close> writes the XSalsa20 key stream, \<open>crypto_stream_xor\<close> its
  exclusive or with the message, and applying the latter twice gives the message back.
\<close>

theorem crypto_stream_correct:
  assumes "unat len < 2 ^ 32" and "length c = unat len" and "length m = unat len"
  shows "crypto_stream_xor c m len n k = (ctr_encrypt (xsalsa_blk (k, n)) 0 m, 0)
         \<and> fst (crypto_stream_xor c m len n k) = xor_bytes m (fst (crypto_stream c len n k))
         \<and> crypto_stream_xor c (fst (crypto_stream_xor c m len n k)) len n k = (m, 0)"
proof -
  have x: "ctr_encrypt (xsalsa_blk (k, n)) 0 m
        = xor_bytes m (ctr_encrypt (xsalsa_blk (k, n)) 0 (replicate (unat len) 0))"
  proof (rule nth_equalityI)
    fix i assume i: "i < length (ctr_encrypt (xsalsa_blk (k, n)) 0 m)"
    then have "i < unat len" "i < 64 * ((unat len + 63) div 64)" using assms by simp_all
    then show "ctr_encrypt (xsalsa_blk (k, n)) 0 m ! i
        = xor_bytes m (ctr_encrypt (xsalsa_blk (k, n)) 0 (replicate (unat len) 0)) ! i"
      using assms by (simp add: ctr_encrypt_def length_keystream)
  qed (use assms in simp)
  have "crypto_stream_xor c (ctr_encrypt (xsalsa_blk (k, n)) 0 m) len n k = (m, 0)"
    using assms by (simp add: stream_xor_eq ctr_encrypt_twice)
  then show ?thesis using assms by (simp only: stream_xor_eq fst_conv simp_thms flip: x)
qed

theorem crypto_stream_correct_witness:
  "crypto_stream_xor [0, 0] [1, 2] 2 [] [] = (ctr_encrypt (xsalsa_blk ([], [])) 0 [1, 2], 0)
   \<and> fst (crypto_stream_xor [0, 0] [1, 2] 2 [] []) = xor_bytes [1, 2] (fst (crypto_stream [0, 0] 2 [] []))
   \<and> crypto_stream_xor [0, 0] (fst (crypto_stream_xor [0, 0] [1, 2] 2 [] [])) 2 [] [] = ([1, 2], 0)"
  by (rule crypto_stream_correct) simp_all

text \<open>
  C19: \<open>crypto_box_afternm\<close> does not take the 32 padding bytes off the length, as the function
  \<open>crypto_box\<close> does: under the key of \<open>crypto_box_beforenm\<close> it handles the message of a length as
  \<open>crypto_box\<close> handles one 32 bytes longer, and the same holds of the two opening functions.
\<close>

theorem box_afternm_length:
  assumes "32 \<le> length sk" and "32 \<le> length pk" and "32 \<le> length k1"
  shows "crypto_box_afternm c m len n (fst (crypto_box_beforenm k1 pk sk)) = crypto_box c m (len + 32) n pk sk
         \<and> crypto_box_open_afternm m c len n (fst (crypto_box_beforenm k1 pk sk))
           = crypto_box_open m c (len + 32) n pk sk"
  using assms
  by (simp add: crypto_box_afternm_def crypto_box_open_afternm_def crypto_box_def crypto_box_open_def
      crypto_box_easy_def crypto_box_open_easy_def crypto_box_beforenm_def split_beta
      box_easy_defs beforenm_eq box_detached_eq box_open_detached_eq box_key_def
      detached_key open_detached_key)

theorem box_afternm_length_witness:
  "crypto_box_afternm [] [] 0 [] (fst (crypto_box_beforenm (replicate 32 0) (replicate 32 9) (replicate 32 5)))
     = crypto_box [] [] (0 + 32) [] (replicate 32 9) (replicate 32 5)
   \<and> crypto_box_open_afternm [] [] 0 [] (fst (crypto_box_beforenm (replicate 32 0) (replicate 32 9) (replicate 32 5)))
     = crypto_box_open [] [] (0 + 32) [] (replicate 32 9) (replicate 32 5)"
  by (rule box_afternm_length) simp_all

text \<open>
  C17: \<open>crypto_box_open_detached_afternm\<close> does not open: it encrypts the bytes at its tag pointer, as
  many as a padded message has, over the output buffer, with 32 zero bytes in front, writes the tag of
  that encryption over the first 16 bytes of the ciphertext it was given, and returns 0 whatever
  the ciphertext and the tag are.  The function \<open>NaCl.c\<close> has for the task, on the same
  arguments, returns 0 exactly when the tag is the tag of the ciphertext.
\<close>

theorem box_open_detached_afternm_boxes:
  assumes "unat mlen + 32 < 2 ^ 32" and "length m = unat mlen + 32" and "length c = unat mlen + 32"
    and "length mac = unat mlen + 32"
  shows "crypto_box_open_detached_afternm m c mac mlen n k
           = (let e = ctr_encrypt (xsalsa_blk (k, n)) 0 mac
              in (replicate 32 0 @ drop 32 e, poly1305_mac (drop 32 e) (take 32 e) @ drop 16 c, 0))
         \<and> snd (NaCl_crypto_box_open_detached_afternm m c mac mlen n k)
           = (if take 16 mac = poly1305_mac (drop 32 c) (take 32 (xsalsa_blk (k, n) 0)) then 0 else 0xffffffff)"
  using assms
  by (simp add: crypto_box_open_detached_afternm_def NaCl_crypto_box_detached_afternm_def
      Hacl_Box_ZeroPad_crypto_box_detached_afternm_def detached_unpadded NaCl_crypto_box_open_detached_afternm_def
      Hacl_Box_ZeroPad_crypto_box_open_detached_afternm_def open_detached_eq unseal_def box_tag_def)

theorem box_open_detached_afternm_boxes_witness:
  "crypto_box_open_detached_afternm (replicate 40 7) (replicate 40 5) (replicate 40 3) 8 [] []
     = (let e = ctr_encrypt (xsalsa_blk ([], [])) 0 (replicate 40 3)
        in (replicate 32 0 @ drop 32 e, poly1305_mac (drop 32 e) (take 32 e) @ replicate 24 5, 0))
   \<and> snd (NaCl_crypto_box_open_detached_afternm (replicate 40 7) (replicate 40 5) (replicate 40 3) 8 [] [])
     = (if replicate 16 3 = poly1305_mac (replicate 8 5) (take 32 (xsalsa_blk ([], []) 0)) then 0 else 0xffffffff)"
  using box_open_detached_afternm_boxes
    [of 8 "replicate 40 7" "replicate 40 5" "replicate 40 3" "[]" "[]"]
  by (simp add: drop_replicate take_replicate)

end
