(* ===== verification/Ed25519_Scalar.thy ===== *)
theory Ed25519_Scalar
  imports Limbs LoadStore
begin

text \<open>
  The scalars of \<open>Hacl_Ed25519.c\<close>: numbers modulo the group order \<open>q = 2 ^ 252 + \<dots>\<close> in five
  limbs of 56 bits (\<open>Hacl_Impl_BignumQ_Mul\<close>), with the conversions from and to bytes
  (\<open>Hacl_Impl_Load56\<close>, \<open>Hacl_Impl_Store56\<close>) and the range check of a signature.  Products and
  hashes are numbers of ten limbs; Barrett reduction brings them below \<open>q\<close>.
\<close>

section \<open>Arrays\<close>

definition Hacl_Lib_Create64_make_h64_5 ::
    "u64 list \<Rightarrow> u64 \<Rightarrow> u64 \<Rightarrow> u64 \<Rightarrow> u64 \<Rightarrow> u64 \<Rightarrow> u64 list" where
  "Hacl_Lib_Create64_make_h64_5 b s0 s1 s2 s3 s4 =
     (let b = b[0 := s0]; b = b[1 := s1]; b = b[2 := s2]; b = b[3 := s3]; b = b[4 := s4] in b)"

definition Hacl_Lib_Create64_make_h64_10 ::
    "u64 list \<Rightarrow> u64 \<Rightarrow> u64 \<Rightarrow> u64 \<Rightarrow> u64 \<Rightarrow> u64 \<Rightarrow> u64 \<Rightarrow> u64 \<Rightarrow> u64 \<Rightarrow> u64 \<Rightarrow> u64 \<Rightarrow> u64 list" where
  "Hacl_Lib_Create64_make_h64_10 b s0 s1 s2 s3 s4 s5 s6 s7 s8 s9 =
     (let b = b[0 := s0]; b = b[1 := s1]; b = b[2 := s2]; b = b[3 := s3]; b = b[4 := s4];
          b = b[5 := s5]; b = b[6 := s6]; b = b[7 := s7]; b = b[8 := s8]; b = b[9 := s9] in b)"

definition Hacl_Lib_Create128_make_h128_9 ::
    "u128 list \<Rightarrow> u128 \<Rightarrow> u128 \<Rightarrow> u128 \<Rightarrow> u128 \<Rightarrow> u128 \<Rightarrow> u128 \<Rightarrow> u128 \<Rightarrow> u128 \<Rightarrow> u128 \<Rightarrow> u128 list" where
  "Hacl_Lib_Create128_make_h128_9 b s0 s1 s2 s3 s4 s5 s6 s7 s8 =
     (let b = b[0 := s0]; b = b[1 := s1]; b = b[2 := s2]; b = b[3 := s3]; b = b[4 := s4];
          b = b[5 := s5]; b = b[6 := s6]; b = b[7 := s7]; b = b[8 := s8] in b)"

section \<open>Reduction modulo the group order\<close>

definition Hacl_Impl_BignumQ_Mul_make_m :: "u64 list \<Rightarrow> u64 list" where
  "Hacl_Impl_BignumQ_Mul_make_m m1 =
     Hacl_Lib_Create64_make_h64_5 m1 0x12631a5cf5d3ed 0xf9dea2f79cd658 0x14de 0 0x10000000"

definition Hacl_Impl_BignumQ_Mul_make_mu :: "u64 list \<Rightarrow> u64 list" where
  "Hacl_Impl_BignumQ_Mul_make_mu m1 =
     Hacl_Lib_Create64_make_h64_5 m1 0x9ce5a30a2c131b 0x215d086329a7ed 0xffffffffeb2106 0xffffffffffffff 0xfffffffff"

definition Hacl_Impl_BignumQ_Mul_choose ::
    "u64 list \<Rightarrow> u64 list \<Rightarrow> u64 list \<Rightarrow> u64 \<Rightarrow> u64 list" where
  "Hacl_Impl_BignumQ_Mul_choose z x y b =
     (let mask' = b - 1; x0 = x ! 0; x1 = x ! 1; x2 = x ! 2; x3 = x ! 3; x4 = x ! 4; y0 = y ! 0;
          y1 = y ! 1; y2 = y ! 2; y3 = y ! 3; y4 = y ! 4; z0 = ((y0 XOR x0) AND mask') XOR x0;
          z1 = ((y1 XOR x1) AND mask') XOR x1; z2 = ((y2 XOR x2) AND mask') XOR x2;
          z3 = ((y3 XOR x3) AND mask') XOR x3; z4 = ((y4 XOR x4) AND mask') XOR x4;
          z = Hacl_Lib_Create64_make_h64_5 z z0 z1 z2 z3 z4
      in z)"

definition Hacl_Impl_BignumQ_Mul_lt :: "u64 \<Rightarrow> u64 \<Rightarrow> u64" where
  "Hacl_Impl_BignumQ_Mul_lt a b = drop_bit 63 (a - b)"

definition Hacl_Impl_BignumQ_Mul_shiftl_56 :: "u64 \<Rightarrow> u64" where
  "Hacl_Impl_BignumQ_Mul_shiftl_56 b = push_bit 56 b"

definition Hacl_Impl_BignumQ_Mul_sub_mod_264 ::
    "u64 list \<Rightarrow> u64 list \<Rightarrow> u64 list \<Rightarrow> u64 list" where
  "Hacl_Impl_BignumQ_Mul_sub_mod_264 z x y =
     (let x0 = x ! 0; x1 = x ! 1; x2 = x ! 2; x3 = x ! 3; x4 = x ! 4; y0 = y ! 0; y1 = y ! 1;
          y2 = y ! 2; y3 = y ! 3; y4 = y ! 4; b = Hacl_Impl_BignumQ_Mul_lt x0 y0;
          t0 = Hacl_Impl_BignumQ_Mul_shiftl_56 b + x0 - y0;
          y11 = y1 + b; b1 = Hacl_Impl_BignumQ_Mul_lt x1 y11;
          t1 = Hacl_Impl_BignumQ_Mul_shiftl_56 b1 + x1 - y11;
          y21 = y2 + b1; b2 = Hacl_Impl_BignumQ_Mul_lt x2 y21;
          t2 = Hacl_Impl_BignumQ_Mul_shiftl_56 b2 + x2 - y21;
          y31 = y3 + b2; b3 = Hacl_Impl_BignumQ_Mul_lt x3 y31;
          t3 = Hacl_Impl_BignumQ_Mul_shiftl_56 b3 + x3 - y31;
          y41 = y4 + b3; b4 = Hacl_Impl_BignumQ_Mul_lt x4 y41; t4 = push_bit 40 b4 + x4 - y41;
          z = Hacl_Lib_Create64_make_h64_5 z t0 t1 t2 t3 t4
      in z)"

definition Hacl_Impl_BignumQ_Mul_subm_conditional ::
    "u64 list \<Rightarrow> u64 list \<Rightarrow> u64 list" where
  "Hacl_Impl_BignumQ_Mul_subm_conditional z x =
     (let tmp = replicate 5 0; x0 = x ! 0; x1 = x ! 1; x2 = x ! 2; x3 = x ! 3; x4 = x ! 4;
          tmp = Hacl_Lib_Create64_make_h64_5 tmp x0 x1 x2 x3 x4;
          y0 = 0x12631a5cf5d3ed; y1 = 0xf9dea2f79cd658; y2 = 0x14de; y3 = 0; y4 = 0x10000000;
          b = Hacl_Impl_BignumQ_Mul_lt x0 y0;
          t0 = Hacl_Impl_BignumQ_Mul_shiftl_56 b + x0 - y0;
          y11 = y1 + b; b1 = Hacl_Impl_BignumQ_Mul_lt x1 y11;
          t1 = Hacl_Impl_BignumQ_Mul_shiftl_56 b1 + x1 - y11;
          y21 = y2 + b1; b2 = Hacl_Impl_BignumQ_Mul_lt x2 y21;
          t2 = Hacl_Impl_BignumQ_Mul_shiftl_56 b2 + x2 - y21;
          y31 = y3 + b2; b3 = Hacl_Impl_BignumQ_Mul_lt x3 y31;
          t3 = Hacl_Impl_BignumQ_Mul_shiftl_56 b3 + x3 - y31;
          y41 = y4 + b3; b4 = Hacl_Impl_BignumQ_Mul_lt x4 y41;
          t4 = Hacl_Impl_BignumQ_Mul_shiftl_56 b4 + x4 - y41;
          z = Hacl_Lib_Create64_make_h64_5 z t0 t1 t2 t3 t4;
          z = Hacl_Impl_BignumQ_Mul_choose z tmp z b4
      in z)"

definition Hacl_Impl_BignumQ_Mul_low_mul_5 ::
    "u64 list \<Rightarrow> u64 list \<Rightarrow> u64 list \<Rightarrow> u64 list" where
  "Hacl_Impl_BignumQ_Mul_low_mul_5 z x y =
     (let x0 = x ! 0; x1 = x ! 1; x2 = x ! 2; x3 = x ! 3; x4 = x ! 4; y0 = y ! 0; y1 = y ! 1;
          y2 = y ! 2; y3 = y ! 3; y4 = y ! 4; xy00 = u128_mul_wide x0 y0; xy01 = u128_mul_wide x0 y1;
          xy02 = u128_mul_wide x0 y2; xy03 = u128_mul_wide x0 y3; xy04 = u128_mul_wide x0 y4;
          xy10 = u128_mul_wide x1 y0; xy11 = u128_mul_wide x1 y1; xy12 = u128_mul_wide x1 y2;
          xy13 = u128_mul_wide x1 y3; xy20 = u128_mul_wide x2 y0; xy21 = u128_mul_wide x2 y1;
          xy22 = u128_mul_wide x2 y2; xy30 = u128_mul_wide x3 y0; xy31 = u128_mul_wide x3 y1;
          xy40 = u128_mul_wide x4 y0; x5 = xy00; carry1 = u128_shift_right x5 56;
          t = uint128_to_uint64 x5 AND 0xffffffffffffff;
          t0 = t;
          x6 = u128_add (u128_add xy01 xy10) carry1;
          carry2 = u128_shift_right x6 56;
          t1 = uint128_to_uint64 x6 AND 0xffffffffffffff;
          t11 = t1;
          x7 = u128_add (u128_add (u128_add xy02 xy11) xy20) carry2;
          carry3 = u128_shift_right x7 56;
          t2 = uint128_to_uint64 x7 AND 0xffffffffffffff;
          t21 = t2;
          x8 = u128_add (u128_add (u128_add (u128_add xy03 xy12) xy21) xy30) carry3;
          carry4 = u128_shift_right x8 56;
          t3 = uint128_to_uint64 x8 AND 0xffffffffffffff;
          t31 = t3;
          t4 = uint128_to_uint64 (u128_add (u128_add (u128_add (u128_add (u128_add xy04 xy13) xy22) xy31) xy40) carry4) AND 0xffffffffff;
          z = Hacl_Lib_Create64_make_h64_5 z t0 t11 t21 t31 t4
      in z)"

definition Hacl_Impl_BignumQ_Mul_mul_5 ::
    "u128 list \<Rightarrow> u64 list \<Rightarrow> u64 list \<Rightarrow> u128 list" where
  "Hacl_Impl_BignumQ_Mul_mul_5 z x y =
     (let x0 = x ! 0; x1 = x ! 1; x2 = x ! 2; x3 = x ! 3; x4 = x ! 4; y0 = y ! 0; y1 = y ! 1;
          y2 = y ! 2; y3 = y ! 3; y4 = y ! 4; xy00 = u128_mul_wide x0 y0; xy01 = u128_mul_wide x0 y1;
          xy02 = u128_mul_wide x0 y2; xy03 = u128_mul_wide x0 y3; xy04 = u128_mul_wide x0 y4;
          xy10 = u128_mul_wide x1 y0; xy11 = u128_mul_wide x1 y1; xy12 = u128_mul_wide x1 y2;
          xy13 = u128_mul_wide x1 y3; xy14 = u128_mul_wide x1 y4; xy20 = u128_mul_wide x2 y0;
          xy21 = u128_mul_wide x2 y1; xy22 = u128_mul_wide x2 y2; xy23 = u128_mul_wide x2 y3;
          xy24 = u128_mul_wide x2 y4; xy30 = u128_mul_wide x3 y0; xy31 = u128_mul_wide x3 y1;
          xy32 = u128_mul_wide x3 y2; xy33 = u128_mul_wide x3 y3; xy34 = u128_mul_wide x3 y4;
          xy40 = u128_mul_wide x4 y0; xy41 = u128_mul_wide x4 y1; xy42 = u128_mul_wide x4 y2;
          xy43 = u128_mul_wide x4 y3; xy44 = u128_mul_wide x4 y4; z0 = xy00; z1 = u128_add xy01 xy10;
          z2 = u128_add (u128_add xy02 xy11) xy20;
          z3 = u128_add (u128_add (u128_add xy03 xy12) xy21) xy30;
          z4 = u128_add (u128_add (u128_add (u128_add xy04 xy13) xy22) xy31) xy40;
          z5 = u128_add (u128_add (u128_add xy14 xy23) xy32) xy41;
          z6 = u128_add (u128_add xy24 xy33) xy42;
          z7 = u128_add xy34 xy43; z8 = xy44;
          z = Hacl_Lib_Create128_make_h128_9 z z0 z1 z2 z3 z4 z5 z6 z7 z8
      in z)"

definition Hacl_Impl_BignumQ_Mul_carry ::
    "u64 list \<Rightarrow> u128 list \<Rightarrow> u64 list" where
  "Hacl_Impl_BignumQ_Mul_carry out z =
     (let z0 = z ! 0; z1 = z ! 1; z2 = z ! 2; z3 = z ! 3; z4 = z ! 4; z5 = z ! 5; z6 = z ! 6;
          z7 = z ! 7; z8 = z ! 8; x = z0; y = z1; carry1 = u128_shift_right x 56;
          t = uint128_to_uint64 x AND 0xffffffffffffff;
          x0 = t; z1' = u128_add y carry1; x1 = z1'; y1 = z2; carry2 = u128_shift_right x1 56;
          t1 = uint128_to_uint64 x1 AND 0xffffffffffffff;
          x11 = t1; z2' = u128_add y1 carry2; x2 = z2'; y2 = z3; carry3 = u128_shift_right x2 56;
          t2 = uint128_to_uint64 x2 AND 0xffffffffffffff;
          x21 = t2; z3' = u128_add y2 carry3; x3 = z3'; y3 = z4; carry4 = u128_shift_right x3 56;
          t3 = uint128_to_uint64 x3 AND 0xffffffffffffff;
          x31 = t3; z4' = u128_add y3 carry4; x4 = z4'; y4 = z5; carry5 = u128_shift_right x4 56;
          t4 = uint128_to_uint64 x4 AND 0xffffffffffffff;
          x41 = t4; z5' = u128_add y4 carry5; x5 = z5'; y5 = z6; carry6 = u128_shift_right x5 56;
          t5 = uint128_to_uint64 x5 AND 0xffffffffffffff;
          x51 = t5; z6' = u128_add y5 carry6; x6 = z6'; y6 = z7; carry7 = u128_shift_right x6 56;
          t6 = uint128_to_uint64 x6 AND 0xffffffffffffff;
          x61 = t6; z7' = u128_add y6 carry7; x7 = z7'; y7 = z8; carry8 = u128_shift_right x7 56;
          t7 = uint128_to_uint64 x7 AND 0xffffffffffffff;
          x71 = t7; z8' = u128_add y7 carry8; x8 = z8'; y8 = uint64_to_uint128 0;
          carry9 = u128_shift_right x8 56;
          t8 = uint128_to_uint64 x8 AND 0xffffffffffffff;
          x81 = t8; z9' = u128_add y8 carry9; x9 = uint128_to_uint64 z9';
          out = Hacl_Lib_Create64_make_h64_10 out x0 x11 x21 x31 x41 x51 x61 x71 x81 x9
      in out)"

definition Hacl_Impl_BignumQ_Mul_mod_264 ::
    "u64 list \<Rightarrow> u64 list \<Rightarrow> u64 list" where
  "Hacl_Impl_BignumQ_Mul_mod_264 r t =
     (let x0 = t ! 0; x1 = t ! 1; x2 = t ! 2; x3 = t ! 3; x4 = t ! 4; x4' = x4 AND 0xffffffffff;
          r = Hacl_Lib_Create64_make_h64_5 r x0 x1 x2 x3 x4'
      in r)"

definition Hacl_Impl_BignumQ_Mul_div_248 ::
    "u64 list \<Rightarrow> u64 list \<Rightarrow> u64 list" where
  "Hacl_Impl_BignumQ_Mul_div_248 out t =
     (let x4 = t ! 4; x5 = t ! 5; x6 = t ! 6; x7 = t ! 7; x8 = t ! 8; x9 = t ! 9;
          z0 = push_bit 32 (x5 AND 0xffffff) OR drop_bit 24 x4;
          z1 = push_bit 32 (x6 AND 0xffffff) OR drop_bit 24 x5;
          z2 = push_bit 32 (x7 AND 0xffffff) OR drop_bit 24 x6;
          z3 = push_bit 32 (x8 AND 0xffffff) OR drop_bit 24 x7;
          z4 = push_bit 32 (x9 AND 0xffffff) OR drop_bit 24 x8;
          out = Hacl_Lib_Create64_make_h64_5 out z0 z1 z2 z3 z4
      in out)"

definition Hacl_Impl_BignumQ_Mul_div_264 ::
    "u64 list \<Rightarrow> u64 list \<Rightarrow> u64 list" where
  "Hacl_Impl_BignumQ_Mul_div_264 out t =
     (let x4 = t ! 4; x5 = t ! 5; x6 = t ! 6; x7 = t ! 7; x8 = t ! 8; x9 = t ! 9;
          z0 = push_bit 16 (x5 AND 0xffffffffff) OR drop_bit 40 x4;
          z1 = push_bit 16 (x6 AND 0xffffffffff) OR drop_bit 40 x5;
          z2 = push_bit 16 (x7 AND 0xffffffffff) OR drop_bit 40 x6;
          z3 = push_bit 16 (x8 AND 0xffffffffff) OR drop_bit 40 x7;
          z4 = push_bit 16 (x9 AND 0xffffffffff) OR drop_bit 40 x8;
          out = Hacl_Lib_Create64_make_h64_5 out z0 z1 z2 z3 z4
      in out)"

text \<open>
  The scratch buffer \<open>tmp\<close> holds \<open>q1\<close> (later the product with \<open>q\<close>) at 0, \<open>r\<close> at 5, \<open>qmu_\<close> at 10,
  \<open>qmu_264\<close> at 20 and \<open>s\<close> at 25.
\<close>

definition Hacl_Impl_BignumQ_Mul_barrett_reduction__1 ::
    "u128 list \<Rightarrow> u64 list \<Rightarrow> u64 list \<Rightarrow> u64 list \<Rightarrow> u128 list \<times> u64 list" where
  "Hacl_Impl_BignumQ_Mul_barrett_reduction__1 qmu t mu1 tmp =
     (let tmp = at_ptr 0 (\<lambda>q1. Hacl_Impl_BignumQ_Mul_div_248 q1 t) tmp;
          qmu = Hacl_Impl_BignumQ_Mul_mul_5 qmu tmp mu1;
          tmp = at_ptr 10 (\<lambda>qmu'. Hacl_Impl_BignumQ_Mul_carry qmu' qmu) tmp;
          tmp = at_ptr 20 (\<lambda>qmu_264. Hacl_Impl_BignumQ_Mul_div_264 qmu_264 (drop 10 tmp)) tmp
      in (qmu, tmp))"

definition Hacl_Impl_BignumQ_Mul_barrett_reduction__2 ::
    "u64 list \<Rightarrow> u64 list \<Rightarrow> u64 list \<Rightarrow> u64 list" where
  "Hacl_Impl_BignumQ_Mul_barrett_reduction__2 t m1 tmp =
     (let tmp = at_ptr 5 (\<lambda>r. Hacl_Impl_BignumQ_Mul_mod_264 r t) tmp;
          tmp = at_ptr 0 (\<lambda>qmul. Hacl_Impl_BignumQ_Mul_low_mul_5 qmul (drop 20 tmp) m1) tmp;
          tmp = at_ptr 25 (\<lambda>s. Hacl_Impl_BignumQ_Mul_sub_mod_264 s (drop 5 tmp) tmp) tmp
      in tmp)"

definition Hacl_Impl_BignumQ_Mul_barrett_reduction'' ::
    "u64 list \<Rightarrow> u64 list \<Rightarrow> u64 list \<Rightarrow> u64 list \<Rightarrow> u64 list \<Rightarrow> u64 list \<times> u64 list" where
  "Hacl_Impl_BignumQ_Mul_barrett_reduction'' z t m1 mu1 tmp =
     (let qmu = replicate 9 (uint64_to_uint128 0);
          (qmu, tmp) = Hacl_Impl_BignumQ_Mul_barrett_reduction__1 qmu t mu1 tmp;
          tmp = Hacl_Impl_BignumQ_Mul_barrett_reduction__2 t m1 tmp;
          z = Hacl_Impl_BignumQ_Mul_subm_conditional z (drop 25 tmp)
      in (z, tmp))"

text \<open>The modulus and its reciprocal lie in front of the scratch buffer.\<close>

definition Hacl_Impl_BignumQ_Mul_barrett_reduction' :: "u64 list \<Rightarrow> u64 list \<Rightarrow> u64 list" where
  "Hacl_Impl_BignumQ_Mul_barrett_reduction' z t =
     (let tmp = replicate 40 0;
          tmp = at_ptr 0 (\<lambda>m1. Hacl_Impl_BignumQ_Mul_make_m m1) tmp;
          tmp = at_ptr 5 (\<lambda>mu1. Hacl_Impl_BignumQ_Mul_make_mu mu1) tmp;
          (z, tmp1) = Hacl_Impl_BignumQ_Mul_barrett_reduction'' z t tmp (drop 5 tmp) (drop 10 tmp)
      in z)"

definition Hacl_Impl_BignumQ_Mul_barrett_reduction :: "u64 list \<Rightarrow> u64 list \<Rightarrow> u64 list" where
  "Hacl_Impl_BignumQ_Mul_barrett_reduction z t = Hacl_Impl_BignumQ_Mul_barrett_reduction' z t"

definition Hacl_Impl_BignumQ_Mul_mul_modq :: "u64 list \<Rightarrow> u64 list \<Rightarrow> u64 list \<Rightarrow> u64 list" where
  "Hacl_Impl_BignumQ_Mul_mul_modq out x y =
     (let z' = replicate 10 0;
          z = replicate 9 (uint64_to_uint128 0);
          z = Hacl_Impl_BignumQ_Mul_mul_5 z x y;
          z' = Hacl_Impl_BignumQ_Mul_carry z' z
      in Hacl_Impl_BignumQ_Mul_barrett_reduction' out z')"

definition Hacl_Impl_BignumQ_Mul_add_modq' ::
    "u64 list \<Rightarrow> u64 list \<Rightarrow> u64 list \<Rightarrow> u64 list" where
  "Hacl_Impl_BignumQ_Mul_add_modq' out x y =
     (let tmp = replicate 5 0; x0 = x ! 0; x1 = x ! 1; x2 = x ! 2; x3 = x ! 3; x4 = x ! 4; y0 = y ! 0;
          y1 = y ! 1; y2 = y ! 2; y3 = y ! 3; y4 = y ! 4; z0 = x0 + y0; z1 = x1 + y1; z2 = x2 + y2;
          z3 = x3 + y3; z4 = x4 + y4; x5 = z0; y5 = z1; carry1 = drop_bit 56 x5;
          t = x5 AND 0xffffffffffffff; x01 = t; z1' = y5 + carry1; x6 = z1'; y6 = z2;
          carry2 = drop_bit 56 x6; t1 = x6 AND 0xffffffffffffff; x11 = t1; z2' = y6 + carry2; x7 = z2';
          y7 = z3; carry3 = drop_bit 56 x7; t2 = x7 AND 0xffffffffffffff; x21 = t2; z3' = y7 + carry3;
          x8 = z3'; y8 = z4; carry4 = drop_bit 56 x8; t3 = x8 AND 0xffffffffffffff; x31 = t3;
          x41 = y8 + carry4;
          tmp = Hacl_Lib_Create64_make_h64_5 tmp x01 x11 x21 x31 x41;
          out = Hacl_Impl_BignumQ_Mul_subm_conditional out tmp
      in out)"

definition Hacl_Impl_BignumQ_Mul_add_modq :: "u64 list \<Rightarrow> u64 list \<Rightarrow> u64 list \<Rightarrow> u64 list" where
  "Hacl_Impl_BignumQ_Mul_add_modq out x y = Hacl_Impl_BignumQ_Mul_add_modq' out x y"

section \<open>Bytes and the range check\<close>

definition Hacl_Impl_Load56_load_64_bytes ::
    "u64 list \<Rightarrow> bytes \<Rightarrow> u64 list" where
  "Hacl_Impl_Load56_load_64_bytes out b =
     (let b80 = b; z = load64_le b80; z' = z AND 0xffffffffffffff; b0 = z'; b81 = drop 7 b;
          z0 = load64_le b81; z_0 = z0 AND 0xffffffffffffff; b1 = z_0; b82 = drop 14 b;
          z1 = load64_le b82; z_1 = z1 AND 0xffffffffffffff; b2 = z_1; b83 = drop 21 b;
          z2 = load64_le b83; z_2 = z2 AND 0xffffffffffffff; b3 = z_2; b84 = drop 28 b;
          z3 = load64_le b84; z_3 = z3 AND 0xffffffffffffff; b4 = z_3; b85 = drop 35 b;
          z4 = load64_le b85; z_4 = z4 AND 0xffffffffffffff; b5 = z_4; b86 = drop 42 b;
          z5 = load64_le b86; z_5 = z5 AND 0xffffffffffffff; b6 = z_5; b87 = drop 49 b;
          z6 = load64_le b87; z_6 = z6 AND 0xffffffffffffff; b7 = z_6; b8 = drop 56 b;
          z7 = load64_le b8; z_7 = z7 AND 0xffffffffffffff; b88 = z_7; b63 = b ! 63; b9 = ucast b63;
          out = Hacl_Lib_Create64_make_h64_10 out b0 b1 b2 b3 b4 b5 b6 b7 b88 b9
      in out)"

definition Hacl_Impl_Load56_load_32_bytes ::
    "u64 list \<Rightarrow> bytes \<Rightarrow> u64 list" where
  "Hacl_Impl_Load56_load_32_bytes out b =
     (let b80 = b; z = load64_le b80; z' = z AND 0xffffffffffffff; b0 = z'; b81 = drop 7 b;
          z0 = load64_le b81; z_0 = z0 AND 0xffffffffffffff; b1 = z_0; b82 = drop 14 b;
          z1 = load64_le b82; z_1 = z1 AND 0xffffffffffffff; b2 = z_1; b8 = drop 21 b;
          z2 = load64_le b8; z_2 = z2 AND 0xffffffffffffff; b3 = z_2; x0 = drop 28 b; b4 = load32_le x0;
          b41 = ucast b4;
          out = Hacl_Lib_Create64_make_h64_5 out b0 b1 b2 b3 b41
      in out)"

definition Hacl_Impl_Store56_store_56 :: "bytes \<Rightarrow> u64 list \<Rightarrow> bytes" where
  "Hacl_Impl_Store56_store_56 out b =
     (let b0 = b ! 0; b1 = b ! 1; b2 = b ! 2; b3 = b ! 3; b4 = b ! 4;
          b41 = (ucast b4 :: u32);
          out = store64_le out b0;
          out = at_ptr 7 (\<lambda>b80. store64_le b80 b1) out;
          out = at_ptr 14 (\<lambda>b81. store64_le b81 b2) out;
          out = at_ptr 21 (\<lambda>b82. store64_le b82 b3) out;
          out = at_ptr 28 (\<lambda>x0. store32_le x0 b41) out
      in out)"

definition Hacl_Impl_Ed25519_PointEqual_gte_q :: "u64 list \<Rightarrow> bool" where
  "Hacl_Impl_Ed25519_PointEqual_gte_q s =
     (let s0 = s ! 0; s1 = s ! 1; s2 = s ! 2; s3 = s ! 3; s4 = s ! 4 in
      if s4 > 0x10000000 then True
      else if s4 < 0x10000000 then False
      else if s3 > 0 then True
      else if s2 > 0x14de then True
      else if s2 < 0x14de then False
      else if s1 > 0xf9dea2f79cd658 then True
      else if s1 < 0xf9dea2f79cd658 then False
      else if s0 \<ge> 0x12631a5cf5d3ed then True
      else False)"

section \<open>Digits and carries\<close>

text \<open>Numbers given by digits that may be too large, and the carry chain that normalises them.\<close>

fun eval_nats :: "nat \<Rightarrow> nat list \<Rightarrow> nat" where
  "eval_nats w [] = 0"
| "eval_nats w (x # xs) = x + 2 ^ w * eval_nats w xs"

fun carries :: "nat \<Rightarrow> nat \<Rightarrow> nat list \<Rightarrow> nat list" where
  "carries w c [] = [c]"
| "carries w c (z # zs) = (z + c) mod 2 ^ w # carries w ((z + c) div 2 ^ w) zs"

lemma eval_nats_unat: "eval_nats w (map unat xs) = eval_limbs w xs"
  by (induction xs) simp_all

lemma eval_carries: "eval_nats w (carries w c zs) = c + eval_nats w zs"
proof (induction zs arbitrary: c)
  case (Cons z zs)
  have "(z + c) mod 2 ^ w + 2 ^ w * ((z + c) div 2 ^ w + eval_nats w zs) = z + c + 2 ^ w * eval_nats w zs"
    using mod_mult_div_eq [of "z + c" "2 ^ w"] by (simp add: distrib_left)
  then show ?case by (simp add: Cons)
qed simp

lemma length_carries [simp]: "length (carries w c zs) = Suc (length zs)"
  by (induction zs arbitrary: c) simp_all

lemma carries_less: "i < length zs \<Longrightarrow> carries w c zs ! i < 2 ^ w"
  by (induction zs arbitrary: c i) (simp_all add: nth_Cons')

section \<open>Lists of limbs\<close>

text \<open>Five limbs of 56 bits at the start of a buffer, and the number they stand for.\<close>

definition limbs56 :: "u64 list \<Rightarrow> bool" where
  "limbs56 x \<longleftrightarrow> 5 \<le> length x \<and> (\<forall>i < 5. unat (x ! i) < 2 ^ 56)"

definition qval :: "u64 list \<Rightarrow> nat" where
  "qval x = eval_limbs 56 (take 5 x)"

lemma less_five: "(\<forall>i < 5. P i) \<longleftrightarrow> P 0 \<and> P 1 \<and> P 2 \<and> P 3 \<and> P (4 :: nat)"
  by (auto simp: numeral_eq_Suc less_Suc_eq)

lemma take_five: "5 \<le> length x \<Longrightarrow> take 5 x = [x ! 0, x ! 1, x ! 2, x ! 3, x ! 4]"
  by (rule nth_equalityI) (auto simp: numeral_eq_Suc nth_Cons' less_Suc_eq)

lemma qval_eq:
  "5 \<le> length x \<Longrightarrow> qval x = unat (x ! 0) + 2 ^ 56 * (unat (x ! 1) + 2 ^ 56 * (unat (x ! 2)
     + 2 ^ 56 * (unat (x ! 3) + 2 ^ 56 * unat (x ! 4))))"
  by (simp add: qval_def take_five)

lemma split_buffer:
  assumes "n \<le> length b"
  obtains x y where "b = x @ y" and "length x = n"
  using assms by (intro that [of "take n b" "drop n b"]) simp_all

lemma make_h64_5_eq:
  assumes "5 \<le> length b"
  shows "Hacl_Lib_Create64_make_h64_5 b s0 s1 s2 s3 s4 = [s0, s1, s2, s3, s4] @ drop 5 b"
proof -
  obtain x y where "b = x @ y" "length x = 5" using assms by (rule split_buffer)
  then show ?thesis
    by (auto simp: Hacl_Lib_Create64_make_h64_5_def Let_def elim!: list5E)
qed

lemma make_h64_10_eq:
  assumes "10 \<le> length b"
  shows "Hacl_Lib_Create64_make_h64_10 b s0 s1 s2 s3 s4 s5 s6 s7 s8 s9
         = [s0, s1, s2, s3, s4, s5, s6, s7, s8, s9] @ drop 10 b"
proof -
  obtain x y where "b = x @ y" "length x = 10" using assms by (rule split_buffer)
  then show ?thesis
    by (auto simp: Hacl_Lib_Create64_make_h64_10_def Let_def numeral_eq_Suc length_Suc_conv)
qed

lemma make_h128_9_eq:
  "length b = 9 \<Longrightarrow> Hacl_Lib_Create128_make_h128_9 b s0 s1 s2 s3 s4 s5 s6 s7 s8
     = [s0, s1, s2, s3, s4, s5, s6, s7, s8]"
  by (rule nth_equalityI)
     (auto simp: Hacl_Lib_Create128_make_h128_9_def nth_list_update numeral_eq_Suc nth_Cons' less_Suc_eq)

section \<open>Subtraction with borrow\<close>

lemma lt_eq:
  assumes "unat a < 2 ^ 63" and "unat b < 2 ^ 63"
  shows "Hacl_Impl_BignumQ_Mul_lt a b = (if a < b then 1 else 0)"
proof (rule word_unatI)
  have "unat (a - b) = (if a < b then 2 ^ 64 + unat a - unat b else unat a - unat b)"
    using assms by (auto simp: unat_sub_if' word_less_nat_alt)
  then show "unat (Hacl_Impl_BignumQ_Mul_lt a b) = unat (if a < b then 1 else 0 :: u64)"
    using assms by (auto simp: Hacl_Impl_BignumQ_Mul_lt_def unat_shr word_less_nat_alt)
qed

text \<open>One step: the digit \<open>x\<close> minus the digit \<open>y\<close>, with a borrow of \<open>2 ^ k\<close> when it is needed.\<close>

lemma borrow_digit:
  assumes "unat x < 2 ^ k" and "unat y \<le> 2 ^ k" and "k \<le> 60"
  shows "int (unat (push_bit k (Hacl_Impl_BignumQ_Mul_lt x y) + x - y))
           = int (unat x) - int (unat y) + 2 ^ k * int (unat (Hacl_Impl_BignumQ_Mul_lt x y))"
    and "unat (Hacl_Impl_BignumQ_Mul_lt x y) \<le> 1"
    and "unat (push_bit k (Hacl_Impl_BignumQ_Mul_lt x y) + x - y) < 2 ^ k"
proof -
  have k: "(2::nat) ^ k \<le> 2 ^ 60" using assms(3) by (intro power_increasing) simp_all
  then have b: "unat x < 2 ^ 63" "unat y < 2 ^ 63" using assms by simp_all
  have l: "Hacl_Impl_BignumQ_Mul_lt x y = (if x < y then 1 else 0)" using b by (rule lt_eq)
  show "unat (Hacl_Impl_BignumQ_Mul_lt x y) \<le> 1" by (simp add: l)
  show e: "int (unat (push_bit k (Hacl_Impl_BignumQ_Mul_lt x y) + x - y))
        = int (unat x) - int (unat y) + 2 ^ k * int (unat (Hacl_Impl_BignumQ_Mul_lt x y))"
  proof (cases "x < y")
    case True
    have "unat (push_bit k 1 :: u64) = 2 ^ k" by (subst unat_shl) (use k in simp_all)
    moreover from this have "unat (push_bit k 1 + x) = 2 ^ k + unat x" using k b by (simp add: unat_plus)
    ultimately have "unat (push_bit k 1 + x - y) = 2 ^ k + unat x - unat y"
      using assms True by (subst unat_minus) simp_all
    then have "int (unat (push_bit k 1 + x - y)) = int (2 ^ k + unat x - unat y)" by (simp only:)
    then show ?thesis using True assms(1,2) by (simp only: l if_True of_nat_diff) (simp add: of_nat_diff)
  next
    case False
    then have "unat (x - y) = unat x - unat y" by (intro unat_minus) (simp add: word_less_nat_alt)
    then show ?thesis using False
      by (simp add: l word_less_nat_alt of_nat_diff)
  qed
  have "int (unat (push_bit k (Hacl_Impl_BignumQ_Mul_lt x y) + x - y)) < int (2 ^ k)"
  proof (cases "x < y")
    case True
    then have "int (unat x) < int (unat y)" by (simp only: word_less_nat_alt of_nat_less_iff)
    with True show ?thesis by (subst e) (simp add: l)
  next
    case False
    have "int (unat x) < int (2 ^ k)" using assms(1) by (simp only: of_nat_less_iff)
    moreover have "Hacl_Impl_BignumQ_Mul_lt x y = 0" using False by (simp add: l)
    ultimately show ?thesis by (subst e) (simp, rule le_less_trans [of _ "uint x"], simp_all)
  qed
  then show "unat (push_bit k (Hacl_Impl_BignumQ_Mul_lt x y) + x - y) < 2 ^ k"
    by (simp only: of_nat_less_iff)
qed

text \<open>The whole chain; the digits of \<open>x\<close> minus those of \<open>y\<close> and the last borrow.\<close>

definition sub_limbs :: "nat \<Rightarrow> u64 list \<Rightarrow> u64 list \<Rightarrow> u64 list \<times> u64" where
  "sub_limbs k x y =
     (let b0 = Hacl_Impl_BignumQ_Mul_lt (x ! 0) (y ! 0); t0 = push_bit 56 b0 + x ! 0 - y ! 0;
          y1 = y ! 1 + b0; b1 = Hacl_Impl_BignumQ_Mul_lt (x ! 1) y1; t1 = push_bit 56 b1 + x ! 1 - y1;
          y2 = y ! 2 + b1; b2 = Hacl_Impl_BignumQ_Mul_lt (x ! 2) y2; t2 = push_bit 56 b2 + x ! 2 - y2;
          y3 = y ! 3 + b2; b3 = Hacl_Impl_BignumQ_Mul_lt (x ! 3) y3; t3 = push_bit 56 b3 + x ! 3 - y3;
          y4 = y ! 4 + b3; b4 = Hacl_Impl_BignumQ_Mul_lt (x ! 4) y4; t4 = push_bit k b4 + x ! 4 - y4
      in ([t0, t1, t2, t3, t4], b4))"

lemma borrow_into: "unat y < 2 ^ k \<Longrightarrow> unat b \<le> 1 \<Longrightarrow> k \<le> 60 \<Longrightarrow> unat (y + b :: u64) = unat y + unat b"
proof -
  assume "unat y < 2 ^ k" "unat b \<le> 1" "k \<le> 60"
  moreover from this have "(2::nat) ^ k \<le> 2 ^ 60" by (intro power_increasing) simp_all
  ultimately show ?thesis by (intro unat_plus) simp
qed

lemma sub_limbs_correct:
  assumes x: "limbs56 x" and y: "limbs56 y" and top: "unat (x ! 4) < 2 ^ k" "unat (y ! 4) < 2 ^ k" "k \<le> 56"
    and s: "sub_limbs k x y = (t, b)"
  shows "limbs56 t" and "length t = 5" and "unat b \<le> 1"
    and "int (qval t) = int (qval x) - int (qval y) + 2 ^ (224 + k) * int (unat b)"
    and "qval t < 2 ^ (224 + k)"
proof -
  define b0 where "b0 = Hacl_Impl_BignumQ_Mul_lt (x ! 0) (y ! 0)"
  define t0 where "t0 = push_bit 56 b0 + x ! 0 - y ! 0"
  define y1 where "y1 = y ! 1 + b0"
  define b1 where "b1 = Hacl_Impl_BignumQ_Mul_lt (x ! 1) y1"
  define t1 where "t1 = push_bit 56 b1 + x ! 1 - y1"
  define y2 where "y2 = y ! 2 + b1"
  define b2 where "b2 = Hacl_Impl_BignumQ_Mul_lt (x ! 2) y2"
  define t2 where "t2 = push_bit 56 b2 + x ! 2 - y2"
  define y3 where "y3 = y ! 3 + b2"
  define b3 where "b3 = Hacl_Impl_BignumQ_Mul_lt (x ! 3) y3"
  define t3 where "t3 = push_bit 56 b3 + x ! 3 - y3"
  define y4 where "y4 = y ! 4 + b3"
  define b4 where "b4 = Hacl_Impl_BignumQ_Mul_lt (x ! 4) y4"
  define t4 where "t4 = push_bit k b4 + x ! 4 - y4"
  note defs = b0_def [symmetric] t0_def [symmetric] y1_def [symmetric] b1_def [symmetric] t1_def [symmetric]
    y2_def [symmetric] b2_def [symmetric] t2_def [symmetric] y3_def [symmetric] b3_def [symmetric]
    t3_def [symmetric] y4_def [symmetric] b4_def [symmetric] t4_def [symmetric]
  have tb: "t = [t0, t1, t2, t3, t4]" "b = b4"
    using s by (simp_all only: sub_limbs_def Let_def defs prod.inject)
  have l: "unat (x ! 0) < 2 ^ 56" "unat (x ! 1) < 2 ^ 56" "unat (x ! 2) < 2 ^ 56" "unat (x ! 3) < 2 ^ 56"
    "unat (y ! 0) < 2 ^ 56" "unat (y ! 1) < 2 ^ 56" "unat (y ! 2) < 2 ^ 56" "unat (y ! 3) < 2 ^ 56"
    using x y by (simp_all add: limbs56_def less_five)
  have k60': "56 \<le> (60::nat)" by simp
  note s0 = borrow_digit [OF l(1) less_imp_le [OF l(5)] k60', folded b0_def, folded t0_def]
  have u1: "unat y1 = unat (y ! 1) + unat b0" unfolding y1_def by (rule borrow_into [OF l(6) s0(2) k60'])
  then have "unat y1 \<le> 2 ^ 56" using s0(2) l(6) by linarith
  note s1 = borrow_digit [OF l(2) this k60', folded b1_def, folded t1_def]
  have u2: "unat y2 = unat (y ! 2) + unat b1" unfolding y2_def by (rule borrow_into [OF l(7) s1(2) k60'])
  then have "unat y2 \<le> 2 ^ 56" using s1(2) l(7) by linarith
  note s2 = borrow_digit [OF l(3) this k60', folded b2_def, folded t2_def]
  have u3: "unat y3 = unat (y ! 3) + unat b2" unfolding y3_def by (rule borrow_into [OF l(8) s2(2) k60'])
  then have "unat y3 \<le> 2 ^ 56" using s2(2) l(8) by linarith
  note s3 = borrow_digit [OF l(4) this k60', folded b3_def, folded t3_def]
  have k60: "k \<le> 60" using top(3) by simp
  have u4: "unat y4 = unat (y ! 4) + unat b3" unfolding y4_def by (rule borrow_into [OF top(2) s3(2) k60])
  then have "unat y4 \<le> 2 ^ k" using s3(2) top(2) by linarith
  note s4 = borrow_digit [OF top(1) this k60, folded b4_def, folded t4_def]
  show "unat b \<le> 1" unfolding tb by (rule s4(2))
  show "length t = 5" by (simp add: tb)
  have k56: "(2::nat) ^ k \<le> 2 ^ 56" using top(3) by (intro power_increasing) simp_all
  show "limbs56 t"
    unfolding limbs56_def less_five tb using s0(3) s1(3) s2(3) s3(3) less_le_trans [OF s4(3) k56] by simp
  show "int (qval t) = int (qval x) - int (qval y) + 2 ^ (224 + k) * int (unat b)"
  proof -
    have t: "int (qval t) = int (unat t0) + 2 ^ 56 * (int (unat t1) + 2 ^ 56 * (int (unat t2)
        + 2 ^ 56 * (int (unat t3) + 2 ^ 56 * int (unat t4))))"
      unfolding tb qval_def by simp
    have v: "int (qval z) = int (unat (z ! 0)) + 2 ^ 56 * (int (unat (z ! 1)) + 2 ^ 56 * (int (unat (z ! 2))
        + 2 ^ 56 * (int (unat (z ! 3)) + 2 ^ 56 * int (unat (z ! 4)))))" if "limbs56 z" for z
      using that by (simp add: limbs56_def qval_eq)
    have p: "(2::int) ^ (224 + k) = 2 ^ 56 * (2 ^ 56 * (2 ^ 56 * (2 ^ 56 * 2 ^ k)))" by (simp add: power_add)
    show ?thesis
      unfolding t v [OF x] v [OF y] s0(1) s1(1) s2(1) s3(1) s4(1) u1 u2 u3 u4 tb(2) p of_nat_add
      by (simp only: algebra_simps)
  qed
  show "qval t < 2 ^ (224 + k)"
  proof -
    have "qval t = unat t0 + 2 ^ 56 * (unat t1 + 2 ^ 56 * (unat t2 + 2 ^ 56 * (unat t3 + 2 ^ 56 * unat t4)))"
      unfolding tb qval_def by simp
    also have "\<dots> < 2 ^ 224 * (unat t4 + 1)" using s0(3) s1(3) s2(3) s3(3) by simp
    also have "\<dots> \<le> 2 ^ 224 * 2 ^ k" using s4(3) by (intro mult_left_mono) simp_all
    finally show ?thesis by (simp add: power_add)
  qed
qed

definition group_order :: nat where
  "group_order = 2 ^ 252 + 27742317777372353535851937790883648493"

lemma limbs56_append: "length t = 5 \<Longrightarrow> limbs56 (t @ r) = limbs56 t" "length t = 5 \<Longrightarrow> qval (t @ r) = qval t"
  by (simp_all add: limbs56_def qval_def nth_append cong: conj_cong) 

lemma bit_cases: "unat (b :: u64) \<le> 1 \<Longrightarrow> b = 0 \<or> b = 1"
proof -
  assume "unat b \<le> 1"
  then have "unat b = 0 \<or> unat b = 1" by linarith
  then show ?thesis by (metis unsigned_0 unsigned_1 word_unatI)
qed

lemma choose_eq:
  assumes "unat b \<le> 1" and "5 \<le> length x" and "5 \<le> length y" and "5 \<le> length z"
  shows "Hacl_Impl_BignumQ_Mul_choose z x y b = take 5 (if b = 1 then x else y) @ drop 5 z"
proof -
  have "b = 0 \<or> b = 1" using assms(1) by (rule bit_cases)
  then show ?thesis
    using assms by (auto simp: Hacl_Impl_BignumQ_Mul_choose_def Let_def make_h64_5_eq take_five ac_simps)
qed

lemma sub_mod_264_eq:
  assumes "5 \<le> length z"
  shows "Hacl_Impl_BignumQ_Mul_sub_mod_264 z x y = fst (sub_limbs 40 x y) @ drop 5 z"
  using assms
  by (simp add: Hacl_Impl_BignumQ_Mul_sub_mod_264_def sub_limbs_def Let_def make_h64_5_eq
      Hacl_Impl_BignumQ_Mul_shiftl_56_def)

lemma sub_mod_264_correct:
  assumes x: "limbs56 x" "qval x < 2 ^ 264" and y: "limbs56 y" "qval y < 2 ^ 264" and z: "5 \<le> length z"
  defines "r \<equiv> Hacl_Impl_BignumQ_Mul_sub_mod_264 z x y"
  shows "limbs56 r" and "int (qval r) = (int (qval x) - int (qval y)) mod 2 ^ 264"
    and "drop 5 r = drop 5 z"
proof -
  obtain t b where s: "sub_limbs 40 x y = (t, b)" by (rule prod.exhaust)
  have top: "unat (v ! 4) < 2 ^ 40" if "limbs56 v" "qval v < 2 ^ 264" for v
    using that by (simp add: limbs56_def qval_eq)
  note c = sub_limbs_correct [OF x(1) y(1) top [OF x] top [OF y] _ s, simplified]
  have r: "r = t @ drop 5 z" unfolding r_def using z by (simp add: sub_mod_264_eq s)
  show "limbs56 r" "drop 5 r = drop 5 z" using c(1,2) by (simp_all add: r limbs56_append)
  have "int (qval t) < 2 ^ 264" using c(5) by simp
  moreover have "int (qval t) = (int (qval x) - int (qval y)) + 2 ^ 264 * int (unat b)" using c(4) by simp
  ultimately have "int (qval t) = (int (qval x) - int (qval y)) mod 2 ^ 264"
    by (metis mod_mult_self2 mod_pos_pos_trivial of_nat_0_le_iff)
  then show "int (qval r) = (int (qval x) - int (qval y)) mod 2 ^ 264" using c(2) by (simp add: r limbs56_append)
qed

text \<open>The conditional subtraction of the group order.\<close>

definition q_limbs :: "u64 list" where
  "q_limbs = [0x12631a5cf5d3ed, 0xf9dea2f79cd658, 0x14de, 0, 0x10000000]"

lemma q_limbs: "limbs56 q_limbs" "qval q_limbs = group_order"
  by (simp_all add: q_limbs_def limbs56_def less_five qval_def group_order_def)

lemma subm_conditional_correct:
  assumes x: "limbs56 x" and z: "5 \<le> length z"
  defines "r \<equiv> Hacl_Impl_BignumQ_Mul_subm_conditional z x"
  shows "limbs56 r" and "qval r = (if qval x < group_order then qval x else qval x - group_order)"
    and "drop 5 r = drop 5 z"
proof -
  obtain t b where s: "sub_limbs 56 x q_limbs = (t, b)" by (rule prod.exhaust)
  have top: "unat (x ! 4) < 2 ^ 56" "unat (q_limbs ! 4) < 2 ^ 56"
    using x q_limbs(1) by (simp_all add: limbs56_def)
  note c = sub_limbs_correct [OF x q_limbs(1) top _ s, simplified]
  have lx: "5 \<le> length x" using x by (simp add: limbs56_def)
  have t: "limbs56 t" "length t = 5" "unat b \<le> 1" by (use c in simp_all)
  have r: "r = (if b = 1 then take 5 x else t) @ drop 5 z"
  proof -
    have "Hacl_Impl_BignumQ_Mul_subm_conditional z x
        = (let (t, b) = sub_limbs 56 x q_limbs
           in Hacl_Impl_BignumQ_Mul_choose (t @ drop 5 z) (take 5 x) (t @ drop 5 z) b)"
      using z lx
      by (simp add: Hacl_Impl_BignumQ_Mul_subm_conditional_def sub_limbs_def Let_def make_h64_5_eq
          Hacl_Impl_BignumQ_Mul_shiftl_56_def q_limbs_def take_five)
    then show ?thesis using t lx z by (simp add: s r_def choose_eq min_absorb2)
  qed
  show "drop 5 r = drop 5 z" using t(2) lx by (simp add: r)
  have tx: "limbs56 (take 5 x)" "qval (take 5 x) = qval x" "length (take 5 x) = 5"
    using x lx by (simp_all add: limbs56_def qval_def)
  show "limbs56 r" using t tx by (simp add: r limbs56_append)
  have v: "int (qval t) = int (qval x) - int group_order + 2 ^ 280 * int (unat b)" "qval t < 2 ^ 280"
    using c(4,5) by (simp_all add: q_limbs)
  have "b = 0 \<or> b = 1" using t(3) by (rule bit_cases)
  then show "qval r = (if qval x < group_order then qval x else qval x - group_order)"
  proof
    assume b: "b = 0"
    then have "int (qval t) = int (qval x) - int group_order" using v(1) by simp
    then have "qval t = qval x - group_order" "\<not> qval x < group_order" by linarith+
    then show ?thesis using b t by (simp add: r limbs56_append)
  next
    assume b: "b = 1"
    then have "int (qval t) = int (qval x) - int group_order + 2 ^ 280" using v(1) by simp
    moreover have "int (qval t) < 2 ^ 280" using v(2) by simp
    ultimately have "int (qval x) - int group_order < 0" by linarith
    then show ?thesis using b tx by (simp add: r limbs56_append)
  qed
qed

section \<open>Products and shifts\<close>

lemma and_mask_56 [word_nat]: "unat (x AND 0xffffffffffffff :: u64) = unat x mod 2 ^ 56"
  using unat_and_mask [of x 56] by (simp add: mask_eq_exp_minus_1)

lemma and_mask_40 [word_nat]: "unat (x AND 0xffffffffff :: u64) = unat x mod 2 ^ 40"
  using unat_and_mask [of x 40] by (simp add: mask_eq_exp_minus_1)

lemma and_mask_24 [word_nat]: "unat (x AND 0xffffff :: u64) = unat x mod 2 ^ 24"
  using unat_and_mask [of x 24] by (simp add: mask_eq_exp_minus_1)

text \<open>The digits of a product are sums of at most five products of 56-bit limbs.\<close>

definition wide :: "u128 \<Rightarrow> bool" where
  "wide z \<longleftrightarrow> unat z < 2 ^ 119"

definition carried :: "u128 \<Rightarrow> bool" where
  "carried c \<longleftrightarrow> unat c < 2 ^ 64"

lemma carry_add: "wide z \<Longrightarrow> carried c \<Longrightarrow> unat (u128_add z c) = unat z + unat c"
  by (simp add: wide_def carried_def u128_add_def unat_plus)

lemma carry_out: "unat (u128_shift_right z 56) = unat z div 2 ^ 56"
  by (simp add: u128_shift_right_def unat_shr)

lemma carry_digit: "unat (uint128_to_uint64 z AND 0xffffffffffffff) = unat z mod 2 ^ 56"
proof -
  have "unat z mod 2 ^ 64 mod 2 ^ 56 = unat z mod 2 ^ 56" by (rule mod_mod_cancel) (simp add: le_imp_power_dvd)
  then show ?thesis by (simp add: and_mask_56 uint128_to_uint64_def unat_ucast_down)
qed

lemma carried_out: "wide z \<Longrightarrow> carried c \<Longrightarrow> carried (u128_shift_right (u128_add z c) 56)"
  by (simp add: carried_def carry_out carry_add) (simp add: wide_def)

lemma carried_first: "wide z \<Longrightarrow> carried (u128_shift_right z 56)"
  by (simp add: carried_def carry_out wide_def)

text \<open>The chain on words, and that it is the chain on numbers.\<close>

fun carry_chain :: "u128 \<Rightarrow> u128 list \<Rightarrow> u64 list" where
  "carry_chain c [] = [uint128_to_uint64 c]"
| "carry_chain c (z # zs) =
     (uint128_to_uint64 (u128_add z c) AND 0xffffffffffffff) # carry_chain (u128_shift_right (u128_add z c) 56) zs"

lemma carry_chain_correct:
  "list_all wide zs \<Longrightarrow> carried c \<Longrightarrow> map unat (carry_chain c zs) = carries 56 (unat c) (map unat zs)"
proof (induction zs arbitrary: c)
  case Nil
  then show ?case by (simp add: carried_def uint128_to_uint64_def unat_ucast_down)
next
  case (Cons z zs)
  then show ?case by (simp add: carry_digit carried_out carry_out carry_add)
qed

lemma carry_eq:
  assumes "length z = 9" and "10 \<le> length out"
  shows "Hacl_Impl_BignumQ_Mul_carry out z = carry_chain 0 z @ drop 10 out"
proof -
  obtain z0 z1 z2 z3 z4 z5 z6 z7 z8 where z: "z = [z0, z1, z2, z3, z4, z5, z6, z7, z8]"
    using assms(1) by (auto simp: numeral_eq_Suc length_Suc_conv)
  show ?thesis using assms(2) unfolding z
    by (simp add: Hacl_Impl_BignumQ_Mul_carry_def Let_def make_h64_10_eq u128_add_def uint64_to_uint128_def)
qed

lemma length_carry_chain [simp]: "length (carry_chain c zs) = Suc (length zs)"
  by (induction zs arbitrary: c) simp_all

lemma carry_correct:
  assumes "list_all wide z" and "length z = 9" and "10 \<le> length out"
  defines "r \<equiv> Hacl_Impl_BignumQ_Mul_carry out z"
  shows "map unat (take 10 r) = carries 56 0 (map unat z)" and "drop 10 r = drop 10 out"
  using assms carry_chain_correct [of z 0] by (simp_all add: r_def carry_eq carried_def)

lemma unat_u128_add: "unat a + unat b < 2 ^ 128 \<Longrightarrow> unat (u128_add a b) = unat a + unat b"
  by (simp add: u128_add_def unat_plus)

lemma limb_product:
  assumes "limbs56 x" and "limbs56 y" and "i < 5" and "j < 5"
  shows "unat (x ! i) * unat (y ! j) < 2 ^ 112"
proof -
  have "unat (x ! i) * unat (y ! j) < 2 ^ 56 * 2 ^ 56"
    using assms by (intro mult_strict_mono') (simp_all add: limbs56_def)
  then show ?thesis by simp
qed

text \<open>The digits of a product, before the carries.\<close>

definition product_digits :: "nat list \<Rightarrow> nat list \<Rightarrow> nat list" where
  "product_digits x y =
     [x ! 0 * y ! 0,
      x ! 0 * y ! 1 + x ! 1 * y ! 0,
      x ! 0 * y ! 2 + x ! 1 * y ! 1 + x ! 2 * y ! 0,
      x ! 0 * y ! 3 + x ! 1 * y ! 2 + x ! 2 * y ! 1 + x ! 3 * y ! 0,
      x ! 0 * y ! 4 + x ! 1 * y ! 3 + x ! 2 * y ! 2 + x ! 3 * y ! 1 + x ! 4 * y ! 0,
      x ! 1 * y ! 4 + x ! 2 * y ! 3 + x ! 3 * y ! 2 + x ! 4 * y ! 1,
      x ! 2 * y ! 4 + x ! 3 * y ! 3 + x ! 4 * y ! 2,
      x ! 3 * y ! 4 + x ! 4 * y ! 3,
      x ! 4 * y ! 4]"

lemma eval_product_digits:
  "eval_nats w (product_digits [a, b, c, d, e] [a', b', c', d', e'])
   = eval_nats w [a, b, c, d, e] * eval_nats w [a', b', c', d', e']"
proof -
  define W :: nat where "W = 2 ^ w"
  show ?thesis
    by (simp add: product_digits_def W_def [symmetric]) (simp add: algebra_simps)
qed

lemma qval_nats: "5 \<le> length x \<Longrightarrow> qval x = eval_nats 56 (map unat [x ! 0, x ! 1, x ! 2, x ! 3, x ! 4])"
  by (simp only: eval_nats_unat qval_def take_five)

lemma mul_5_correct:
  assumes x: "limbs56 x" and y: "limbs56 y" and z: "length z = 9"
  defines "r \<equiv> Hacl_Impl_BignumQ_Mul_mul_5 z x y"
  shows "length r = 9" and "list_all wide r" and "eval_nats 56 (map unat r) = qval x * qval y"
proof -
  have p: "unat (x ! i) * unat (y ! j) < 2 ^ 112" if "i < 5" "j < 5" for i j
    using that by (rule limb_product [OF x y])
  note p0 = p [of 0 0, simplified] p [of 0 1, simplified] p [of 0 2, simplified] p [of 0 3, simplified] p [of 0 4, simplified]
  note p1 = p [of 1 0, simplified] p [of 1 1, simplified] p [of 1 2, simplified] p [of 1 3, simplified] p [of 1 4, simplified]
  note p2 = p [of 2 0, simplified] p [of 2 1, simplified] p [of 2 2, simplified] p [of 2 3, simplified] p [of 2 4, simplified]
  note p3 = p [of 3 0, simplified] p [of 3 1, simplified] p [of 3 2, simplified] p [of 3 3, simplified] p [of 3 4, simplified]
  note p4 = p [of 4 0, simplified] p [of 4 1, simplified] p [of 4 2, simplified] p [of 4 3, simplified] p [of 4 4, simplified]
  have e: "map unat r = product_digits (map unat [x ! 0, x ! 1, x ! 2, x ! 3, x ! 4]) (map unat [y ! 0, y ! 1, y ! 2, y ! 3, y ! 4])"
    using p0 p1 p2 p3 p4 z
    by (simp add: r_def Hacl_Impl_BignumQ_Mul_mul_5_def Let_def make_h128_9_eq product_digits_def
        unat_u128_add unat_mul_wide)
  have l: "5 \<le> length x" "5 \<le> length y" using x y by (simp_all add: limbs56_def)
  show "eval_nats 56 (map unat r) = qval x * qval y"
    unfolding qval_nats [OF l(1)] qval_nats [OF l(2)] e list.map by (rule eval_product_digits)
  show "length r = 9" using arg_cong [OF e, of length] by (simp add: product_digits_def)
  have "list_all (\<lambda>v. v < 2 ^ 119) (map unat r)"
    unfolding e using p0 p1 p2 p3 p4 by (simp add: product_digits_def)
  then show "list_all wide r" by (simp add: list_all_iff wide_def)
qed

lemma low_digit_40: "unat (uint128_to_uint64 z AND 0xffffffffff) = unat z mod 2 ^ 40"
proof -
  have "unat z mod 2 ^ 64 mod 2 ^ 40 = unat z mod 2 ^ 40" by (rule mod_mod_cancel) (simp add: le_imp_power_dvd)
  then show ?thesis by (simp add: and_mask_40 uint128_to_uint64_def unat_ucast_down)
qed

text \<open>Dropping the digits above \<open>2 ^ 264\<close>.\<close>

lemma mod_264_digits:
  fixes e :: nat
  assumes "a < 2 ^ 56" "b < 2 ^ 56" "c < 2 ^ 56" "d < 2 ^ 56"
  shows "(a + 2 ^ 56 * (b + 2 ^ 56 * (c + 2 ^ 56 * (d + 2 ^ 56 * e)))) mod 2 ^ 264
         = a + 2 ^ 56 * (b + 2 ^ 56 * (c + 2 ^ 56 * (d + 2 ^ 56 * (e mod 2 ^ 40))))"
proof -
  define f g where "f = e div 2 ^ 40" and "g = e mod 2 ^ 40"
  have e: "e = g + 2 ^ 40 * f" by (simp add: f_def g_def)
  have g: "g < 2 ^ 40" by (simp add: g_def)
  let ?v = "a + 2 ^ 56 * (b + 2 ^ 56 * (c + 2 ^ 56 * (d + 2 ^ 56 * g)))"
  have "a + 2 ^ 56 * (b + 2 ^ 56 * (c + 2 ^ 56 * (d + 2 ^ 56 * e))) = ?v + 2 ^ 264 * f"
    unfolding e by simp
  moreover have "?v < 2 ^ 264" using assms g by simp
  ultimately show ?thesis unfolding g_def [symmetric] by (metis mod_less mod_mult_self2)
qed

lemma low_mul_5_correct:
  assumes x: "limbs56 x" and y: "limbs56 y" and z: "5 \<le> length z"
  defines "r \<equiv> Hacl_Impl_BignumQ_Mul_low_mul_5 z x y"
  shows "limbs56 r" and "qval r = qval x * qval y mod 2 ^ 264" and "drop 5 r = drop 5 z"
proof -
  define w where "w = Hacl_Impl_BignumQ_Mul_mul_5 (replicate 9 0) x y"
  note m = mul_5_correct [OF x y, of "replicate 9 0", folded w_def, simplified]
  obtain w0 w1 w2 w3 w4 w5 w6 w7 w8 where w: "w = [w0, w1, w2, w3, w4, w5, w6, w7, w8]"
    using m(1) by (auto simp: numeral_eq_Suc length_Suc_conv)
  have wd: "list_all wide [w0, w1, w2, w3, w4]" using m(2) by (simp add: w)
  let ?c = "carry_chain 0 [w0, w1, w2, w3]"
  have wv: "w0 = u128_mul_wide (x ! 0) (y ! 0)"
    "w1 = u128_add (u128_mul_wide (x ! 0) (y ! 1)) (u128_mul_wide (x ! 1) (y ! 0))"
    "w2 = u128_add (u128_add (u128_mul_wide (x ! 0) (y ! 2)) (u128_mul_wide (x ! 1) (y ! 1))) (u128_mul_wide (x ! 2) (y ! 0))"
    "w3 = u128_add (u128_add (u128_add (u128_mul_wide (x ! 0) (y ! 3)) (u128_mul_wide (x ! 1) (y ! 2))) 
       (u128_mul_wide (x ! 2) (y ! 1))) (u128_mul_wide (x ! 3) (y ! 0))"
    "w4 = u128_add (u128_add (u128_add (u128_add (u128_mul_wide (x ! 0) (y ! 4)) (u128_mul_wide (x ! 1) (y ! 3))) 
       (u128_mul_wide (x ! 2) (y ! 2))) (u128_mul_wide (x ! 3) (y ! 1))) (u128_mul_wide (x ! 4) (y ! 0))"
    using w by (simp_all add: w_def Hacl_Impl_BignumQ_Mul_mul_5_def Let_def make_h128_9_eq)
  define s1 where "s1 = u128_add w1 (u128_shift_right (u128_add w0 0) 56)"
  define s2 where "s2 = u128_add w2 (u128_shift_right s1 56)"
  define s3 where "s3 = u128_add w3 (u128_shift_right s2 56)"
  define s4 where "s4 = u128_add w4 (u128_shift_right s3 56)"
  let ?d = "\<lambda>z. uint128_to_uint64 z AND 0xffffffffffffff"
  have r: "r = [?d (u128_add w0 0), ?d s1, ?d s2, ?d s3, uint128_to_uint64 s4 AND 0xffffffffff] @ drop 5 z"
    unfolding r_def Hacl_Impl_BignumQ_Mul_low_mul_5_def Let_def make_h64_5_eq [OF z] s4_def s3_def s2_def s1_def wv
    by (simp only: u128_add_def add_0_right)
  show "drop 5 r = drop 5 z" unfolding r by simp
  have wd': "wide w0" "wide w1" "wide w2" "wide w3" "wide w4" using m(2) by (simp_all add: w)
  have k: "carried (u128_shift_right (u128_add w0 0) 56)" "carried (u128_shift_right s1 56)"
    "carried (u128_shift_right s2 56)" "carried (u128_shift_right s3 56)"
    unfolding s3_def s2_def s1_def using wd' by (intro carried_out; simp add: carried_def)+
  have c: "map unat (carry_chain 0 [w0, w1, w2, w3]) = carries 56 0 (map unat [w0, w1, w2, w3])"
    using carry_chain_correct [of "[w0, w1, w2, w3]" 0] wd' by (simp add: carried_def)
  have o: "unat (uint128_to_uint64 (u128_shift_right s3 56)) = unat (u128_shift_right s3 56)"
    using k(4) by (simp add: carried_def uint128_to_uint64_def unat_ucast_down)
  have v: "unat (?d (u128_add w0 0)) + 2 ^ 56 * (unat (?d s1) + 2 ^ 56 * (unat (?d s2) + 2 ^ 56 * (unat (?d s3)
      + 2 ^ 56 * unat (u128_shift_right s3 56)))) = eval_nats 56 (map unat [w0, w1, w2, w3])"
    using arg_cong [OF c, of "eval_nats 56"] by (simp add: eval_carries s3_def s2_def s1_def o [unfolded s3_def s2_def s1_def])
  have s4: "unat s4 = unat w4 + unat (u128_shift_right s3 56)" unfolding s4_def by (rule carry_add [OF wd'(5) k(4)])
  have e: "unat (?d (u128_add w0 0)) + 2 ^ 56 * (unat (?d s1) + 2 ^ 56 * (unat (?d s2) + 2 ^ 56 * (unat (?d s3)
      + 2 ^ 56 * unat s4))) = eval_nats 56 (map unat [w0, w1, w2, w3, w4])"
    using v unfolding s4 by simp
  have b: "unat (?d u) < 2 ^ 56" for u by (simp add: carry_digit)
  show "limbs56 r" unfolding r limbs56_def less_five using b by (simp add: low_digit_40)
  have "qval r = eval_nats 56 (map unat [w0, w1, w2, w3, w4]) mod 2 ^ 264"
    unfolding e [symmetric] mod_264_digits [OF b b b b] by (simp add: r qval_def low_digit_40)
  moreover have "eval_nats 56 (map unat w) = eval_nats 56 (map unat [w0, w1, w2, w3, w4])
      + 2 ^ 264 * (2 ^ 16 * eval_nats 56 (map unat [w5, w6, w7, w8]))"
    unfolding w by simp
  ultimately show "qval r = qval x * qval y mod 2 ^ 264" unfolding m(3) [symmetric] by (metis mod_mult_self2)
qed

text \<open>Ten limbs: a product or a hash value.\<close>

definition tval :: "u64 list \<Rightarrow> nat" where
  "tval t = eval_limbs 56 (take 10 t)"

definition limbs10 :: "u64 list \<Rightarrow> bool" where
  "limbs10 t \<longleftrightarrow> 10 \<le> length t \<and> (\<forall>i < 9. unat (t ! i) < 2 ^ 56)"

text \<open>The value split at the fifth limb.\<close>

definition high_part :: "u64 list \<Rightarrow> nat" where
  "high_part t = unat (t ! 4) + 2 ^ 56 * (unat (t ! 5) + 2 ^ 56 * (unat (t ! 6) + 2 ^ 56 * (unat (t ! 7)
     + 2 ^ 56 * (unat (t ! 8) + 2 ^ 56 * unat (t ! 9)))))"

lemma take_ten:
  "10 \<le> length x \<Longrightarrow> take 10 x = [x ! 0, x ! 1, x ! 2, x ! 3, x ! 4, x ! 5, x ! 6, x ! 7, x ! 8, x ! 9]"
  by (rule nth_equalityI) (auto simp: numeral_eq_Suc nth_Cons' less_Suc_eq)

lemma tval_split:
  "10 \<le> length t \<Longrightarrow> tval t = unat (t ! 0) + 2 ^ 56 * (unat (t ! 1) + 2 ^ 56 * (unat (t ! 2)
     + 2 ^ 56 * (unat (t ! 3) + 2 ^ 56 * high_part t)))"
  by (simp add: tval_def take_ten high_part_def)

lemma tval_div:
  assumes "limbs10 t"
  shows "tval t div 2 ^ (224 + s) = high_part t div 2 ^ s"
proof -
  have b: "unat (t ! 0) < 2 ^ 56" "unat (t ! 1) < 2 ^ 56" "unat (t ! 2) < 2 ^ 56" "unat (t ! 3) < 2 ^ 56"
    "10 \<le> length t"
    using assms by (simp_all add: limbs10_def)
  define l where "l = unat (t ! 0) + 2 ^ 56 * (unat (t ! 1) + 2 ^ 56 * (unat (t ! 2) + 2 ^ 56 * unat (t ! 3)))"
  have "tval t = l + 2 ^ 224 * high_part t" "l < 2 ^ 224" using b by (simp_all add: tval_split l_def)
  then have "tval t div 2 ^ 224 = high_part t" by simp
  then show ?thesis by (simp add: power_add div_mult2_eq)
qed

text \<open>A shift of the digits by \<open>S\<close>, where \<open>S * R\<close> is the radix.\<close>

lemma shift_digits:
  fixes S R :: nat
  assumes "y5 < S"
  shows "(y0 div S + R * (y1 mod S)) + S * R * ((y1 div S + R * (y2 mod S)) + S * R * ((y2 div S + R * (y3 mod S))
           + S * R * ((y3 div S + R * (y4 mod S)) + S * R * (y4 div S + R * (y5 mod S)))))
         = (y0 + S * R * (y1 + S * R * (y2 + S * R * (y3 + S * R * (y4 + S * R * y5))))) div S"
    (is "?V = ?N div S")
proof -
  have y: "y = y mod S + S * (y div S)" for y by simp
  have "?N = y0 mod S + S * ?V"
  proof -
    obtain r0 r1 r2 r3 r4 q0 q1 q2 q3 q4 where
      "r0 = y0 mod S" "r1 = y1 mod S" "r2 = y2 mod S" "r3 = y3 mod S" "r4 = y4 mod S"
      "q0 = y0 div S" "q1 = y1 div S" "q2 = y2 div S" "q3 = y3 div S" "q4 = y4 div S" by blast
    note d = this
    have "y0 = r0 + S * q0" "y1 = r1 + S * q1" "y2 = r2 + S * q2" "y3 = r3 + S * q3" "y4 = r4 + S * q4"
      by (simp_all add: d)
    note e = this
    have "?V = (q0 + R * r1) + S * R * ((q1 + R * r2) + S * R * ((q2 + R * r3) + S * R * ((q3 + R * r4)
        + S * R * (q4 + R * y5))))"
      using assms by (simp only: d mod_less)
    then show ?thesis unfolding d(1) [symmetric] by (simp only: e) (simp add: algebra_simps)
  qed
  moreover have "y0 mod S < S" using assms by simp
  ultimately show ?thesis by simp
qed

lemma shifted_limb:
  fixes x y m :: u64
  assumes "unat x < 2 ^ 56" and "s + k = 56" and "unat m = unat y mod 2 ^ s"
  shows "unat (push_bit k m OR drop_bit s x) = unat x div 2 ^ s + 2 ^ k * (unat y mod 2 ^ s)"
    and "unat x div 2 ^ s + 2 ^ k * (unat y mod 2 ^ s) < 2 ^ 56"
proof -
  have p: "(2::nat) ^ s * 2 ^ k = 2 ^ 56" unfolding assms(2) [symmetric] by (rule power_add [symmetric])
  have q: "unat x div 2 ^ s < 2 ^ k"
    by (rule less_mult_imp_div_less) (use assms(1) p in \<open>simp only: mult.commute [of "2 ^ k"]\<close>)
  have "Suc (unat y mod 2 ^ s) \<le> 2 ^ s" by (rule Suc_leI) simp
  then have "2 ^ k * Suc (unat y mod 2 ^ s) \<le> 2 ^ 56"
    unfolding p [symmetric] mult.commute [of "2 ^ s"] by (rule mult_le_mono2)
  then have "2 ^ k + 2 ^ k * (unat y mod 2 ^ s) \<le> 2 ^ 56" by (simp only: mult_Suc_right)
  with q show l: "unat x div 2 ^ s + 2 ^ k * (unat y mod 2 ^ s) < 2 ^ 56" by linarith
  have d: "unat (drop_bit s x) = unat x div 2 ^ s" by (rule unat_shr)
  have h: "unat m * 2 ^ k = 2 ^ k * (unat y mod 2 ^ s)" by (simp only: assms(3) mult.commute)
  have "unat (push_bit k m OR drop_bit s x) = unat m * 2 ^ k + unat (drop_bit s x)"
  proof (rule unat_or_shift)
    show "unat (drop_bit s x) < 2 ^ k" unfolding d by (rule q)
    have "(2::nat) ^ 56 \<le> 2 ^ LENGTH(64)" by simp
    with l show "unat m * 2 ^ k + unat (drop_bit s x) < 2 ^ LENGTH(64)" unfolding d h by linarith
  qed
  then show "unat (push_bit k m OR drop_bit s x) = unat x div 2 ^ s + 2 ^ k * (unat y mod 2 ^ s)"
    unfolding d h by linarith
qed

lemma shift_limbs_correct:
  assumes t: "limbs10 t" "unat (t ! 9) < 2 ^ s" and sk: "s + k = 56"
    and m: "\<And>i. unat (m i) = unat (t ! Suc i) mod 2 ^ s"
    and l: "\<And>i. l i = push_bit k (m i) OR drop_bit s (t ! i)"
  shows "limbs56 ([l 4, l 5, l 6, l 7, l 8] @ d)"
    and "qval ([l 4, l 5, l 6, l 7, l 8] @ d) = tval t div 2 ^ (224 + s)"
proof -
  have b: "unat (t ! 4) < 2 ^ 56" "unat (t ! 5) < 2 ^ 56" "unat (t ! 6) < 2 ^ 56" "unat (t ! 7) < 2 ^ 56" "unat (t ! 8) < 2 ^ 56"
    using t(1) by (simp_all add: limbs10_def)
  have v: "unat (l i) = unat (t ! i) div 2 ^ s + 2 ^ k * (unat (t ! Suc i) mod 2 ^ s)" "unat (l i) < 2 ^ 56"
    if "unat (t ! i) < 2 ^ 56" for i
    using shifted_limb [OF that sk m] by (simp_all add: l)
  show "limbs56 ([l 4, l 5, l 6, l 7, l 8] @ d)"
    unfolding limbs56_def less_five using v(2) b by simp
  have p: "(2::nat) ^ s * 2 ^ k = 2 ^ 56" unfolding sk [symmetric] by (rule power_add [symmetric])
  have "qval ([l 4, l 5, l 6, l 7, l 8] @ d) = high_part t div 2 ^ s"
    using shift_digits [OF t(2), of "unat (t ! 4)" "2 ^ k" "unat (t ! 5)" "unat (t ! 6)" "unat (t ! 7)" "unat (t ! 8)"]
      v(1) [OF b(1)] v(1) [OF b(2)] v(1) [OF b(3)] v(1) [OF b(4)] v(1) [OF b(5)]
    by (simp add: p qval_def high_part_def)
  then show "qval ([l 4, l 5, l 6, l 7, l 8] @ d) = tval t div 2 ^ (224 + s)"
    using tval_div [OF t(1), of s] by simp
qed

lemma div_248_correct:
  assumes t: "limbs10 t" "unat (t ! 9) < 2 ^ 24" and out: "5 \<le> length out"
  defines "r \<equiv> Hacl_Impl_BignumQ_Mul_div_248 out t"
  shows "limbs56 r" and "qval r = tval t div 2 ^ 248" and "drop 5 r = drop 5 out"
proof -
  define l where "l i = push_bit 32 (t ! Suc i AND 0xffffff) OR drop_bit 24 (t ! i)" for i
  have r: "r = [l 4, l 5, l 6, l 7, l 8] @ drop 5 out"
    unfolding r_def Hacl_Impl_BignumQ_Mul_div_248_def make_h64_5_eq [OF out] Let_def l_def by simp
  show "limbs56 r" "qval r = tval t div 2 ^ 248"
    using shift_limbs_correct [OF t _ and_mask_24 l_def, of "drop 5 out"] by (simp_all add: r)
  show "drop 5 r = drop 5 out" by (simp add: r)
qed

lemma div_264_correct:
  assumes t: "limbs10 t" "unat (t ! 9) < 2 ^ 40" and out: "5 \<le> length out"
  defines "r \<equiv> Hacl_Impl_BignumQ_Mul_div_264 out t"
  shows "limbs56 r" and "qval r = tval t div 2 ^ 264" and "drop 5 r = drop 5 out"
proof -
  define l where "l i = push_bit 16 (t ! Suc i AND 0xffffffffff) OR drop_bit 40 (t ! i)" for i
  have r: "r = [l 4, l 5, l 6, l 7, l 8] @ drop 5 out"
    unfolding r_def Hacl_Impl_BignumQ_Mul_div_264_def make_h64_5_eq [OF out] Let_def l_def by simp
  show "limbs56 r" "qval r = tval t div 2 ^ 264"
    using shift_limbs_correct [OF t _ and_mask_40 l_def, of "drop 5 out"] by (simp_all add: r)
  show "drop 5 r = drop 5 out" by (simp add: r)
qed

lemma mod_264_correct:
  assumes t: "limbs10 t" and out: "5 \<le> length out"
  defines "r \<equiv> Hacl_Impl_BignumQ_Mul_mod_264 out t"
  shows "limbs56 r" and "qval r = tval t mod 2 ^ 264" and "drop 5 r = drop 5 out"
proof -
  have b: "unat (t ! 0) < 2 ^ 56" "unat (t ! 1) < 2 ^ 56" "unat (t ! 2) < 2 ^ 56" "unat (t ! 3) < 2 ^ 56"
    "unat (t ! 4) < 2 ^ 56" "10 \<le> length t"
    using t by (simp_all add: limbs10_def)
  have r: "r = [t ! 0, t ! 1, t ! 2, t ! 3, t ! 4 AND 0xffffffffff] @ drop 5 out"
    using out by (simp add: r_def Hacl_Impl_BignumQ_Mul_mod_264_def make_h64_5_eq)
  show "drop 5 r = drop 5 out" by (simp add: r)
  have h: "high_part t mod 2 ^ 40 = unat (t ! 4) mod 2 ^ 40"
  proof -
    define m where "m = 2 ^ 16 * (unat (t ! 5) + 2 ^ 56 * (unat (t ! 6) + 2 ^ 56 * (unat (t ! 7)
      + 2 ^ 56 * (unat (t ! 8) + 2 ^ 56 * unat (t ! 9)))))"
    have "high_part t = unat (t ! 4) + 2 ^ 40 * m" by (simp add: high_part_def m_def)
    then show ?thesis by (simp only: mod_mult_self2)
  qed
  have "unat (t ! 4) mod 2 ^ 40 < 2 ^ 56" using b(5) by (meson le_less_trans mod_less_eq_dividend)
  then show "limbs56 r" unfolding r limbs56_def less_five using b by (simp add: and_mask_40)
  show "qval r = tval t mod 2 ^ 264"
    unfolding tval_split [OF b(6)] mod_264_digits [OF b(1,2,3,4)] h by (simp add: r qval_def and_mask_40)
qed

end
