(* ===== verification/Ed25519_Field.thy ===== *)
theory Ed25519_Field
  imports Curve25519 Ed25519_Scalar
begin

text \<open>
  The field operations \<open>Hacl_Ed25519.c\<close> adds to those it shares with \<open>Hacl_Curve25519.c\<close>
  (\<open>Hacl_Bignum25519_*\<close>, \<open>Crecip_crecip_\<close>, \<open>Format_reduce\<close>, \<open>Load51\<close>, \<open>Store51\<close>), with
  what each writes: a bound on the limbs and a value modulo \<open>2^255 - 19\<close>.
\<close>

section \<open>Operations\<close>

text \<open>The addition chain for the exponent \<open>2^252 - 2\<close>, used for square roots.\<close>

definition Hacl_Bignum_Crecip_crecip' :: "u64 list \<Rightarrow> u64 list \<Rightarrow> u64 list" where
  "Hacl_Bignum_Crecip_crecip' out z =
     (let buf = replicate 20 0;
          buf = at_ptr 0 (\<lambda>a. Hacl_Bignum_Fsquare_fsquare_times a z 1) buf;
          buf = at_ptr 5 (\<lambda>t00. Hacl_Bignum_Fsquare_fsquare_times t00 (drop 0 buf) 2) buf;
          buf = at_ptr 10 (\<lambda>b0. Hacl_Bignum_Fmul_fmul_25519 b0 (drop 5 buf) z) buf;
          buf = at_ptr 0 (\<lambda>a. Hacl_Bignum_Fmul_fmul_25519 a (drop 10 buf) a) buf;
          buf = at_ptr 5 (\<lambda>t00. Hacl_Bignum_Fsquare_fsquare_times t00 (drop 0 buf) 1) buf;
          buf = at_ptr 10 (\<lambda>b0. Hacl_Bignum_Fmul_fmul_25519 b0 (drop 5 buf) b0) buf;
          buf = at_ptr 5 (\<lambda>t00. Hacl_Bignum_Fsquare_fsquare_times t00 (drop 10 buf) 5) buf;
          buf = at_ptr 10 (\<lambda>b1. Hacl_Bignum_Fmul_fmul_25519 b1 (drop 5 buf) b1) buf;
          buf = at_ptr 5 (\<lambda>t01. Hacl_Bignum_Fsquare_fsquare_times t01 (drop 10 buf) 10) buf;
          buf = at_ptr 15 (\<lambda>c0. Hacl_Bignum_Fmul_fmul_25519 c0 (drop 5 buf) (drop 10 buf)) buf;
          buf = at_ptr 5 (\<lambda>t01. Hacl_Bignum_Fsquare_fsquare_times t01 (drop 15 buf) 20) buf;
          buf = at_ptr 5 (\<lambda>t01. Hacl_Bignum_Fmul_fmul_25519 t01 t01 (drop 15 buf)) buf;
          buf = at_ptr 5 (\<lambda>t01. Hacl_Bignum_Fsquare_fsquare_times_inplace t01 10) buf;
          buf = at_ptr 10 (\<lambda>b1. Hacl_Bignum_Fmul_fmul_25519 b1 (drop 5 buf) b1) buf;
          buf = at_ptr 5 (\<lambda>t01. Hacl_Bignum_Fsquare_fsquare_times t01 (drop 10 buf) 50) buf;
          buf = at_ptr 0 (\<lambda>a0. Hacl_Bignum_Fsquare_fsquare_times a0 z 1) buf;
          buf = at_ptr 15 (\<lambda>c. Hacl_Bignum_Fmul_fmul_25519 c (drop 5 buf) (drop 10 buf)) buf;
          buf = at_ptr 5 (\<lambda>t0. Hacl_Bignum_Fsquare_fsquare_times t0 (drop 15 buf) 100) buf;
          buf = at_ptr 5 (\<lambda>t0. Hacl_Bignum_Fmul_fmul_25519 t0 t0 (drop 15 buf)) buf;
          buf = at_ptr 5 (\<lambda>t0. Hacl_Bignum_Fsquare_fsquare_times_inplace t0 50) buf;
          buf = at_ptr 5 (\<lambda>t0. Hacl_Bignum_Fmul_fmul_25519 t0 t0 (drop 10 buf)) buf;
          buf = at_ptr 5 (\<lambda>t0. Hacl_Bignum_Fsquare_fsquare_times_inplace t0 2) buf
      in Hacl_Bignum_Fmul_fmul_25519 out (drop 5 buf) (drop 0 buf))"

definition Hacl_EC_Format_reduce :: "u64 list \<Rightarrow> u64 list" where
  "Hacl_EC_Format_reduce out =
     (let out = Hacl_EC_Format_fcontract_first_carry_full out;
          out = Hacl_EC_Format_fcontract_second_carry_full out
      in Hacl_EC_Format_fcontract_trim out)"

definition Hacl_Bignum25519_fsum :: "u64 list \<Rightarrow> u64 list \<Rightarrow> u64 list" where
  "Hacl_Bignum25519_fsum a b = Hacl_Bignum_fsum a b"

definition Hacl_Bignum25519_fdifference :: "u64 list \<Rightarrow> u64 list \<Rightarrow> u64 list" where
  "Hacl_Bignum25519_fdifference a b = Hacl_Bignum_fdifference a b"

definition Hacl_Bignum25519_reduce_513 :: "u64 list \<Rightarrow> u64 list" where
  "Hacl_Bignum25519_reduce_513 a =
     (let t0 = a ! 0; t1 = a ! 1; t2 = a ! 2; t3 = a ! 3; t4 = a ! 4;
          t1' = t1 + drop_bit 51 t0; t0' = t0 AND 0x7ffffffffffff;
          t2' = t2 + drop_bit 51 t1'; t1'' = t1' AND 0x7ffffffffffff;
          t3' = t3 + drop_bit 51 t2'; t2'' = t2' AND 0x7ffffffffffff;
          t4' = t4 + drop_bit 51 t3'; t3'' = t3' AND 0x7ffffffffffff;
          a = Hacl_Lib_Create64_make_h64_5 a t0' t1'' t2'' t3'' t4';
          a = Hacl_Bignum_Modulo_carry_top_25519 a;
          i0 = a ! 0; i1 = a ! 1;
          i0' = i0 AND 0x7ffffffffffff; i1' = i1 + drop_bit 51 i0;
          a = a[0 := i0'];
          a = a[1 := i1']
      in a)"

definition Hacl_Bignum25519_fdifference_reduced :: "u64 list \<Rightarrow> u64 list \<Rightarrow> u64 list" where
  "Hacl_Bignum25519_fdifference_reduced a b =
     (let a = Hacl_Bignum25519_fdifference a b in Hacl_Bignum25519_reduce_513 a)"

definition Hacl_Bignum25519_fmul :: "u64 list \<Rightarrow> u64 list \<Rightarrow> u64 list \<Rightarrow> u64 list" where
  "Hacl_Bignum25519_fmul out a b = Hacl_Bignum_fmul out a b"

definition Hacl_Bignum25519_times_2 :: "u64 list \<Rightarrow> u64 list \<Rightarrow> u64 list" where
  "Hacl_Bignum25519_times_2 out a =
     (let a0 = a ! 0; a1 = a ! 1; a2 = a ! 2; a3 = a ! 3; a4 = a ! 4;
          o0 = 2 * a0; o1 = 2 * a1; o2 = 2 * a2; o3 = 2 * a3; o4 = 2 * a4
      in Hacl_Lib_Create64_make_h64_5 out o0 o1 o2 o3 o4)"

definition Hacl_Bignum25519_times_d :: "u64 list \<Rightarrow> u64 list \<Rightarrow> u64 list" where
  "Hacl_Bignum25519_times_d out a =
     (let d1 = replicate 5 0;
          d1 = Hacl_Lib_Create64_make_h64_5 d1 0x00034dca135978a3 0x0001a8283b156ebd 0x0005e7a26001c029
                 0x000739c663a03cbb 0x00052036cee2b6ff
      in Hacl_Bignum25519_fmul out d1 a)"

definition Hacl_Bignum25519_times_2d :: "u64 list \<Rightarrow> u64 list \<Rightarrow> u64 list" where
  "Hacl_Bignum25519_times_2d out a =
     (let d2 = replicate 5 0;
          d2 = Hacl_Lib_Create64_make_h64_5 d2 0x00069b9426b2f159 0x00035050762add7a 0x0003cf44c0038052
                 0x0006738cc7407977 0x0002406d9dc56dff
      in Hacl_Bignum25519_fmul out a d2)"

definition Hacl_Bignum25519_fsquare :: "u64 list \<Rightarrow> u64 list \<Rightarrow> u64 list" where
  "Hacl_Bignum25519_fsquare out a =
     (let tmp = replicate 5 (uint64_to_uint128 0);
          out = memcpy out a 5
      in snd (Hacl_Bignum_Fsquare_fsquare' tmp out))"

definition Hacl_Bignum25519_inverse :: "u64 list \<Rightarrow> u64 list \<Rightarrow> u64 list" where
  "Hacl_Bignum25519_inverse out a = Hacl_Bignum_Crecip_crecip out a"

definition Hacl_Bignum25519_reduce :: "u64 list \<Rightarrow> u64 list" where
  "Hacl_Bignum25519_reduce out = Hacl_EC_Format_reduce out"

definition Hacl_Impl_Store51_store_51' :: "bytes \<Rightarrow> u64 list \<Rightarrow> bytes" where
  "Hacl_Impl_Store51_store_51' output input =
     (let t0 = input ! 0; t1 = input ! 1; t2 = input ! 2; t3 = input ! 3; t4 = input ! 4;
          o0 = push_bit 51 t1 OR t0;
          o1 = push_bit 38 t2 OR drop_bit 13 t1;
          o2 = push_bit 25 t3 OR drop_bit 26 t2;
          o3 = push_bit 12 t4 OR drop_bit 39 t3;
          output = at_ptr 0 (\<lambda>b0. store64_le b0 o0) output;
          output = at_ptr 8 (\<lambda>b1. store64_le b1 o1) output;
          output = at_ptr 16 (\<lambda>b2. store64_le b2 o2) output;
          output = at_ptr 24 (\<lambda>b3. store64_le b3 o3) output
      in output)"

definition Hacl_Impl_Load51_load_51 :: "u64 list \<Rightarrow> bytes \<Rightarrow> u64 list" where
  "Hacl_Impl_Load51_load_51 output input = Hacl_EC_Format_fexpand output input"

section \<open>What they write\<close>

lemma crecip'_writes:
  assumes "5 \<le> length out" and "fe_red z"
  shows "fe_writes (2 ^ 51 + 2 ^ 13) (fval z ^ (2 ^ 252 - 2)) out (Hacl_Bignum_Crecip_crecip' out z)"
proof -
  have z: "holds (powcell (fval z) 1) z"
    using assms(2) by (simp add: holds_powcell) (simp add: fval_def)
  have z0: "slots [None, None, None, None] (replicate 20 0)"
    using slots_zero [of 4 0] by (simp add: numeral_eq_Suc)
  show ?thesis
    unfolding Hacl_Bignum_Crecip_crecip'_def at_ptr_def
    by (rule crecip_start [OF z0],
        rule crecip_sq_input [OF _ _ _ z], assumption, simp, simp, simp, simp,
        rule crecip_sq, assumption, simp, simp, simp, simp, simp, simp, simp,
        rule crecip_mul_input [OF _ _ _ _ _ _ z], assumption, simp, simp, simp, simp, simp, simp,
        ((rule crecip_sq, assumption, simp, simp, simp, simp, simp, simp, simp)
         | (rule crecip_sq_inplace, assumption, simp, simp, simp, simp, simp)
         | (rule crecip_sq_input [OF _ _ _ z], assumption, simp, simp, simp, simp)
         | (rule crecip_mul, assumption, simp, simp, simp, simp, simp, simp, simp, simp, simp))+,
        rule crecip_last, assumption, simp, simp, simp, simp, simp, simp, rule assms(1), simp)
qed

lemma reduce_513_eq:
  "Hacl_Bignum25519_reduce_513 (a0 # a1 # a2 # a3 # a4 # r)
   = (let a = Hacl_Bignum_Modulo_carry_top_25519 (Hacl_EC_Format_fcontract_first_carry_pass (a0 # a1 # a2 # a3 # a4 # r))
      in a[0 := (a ! 0) AND 0x7ffffffffffff, 1 := (a ! 1) + drop_bit 51 (a ! 0)])"
  by (simp add: Hacl_Bignum25519_reduce_513_def Hacl_EC_Format_fcontract_first_carry_pass_def
      Hacl_Lib_Create64_make_h64_5_def Let_def)

lemma reduce_513_writes:
  assumes "limbs_below (2 ^ 56) a"
  shows "fe_writes (2 ^ 51 + 2 ^ 13) (fval a) a (Hacl_Bignum25519_reduce_513 a)"
proof -
  obtain a0 a1 a2 a3 a4 r where a: "a = a0 # a1 # a2 # a3 # a4 # r"
    and al: "unat a0 < 2 ^ 56" "unat a1 < 2 ^ 56" "unat a2 < 2 ^ 56" "unat a3 < 2 ^ 56" "unat a4 < 2 ^ 56"
    using assms by (rule limbs_belowE)
  obtain w0 w1 w2 w3 w4 s1 s2 s3 s4 where
    w: "Hacl_Bignum_Modulo_carry_top_25519 (Hacl_EC_Format_fcontract_first_carry_pass (a0 # a1 # a2 # a3 # a4 # r))
     = w0 # w1 # w2 # w3 # w4 # r"
    and s: "s1 = unat a1 + unat a0 div 2 ^ 51" "s2 = unat a2 + s1 div 2 ^ 51" "s3 = unat a3 + s2 div 2 ^ 51"
    "s4 = unat a4 + s3 div 2 ^ 51" and w0: "unat w0 = unat a0 mod 2 ^ 51 + 19 * (s4 div 2 ^ 51)"
    and wi: "unat w1 = s1 mod 2 ^ 51" "unat w2 = s2 mod 2 ^ 51" "unat w3 = s3 mod 2 ^ 51" "unat w4 = s4 mod 2 ^ 51"
    using al by (rule full_pass [where r = r])
  have wb: "unat w1 < 2 ^ 51" "unat w2 < 2 ^ 51" "unat w3 < 2 ^ 51" "unat w4 < 2 ^ 51"
    unfolding wi by (rule mod51_lt)+
  have q: "x div 2 ^ 51 < 64" if "x < 2 ^ 57" for x :: nat
    using div51_small that .
  have s57: "s1 < 2 ^ 57" "s2 < 2 ^ 57" "s3 < 2 ^ 57" "s4 < 2 ^ 57"
    using al q [of "unat a0"] q [of s1] q [of s2] q [of s3] by (simp_all add: s)
  have w0b: "unat w0 < 2 ^ 52"
    using q [OF s57(4)] mod51_lt [of "unat a0"] by (simp add: w0)
  have c: "unat w0 div 2 ^ 51 \<le> 1" using less_mult_imp_div_less [of "unat w0" 2 "2 ^ 51"] w0b by simp
  have v1: "unat (w1 + drop_bit 51 w0) = unat w1 + unat w0 div 2 ^ 51"
    using c wb(1) by (subst unat_plus) (simp_all add: unat_shr)
  have v0: "unat (w0 AND 0x7ffffffffffff) = unat w0 mod 2 ^ 51" by (rule and_mask_51)
  have "int (unat w0 + 2 ^ 51 * (unat w1 + 2 ^ 51 * x)) = int (unat w0 mod 2 ^ 51 + 2 ^ 51 * (unat w1 + unat w0 div 2 ^ 51 + 2 ^ 51 * x))" for x
  proof -
    have "unat w0 + 2 ^ 51 * (unat w1 + 2 ^ 51 * x) = unat w0 mod 2 ^ 51 + 2 ^ 51 * (unat w1 + unat w0 div 2 ^ 51 + 2 ^ 51 * x)"
      by (subst mod_mult_div_eq [of "unat w0" "2 ^ 51", symmetric]) (simp only: distrib_left ac_simps)
    then show ?thesis by (rule arg_cong)
  qed
  then have "fval ((w0 AND 0x7ffffffffffff) # (w1 + drop_bit 51 w0) # w2 # w3 # w4 # r) = fval (w0 # w1 # w2 # w3 # w4 # r)"
    unfolding fval_Cons v0 v1 by presburger
  moreover have "int (unat w0 + 2 ^ 51 * (unat w1 + 2 ^ 51 * (unat w2 + 2 ^ 51 * (unat w3 + 2 ^ 51 * unat w4)))) mod p25519
        = int (unat a0 + 2 ^ 51 * (unat a1 + 2 ^ 51 * (unat a2 + 2 ^ 51 * (unat a3 + 2 ^ 51 * unat a4)))) mod p25519"
    using carry5_nat [OF s refl w0] unfolding wi by (metis mod_mult_self2)
  ultimately have fv: "fval ((w0 AND 0x7ffffffffffff) # (w1 + drop_bit 51 w0) # w2 # w3 # w4 # r) = fval a mod p25519"
    by (simp only: a fval_Cons mod_mod_trivial)
  have "limbs_below (2 ^ 51 + 2 ^ 13) ((w0 AND 0x7ffffffffffff) # (w1 + drop_bit 51 w0) # w2 # w3 # w4 # r)"
    using c wb mod51_lt [of "unat w0"] by (simp add: limbs_below_Cons v0 v1)
  from fe_writes_Cons [OF this fv] show ?thesis
    by (simp add: a reduce_513_eq w)
qed

text \<open>The representative below the prime: what \<open>reduce\<close> leaves in the limbs.\<close>

lemma trim_rest: "length (Hacl_EC_Format_fcontract_trim l) = length l" "drop 5 (Hacl_EC_Format_fcontract_trim l) = drop 5 l"
  by (simp_all add: Hacl_EC_Format_fcontract_trim_def Let_def)

lemma reduce_writes:
  assumes "fe_red a"
  shows "fe_writes (2 ^ 51) (fval a) a (Hacl_Bignum25519_reduce a)"
    and "int (lval (Hacl_Bignum25519_reduce a)) = fval a"
proof -
  obtain a0 a1 a2 a3 a4 r where a: "a = a0 # a1 # a2 # a3 # a4 # r"
    and al: "unat a0 < 2 ^ 51 + 2 ^ 13" "unat a1 < 2 ^ 51 + 2 ^ 13" "unat a2 < 2 ^ 51 + 2 ^ 13"
      "unat a3 < 2 ^ 51 + 2 ^ 13" "unat a4 < 2 ^ 51 + 2 ^ 13"
    using assms by (rule limbs_belowE)
  obtain v0 v1 v2 v3 v4 where
    v: "Hacl_EC_Format_fcontract_second_carry_full (Hacl_EC_Format_fcontract_first_carry_full (a0 # a1 # a2 # a3 # a4 # r))
     = v0 # v1 # v2 # v3 # v4 # r"
    and vl: "limbs_below (2 ^ 51) (v0 # v1 # v2 # v3 # v4 # r)"
    and vf: "fval (v0 # v1 # v2 # v3 # v4 # r) = fval (a0 # a1 # a2 # a3 # a4 # r)"
    using al by (rule two_passes [where r = r])
  have eq: "Hacl_Bignum25519_reduce a = Hacl_EC_Format_fcontract_trim (v0 # v1 # v2 # v3 # v4 # r)"
    by (simp only: Hacl_Bignum25519_reduce_def Hacl_EC_Format_reduce_def a v Let_def)
  note tr = trim_correct [OF vl] trim_rest [of "v0 # v1 # v2 # v3 # v4 # r"]
  have "fval (v0 # v1 # v2 # v3 # v4 # r) = fval a" unfolding a by (rule vf)
  then show val: "int (lval (Hacl_Bignum25519_reduce a)) = fval a" unfolding eq tr(2) .
  have "fval (Hacl_Bignum25519_reduce a) = fval a mod p25519"
    unfolding fval_def [of "Hacl_Bignum25519_reduce a"] val ..
  then show "fe_writes (2 ^ 51) (fval a) a (Hacl_Bignum25519_reduce a)"
    using tr(1,3,4) by (simp add: fe_writes_def eq) (simp add: a)
qed

text \<open>The constant \<open>d\<close> of the curve: \<open>- 121665 / 121666\<close>.\<close>

definition ed_d :: int where
  "ed_d = 37095705934669439343138083508754565189542113879843219016388785533085940283555"

lemma ed_d_quotient: "(ed_d * 121666 + 121665) mod p25519 = 0"
  by (simp add: ed_d_def p25519_def)

section \<open>Statements on cells\<close>

lemma e_mul:
  assumes "holds (Some (m, u)) a" "holds (Some (n, v)) b" "m \<le> 2 ^ 54 + 2 ^ 51 + 2 ^ 13"
    "n \<le> 2 ^ 54 + 2 ^ 51 + 2 ^ 13" "5 \<le> length out"
  shows "fe_writes (2 ^ 51 + 2 ^ 13) (u * v) out (Hacl_Bignum25519_fmul out a b)"
  unfolding Hacl_Bignum25519_fmul_def by (rule w_mul [OF assms])

lemma e_sum:
  assumes "holds (Some (m, u)) out" "holds (Some (n, v)) b" "m + n \<le> 2 ^ 64"
  shows "fe_writes (m + n) (u + v) out (Hacl_Bignum25519_fsum out b)"
  unfolding Hacl_Bignum25519_fsum_def by (rule w_sum [OF assms])

lemma e_diff:
  assumes "holds (Some (m, u)) out" "holds (Some (n, v)) b" "m \<le> 2 ^ 51 + 2 ^ 13" "n \<le> 2 ^ 51 + 2 ^ 13"
  shows "fe_writes (2 ^ 54 + 2 ^ 51 + 2 ^ 13) (v - u) out (Hacl_Bignum25519_fdifference out b)"
  unfolding Hacl_Bignum25519_fdifference_def by (rule w_diff [OF assms])

lemma e_reduce_513:
  assumes "holds (Some (m, u)) out" "m \<le> 2 ^ 56"
  shows "fe_writes (2 ^ 51 + 2 ^ 13) u out (Hacl_Bignum25519_reduce_513 out)"
proof (rule fe_writes_cong [OF _ reduce_513_writes])
  show "limbs_below (2 ^ 56) out" using assms by (auto simp: holds_Some intro: limbs_below_mono)
  show "fval out mod p25519 = u mod p25519" using assms by (simp add: holds_Some)
qed

lemma e_diff_reduced:
  assumes "holds (Some (m, u)) out" "holds (Some (n, v)) b" "m \<le> 2 ^ 51 + 2 ^ 13" "n \<le> 2 ^ 51 + 2 ^ 13"
  shows "fe_writes (2 ^ 51 + 2 ^ 13) (v - u) out (Hacl_Bignum25519_fdifference_reduced out b)"
proof -
  note d = e_diff [OF assms]
  have "5 \<le> length out" using assms(1) by (auto simp: holds_def)
  from e_reduce_513 [OF fe_writes_holds [OF d this]] show ?thesis
    unfolding Hacl_Bignum25519_fdifference_reduced_def Let_def by (intro fe_writes_trans [OF d]) simp
qed

lemma e_sq:
  assumes "holds (Some (m, u)) a" "m \<le> 2 ^ 54 + 2 ^ 51 + 2 ^ 13" "5 \<le> length out"
  shows "fe_writes (2 ^ 51 + 2 ^ 13) (u ^ 2) out (Hacl_Bignum25519_fsquare out a)"
proof -
  have "Hacl_Bignum25519_fsquare out a = Hacl_Bignum_Fsquare_fsquare_times out a 1"
    by (simp add: Hacl_Bignum25519_fsquare_def Hacl_Bignum_Fsquare_fsquare_times_def
        Hacl_Bignum_Fsquare_fsquare_times'_def Let_def split_beta)
  with w_sq [OF assms] show ?thesis by simp
qed

lemma make_h64_5_Cons:
  "Hacl_Lib_Create64_make_h64_5 (o0 # o1 # o2 # o3 # o4 # r) a0 a1 a2 a3 a4 = a0 # a1 # a2 # a3 # a4 # r"
  by (simp add: Hacl_Lib_Create64_make_h64_5_def)

lemma e_times_2:
  assumes "holds (Some (m, u)) a" "m \<le> 2 ^ 62" "5 \<le> length out"
  shows "fe_writes (2 * m) (2 * u) out (Hacl_Bignum25519_times_2 out a)"
proof -
  obtain o0 o1 o2 o3 o4 r where out: "out = o0 # o1 # o2 # o3 # o4 # r" using assms(3) by (rule limbs5E)
  have "limbs_below m a" and v: "fval a = u mod p25519" using assms(1) by (simp_all add: holds_Some)
  then obtain a0 a1 a2 a3 a4 q where a: "a = a0 # a1 # a2 # a3 # a4 # q"
    and al: "unat a0 < m" "unat a1 < m" "unat a2 < m" "unat a3 < m" "unat a4 < m"
    by (elim limbs_belowE)
  have u: "unat (2 * x) = 2 * unat x" if "unat x < m" for x :: u64
    using that assms(2) by (subst unat_times) simp_all
  have "fval (2 * a0 # 2 * a1 # 2 * a2 # 2 * a3 # 2 * a4 # r) = 2 * fval a mod p25519"
    unfolding a fval_Cons mod_mult_right_eq u [OF al(1)] u [OF al(2)] u [OF al(3)] u [OF al(4)] u [OF al(5)]
    by (simp add: algebra_simps)
  then have "fval (2 * a0 # 2 * a1 # 2 * a2 # 2 * a3 # 2 * a4 # r) = 2 * u mod p25519"
    unfolding v by (simp add: mod_mult_right_eq)
  moreover have "limbs_below (2 * m) (2 * a0 # 2 * a1 # 2 * a2 # 2 * a3 # 2 * a4 # r)"
    unfolding limbs_below_Cons u [OF al(1)] u [OF al(2)] u [OF al(3)] u [OF al(4)] u [OF al(5)] using al by simp
  ultimately show ?thesis
    by (simp add: out a Hacl_Bignum25519_times_2_def make_h64_5_Cons Let_def fe_writes_Cons)
qed

lemma zeros5: "replicate 5 (0 :: u64) = 0 # 0 # 0 # 0 # 0 # []"
  by (simp add: numeral_eq_Suc)

lemma e_times_d:
  assumes "holds (Some (m, u)) a" "m \<le> 2 ^ 54 + 2 ^ 51 + 2 ^ 13" "5 \<le> length out"
  shows "fe_writes (2 ^ 51 + 2 ^ 13) (ed_d * u) out (Hacl_Bignum25519_times_d out a)"
proof -
  have "holds (Some (2 ^ 51, ed_d)) [0x00034dca135978a3, 0x0001a8283b156ebd, 0x0005e7a26001c029, 0x000739c663a03cbb, 0x00052036cee2b6ff]"
    by (simp add: holds_Some limbs_below_Cons fval_Cons ed_d_def p25519_def)
  from e_mul [OF this assms(1) _ assms(2,3)] show ?thesis
    by (simp add: Hacl_Bignum25519_times_d_def zeros5 make_h64_5_Cons)
qed

lemma e_times_2d:
  assumes "holds (Some (m, u)) a" "m \<le> 2 ^ 54 + 2 ^ 51 + 2 ^ 13" "5 \<le> length out"
  shows "fe_writes (2 ^ 51 + 2 ^ 13) (u * (2 * ed_d)) out (Hacl_Bignum25519_times_2d out a)"
proof -
  have "holds (Some (2 ^ 51, 2 * ed_d)) [0x00069b9426b2f159, 0x00035050762add7a, 0x0003cf44c0038052, 0x0006738cc7407977, 0x0002406d9dc56dff]"
    by (simp add: holds_Some limbs_below_Cons fval_Cons ed_d_def p25519_def)
  from e_mul [OF assms(1) this assms(2) _ assms(3)] show ?thesis
    by (simp add: Hacl_Bignum25519_times_2d_def zeros5 make_h64_5_Cons)
qed

lemma e_inverse:
  assumes "holds (Some (m, u)) a" "m \<le> 2 ^ 51 + 2 ^ 13" "5 \<le> length out"
  shows "fe_writes (2 ^ 51 + 2 ^ 13) (u ^ (2 ^ 255 - 21)) out (Hacl_Bignum25519_inverse out a)"
  unfolding Hacl_Bignum25519_inverse_def
  by (rule fe_writes_cong [OF _ crecip_writes [OF assms(3) holds_red [OF assms(1,2)]]])
     (simp only: holds_value [OF assms(1)] power_mod)

lemma e_crecip':
  assumes "holds (Some (m, u)) a" "m \<le> 2 ^ 51 + 2 ^ 13" "5 \<le> length out"
  shows "fe_writes (2 ^ 51 + 2 ^ 13) (u ^ (2 ^ 252 - 2)) out (Hacl_Bignum_Crecip_crecip' out a)"
  by (rule fe_writes_cong [OF _ crecip'_writes [OF assms(3) holds_red [OF assms(1,2)]]])
     (simp only: holds_value [OF assms(1)] power_mod)

lemma e_reduce:
  assumes "holds (Some (m, u)) out" "m \<le> 2 ^ 51 + 2 ^ 13"
  shows "fe_writes (2 ^ 51) u out (Hacl_Bignum25519_reduce out)"
  by (rule fe_writes_cong [OF _ reduce_writes(1) [OF holds_red [OF assms]]]) (simp add: holds_value [OF assms(1)])

lemma store_51_correct:
  assumes "limbs_below (2 ^ 51) l" and "32 \<le> length out"
  shows "Hacl_Impl_Store51_store_51' out l = le_bytes 32 (lval l) @ drop 32 out"
proof -
  have "Hacl_Impl_Store51_store_51' out l = Hacl_EC_Format_fcontract_store out l"
    by (simp only: Hacl_Impl_Store51_store_51'_def Hacl_EC_Format_fcontract_store_def)
  with store_correct [OF assms] show ?thesis by simp
qed

end
