(* ===== verification/Ed25519_Point.thy ===== *)
theory Ed25519_Point
  imports Ed25519_Field
begin

text \<open>
  The points of \<open>Hacl_Ed25519.c\<close>: twenty words, the coordinates \<open>X\<close>, \<open>Y\<close>, \<open>Z\<close>, \<open>T\<close> of
  RFC 8032 at offsets 0, 5, 10 and 15; addition, doubling and the ladder for scalar
  multiplication.  They compute the formulas of RFC 8032, section 5.1.4.
\<close>

section \<open>Coordinates and constants\<close>

definition Hacl_Impl_Ed25519_ExtPoint_getx :: "u64 list \<Rightarrow> u64 list" where
  "Hacl_Impl_Ed25519_ExtPoint_getx p = p"

definition Hacl_Impl_Ed25519_ExtPoint_gety :: "u64 list \<Rightarrow> u64 list" where
  "Hacl_Impl_Ed25519_ExtPoint_gety p = drop 5 p"

definition Hacl_Impl_Ed25519_ExtPoint_getz :: "u64 list \<Rightarrow> u64 list" where
  "Hacl_Impl_Ed25519_ExtPoint_getz p = drop 10 p"

definition Hacl_Impl_Ed25519_ExtPoint_gett :: "u64 list \<Rightarrow> u64 list" where
  "Hacl_Impl_Ed25519_ExtPoint_gett p = drop 15 p"

definition Hacl_Impl_Ed25519_G_make_g :: "u64 list \<Rightarrow> u64 list" where
  "Hacl_Impl_Ed25519_G_make_g g1 =
     (let g1 = at_ptr 0 (\<lambda>gx. Hacl_Lib_Create64_make_h64_5 gx 0x00062d608f25d51a 0x000412a4b4f6592a
                 0x00075b7171a4b31d 0x0001ff60527118fe 0x000216936d3cd6e5) g1;
          g1 = at_ptr 5 (\<lambda>gy. Hacl_Lib_Create64_make_h64_5 gy 0x0006666666666658 0x0004cccccccccccc
                 0x0001999999999999 0x0003333333333333 0x0006666666666666) g1;
          g1 = at_ptr 10 (\<lambda>gz. Hacl_Lib_Create64_make_h64_5 gz 1 0 0 0 0) g1;
          g1 = at_ptr 15 (\<lambda>gt1. Hacl_Lib_Create64_make_h64_5 gt1 0x00068ab3a5b7dda3 0x00000eea2a5eadbb
                 0x0002af8df483c27e 0x000332b375274732 0x00067875f0fd78b7) g1
      in g1)"

section \<open>Compression\<close>

definition Hacl_Impl_Ed25519_PointCompress_x_mod_2 :: "u64 list \<Rightarrow> u64" where
  "Hacl_Impl_Ed25519_PointCompress_x_mod_2 x = (let x0 = x ! 0 in x0 AND 1)"

text \<open>The buffer \<open>tmp\<close> holds \<open>zinv\<close>, \<open>x\<close> and \<open>out\<close>.\<close>

definition Hacl_Impl_Ed25519_PointCompress_point_compress :: "bytes \<Rightarrow> u64 list \<Rightarrow> bytes" where
  "Hacl_Impl_Ed25519_PointCompress_point_compress z p =
     (let tmp = replicate 15 0;
          px = Hacl_Impl_Ed25519_ExtPoint_getx p;
          py = Hacl_Impl_Ed25519_ExtPoint_gety p;
          pz = Hacl_Impl_Ed25519_ExtPoint_getz p;
          tmp = at_ptr 0 (\<lambda>zinv. Hacl_Bignum25519_inverse zinv pz) tmp;
          tmp = at_ptr 5 (\<lambda>x. Hacl_Bignum25519_fmul x px (drop 0 tmp)) tmp;
          tmp = at_ptr 5 Hacl_Bignum25519_reduce tmp;
          tmp = at_ptr 10 (\<lambda>out. Hacl_Bignum25519_fmul out py (drop 0 tmp)) tmp;
          tmp = at_ptr 10 Hacl_Bignum25519_reduce tmp;
          b = Hacl_Impl_Ed25519_PointCompress_x_mod_2 (drop 5 tmp);
          z = Hacl_Impl_Store51_store_51' z (drop 10 tmp);
          xbyte = ucast b :: u8;
          o31 = z ! 31
      in z[31 := o31 + push_bit 7 xbyte])"

section \<open>Conditional swap\<close>

definition Hacl_Impl_Ed25519_SwapConditional_swap_conditional_step ::
    "u64 list \<Rightarrow> u64 list \<Rightarrow> u64 list \<Rightarrow> u64 list \<Rightarrow> u64 \<Rightarrow> u64 list \<times> u64 list" where
  "Hacl_Impl_Ed25519_SwapConditional_swap_conditional_step a' b' a b swap1 =
     (let a0 = a ! 0; a1 = a ! 1; a2 = a ! 2; a3 = a ! 3; a4 = a ! 4;
          b0 = b ! 0; b1 = b ! 1; b2 = b ! 2; b3 = b ! 3; b4 = b ! 4;
          x0 = swap1 AND (a0 XOR b0);
          x1 = swap1 AND (a1 XOR b1);
          x2 = swap1 AND (a2 XOR b2);
          x3 = swap1 AND (a3 XOR b3);
          x4 = swap1 AND (a4 XOR b4);
          a0' = a0 XOR x0; b0' = b0 XOR x0;
          a1' = a1 XOR x1; b1' = b1 XOR x1;
          a2' = a2 XOR x2; b2' = b2 XOR x2;
          a3' = a3 XOR x3; b3' = b3 XOR x3;
          a4' = a4 XOR x4; b4' = b4 XOR x4
      in (Hacl_Lib_Create64_make_h64_5 a' a0' a1' a2' a3' a4',
          Hacl_Lib_Create64_make_h64_5 b' b0' b1' b2' b3' b4'))"

definition Hacl_Impl_Ed25519_SwapConditional_swap_conditional ::
    "u64 list \<Rightarrow> u64 list \<Rightarrow> u64 list \<Rightarrow> u64 list \<Rightarrow> u64 \<Rightarrow> u64 list \<times> u64 list" where
  "Hacl_Impl_Ed25519_SwapConditional_swap_conditional a' b' a b iswap =
     (let swap1 = 0 - iswap;
          (a', b') = Hacl_Impl_Ed25519_SwapConditional_swap_conditional_step
             (Hacl_Impl_Ed25519_ExtPoint_getx a') (Hacl_Impl_Ed25519_ExtPoint_getx b')
             (Hacl_Impl_Ed25519_ExtPoint_getx a) (Hacl_Impl_Ed25519_ExtPoint_getx b) swap1;
          (ay, bY) = Hacl_Impl_Ed25519_SwapConditional_swap_conditional_step
             (Hacl_Impl_Ed25519_ExtPoint_gety a') (Hacl_Impl_Ed25519_ExtPoint_gety b')
             (Hacl_Impl_Ed25519_ExtPoint_gety a) (Hacl_Impl_Ed25519_ExtPoint_gety b) swap1;
          a' = take 5 a' @ ay; b' = take 5 b' @ bY;
          (az, bz) = Hacl_Impl_Ed25519_SwapConditional_swap_conditional_step
             (Hacl_Impl_Ed25519_ExtPoint_getz a') (Hacl_Impl_Ed25519_ExtPoint_getz b')
             (Hacl_Impl_Ed25519_ExtPoint_getz a) (Hacl_Impl_Ed25519_ExtPoint_getz b) swap1;
          a' = take 10 a' @ az; b' = take 10 b' @ bz;
          (at, bt) = Hacl_Impl_Ed25519_SwapConditional_swap_conditional_step
             (Hacl_Impl_Ed25519_ExtPoint_gett a') (Hacl_Impl_Ed25519_ExtPoint_gett b')
             (Hacl_Impl_Ed25519_ExtPoint_gett a) (Hacl_Impl_Ed25519_ExtPoint_gett b) swap1
      in (take 15 a' @ at, take 15 b' @ bt))"

definition Hacl_Impl_Ed25519_SwapConditional_swap_conditional_inplace ::
    "u64 list \<Rightarrow> u64 list \<Rightarrow> u64 \<Rightarrow> u64 list \<times> u64 list" where
  "Hacl_Impl_Ed25519_SwapConditional_swap_conditional_inplace a b iswap =
     (let swap1 = 0 - iswap;
          (a, b) = Hacl_Impl_Ed25519_SwapConditional_swap_conditional_step
             (Hacl_Impl_Ed25519_ExtPoint_getx a) (Hacl_Impl_Ed25519_ExtPoint_getx b)
             (Hacl_Impl_Ed25519_ExtPoint_getx a) (Hacl_Impl_Ed25519_ExtPoint_getx b) swap1;
          (ay, bY) = Hacl_Impl_Ed25519_SwapConditional_swap_conditional_step
             (Hacl_Impl_Ed25519_ExtPoint_gety a) (Hacl_Impl_Ed25519_ExtPoint_gety b)
             (Hacl_Impl_Ed25519_ExtPoint_gety a) (Hacl_Impl_Ed25519_ExtPoint_gety b) swap1;
          a = take 5 a @ ay; b = take 5 b @ bY;
          (az, bz) = Hacl_Impl_Ed25519_SwapConditional_swap_conditional_step
             (Hacl_Impl_Ed25519_ExtPoint_getz a) (Hacl_Impl_Ed25519_ExtPoint_getz b)
             (Hacl_Impl_Ed25519_ExtPoint_getz a) (Hacl_Impl_Ed25519_ExtPoint_getz b) swap1;
          a = take 10 a @ az; b = take 10 b @ bz;
          (at, bt) = Hacl_Impl_Ed25519_SwapConditional_swap_conditional_step
             (Hacl_Impl_Ed25519_ExtPoint_gett a) (Hacl_Impl_Ed25519_ExtPoint_gett b)
             (Hacl_Impl_Ed25519_ExtPoint_gett a) (Hacl_Impl_Ed25519_ExtPoint_gett b) swap1
      in (take 15 a @ at, take 15 b @ bt))"

definition Hacl_Impl_Ed25519_SwapConditional_copy :: "u64 list \<Rightarrow> u64 list \<Rightarrow> u64 list" where
  "Hacl_Impl_Ed25519_SwapConditional_copy output input = memcpy output input 20"

section \<open>Addition and doubling\<close>

text \<open>The scratch buffers hold six elements, \<open>tmp1\<close> to \<open>tmp6\<close>.\<close>

definition Hacl_Impl_Ed25519_PointAdd_point_add :: "u64 list \<Rightarrow> u64 list \<Rightarrow> u64 list \<Rightarrow> u64 list" where
  "Hacl_Impl_Ed25519_PointAdd_point_add out p q1 =
     (let tmp = replicate 30 0;
          x1 = Hacl_Impl_Ed25519_ExtPoint_getx p;
          y1 = Hacl_Impl_Ed25519_ExtPoint_gety p;
          x2 = Hacl_Impl_Ed25519_ExtPoint_getx q1;
          y2 = Hacl_Impl_Ed25519_ExtPoint_gety q1;
          tmp = at_ptr 0 (\<lambda>tmp1. memcpy tmp1 x1 5) tmp;
          tmp = at_ptr 5 (\<lambda>tmp20. memcpy tmp20 x2 5) tmp;
          tmp = at_ptr 0 (\<lambda>tmp1. Hacl_Bignum25519_fdifference_reduced tmp1 y1) tmp;
          tmp = at_ptr 5 (\<lambda>tmp20. Hacl_Bignum25519_fdifference tmp20 y2) tmp;
          tmp = at_ptr 10 (\<lambda>tmp30. Hacl_Bignum25519_fmul tmp30 (drop 0 tmp) (drop 5 tmp)) tmp;
          tmp = at_ptr 0 (\<lambda>tmp1. memcpy tmp1 y1 5) tmp;
          tmp = at_ptr 5 (\<lambda>tmp20. memcpy tmp20 y2 5) tmp;
          tmp = at_ptr 0 (\<lambda>tmp1. Hacl_Bignum25519_fsum tmp1 x1) tmp;
          tmp = at_ptr 5 (\<lambda>tmp20. Hacl_Bignum25519_fsum tmp20 x2) tmp;
          tmp = at_ptr 15 (\<lambda>tmp40. Hacl_Bignum25519_fmul tmp40 (drop 0 tmp) (drop 5 tmp)) tmp;
          z1 = Hacl_Impl_Ed25519_ExtPoint_getz p;
          t1 = Hacl_Impl_Ed25519_ExtPoint_gett p;
          z2 = Hacl_Impl_Ed25519_ExtPoint_getz q1;
          t2 = Hacl_Impl_Ed25519_ExtPoint_gett q1;
          tmp = at_ptr 0 (\<lambda>tmp10. Hacl_Bignum25519_times_2d tmp10 t1) tmp;
          tmp = at_ptr 5 (\<lambda>tmp21. Hacl_Bignum25519_fmul tmp21 (drop 0 tmp) t2) tmp;
          tmp = at_ptr 0 (\<lambda>tmp10. Hacl_Bignum25519_times_2 tmp10 z1) tmp;
          tmp = at_ptr 20 (\<lambda>tmp50. Hacl_Bignum25519_fmul tmp50 (drop 0 tmp) z2) tmp;
          tmp = at_ptr 0 (\<lambda>tmp10. memcpy tmp10 (drop 10 tmp) 5) tmp;
          tmp = at_ptr 25 (\<lambda>tmp60. memcpy tmp60 (drop 5 tmp) 5) tmp;
          tmp = at_ptr 0 (\<lambda>tmp11. Hacl_Bignum25519_fdifference_reduced tmp11 (drop 15 tmp)) tmp;
          tmp = at_ptr 25 (\<lambda>tmp61. Hacl_Bignum25519_fdifference tmp61 (drop 20 tmp)) tmp;
          tmp = at_ptr 20 (\<lambda>tmp51. Hacl_Bignum25519_fsum tmp51 (drop 5 tmp)) tmp;
          tmp = at_ptr 15 (\<lambda>tmp41. Hacl_Bignum25519_fsum tmp41 (drop 10 tmp)) tmp;
          out = at_ptr 0 (\<lambda>x3. Hacl_Bignum25519_fmul x3 (drop 0 tmp) (drop 25 tmp)) out;
          out = at_ptr 5 (\<lambda>y3. Hacl_Bignum25519_fmul y3 (drop 20 tmp) (drop 15 tmp)) out;
          out = at_ptr 15 (\<lambda>t3. Hacl_Bignum25519_fmul t3 (drop 0 tmp) (drop 15 tmp)) out;
          out = at_ptr 10 (\<lambda>z3. Hacl_Bignum25519_fmul z3 (drop 20 tmp) (drop 25 tmp)) out
      in out)"

definition Hacl_Impl_Ed25519_PointDouble_point_double_step_1 :: "u64 list \<Rightarrow> u64 list \<Rightarrow> u64 list" where
  "Hacl_Impl_Ed25519_PointDouble_point_double_step_1 p tmp =
     (let x1 = Hacl_Impl_Ed25519_ExtPoint_getx p;
          y1 = Hacl_Impl_Ed25519_ExtPoint_gety p;
          z1 = Hacl_Impl_Ed25519_ExtPoint_getz p;
          tmp = at_ptr 0 (\<lambda>tmp1. Hacl_Bignum25519_fsquare tmp1 x1) tmp;
          tmp = at_ptr 5 (\<lambda>tmp2. Hacl_Bignum25519_fsquare tmp2 y1) tmp;
          tmp = at_ptr 10 (\<lambda>tmp3. Hacl_Bignum25519_fsquare tmp3 z1) tmp;
          tmp = at_ptr 15 (\<lambda>tmp4. Hacl_Bignum25519_times_2 tmp4 (drop 10 tmp)) tmp;
          tmp = at_ptr 10 (\<lambda>tmp3. memcpy tmp3 (drop 0 tmp) 5) tmp;
          tmp = at_ptr 10 (\<lambda>tmp3. Hacl_Bignum25519_fsum tmp3 (drop 5 tmp)) tmp;
          tmp = at_ptr 10 Hacl_Bignum25519_reduce_513 tmp
      in tmp)"

definition Hacl_Impl_Ed25519_PointDouble_point_double_step_2 :: "u64 list \<Rightarrow> u64 list \<Rightarrow> u64 list" where
  "Hacl_Impl_Ed25519_PointDouble_point_double_step_2 p tmp =
     (let x1 = Hacl_Impl_Ed25519_ExtPoint_getx p;
          y1 = Hacl_Impl_Ed25519_ExtPoint_gety p;
          tmp = at_ptr 20 (\<lambda>tmp5. memcpy tmp5 x1 5) tmp;
          tmp = at_ptr 20 (\<lambda>tmp5. Hacl_Bignum25519_fsum tmp5 y1) tmp;
          tmp = at_ptr 25 (\<lambda>tmp6. Hacl_Bignum25519_fsquare tmp6 (drop 20 tmp)) tmp;
          tmp = at_ptr 20 (\<lambda>tmp5. memcpy tmp5 (drop 10 tmp) 5) tmp;
          tmp = at_ptr 25 (\<lambda>tmp6. Hacl_Bignum25519_fdifference tmp6 (drop 20 tmp)) tmp;
          tmp = at_ptr 5 (\<lambda>tmp2. Hacl_Bignum25519_fdifference_reduced tmp2 (drop 0 tmp)) tmp;
          tmp = at_ptr 15 Hacl_Bignum25519_reduce_513 tmp;
          tmp = at_ptr 15 (\<lambda>tmp4. Hacl_Bignum25519_fsum tmp4 (drop 5 tmp)) tmp
      in tmp)"

definition Hacl_Impl_Ed25519_PointDouble_point_double' ::
    "u64 list \<Rightarrow> u64 list \<Rightarrow> u64 list \<Rightarrow> u64 list \<times> u64 list" where
  "Hacl_Impl_Ed25519_PointDouble_point_double' out p tmp =
     (let tmp = Hacl_Impl_Ed25519_PointDouble_point_double_step_1 p tmp;
          tmp = Hacl_Impl_Ed25519_PointDouble_point_double_step_2 p tmp;
          out = at_ptr 0 (\<lambda>x3. Hacl_Bignum25519_fmul x3 (drop 15 tmp) (drop 25 tmp)) out;
          out = at_ptr 5 (\<lambda>y3. Hacl_Bignum25519_fmul y3 (drop 5 tmp) (drop 10 tmp)) out;
          out = at_ptr 15 (\<lambda>t3. Hacl_Bignum25519_fmul t3 (drop 10 tmp) (drop 25 tmp)) out;
          out = at_ptr 10 (\<lambda>z3. Hacl_Bignum25519_fmul z3 (drop 15 tmp) (drop 5 tmp)) out
      in (out, tmp))"

definition Hacl_Impl_Ed25519_PointDouble_point_double :: "u64 list \<Rightarrow> u64 list \<Rightarrow> u64 list" where
  "Hacl_Impl_Ed25519_PointDouble_point_double out p =
     (let tmp = replicate 30 0 in fst (Hacl_Impl_Ed25519_PointDouble_point_double' out p tmp))"

section \<open>The ladder\<close>

definition Hacl_Impl_Ed25519_Ladder_Step_ith_bit :: "bytes \<Rightarrow> u32 \<Rightarrow> u8" where
  "Hacl_Impl_Ed25519_Ladder_Step_ith_bit k1 i =
     (let q1 = drop_bit 3 i;
          r = i AND 7;
          kq = k1 ! unat q1
      in drop_bit (unat r) kq AND 1)"

definition Hacl_Impl_Ed25519_Ladder_Step_swap_cond_inplace ::
    "u64 list \<Rightarrow> u64 list \<Rightarrow> u64 \<Rightarrow> u64 list \<times> u64 list" where
  "Hacl_Impl_Ed25519_Ladder_Step_swap_cond_inplace p q1 iswap =
     Hacl_Impl_Ed25519_SwapConditional_swap_conditional_inplace p q1 iswap"

definition Hacl_Impl_Ed25519_Ladder_Step_swap_cond ::
    "u64 list \<Rightarrow> u64 list \<Rightarrow> u64 list \<Rightarrow> u64 list \<Rightarrow> u64 \<Rightarrow> u64 list \<times> u64 list" where
  "Hacl_Impl_Ed25519_Ladder_Step_swap_cond p' q' p q1 iswap =
     Hacl_Impl_Ed25519_SwapConditional_swap_conditional p' q' p q1 iswap"

text \<open>
  The buffer \<open>b\<close> of 80 words holds the points \<open>nq\<close>, \<open>nqpq\<close>, \<open>nq2\<close> and \<open>nqpq2\<close>; the pointers to
  two of them that one call receives are disjoint pieces of it.
\<close>

definition Hacl_Impl_Ed25519_Ladder_Step_loop_step_1 :: "u64 list \<Rightarrow> bytes \<Rightarrow> u32 \<Rightarrow> u8 \<Rightarrow> u64 list" where
  "Hacl_Impl_Ed25519_Ladder_Step_loop_step_1 b k1 ctr i =
     (let nq = take 20 b;
          nqpq = take 20 (drop 20 b);
          ibit = ucast i;
          (nq, nqpq) = Hacl_Impl_Ed25519_Ladder_Step_swap_cond_inplace nq nqpq ibit
      in nq @ nqpq @ drop 40 b)"

definition Hacl_Impl_Ed25519_Ladder_Step_loop_step_2 :: "u64 list \<Rightarrow> bytes \<Rightarrow> u32 \<Rightarrow> u64 list" where
  "Hacl_Impl_Ed25519_Ladder_Step_loop_step_2 b k1 ctr =
     (let nq = take 20 b;
          nqpq = take 20 (drop 20 b);
          nq2 = take 20 (drop 40 b);
          nqpq2 = drop 60 b;
          nq2 = Hacl_Impl_Ed25519_PointDouble_point_double nq2 nq;
          nqpq2 = Hacl_Impl_Ed25519_PointAdd_point_add nqpq2 nq nqpq
      in nq @ nqpq @ nq2 @ nqpq2)"

definition Hacl_Impl_Ed25519_Ladder_Step_loop_step_3 :: "u64 list \<Rightarrow> bytes \<Rightarrow> u32 \<Rightarrow> u8 \<Rightarrow> u64 list" where
  "Hacl_Impl_Ed25519_Ladder_Step_loop_step_3 b k1 ctr i =
     (let nq = take 20 b;
          nqpq = take 20 (drop 20 b);
          nq2 = take 20 (drop 40 b);
          nqpq2 = drop 60 b;
          ibit = ucast i;
          (nq, nqpq) = Hacl_Impl_Ed25519_Ladder_Step_swap_cond nq nqpq nq2 nqpq2 ibit
      in nq @ nqpq @ nq2 @ nqpq2)"

definition Hacl_Impl_Ed25519_Ladder_Step_loop_step :: "u64 list \<Rightarrow> bytes \<Rightarrow> u32 \<Rightarrow> u64 list" where
  "Hacl_Impl_Ed25519_Ladder_Step_loop_step b k1 ctr =
     (let ibit = Hacl_Impl_Ed25519_Ladder_Step_ith_bit k1 ctr;
          b = Hacl_Impl_Ed25519_Ladder_Step_loop_step_1 b k1 ctr ibit;
          b = Hacl_Impl_Ed25519_Ladder_Step_loop_step_2 b k1 ctr
      in Hacl_Impl_Ed25519_Ladder_Step_loop_step_3 b k1 ctr ibit)"

definition Hacl_Impl_Ed25519_Ladder_point_mul' :: "u64 list \<Rightarrow> bytes \<Rightarrow> u64 list" where
  "Hacl_Impl_Ed25519_Ladder_point_mul' b k1 =
     for_loop 0 256 (\<lambda>i b. Hacl_Impl_Ed25519_Ladder_Step_loop_step b k1 (256 - word_of_nat i - 1)) b"

definition Hacl_Impl_Ed25519_Ladder_make_point_inf :: "u64 list \<Rightarrow> u64 list" where
  "Hacl_Impl_Ed25519_Ladder_make_point_inf b =
     (let b = at_ptr 0 (\<lambda>x. Hacl_Lib_Create64_make_h64_5 x 0 0 0 0 0) b;
          b = at_ptr 5 (\<lambda>y. Hacl_Lib_Create64_make_h64_5 y 1 0 0 0 0) b;
          b = at_ptr 10 (\<lambda>z. Hacl_Lib_Create64_make_h64_5 z 1 0 0 0 0) b;
          b = at_ptr 15 (\<lambda>t. Hacl_Lib_Create64_make_h64_5 t 0 0 0 0 0) b
      in b)"

definition Hacl_Impl_Ed25519_Ladder_point_mul :: "u64 list \<Rightarrow> bytes \<Rightarrow> u64 list \<Rightarrow> u64 list" where
  "Hacl_Impl_Ed25519_Ladder_point_mul result scalar q1 =
     (let b = replicate 80 0;
          b = at_ptr 0 Hacl_Impl_Ed25519_Ladder_make_point_inf b;
          b = at_ptr 20 (\<lambda>nqpq. Hacl_Impl_Ed25519_SwapConditional_copy nqpq q1) b;
          b = Hacl_Impl_Ed25519_Ladder_point_mul' b scalar
      in Hacl_Impl_Ed25519_SwapConditional_copy result (take 20 b))"

section \<open>The formulas of RFC 8032\<close>

text \<open>Points in extended homogeneous coordinates, as integers.\<close>

type_synonym ext_point = "int \<times> int \<times> int \<times> int"

definition ed_add :: "ext_point \<Rightarrow> ext_point \<Rightarrow> ext_point" where
  "ed_add = (\<lambda>(X1, Y1, Z1, T1) (X2, Y2, Z2, T2).
     let A = (Y1 - X1) * (Y2 - X2); B = (Y1 + X1) * (Y2 + X2);
         C = T1 * (2 * ed_d) * T2; D = 2 * Z1 * Z2;
         E = B - A; F = D - C; G = D + C; H = B + A
     in (E * F mod p25519, G * H mod p25519, G * F mod p25519, E * H mod p25519))"

definition ed_double :: "ext_point \<Rightarrow> ext_point" where
  "ed_double = (\<lambda>(X1, Y1, Z1, T1).
     let A = X1 ^ 2; B = Y1 ^ 2; C = 2 * Z1 ^ 2;
         H = A + B; E = H - (X1 + Y1) ^ 2; G = A - B; F = C + G
     in (F * E mod p25519, G * H mod p25519, F * G mod p25519, H * E mod p25519))"

text \<open>One bit of the scalar, and the multiple of a point by a number given by its bits.\<close>

definition ed_bit :: "bool \<Rightarrow> ext_point \<times> ext_point \<Rightarrow> ext_point \<times> ext_point" where
  "ed_bit b = (\<lambda>(P, Q). if b then (ed_add Q P, ed_double Q) else (ed_double P, ed_add P Q))"

definition ed_mult :: "bool list \<Rightarrow> ext_point \<Rightarrow> ext_point" where
  "ed_mult bs P = fst (fold ed_bit bs ((0, 1, 1, 0), P))"

text \<open>The base point: \<open>y = 4 / 5\<close> with the even \<open>x\<close>.\<close>

definition ed_base :: ext_point where
  "ed_base = (15112221349535400772501151409588531511454012693041857206046113283949847762202,
     46316835694926478169428394003475163141307993866256225615783033603165251855960, 1,
     46827403850823179245072216630277197565144205554125654976674165829533817101731)"

text \<open>The coordinates a buffer holds, all of them reduced.\<close>

abbreviation red_cell :: "int \<Rightarrow> cell" where
  "red_cell v \<equiv> Some (2 ^ 51 + 2 ^ 13, v)"

definition is_ext :: "ext_point \<Rightarrow> u64 list \<Rightarrow> bool" where
  "is_ext = (\<lambda>(x, y, z, t) l. slots [red_cell x, red_cell y, red_cell z, red_cell t] l)"

section \<open>Addition and doubling compute the formulas\<close>

lemmas ext_coords = Hacl_Impl_Ed25519_ExtPoint_getx_def Hacl_Impl_Ed25519_ExtPoint_gety_def
  Hacl_Impl_Ed25519_ExtPoint_getz_def Hacl_Impl_Ed25519_ExtPoint_gett_def

lemmas e_statements = w_copy e_mul e_sum e_diff_reduced e_diff e_sq e_times_2d e_times_2 e_reduce_513

lemma slots_four:
  "slots [c0, c1, c2, c3] l
   \<longleftrightarrow> length l = 20 \<and> holds c0 l \<and> holds c1 (drop 5 l) \<and> holds c2 (drop 10 l) \<and> holds c3 (drop 15 l)"
  by (auto simp: slots_def All_less_Suc numeral_eq_Suc)

text \<open>Reading and updating the list of cells without touching the values in it.\<close>

lemma cell_nth:
  "(c0 # cs) ! (0 div 5) = c0" "(c0 # c1 # cs) ! (5 div 5) = c1" "(c0 # c1 # c2 # cs) ! (10 div 5) = c2"
  "(c0 # c1 # c2 # c3 # cs) ! (15 div 5) = c3" "(c0 # c1 # c2 # c3 # c4 # cs) ! (20 div 5) = c4"
  "(c0 # c1 # c2 # c3 # c4 # c5 # cs) ! (25 div 5) = c5"
  by simp_all

lemma cell_update:
  "(c0 # cs)[0 div 5 := c] = c # cs" "(c0 # c1 # cs)[5 div 5 := c] = c0 # c # cs"
  "(c0 # c1 # c2 # cs)[10 div 5 := c] = c0 # c1 # c # cs"
  "(c0 # c1 # c2 # c3 # cs)[15 div 5 := c] = c0 # c1 # c2 # c # cs"
  "(c0 # c1 # c2 # c3 # c4 # cs)[20 div 5 := c] = c0 # c1 # c2 # c3 # c # cs"
  "(c0 # c1 # c2 # c3 # c4 # c5 # cs)[25 div 5 := c] = c0 # c1 # c2 # c3 # c4 # c # cs"
  by simp_all

lemma slots_first: "slots (c # cs) buf \<Longrightarrow> holds c buf"
  using slots_get [of "c # cs" buf 0] by simp

lemma point_add_slots:
  assumes p: "slots [red_cell x1, red_cell y1, red_cell z1, red_cell t1] p"
    and q: "slots [red_cell x2, red_cell y2, red_cell z2, red_cell t2] q"
    and len: "length out = 20"
    and Q: "\<And>l. slots [red_cell (((y1 + x1) * (y2 + x2) - (y1 - x1) * (y2 - x2)) * (2 * z1 * z2 - t1 * (2 * ed_d) * t2)),
      red_cell ((2 * z1 * z2 + t1 * (2 * ed_d) * t2) * ((y1 + x1) * (y2 + x2) + (y1 - x1) * (y2 - x2))),
      red_cell ((2 * z1 * z2 + t1 * (2 * ed_d) * t2) * (2 * z1 * z2 - t1 * (2 * ed_d) * t2)),
      red_cell (((y1 + x1) * (y2 + x2) - (y1 - x1) * (y2 - x2)) * ((y1 + x1) * (y2 + x2) + (y1 - x1) * (y2 - x2)))] l
      \<Longrightarrow> Q l"
  shows "Q (Hacl_Impl_Ed25519_PointAdd_point_add out p q)"
proof -
  have b0: "slots [None, None, None, None, None, None] (replicate 30 0)"
    using slots_zero [of 6 0] by (simp add: numeral_eq_Suc)
  have o0: "slots [None, None, None, None] out"
    using len by (simp add: slots_four holds_def)
  note step = fm_step [where Q = Q]
  show ?thesis
    unfolding Hacl_Impl_Ed25519_PointAdd_point_add_def at_ptr_def ext_coords
    by (insert p q o0 b0, subst Let_def [of "replicate 30 0"],
        ((rule step, assumption) | rule let_now [where Q = Q]
         | rule e_statements
         | (rule slots_read, assumption, simp (no_asm), simp (no_asm), rule cell_nth) | (rule slots_first, assumption)
         | rule cell_update | assumption | (simp (no_asm); fail))+, rule Q, assumption)
qed

lemma let_slots: "slots cs e \<Longrightarrow> (\<And>b. slots cs b \<Longrightarrow> Q (f b)) \<Longrightarrow> Q (Let e f)"
  by (simp add: Let_def)

lemma double_step_1_slots:
  assumes p: "slots [red_cell x1, red_cell y1, red_cell z1, red_cell t1] p" and b: "slots [None, None, None, None, None, None] tmp"
    and Q: "\<And>l. slots [red_cell (x1 ^ 2), red_cell (y1 ^ 2), red_cell (x1 ^ 2 + y1 ^ 2),
       Some (2 * (2 ^ 51 + 2 ^ 13), 2 * z1 ^ 2), None, None] l \<Longrightarrow> Q l"
  shows "Q (Hacl_Impl_Ed25519_PointDouble_point_double_step_1 p tmp)"
proof -
  note step = fm_step [where Q = Q]
  show ?thesis
    unfolding Hacl_Impl_Ed25519_PointDouble_point_double_step_1_def at_ptr_def ext_coords
    by (insert p b,
        ((rule step, assumption) | rule let_now [where Q = Q]
         | rule e_statements
         | (rule slots_read, assumption, simp (no_asm), simp (no_asm), rule cell_nth) | (rule slots_first, assumption)
         | rule cell_update | assumption | (simp (no_asm); fail))+, rule Q, assumption)
qed

lemma double_step_2_slots:
  assumes p: "slots [red_cell x1, red_cell y1, red_cell z1, red_cell t1] p"
    and b: "slots [red_cell a, red_cell b, red_cell h, Some (2 * (2 ^ 51 + 2 ^ 13), c), None, None] tmp"
    and Q: "\<And>l. slots [red_cell a, red_cell (a - b), red_cell h,
       Some (2 ^ 51 + 2 ^ 13 + (2 ^ 51 + 2 ^ 13), c + (a - b)), red_cell h,
       Some (2 ^ 54 + 2 ^ 51 + 2 ^ 13, h - (x1 + y1) ^ 2)] l \<Longrightarrow> Q l"
  shows "Q (Hacl_Impl_Ed25519_PointDouble_point_double_step_2 p tmp)"
proof -
  note step = fm_step [where Q = Q]
  show ?thesis
    unfolding Hacl_Impl_Ed25519_PointDouble_point_double_step_2_def at_ptr_def ext_coords
    by (insert p b,
        ((rule step, assumption) | rule let_now [where Q = Q]
         | rule e_statements
         | (rule slots_read, assumption, simp (no_asm), simp (no_asm), rule cell_nth) | (rule slots_first, assumption)
         | rule cell_update | assumption | (simp (no_asm); fail))+, rule Q, assumption)
qed

lemma point_double_slots:
  assumes p: "slots [red_cell x1, red_cell y1, red_cell z1, red_cell t1] p" and len: "length out = 20"
    and Q: "\<And>l t. slots [red_cell ((2 * z1 ^ 2 + (x1 ^ 2 - y1 ^ 2)) * (x1 ^ 2 + y1 ^ 2 - (x1 + y1) ^ 2)),
       red_cell ((x1 ^ 2 - y1 ^ 2) * (x1 ^ 2 + y1 ^ 2)),
       red_cell ((2 * z1 ^ 2 + (x1 ^ 2 - y1 ^ 2)) * (x1 ^ 2 - y1 ^ 2)),
       red_cell ((x1 ^ 2 + y1 ^ 2) * (x1 ^ 2 + y1 ^ 2 - (x1 + y1) ^ 2))] l \<Longrightarrow> Q (l, t)"
    and tmp: "slots [None, None, None, None, None, None] tmp"
  shows "Q (Hacl_Impl_Ed25519_PointDouble_point_double' out p tmp)"
proof -
  have o0: "slots [None, None, None, None] out" using len by (simp add: slots_four holds_def)
  note step = fm_step [where Q = Q]
  show ?thesis
    unfolding Hacl_Impl_Ed25519_PointDouble_point_double'_def at_ptr_def
    by (insert p o0 tmp, rule let_slots [where Q = Q], rule double_step_1_slots, rule p, rule tmp, assumption,
        rule let_slots [where Q = Q], rule double_step_2_slots, rule p, assumption, assumption,
        ((rule step, assumption) | rule e_statements
         | (rule slots_read, assumption, simp (no_asm), simp (no_asm), rule cell_nth) | (rule slots_first, assumption)
         | rule cell_update | assumption | (simp (no_asm); fail))+, rule Q, assumption)
qed

text \<open>Both operations on points of integers.\<close>

lemma is_ext_length: "is_ext P l \<Longrightarrow> length l = 20"
  by (cases P) (simp add: is_ext_def slots_four)

lemma is_ext_mod:
  "is_ext (x mod p25519, y mod p25519, z mod p25519, t mod p25519) l \<longleftrightarrow> is_ext (x, y, z, t) l"
  by (simp add: is_ext_def slots_four holds_Some)

lemma point_add_correct:
  assumes "is_ext P p" and "is_ext R q" and "length out = 20"
  shows "is_ext (ed_add P R) (Hacl_Impl_Ed25519_PointAdd_point_add out p q)"
proof -
  obtain x1 y1 z1 t1 x2 y2 z2 t2 where P: "P = (x1, y1, z1, t1)" "R = (x2, y2, z2, t2)"
    by (cases P, cases R)
  show ?thesis
    by (rule point_add_slots [where Q = "is_ext (ed_add P R)", OF _ _ assms(3)])
       (use assms(1,2) in \<open>simp_all only: P is_ext_def ed_add_def Let_def case_prod_conv is_ext_mod [unfolded is_ext_def case_prod_conv]\<close>)
qed

lemma point_double_correct:
  assumes "is_ext P p" and "length out = 20"
  shows "is_ext (ed_double P) (Hacl_Impl_Ed25519_PointDouble_point_double out p)"
proof -
  obtain x1 y1 z1 t1 where P: "P = (x1, y1, z1, t1)" by (cases P)
  have b0: "slots [None, None, None, None, None, None] (replicate 30 0)"
    using slots_zero [of 6 0] by (simp add: numeral_eq_Suc)
  show ?thesis
    unfolding Hacl_Impl_Ed25519_PointDouble_point_double_def Let_def
    by (rule point_double_slots [where Q = "\<lambda>x. is_ext (ed_double P) (fst x)", OF _ assms(2) _ b0])
       (use assms(1) in \<open>simp_all only: P is_ext_def ed_double_def Let_def case_prod_conv fst_conv is_ext_mod [unfolded is_ext_def case_prod_conv]\<close>)
qed

end
