(* ===== verification/Ed25519_Ladder.thy ===== *)
theory Ed25519_Ladder
  imports Ed25519_Point X25519
begin

text \<open>
  The ladder of \<open>Hacl_Ed25519.c\<close> computes the multiple of a point by the 256 bits of the scalar,
  with the addition and doubling of RFC 8032, and \<open>point_compress\<close> the encoding of RFC 8032.
\<close>

section \<open>Conditional swap\<close>

lemma swap_step_correct:
  assumes "5 \<le> length a'" "5 \<le> length b'" "5 \<le> length a" "5 \<le> length b"
  shows "Hacl_Impl_Ed25519_SwapConditional_swap_conditional_step a' b' a b (0 - of_bool c)
         = (take 5 (if c then b else a) @ drop 5 a', take 5 (if c then a else b) @ drop 5 b')"
proof -
  obtain c0 c1 c2 c3 c4 c' where a': "a' = c0 # c1 # c2 # c3 # c4 # c'" using assms(1) by (rule limbs5E)
  obtain d0 d1 d2 d3 d4 d' where b': "b' = d0 # d1 # d2 # d3 # d4 # d'" using assms(2) by (rule limbs5E)
  obtain a0 a1 a2 a3 a4 r where a: "a = a0 # a1 # a2 # a3 # a4 # r" using assms(3) by (rule limbs5E)
  obtain b0 b1 b2 b3 b4 q where b: "b = b0 # b1 # b2 # b3 # b4 # q" using assms(4) by (rule limbs5E)
  have x: "x XOR (x XOR y) = y" "y XOR (x XOR y) = x" for x y :: u64
    by (simp_all add: xor.left_commute)
  show ?thesis
    by (cases c) (simp_all add: a a' b b' Hacl_Impl_Ed25519_SwapConditional_swap_conditional_step_def
        make_h64_5_Cons Let_def x)
qed

lemmas swap_step = swap_step_correct [where c = True, simplified] swap_step_correct [where c = False, simplified]

lemma four_parts:
  assumes "length l = 20"
  obtains l0 l1 l2 l3 where "l = l0 @ l1 @ l2 @ l3" "length l0 = 5" "length l1 = 5" "length l2 = 5" "length l3 = 5"
proof (rule that)
  show "l = take 5 l @ take 5 (drop 5 l) @ take 5 (drop 10 l) @ drop 15 l"
    using append_take_drop_id [of 5 l] append_take_drop_id [of 5 "drop 5 l"] append_take_drop_id [of 5 "drop 10 l"]
    by simp
qed (use assms in simp_all)

lemma swap_correct_ext:
  assumes "length a' = 20" "length b' = 20" "length a = 20" "length b = 20"
  shows "Hacl_Impl_Ed25519_SwapConditional_swap_conditional a' b' a b (of_bool c) = (if c then (b, a) else (a, b))"
proof -
  obtain a0 a1 a2 a3 where a: "a = a0 @ a1 @ a2 @ a3" "length a0 = 5" "length a1 = 5" "length a2 = 5" "length a3 = 5"
    using assms(3) by (rule four_parts)
  obtain b0 b1 b2 b3 where b: "b = b0 @ b1 @ b2 @ b3" "length b0 = 5" "length b1 = 5" "length b2 = 5" "length b3 = 5"
    using assms(4) by (rule four_parts)
  show ?thesis
    unfolding Hacl_Impl_Ed25519_SwapConditional_swap_conditional_def Let_def ext_coords
    by (cases c) (simp_all add: swap_step assms(1,2) a b)
qed

lemma swap_inplace_correct:
  assumes "length a = 20" "length b = 20"
  shows "Hacl_Impl_Ed25519_SwapConditional_swap_conditional_inplace a b (of_bool c) = (if c then (b, a) else (a, b))"
proof -
  obtain a0 a1 a2 a3 where a: "a = a0 @ a1 @ a2 @ a3" "length a0 = 5" "length a1 = 5" "length a2 = 5" "length a3 = 5"
    using assms(1) by (rule four_parts)
  obtain b0 b1 b2 b3 where b: "b = b0 @ b1 @ b2 @ b3" "length b0 = 5" "length b1 = 5" "length b2 = 5" "length b3 = 5"
    using assms(2) by (rule four_parts)
  show ?thesis
    unfolding Hacl_Impl_Ed25519_SwapConditional_swap_conditional_inplace_def Let_def ext_coords
    by (cases c) (simp_all add: swap_step a b)
qed

section \<open>One step\<close>

lemma ith_bit_correct:
  assumes "unat i < 8 * length k"
  shows "Hacl_Impl_Ed25519_Ladder_Step_ith_bit k i = of_bool (bit (le_val k) (unat i))"
proof -
  have r: "unat (i AND 7) = unat i mod 8" using unat_and_mask [of i 3] by (simp add: mask_eq_exp_minus_1)
  have "(x AND 1 :: u8) = of_bool (bit x 0)" for x by (simp add: bit_0 and_one_eq mod_2_eq_odd)
  then show ?thesis
    using assms by (simp add: Hacl_Impl_Ed25519_Ladder_Step_ith_bit_def Let_def r unat_shr bit_le_val bit_drop_bit_eq)
qed

text \<open>The two points in the first half of the buffer.\<close>

definition ext_rel :: "ext_point \<times> ext_point \<Rightarrow> u64 list \<Rightarrow> bool" where
  "ext_rel s b \<longleftrightarrow> length b = 80 \<and> is_ext (fst s) (take 20 b) \<and> is_ext (snd s) (take 20 (drop 20 b))"

lemma loop_step_correct:
  assumes rel: "ext_rel s b" and i: "unat ctr < 8 * length k"
  shows "ext_rel (ed_bit (bit (le_val k) (unat ctr)) s) (Hacl_Impl_Ed25519_Ladder_Step_loop_step b k ctr)"
proof -
  define c where "c = bit (le_val k) (unat ctr)"
  define nq where "nq = take 20 b"
  define nqpq where "nqpq = take 20 (drop 20 b)"
  define nq2 where "nq2 = take 20 (drop 40 b)"
  define nqpq2 where "nqpq2 = drop 60 b"
  have len: "length nq = 20" "length nqpq = 20" "length nq2 = 20" "length nqpq2 = 20"
    using rel by (simp_all add: ext_rel_def nq_def nqpq_def nq2_def nqpq2_def)
  have b: "b = nq @ nqpq @ nq2 @ nqpq2"
    using append_take_drop_id [of 20 b] append_take_drop_id [of 20 "drop 20 b"] append_take_drop_id [of 20 "drop 40 b"]
    by (simp add: nq_def nqpq_def nq2_def nqpq2_def)
  obtain P R where s: "s = (P, R)" by (cases s)
  define A where "A = (if c then R else P)"
  define B where "B = (if c then P else R)"
  define p where "p = (if c then nqpq else nq)"
  define q where "q = (if c then nq else nqpq)"
  have pA: "is_ext A p" and pB: "is_ext B q" and pl: "length p = 20" "length q = 20"
    using rel len by (auto simp: ext_rel_def s A_def B_def p_def q_def nq_def nqpq_def)
  have u: "ucast (of_bool c :: u8) = (of_bool c :: u64)" by simp
  have one: "Hacl_Impl_Ed25519_Ladder_Step_loop_step_1 b k ctr (of_bool c) = p @ q @ nq2 @ nqpq2"
    unfolding Hacl_Impl_Ed25519_Ladder_Step_loop_step_1_def Hacl_Impl_Ed25519_Ladder_Step_swap_cond_inplace_def u
    using swap_inplace_correct [OF len(1,2), of c] len by (simp add: b p_def q_def)
  define d where "d = Hacl_Impl_Ed25519_PointDouble_point_double nq2 p"
  define e where "e = Hacl_Impl_Ed25519_PointAdd_point_add nqpq2 p q"
  have d: "is_ext (ed_double A) d" unfolding d_def by (rule point_double_correct [OF pA len(3)])
  have e: "is_ext (ed_add A B) e" unfolding e_def by (rule point_add_correct [OF pA pB len(4)])
  note dl = is_ext_length [OF d] is_ext_length [OF e]
  have two: "Hacl_Impl_Ed25519_Ladder_Step_loop_step_2 (p @ q @ nq2 @ nqpq2) k ctr = p @ q @ d @ e"
    using pl len by (simp add: Hacl_Impl_Ed25519_Ladder_Step_loop_step_2_def Let_def d_def e_def)
  have three: "Hacl_Impl_Ed25519_Ladder_Step_loop_step_3 (p @ q @ d @ e) k ctr (of_bool c)
      = (if c then e @ d @ d @ e else d @ e @ d @ e)"
    unfolding Hacl_Impl_Ed25519_Ladder_Step_loop_step_3_def Hacl_Impl_Ed25519_Ladder_Step_swap_cond_def u
    using swap_correct_ext [OF pl dl, of c] pl dl by simp
  have "Hacl_Impl_Ed25519_Ladder_Step_loop_step b k ctr = (if c then e @ d @ d @ e else d @ e @ d @ e)"
    unfolding Hacl_Impl_Ed25519_Ladder_Step_loop_step_def Let_def ith_bit_correct [OF i] c_def [symmetric] one two three ..
  then show ?thesis
    unfolding c_def [symmetric] using d e dl
    by (cases c) (simp_all add: ext_rel_def ed_bit_def s A_def B_def)
qed

section \<open>All the bits of the scalar\<close>

lemma point_mul'_correct:
  assumes "ext_rel s b" and "32 \<le> length k"
  shows "ext_rel (fold ed_bit (scalar_bits (take 32 k)) s) (Hacl_Impl_Ed25519_Ladder_point_mul' b k)"
proof -
  have bits: "scalar_bits (take 32 k) = map (bit (le_val k)) (rev [0..<256])"
    using assms(2) by (auto simp: scalar_bits_def bit_le_val)
  let ?bits = "\<lambda>i. map (bit (le_val k)) (rev [256 - i..<256])"
  have "ext_rel (fold ed_bit (?bits 256) s)
      (for_loop 0 256 (\<lambda>i b. Hacl_Impl_Ed25519_Ladder_Step_loop_step b k (256 - word_of_nat i - 1)) b)"
  proof (rule for_loop_inv [where P = "\<lambda>i b. ext_rel (fold ed_bit (?bits i) s) b"])
    fix i b' assume i: "i < 256" and r: "ext_rel (fold ed_bit (?bits i) s) b'"
    have w: "(255 - word_of_nat i :: u32) = word_of_nat (255 - i)" using i by (simp add: of_nat_diff)
    have "(256 - word_of_nat i - 1 :: u32) = word_of_nat (255 - i)" unfolding w [symmetric] by simp
    then have u: "unat (256 - word_of_nat i - 1 :: u32) = 255 - i"
      by (simp only: unat_of_nat) simp
    have "[256 - Suc i..<256] = (255 - i) # [256 - i..<256]"
      using i upt_conv_Cons [of "255 - i" 256] by (simp add: Suc_diff_le [symmetric])
    then have "?bits (Suc i) = ?bits i @ [bit (le_val k) (255 - i)]" by simp
    then show "ext_rel (fold ed_bit (?bits (Suc i)) s)
        (Hacl_Impl_Ed25519_Ladder_Step_loop_step b' k (256 - word_of_nat i - 1))"
      using loop_step_correct [OF r, of "256 - word_of_nat i - 1" k] u assms(2) by simp
  qed (use assms(1) in simp_all)
  then show ?thesis
    by (simp add: Hacl_Impl_Ed25519_Ladder_point_mul'_def bits)
qed

lemma point_inf_correct:
  assumes "length b = 20"
  shows "is_ext (0, 1, 1, 0) (Hacl_Impl_Ed25519_Ladder_make_point_inf b)"
proof -
  obtain l0 l1 l2 l3 where b: "b = l0 @ l1 @ l2 @ l3" "length l0 = 5" "length l1 = 5" "length l2 = 5" "length l3 = 5"
    using assms by (rule four_parts)
  have l: "Hacl_Lib_Create64_make_h64_5 (l @ r) x 0 0 0 0 = [x, 0, 0, 0, 0] @ r" if "length l = 5" for l r x
    using that by (auto simp: numeral_eq_Suc length_Suc_conv Hacl_Lib_Create64_make_h64_5_def)
  show ?thesis
    by (simp add: b Hacl_Impl_Ed25519_Ladder_make_point_inf_def at_ptr_def l l [where r = "[]", simplified] is_ext_def slots_four holds_Some
        limbs_below_Cons fval_Cons p25519_def)
qed

lemma point_mul_correct:
  assumes "is_ext P (take 20 q)" and "32 \<le> length k" and "20 \<le> length out"
  obtains r where "Hacl_Impl_Ed25519_Ladder_point_mul out k q = r @ drop 20 out"
    "is_ext (ed_mult (scalar_bits (take 32 k)) P) r"
proof -
  define inf where "inf = Hacl_Impl_Ed25519_Ladder_make_point_inf (replicate 20 0)"
  have inf: "is_ext (0, 1, 1, 0) inf" unfolding inf_def by (rule point_inf_correct) simp
  have l: "Hacl_Lib_Create64_make_h64_5 l x y z u w = [x, y, z, u, w] @ drop 5 l" if "5 \<le> length l" for l x y z u w
    using that by (elim limbs5E) (simp add: make_h64_5_Cons)
  have z: "replicate 80 (0 :: u64) = replicate 20 0 @ replicate 60 0" by (simp flip: replicate_add)
  have "Hacl_Impl_Ed25519_Ladder_make_point_inf (replicate 80 0) = inf @ replicate 60 0"
    unfolding inf_def z by (simp add: Hacl_Impl_Ed25519_Ladder_make_point_inf_def at_ptr_def l)
  then have b: "at_ptr 20 (\<lambda>nqpq. Hacl_Impl_Ed25519_SwapConditional_copy nqpq q)
      (at_ptr 0 Hacl_Impl_Ed25519_Ladder_make_point_inf (replicate 80 0)) = inf @ take 20 q @ replicate 40 0"
    using is_ext_length [OF inf] is_ext_length [OF assms(1)]
    by (simp add: at_ptr_def Hacl_Impl_Ed25519_SwapConditional_copy_def memcpy_def)
  define b' where "b' = Hacl_Impl_Ed25519_Ladder_point_mul' (inf @ take 20 q @ replicate 40 0) k"
  have "ext_rel ((0, 1, 1, 0), P) (inf @ take 20 q @ replicate 40 0)"
    using inf assms(1) is_ext_length [OF inf] is_ext_length [OF assms(1)] by (simp add: ext_rel_def)
  then have b': "ext_rel (fold ed_bit (scalar_bits (take 32 k)) ((0, 1, 1, 0), P)) b'"
    unfolding b'_def using assms(2) by (rule point_mul'_correct)
  show thesis
  proof (rule that)
    show "Hacl_Impl_Ed25519_Ladder_point_mul out k q = take 20 b' @ drop 20 out"
      unfolding Hacl_Impl_Ed25519_Ladder_point_mul_def Let_def b b'_def [symmetric]
      by (simp add: Hacl_Impl_Ed25519_SwapConditional_copy_def memcpy_def)
    show "is_ext (ed_mult (scalar_bits (take 32 k)) P) (take 20 b')"
      using b' by (simp add: ext_rel_def ed_mult_def)
  qed
qed

section \<open>The base point\<close>

lemma make_g_correct:
  assumes "length b = 20"
  shows "is_ext ed_base (Hacl_Impl_Ed25519_G_make_g b)"
proof -
  obtain l0 l1 l2 l3 where b: "b = l0 @ l1 @ l2 @ l3" "length l0 = 5" "length l1 = 5" "length l2 = 5" "length l3 = 5"
    using assms by (rule four_parts)
  have l: "Hacl_Lib_Create64_make_h64_5 (l @ r) x y z u w = [x, y, z, u, w] @ r" if "length l = 5" for l r x y z u w
    using that by (auto simp: numeral_eq_Suc length_Suc_conv Hacl_Lib_Create64_make_h64_5_def)
  show ?thesis
    by (simp add: b Hacl_Impl_Ed25519_G_make_g_def at_ptr_def l l [where r = "[]", simplified] is_ext_def slots_four
        holds_Some limbs_below_Cons fval_Cons p25519_def ed_base_def)
qed

end
