(* ===== verification/Ed25519_Curve.thy ===== *)
theory Ed25519_Curve
  imports Ed25519_Ladder
begin

text \<open>
  The curve \<open>y^2 - x^2 = 1 + d x^2 y^2\<close> of RFC 8032 in extended coordinates: doubling and addition
  keep its two equations, so every multiple the ladder computes satisfies them.  The equations
  alone do not exclude a quadruple whose third coordinate is 0 modulo the prime; that the
  formulas never reach one from a point of the curve (they are complete, because \<open>d\<close> is no
  square modulo the prime) is not proved here.
\<close>

section \<open>Congruence modulo the prime\<close>

definition modp :: "int \<Rightarrow> int \<Rightarrow> bool" where
  "modp a b \<longleftrightarrow> a mod p25519 = b mod p25519"

lemma modp_refl [simp, intro]: "modp a a"
  by (simp add: modp_def)

lemma modp_sym: "modp a b \<Longrightarrow> modp b a"
  by (simp add: modp_def)

lemma modp_trans [trans]: "modp a b \<Longrightarrow> modp b c \<Longrightarrow> modp a c"
  by (simp add: modp_def)

lemma modp_add: "modp a b \<Longrightarrow> modp c d \<Longrightarrow> modp (a + c) (b + d)"
  unfolding modp_def by (rule mod_add_cong)

lemma modp_diff: "modp a b \<Longrightarrow> modp c d \<Longrightarrow> modp (a - c) (b - d)"
  unfolding modp_def by (rule mod_diff_cong)

lemma modp_mult: "modp a b \<Longrightarrow> modp c d \<Longrightarrow> modp (a * c) (b * d)"
  unfolding modp_def by (rule mod_mult_cong)

lemma modp_reduce [simp]: "modp (a mod p25519) a" "modp a (a mod p25519)"
  by (simp_all add: modp_def)

lemmas modp_cong = modp_add modp_diff modp_mult modp_refl

lemma modp_zero: "modp (a - b) 0 \<longleftrightarrow> modp a b"
  unfolding modp_def mod_eq_dvd_iff by simp

section \<open>The curve\<close>

definition on_curve :: "ext_point \<Rightarrow> bool" where
  "on_curve = (\<lambda>(x, y, z, t). modp (y * y - x * x) (z * z + ed_d * (t * t)) \<and> modp (x * y) (z * t))"

lemma on_curve_reduce:
  "on_curve (x, y, z, t) \<Longrightarrow> on_curve (x mod p25519, y mod p25519, z mod p25519, t mod p25519)"
proof -
  let ?r = "\<lambda>a. a mod p25519"
  assume c: "on_curve (x, y, z, t)"
  have "modp (?r y * ?r y - ?r x * ?r x) (y * y - x * x)" by (intro modp_cong modp_reduce)
  also have "modp \<dots> (z * z + ed_d * (t * t))" using c by (simp add: on_curve_def)
  also have "modp \<dots> (?r z * ?r z + ed_d * (?r t * ?r t))" by (intro modp_cong modp_reduce)
  finally have one: "modp (?r y * ?r y - ?r x * ?r x) (?r z * ?r z + ed_d * (?r t * ?r t))" .
  have "modp (?r x * ?r y) (x * y)" by (intro modp_cong modp_reduce)
  also have "modp \<dots> (z * t)" using c by (simp add: on_curve_def)
  also have "modp \<dots> (?r z * ?r t)" by (intro modp_cong modp_reduce)
  finally show ?thesis using one by (simp add: on_curve_def)
qed

lemma base_on_curve: "on_curve ed_base"
proof -
  have a: "snd (x, y) * snd (x, y) - fst (x, y) * fst (x, y) = (1 * 1 + ed_d * (t * t)) + p25519 * -1404995416558591703935402335071871497660573215803886088007472604973677187509378205875315662149191623813929323558907999434574481479439670300926143553417440"
    if "x = fst ed_base" "y = fst (snd ed_base)" "t = snd (snd (snd ed_base))" for x y t
    unfolding that by (simp add: ed_base_def ed_d_def p25519_def)
  have b: "x * y = 1 * t + p25519 * 12089777079628320618000921127670825209163210154433485764836890627159878209761"
    if "x = fst ed_base" "y = fst (snd ed_base)" "t = snd (snd (snd ed_base))" for x y t
    unfolding that by (simp add: ed_base_def p25519_def)
  from a [OF refl refl refl] b [OF refl refl refl] show ?thesis
    by (simp only: on_curve_def modp_def ed_base_def case_prod_conv fst_conv snd_conv mod_mult_self2)
qed

text \<open>The congruences behind the closure of the formulas.\<close>

lemma add_identity:
  fixes P Q M1 M2 p1 q1 p2 q2 C D d :: int
  assumes "P * P = p1 * p2" "Q * Q = q1 * q2" "P * Q = M1 * M2" "p1 * q1 = M1 * M1" "p2 * q2 = M2 * M2"
  shows "((D + C) * (P + Q)) * ((D + C) * (P + Q)) - ((P - Q) * (D - C)) * ((P - Q) * (D - C))
       - ((D + C) * (D - C)) * ((D + C) * (D - C)) - d * (((P - Q) * (P + Q)) * ((P - Q) * (P + Q)))
     = 4 * ((D * D + C * C) * (M1 * M2)) + 4 * (D * C) * (P * P + Q * Q) - (D * D - C * C) * (D * D - C * C)
       - d * (((p1 - q1) * (p1 - q1)) * (M2 * M2) + ((p2 - q2) * (p2 - q2)) * (M1 * M1)
           + (p1 - q1) * (p2 - q2) * (P * P + Q * Q))"
  using assms by algebra

lemma add_remainder:
  fixes d :: int
  assumes "D = 2 * z1 * z2" and "C = t1 * (2 * d) * t2"
    and "N1 = z1 * z1 + d * (t1 * t1)" and "N2 = z2 * z2 + d * (t2 * t2)"
  shows "4 * ((D * D + C * C) * (N1 * N2)) - (D * D - C * C) * (D * D - C * C)
       - d * (((4 * (z1 * t1)) * (4 * (z1 * t1))) * (N2 * N2) + ((4 * (z2 * t2)) * (4 * (z2 * t2))) * (N1 * N1)) = 0"
  unfolding assms by (simp add: algebra_simps)

lemma add_on_curve:
  assumes "on_curve P" and "on_curve R"
  shows "on_curve (ed_add P R)"
proof -
  obtain x1 y1 z1 t1 x2 y2 z2 t2 where P: "P = (x1, y1, z1, t1)" "R = (x2, y2, z2, t2)"
    by (cases P, cases R)
  define u1 v1 u2 v2 where "u1 = y1 + x1" "v1 = y1 - x1" "u2 = y2 + x2" "v2 = y2 - x2"
  note uv = u1_v1_u2_v2_def
  define A B C D where "A = v1 * v2" "B = u1 * u2" "C = t1 * (2 * ed_d) * t2" "D = 2 * z1 * z2"
  define N1 N2 where "N1 = z1 * z1 + ed_d * (t1 * t1)" "N2 = z2 * z2 + ed_d * (t2 * t2)"
  have M: "modp (u1 * v1) N1" "modp (u2 * v2) N2"
    using assms by (simp_all add: on_curve_def P uv N1_N2_def algebra_simps)
  have "modp (4 * (x1 * y1)) (4 * (z1 * t1))" "modp (4 * (x2 * y2)) (4 * (z2 * t2))"
    using assms by (auto simp: on_curve_def P intro!: modp_mult)
  moreover have "u1 * u1 - v1 * v1 = 4 * (x1 * y1)" "u2 * u2 - v2 * v2 = 4 * (x2 * y2)"
    by (simp_all add: uv algebra_simps)
  ultimately have D: "modp (u1 * u1 - v1 * v1) (4 * (z1 * t1))" "modp (u2 * u2 - v2 * v2) (4 * (z2 * t2))"
    by simp_all
  define S where "S = B * B + A * A"
  let ?G = "D + C" and ?F = "D - C" and ?E = "B - A" and ?H = "B + A"
  have "?G * ?H * (?G * ?H) - ?E * ?F * (?E * ?F) - ?G * ?F * (?G * ?F) - ed_d * (?E * ?H * (?E * ?H))
      = 4 * ((D * D + C * C) * (u1 * v1 * (u2 * v2))) + 4 * (D * C) * S - (D * D - C * C) * (D * D - C * C)
       - ed_d * (((u1 * u1 - v1 * v1) * (u1 * u1 - v1 * v1)) * (u2 * v2 * (u2 * v2))
           + ((u2 * u2 - v2 * v2) * (u2 * u2 - v2 * v2)) * (u1 * v1 * (u1 * v1))
           + (u1 * u1 - v1 * v1) * (u2 * u2 - v2 * v2) * S)"
    unfolding S_def by (rule add_identity) (simp_all add: A_B_C_D_def)
  also have "modp \<dots> (4 * ((D * D + C * C) * (N1 * N2)) + 4 * (D * C) * S - (D * D - C * C) * (D * D - C * C)
       - ed_d * (((4 * (z1 * t1)) * (4 * (z1 * t1))) * (N2 * N2) + ((4 * (z2 * t2)) * (4 * (z2 * t2))) * (N1 * N1)
           + (4 * (z1 * t1)) * (4 * (z2 * t2)) * S))"
    by (intro modp_cong M D)
  also have "\<dots> = 0"
  proof -
    have "4 * (D * C) * S = ed_d * ((4 * (z1 * t1)) * (4 * (z2 * t2)) * S)"
      by (simp add: A_B_C_D_def algebra_simps)
    with add_remainder [OF A_B_C_D_def(4,3) N1_N2_def] show ?thesis
      by (simp only: distrib_left)
  qed
  finally have "modp (?G * ?H * (?G * ?H) - ?E * ?F * (?E * ?F)) (?G * ?F * (?G * ?F) + ed_d * (?E * ?H * (?E * ?H)))"
    unfolding diff_diff_eq [of "?G * ?H * (?G * ?H) - ?E * ?F * (?E * ?F)"] by (simp only: modp_zero)
  then have "on_curve (?E * ?F, ?G * ?H, ?G * ?F, ?E * ?H)"
    by (simp add: on_curve_def algebra_simps)
  then show ?thesis
    unfolding P ed_add_def Let_def case_prod_conv
    by (intro on_curve_reduce) (simp only: A_B_C_D_def uv)
qed

lemma double_on_curve:
  assumes "on_curve P"
  shows "on_curve (ed_double P)"
proof -
  obtain x y z t where P: "P = (x, y, z, t)" by (cases P)
  have c: "modp (y * y - x * x) (z * z + ed_d * (t * t))" "modp (x * y) (z * t)"
    using assms by (simp_all add: on_curve_def P)
  define N where "N = z * z + ed_d * (t * t)"
  define M where "M = y * y - x * x"
  define K where "K = x * y"
  let ?F = "2 * (z * z) - M" and ?E = "- (2 * K)" and ?H2 = "M * M + 4 * (K * K)"
  define H where "H = x * x + y * y"
  have H: "H * H = ?H2" by (simp add: H_def M_def K_def algebra_simps)
  have "(- M * H) * (- M * H) - ?F * ?E * (?F * ?E) - ((?F * - M) * (?F * - M) + ed_d * ((H * ?E) * (H * ?E)))
      = M * M * (H * H) - ?F * ?F * (4 * (K * K)) - ?F * ?F * (M * M) - ed_d * ((H * H) * (4 * (K * K)))"
    by (simp add: algebra_simps)
  also have "\<dots> = M * M * ?H2 - ?F * ?F * ?H2 - ed_d * (?H2 * (4 * (K * K)))"
    unfolding H by (simp add: algebra_simps)
  also have "modp \<dots> (N * N * (N * N + 4 * (z * t * (z * t))) - (2 * (z * z) - N) * (2 * (z * z) - N) * (N * N + 4 * (z * t * (z * t)))
      - ed_d * ((N * N + 4 * (z * t * (z * t))) * (4 * (z * t * (z * t)))))"
    unfolding M_def K_def N_def by (intro modp_cong c)
  also have "\<dots> = 0"
    unfolding N_def by (simp add: algebra_simps)
  finally have "modp ((- M * H) * (- M * H) - ?F * ?E * (?F * ?E)) ((?F * - M) * (?F * - M) + ed_d * ((H * ?E) * (H * ?E)))"
    by (simp only: modp_zero)
  then have "on_curve (?F * ?E, - M * H, ?F * - M, H * ?E)"
    by (simp add: on_curve_def ac_simps)
  moreover have "2 * z ^ 2 + (x ^ 2 - y ^ 2) = ?F" "x ^ 2 + y ^ 2 = H" "x ^ 2 - y ^ 2 = - M" "H - (x + y) ^ 2 = ?E"
    by (simp_all add: M_def K_def H_def power2_eq_square algebra_simps)
  ultimately have "on_curve ((2 * z ^ 2 + (x ^ 2 - y ^ 2)) * (x ^ 2 + y ^ 2 - (x + y) ^ 2), (x ^ 2 - y ^ 2) * (x ^ 2 + y ^ 2),
      (2 * z ^ 2 + (x ^ 2 - y ^ 2)) * (x ^ 2 - y ^ 2), (x ^ 2 + y ^ 2) * (x ^ 2 + y ^ 2 - (x + y) ^ 2))"
    by (simp only:)
  then show ?thesis
    unfolding P ed_double_def Let_def case_prod_conv by (rule on_curve_reduce)
qed

lemma bit_on_curve:
  "on_curve (fst s) \<and> on_curve (snd s) \<Longrightarrow> on_curve (fst (ed_bit b s)) \<and> on_curve (snd (ed_bit b s))"
  by (cases b) (simp_all add: ed_bit_def split_beta add_on_curve double_on_curve)

lemma mult_on_curve:
  assumes "on_curve P"
  shows "on_curve (ed_mult bs P)"
proof -
  have "on_curve (fst (fold ed_bit bs s)) \<and> on_curve (snd (fold ed_bit bs s))"
    if "on_curve (fst s) \<and> on_curve (snd s)" for s
    using that by (induction bs arbitrary: s) (simp_all add: bit_on_curve)
  moreover have "on_curve (0, 1, 1, 0)" by (simp add: on_curve_def)
  ultimately show ?thesis using assms by (simp add: ed_mult_def)
qed

section \<open>Property\<close>

text \<open>
  C12: Scalar multiplication computes one definite multiple and stays in the curve equations.
  Started on any point \<open>P\<close> in extended coordinates, any 32 bytes (at the pointer passed) and any
  old contents of the result, the code writes the coordinates, reduced below the prime, of the
  double-and-add multiple of \<open>P\<close> by all 256 bits of the scalar, which begins at the neutral
  element (0 : 1 : 1 : 0), and touches nothing behind the 20 words of the result.  If
  \<open>P\<close> satisfies the two equations of the curve in extended coordinates, that multiple does too.
\<close>

theorem ladder_on_curve:
  assumes "is_ext P (take 20 q)" and "on_curve P" and "32 \<le> length k" and "20 \<le> length out"
  shows "is_ext (fst (fold ed_bit (scalar_bits (take 32 k)) ((0, 1, 1, 0), P)))
           (take 20 (Hacl_Impl_Ed25519_Ladder_point_mul out k q))
         \<and> drop 20 (Hacl_Impl_Ed25519_Ladder_point_mul out k q) = drop 20 out
         \<and> on_curve (fst (fold ed_bit (scalar_bits (take 32 k)) ((0, 1, 1, 0), P)))"
proof -
  obtain r where r: "Hacl_Impl_Ed25519_Ladder_point_mul out k q = r @ drop 20 out"
      "is_ext (ed_mult (scalar_bits (take 32 k)) P) r"
    by (rule point_mul_correct [OF assms(1,3,4)])
  then show ?thesis using mult_on_curve [OF assms(2)] is_ext_length [OF r(2)]
    unfolding ed_mult_def by simp
qed

theorem ladder_on_curve_witness:
  "is_ext (fst (fold ed_bit (scalar_bits (replicate 32 9)) ((0, 1, 1, 0), ed_base)))
     (take 20 (Hacl_Impl_Ed25519_Ladder_point_mul (replicate 20 0) (replicate 32 9)
        (Hacl_Impl_Ed25519_G_make_g (replicate 20 0))))
   \<and> on_curve (fst (fold ed_bit (scalar_bits (replicate 32 9)) ((0, 1, 1, 0), ed_base)))"
proof -
  note g = make_g_correct [of "replicate 20 0", simplified]
  have "is_ext ed_base (take 20 (Hacl_Impl_Ed25519_G_make_g (replicate 20 0)))"
    using g is_ext_length [OF g] by simp
  moreover have "32 \<le> length (replicate 32 (9 :: u8))" "20 \<le> length (replicate 20 (0 :: u64))" by simp_all
  ultimately show ?thesis
    using ladder_on_curve [OF _ base_on_curve, of _ "replicate 32 9" "replicate 20 0"]
    unfolding take_replicate min.idem by blast
qed

end
