(* ===== verification/Ed25519_Format.thy ===== *)
theory Ed25519_Format
  imports Ed25519_Curve
begin

text \<open>
  Points and bytes in \<open>Hacl_Ed25519.c\<close>: comparison (\<open>PointEqual\<close>), compression, the recovery of
  the x-coordinate (\<open>RecoverX\<close>) and decompression.  They compute the functions of RFC 8032,
  sections 5.1.2 and 5.1.3, on numbers modulo \<open>2^255 - 19\<close>.
\<close>

section \<open>Comparison of points\<close>

definition Hacl_Impl_Ed25519_PointEqual_eq :: "u64 list \<Rightarrow> u64 list \<Rightarrow> bool" where
  "Hacl_Impl_Ed25519_PointEqual_eq a b =
     (let a0 = a ! 0; a1 = a ! 1; a2 = a ! 2; a3 = a ! 3; a4 = a ! 4;
          b0 = b ! 0; b1 = b ! 1; b2 = b ! 2; b3 = b ! 3; b4 = b ! 4
      in a0 = b0 \<and> a1 = b1 \<and> a2 = b2 \<and> a3 = b3 \<and> a4 = b4)"

definition Hacl_Impl_Ed25519_PointEqual_point_equal_1 ::
    "u64 list \<Rightarrow> u64 list \<Rightarrow> u64 list \<Rightarrow> u64 list \<times> bool" where
  "Hacl_Impl_Ed25519_PointEqual_point_equal_1 p q1 tmp =
     (let tmp = at_ptr 0 (\<lambda>pxqz. Hacl_Bignum25519_fmul pxqz (Hacl_Impl_Ed25519_ExtPoint_getx p)
                            (Hacl_Impl_Ed25519_ExtPoint_getz q1)) tmp;
          tmp = at_ptr 0 Hacl_Bignum25519_reduce tmp;
          tmp = at_ptr 5 (\<lambda>qxpz. Hacl_Bignum25519_fmul qxpz (Hacl_Impl_Ed25519_ExtPoint_getx q1)
                            (Hacl_Impl_Ed25519_ExtPoint_getz p)) tmp;
          tmp = at_ptr 5 Hacl_Bignum25519_reduce tmp;
          b = Hacl_Impl_Ed25519_PointEqual_eq (drop 0 tmp) (drop 5 tmp)
      in (tmp, b))"

definition Hacl_Impl_Ed25519_PointEqual_point_equal_2 ::
    "u64 list \<Rightarrow> u64 list \<Rightarrow> u64 list \<Rightarrow> u64 list \<times> bool" where
  "Hacl_Impl_Ed25519_PointEqual_point_equal_2 p q1 tmp =
     (let tmp = at_ptr 10 (\<lambda>pyqz. Hacl_Bignum25519_fmul pyqz (Hacl_Impl_Ed25519_ExtPoint_gety p)
                            (Hacl_Impl_Ed25519_ExtPoint_getz q1)) tmp;
          tmp = at_ptr 10 Hacl_Bignum25519_reduce tmp;
          tmp = at_ptr 15 (\<lambda>qypz. Hacl_Bignum25519_fmul qypz (Hacl_Impl_Ed25519_ExtPoint_gety q1)
                            (Hacl_Impl_Ed25519_ExtPoint_getz p)) tmp;
          tmp = at_ptr 15 Hacl_Bignum25519_reduce tmp;
          b = Hacl_Impl_Ed25519_PointEqual_eq (drop 10 tmp) (drop 15 tmp)
      in (tmp, b))"

definition Hacl_Impl_Ed25519_PointEqual_point_equal' ::
    "u64 list \<Rightarrow> u64 list \<Rightarrow> u64 list \<Rightarrow> u64 list \<times> bool" where
  "Hacl_Impl_Ed25519_PointEqual_point_equal' p q1 tmp =
     (let (tmp, b) = Hacl_Impl_Ed25519_PointEqual_point_equal_1 p q1 tmp
      in if b = True then Hacl_Impl_Ed25519_PointEqual_point_equal_2 p q1 tmp
         else (tmp, False))"

definition Hacl_Impl_Ed25519_PointEqual_point_equal :: "u64 list \<Rightarrow> u64 list \<Rightarrow> bool" where
  "Hacl_Impl_Ed25519_PointEqual_point_equal p q1 =
     (let tmp = replicate 20 0;
          (tmp, res) = Hacl_Impl_Ed25519_PointEqual_point_equal' p q1 tmp
      in res)"

section \<open>Decompression\<close>

definition Hacl_Impl_Ed25519_Pow2_252m2_pow2_252m2 :: "u64 list \<Rightarrow> u64 list \<Rightarrow> u64 list" where
  "Hacl_Impl_Ed25519_Pow2_252m2_pow2_252m2 out z = Hacl_Bignum_Crecip_crecip' out z"

definition Hacl_Impl_Ed25519_RecoverX_is_0 :: "u64 list \<Rightarrow> bool" where
  "Hacl_Impl_Ed25519_RecoverX_is_0 x =
     (let x0 = x ! 0; x1 = x ! 1; x2 = x ! 2; x3 = x ! 3; x4 = x ! 4
      in x0 = 0 \<and> x1 = 0 \<and> x2 = 0 \<and> x3 = 0 \<and> x4 = 0)"

definition Hacl_Impl_Ed25519_RecoverX_recover_x_step_5 ::
    "u64 list \<Rightarrow> u64 \<Rightarrow> u64 list \<Rightarrow> u64 list \<times> u64 list" where
  "Hacl_Impl_Ed25519_RecoverX_recover_x_step_5 x sign1 tmp =
     (let x0 = drop 5 tmp ! 0;
          x00 = x0 AND 1;
          tmp = (if \<not> x00 = sign1
                 then let tmp = at_ptr 10 (\<lambda>t0. Hacl_Lib_Create64_make_h64_5 t0 0 0 0 0 0) tmp;
                          tmp = at_ptr 5 (\<lambda>x3. Hacl_Bignum25519_fdifference x3 (drop 10 tmp)) tmp;
                          tmp = at_ptr 5 Hacl_Bignum25519_reduce_513 tmp
                      in at_ptr 5 Hacl_Bignum25519_reduce tmp
                 else tmp)
      in (memcpy x (drop 5 tmp) 5, tmp))"

text \<open>
  The scratch buffer \<open>tmp\<close> holds \<open>x2\<close>, \<open>x3\<close>, \<open>t0\<close>, \<open>t1\<close>, and \<open>tmp0\<close> holds \<open>one\<close>, \<open>y2\<close>,
  \<open>dyyi\<close>, \<open>dyy\<close>.
\<close>

definition Hacl_Impl_Ed25519_RecoverX_recover_x' ::
    "u64 list \<Rightarrow> u64 list \<Rightarrow> u64 \<Rightarrow> u64 list \<Rightarrow> u64 list \<times> u64 list \<times> bool" where
  "Hacl_Impl_Ed25519_RecoverX_recover_x' x y sign1 tmp =
     (let x0 = y ! 0; x1 = y ! 1; x2 = y ! 2; x30 = y ! 3; x4 = y ! 4;
          b = (x0 \<ge> 0x7ffffffffffed \<and> x1 = 0x7ffffffffffff \<and> x2 = 0x7ffffffffffff
               \<and> x30 = 0x7ffffffffffff \<and> x4 = 0x7ffffffffffff)
      in if b then (x, tmp, False)
         else
           let tmp0 = replicate 25 0;
               tmp0 = at_ptr 0 (\<lambda>one10. Hacl_Lib_Create64_make_h64_5 one10 1 0 0 0 0) tmp0;
               tmp0 = at_ptr 5 (\<lambda>y2. Hacl_Bignum25519_fsquare y2 y) tmp0;
               tmp0 = at_ptr 15 (\<lambda>dyy. Hacl_Bignum25519_times_d dyy (drop 5 tmp0)) tmp0;
               tmp0 = at_ptr 15 (\<lambda>dyy. Hacl_Bignum25519_fsum dyy (drop 0 tmp0)) tmp0;
               tmp0 = at_ptr 15 Hacl_Bignum25519_reduce_513 tmp0;
               tmp0 = at_ptr 10 (\<lambda>dyyi. Hacl_Bignum25519_inverse dyyi (drop 15 tmp0)) tmp0;
               tmp0 = at_ptr 0 (\<lambda>one10. Hacl_Bignum25519_fdifference one10 (drop 5 tmp0)) tmp0;
               tmp = at_ptr 0 (\<lambda>x20. Hacl_Bignum25519_fmul x20 (drop 10 tmp0) (drop 0 tmp0)) tmp;
               tmp = at_ptr 0 Hacl_Bignum25519_reduce tmp;
               x2_is_0 = Hacl_Impl_Ed25519_RecoverX_is_0 (drop 0 tmp);
               (x, z) = (if x2_is_0
                         then if sign1 = 0 then (Hacl_Lib_Create64_make_h64_5 x 0 0 0 0 0, 1)
                              else (x, 0)
                         else (x, 2 :: u8))
           in if z = 0 then (x, tmp, False)
              else if z = 1 then (x, tmp, True)
              else
                let tmp = at_ptr 5 (\<lambda>x30. Hacl_Impl_Ed25519_Pow2_252m2_pow2_252m2 x30 (drop 0 tmp)) tmp;
                    tmp = at_ptr 10 (\<lambda>t00. Hacl_Bignum25519_fsquare t00 (drop 5 tmp)) tmp;
                    tmp = at_ptr 15 (\<lambda>t10. memcpy t10 (drop 0 tmp) 5) tmp;
                    tmp = at_ptr 15 (\<lambda>t10. Hacl_Bignum25519_fdifference t10 (drop 10 tmp)) tmp;
                    tmp = at_ptr 15 Hacl_Bignum25519_reduce_513 tmp;
                    tmp = at_ptr 15 Hacl_Bignum25519_reduce tmp;
                    t1_is_0 = Hacl_Impl_Ed25519_RecoverX_is_0 (drop 15 tmp);
                    tmp = (if \<not> t1_is_0
                           then let sqrt_m1 = replicate 5 0;
                                    sqrt_m1 = Hacl_Lib_Create64_make_h64_5 sqrt_m1 0x00061b274a0ea0b0
                                      0x0000d5a5fc8f189d 0x0007ef5e9cbd0c60 0x00078595a6804c9e 0x0002b8324804fc1d
                                in at_ptr 5 (\<lambda>x30. Hacl_Bignum25519_fmul x30 x30 sqrt_m1) tmp
                           else tmp);
                    tmp = at_ptr 5 Hacl_Bignum25519_reduce tmp;
                    tmp = at_ptr 10 (\<lambda>t0. Hacl_Bignum25519_fsquare t0 (drop 5 tmp)) tmp;
                    tmp = at_ptr 15 (\<lambda>t1. memcpy t1 (drop 0 tmp) 5) tmp;
                    tmp = at_ptr 15 (\<lambda>t1. Hacl_Bignum25519_fdifference t1 (drop 10 tmp)) tmp;
                    tmp = at_ptr 15 Hacl_Bignum25519_reduce_513 tmp;
                    tmp = at_ptr 15 Hacl_Bignum25519_reduce tmp;
                    z1 = Hacl_Impl_Ed25519_RecoverX_is_0 (drop 15 tmp)
                in if z1 = False then (x, tmp, False)
                   else let (x, tmp) = Hacl_Impl_Ed25519_RecoverX_recover_x_step_5 x sign1 tmp
                        in (x, tmp, True))"

definition Hacl_Impl_Ed25519_RecoverX_recover_x :: "u64 list \<Rightarrow> u64 list \<Rightarrow> u64 \<Rightarrow> u64 list \<times> bool" where
  "Hacl_Impl_Ed25519_RecoverX_recover_x x y sign1 =
     (let tmp = replicate 20 0;
          (x, tmp, res) = Hacl_Impl_Ed25519_RecoverX_recover_x' x y sign1 tmp
      in (x, res))"

text \<open>The buffer \<open>tmp\<close> holds \<open>y\<close> and \<open>x\<close>.\<close>

definition Hacl_Impl_Ed25519_PointDecompress_point_decompress :: "u64 list \<Rightarrow> bytes \<Rightarrow> u64 list \<times> bool" where
  "Hacl_Impl_Ed25519_PointDecompress_point_decompress out s =
     (let tmp = replicate 10 0;
          y = take 5 tmp;
          x = drop 5 tmp;
          s31 = s ! 31;
          sign1 = ucast (drop_bit 7 s31);
          y = Hacl_Impl_Load51_load_51 y s;
          (x, z) = Hacl_Impl_Ed25519_RecoverX_recover_x x y sign1;
          z0 = z
      in if z0 = False then (out, False)
         else
           let out = at_ptr 0 (\<lambda>outx. memcpy outx x 5) out;
               out = at_ptr 5 (\<lambda>outy. memcpy outy y 5) out;
               out = at_ptr 10 (\<lambda>outz. Hacl_Lib_Create64_make_h64_5 outz 1 0 0 0 0) out;
               out = at_ptr 15 (\<lambda>outt. Hacl_Bignum25519_fmul outt x y) out
           in (out, True))"

section \<open>The functions of RFC 8032\<close>

definition ed_equal :: "ext_point \<Rightarrow> ext_point \<Rightarrow> bool" where
  "ed_equal = (\<lambda>(X1, Y1, Z1, T1) (X2, Y2, Z2, T2). modp (X1 * Z2) (X2 * Z1) \<and> modp (Y1 * Z2) (Y2 * Z1))"

definition ed_compress :: "ext_point \<Rightarrow> bytes" where
  "ed_compress = (\<lambda>(X, Y, Z, T).
     let zinv = Z ^ (2 ^ 255 - 21); x = X * zinv mod p25519; y = Y * zinv mod p25519
     in le_bytes 32 (nat (y + 2 ^ 255 * (x mod 2))))"

text \<open>A square root of \<open>- 1\<close>.\<close>

definition root_m1 :: int where
  "root_m1 = 19681161376707505956807079304988542015446066515923890162744021073123829784752"

lemma root_m1_square: "modp (root_m1 * root_m1) (- 1)"
proof -
  have "root_m1 * root_m1 = - 1 + p25519 * 6690407189080634018507799843845558368979872843924222843531373839242004886245"
    by (simp add: root_m1_def p25519_def)
  then show ?thesis by (simp only: modp_def mod_mult_self2)
qed

definition ed_recover_x :: "int \<Rightarrow> bool \<Rightarrow> int option" where
  "ed_recover_x y neg =
     (if p25519 \<le> y then None
      else
        let x2 = (ed_d * y ^ 2 + 1) ^ (2 ^ 255 - 21) * (y ^ 2 - 1) mod p25519
        in if x2 = 0 then if neg then None else Some 0
           else
             let x = x2 ^ (2 ^ 252 - 2) mod p25519;
                 x = (if modp (x ^ 2) x2 then x else x * root_m1 mod p25519)
             in if \<not> modp (x ^ 2) x2 then None
                else Some (if (x mod 2 = 1) = neg then x else p25519 - x))"

definition ed_decompress :: "bytes \<Rightarrow> ext_point option" where
  "ed_decompress s =
     (let n = le_val (take 32 s); y = int (n mod 2 ^ 255)
      in map_option (\<lambda>x. (x, y, 1, x * y mod p25519)) (ed_recover_x y (bit n 255)))"

section \<open>Representatives below the prime\<close>

text \<open>A statement that reduces an element in place also fixes its limbs.\<close>

lemma reduce_slots:
  assumes "slots cs buf" and "off mod 5 = 0" and "off div 5 < length cs" and "cs ! (off div 5) = Some (m, u)"
    and "m \<le> 2 ^ 51 + 2 ^ 13"
  defines "b \<equiv> take off buf @ Hacl_Bignum25519_reduce (drop off buf)"
  shows "slots (cs[off div 5 := Some (2 ^ 51, u)]) b" "limbs_below (2 ^ 51) (take 5 (drop off b))"
    "int (lval (take 5 (drop off b))) = u mod p25519"
proof -
  have off: "off = 5 * (off div 5)" using assms(2) by presburger
  have h: "holds (Some (m, u)) (drop off buf)" by (rule slots_read [OF assms(1-4)])
  note w = e_reduce [OF h assms(5)]
  show "slots (cs[off div 5 := Some (2 ^ 51, u)]) b"
    unfolding b_def by (rule slots_put [OF assms(1) off assms(3) w])
  have "off \<le> length buf" using assms(1,3) off by (simp add: slots_def)
  then have d: "drop off b = Hacl_Bignum25519_reduce (drop off buf)" by (simp add: b_def)
  show "limbs_below (2 ^ 51) (take 5 (drop off b))"
    using fe_writesD(1) [OF w] limbs_below_take unfolding d by blast
  show "int (lval (take 5 (drop off b))) = u mod p25519"
    using reduce_writes(2) [OF holds_red [OF h assms(5)]] holds_value [OF h] by (simp add: d)
qed

lemma step_reduce:
  assumes "slots cs buf" and "off mod 5 = 0" and "off div 5 < length cs" and "cs ! (off div 5) = Some (m, u)"
    and "m \<le> 2 ^ 51 + 2 ^ 13" and "cs[off div 5 := Some (2 ^ 51, u)] = cs2"
    and "\<And>b w. slots cs2 b \<Longrightarrow> take 5 (drop off b) = w \<Longrightarrow> limbs_below (2 ^ 51) w \<Longrightarrow> int (lval w) = u mod p25519 \<Longrightarrow> Q (f b)"
  shows "Q (Let (take off buf @ Hacl_Bignum25519_reduce (drop off buf)) f)"
  unfolding Let_def by (rule assms(7) [OF _ refl]) (rule reduce_slots [OF assms(1-5), unfolded assms(6)])+

text \<open>A later element can be written without losing the limbs of an earlier one.\<close>

lemma keep_limbs:
  assumes "take 5 (drop k buf) = w" and "k + 5 \<le> off" and "off \<le> length buf"
  shows "take 5 (drop k (take off buf @ new)) = w"
proof -
  have "k \<le> off" "5 \<le> off - k" "5 \<le> length buf - k" using assms(2,3) by simp_all
  then show ?thesis using assms(1,3) by (simp add: drop_take min_def)
qed

lemma step_keep:
  assumes "slots cs buf" and "take 5 (drop k buf) = w" and "k + 5 \<le> off" and "off mod 5 = 0" and "off div 5 < length cs"
    and "5 \<le> length (drop off buf) \<Longrightarrow> fe_writes n v (drop off buf) new"
    and "cs[off div 5 := Some (n, v)] = cs2"
    and "\<And>b. slots cs2 b \<Longrightarrow> take 5 (drop k b) = w \<Longrightarrow> Q (f b)"
  shows "Q (Let (take off buf @ new) f)"
proof -
  have off: "off = 5 * (off div 5)" using assms(4) by presburger
  have len: "off \<le> length buf" "5 \<le> length (drop off buf)" using assms(1,5) off by (simp_all add: slots_def)
  have "slots cs2 (take off buf @ new)"
    using slots_put [OF assms(1) off assms(5) assms(6) [OF len(2)]] assms(7) by simp
  then show ?thesis unfolding Let_def using keep_limbs [OF assms(2,3) len(1)] by (rule assms(8))
qed

lemma step_reduce_keep:
  assumes "slots cs buf" and "take 5 (drop k buf) = w" and "k + 5 \<le> off"
    and "off mod 5 = 0" and "off div 5 < length cs" and "cs ! (off div 5) = Some (m, u)"
    and "m \<le> 2 ^ 51 + 2 ^ 13" and "cs[off div 5 := Some (2 ^ 51, u)] = cs2"
    and "\<And>b w'. slots cs2 b \<Longrightarrow> take 5 (drop k b) = w \<Longrightarrow> take 5 (drop off b) = w' \<Longrightarrow> limbs_below (2 ^ 51) w'
      \<Longrightarrow> int (lval w') = u mod p25519 \<Longrightarrow> Q (f b)"
  shows "Q (Let (take off buf @ Hacl_Bignum25519_reduce (drop off buf)) f)"
proof -
  have "off = 5 * (off div 5)" using assms(4) by presburger
  then have len: "off \<le> length buf" using assms(1,5) by (simp add: slots_def)
  show ?thesis
    unfolding Let_def
    by (rule assms(9) [OF _ _ refl], rule reduce_slots [OF assms(1,4-7), unfolded assms(8)],
        rule keep_limbs [OF assms(2,3) len], (rule reduce_slots [OF assms(1,4-7), unfolded assms(8)])+)
qed

lemma is_0_iff:
  assumes "5 \<le> length l"
  shows "Hacl_Impl_Ed25519_RecoverX_is_0 l \<longleftrightarrow> lval l = 0"
proof -
  obtain a0 a1 a2 a3 a4 r where "l = a0 # a1 # a2 # a3 # a4 # r" using assms by (rule limbs5E)
  then show ?thesis by (auto simp: Hacl_Impl_Ed25519_RecoverX_is_0_def Let_def unat_eq_zero)
qed

lemma limb_cancel: "(a::nat) < 2 ^ 51 \<Longrightarrow> b < 2 ^ 51 \<Longrightarrow> a + 2 ^ 51 * x = b + 2 ^ 51 * y \<longleftrightarrow> a = b \<and> x = y"
  by (metis add_left_cancel mod_less mod_mult_self2 mult_cancel1 power_not_zero zero_neq_numeral)

lemma eq_iff:
  assumes "limbs_below (2 ^ 51) a" and "limbs_below (2 ^ 51) b"
  shows "Hacl_Impl_Ed25519_PointEqual_eq a b \<longleftrightarrow> lval a = lval b"
proof -
  obtain a0 a1 a2 a3 a4 r where a: "a = a0 # a1 # a2 # a3 # a4 # r"
    and al: "unat a0 < 2 ^ 51" "unat a1 < 2 ^ 51" "unat a2 < 2 ^ 51" "unat a3 < 2 ^ 51" "unat a4 < 2 ^ 51"
    using assms(1) by (rule limbs_belowE)
  obtain b0 b1 b2 b3 b4 q where b: "b = b0 # b1 # b2 # b3 # b4 # q"
    and bl: "unat b0 < 2 ^ 51" "unat b1 < 2 ^ 51" "unat b2 < 2 ^ 51" "unat b3 < 2 ^ 51" "unat b4 < 2 ^ 51"
    using assms(2) by (rule limbs_belowE)
  show ?thesis
    unfolding a b lval_Cons limb_cancel [OF al(1) bl(1)] limb_cancel [OF al(2) bl(2)] limb_cancel [OF al(3) bl(3)]
      limb_cancel [OF al(4) bl(4)]
    by (simp add: Hacl_Impl_Ed25519_PointEqual_eq_def word_unat_eq_iff)
qed

section \<open>Comparison compares the points\<close>

lemma lval_take: "take 5 l = w \<Longrightarrow> lval l = lval w"
  by auto

lemma limbs_below_taken: "limbs_below n l \<Longrightarrow> take 5 l = take 5 l' \<Longrightarrow> limbs_below n l'"
proof -
  assume l: "limbs_below n l" and e: "take 5 l = take 5 l'"
  have "min (length l) 5 = min (length l') 5" using arg_cong [OF e, of length] by simp
  then have "5 \<le> length l'" using limbs_below_length [OF l] by linarith
  moreover have "limbs_below n (take 5 l')" using l limbs_below_take [of n l] by (simp only: e [symmetric])
  ultimately show "limbs_below n l'" using limbs_below_take [of n l'] by blast
qed

lemma reduced_eq:
  assumes "take 5 a = w" and "limbs_below (2 ^ 51) w" and "int (lval w) = u mod p25519"
    and "take 5 b = w'" and "limbs_below (2 ^ 51) w'" and "int (lval w') = v mod p25519"
  shows "Hacl_Impl_Ed25519_PointEqual_eq a b = modp u v"
proof -
  have "limbs_below (2 ^ 51) a" "limbs_below (2 ^ 51) b"
    using limbs_below_taken [OF assms(2), of a] limbs_below_taken [OF assms(5), of b] assms(1,4) by auto
  then have "Hacl_Impl_Ed25519_PointEqual_eq a b \<longleftrightarrow> int (lval a) = int (lval b)"
    unfolding of_nat_eq_iff by (rule eq_iff)
  then show ?thesis
    using assms(3,6) by (simp add: modp_def lval_take [OF assms(1)] lval_take [OF assms(4)])
qed

text \<open>The statements of a chain that ends in a comparison.\<close>

lemma point_equal_1_correct:
  assumes p: "slots [red_cell x1, red_cell y1, red_cell z1, red_cell t1] p"
    and q: "slots [red_cell x2, red_cell y2, red_cell z2, red_cell t2] q"
    and b: "slots [c0, c1, c2, c3] tmp"
    and Q: "\<And>l c. slots [Some (2 ^ 51, x1 * z2), Some (2 ^ 51, x2 * z1), c2, c3] l \<Longrightarrow>
       c = modp (x1 * z2) (x2 * z1) \<Longrightarrow> Q (l, c)"
  shows "Q (Hacl_Impl_Ed25519_PointEqual_point_equal_1 p q tmp)"
proof -
  note step = fm_step [where Q = Q] and red = step_reduce [where Q = Q]
    and keep = step_keep [where Q = Q and k = 0] and red_keep = step_reduce_keep [where Q = Q and k = 0]
  show ?thesis
    unfolding Hacl_Impl_Ed25519_PointEqual_point_equal_1_def at_ptr_def ext_coords
    by (insert p q b,
        ((rule red_keep, assumption, assumption) | (rule red, assumption) | (rule keep, assumption, assumption) | (rule step, assumption)
         | rule e_mul
         | (rule slots_read, assumption, simp (no_asm), simp (no_asm), rule cell_nth) | (rule slots_first, assumption)
         | rule cell_update cell_nth | assumption | (simp (no_asm); fail))+,
        rule let_now [where Q = Q], rule Q, assumption, rule reduced_eq, assumption+)
qed

lemma point_equal_2_correct:
  assumes p: "slots [red_cell x1, red_cell y1, red_cell z1, red_cell t1] p"
    and q: "slots [red_cell x2, red_cell y2, red_cell z2, red_cell t2] q"
    and b: "slots [c0, c1, c2, c3] tmp"
    and Q: "\<And>l c. slots [c0, c1, Some (2 ^ 51, y1 * z2), Some (2 ^ 51, y2 * z1)] l \<Longrightarrow>
       c = modp (y1 * z2) (y2 * z1) \<Longrightarrow> Q (l, c)"
  shows "Q (Hacl_Impl_Ed25519_PointEqual_point_equal_2 p q tmp)"
proof -
  note step = fm_step [where Q = Q] and red = step_reduce [where Q = Q]
    and keep = step_keep [where Q = Q and k = 10] and red_keep = step_reduce_keep [where Q = Q and k = 10]
  show ?thesis
    unfolding Hacl_Impl_Ed25519_PointEqual_point_equal_2_def at_ptr_def ext_coords
    by (insert p q b,
        ((rule red_keep, assumption, assumption) | (rule red, assumption) | (rule keep, assumption, assumption) | (rule step, assumption)
         | rule e_mul
         | (rule slots_read, assumption, simp (no_asm), simp (no_asm), rule cell_nth) | (rule slots_first, assumption)
         | rule cell_update cell_nth | assumption | (simp (no_asm); fail))+,
        rule let_now [where Q = Q], rule Q, assumption, rule reduced_eq, assumption+)
qed

lemma point_equal_correct:
  assumes "is_ext P p" and "is_ext R q"
  shows "Hacl_Impl_Ed25519_PointEqual_point_equal p q = ed_equal P R"
proof -
  obtain x1 y1 z1 t1 x2 y2 z2 t2 where P: "P = (x1, y1, z1, t1)" "R = (x2, y2, z2, t2)"
    by (cases P, cases R)
  have p: "slots [red_cell x1, red_cell y1, red_cell z1, red_cell t1] p"
    "slots [red_cell x2, red_cell y2, red_cell z2, red_cell t2] q"
    using assms by (simp_all add: is_ext_def P)
  have b0: "slots [None, None, None, None] (replicate 20 0)"
    using slots_zero [of 4 0] by (simp add: numeral_eq_Suc)
  have "\<exists>l. Hacl_Impl_Ed25519_PointEqual_point_equal_1 p q (replicate 20 0) = (l, modp (x1 * z2) (x2 * z1))
      \<and> slots [Some (2 ^ 51, x1 * z2), Some (2 ^ 51, x2 * z1), None, None] l"
    by (rule point_equal_1_correct [OF p b0]) simp
  then obtain l where one: "Hacl_Impl_Ed25519_PointEqual_point_equal_1 p q (replicate 20 0) = (l, modp (x1 * z2) (x2 * z1))"
    and l: "slots [Some (2 ^ 51, x1 * z2), Some (2 ^ 51, x2 * z1), None, None] l" by blast
  have two: "snd (Hacl_Impl_Ed25519_PointEqual_point_equal_2 p q l) = modp (y1 * z2) (y2 * z1)"
    by (rule point_equal_2_correct [OF p l]) simp
  show ?thesis
    by (auto simp: Hacl_Impl_Ed25519_PointEqual_point_equal_def Hacl_Impl_Ed25519_PointEqual_point_equal'_def one two
        ed_equal_def P split_beta)
qed

section \<open>Compression is the encoding of RFC 8032\<close>

lemma even51: "((a::nat) + 2 ^ 51 * x) mod 2 = a mod 2"
  using mod_mult_self2 [of a 2 "2 ^ 50 * x"] by simp

lemma parity_limb:
  assumes "take 5 l = w" and "limbs_below n w"
  shows "unat (l ! 0 AND 1) = lval w mod 2"
proof -
  obtain a0 a1 a2 a3 a4 r where w: "w = a0 # a1 # a2 # a3 # a4 # r" using assms(2) by (rule limbs_belowE)
  have "l ! 0 = a0" using assms(1) w by (metis nth_Cons_0 nth_take zero_less_numeral)
  moreover have "unat (a0 AND 1) = unat a0 mod 2" using unat_and_mask [of a0 1] by (simp add: mask_eq_exp_minus_1)
  moreover have "lval w mod 2 = unat a0 mod 2" unfolding w lval_Cons by (rule even51)
  ultimately show ?thesis by simp
qed

lemma top_bit_bytes:
  assumes "y < 2 ^ 255" and "x \<le> 1"
  shows "(le_bytes 32 y @ r)[31 := (le_bytes 32 y @ r) ! 31 + push_bit 7 (word_of_nat x)] = le_bytes 32 (y + 2 ^ 255 * x) @ r"
proof -
  have e: "le_bytes 32 n = le_bytes 31 n @ [word_of_nat (n div 2 ^ 248)]" for n
    using le_bytes_append [of 31 1 n] by simp
  have "(y + 2 ^ 255 * x) div 2 ^ 248 = y div 2 ^ 248 + 128 * x"
    using div_mult_self2 [of "2 ^ 248" y "128 * x"] by simp
  moreover have "le_bytes 31 (y + 2 ^ 255 * x) = le_bytes 31 y"
    using le_bytes_mod [of 31 "y + 2 ^ 255 * x"] le_bytes_mod [of 31 y] mod_mult_self2 [of y "2 ^ 248" "128 * x"] by simp
  moreover have "(push_bit 7 (word_of_nat x) :: u8) = word_of_nat (128 * x)"
    by (simp add: push_bit_eq_mult)
  ultimately show ?thesis
    by (simp add: e list_update_append nth_append)
qed

lemma point_compress_correct:
  assumes "is_ext P p" and "32 \<le> length z"
  shows "Hacl_Impl_Ed25519_PointCompress_point_compress z p = ed_compress P @ drop 32 z"
proof -
  obtain X Y Z T where P: "P = (X, Y, Z, T)" by (cases P)
  have p: "slots [red_cell X, red_cell Y, red_cell Z, red_cell T] p"
    using assms(1) by (simp add: is_ext_def P)
  have b0: "slots [None, None, None] (replicate 15 0)"
    using slots_zero [of 3 0] by (simp add: numeral_eq_Suc)
  define Q where "Q = (\<lambda>r. r = ed_compress P @ drop 32 z)"
  have fin: "Q (let b = Hacl_Impl_Ed25519_PointCompress_x_mod_2 (drop 5 l);
          z = Hacl_Impl_Store51_store_51' z (drop 10 l);
          xbyte = ucast b; o31 = z ! 31
      in z[31 := o31 + push_bit 7 xbyte])"
    if w: "take 5 (drop 5 l) = w" "limbs_below (2 ^ 51) w" "int (lval w) = X * Z ^ (2 ^ 255 - 21) mod p25519"
      and w': "take 5 (drop 10 l) = w'" "limbs_below (2 ^ 51) w'" "int (lval w') = Y * Z ^ (2 ^ 255 - 21) mod p25519"
    for l w w'
  proof -
    have b: "unat (Hacl_Impl_Ed25519_PointCompress_x_mod_2 (drop 5 l)) = lval w mod 2"
      unfolding Hacl_Impl_Ed25519_PointCompress_x_mod_2_def Let_def by (rule parity_limb [OF w(1,2)])
    have "ucast (Hacl_Impl_Ed25519_PointCompress_x_mod_2 (drop 5 l))
        = (word_of_nat (unat (Hacl_Impl_Ed25519_PointCompress_x_mod_2 (drop 5 l))) :: u8)"
      by simp
    then have "ucast (Hacl_Impl_Ed25519_PointCompress_x_mod_2 (drop 5 l)) = (word_of_nat (lval w mod 2) :: u8)"
      by (simp only: b)
    moreover have "Hacl_Impl_Store51_store_51' z (drop 10 l) = le_bytes 32 (lval w') @ drop 32 z"
    proof -
      have t: "take 5 w' = take 5 (drop 10 l)" using w'(1) by auto
      show ?thesis by (simp only: store_51_correct [OF limbs_below_taken [OF w'(2) t] assms(2)] t)
    qed
    moreover have "lval w' < 2 ^ 255"
    proof -
      have "int (lval w') < p25519" unfolding w'(3) by (simp add: p25519_def)
      then show ?thesis by (simp add: p25519_def)
    qed
    note top_bit_bytes [OF this, of "lval w mod 2" "drop 32 z"]
    moreover have "nat (int (lval w') + 2 ^ 255 * (int (lval w) mod 2)) = lval w' + 2 ^ 255 * (lval w mod 2)"
      by (simp add: nat_add_distrib nat_mult_distrib nat_mod_distrib)
    ultimately show ?thesis
      unfolding Q_def P ed_compress_def Let_def case_prod_conv w(3) [symmetric] w'(3) [symmetric] by simp
  qed
  note step = fm_step [where Q = Q] and red = step_reduce [where Q = Q]
    and keep = step_keep [where Q = Q and k = 5] and red_keep = step_reduce_keep [where Q = Q and k = 5]
  have "Q (Hacl_Impl_Ed25519_PointCompress_point_compress z p)"
    unfolding Hacl_Impl_Ed25519_PointCompress_point_compress_def at_ptr_def ext_coords
    by (insert p b0, subst Let_def [of "replicate 15 0"],
        ((rule fin, assumption, assumption, assumption, assumption, assumption, assumption)
         | (rule red_keep, assumption, assumption) | (rule red, assumption) | (rule keep, assumption, assumption) | (rule step, assumption)
         | rule e_mul e_inverse
         | (rule slots_read, assumption, simp (no_asm), simp (no_asm), rule cell_nth) | (rule slots_first, assumption)
         | rule cell_update cell_nth | assumption | rule let_now [where Q = Q] | (simp (no_asm); fail))+)
  then show ?thesis by (simp add: Q_def)
qed

end
