(* ===== verification/Ed25519_Recover.thy ===== *)
theory Ed25519_Recover
  imports Ed25519_Format
begin

text \<open>
  \<open>recover_x\<close> and \<open>point_decompress\<close> of \<open>Hacl_Ed25519.c\<close> compute the square root and the
  decoding of RFC 8032, section 5.1.3, and reject exactly what these reject.
\<close>

section \<open>Constants and tests\<close>

lemma e_make:
  assumes "limbs_below n [a0, a1, a2, a3, a4]" and "fval [a0, a1, a2, a3, a4] = v mod p25519" and "5 \<le> length out"
  shows "fe_writes n v out (Hacl_Lib_Create64_make_h64_5 out a0 a1 a2 a3 a4)"
proof -
  obtain o0 o1 o2 o3 o4 r where out: "out = o0 # o1 # o2 # o3 # o4 # r" using assms(3) by (rule limbs5E)
  show ?thesis
    unfolding out make_h64_5_Cons using assms(1,2) by (intro fe_writes_Cons) (simp_all add: limbs_below_Cons fval_Cons)
qed

lemma e_one: "5 \<le> length out \<Longrightarrow> fe_writes (2 ^ 51) 1 out (Hacl_Lib_Create64_make_h64_5 out 1 0 0 0 0)"
  by (rule e_make) (simp_all add: limbs_below_Cons fval_Cons p25519_def)

lemma e_zero: "5 \<le> length out \<Longrightarrow> fe_writes (2 ^ 51) 0 out (Hacl_Lib_Create64_make_h64_5 out 0 0 0 0 0)"
  by (rule e_make) (simp_all add: limbs_below_Cons fval_Cons)

lemma e_pow:
  assumes "holds (Some (m, u)) a" "m \<le> 2 ^ 51 + 2 ^ 13" "5 \<le> length out"
  shows "fe_writes (2 ^ 51 + 2 ^ 13) (u ^ (2 ^ 252 - 2)) out (Hacl_Impl_Ed25519_Pow2_252m2_pow2_252m2 out a)"
  unfolding Hacl_Impl_Ed25519_Pow2_252m2_pow2_252m2_def by (rule e_crecip' [OF assms])

lemma too_large_iff:
  assumes "limbs_below (2 ^ 51) l"
  shows "l ! 0 \<ge> 0x7ffffffffffed \<and> l ! 1 = 0x7ffffffffffff \<and> l ! 2 = 0x7ffffffffffff
           \<and> l ! 3 = 0x7ffffffffffff \<and> l ! 4 = 0x7ffffffffffff \<longleftrightarrow> 2 ^ 255 - 19 \<le> lval l"
proof -
  obtain a0 a1 a2 a3 a4 r where l: "l = a0 # a1 # a2 # a3 # a4 # r"
    and a: "unat a0 < 2 ^ 51" "unat a1 < 2 ^ 51" "unat a2 < 2 ^ 51" "unat a3 < 2 ^ 51" "unat a4 < 2 ^ 51"
    using assms by (rule limbs_belowE)
  have e: "x = 0x7ffffffffffff \<longleftrightarrow> unat x = 0x7ffffffffffff" for x :: u64 by (simp add: word_unat_eq_iff)
  have c: "a0 \<ge> 0x7ffffffffffed \<longleftrightarrow> 0x7ffffffffffed \<le> unat a0" by (simp add: word_le_nat_alt)
  have "0x7ffffffffffed \<le> n0 \<and> n1 = 0x7ffffffffffff \<and> n2 = 0x7ffffffffffff \<and> n3 = 0x7ffffffffffff \<and> n4 = 0x7ffffffffffff
      \<longleftrightarrow> 2 ^ 255 - 19 \<le> n0 + 2 ^ 51 * (n1 + 2 ^ 51 * (n2 + 2 ^ 51 * (n3 + 2 ^ 51 * n4)))" (is "?D \<longleftrightarrow> ?L")
    if n: "n0 < 2 ^ 51" "n1 < 2 ^ 51" "n2 < 2 ^ 51" "n3 < 2 ^ 51" "n4 < 2 ^ 51" for n0 n1 n2 n3 n4 :: nat
  proof
    assume L: ?L
    have "n4 \<ge> 0x7ffffffffffff" by (rule ccontr) (use n L in simp)
    moreover have "n3 \<ge> 0x7ffffffffffff" by (rule ccontr) (use n L in simp)
    moreover have "n2 \<ge> 0x7ffffffffffff" by (rule ccontr) (use n L in simp)
    moreover have "n1 \<ge> 0x7ffffffffffff" by (rule ccontr) (use n L in simp)
    moreover have "n0 \<ge> 0x7ffffffffffed" by (rule ccontr) (use n L in simp)
    ultimately show ?D using n by simp
  qed simp
  from this [OF a] show ?thesis
    unfolding l lval_Cons by (simp only: nth_Cons_0 nth_Cons_numeral One_nat_def nth_Cons_Suc e c) (simp add: e c)
qed

lemma is_0_value:
  assumes "take 5 l = w" and "limbs_below n w" and "int (lval w) = u mod p25519"
  shows "Hacl_Impl_Ed25519_RecoverX_is_0 l \<longleftrightarrow> modp u 0"
proof -
  have "limbs_below n l" using assms(1) limbs_below_taken [OF assms(2), of l] by auto
  then have "Hacl_Impl_Ed25519_RecoverX_is_0 l \<longleftrightarrow> int (lval l) = 0"
    using is_0_iff limbs_below_length by (metis of_nat_eq_0_iff)
  then show ?thesis unfolding lval_take [OF assms(1)] assms(3) by (simp add: modp_def)
qed


section \<open>The square root\<close>

lemma let_if_slots:
  assumes "c \<Longrightarrow> slots cs A" and "\<not> c \<Longrightarrow> slots cs B" and "\<And>b. slots cs b \<Longrightarrow> Q (f b)"
  shows "Q (Let (if c then A else B) f)"
  using assms by (cases c) (simp_all add: Let_def)

lemma if_false: "\<not> c \<Longrightarrow> Q B \<Longrightarrow> Q (if c then A else B)"
  by simp

lemma if_true: "c \<Longrightarrow> Q A \<Longrightarrow> Q (if c then A else B)"
  by simp

text \<open>What \<open>recover_x_\<close> leaves behind, given the result of the function of RFC 8032.\<close>

definition recovered :: "u64 list \<Rightarrow> int option \<Rightarrow> u64 list \<times> u64 list \<times> bool \<Rightarrow> bool" where
  "recovered x r = (\<lambda>(x', tmp, c). case r of None \<Rightarrow> x' = x \<and> \<not> c | Some v \<Rightarrow> c \<and> fe_writes (2 ^ 51) v x x')"

lemmas cells = cell_nth cell_update

lemma recover_first:
  assumes y: "holds (Some (2 ^ 51, yv)) y" and t: "slots [None, None, None, None] tmp"
    and Q: "\<And>b w. slots [Some (2 ^ 51, (ed_d * yv ^ 2 + 1) ^ (2 ^ 255 - 21) * (yv ^ 2 - 1)), None, None, None] b \<Longrightarrow>
      take 5 (drop 0 b) = w \<Longrightarrow> limbs_below (2 ^ 51) w \<Longrightarrow>
      int (lval w) = (ed_d * yv ^ 2 + 1) ^ (2 ^ 255 - 21) * (yv ^ 2 - 1) mod p25519 \<Longrightarrow> Q (f b)"
  shows "Q (let tmp0 = replicate 25 0;
               tmp0 = take 0 tmp0 @ Hacl_Lib_Create64_make_h64_5 (drop 0 tmp0) 1 0 0 0 0;
               tmp0 = take 5 tmp0 @ Hacl_Bignum25519_fsquare (drop 5 tmp0) y;
               tmp0 = take 15 tmp0 @ Hacl_Bignum25519_times_d (drop 15 tmp0) (drop 5 tmp0);
               tmp0 = take 15 tmp0 @ Hacl_Bignum25519_fsum (drop 15 tmp0) (drop 0 tmp0);
               tmp0 = take 15 tmp0 @ Hacl_Bignum25519_reduce_513 (drop 15 tmp0);
               tmp0 = take 10 tmp0 @ Hacl_Bignum25519_inverse (drop 10 tmp0) (drop 15 tmp0);
               tmp0 = take 0 tmp0 @ Hacl_Bignum25519_fdifference (drop 0 tmp0) (drop 5 tmp0);
               tmp = take 0 tmp @ Hacl_Bignum25519_fmul (drop 0 tmp) (drop 10 tmp0) (drop 0 tmp0);
               tmp = take 0 tmp @ Hacl_Bignum25519_reduce (drop 0 tmp)
           in f tmp)"
proof -
  have z: "slots [None, None, None, None, None] (replicate 25 0)"
    using slots_zero [of 5 0] by (simp add: numeral_eq_Suc)
  note step = fm_step [where Q = Q] and red = step_reduce [where Q = Q]
  show ?thesis
    by (insert y t, rule let_slots [where Q = Q, OF z],
        ((rule red, assumption) | (rule step, assumption)
         | rule e_mul e_sum e_diff e_sq e_times_d e_inverse e_reduce_513 e_one
         | (rule slots_read, assumption, simp (no_asm), simp (no_asm), rule cell_nth) | (rule slots_first, assumption)
         | rule cells | assumption | (simp (no_asm); fail))+, rule Q, assumption+)
qed

lemma recover_second:
  assumes t: "slots [Some (2 ^ 51, e), None, None, None] tmp"
    and Q: "\<And>b w. slots [Some (2 ^ 51, e), red_cell (e ^ (2 ^ 252 - 2)), red_cell ((e ^ (2 ^ 252 - 2)) ^ 2),
        Some (2 ^ 51, (e ^ (2 ^ 252 - 2)) ^ 2 - e)] b \<Longrightarrow>
      take 5 (drop 15 b) = w \<Longrightarrow> limbs_below (2 ^ 51) w \<Longrightarrow>
      int (lval w) = ((e ^ (2 ^ 252 - 2)) ^ 2 - e) mod p25519 \<Longrightarrow> Q (f b)"
  shows "Q (let tmp = take 5 tmp @ Hacl_Impl_Ed25519_Pow2_252m2_pow2_252m2 (drop 5 tmp) (drop 0 tmp);
                tmp = take 10 tmp @ Hacl_Bignum25519_fsquare (drop 10 tmp) (drop 5 tmp);
                tmp = take 15 tmp @ memcpy (drop 15 tmp) (drop 0 tmp) 5;
                tmp = take 15 tmp @ Hacl_Bignum25519_fdifference (drop 15 tmp) (drop 10 tmp);
                tmp = take 15 tmp @ Hacl_Bignum25519_reduce_513 (drop 15 tmp);
                tmp = take 15 tmp @ Hacl_Bignum25519_reduce (drop 15 tmp)
            in f tmp)"
proof -
  note step = fm_step [where Q = Q] and red = step_reduce [where Q = Q]
  show ?thesis
    by (insert t,
        ((rule red, assumption) | (rule step, assumption)
         | rule e_mul e_sum e_diff e_sq e_pow e_reduce_513 w_copy
         | (rule slots_read, assumption, simp (no_asm), simp (no_asm), rule cell_nth) | (rule slots_first, assumption)
         | rule cells | assumption | (simp (no_asm); fail))+, rule Q, assumption+)
qed

lemma recover_third:
  assumes t: "slots [Some (2 ^ 51, e), red_cell v, c2, c3] tmp"
    and Q: "\<And>b w w'. slots [Some (2 ^ 51, e), Some (2 ^ 51, v), red_cell (v ^ 2), Some (2 ^ 51, v ^ 2 - e)] b \<Longrightarrow>
      take 5 (drop 5 b) = w \<Longrightarrow> limbs_below (2 ^ 51) w \<Longrightarrow> int (lval w) = v mod p25519 \<Longrightarrow>
      take 5 (drop 15 b) = w' \<Longrightarrow> limbs_below (2 ^ 51) w' \<Longrightarrow> int (lval w') = (v ^ 2 - e) mod p25519 \<Longrightarrow> Q (f b)"
  shows "Q (let tmp = take 5 tmp @ Hacl_Bignum25519_reduce (drop 5 tmp);
                tmp = take 10 tmp @ Hacl_Bignum25519_fsquare (drop 10 tmp) (drop 5 tmp);
                tmp = take 15 tmp @ memcpy (drop 15 tmp) (drop 0 tmp) 5;
                tmp = take 15 tmp @ Hacl_Bignum25519_fdifference (drop 15 tmp) (drop 10 tmp);
                tmp = take 15 tmp @ Hacl_Bignum25519_reduce_513 (drop 15 tmp);
                tmp = take 15 tmp @ Hacl_Bignum25519_reduce (drop 15 tmp)
            in f tmp)"
proof -
  note red = step_reduce [where Q = Q]
    and keep = step_keep [where Q = Q and k = 5] and red_keep = step_reduce_keep [where Q = Q and k = 5]
  show ?thesis
    by (insert t,
        ((rule red_keep, assumption, assumption) | (rule red, assumption) | (rule keep, assumption, assumption)
         | rule e_mul e_sum e_diff e_sq e_reduce_513 w_copy
         | (rule slots_read, assumption, simp (no_asm), simp (no_asm), rule cell_nth) | (rule slots_first, assumption)
         | rule cells | assumption | (simp (no_asm); fail))+, rule Q, assumption+)
qed

text \<open>The last step chooses the root with the right parity.\<close>

lemma recover_last:
  assumes t: "slots [c0, Some (2 ^ 51, v), c2, c3] tmp" and x: "5 \<le> length x"
    and w: "take 5 (drop 5 tmp) = w" "limbs_below (2 ^ 51) w" "int (lval w) = v"
  shows "fe_writes (2 ^ 51) (if (v mod 2 = 1) = neg then v else - v) x
           (fst (Hacl_Impl_Ed25519_RecoverX_recover_x_step_5 x (of_bool neg) tmp))"
proof -
  have "unat (drop 5 tmp ! 0 AND 1) = lval w mod 2" by (rule parity_limb [OF w(1,2)])
  moreover have "v mod 2 = int (lval w mod 2)" using w(3) by (simp add: zmod_int)
  moreover have "unat (of_bool neg :: u64) = of_bool neg" by simp
  ultimately have c: "drop 5 tmp ! 0 AND 1 = of_bool neg \<longleftrightarrow> (v mod 2 = 1) = neg"
    by (cases neg) (auto simp: word_unat_eq_iff)
  have copy: "fe_writes (2 ^ 51) u x (memcpy x (drop 5 b) 5)" if "slots [d0, Some (2 ^ 51, u), d2, d3] b" for b u d0 d2 d3
    by (rule w_copy [OF _ x], rule slots_read [OF that], simp, simp, rule cell_nth)
  define Q where "Q = (\<lambda>b. fe_writes (2 ^ 51) (0 - v) x (memcpy x (drop 5 b) 5))"
  note step = fm_step [where Q = Q] and red = step_reduce [where Q = Q]
  have neg: "Q (let tmp = take 10 tmp @ Hacl_Lib_Create64_make_h64_5 (drop 10 tmp) 0 0 0 0 0;
                    tmp = take 5 tmp @ Hacl_Bignum25519_fdifference (drop 5 tmp) (drop 10 tmp);
                    tmp = take 5 tmp @ Hacl_Bignum25519_reduce_513 (drop 5 tmp);
                    tmp = take 5 tmp @ Hacl_Bignum25519_reduce (drop 5 tmp)
                in tmp)"
    by (insert t,
        ((rule red, assumption) | (rule step, assumption)
         | rule e_diff e_reduce_513 e_zero
         | (rule slots_read, assumption, simp (no_asm), simp (no_asm), rule cell_nth) | (rule slots_first, assumption)
         | rule cells | assumption | (simp (no_asm); fail))+, unfold Q_def, rule copy, assumption)
  show ?thesis
  proof (cases "(v mod 2 = 1) = neg")
    case True
    then show ?thesis
      using copy [OF t]
      by (simp only: Hacl_Impl_Ed25519_RecoverX_recover_x_step_5_def Let_def c simp_thms if_True if_False fst_conv)
  next
    case False
    then have "fst (Hacl_Impl_Ed25519_RecoverX_recover_x_step_5 x (of_bool neg) tmp) =
       memcpy x (drop 5 (let tmp = take 10 tmp @ Hacl_Lib_Create64_make_h64_5 (drop 10 tmp) 0 0 0 0 0;
                    tmp = take 5 tmp @ Hacl_Bignum25519_fdifference (drop 5 tmp) (drop 10 tmp);
                    tmp = take 5 tmp @ Hacl_Bignum25519_reduce_513 (drop 5 tmp);
                    tmp = take 5 tmp @ Hacl_Bignum25519_reduce (drop 5 tmp)
                in tmp)) 5"
      by (simp only: Hacl_Impl_Ed25519_RecoverX_recover_x_step_5_def Let_def c simp_thms if_True at_ptr_def fst_conv)
    with neg False show ?thesis by (simp only: Q_def if_False minus_diff_eq diff_0)
  qed
qed

lemma modp_power: "modp a b \<Longrightarrow> modp (a ^ n) (b ^ n)"
  unfolding modp_def by (metis power_mod)

lemma modp_reduced: "modp (a mod p25519) b \<longleftrightarrow> modp a b" "modp a (b mod p25519) \<longleftrightarrow> modp a b"
  by (simp_all add: modp_def)

lemma recover_spec:
  fixes y :: int
  assumes "\<not> p25519 \<le> y"
  defines "e \<equiv> (ed_d * y ^ 2 + 1) ^ (2 ^ 255 - 21) * (y ^ 2 - 1)"
  defines "r \<equiv> e ^ (2 ^ 252 - 2)"
  defines "v \<equiv> (if modp (r ^ 2) e then r else r * root_m1)"
  shows "ed_recover_x y neg = (if modp e 0 then if neg then None else Some 0
     else if \<not> modp (v ^ 2) e then None
     else Some (if (v mod p25519 mod 2 = 1) = neg then v mod p25519 else p25519 - v mod p25519))"
proof -
  define x2 where "x2 = e mod p25519"
  define x where "x = x2 ^ (2 ^ 252 - 2) mod p25519"
  define x' where "x' = (if modp (x ^ 2) x2 then x else x * root_m1 mod p25519)"
  have x: "x = r mod p25519" by (simp only: x_def x2_def r_def power_mod)
  have c: "modp (x ^ 2) x2 \<longleftrightarrow> modp (r ^ 2) e"
    unfolding x x2_def by (simp only: modp_reduced modp_def power_mod mod_mod_trivial)
  have v: "x' = v mod p25519"
    unfolding x'_def c v_def unfolding x by (simp add: mod_mult_left_eq)
  have d: "modp (x' ^ 2) x2 \<longleftrightarrow> modp (v ^ 2) e"
    unfolding v x2_def by (simp only: modp_reduced modp_def power_mod mod_mod_trivial)
  have z: "x2 = 0 \<longleftrightarrow> modp e 0" by (simp add: x2_def modp_def)
  show ?thesis
    unfolding ed_recover_x_def Let_def e_def [symmetric] x2_def [symmetric] x_def [symmetric] x'_def [symmetric] z d
    using assms(1) by (simp only: if_False v)
qed

lemma slots_value_mod:
  "slots [c0, Some (n, v), c2, c3] b \<longleftrightarrow> slots [c0, Some (n, v mod p25519), c2, c3] b"
  by (simp add: slots_four holds_Some)

lemma times_root:
  assumes "slots [c0, red_cell r, c2, c3] b"
  shows "slots [c0, red_cell (r * root_m1), c2, c3]
    (let sqrt_m1 = replicate 5 0;
         sqrt_m1 = Hacl_Lib_Create64_make_h64_5 sqrt_m1 0x00061b274a0ea0b0 0x0000d5a5fc8f189d 0x0007ef5e9cbd0c60
           0x00078595a6804c9e 0x0002b8324804fc1d
     in take 5 b @ Hacl_Bignum25519_fmul (drop 5 b) (drop 5 b) sqrt_m1)"
proof -
  let ?s = "[0x00061b274a0ea0b0, 0x0000d5a5fc8f189d, 0x0007ef5e9cbd0c60, 0x00078595a6804c9e, 0x0002b8324804fc1d]"
  have h: "holds (red_cell r) (drop 5 b)" by (rule slots_read [OF assms]) simp_all
  then have l: "5 \<le> length (drop 5 b)" by (simp add: holds_def)
  have s: "holds (Some (2 ^ 51, root_m1)) ?s"
    by (simp add: holds_Some limbs_below_Cons fval_Cons root_m1_def p25519_def)
  have w: "fe_writes (2 ^ 51 + 2 ^ 13) (r * root_m1) (drop 5 b) (Hacl_Bignum25519_fmul (drop 5 b) (drop 5 b) ?s)"
    by (rule e_mul [OF h s _ _ l]) simp_all
  have "slots ([c0, red_cell r, c2, c3][1 := red_cell (r * root_m1)])
      (take 5 b @ Hacl_Bignum25519_fmul (drop 5 b) (drop 5 b) ?s)"
    by (rule slots_put [OF assms _ _ w]) simp_all
  then show ?thesis by (simp add: zeros5 make_h64_5_Cons)
qed

lemma recover_x'_correct:
  assumes y: "limbs_below (2 ^ 51) y" "int (lval y) = yv" and x: "5 \<le> length x"
    and t: "slots [None, None, None, None] tmp"
  shows "recovered x (ed_recover_x yv neg) (Hacl_Impl_Ed25519_RecoverX_recover_x' x y (of_bool neg) tmp)"
proof (cases "p25519 \<le> yv")
  case True
  then have "2 ^ 255 - 19 \<le> lval y" using y(2) by (simp add: p25519_def)
  then have large: "y ! 0 \<ge> 0x7ffffffffffed \<and> y ! 1 = 0x7ffffffffffff \<and> y ! 2 = 0x7ffffffffffff
           \<and> y ! 3 = 0x7ffffffffffff \<and> y ! 4 = 0x7ffffffffffff"
    using too_large_iff [OF y(1)] by simp
  define Q where "Q = recovered x (ed_recover_x yv neg)"
  have "Q (x, tmp, False)" using True by (simp add: Q_def recovered_def ed_recover_x_def)
  then show ?thesis
    unfolding Q_def [symmetric] Hacl_Impl_Ed25519_RecoverX_recover_x'_def
    by (intro let_now [where Q = Q]) (rule if_true [where Q = Q, OF large])
next
  case False
  define e where "e = (ed_d * yv ^ 2 + 1) ^ (2 ^ 255 - 21) * (yv ^ 2 - 1)"
  define r where "r = e ^ (2 ^ 252 - 2)"
  define v where "v = (if modp (r ^ 2) e then r else r * root_m1)"
  note spec = recover_spec [OF False, folded e_def, folded r_def, folded v_def]
  have "\<not> 2 ^ 255 - 19 \<le> lval y" using False y(2) by (simp add: p25519_def)
  then have small: "\<not> (y ! 0 \<ge> 0x7ffffffffffed \<and> y ! 1 = 0x7ffffffffffff \<and> y ! 2 = 0x7ffffffffffff
           \<and> y ! 3 = 0x7ffffffffffff \<and> y ! 4 = 0x7ffffffffffff)"
    using too_large_iff [OF y(1)] by simp
  have hy: "holds (Some (2 ^ 51, yv)) y"
    using y by (simp add: holds_Some) (simp add: fval_def)
  define Q where "Q = recovered x (ed_recover_x yv neg)"
  have zero: "Q (if (of_bool neg :: u64) = 0 then (Hacl_Lib_Create64_make_h64_5 x 0 0 0 0 0, b, True) else (x, b, False))"
    if "modp e 0" for b
    using that e_zero [OF x] by (cases neg) (simp_all add: Q_def recovered_def spec)
  show ?thesis
    unfolding Q_def [symmetric] Hacl_Impl_Ed25519_RecoverX_recover_x'_def at_ptr_def
    apply (rule let_now [where Q = Q])+
    apply (rule if_false [where Q = Q], rule small)
    apply (rule recover_first [where Q = Q, OF hy t, folded e_def])
    apply (rule let_now [where Q = Q])
    subgoal for b w
    proof (cases "modp e 0")
      case True
      assume b: "take 5 (drop 0 b) = w" "limbs_below (2 ^ 51) w" "int (lval w) = e mod p25519"
      have "Hacl_Impl_Ed25519_RecoverX_is_0 (drop 0 b)" using is_0_value [OF b] True by simp
      then show ?thesis using zero [OF True, of b] by (cases neg) (simp_all add: Let_def)
    next
      case nz: False
      assume sl: "slots [Some (2 ^ 51, e), None, None, None] b"
      assume b: "take 5 (drop 0 b) = w" "limbs_below (2 ^ 51) w" "int (lval w) = e mod p25519"
      have n: "\<not> Hacl_Impl_Ed25519_RecoverX_is_0 (drop 0 b)" using is_0_value [OF b] nz by simp
      have two: "\<not> (2 :: u8) = 0" "\<not> (2 :: u8) = 1" by simp_all
      show ?thesis
        unfolding if_not_P [OF n] Let_def [of "(x, 2)"] prod.case
        apply (rule if_false [where Q = Q], rule two, rule if_false [where Q = Q], rule two)
        apply (rule recover_second [where Q = Q, OF sl, folded r_def])
        apply (rule let_now [where Q = Q])
        subgoal for b2 w2
        proof -
          assume sl2: "slots [Some (2 ^ 51, e), red_cell r, red_cell (r ^ 2), Some (2 ^ 51, r ^ 2 - e)] b2"
          assume b2: "take 5 (drop 15 b2) = w2" "limbs_below (2 ^ 51) w2" "int (lval w2) = (r ^ 2 - e) mod p25519"
          have n2: "Hacl_Impl_Ed25519_RecoverX_is_0 (drop 15 b2) \<longleftrightarrow> modp (r ^ 2) e"
            using is_0_value [OF b2] by (simp only: modp_zero)
          have v1: "v = r * root_m1" if "\<not> modp (r ^ 2) e" using that by (simp add: v_def)
          have v2: "v = r" if "\<not> \<not> modp (r ^ 2) e" using that by (simp add: v_def)
          show ?thesis
            unfolding n2
            apply (rule let_if_slots [where Q = Q and cs = "[Some (2 ^ 51, e), red_cell v, red_cell (r ^ 2), Some (2 ^ 51, r ^ 2 - e)]"])
              apply (subst v1, assumption, rule times_root [OF sl2])
             apply (subst v2, assumption, rule sl2)
            apply (rule recover_third [where Q = Q], assumption)
            apply (rule let_now [where Q = Q])
            subgoal for _ b3 w3 w3'
            proof -
              assume sl3: "slots [Some (2 ^ 51, e), Some (2 ^ 51, v), red_cell (v ^ 2), Some (2 ^ 51, v ^ 2 - e)] b3"
              assume b3: "take 5 (drop 5 b3) = w3" "limbs_below (2 ^ 51) w3" "int (lval w3) = v mod p25519"
              assume b3': "take 5 (drop 15 b3) = w3'" "limbs_below (2 ^ 51) w3'" "int (lval w3') = (v ^ 2 - e) mod p25519"
              have n3: "Hacl_Impl_Ed25519_RecoverX_is_0 (drop 15 b3) \<longleftrightarrow> modp (v ^ 2) e"
                using is_0_value [OF b3'] by (simp only: modp_zero)
              show ?thesis
              proof (cases "modp (v ^ 2) e")
                case False
                have "Q (x, b3, False)"
                  using nz False by (simp only: Q_def recovered_def spec if_False prod.case option.case simp_thms if_True)
                then show ?thesis by (intro if_true [where Q = Q]) (simp only: n3 False simp_thms)
              next
                case True
                define m where "m = v mod p25519"
                define s where "s = Hacl_Impl_Ed25519_RecoverX_recover_x_step_5 x (of_bool neg) b3"
                have "(if (m mod 2 = 1) = neg then m else - m) mod p25519 = (if (m mod 2 = 1) = neg then m else p25519 - m) mod p25519"
                  by simp
                then have w: "fe_writes (2 ^ 51) (if (m mod 2 = 1) = neg then m else p25519 - m) x (fst s)"
                  unfolding s_def
                  by (rule fe_writes_cong)
                    (rule recover_last [OF sl3 [unfolded slots_value_mod [of _ _ v], folded m_def] x b3 [folded m_def]])
                have "Q (fst s, snd s, True)"
                  unfolding Q_def recovered_def spec m_def [symmetric] using nz True w
                  by (simp only: if_False prod.case option.case simp_thms)
                then have "Q (let (x, tmp) = s in (x, tmp, True))" by (simp only: Let_def split_beta)
                then show ?thesis
                  unfolding s_def by (intro if_false [where Q = Q]) (simp only: n3 True simp_thms)
              qed
            qed
            done
        qed
        done
    qed
    done
qed

section \<open>Decompression\<close>

lemma holds_mono: "holds (Some (m, v)) l \<Longrightarrow> m \<le> n \<Longrightarrow> holds (Some (n, v)) l"
  by (auto simp: holds_Some intro: limbs_below_mono)

lemma decompress_out:
  assumes x: "holds (Some (2 ^ 51, v)) x" and y: "holds (Some (2 ^ 51, u)) y" and len: "length out = 20"
  shows "is_ext (v, u, 1, v * u)
      (let out = take 0 out @ memcpy (drop 0 out) x 5;
           out = take 5 out @ memcpy (drop 5 out) y 5;
           out = take 10 out @ Hacl_Lib_Create64_make_h64_5 (drop 10 out) 1 0 0 0 0;
           out = take 15 out @ Hacl_Bignum25519_fmul (drop 15 out) x y
       in out)"
proof -
  define Q where "Q = is_ext (v, u, 1, v * u)"
  have Q: "Q b" if "slots [Some (2 ^ 51, v), Some (2 ^ 51, u), Some (2 ^ 51, 1), red_cell (v * u)] b" for b
    using that by (auto simp: Q_def is_ext_def slots_four intro: holds_mono)
  have o0: "slots [None, None, None, None] out" using len by (simp add: slots_four holds_def)
  note step = fm_step [where Q = Q]
  show ?thesis
    unfolding Q_def [symmetric]
    by (insert x y o0,
        ((rule step, assumption)
         | rule w_copy e_mul e_one
         | rule cells | assumption | (simp (no_asm); fail))+, rule Q, assumption)
qed

lemma point_decompress_correct:
  assumes "32 \<le> length s" and "length out = 20"
  shows "ed_decompress s = None \<Longrightarrow> Hacl_Impl_Ed25519_PointDecompress_point_decompress out s = (out, False)"
    and "ed_decompress s = Some P \<Longrightarrow> \<exists>out'. Hacl_Impl_Ed25519_PointDecompress_point_decompress out s = (out', True) \<and> is_ext P out'"
proof -
  define n where "n = le_val (take 32 s)"
  define yv where "yv = int (n mod 2 ^ 255)"
  define neg where "neg = bit n 255"
  define y where "y = Hacl_Impl_Load51_load_51 (take 5 (replicate 10 0)) s"
  have "bit n 255 \<longleftrightarrow> bit (s ! 31) 7"
    using assms(1) by (simp add: n_def bit_le_val)
  then have sign: "ucast (drop_bit 7 (s ! 31)) = (of_bool neg :: u64)"
    by (simp add: top_bit_byte neg_def)
  have z5: "5 \<le> length (take 5 (replicate 10 (0 :: u64)))" "5 \<le> length (drop 5 (replicate 10 (0 :: u64)))" by simp_all
  have yl: "limbs_below (2 ^ 51) y" "int (lval y) = yv"
    using fexpand_writes [OF z5(1) assms(1)] fe_writesD(1)
    by (auto simp: y_def Hacl_Impl_Load51_load_51_def yv_def n_def)
  have t0: "slots [None, None, None, None] (replicate 20 0)"
    using slots_zero [of 4 0] by (simp add: numeral_eq_Suc)
  obtain x' tmp c where r: "Hacl_Impl_Ed25519_RecoverX_recover_x' (drop 5 (replicate 10 0)) y (of_bool neg) (replicate 20 0) = (x', tmp, c)"
    by (cases "Hacl_Impl_Ed25519_RecoverX_recover_x' (drop 5 (replicate 10 0)) y (of_bool neg) (replicate 20 0)")
  have rec: "recovered (drop 5 (replicate 10 0)) (ed_recover_x yv neg) (x', tmp, c)"
    using recover_x'_correct [OF yl z5(2) t0, of neg] by (simp only: r)
  have dec: "Hacl_Impl_Ed25519_PointDecompress_point_decompress out s = (if c = False then (out, False)
      else (let out = take 0 out @ memcpy (drop 0 out) x' 5;
                out = take 5 out @ memcpy (drop 5 out) y 5;
                out = take 10 out @ Hacl_Lib_Create64_make_h64_5 (drop 10 out) 1 0 0 0 0;
                out = take 15 out @ Hacl_Bignum25519_fmul (drop 15 out) x' y
            in out, True))"
    unfolding Hacl_Impl_Ed25519_PointDecompress_point_decompress_def Hacl_Impl_Ed25519_RecoverX_recover_x_def
      Let_def y_def [symmetric] sign r prod.case at_ptr_def ..
  have spec: "ed_decompress s = map_option (\<lambda>x. (x, yv, 1, x * yv mod p25519)) (ed_recover_x yv neg)"
    by (simp only: ed_decompress_def Let_def n_def yv_def neg_def)
  show "ed_decompress s = None \<Longrightarrow> Hacl_Impl_Ed25519_PointDecompress_point_decompress out s = (out, False)"
    using rec by (simp add: spec recovered_def dec)
  assume "ed_decompress s = Some P"
  then obtain v where v: "ed_recover_x yv neg = Some v" and P: "P = (v, yv, 1, v * yv mod p25519)"
    by (auto simp: spec)
  have c: "c" "fe_writes (2 ^ 51) v (drop 5 (replicate 10 0)) x'" using rec by (simp_all add: recovered_def v)
  have x: "holds (Some (2 ^ 51, v)) x'" by (rule fe_writes_holds [OF c(2) z5(2)])
  have y: "holds (Some (2 ^ 51, yv)) y" using yl by (simp add: holds_Some) (simp add: fval_def)
  have "is_ext P = is_ext (v, yv, 1, v * yv)"
    by (rule ext) (simp add: P is_ext_def slots_four holds_Some)
  then show "\<exists>out'. Hacl_Impl_Ed25519_PointDecompress_point_decompress out s = (out', True) \<and> is_ext P out'"
    using decompress_out [OF x y assms(2)] c(1) by (simp only: dec simp_thms if_False) blast
qed

end
