(* ===== verification/Barrett.thy ===== *)
theory Barrett
  imports Ed25519_Scalar
begin

text \<open>
  Arithmetic modulo the group order of Ed25519: Barrett reduction of ten-limb numbers, and the
  modular product and sum built on it (\<open>Hacl_Impl_BignumQ_Mul\<close>).
\<close>

section \<open>Barrett reduction\<close>

lemma barrett_quotient:
  fixes t :: nat
  assumes "t < 2 ^ 512"
  defines "u \<equiv> (t div 2 ^ 248) * (2 ^ 512 div group_order) div 2 ^ 264"
  shows "u * group_order \<le> t" and "t < u * group_order + 2 * group_order"
proof -
  define a m q where "a = t div 2 ^ 248" and "m = 2 ^ 512 div group_order" and "q = group_order"
  define r where "r = (2 ^ 512 :: nat) mod q"
  have q: "0 < q" "q < 2 ^ 253" by (simp_all add: q_def group_order_def)
  have M: "2 ^ 512 = m * q + r" by (simp add: m_def q_def r_def)
  have r: "4 * r < q" by (simp add: r_def q_def group_order_def)
  have m: "m < 2 ^ 260" by (simp add: m_def group_order_def)
  have a: "a * 2 ^ 248 \<le> t" "t < (a + 1) * 2 ^ 248" "a < 2 ^ 264"
    using assms(1) by (simp_all add: a_def less_mult_imp_div_less dividend_less_times_div [of "2 ^ 248" t])
  have u: "u * 2 ^ 264 \<le> a * m" "a * m < (u + 1) * 2 ^ 264"
    by (simp_all add: u_def a_def m_def dividend_less_times_div [of "2 ^ 264"])
  have "u * q * 2 ^ 512 = (u * 2 ^ 264) * (q * 2 ^ 248)" by simp
  also have "\<dots> \<le> (a * m) * (q * 2 ^ 248)" using u(1) by (rule mult_le_mono1)
  also have "\<dots> \<le> (a * 2 ^ 248) * 2 ^ 512" unfolding M by (simp add: algebra_simps)
  also have "\<dots> \<le> t * 2 ^ 512" using a(1) by (rule mult_le_mono1)
  finally have "u * q * 2 ^ 512 \<le> t * 2 ^ 512" .
  then show "u * group_order \<le> t" by (simp add: q_def)
  have "t * 2 ^ 264 < (a + 1) * 2 ^ 248 * 2 ^ 264" using a(2) by simp
  also have "\<dots> = (a + 1) * (m * q + r)" unfolding M [symmetric] by simp
  also have "\<dots> = a * m * q + m * q + (a + 1) * r" by (simp add: algebra_simps)
  also have "\<dots> \<le> ((u + 1) * 2 ^ 264) * q + 2 ^ 260 * q + 2 ^ 264 * r"
    using u(2) m a(3) by (intro add_mono mult_le_mono1) simp_all
  also have "\<dots> \<le> ((u + 1) * 2 ^ 264) * q + 2 ^ 264 * q" using r by simp
  also have "\<dots> = (u * q + 2 * q) * 2 ^ 264" by (simp add: algebra_simps)
  finally have "t * 2 ^ 264 < (u * q + 2 * q) * 2 ^ 264" .
  then show "t < u * group_order + 2 * group_order" by (simp add: q_def)
qed

definition mu_limbs :: "u64 list" where
  "mu_limbs = [0x9ce5a30a2c131b, 0x215d086329a7ed, 0xffffffffeb2106, 0xffffffffffffff, 0xfffffffff]"

lemma mu_limbs: "limbs56 (mu_limbs @ r)" "qval (mu_limbs @ r) = 2 ^ 512 div group_order"
  by (simp_all add: mu_limbs_def limbs56_def less_five qval_def group_order_def nth_append)

lemma limbs_length: "limbs56 r \<Longrightarrow> drop 5 r = drop 5 out \<Longrightarrow> 5 \<le> length out \<Longrightarrow> length r = length out"
proof -
  assume "limbs56 r" "drop 5 r = drop 5 out" "5 \<le> length out"
  moreover from this(2) have "length r - 5 = length out - 5" by (metis length_drop)
  ultimately show ?thesis unfolding limbs56_def by linarith
qed

lemma tval_top: "limbs10 t \<Longrightarrow> tval t < 2 ^ 504 * n \<Longrightarrow> unat (t ! 9) < n"
proof -
  assume l: "limbs10 t" and v: "tval t < 2 ^ 504 * n"
  have "2 ^ 504 * unat (t ! 9) \<le> tval t"
    using l by (simp add: limbs10_def tval_split high_part_def)
  with v show ?thesis by simp
qed

lemma carry_limbs:
  assumes "list_all wide z" and "length z = 9" and "10 \<le> length out"
  defines "r \<equiv> Hacl_Impl_BignumQ_Mul_carry out z"
  shows "limbs10 r" and "tval r = eval_nats 56 (map unat z)" and "length r = length out" and "drop 10 r = drop 10 out"
proof -
  note c = carry_correct [OF assms(1-3), folded r_def]
  have r: "r = carry_chain 0 z @ drop 10 out" unfolding r_def using assms(2,3) by (rule carry_eq)
  show l: "length r = length out" "drop 10 r = drop 10 out" using assms(2,3) c(2) by (simp_all add: r)
  show "tval r = eval_nats 56 (map unat z)"
    unfolding tval_def eval_nats_unat [symmetric] c(1) by (simp add: eval_carries)
  have "unat (r ! i) < 2 ^ 56" if "i < 9" for i
  proof -
    have "unat (r ! i) = map unat (take 10 r) ! i" using that l assms(3) by simp
    also have "\<dots> < 2 ^ 56" unfolding c(1) using that assms(2) by (intro carries_less) simp
    finally show ?thesis .
  qed
  then show "limbs10 r" using l(1) assms(3) by (simp add: limbs10_def)
qed

lemma barrett_1:
  assumes t: "limbs10 t" "tval t < 2 ^ 512" and mu: "limbs56 mu" "qval mu = 2 ^ 512 div group_order"
    and qmu: "length qmu = 9" and tmp: "length tmp = 30"
  obtains qmu' tmp' where "Hacl_Impl_BignumQ_Mul_barrett_reduction__1 qmu t mu tmp = (qmu', tmp')"
    and "length tmp' = 30" and "limbs56 (drop 20 tmp')"
    and "qval (drop 20 tmp') = (tval t div 2 ^ 248) * (2 ^ 512 div group_order) div 2 ^ 264"
proof -
  define a where "a = Hacl_Impl_BignumQ_Mul_div_248 tmp t"
  have t9: "unat (t ! 9) < 2 ^ 24" using t by (intro less_trans [OF tval_top [of t "2 ^ 8"]]) simp_all
  have "5 \<le> length tmp" using tmp by simp
  note A = div_248_correct [OF t(1) t9 this, folded a_def]
  have la: "length a = 30" using limbs_length [OF A(1,3)] tmp by simp
  define p where "p = Hacl_Impl_BignumQ_Mul_mul_5 qmu a mu"
  note P = mul_5_correct [OF A(1) mu(1) qmu, folded p_def]
  define c where "c = Hacl_Impl_BignumQ_Mul_carry (drop 10 a) p"
  have "10 \<le> length (drop 10 a)" using la by simp
  note C = carry_limbs [OF P(2) P(1) this, folded c_def]
  have "qval a < 2 ^ 264"
  proof -
    have "(2::nat) ^ 512 = 2 ^ 264 * 2 ^ 248" by simp
    then show ?thesis unfolding A(2) using t(2) by (intro less_mult_imp_div_less) (simp only:)
  qed
  moreover have "qval mu < 2 ^ 260" by (simp add: mu group_order_def)
  ultimately have "qval a * qval mu < 2 ^ 264 * 2 ^ 260" by (intro mult_strict_mono') simp_all
  then have "tval c < 2 ^ 504 * 2 ^ 20" unfolding C(2) P(3) by simp
  then have "unat (c ! 9) < 2 ^ 20" by (rule tval_top [OF C(1)])
  then have c9: "unat (c ! 9) < 2 ^ 40" by simp
  define d where "d = Hacl_Impl_BignumQ_Mul_div_264 (drop 10 c) c"
  have lc: "length c = 20" using C(3) la by simp
  then have "5 \<le> length (drop 10 c)" by simp
  note D = div_264_correct [OF C(1) c9 this, folded d_def]
  have ld: "length d = 10" using limbs_length [OF D(1,3)] lc by simp
  show ?thesis
  proof (rule that)
    show "Hacl_Impl_BignumQ_Mul_barrett_reduction__1 qmu t mu tmp = (p, take 10 a @ take 10 c @ d)"
      using la lc by (simp add: Hacl_Impl_BignumQ_Mul_barrett_reduction__1_def at_ptr_def a_def [symmetric]
        p_def [symmetric] c_def [symmetric] d_def [symmetric] add.commute)
    show "length (take 10 a @ take 10 c @ d) = 30" using la lc ld by simp
    have d: "drop 20 (take 10 a @ take 10 c @ d) = d" using la lc by simp
    show "limbs56 (drop 20 (take 10 a @ take 10 c @ d))" unfolding d by (rule D(1))
    show "qval (drop 20 (take 10 a @ take 10 c @ d)) = (tval t div 2 ^ 248) * (2 ^ 512 div group_order) div 2 ^ 264"
      unfolding d by (simp only: D(2) C(2) P(3) A(2) mu(2))
  qed
qed

lemma barrett_2:
  assumes t: "limbs10 t" and m: "limbs56 m" "qval m = group_order" and tmp: "length tmp = 30"
    and u: "limbs56 (drop 20 tmp)"
  defines "r \<equiv> Hacl_Impl_BignumQ_Mul_barrett_reduction__2 t m tmp"
  shows "limbs56 (drop 25 r)" and "length r = 30"
    and "int (qval (drop 25 r)) = (int (tval t) - int (qval (drop 20 tmp) * group_order)) mod 2 ^ 264"
proof -
  define e where "e = Hacl_Impl_BignumQ_Mul_mod_264 (drop 5 tmp) t"
  have "5 \<le> length (drop 5 tmp)" using tmp by simp
  note E = mod_264_correct [OF t(1) this, folded e_def]
  have le: "length e = 25" using limbs_length [OF E(1,3)] tmp by simp
  have e15: "drop 15 e = drop 20 tmp" using arg_cong [OF E(3), of "drop 10"] by simp
  define f where "f = Hacl_Impl_BignumQ_Mul_low_mul_5 (take 5 tmp @ e) (drop 20 tmp) m"
  have "5 \<le> length (take 5 tmp @ e)" using tmp le by simp
  note F = low_mul_5_correct [OF u m(1) this, folded f_def]
  have lf: "length f = 30" using limbs_length [OF F(1,3)] tmp le by simp
  have f5: "drop 5 f = e" using F(3) tmp by simp
  define s where "s = Hacl_Impl_BignumQ_Mul_sub_mod_264 (drop 25 f) e f"
  have "5 \<le> length (drop 25 f)" using lf by simp
  moreover have "qval e < 2 ^ 264" "qval f < 2 ^ 264" unfolding E(2) F(2) by simp_all
  ultimately have S: "limbs56 s" "int (qval s) = (int (qval e) - int (qval f)) mod 2 ^ 264" "drop 5 s = drop 5 (drop 25 f)"
    unfolding s_def using E(1) F(1) by (simp_all only: sub_mod_264_correct)
  have ls: "length s = 5" using limbs_length [OF S(1,3)] lf by simp
  have r: "r = take 25 f @ s"
    using tmp le lf by (simp add: r_def Hacl_Impl_BignumQ_Mul_barrett_reduction__2_def at_ptr_def
        e_def [symmetric] e15 f_def [symmetric] f5 s_def [symmetric])
  show "limbs56 (drop 25 r)" "length r = 30" using S(1) lf ls by (simp_all add: r)
  show "int (qval (drop 25 r)) = (int (tval t) - int (qval (drop 20 tmp) * group_order)) mod 2 ^ 264"
    using S(2) lf by (simp add: r m E(2) F(2) of_nat_mod mod_diff_eq)
qed

lemma barrett_correct:
  assumes t: "limbs10 t" "tval t < 2 ^ 512" and z: "5 \<le> length z"
  defines "r \<equiv> Hacl_Impl_BignumQ_Mul_barrett_reduction' z t"
  shows "limbs56 r" and "qval r = tval t mod group_order" and "drop 5 r = drop 5 z"
proof -
  let ?m = "q_limbs @ mu_limbs @ replicate 30 0" and ?mu = "mu_limbs @ replicate 30 (0 :: u64)"
  have m: "limbs56 ?m" "qval ?m = group_order"
    using limbs56_append [of q_limbs] q_limbs by (simp_all add: q_limbs_def)
  obtain p tmp where 1: "Hacl_Impl_BignumQ_Mul_barrett_reduction__1 (replicate 9 (uint64_to_uint128 0)) t ?mu (replicate 30 0) = (p, tmp)"
    "length tmp = 30" "limbs56 (drop 20 tmp)"
    "qval (drop 20 tmp) = (tval t div 2 ^ 248) * (2 ^ 512 div group_order) div 2 ^ 264"
    by (rule barrett_1 [OF t mu_limbs length_replicate length_replicate])
  note 2 = barrett_2 [OF t(1) m 1(2,3)]
  define s where "s = drop 25 (Hacl_Impl_BignumQ_Mul_barrett_reduction__2 t ?m tmp)"
  have make: "at_ptr 5 (\<lambda>mu1. Hacl_Impl_BignumQ_Mul_make_mu mu1) (at_ptr 0 (\<lambda>m1. Hacl_Impl_BignumQ_Mul_make_m m1) (replicate 40 0)) = ?m"
    by (simp add: at_ptr_def Hacl_Impl_BignumQ_Mul_make_m_def Hacl_Impl_BignumQ_Mul_make_mu_def
        make_h64_5_eq q_limbs_def mu_limbs_def drop_replicate)
  have "drop 5 ?m = ?mu" "drop 10 ?m = replicate 30 0" by (simp_all add: q_limbs_def mu_limbs_def)
  then have r: "r = Hacl_Impl_BignumQ_Mul_subm_conditional z s"
    unfolding r_def Hacl_Impl_BignumQ_Mul_barrett_reduction'_def Let_def make
    by (simp add: Hacl_Impl_BignumQ_Mul_barrett_reduction''_def 1(1) s_def Let_def)
  have s: "limbs56 s" using 2(1) by (simp add: s_def)
  let ?u = "qval (drop 20 tmp) * group_order"
  have u: "?u \<le> tval t" "tval t < ?u + 2 * group_order"
    unfolding 1(4) using barrett_quotient [OF t(2)] by simp_all
  have "int (qval s) = int (tval t - ?u) mod 2 ^ 264" using 2(3) u(1) by (simp add: s_def of_nat_diff)
  also have "\<dots> = int (tval t - ?u)"
  proof (rule mod_pos_pos_trivial)
    have "tval t - ?u < 2 * group_order" using u by linarith
    also have "\<dots> < 2 ^ 264" by (simp add: group_order_def)
    finally show "int (tval t - ?u) < 2 ^ 264" by simp
  qed simp
  finally have v: "qval s = tval t - ?u" by (simp only: of_nat_eq_iff)
  note c = subm_conditional_correct [OF s z, folded r]
  show "limbs56 r" "drop 5 r = drop 5 z" by (rule c)+
  have "qval r = (tval t - ?u) mod group_order"
    unfolding c(2) v using u by (simp add: mod_if [of "tval t - ?u"])
  also have "\<dots> = tval t mod group_order" using u(1) by (metis le_add_diff_inverse2 mod_mult_self1)
  finally show "qval r = tval t mod group_order" .
qed

section \<open>Multiplication and addition modulo the group order\<close>

lemma mul_modq_correct:
  assumes x: "limbs56 x" and y: "limbs56 y" and b: "qval x * qval y < 2 ^ 512" and z: "5 \<le> length out"
  defines "r \<equiv> Hacl_Impl_BignumQ_Mul_mul_modq out x y"
  shows "limbs56 r" and "qval r = qval x * qval y mod group_order" and "drop 5 r = drop 5 out"
proof -
  define p where "p = Hacl_Impl_BignumQ_Mul_mul_5 (replicate 9 (uint64_to_uint128 0)) x y"
  note P = mul_5_correct [OF x y, of "replicate 9 (uint64_to_uint128 0)", OF length_replicate, folded p_def]
  have "10 \<le> length (replicate 10 (0 :: u64))" by simp
  note C = carry_limbs [OF P(2) P(1) this]
  have "tval (Hacl_Impl_BignumQ_Mul_carry (replicate 10 0) p) < 2 ^ 512" using b by (simp only: C(2) P(3))
  note B = barrett_correct [OF C(1) this z]
  have r: "r = Hacl_Impl_BignumQ_Mul_barrett_reduction' out (Hacl_Impl_BignumQ_Mul_carry (replicate 10 0) p)"
    by (simp only: r_def Hacl_Impl_BignumQ_Mul_mul_modq_def p_def Let_def)
  show "limbs56 r" "drop 5 r = drop 5 out" "qval r = qval x * qval y mod group_order"
    unfolding r using B C(2) P(3) by simp_all
qed

text \<open>The carries of a sum of two scalars.\<close>

lemma sum_digit:
  "unat (a :: u64) < 2 ^ 56 \<Longrightarrow> unat b < 2 ^ 56 \<Longrightarrow> unat c \<le> 1 \<Longrightarrow> 
   unat (a + b + c) = unat a + unat b + unat c"
  by (simp add: unat_plus)

lemma sum_carry:
  assumes "unat (a :: u64) < 2 ^ 56" and "unat b < 2 ^ 56" and "unat c \<le> 1"
  shows "unat (drop_bit 56 (a + b + c)) \<le> 1"
    and "unat (drop_bit 56 (a + b + c)) = (unat a + unat b + unat c) div 2 ^ 56"
    and "unat ((a + b + c) AND 0xffffffffffffff) = (unat a + unat b + unat c) mod 2 ^ 56"
proof -
  have "(unat a + unat b + unat c) div 2 ^ 56 < 2" using assms by (intro less_mult_imp_div_less) simp
  then show "unat (drop_bit 56 (a + b + c)) \<le> 1" unfolding unat_shr sum_digit [OF assms] by linarith
  show "unat (drop_bit 56 (a + b + c)) = (unat a + unat b + unat c) div 2 ^ 56"
    unfolding unat_shr sum_digit [OF assms] ..
  show "unat ((a + b + c) AND 0xffffffffffffff) = (unat a + unat b + unat c) mod 2 ^ 56"
    unfolding and_mask_56 sum_digit [OF assms] ..
qed

lemma add_modq_correct:
  assumes x: "limbs56 x" and y: "limbs56 y" and b: "qval x < group_order" "qval y < group_order" and z: "5 \<le> length out"
  defines "r \<equiv> Hacl_Impl_BignumQ_Mul_add_modq' out x y"
  shows "limbs56 r" and "qval r = (qval x + qval y) mod group_order" and "drop 5 r = drop 5 out"
proof -
  have l: "unat (x ! 0) < 2 ^ 56" "unat (x ! 1) < 2 ^ 56" "unat (x ! 2) < 2 ^ 56" "unat (x ! 3) < 2 ^ 56"
    "unat (y ! 0) < 2 ^ 56" "unat (y ! 1) < 2 ^ 56" "unat (y ! 2) < 2 ^ 56" "unat (y ! 3) < 2 ^ 56"
    "unat (x ! 4) < 2 ^ 56" "unat (y ! 4) < 2 ^ 56"
    using x y by (simp_all add: limbs56_def less_five)
  define s0 where "s0 = x ! 0 + y ! 0 + 0"
  define s1 where "s1 = x ! 1 + y ! 1 + drop_bit 56 s0"
  define s2 where "s2 = x ! 2 + y ! 2 + drop_bit 56 s1"
  define s3 where "s3 = x ! 3 + y ! 3 + drop_bit 56 s2"
  define s4 where "s4 = x ! 4 + y ! 4 + drop_bit 56 s3"
  have "unat (0 :: u64) \<le> 1" by simp
  note c0 = sum_carry [OF l(1) l(5) this, folded s0_def]
  note c1 = sum_carry [OF l(2) l(6) c0(1), folded s1_def]
  note c2 = sum_carry [OF l(3) l(7) c1(1), folded s2_def]
  note c3 = sum_carry [OF l(4) l(8) c2(1), folded s3_def]
  have u4: "unat s4 = unat (x ! 4) + unat (y ! 4) + unat (drop_bit 56 s3)"
    unfolding s4_def by (rule sum_digit [OF l(9,10) c3(1)])
  let ?d = "\<lambda>z. z AND 0xffffffffffffff"
  define t where "t = [?d s0, ?d s1, ?d s2, ?d s3, s4]"
  have r: "r = Hacl_Impl_BignumQ_Mul_subm_conditional out t"
    unfolding r_def Hacl_Impl_BignumQ_Mul_add_modq'_def Let_def t_def s4_def s3_def s2_def s1_def s0_def
    by (simp only: make_h64_5_eq length_replicate order_refl add_0_right drop_replicate diff_self_eq_0
        replicate_0 append_Nil2)
  have "map unat [?d s0, ?d s1, ?d s2, ?d s3, drop_bit 56 s3]
      = carries 56 0 [unat (x ! 0) + unat (y ! 0), unat (x ! 1) + unat (y ! 1), unat (x ! 2) + unat (y ! 2),
          unat (x ! 3) + unat (y ! 3)]"
    by (simp only: list.map carries.simps c0(2,3) c1(2,3) c2(2,3) c3(2,3) unsigned_0)
  from arg_cong [OF this, of "eval_nats 56"]
  have m: "unat (?d s0) + 2 ^ 56 * (unat (?d s1) + 2 ^ 56 * (unat (?d s2) + 2 ^ 56 * (unat (?d s3) + 2 ^ 56 * unat (drop_bit 56 s3))))
      = unat (x ! 0) + unat (y ! 0) + 2 ^ 56 * (unat (x ! 1) + unat (y ! 1)
        + 2 ^ 56 * (unat (x ! 2) + unat (y ! 2) + 2 ^ 56 * (unat (x ! 3) + unat (y ! 3))))"
    by (simp only: eval_carries eval_nats.simps list.map mult_0_right add_0_right add_0)
  have "5 \<le> length x" "5 \<le> length y" using x y by (simp_all add: limbs56_def)
  then have v: "qval t = qval x + qval y"
    using m u4 by (simp add: qval_eq) (simp add: t_def qval_def)
  have "qval x + qval y < 2 ^ 254" using b by (simp add: group_order_def)
  moreover have "2 ^ 224 * unat s4 \<le> qval t" by (simp add: t_def qval_def)
  ultimately have "unat s4 < 2 ^ 56" unfolding v by simp
  then have t: "limbs56 t" unfolding t_def limbs56_def less_five by (simp add: and_mask_56)
  note c = subm_conditional_correct [OF t z, folded r]
  show "limbs56 r" "drop 5 r = drop 5 out" by (rule c)+
  show "qval r = (qval x + qval y) mod group_order"
    unfolding c(2) v using b by (simp add: mod_if)
qed

section \<open>Loading, storing and comparing\<close>

lemma load_56: "7 \<le> length z \<Longrightarrow> unat (load64_le z AND 0xffffffffffffff) = le_val (take 7 z)"
  using le_val_take_append [of 7 z 1] le_val_take_less [of 7 z] by (simp add: and_mask_56 unat_load64_le)

lemma le_val_chunk:
  "7 \<le> length z \<Longrightarrow> le_val (take (n + 7) z) = le_val (take 7 z) + 2 ^ 56 * le_val (take n (drop 7 z))"
  using le_val_take_append [of 7 z n] by (simp add: add.commute)

lemma le_val_7: "le_val (take 7 z) < 2 ^ 56"
  using le_val_take_less [of 7 z] by simp

lemma load_64_bytes_correct:
  assumes b: "64 \<le> length b" and out: "10 \<le> length out"
  defines "r \<equiv> Hacl_Impl_Load56_load_64_bytes out b"
  shows "limbs10 r" and "tval r = le_val (take 64 b)" and "length r = length out"
proof -
  let ?l = "\<lambda>n. load64_le (drop n b) AND 0xffffffffffffff"
  have r: "r = [load64_le b AND 0xffffffffffffff, ?l 7, ?l 14, ?l 21, ?l 28, ?l 35, ?l 42, ?l 49, ?l 56, ucast (b ! 63)] @ drop 10 out"
    unfolding r_def Hacl_Impl_Load56_load_64_bytes_def Let_def using out by (rule make_h64_10_eq)
  show "length r = length out" using out by (simp add: r)
  have v: "unat (?l n) = le_val (take 7 (drop n b))" if "n + 7 \<le> 64" for n
    using that b by (intro load_56) simp
  have v0: "unat (load64_le b AND 0xffffffffffffff) = le_val (take 7 b)" using b by (intro load_56) simp
  have "take 1 (drop 63 b) = [b ! 63]" using b by (simp add: take_Suc_conv_app_nth)
  then have last: "unat (ucast (b ! 63) :: u64) = le_val (take 1 (drop 63 b))" by (simp add: unat_ucast_same_or_up)
  have "le_val (take 64 b) = le_val (take 7 b) + 2 ^ 56 * (le_val (take 7 (drop 7 b)) + 2 ^ 56 * (le_val (take 7 (drop 14 b))
      + 2 ^ 56 * (le_val (take 7 (drop 21 b)) + 2 ^ 56 * (le_val (take 7 (drop 28 b)) + 2 ^ 56 * (le_val (take 7 (drop 35 b))
      + 2 ^ 56 * (le_val (take 7 (drop 42 b)) + 2 ^ 56 * (le_val (take 7 (drop 49 b)) + 2 ^ 56 * (le_val (take 7 (drop 56 b))
      + 2 ^ 56 * le_val (take 1 (drop 63 b))))))))))"
    using b le_val_chunk [of b 57] le_val_chunk [of "drop 7 b" 50] le_val_chunk [of "drop 14 b" 43]
      le_val_chunk [of "drop 21 b" 36] le_val_chunk [of "drop 28 b" 29] le_val_chunk [of "drop 35 b" 22]
      le_val_chunk [of "drop 42 b" 15] le_val_chunk [of "drop 49 b" 8] le_val_chunk [of "drop 56 b" 1]
    by simp
  then show "tval r = le_val (take 64 b)" by (simp add: r tval_def v v0 last)
  have "\<forall>w \<in> set (take 9 r). unat w < 2 ^ 56"
    unfolding r using le_val_7 by (simp add: v v0)
  moreover have "r ! i \<in> set (take 9 r)" if "i < 9" for i
    using nth_mem [of i "take 9 r"] that \<open>length r = length out\<close> out by simp
  ultimately show "limbs10 r" using \<open>length r = length out\<close> out by (simp add: limbs10_def)
qed

lemma load_32_bytes_correct:
  assumes b: "32 \<le> length b" and out: "5 \<le> length out"
  defines "r \<equiv> Hacl_Impl_Load56_load_32_bytes out b"
  shows "limbs56 r" and "qval r = le_val (take 32 b)" and "drop 5 r = drop 5 out"
proof -
  let ?l = "\<lambda>n. load64_le (drop n b) AND 0xffffffffffffff"
  have r: "r = [load64_le b AND 0xffffffffffffff, ?l 7, ?l 14, ?l 21, ucast (load32_le (drop 28 b))] @ drop 5 out"
    unfolding r_def Hacl_Impl_Load56_load_32_bytes_def Let_def using out by (rule make_h64_5_eq)
  show "drop 5 r = drop 5 out" by (simp add: r)
  have v: "unat (?l n) = le_val (take 7 (drop n b))" if "n + 7 \<le> 32" for n
    using that b by (intro load_56) simp
  have v0: "unat (load64_le b AND 0xffffffffffffff) = le_val (take 7 b)" using b by (intro load_56) simp
  have last: "unat (ucast (load32_le (drop 28 b)) :: u64) = le_val (take 4 (drop 28 b))"
    by (simp add: unat_ucast_same_or_up unat_load32_le)
  have "le_val (take 32 b) = le_val (take 7 b) + 2 ^ 56 * (le_val (take 7 (drop 7 b)) + 2 ^ 56 * (le_val (take 7 (drop 14 b))
      + 2 ^ 56 * (le_val (take 7 (drop 21 b)) + 2 ^ 56 * le_val (take 4 (drop 28 b)))))"
    using b le_val_chunk [of b 25] le_val_chunk [of "drop 7 b" 18] le_val_chunk [of "drop 14 b" 11]
      le_val_chunk [of "drop 21 b" 4]
    by simp
  then show "qval r = le_val (take 32 b)" by (simp add: r qval_def v v0 last)
  have "le_val (take 4 (drop 28 b)) < 2 ^ 56" using le_val_take_less [of 4 "drop 28 b"] by simp
  then show "limbs56 r" using le_val_7 by (simp add: limbs56_def less_five r v v0 last)
qed

text \<open>Each store overwrites the zero byte that the one before it left.\<close>

lemma store_56:
  assumes "unat x < 2 ^ 56" and "8 \<le> length b"
  shows "store64_le b x = le_bytes 7 (unat x) @ 0 # drop 8 b"
proof -
  have "le_bytes (7 + 1) (unat x) = le_bytes 7 (unat x) @ le_bytes 1 (unat x div 256 ^ 7)"
    by (rule le_bytes_append)
  with assms show ?thesis by (simp add: store64_le_def)
qed

lemma le_bytes_chunk: "a < 2 ^ 56 \<Longrightarrow> le_bytes (7 + n) (a + 2 ^ 56 * v) = le_bytes 7 a @ le_bytes n v"
  using le_bytes_mod [of 7 "a + 2 ^ 56 * v"] by (simp add: le_bytes_append)

lemma store_56_correct:
  assumes x: "limbs56 x" and v: "qval x < 2 ^ 256" and out: "32 \<le> length out"
  shows "Hacl_Impl_Store56_store_56 out x = le_bytes 32 (qval x) @ drop 32 out"
proof -
  have l: "unat (x ! 0) < 2 ^ 56" "unat (x ! 1) < 2 ^ 56" "unat (x ! 2) < 2 ^ 56" "unat (x ! 3) < 2 ^ 56" "5 \<le> length x"
    using x by (simp_all add: limbs56_def less_five)
  have x4: "unat (x ! 4) < 2 ^ 32" using v unfolding qval_eq [OF l(5)] by simp
  have "le_bytes (7 + (7 + (7 + (7 + 4)))) (qval x)
      = le_bytes 7 (unat (x ! 0)) @ le_bytes 7 (unat (x ! 1)) @ le_bytes 7 (unat (x ! 2)) @ le_bytes 7 (unat (x ! 3))
        @ le_bytes 4 (unat (x ! 4))"
    unfolding qval_eq [OF l(5)] by (simp only: le_bytes_chunk l(1,2,3,4))
  moreover have "Hacl_Impl_Store56_store_56 out x
      = le_bytes 7 (unat (x ! 0)) @ le_bytes 7 (unat (x ! 1)) @ le_bytes 7 (unat (x ! 2)) @ le_bytes 7 (unat (x ! 3))
        @ le_bytes 4 (unat (x ! 4)) @ drop 32 out"
    using l x4 out by (simp add: Hacl_Impl_Store56_store_56_def Let_def store_56 at_ptr_def store32_le_def unat_ucast_down)
  ultimately show ?thesis by simp
qed

lemma gte_q_correct:
  assumes "limbs56 s"
  shows "Hacl_Impl_Ed25519_PointEqual_gte_q s \<longleftrightarrow> group_order \<le> qval s"
proof -
  have l: "unat (s ! 0) < 2 ^ 56" "unat (s ! 1) < 2 ^ 56" "unat (s ! 2) < 2 ^ 56" "unat (s ! 3) < 2 ^ 56" "5 \<le> length s"
    using assms by (simp_all add: limbs56_def less_five)
  show ?thesis
    using l by (auto simp: Hacl_Impl_Ed25519_PointEqual_gte_q_def Let_def qval_eq group_order_def word_less_nat_alt word_le_nat_alt)
qed

section \<open>Properties\<close>

text \<open>
  A hash of 64 bytes is reduced modulo the group order: loading its ten limbs, Barrett
  reduction and storing give the 32 bytes of the remainder, for every hash value.
\<close>

theorem scalar_reduce:
  assumes "64 \<le> length b" and "10 \<le> length t" and "5 \<le> length z" and "32 \<le> length out"
  shows "Hacl_Impl_Store56_store_56 out
           (Hacl_Impl_BignumQ_Mul_barrett_reduction z (Hacl_Impl_Load56_load_64_bytes t b))
         = le_bytes 32 (le_val (take 64 b) mod group_order) @ drop 32 out"
proof -
  note L = load_64_bytes_correct [OF assms(1,2)]
  have "tval (Hacl_Impl_Load56_load_64_bytes t b) < 2 ^ 512"
    using le_val_take_less [of 64 b] by (simp add: L(2))
  note B = barrett_correct [OF L(1) this assms(3)]
  have "le_val (take 64 b) mod group_order < group_order" by (simp add: group_order_def)
  then have "le_val (take 64 b) mod group_order < 2 ^ 256" by (rule less_trans) (simp add: group_order_def)
  then show ?thesis
    using store_56_correct [OF B(1) _ assms(4)] B(2) L(2)
    by (simp add: Hacl_Impl_BignumQ_Mul_barrett_reduction_def)
qed

theorem scalar_reduce_witness:
  "Hacl_Impl_Store56_store_56 (replicate 32 0)
     (Hacl_Impl_BignumQ_Mul_barrett_reduction (replicate 5 0)
       (Hacl_Impl_Load56_load_64_bytes (replicate 10 0) (replicate 64 255)))
   = le_bytes 32 (le_val (replicate 64 255) mod group_order)"
  using scalar_reduce [of "replicate 64 255" "replicate 10 0" "replicate 5 0" "replicate 32 0"] by simp

text \<open>
  The scalar part of a signature: the modular product of two scalars below 2^256 and the
  modular sum with a third below the group order give the number \<open>(r + h * a) mod q\<close>.
\<close>

theorem scalar_multiply_add:
  assumes "limbs56 h" and "limbs56 a" and "limbs56 r"
    and "qval h < 2 ^ 256" and "qval a < 2 ^ 256" and "qval r < group_order"
    and "5 \<le> length t" and "5 \<le> length z"
  shows "qval (Hacl_Impl_BignumQ_Mul_add_modq z r (Hacl_Impl_BignumQ_Mul_mul_modq t h a))
         = (qval r + qval h * qval a) mod group_order"
proof -
  have "qval h * qval a < 2 ^ 256 * 2 ^ 256" using assms(4,5) by (intro mult_strict_mono') simp_all
  then have "qval h * qval a < 2 ^ 512" by simp
  note M = mul_modq_correct [OF assms(1,2) this assms(7)]
  have "qval (Hacl_Impl_BignumQ_Mul_mul_modq t h a) < group_order" by (simp add: M(2) group_order_def)
  note A = add_modq_correct [OF assms(3) M(1) assms(6) this assms(8)]
  show ?thesis by (simp add: Hacl_Impl_BignumQ_Mul_add_modq_def A(2) M(2) mod_add_right_eq)
qed

theorem scalar_multiply_add_witness:
  "qval (Hacl_Impl_BignumQ_Mul_add_modq (replicate 5 0) [3, 0, 0, 0, 0]
           (Hacl_Impl_BignumQ_Mul_mul_modq (replicate 5 0) [5, 0, 0, 0, 0] [7, 0, 0, 0, 0x10000000]))
   = (3 + 5 * (7 + 2 ^ 252)) mod group_order"
  using scalar_multiply_add [of "[5, 0, 0, 0, 0]" "[7, 0, 0, 0, 0x10000000]" "[3, 0, 0, 0, 0]" "replicate 5 0" "replicate 5 0"]
  by (simp add: limbs56_def less_five qval_def group_order_def)

text \<open>
  The range check of a signature compares its second half, read as a little-endian number,
  with the group order.
\<close>

theorem scalar_range_check:
  assumes "32 \<le> length b" and "5 \<le> length t"
  shows "Hacl_Impl_Ed25519_PointEqual_gte_q (Hacl_Impl_Load56_load_32_bytes t b)
         \<longleftrightarrow> group_order \<le> le_val (take 32 b)"
  using load_32_bytes_correct [OF assms] by (simp add: gte_q_correct)

theorem scalar_range_check_witness:
  "Hacl_Impl_Ed25519_PointEqual_gte_q (Hacl_Impl_Load56_load_32_bytes (replicate 5 0) (replicate 32 255))
   \<longleftrightarrow> group_order \<le> le_val (replicate 32 255)"
  using scalar_range_check [of "replicate 32 255" "replicate 5 0"] by simp

end
