(* ===== verification/Ed25519_Hash.thy ===== *)
theory Ed25519_Hash
  imports Sha2_512 Barrett
begin

text \<open>
  The hashes of \<open>Hacl_Ed25519.c\<close>: SHA-512 of a prefix of 32 or 64 bytes followed by the message,
  without copying the message (\<open>Hacl_Impl_SHA512_Ed25519\<close>), and the same reduced modulo the group
  order (\<open>Hacl_Impl_SHA512_ModQ\<close>).  The SHA-512 code of the file is the one of \<open>Hacl_SHA2_512.c\<close>.
\<close>

section \<open>SHA-512 with a prefix\<close>

definition Hacl_Impl_SHA512_Ed25519_2_hash_block_and_rest :: "bytes \<Rightarrow> bytes \<Rightarrow> bytes \<Rightarrow> u32 \<Rightarrow> bytes" where
  "Hacl_Impl_SHA512_Ed25519_2_hash_block_and_rest out block msg len1 =
     (let nblocks = drop_bit 7 len1;
          rest = ucast (len1 AND 127);
          st = replicate 169 0;
          st = Hacl_Impl_SHA2_512_init st;
          st = Hacl_Impl_SHA2_512_update st block;
          st = Hacl_Impl_SHA2_512_update_multi st msg nblocks;
          st = Hacl_Impl_SHA2_512_update_last st (drop (unat (128 * nblocks)) msg) rest
      in Hacl_Impl_SHA2_512_finish st out)"

definition Hacl_Impl_SHA512_Ed25519_1_copy_bytes :: "bytes \<Rightarrow> bytes \<Rightarrow> u32 \<Rightarrow> bytes" where
  "Hacl_Impl_SHA512_Ed25519_1_copy_bytes output input len1 = memcpy output input (unat len1)"

definition Hacl_Impl_SHA512_Ed25519_1_concat_2 :: "bytes \<Rightarrow> bytes \<Rightarrow> bytes \<Rightarrow> u32 \<Rightarrow> bytes" where
  "Hacl_Impl_SHA512_Ed25519_1_concat_2 out pre msg len1 =
     (let out = Hacl_Impl_SHA512_Ed25519_1_copy_bytes out pre 32
      in at_ptr 32 (\<lambda>p. Hacl_Impl_SHA512_Ed25519_1_copy_bytes p msg len1) out)"

definition Hacl_Impl_SHA512_Ed25519_1_concat_3 :: "bytes \<Rightarrow> bytes \<Rightarrow> bytes \<Rightarrow> bytes \<Rightarrow> u32 \<Rightarrow> bytes" where
  "Hacl_Impl_SHA512_Ed25519_1_concat_3 out pre pre2 msg len1 =
     (let out = Hacl_Impl_SHA512_Ed25519_1_copy_bytes out pre 32;
          out = at_ptr 32 (\<lambda>p. Hacl_Impl_SHA512_Ed25519_1_copy_bytes p pre2 32) out
      in at_ptr 64 (\<lambda>p. Hacl_Impl_SHA512_Ed25519_1_copy_bytes p msg len1) out)"

definition Hacl_Impl_SHA512_Ed25519_1_sha512_pre_msg_1 :: "bytes \<Rightarrow> bytes \<Rightarrow> bytes \<Rightarrow> u32 \<Rightarrow> bytes" where
  "Hacl_Impl_SHA512_Ed25519_1_sha512_pre_msg_1 h prefix input len1 =
     (let block = replicate 128 0;
          block = Hacl_Impl_SHA512_Ed25519_1_concat_2 block prefix input len1
      in Hacl_Impl_SHA2_512_hash h block (len1 + 32))"

definition Hacl_Impl_SHA512_Ed25519_1_sha512_pre_pre2_msg_1 ::
    "bytes \<Rightarrow> bytes \<Rightarrow> bytes \<Rightarrow> bytes \<Rightarrow> u32 \<Rightarrow> bytes" where
  "Hacl_Impl_SHA512_Ed25519_1_sha512_pre_pre2_msg_1 h prefix prefix2 input len1 =
     (let block = replicate 128 0;
          block = Hacl_Impl_SHA512_Ed25519_1_concat_3 block prefix prefix2 input len1
      in Hacl_Impl_SHA2_512_hash h block (len1 + 64))"

definition Hacl_Impl_SHA512_Ed25519_3_sha512_pre_msg_2 :: "bytes \<Rightarrow> bytes \<Rightarrow> bytes \<Rightarrow> u32 \<Rightarrow> bytes" where
  "Hacl_Impl_SHA512_Ed25519_3_sha512_pre_msg_2 h prefix input len1 =
     (let input11 = input;
          input21 = drop 96 input;
          block = replicate 128 0;
          block = Hacl_Impl_SHA512_Ed25519_1_concat_2 block prefix input11 96
      in Hacl_Impl_SHA512_Ed25519_2_hash_block_and_rest h block input21 (len1 - 96))"

definition Hacl_Impl_SHA512_Ed25519_3_sha512_pre_msg :: "bytes \<Rightarrow> bytes \<Rightarrow> bytes \<Rightarrow> u32 \<Rightarrow> bytes" where
  "Hacl_Impl_SHA512_Ed25519_3_sha512_pre_msg h prefix input len1 =
     (if len1 \<le> 96 then Hacl_Impl_SHA512_Ed25519_1_sha512_pre_msg_1 h prefix input len1
      else Hacl_Impl_SHA512_Ed25519_3_sha512_pre_msg_2 h prefix input len1)"

definition Hacl_Impl_SHA512_Ed25519_3_sha512_pre_pre2_msg_2 ::
    "bytes \<Rightarrow> bytes \<Rightarrow> bytes \<Rightarrow> bytes \<Rightarrow> u32 \<Rightarrow> bytes" where
  "Hacl_Impl_SHA512_Ed25519_3_sha512_pre_pre2_msg_2 h prefix prefix2 input len1 =
     (let input11 = input;
          input21 = drop 64 input;
          block = replicate 128 0;
          block = Hacl_Impl_SHA512_Ed25519_1_concat_3 block prefix prefix2 input11 64
      in Hacl_Impl_SHA512_Ed25519_2_hash_block_and_rest h block input21 (len1 - 64))"

definition Hacl_Impl_SHA512_Ed25519_3_sha512_pre_pre2_msg ::
    "bytes \<Rightarrow> bytes \<Rightarrow> bytes \<Rightarrow> bytes \<Rightarrow> u32 \<Rightarrow> bytes" where
  "Hacl_Impl_SHA512_Ed25519_3_sha512_pre_pre2_msg h prefix prefix2 input len1 =
     (if len1 \<le> 64 then Hacl_Impl_SHA512_Ed25519_1_sha512_pre_pre2_msg_1 h prefix prefix2 input len1
      else Hacl_Impl_SHA512_Ed25519_3_sha512_pre_pre2_msg_2 h prefix prefix2 input len1)"

definition Hacl_Impl_SHA512_Ed25519_sha512_pre_msg :: "bytes \<Rightarrow> bytes \<Rightarrow> bytes \<Rightarrow> u32 \<Rightarrow> bytes" where
  "Hacl_Impl_SHA512_Ed25519_sha512_pre_msg h prefix input len1 =
     Hacl_Impl_SHA512_Ed25519_3_sha512_pre_msg h prefix input len1"

definition Hacl_Impl_SHA512_Ed25519_sha512_pre_pre2_msg ::
    "bytes \<Rightarrow> bytes \<Rightarrow> bytes \<Rightarrow> bytes \<Rightarrow> u32 \<Rightarrow> bytes" where
  "Hacl_Impl_SHA512_Ed25519_sha512_pre_pre2_msg h prefix prefix2 input len1 =
     Hacl_Impl_SHA512_Ed25519_3_sha512_pre_pre2_msg h prefix prefix2 input len1"

definition Hacl_Impl_Sha512_sha512_pre_msg :: "bytes \<Rightarrow> bytes \<Rightarrow> bytes \<Rightarrow> u32 \<Rightarrow> bytes" where
  "Hacl_Impl_Sha512_sha512_pre_msg h prefix input len1 =
     Hacl_Impl_SHA512_Ed25519_sha512_pre_msg h prefix input len1"

definition Hacl_Impl_Sha512_sha512_pre_pre2_msg :: "bytes \<Rightarrow> bytes \<Rightarrow> bytes \<Rightarrow> bytes \<Rightarrow> u32 \<Rightarrow> bytes" where
  "Hacl_Impl_Sha512_sha512_pre_pre2_msg h prefix prefix2 input len1 =
     Hacl_Impl_SHA512_Ed25519_sha512_pre_pre2_msg h prefix prefix2 input len1"

section \<open>The hash as a scalar\<close>

definition Hacl_Impl_SHA512_ModQ_sha512_modq_pre' ::
    "u64 list \<Rightarrow> bytes \<Rightarrow> bytes \<Rightarrow> u32 \<Rightarrow> u64 list \<Rightarrow> u64 list \<times> u64 list" where
  "Hacl_Impl_SHA512_ModQ_sha512_modq_pre' out prefix input len1 tmp =
     (let hash1 = replicate 64 0;
          hash1 = Hacl_Impl_Sha512_sha512_pre_msg hash1 prefix input len1;
          tmp = Hacl_Impl_Load56_load_64_bytes tmp hash1
      in (Hacl_Impl_BignumQ_Mul_barrett_reduction out tmp, tmp))"

definition Hacl_Impl_SHA512_ModQ_sha512_modq_pre :: "u64 list \<Rightarrow> bytes \<Rightarrow> bytes \<Rightarrow> u32 \<Rightarrow> u64 list" where
  "Hacl_Impl_SHA512_ModQ_sha512_modq_pre out prefix input len1 =
     (let tmp = replicate 10 0 in fst (Hacl_Impl_SHA512_ModQ_sha512_modq_pre' out prefix input len1 tmp))"

definition Hacl_Impl_SHA512_ModQ_sha512_modq_pre_pre2' ::
    "u64 list \<Rightarrow> bytes \<Rightarrow> bytes \<Rightarrow> bytes \<Rightarrow> u32 \<Rightarrow> u64 list \<Rightarrow> u64 list \<times> u64 list" where
  "Hacl_Impl_SHA512_ModQ_sha512_modq_pre_pre2' out prefix prefix2 input len1 tmp =
     (let hash1 = replicate 64 0;
          hash1 = Hacl_Impl_Sha512_sha512_pre_pre2_msg hash1 prefix prefix2 input len1;
          tmp = Hacl_Impl_Load56_load_64_bytes tmp hash1
      in (Hacl_Impl_BignumQ_Mul_barrett_reduction out tmp, tmp))"

definition Hacl_Impl_SHA512_ModQ_sha512_modq_pre_pre2 ::
    "u64 list \<Rightarrow> bytes \<Rightarrow> bytes \<Rightarrow> bytes \<Rightarrow> u32 \<Rightarrow> u64 list" where
  "Hacl_Impl_SHA512_ModQ_sha512_modq_pre_pre2 out prefix prefix2 input len1 =
     (let tmp = replicate 10 0
      in fst (Hacl_Impl_SHA512_ModQ_sha512_modq_pre_pre2' out prefix prefix2 input len1 tmp))"

section \<open>They hash the concatenation\<close>

text \<open>The 128 bytes of the first block, then the rest of the message.\<close>

lemma hash_block_and_rest_eq:
  assumes "length block = 128" and "unat len \<le> length msg" and "64 \<le> length out"
  shows "Hacl_Impl_SHA512_Ed25519_2_hash_block_and_rest out block msg len
         = sha512_spec (block @ take (unat len) msg) @ drop 64 out"
proof -
  define n r where "n = unat len div 128" and "r = unat len mod 128"
  have nr: "unat len = 128 * n + r" "r < 128" by (simp_all add: n_def r_def)
  have un: "unat (drop_bit 7 len) = n" by (simp add: unat_shr n_def)
  have "unat (len AND 127) = r" using unat_and_mask [of len 7] by (simp add: mask_eq_exp_minus_1 r_def)
  then have ur: "unat (ucast (len AND 127) :: u64) = r" by (simp add: unat_ucast_same_or_up)
  have bound: "128 * n < 2 ^ 32" using unat_bound [of len] nr by simp
  have off: "unat (128 * drop_bit 7 len) = 128 * n" using bound un by (subst unat_times) simp_all
  let ?i = "Hacl_Impl_SHA2_512_init (replicate 169 0)"
  let ?u = "Hacl_Impl_SHA2_512_update ?i block"
  let ?s = "Hacl_Impl_SHA2_512_update_multi ?u msg (drop_bit 7 len)"
  have i: "sha512_ok ?i" "sha512_chain ?i = sha512_h0" "sha512_blocks ?i = 0"
    by (rule sha512_init_ok; simp)+
  note u = sha512_update_step [OF i(1), of block]
  have s: "sha512_ok ?s" "sha512_chain ?s = md_fold sha512_block 128 n (sha512_block sha512_h0 (take 128 block)) msg"
    "sha512_blocks ?s = Suc n"
    using sha512_multi [OF u(1), of "drop_bit 7 len" msg] u(2,3) i bound assms(1,2) nr un by simp_all
  have "md_fold sha512_block 128 (Suc n) sha512_h0 (block @ take (128 * n) msg)
      = md_fold sha512_block 128 n (sha512_block sha512_h0 block) (take (128 * n) msg)"
    using assms(1) by simp
  also have "\<dots> = sha512_chain ?s" using assms(1) by (simp add: s(2) md_fold_take)
  finally have c: "sha512_chain ?s = md_fold sha512_block 128 (Suc n) sha512_h0 (block @ take (128 * n) msg)" ..
  have "Hacl_Impl_SHA512_Ed25519_2_hash_block_and_rest out block msg len
      = Hacl_Impl_SHA2_512_finish (Hacl_Impl_SHA2_512_update_last ?s (drop (128 * n) msg) (ucast (len AND 127))) out"
    by (simp only: Hacl_Impl_SHA512_Ed25519_2_hash_block_and_rest_def Let_def off)
  also have "\<dots> = sha512_spec ((block @ take (128 * n) msg) @ take r (drop (128 * n) msg)) @ drop 64 out"
    using sha512_last [OF s(1) c _ s(3), of "ucast (len AND 127)" "drop (128 * n) msg" out] bound nr assms ur by simp
  also have "(block @ take (128 * n) msg) @ take r (drop (128 * n) msg) = block @ take (unat len) msg"
    by (simp only: nr(1) take_add append_assoc)
  finally show ?thesis .
qed

lemma concat_2_eq:
  assumes "32 \<le> length pre" and "unat len \<le> length msg" and "unat len \<le> 96"
  shows "Hacl_Impl_SHA512_Ed25519_1_concat_2 (replicate 128 0) pre msg len
         = take 32 pre @ take (unat len) msg @ replicate (96 - unat len) 0"
  using assms by (simp add: Hacl_Impl_SHA512_Ed25519_1_concat_2_def Hacl_Impl_SHA512_Ed25519_1_copy_bytes_def
      memcpy_def at_ptr_def)

lemma concat_3_eq:
  assumes "32 \<le> length pre" and "32 \<le> length pre2" and "unat len \<le> length msg" and "unat len \<le> 64"
  shows "Hacl_Impl_SHA512_Ed25519_1_concat_3 (replicate 128 0) pre pre2 msg len
         = take 32 pre @ take 32 pre2 @ take (unat len) msg @ replicate (64 - unat len) 0"
  using assms by (simp add: Hacl_Impl_SHA512_Ed25519_1_concat_3_def Hacl_Impl_SHA512_Ed25519_1_copy_bytes_def
      memcpy_def at_ptr_def)

lemma sha512_hash_impl_eq:
  "unat len \<le> length m \<Longrightarrow> 64 \<le> length out \<Longrightarrow>
   Hacl_Impl_SHA2_512_hash out m len = sha512_spec (take (unat len) m) @ drop 64 out"
  using sha512_hash_eq by (simp add: Hacl_SHA2_512_hash_def)

lemma sha512_pre_msg_eq:
  assumes "32 \<le> length pre" and "unat len \<le> length msg" and "64 \<le> length h"
  shows "Hacl_Impl_Sha512_sha512_pre_msg h pre msg len
         = sha512_spec (take 32 pre @ take (unat len) msg) @ drop 64 h"
proof (cases "len \<le> 96")
  case True
  then have l: "unat len \<le> 96" by (simp add: word_le_nat_alt)
  then have "unat (len + 32) = unat len + 32" by (subst unat_plus) simp_all
  with True l assms show ?thesis
    by (simp add: Hacl_Impl_Sha512_sha512_pre_msg_def Hacl_Impl_SHA512_Ed25519_sha512_pre_msg_def
        Hacl_Impl_SHA512_Ed25519_3_sha512_pre_msg_def Hacl_Impl_SHA512_Ed25519_1_sha512_pre_msg_1_def
        concat_2_eq sha512_hash_impl_eq)
next
  case False
  then have l: "96 \<le> unat len" by (simp add: word_le_nat_alt)
  then have u: "unat (len - 96) = unat len - 96" by (subst unat_minus) simp_all
  have "take (unat len) msg = take 96 msg @ take (unat len - 96) (drop 96 msg)"
    using take_add [of 96 "unat len - 96" msg] l by simp
  with False l assms u show ?thesis
    by (simp add: Hacl_Impl_Sha512_sha512_pre_msg_def Hacl_Impl_SHA512_Ed25519_sha512_pre_msg_def
        Hacl_Impl_SHA512_Ed25519_3_sha512_pre_msg_def Hacl_Impl_SHA512_Ed25519_3_sha512_pre_msg_2_def
        concat_2_eq hash_block_and_rest_eq)
qed

lemma sha512_pre_pre2_msg_eq:
  assumes "32 \<le> length pre" and "32 \<le> length pre2" and "unat len \<le> length msg" and "64 \<le> length h"
  shows "Hacl_Impl_Sha512_sha512_pre_pre2_msg h pre pre2 msg len
         = sha512_spec (take 32 pre @ take 32 pre2 @ take (unat len) msg) @ drop 64 h"
proof (cases "len \<le> 64")
  case True
  then have l: "unat len \<le> 64" by (simp add: word_le_nat_alt)
  then have "unat (len + 64) = unat len + 64" by (subst unat_plus) simp_all
  with True l assms show ?thesis
    by (simp add: Hacl_Impl_Sha512_sha512_pre_pre2_msg_def Hacl_Impl_SHA512_Ed25519_sha512_pre_pre2_msg_def
        Hacl_Impl_SHA512_Ed25519_3_sha512_pre_pre2_msg_def Hacl_Impl_SHA512_Ed25519_1_sha512_pre_pre2_msg_1_def
        concat_3_eq sha512_hash_impl_eq)
next
  case False
  then have l: "64 \<le> unat len" by (simp add: word_le_nat_alt)
  then have u: "unat (len - 64) = unat len - 64" by (subst unat_minus) simp_all
  have "take (unat len) msg = take 64 msg @ take (unat len - 64) (drop 64 msg)"
    using take_add [of 64 "unat len - 64" msg] l by simp
  with False l assms u show ?thesis
    by (simp add: Hacl_Impl_Sha512_sha512_pre_pre2_msg_def Hacl_Impl_SHA512_Ed25519_sha512_pre_pre2_msg_def
        Hacl_Impl_SHA512_Ed25519_3_sha512_pre_pre2_msg_def Hacl_Impl_SHA512_Ed25519_3_sha512_pre_pre2_msg_2_def
        concat_3_eq hash_block_and_rest_eq)
qed

section \<open>The reduced hash\<close>

lemma length_sha512_spec [simp]: "length (sha512_spec m) = 64"
proof -
  have "length (md_fold sha512_block 128 n h m) = 8" if "length h = 8" for n h m
    using that by (induction n arbitrary: h m) (simp_all add: sha512_block_def)
  then show ?thesis by (simp add: sha512_spec_def md_hash_def sha512_h0_def)
qed

abbreviation "is_scalar n x \<equiv> limbs56 x \<and> qval x = n mod group_order"

lemma hash_mod_q:
  assumes h: "length h = 64" and out: "5 \<le> length out"
  defines "r \<equiv> Hacl_Impl_BignumQ_Mul_barrett_reduction out (Hacl_Impl_Load56_load_64_bytes (replicate 10 0) h)"
  shows "is_scalar (le_val h) r" and "drop 5 r = drop 5 out"
proof -
  let ?t = "Hacl_Impl_Load56_load_64_bytes (replicate 10 0) h"
  note L = load_64_bytes_correct [of h "replicate 10 0", unfolded h length_replicate, OF le_refl le_refl]
  have v: "tval ?t = le_val h" using h by (simp add: L(2))
  have "tval ?t < 2 ^ 512" using le_val_take_less [of 64 h] by (simp add: L(2))
  note B = barrett_correct [OF L(1) this out]
  show "is_scalar (le_val h) r" and "drop 5 r = drop 5 out"
    unfolding r_def Hacl_Impl_BignumQ_Mul_barrett_reduction_def using B v by simp_all
qed

lemma sha512_modq_pre_correct:
  assumes "32 \<le> length pre" and "unat len \<le> length msg" and "5 \<le> length out"
  defines "r \<equiv> Hacl_Impl_SHA512_ModQ_sha512_modq_pre out pre msg len"
  shows "is_scalar (le_val (sha512_spec (take 32 pre @ take (unat len) msg))) r" and "drop 5 r = drop 5 out"
  unfolding r_def Hacl_Impl_SHA512_ModQ_sha512_modq_pre_def Hacl_Impl_SHA512_ModQ_sha512_modq_pre'_def Let_def fst_conv
  using hash_mod_q [OF length_sha512_spec assms(3)] sha512_pre_msg_eq [OF assms(1,2), of "replicate 64 0"]
  by simp_all

lemma sha512_modq_pre_pre2_correct:
  assumes "32 \<le> length pre" and "32 \<le> length pre2" and "unat len \<le> length msg" and "5 \<le> length out"
  defines "r \<equiv> Hacl_Impl_SHA512_ModQ_sha512_modq_pre_pre2 out pre pre2 msg len"
  shows "is_scalar (le_val (sha512_spec (take 32 pre @ take 32 pre2 @ take (unat len) msg))) r"
    and "drop 5 r = drop 5 out"
  unfolding r_def Hacl_Impl_SHA512_ModQ_sha512_modq_pre_pre2_def Hacl_Impl_SHA512_ModQ_sha512_modq_pre_pre2'_def
    Let_def fst_conv
  using hash_mod_q [OF length_sha512_spec assms(4)] sha512_pre_pre2_msg_eq [OF assms(1-3), of "replicate 64 0"]
  by simp_all

end
