(* ===== verification/Ed25519.thy ===== *)
theory Ed25519
  imports Ed25519_Recover Ed25519_Curve Ed25519_Hash
begin

text \<open>
  The signature scheme of \<open>Hacl_Ed25519.c\<close>: key generation, signing and verification, and the
  proof that they are the operations of RFC 8032.  The scratch buffers are split the way the code
  splits them; a call that receives two pointers into one buffer receives disjoint pieces of it.
\<close>

section \<open>Keys\<close>

definition Hacl_Impl_Ed25519_SecretExpand_secret_expand :: "bytes \<Rightarrow> bytes \<Rightarrow> bytes" where
  "Hacl_Impl_Ed25519_SecretExpand_secret_expand expanded secret =
     (let expanded = Hacl_SHA2_512_hash expanded secret 32;
          h_low0 = expanded ! 0;
          h_low31 = expanded ! 31;
          expanded = expanded[0 := h_low0 AND 0xf8];
          expanded = expanded[31 := (h_low31 AND 127) OR 64]
      in expanded)"

definition Hacl_Impl_Ed25519_SecretToPublic_point_mul_g :: "u64 list \<Rightarrow> bytes \<Rightarrow> u64 list" where
  "Hacl_Impl_Ed25519_SecretToPublic_point_mul_g result scalar =
     (let g1 = replicate 20 0;
          g1 = Hacl_Impl_Ed25519_G_make_g g1
      in Hacl_Impl_Ed25519_Ladder_point_mul result scalar g1)"

definition Hacl_Impl_Ed25519_SecretToPublic_secret_to_public' :: "bytes \<Rightarrow> bytes \<Rightarrow> bytes \<Rightarrow> bytes" where
  "Hacl_Impl_Ed25519_SecretToPublic_secret_to_public' out secret expanded_secret =
     (let a = expanded_secret;
          res = replicate 20 0;
          res = Hacl_Impl_Ed25519_SecretToPublic_point_mul_g res a
      in Hacl_Impl_Ed25519_PointCompress_point_compress out res)"

definition Hacl_Impl_Ed25519_SecretToPublic_secret_to_public :: "bytes \<Rightarrow> bytes \<Rightarrow> bytes" where
  "Hacl_Impl_Ed25519_SecretToPublic_secret_to_public out secret =
     (let expanded = replicate 64 0;
          expanded = Hacl_Impl_Ed25519_SecretExpand_secret_expand expanded secret
      in Hacl_Impl_Ed25519_SecretToPublic_secret_to_public' out secret expanded)"

section \<open>Verification\<close>

definition Hacl_Impl_Ed25519_Verify_Steps_verify_step_1 :: "u64 list \<Rightarrow> bytes \<Rightarrow> u64 list \<times> bool" where
  "Hacl_Impl_Ed25519_Verify_Steps_verify_step_1 r' signature =
     (let rs = signature in Hacl_Impl_Ed25519_PointDecompress_point_decompress r' rs)"

definition Hacl_Impl_Ed25519_Verify_Steps_verify_step_2 ::
    "bytes \<Rightarrow> bytes \<Rightarrow> u32 \<Rightarrow> bytes \<Rightarrow> bytes \<Rightarrow> bytes" where
  "Hacl_Impl_Ed25519_Verify_Steps_verify_step_2 r msg len1 rs public =
     (let r' = replicate 5 0;
          r' = Hacl_Impl_SHA512_ModQ_sha512_modq_pre_pre2 r' rs public msg len1
      in Hacl_Impl_Store56_store_56 r r')"

definition Hacl_Impl_Ed25519_Verify_Steps_point_mul_g :: "u64 list \<Rightarrow> bytes \<Rightarrow> u64 list" where
  "Hacl_Impl_Ed25519_Verify_Steps_point_mul_g result scalar =
     (let g1 = replicate 20 0;
          g1 = Hacl_Impl_Ed25519_G_make_g g1
      in Hacl_Impl_Ed25519_Ladder_point_mul result scalar g1)"

definition Hacl_Impl_Ed25519_Verify_Steps_verify_step_4 ::
    "bytes \<Rightarrow> bytes \<Rightarrow> u64 list \<Rightarrow> u64 list \<Rightarrow> bool" where
  "Hacl_Impl_Ed25519_Verify_Steps_verify_step_4 s h' a' r' =
     (let tmp = replicate 60 0;
          hA = take 20 tmp;
          rhA = take 20 (drop 20 tmp);
          sB = drop 40 tmp;
          sB = Hacl_Impl_Ed25519_Verify_Steps_point_mul_g sB s;
          hA = Hacl_Impl_Ed25519_Ladder_point_mul hA h' a';
          rhA = Hacl_Impl_Ed25519_PointAdd_point_add rhA r' hA
      in Hacl_Impl_Ed25519_PointEqual_point_equal sB rhA)"

definition Hacl_Impl_Ed25519_Verify_verify'' ::
    "bytes \<Rightarrow> bytes \<Rightarrow> u32 \<Rightarrow> bytes \<Rightarrow> u64 list \<Rightarrow> bytes \<Rightarrow> u64 list \<times> bytes \<times> bool" where
  "Hacl_Impl_Ed25519_Verify_verify'' public msg len1 signature tmp tmp' =
     (let a' = take 20 tmp;
          r' = take 20 (drop 20 tmp);
          s = drop 40 tmp;
          h' = tmp';
          (a', b) = Hacl_Impl_Ed25519_PointDecompress_point_decompress a' public
      in if b then
           let rs = signature;
               (r', b') = Hacl_Impl_Ed25519_Verify_Steps_verify_step_1 r' signature
           in if b' then
                let s = Hacl_Impl_Load56_load_32_bytes s (drop 32 signature);
                    b'' = Hacl_Impl_Ed25519_PointEqual_gte_q s
                in if b'' then (a' @ r' @ s, h', False)
                   else
                     let h' = Hacl_Impl_Ed25519_Verify_Steps_verify_step_2 h' msg len1 rs public;
                         b1 = Hacl_Impl_Ed25519_Verify_Steps_verify_step_4 (drop 32 signature) h' a' r'
                     in (a' @ r' @ s, h', b1)
              else (a' @ r' @ s, h', False)
         else (a' @ r' @ s, h', False))"

definition Hacl_Impl_Ed25519_Verify_verify' :: "bytes \<Rightarrow> bytes \<Rightarrow> u32 \<Rightarrow> bytes \<Rightarrow> bool" where
  "Hacl_Impl_Ed25519_Verify_verify' public msg len1 signature =
     (let tmp = replicate 45 0;
          tmp' = replicate 32 0;
          (tmp, tmp', res) = Hacl_Impl_Ed25519_Verify_verify'' public msg len1 signature tmp tmp'
      in res)"

definition Hacl_Impl_Ed25519_Verify_verify :: "bytes \<Rightarrow> bytes \<Rightarrow> u32 \<Rightarrow> bytes \<Rightarrow> bool" where
  "Hacl_Impl_Ed25519_Verify_verify public msg len1 signature =
     Hacl_Impl_Ed25519_Verify_verify' public msg len1 signature"

section \<open>Signing\<close>

text \<open>
  The offsets in \<open>tmp_bytes\<close> are 96 (the public key), 160 (the first half of the signature), 192
  (its second half) and 224 (the expanded secret); in \<open>tmp_ints\<close> they are 20 (\<open>r\<close>), 45 (\<open>aq\<close>),
  50 (\<open>ha\<close>), 55 (\<open>s\<close>) and 60 (\<open>h\<close>).
\<close>

definition Hacl_Impl_Ed25519_Sign_Steps_point_mul_g :: "u64 list \<Rightarrow> bytes \<Rightarrow> u64 list" where
  "Hacl_Impl_Ed25519_Sign_Steps_point_mul_g result scalar =
     (let g1 = replicate 20 0;
          g1 = Hacl_Impl_Ed25519_G_make_g g1
      in Hacl_Impl_Ed25519_Ladder_point_mul result scalar g1)"

definition Hacl_Impl_Ed25519_Sign_Steps_point_mul_g_compress :: "bytes \<Rightarrow> bytes \<Rightarrow> bytes" where
  "Hacl_Impl_Ed25519_Sign_Steps_point_mul_g_compress out s =
     (let tmp = replicate 20 0;
          tmp = Hacl_Impl_Ed25519_Sign_Steps_point_mul_g tmp s
      in Hacl_Impl_Ed25519_PointCompress_point_compress out tmp)"

definition Hacl_Impl_Ed25519_Sign_Steps_copy_bytes :: "bytes \<Rightarrow> bytes \<Rightarrow> u32 \<Rightarrow> bytes" where
  "Hacl_Impl_Ed25519_Sign_Steps_copy_bytes output input len1 = memcpy output input (unat len1)"

definition Hacl_Impl_Ed25519_Sign_Steps_sign_step_1 :: "bytes \<Rightarrow> bytes \<Rightarrow> bytes" where
  "Hacl_Impl_Ed25519_Sign_Steps_sign_step_1 secret tmp_bytes =
     (let tmp_bytes = at_ptr 224 (\<lambda>apre. Hacl_Impl_Ed25519_SecretExpand_secret_expand apre secret) tmp_bytes;
          a = drop 224 tmp_bytes
      in at_ptr 96 (\<lambda>a''. Hacl_Impl_Ed25519_Sign_Steps_point_mul_g_compress a'' a) tmp_bytes)"

definition Hacl_Impl_Ed25519_Sign_Steps_sign_step_2 :: "bytes \<Rightarrow> u32 \<Rightarrow> bytes \<Rightarrow> u64 list \<Rightarrow> u64 list" where
  "Hacl_Impl_Ed25519_Sign_Steps_sign_step_2 msg len1 tmp_bytes tmp_ints =
     (let apre = drop 224 tmp_bytes;
          prefix = drop 32 apre
      in at_ptr 20 (\<lambda>r. Hacl_Impl_SHA512_ModQ_sha512_modq_pre r prefix msg len1) tmp_ints)"

definition Hacl_Impl_Ed25519_Sign_Steps_sign_step_4 :: "bytes \<Rightarrow> u32 \<Rightarrow> bytes \<Rightarrow> u64 list \<Rightarrow> u64 list" where
  "Hacl_Impl_Ed25519_Sign_Steps_sign_step_4 msg len1 tmp_bytes tmp_ints =
     (let a'' = drop 96 tmp_bytes;
          rs' = drop 160 tmp_bytes
      in at_ptr 60 (\<lambda>h. Hacl_Impl_SHA512_ModQ_sha512_modq_pre_pre2 h rs' a'' msg len1) tmp_ints)"

definition Hacl_Impl_Ed25519_Sign_Steps_sign_step_5 :: "bytes \<Rightarrow> u64 list \<Rightarrow> bytes \<times> u64 list" where
  "Hacl_Impl_Ed25519_Sign_Steps_sign_step_5 tmp_bytes tmp_ints =
     (let a = drop 224 tmp_bytes;
          tmp_ints = at_ptr 45 (\<lambda>aq. Hacl_Impl_Load56_load_32_bytes aq a) tmp_ints;
          h = drop 60 tmp_ints;
          aq = drop 45 tmp_ints;
          tmp_ints = at_ptr 50 (\<lambda>ha. Hacl_Impl_BignumQ_Mul_mul_modq ha h aq) tmp_ints;
          r = drop 20 tmp_ints;
          ha = drop 50 tmp_ints;
          tmp_ints = at_ptr 55 (\<lambda>s. Hacl_Impl_BignumQ_Mul_add_modq s r ha) tmp_ints;
          s = drop 55 tmp_ints;
          tmp_bytes = at_ptr 192 (\<lambda>s'. Hacl_Impl_Store56_store_56 s' s) tmp_bytes
      in (tmp_bytes, tmp_ints))"

definition Hacl_Impl_Ed25519_Sign_append_to_sig :: "bytes \<Rightarrow> bytes \<Rightarrow> bytes \<Rightarrow> bytes" where
  "Hacl_Impl_Ed25519_Sign_append_to_sig signature a b =
     (let signature = Hacl_Impl_Ed25519_Sign_Steps_copy_bytes signature a 32
      in at_ptr 32 (\<lambda>p. Hacl_Impl_Ed25519_Sign_Steps_copy_bytes p b 32) signature)"

definition Hacl_Impl_Ed25519_Sign_sign' :: "bytes \<Rightarrow> bytes \<Rightarrow> bytes \<Rightarrow> u32 \<Rightarrow> bytes" where
  "Hacl_Impl_Ed25519_Sign_sign' signature secret msg len1 =
     (let tmp_bytes = replicate 352 0;
          tmp_ints = replicate 65 0;
          tmp_bytes = Hacl_Impl_Ed25519_Sign_Steps_sign_step_1 secret tmp_bytes;
          tmp_ints = Hacl_Impl_Ed25519_Sign_Steps_sign_step_2 msg len1 tmp_bytes tmp_ints;
          rb = replicate 32 0;
          r = drop 20 tmp_ints;
          rb = Hacl_Impl_Store56_store_56 rb r;
          tmp_bytes = at_ptr 160 (\<lambda>rs0. Hacl_Impl_Ed25519_Sign_Steps_point_mul_g_compress rs0 rb) tmp_bytes;
          tmp_ints = Hacl_Impl_Ed25519_Sign_Steps_sign_step_4 msg len1 tmp_bytes tmp_ints;
          (tmp_bytes, tmp_ints) = Hacl_Impl_Ed25519_Sign_Steps_sign_step_5 tmp_bytes tmp_ints;
          rs' = drop 160 tmp_bytes;
          s' = drop 192 tmp_bytes
      in Hacl_Impl_Ed25519_Sign_append_to_sig signature rs' s')"

definition Hacl_Impl_Ed25519_Sign_sign :: "bytes \<Rightarrow> bytes \<Rightarrow> bytes \<Rightarrow> u32 \<Rightarrow> bytes" where
  "Hacl_Impl_Ed25519_Sign_sign signature secret msg len1 =
     Hacl_Impl_Ed25519_Sign_sign' signature secret msg len1"

section \<open>The interface of the file\<close>

definition Hacl_Ed25519_sign :: "bytes \<Rightarrow> bytes \<Rightarrow> bytes \<Rightarrow> u32 \<Rightarrow> bytes" where
  "Hacl_Ed25519_sign signature secret msg len1 = Hacl_Impl_Ed25519_Sign_sign signature secret msg len1"

definition Hacl_Ed25519_verify :: "bytes \<Rightarrow> bytes \<Rightarrow> u32 \<Rightarrow> bytes \<Rightarrow> bool" where
  "Hacl_Ed25519_verify output msg len1 signature = Hacl_Impl_Ed25519_Verify_verify output msg len1 signature"

definition Hacl_Ed25519_secret_to_public :: "bytes \<Rightarrow> bytes \<Rightarrow> bytes" where
  "Hacl_Ed25519_secret_to_public output secret =
     Hacl_Impl_Ed25519_SecretToPublic_secret_to_public output secret"

section \<open>The operations of RFC 8032\<close>

text \<open>The secret scalar (its 32 bytes, clamped) and the prefix that a secret key expands to.\<close>

definition ed_secret :: "bytes \<Rightarrow> bytes \<times> bytes" where
  "ed_secret sk = (let h = sha512_spec (take 32 sk) in (clamp_scalar h, drop 32 h))"

definition ed_scalar :: "bytes \<Rightarrow> nat" where
  "ed_scalar h = le_val h mod group_order"

definition ed_public :: "bytes \<Rightarrow> bytes" where
  "ed_public sk = ed_compress (ed_mult (scalar_bits (fst (ed_secret sk))) ed_base)"

definition ed_sign :: "bytes \<Rightarrow> bytes \<Rightarrow> bytes" where
  "ed_sign sk m =
     (let (a, prefix) = ed_secret sk;
          r = ed_scalar (sha512_spec (prefix @ m));
          R = ed_compress (ed_mult (scalar_bits (le_bytes 32 r)) ed_base);
          k = ed_scalar (sha512_spec (R @ ed_public sk @ m))
      in R @ le_bytes 32 ((r + k * le_val a) mod group_order))"

definition ed_verify :: "bytes \<Rightarrow> bytes \<Rightarrow> bytes \<Rightarrow> bool" where
  "ed_verify pk m sig =
     (let R = take 32 sig; S = take 32 (drop 32 sig) in
      case (ed_decompress pk, ed_decompress R) of
        (Some A', Some R') \<Rightarrow>
          le_val S < group_order
          \<and> (let k = ed_scalar (sha512_spec (R @ take 32 pk @ m))
             in ed_equal (ed_mult (scalar_bits S) ed_base)
                  (ed_add R' (ed_mult (scalar_bits (le_bytes 32 k)) A')))
      | _ \<Rightarrow> False)"


section \<open>Keys are the keys of the specification\<close>

lemma at_ptr_pieces: "length p = n \<Longrightarrow> at_ptr n f (p @ x) = p @ f x"
  by (simp add: at_ptr_def)

lemma length_ed_compress [simp]: "length (ed_compress P) = 32"
  by (cases P) (simp add: ed_compress_def Let_def)

lemma length_ed_secret: "ed_secret sk = (a, prefix) \<Longrightarrow> length a = 32 \<and> length prefix = 32"
  by (auto simp: ed_secret_def clamp_scalar_def Let_def)

lemma secret_expand_eq:
  assumes "32 \<le> length sk" and "64 \<le> length e"
  shows "Hacl_Impl_Ed25519_SecretExpand_secret_expand e sk
         = fst (ed_secret sk) @ snd (ed_secret sk) @ drop 64 e"
proof -
  define h where "h = sha512_spec (take 32 sk)"
  define p q where "p = take 32 h" and "q = drop 32 h"
  have l: "length p = 32" by (simp add: p_def h_def)
  have h: "h = p @ q" by (simp add: p_def q_def)
  have e: "Hacl_SHA2_512_hash e sk 32 = p @ q @ drop 64 e"
    using assms sha512_hash_eq [of 32 sk e] h by (simp add: h_def)
  have n: "h ! 0 = p ! 0" "h ! 31 = p ! 31" using l by (simp_all add: h nth_append)
  show ?thesis
    unfolding Hacl_Impl_Ed25519_SecretExpand_secret_expand_def Let_def e ed_secret_def fst_conv snd_conv
      h_def [symmetric] clamp_scalar_def n p_def [symmetric] q_def [symmetric]
    using l by (simp add: list_update_append nth_append)
qed

lemma mul_g_correct:
  assumes "32 \<le> length k" and "length out = 20"
  shows "is_ext (ed_mult (scalar_bits (take 32 k)) ed_base)
           (Hacl_Impl_Ed25519_Ladder_point_mul out k (Hacl_Impl_Ed25519_G_make_g (replicate 20 0)))"
proof -
  note g = make_g_correct [of "replicate 20 0", simplified]
  have g': "is_ext ed_base (take 20 (Hacl_Impl_Ed25519_G_make_g (replicate 20 0)))"
    using g is_ext_length [OF g] by simp
  have o: "20 \<le> length out" using assms(2) by simp
  show ?thesis
    by (rule point_mul_correct [OF g' assms(1) o]) (simp add: assms(2))
qed

lemmas mul_g_defs = Hacl_Impl_Ed25519_SecretToPublic_point_mul_g_def Hacl_Impl_Ed25519_Verify_Steps_point_mul_g_def
  Hacl_Impl_Ed25519_Sign_Steps_point_mul_g_def

lemma mul_g_compress:
  assumes "32 \<le> length k" and "32 \<le> length out"
  shows "Hacl_Impl_Ed25519_Sign_Steps_point_mul_g_compress out k
         = ed_compress (ed_mult (scalar_bits (take 32 k)) ed_base) @ drop 32 out"
  unfolding Hacl_Impl_Ed25519_Sign_Steps_point_mul_g_compress_def mul_g_defs Let_def
  by (rule point_compress_correct [OF mul_g_correct [OF assms(1)] assms(2)]) simp

lemma secret_to_public_eq:
  assumes "32 \<le> length sk" and "32 \<le> length out"
  shows "Hacl_Ed25519_secret_to_public out sk = ed_public sk @ drop 32 out"
proof -
  obtain a prefix where s: "ed_secret sk = (a, prefix)" by (cases "ed_secret sk")
  have e: "Hacl_Impl_Ed25519_SecretExpand_secret_expand (replicate 64 0) sk = a @ prefix"
    using secret_expand_eq [OF assms(1), of "replicate 64 0"] by (simp add: s)
  have "32 \<le> length (a @ prefix)" using length_ed_secret [OF s] by simp
  note m = point_compress_correct [OF mul_g_correct [OF this, of "replicate 20 0"] assms(2)]
  show ?thesis
    unfolding Hacl_Ed25519_secret_to_public_def Hacl_Impl_Ed25519_SecretToPublic_secret_to_public_def Let_def e
      Hacl_Impl_Ed25519_SecretToPublic_secret_to_public'_def mul_g_defs ed_public_def s fst_conv
    using m length_ed_secret [OF s] by simp
qed

section \<open>Scalars in the scratch buffer\<close>

lemma limbs56_take: "take 5 x = take 5 y \<Longrightarrow> limbs56 x = limbs56 y \<and> qval x = qval y"
proof -
  assume e: "take 5 x = take 5 y"
  then have "length (take 5 x) = length (take 5 y)" by simp
  then have "5 \<le> length x \<longleftrightarrow> 5 \<le> length y" by (simp add: min_def split: if_splits)
  moreover have "x ! i = y ! i" if "i < 5" for i using that e by (metis nth_take)
  ultimately show ?thesis using e by (simp add: limbs56_def qval_def)
qed

text \<open>The scalar \<open>v\<close> stands in the five words at offset \<open>n\<close>.\<close>

definition scalar_at :: "nat \<Rightarrow> nat \<Rightarrow> u64 list \<Rightarrow> bool" where
  "scalar_at n v t \<longleftrightarrow> limbs56 (drop n t) \<and> qval (drop n t) = v"

lemma scalar_at_write:
  assumes "limbs56 (f (drop m t))" and "qval (f (drop m t)) = v" and "drop 5 (f (drop m t)) = drop 5 (drop m t)"
    and "m + 5 \<le> length t"
  shows "scalar_at m v (at_ptr m f t)" and "length (at_ptr m f t) = length t"
    and "n + 5 \<le> m \<or> m + 5 \<le> n \<Longrightarrow> scalar_at n w t \<Longrightarrow> scalar_at n w (at_ptr m f t)"
proof -
  have l: "length (f (drop m t)) = length (drop m t)"
    by (rule limbs_length [OF assms(1,3)]) (use assms(4) in simp)
  show "length (at_ptr m f t) = length t" using l assms(4) by (simp add: at_ptr_def)
  show "scalar_at m v (at_ptr m f t)" using assms by (simp add: scalar_at_def at_ptr_def)
  assume n: "n + 5 \<le> m \<or> m + 5 \<le> n" "scalar_at n w t"
  have "take 5 (drop n (at_ptr m f t)) = take 5 (drop n t)"
  proof (cases "n + 5 \<le> m")
    case True
    then have "5 \<le> m - n" by simp
    with assms(4) show ?thesis by (simp add: at_ptr_def drop_take min_def)
  next
    case False
    then obtain k where k: "n = m + (5 + k)" using n(1) by (metis add.assoc le_add_diff_inverse)
    have "drop n (at_ptr m f t) = drop k (drop 5 (f (drop m t)))"
      unfolding k using assms(4) by (simp add: at_ptr_def add.commute [of k])
    also have "\<dots> = drop n t" by (simp only: assms(3) drop_drop k ac_simps)
    finally show ?thesis by simp
  qed
  from limbs56_take [OF this] n(2) show "scalar_at n w (at_ptr m f t)" by (simp only: scalar_at_def)
qed

section \<open>Signing is the signing of the specification\<close>

text \<open>\<open>tmp_bytes\<close> with its five named parts.\<close>

definition sign_bytes :: "bytes \<Rightarrow> bytes \<Rightarrow> bytes \<Rightarrow> bytes \<Rightarrow> bytes \<Rightarrow> bytes \<Rightarrow> bytes \<Rightarrow> bool" where
  "sign_bytes A R S a prefix r t \<longleftrightarrow>
     length A = 32 \<and> length R = 32 \<and> length S = 32 \<and> length a = 32 \<and> length prefix = 32
     \<and> (\<exists>p0 p1. length p0 = 96 \<and> length p1 = 32 \<and> t = p0 @ A @ p1 @ R @ S @ a @ prefix @ r)"

lemma sign_bytes_drop:
  assumes "sign_bytes A R S a prefix r t"
  shows "drop 96 t = A @ drop 128 t" "drop 160 t = R @ S @ a @ prefix @ r" "drop 192 t = S @ a @ prefix @ r"
    "drop 224 t = a @ prefix @ r" "drop 256 t = prefix @ r"
  using assms by (auto simp: sign_bytes_def)

lemma group_order_256: "x mod group_order < 2 ^ 256"
proof -
  have "x mod group_order < group_order" by (simp add: group_order_def)
  then show ?thesis by (rule less_trans) (simp add: group_order_def)
qed

lemma sign_step_1_correct:
  assumes "32 \<le> length sk" and "ed_secret sk = (a, prefix)"
  shows "sign_bytes (ed_public sk) (replicate 32 0) (replicate 32 0) a prefix (replicate 64 0)
           (Hacl_Impl_Ed25519_Sign_Steps_sign_step_1 sk (replicate 352 0))"
proof -
  note l = length_ed_secret [OF assms(2)]
  have z: "replicate 352 (0 :: u8)
      = replicate 96 0 @ replicate 32 0 @ replicate 32 0 @ replicate 32 0 @ replicate 32 0 @ replicate 128 0"
    by (simp flip: replicate_add)
  have e: "Hacl_Impl_Ed25519_SecretExpand_secret_expand (replicate 128 0) sk = a @ prefix @ replicate 64 0"
    using secret_expand_eq [OF assms(1), of "replicate 128 0"] by (simp add: assms(2) drop_replicate)
  have x: "at_ptr 224 (\<lambda>apre. Hacl_Impl_Ed25519_SecretExpand_secret_expand apre sk) (replicate 352 0)
      = replicate 96 0 @ replicate 32 0 @ replicate 32 0 @ replicate 32 0 @ replicate 32 0 @ a @ prefix @ replicate 64 0"
    unfolding z by (simp add: at_ptr_def e)
  have m: "Hacl_Impl_Ed25519_Sign_Steps_point_mul_g_compress (replicate 32 0 @ y) (a @ prefix @ replicate 64 0)
      = ed_public sk @ y" for y
    using mul_g_compress [of "a @ prefix @ replicate 64 0" "replicate 32 0 @ y"] l
    by (simp add: ed_public_def assms(2))
  have "Hacl_Impl_Ed25519_Sign_Steps_sign_step_1 sk (replicate 352 0)
      = replicate 96 0 @ ed_public sk @ replicate 32 0 @ replicate 32 0 @ replicate 32 0 @ a @ prefix @ replicate 64 0"
    unfolding Hacl_Impl_Ed25519_Sign_Steps_sign_step_1_def Let_def x
    using l by (simp add: at_ptr_def m)
  then show ?thesis
    unfolding sign_bytes_def
    by (intro conjI exI [of _ "replicate 96 0"] exI [of _ "replicate 32 0"]) (simp_all add: l ed_public_def)
qed

lemma sign_step_5_correct:
  assumes t: "sign_bytes A R S a prefix x tb" and i: "scalar_at 20 r ti" "scalar_at 60 h ti" "length ti = 65"
    and b: "r < group_order" "h < group_order"
  shows "\<exists>ti'. Hacl_Impl_Ed25519_Sign_Steps_sign_step_5 tb ti
    = (take 192 tb @ le_bytes 32 ((r + h * le_val a) mod group_order) @ drop 224 tb, ti')"
proof -
  have la: "length a = 32" using t by (simp add: sign_bytes_def)
  define t1 where "t1 = at_ptr 45 (\<lambda>aq. Hacl_Impl_Load56_load_32_bytes aq (drop 224 tb)) ti"
  have "32 \<le> length (drop 224 tb)" "5 \<le> length (drop 45 ti)"
    using la i(3) by (simp_all add: sign_bytes_drop [OF t])
  note L = load_32_bytes_correct [OF this]
  have v: "le_val (take 32 (drop 224 tb)) = le_val a" using la by (simp add: sign_bytes_drop [OF t])
  note w1 = scalar_at_write [of "\<lambda>aq. Hacl_Impl_Load56_load_32_bytes aq (drop 224 tb)", OF L(1) L(2) [unfolded v] L(3), folded t1_def]
  have t1: "scalar_at 20 r t1" "scalar_at 60 h t1" "scalar_at 45 (le_val a) t1" "length t1 = 65"
    using w1 i by simp_all
  define t2 where "t2 = at_ptr 50 (\<lambda>ha. Hacl_Impl_BignumQ_Mul_mul_modq ha (drop 60 t1) (drop 45 t1)) t1"
  have s: "limbs56 (drop 60 t1)" "qval (drop 60 t1) = h" "limbs56 (drop 45 t1)" "qval (drop 45 t1) = le_val a"
    using t1 by (simp_all add: scalar_at_def)
  have "h < 2 ^ 256" using b(2) group_order_256 [of h] by simp
  moreover have "le_val a < 2 ^ 256" using le_val_less [of a] la by simp
  ultimately have "h * le_val a < 2 ^ 256 * 2 ^ 256" by (intro mult_strict_mono) simp_all
  then have p: "qval (drop 60 t1) * qval (drop 45 t1) < 2 ^ 512" by (simp add: s)
  note M = mul_modq_correct [OF s(1,3) p, of "drop 50 t1", unfolded s]
  note w2 = scalar_at_write [of "\<lambda>ha. Hacl_Impl_BignumQ_Mul_mul_modq ha (drop 60 t1) (drop 45 t1)" 50 t1, folded t2_def]
  have t2: "scalar_at 50 (h * le_val a mod group_order) t2" "scalar_at 20 r t2" "length t2 = 65"
    using w2 M t1 by simp_all
  define t3 where "t3 = at_ptr 55 (\<lambda>s. Hacl_Impl_BignumQ_Mul_add_modq s (drop 20 t2) (drop 50 t2)) t2"
  have s2: "limbs56 (drop 50 t2)" "qval (drop 50 t2) = h * le_val a mod group_order"
    "limbs56 (drop 20 t2)" "qval (drop 20 t2) = r"
    using t2 by (simp_all add: scalar_at_def)
  have b2: "qval (drop 20 t2) < group_order" "qval (drop 50 t2) < group_order"
    using b by (simp_all add: s2 group_order_def)
  note A = add_modq_correct [OF s2(3,1) b2, of "drop 55 t2", unfolded s2]
  have A': "limbs56 (drop 55 t3)" "qval (drop 55 t3) = (r + h * le_val a) mod group_order"
    using A t2(3) by (simp_all add: t3_def at_ptr_def Hacl_Impl_BignumQ_Mul_add_modq_def mod_add_right_eq)
  have st: "Hacl_Impl_Store56_store_56 (drop 192 tb) (drop 55 t3)
      = le_bytes 32 ((r + h * le_val a) mod group_order) @ drop 32 (drop 192 tb)"
    using store_56_correct [OF A'(1), of "drop 192 tb"] group_order_256 la
    by (simp add: A'(2) sign_bytes_drop [OF t])
  have "Hacl_Impl_Ed25519_Sign_Steps_sign_step_5 tb ti = (at_ptr 192 (\<lambda>s'. Hacl_Impl_Store56_store_56 s' (drop 55 t3)) tb, t3)"
    unfolding Hacl_Impl_Ed25519_Sign_Steps_sign_step_5_def Let_def t1_def [symmetric] t2_def [symmetric] t3_def [symmetric] ..
  then show ?thesis by (simp add: at_ptr_def [of 192] st)
qed

lemma sign_bytes_pieces:
  assumes "sign_bytes A R S a prefix x t"
  shows "R' = ed_compress P \<Longrightarrow> sign_bytes A R' S a prefix x (at_ptr 160 (\<lambda>p. R' @ drop 32 p) t)"
    and "drop 160 (take 192 t @ y) = R @ y" and "drop 192 (take 192 t @ y) = y"
proof -
  obtain p0 p1 where t: "length p0 = 96" "length p1 = 32" "t = p0 @ A @ p1 @ R @ S @ a @ prefix @ x"
    and l: "length A = 32" "length R = 32" "length S = 32" "length a = 32" "length prefix = 32"
    using assms by (auto simp: sign_bytes_def)
  show "sign_bytes A R' S a prefix x (at_ptr 160 (\<lambda>p. R' @ drop 32 p) t)" if "R' = ed_compress P"
    unfolding sign_bytes_def
    by (intro conjI exI [of _ p0] exI [of _ p1]) (simp_all add: t l that at_ptr_def)
  show "drop 160 (take 192 t @ y) = R @ y" "drop 192 (take 192 t @ y) = y"
    by (simp_all add: t l)
qed

lemma sign_eq:
  assumes sk: "32 \<le> length sk" and m: "unat len \<le> length msg" and out: "64 \<le> length out"
  shows "Hacl_Ed25519_sign out sk msg len = ed_sign sk (take (unat len) msg) @ drop 64 out"
proof -
  let ?m = "take (unat len) msg"
  obtain a prefix where e: "ed_secret sk = (a, prefix)" by (cases "ed_secret sk")
  note l = length_ed_secret [OF e]
  define A where "A = ed_public sk"
  define r where "r = ed_scalar (sha512_spec (prefix @ ?m))"
  define P where "P = ed_mult (scalar_bits (le_bytes 32 r)) ed_base"
  define k where "k = ed_scalar (sha512_spec (ed_compress P @ A @ ?m))"
  define S where "S = le_bytes 32 ((r + k * le_val a) mod group_order)"
  define tb where "tb = Hacl_Impl_Ed25519_Sign_Steps_sign_step_1 sk (replicate 352 0)"
  define ti where "ti = Hacl_Impl_Ed25519_Sign_Steps_sign_step_2 msg len tb (replicate 65 0)"
  have tb: "sign_bytes A (replicate 32 0) (replicate 32 0) a prefix (replicate 64 0) tb"
    unfolding A_def tb_def by (rule sign_step_1_correct [OF sk e])
  have pre: "drop 32 (drop 224 tb) = prefix @ replicate 64 0" using l by (simp add: sign_bytes_drop [OF tb])
  have "32 \<le> length (drop 32 (drop 224 tb))" "5 \<le> length (drop 20 (replicate 65 (0 :: u64)))"
    using l by (simp_all only: pre) simp_all
  note H = sha512_modq_pre_correct [OF this(1) m this(2)]
  have hr: "le_val (sha512_spec (take 32 (drop 32 (drop 224 tb)) @ ?m)) mod group_order = r"
    using l by (simp only: pre r_def ed_scalar_def) simp
  have ti: "scalar_at 20 r ti" "length ti = 65"
    unfolding ti_def Hacl_Impl_Ed25519_Sign_Steps_sign_step_2_def Let_def
    using scalar_at_write(1,2) [of "\<lambda>r. Hacl_Impl_SHA512_ModQ_sha512_modq_pre r (drop 32 (drop 224 tb)) msg len",
        OF conjunct1 [OF H(1)] conjunct2 [OF H(1), unfolded hr] H(2)] by simp_all
  have rq: "r < group_order" "k < group_order" by (simp_all add: r_def k_def ed_scalar_def group_order_def)
  have r: "limbs56 (drop 20 ti)" "qval (drop 20 ti) = r" using ti(1) by (simp_all add: scalar_at_def)
  have rb: "Hacl_Impl_Store56_store_56 (replicate 32 0) (drop 20 ti) = le_bytes 32 r"
    using store_56_correct [OF r(1), of "replicate 32 0"] group_order_256 [of r] rq(1) by (simp add: r(2))
  define tb2 where "tb2 = at_ptr 160 (\<lambda>rs0. Hacl_Impl_Ed25519_Sign_Steps_point_mul_g_compress rs0 (le_bytes 32 r)) tb"
  have "Hacl_Impl_Ed25519_Sign_Steps_point_mul_g_compress (drop 160 tb) (le_bytes 32 r) = ed_compress P @ drop 32 (drop 160 tb)"
    unfolding P_def using mul_g_compress [of "le_bytes 32 r" "drop 160 tb"] by (simp add: sign_bytes_drop [OF tb])
  then have tb2: "sign_bytes A (ed_compress P) (replicate 32 0) a prefix (replicate 64 0) tb2"
    using sign_bytes_pieces(1) [OF tb refl, of P] by (simp only: tb2_def at_ptr_def)
  define ti2 where "ti2 = Hacl_Impl_Ed25519_Sign_Steps_sign_step_4 msg len tb2 ti"
  have lA: "length A = 32" by (simp add: A_def ed_public_def)
  have RA: "take 32 (drop 160 tb2) = ed_compress P" "take 32 (drop 96 tb2) = A"
    "32 \<le> length (drop 160 tb2)" "32 \<le> length (drop 96 tb2)" "5 \<le> length (drop 60 ti)"
    using ti(2) lA by (simp_all only: sign_bytes_drop [OF tb2]) simp_all
  note K = sha512_modq_pre_pre2_correct [OF RA(3,4) m RA(5), unfolded RA(1,2)]
  have hk: "le_val (sha512_spec (ed_compress P @ A @ ?m)) mod group_order = k" by (simp add: k_def ed_scalar_def)
  have ti2: "scalar_at 60 k ti2" "length ti2 = 65" "scalar_at 20 r ti2"
    unfolding ti2_def Hacl_Impl_Ed25519_Sign_Steps_sign_step_4_def Let_def
    using scalar_at_write [of "\<lambda>h. Hacl_Impl_SHA512_ModQ_sha512_modq_pre_pre2 h (drop 160 tb2) (drop 96 tb2) msg len",
        OF conjunct1 [OF K(1)] conjunct2 [OF K(1), unfolded hk] K(2)] ti by simp_all
  obtain ti3 where s5: "Hacl_Impl_Ed25519_Sign_Steps_sign_step_5 tb2 ti2 = (take 192 tb2 @ S @ drop 224 tb2, ti3)"
    using sign_step_5_correct [OF tb2 ti2(3,1,2) rq] unfolding S_def by blast
  have "Hacl_Ed25519_sign out sk msg len
      = Hacl_Impl_Ed25519_Sign_append_to_sig out (ed_compress P @ S @ drop 224 tb2) (S @ drop 224 tb2)"
    unfolding Hacl_Ed25519_sign_def Hacl_Impl_Ed25519_Sign_sign_def Hacl_Impl_Ed25519_Sign_sign'_def Let_def
      tb_def [symmetric] ti_def [symmetric] rb tb2_def [symmetric] ti2_def [symmetric] s5 case_prod_conv
      sign_bytes_pieces(2,3) [OF tb2] ..
  also have "\<dots> = (ed_compress P @ S) @ drop 64 out"
    using out by (simp add: Hacl_Impl_Ed25519_Sign_append_to_sig_def Hacl_Impl_Ed25519_Sign_Steps_copy_bytes_def
        memcpy_def at_ptr_def S_def)
  also have "ed_compress P @ S = ed_sign sk ?m"
    unfolding ed_sign_def e case_prod_conv Let_def S_def k_def A_def P_def r_def ..
  finally show ?thesis .
qed

section \<open>Verification is the verification of the specification\<close>

lemma verify_step_2_correct:
  assumes "32 \<le> length rs" and "32 \<le> length pk" and "unat len \<le> length msg" and "length h = 32"
  shows "Hacl_Impl_Ed25519_Verify_Steps_verify_step_2 h msg len rs pk
         = le_bytes 32 (ed_scalar (sha512_spec (take 32 rs @ take 32 pk @ take (unat len) msg)))"
proof -
  note K = sha512_modq_pre_pre2_correct [OF assms(1-3), of "replicate 5 0", simplified]
  show ?thesis
    unfolding Hacl_Impl_Ed25519_Verify_Steps_verify_step_2_def Let_def
    using store_56_correct [of _ h] K(1) group_order_256 assms(4) by (simp add: ed_scalar_def)
qed

lemma verify_step_4_correct:
  assumes "32 \<le> length s" and "length h = 32" and "is_ext P p" and "is_ext R q"
  shows "Hacl_Impl_Ed25519_Verify_Steps_verify_step_4 s h p q
         = ed_equal (ed_mult (scalar_bits (take 32 s)) ed_base) (ed_add R (ed_mult (scalar_bits h) P))"
proof -
  have p: "is_ext P (take 20 p)" using assms(3) is_ext_length [OF assms(3)] by simp
  have h: "32 \<le> length h" "take 32 h = h" using assms(2) by simp_all
  obtain u where u: "Hacl_Impl_Ed25519_Ladder_point_mul (replicate 20 0) h p = u"
      "is_ext (ed_mult (scalar_bits h) P) u"
    by (rule point_mul_correct [OF p h(1), of "replicate 20 0", unfolded h(2)]) simp_all
  show ?thesis
    unfolding Hacl_Impl_Ed25519_Verify_Steps_verify_step_4_def mul_g_defs Let_def
    using point_equal_correct [OF mul_g_correct [OF assms(1), of "replicate 20 0"] point_add_correct [OF assms(4) u(2), of "replicate 20 0"]] u(1)
    by (simp add: take_replicate drop_replicate)
qed

lemma verify_eq:
  assumes "32 \<le> length pk" and "64 \<le> length sig" and "unat len \<le> length msg"
  shows "Hacl_Ed25519_verify pk msg len sig = ed_verify pk (take (unat len) msg) sig"
proof -
  have s: "32 \<le> length sig" "32 \<le> length (drop 32 sig)" using assms(2) by simp_all
  have l20: "length (take 20 (replicate 45 (0 :: u64))) = 20" "length (take 20 (drop 20 (replicate 45 (0 :: u64)))) = 20"
    by simp_all
  note A = point_decompress_correct [OF assms(1) l20(1)]
  note R = point_decompress_correct [OF s(1) l20(2)]
  have dR: "ed_decompress (take 32 sig) = ed_decompress sig" by (simp add: ed_decompress_def)
  have c: "Hacl_Ed25519_verify pk msg len sig
      = snd (snd (Hacl_Impl_Ed25519_Verify_verify'' pk msg len sig (replicate 45 0) (replicate 32 0)))"
    by (simp add: Hacl_Ed25519_verify_def Hacl_Impl_Ed25519_Verify_verify_def Hacl_Impl_Ed25519_Verify_verify'_def
        split_beta)
  have g: "Hacl_Impl_Ed25519_PointEqual_gte_q (Hacl_Impl_Load56_load_32_bytes (drop 40 (replicate 45 0)) (drop 32 sig))
      \<longleftrightarrow> group_order \<le> le_val (take 32 (drop 32 sig))"
    using load_32_bytes_correct [OF s(2), of "drop 40 (replicate 45 0)"] by (simp add: gte_q_correct)
  show ?thesis
  proof (cases "ed_decompress pk")
    case None
    then show ?thesis
      by (simp only: c Hacl_Impl_Ed25519_Verify_verify''_def Let_def A(1) case_prod_conv if_False ed_verify_def
          option.case snd_conv)
  next
    case pk: (Some P)
    then obtain p where p: "Hacl_Impl_Ed25519_PointDecompress_point_decompress (take 20 (replicate 45 0)) pk = (p, True)"
      "is_ext P p" using A(2) by blast
    show ?thesis
    proof (cases "ed_decompress sig")
      case None
      then show ?thesis
        by (simp only: c Hacl_Impl_Ed25519_Verify_verify''_def Let_def p(1) case_prod_conv if_True ed_verify_def pk dR
            Hacl_Impl_Ed25519_Verify_Steps_verify_step_1_def R(1) if_False option.case snd_conv)
    next
      case rs: (Some Q)
      then obtain q where q: "Hacl_Impl_Ed25519_PointDecompress_point_decompress (take 20 (drop 20 (replicate 45 0))) sig = (q, True)"
        "is_ext Q q" using R(2) by blast
      show ?thesis
        using verify_step_2_correct [OF s(1) assms(1,3), of "replicate 32 0"]
          verify_step_4_correct [OF s(2) length_le_bytes p(2) q(2)]
        by (simp only: c Hacl_Impl_Ed25519_Verify_verify''_def Let_def p(1) q(1) case_prod_conv if_True ed_verify_def
            pk dR rs Hacl_Impl_Ed25519_Verify_Steps_verify_step_1_def g option.case length_replicate simp_thms
            if_distrib [of snd] snd_conv linorder_not_le [symmetric])
          (simp add: not_le)
    qed
  qed
qed

section \<open>What verification rejects\<close>

lemma ed_decompress_large: "p25519 \<le> int (le_val (take 32 s) mod 2 ^ 255) \<Longrightarrow> ed_decompress s = None"
  by (simp add: ed_decompress_def ed_recover_x_def Let_def)

lemma ed_verify_rejects:
  assumes "p25519 \<le> int (le_val (take 32 pk) mod 2 ^ 255) \<or> p25519 \<le> int (le_val (take 32 sig) mod 2 ^ 255)
           \<or> group_order \<le> le_val (take 32 (drop 32 sig))"
  shows "\<not> ed_verify pk m sig"
  using assms
proof (elim disjE)
  assume "p25519 \<le> int (le_val (take 32 pk) mod 2 ^ 255)"
  then show ?thesis by (simp only: ed_verify_def Let_def ed_decompress_large option.case case_prod_conv simp_thms)
next
  assume a: "p25519 \<le> int (le_val (take 32 sig) mod 2 ^ 255)"
  have "ed_decompress (take 32 sig) = None" by (rule ed_decompress_large) (use a in simp)
  then show ?thesis by (cases "ed_decompress pk") (simp_all add: ed_verify_def)
qed (cases "ed_decompress pk"; cases "ed_decompress (take 32 sig)"; simp add: ed_verify_def Let_def)

section \<open>A public key of order one\<close>

text \<open>The neutral element, its encoding, and the points the ladder makes of it.\<close>

definition ed_one :: bytes where
  "ed_one = 1 # replicate 31 0"

definition ed_neutral :: "ext_point \<Rightarrow> bool" where
  "ed_neutral = (\<lambda>(X, Y, Z, T). X = 0 \<and> T = 0 \<and> Y = Z)"

lemma neutral_add: "ed_neutral P \<Longrightarrow> ed_neutral R \<Longrightarrow> ed_neutral (ed_add P R)"
  by (cases P; cases R) (simp add: ed_neutral_def ed_add_def Let_def)

lemma neutral_double: "ed_neutral P \<Longrightarrow> ed_neutral (ed_double P)"
  by (cases P) (simp add: ed_neutral_def ed_double_def Let_def power2_eq_square)

lemma neutral_mult: "ed_neutral P \<Longrightarrow> ed_neutral (ed_mult bs P)"
proof -
  assume P: "ed_neutral P"
  have "ed_neutral (fst (fold ed_bit bs s)) \<and> ed_neutral (snd (fold ed_bit bs s))"
    if "ed_neutral (fst s) \<and> ed_neutral (snd s)" for s
    using that by (induction bs arbitrary: s) (simp_all add: ed_bit_def split_beta neutral_add neutral_double)
  with P show ?thesis by (simp add: ed_mult_def ed_neutral_def split_beta)
qed

lemma zero_mult: "ed_neutral (ed_mult (replicate n False) P)"
proof -
  have "ed_neutral (fst (fold ed_bit (replicate n False) s))" if "ed_neutral (fst s)" for s
    using that by (induction n arbitrary: s) (simp_all add: ed_bit_def split_beta neutral_double)
  then show ?thesis by (simp add: ed_mult_def ed_neutral_def split_beta)
qed

lemma neutral_equal: "ed_neutral P \<Longrightarrow> ed_neutral R \<Longrightarrow> ed_equal P R"
  by (cases P; cases R) (simp add: ed_neutral_def ed_equal_def mult.commute)

lemma le_val_zeros: "le_val (replicate n 0) = 0"
  by (induction n) simp_all

lemma decompress_one: "ed_decompress (ed_one @ s) = Some (0, 1, 1, 0)"
proof -
  have "le_val (take 32 (ed_one @ s)) = 1" by (simp add: ed_one_def le_val_zeros)
  then show ?thesis by (simp add: ed_decompress_def ed_recover_x_def Let_def p25519_def bit_iff_odd)
qed

lemma ed_verify_one: "ed_verify ed_one m (ed_one @ replicate 32 0)"
proof -
  have "map (bit (0 :: nat)) xs = replicate (length xs) False" for xs by (induction xs) simp_all
  from this [of "rev [0..<256]"] have b: "scalar_bits (replicate 32 0) = replicate 256 False"
    by (simp add: scalar_bits_def le_val_zeros)
  have p: "ed_neutral (0, 1, 1, 0)" by (simp add: ed_neutral_def)
  have l: "length ed_one = 32" by (simp add: ed_one_def)
  have s: "take 32 (ed_one @ replicate 32 0) = ed_one" "drop 32 (ed_one @ replicate 32 (0 :: u8)) = replicate 32 0"
    using l by simp_all
  have d: "ed_decompress ed_one = Some (0, 1, 1, 0)" using decompress_one [of "[]"] by simp
  have "le_val (take 32 (replicate 32 0)) < group_order" by (simp add: le_val_zeros group_order_def)
  then show ?thesis
    unfolding ed_verify_def Let_def s d option.case case_prod_conv
    using neutral_equal [OF zero_mult neutral_add [OF p neutral_mult [OF p]]] by (simp add: b)
qed

section \<open>Properties\<close>

text \<open>
  The public key of a secret key is the one of RFC 8032: the compressed multiple of the base
  point by the clamped first half of the hash of the 32 secret bytes; nothing after its 32 bytes
  is written.
\<close>

theorem ed25519_public_key:
  assumes "32 \<le> length sk" and "32 \<le> length out"
  shows "Hacl_Ed25519_secret_to_public out sk = ed_public sk @ drop 32 out"
  using assms by (rule secret_to_public_eq)

theorem ed25519_public_key_witness:
  "Hacl_Ed25519_secret_to_public (replicate 33 5) (replicate 32 7) = ed_public (replicate 32 7) @ [5]"
  using ed25519_public_key [of "replicate 32 7" "replicate 33 5"] by (simp add: drop_replicate)

text \<open>
  C8: Signing produces the signature of RFC 8032 for every message length below \<open>2 ^ 32\<close>: the
  nonce is the reduced hash of the prefix and the message, the first half its compressed multiple
  of the base point, and the second half \<open>(r + k a) mod q\<close> with \<open>k\<close> the reduced hash of the first
  half, the public key and the message.  The 64 bytes are all that is written.
\<close>

theorem ed25519_sign_correct:
  assumes "32 \<le> length sk" and "unat len \<le> length msg" and "64 \<le> length out"
  shows "Hacl_Ed25519_sign out sk msg len = ed_sign sk (take (unat len) msg) @ drop 64 out"
  using assms by (rule sign_eq)

theorem ed25519_sign_correct_witness:
  "Hacl_Ed25519_sign (replicate 65 5) (replicate 32 7) [1, 2, 3, 4] 3 = ed_sign (replicate 32 7) [1, 2, 3] @ [5]"
  using ed25519_sign_correct [of "replicate 32 7" 3 "[1, 2, 3, 4]" "replicate 65 5"] by (simp add: drop_replicate)

text \<open>
  C9: Verification returns true exactly when the verification of RFC 8032 accepts: the public key
  and the first half of the signature are encodings of points, the second half is below the group
  order, and the group equation holds between the decoded points (without the cofactor).
\<close>

theorem ed25519_verify_correct:
  assumes "32 \<le> length pk" and "64 \<le> length sig" and "unat len \<le> length msg"
  shows "Hacl_Ed25519_verify pk msg len sig = ed_verify pk (take (unat len) msg) sig"
  using assms by (rule verify_eq)

theorem ed25519_verify_correct_witness:
  "Hacl_Ed25519_verify (replicate 32 3) [1, 2, 3, 4] 3 (replicate 64 0) = ed_verify (replicate 32 3) [1, 2, 3] (replicate 64 0)"
  using ed25519_verify_correct [of "replicate 32 3" "replicate 64 0" 3 "[1, 2, 3, 4]"] by simp

text \<open>
  C10: Non-canonical input is rejected: a public key or a first half whose 255-bit number is not
  below the prime, and a second half that is not below the group order (so that adding the order
  to the second half of a valid signature does not give another valid one).
\<close>

theorem ed25519_rejects_noncanonical:
  assumes "32 \<le> length pk" and "64 \<le> length sig" and "unat len \<le> length msg"
    and "p25519 \<le> int (le_val (take 32 pk) mod 2 ^ 255) \<or> p25519 \<le> int (le_val (take 32 sig) mod 2 ^ 255)
         \<or> group_order \<le> le_val (take 32 (drop 32 sig))"
  shows "Hacl_Ed25519_verify pk msg len sig = False"
  using verify_eq [OF assms(1-3)] ed_verify_rejects [OF assms(4)] by simp

theorem ed25519_rejects_noncanonical_witness:
  "Hacl_Ed25519_verify (replicate 32 3) [1, 2] 2 (replicate 32 0 @ replicate 32 0xff) = False"
proof -
  have "le_val (replicate n 0xff) + 1 = 256 ^ n" for n by (induction n) simp_all
  from this [of 32] have "group_order \<le> le_val (replicate 32 0xff)" by (simp add: group_order_def)
  then show ?thesis
    using ed25519_rejects_noncanonical [of "replicate 32 3" "replicate 32 0 @ replicate 32 0xff" 2 "[1, 2]"] by simp
qed

text \<open>
  C13: Points of small order are not refused: under the encoding of the neutral element as public
  key, the signature made of that encoding and of 32 zero bytes is valid for every message.
\<close>

theorem ed25519_order_one_key:
  assumes "unat len \<le> length msg"
  shows "Hacl_Ed25519_verify ed_one msg len (ed_one @ replicate 32 0) = True"
  using verify_eq [of ed_one "ed_one @ replicate 32 0" len msg] assms ed_verify_one by (simp add: ed_one_def)

theorem ed25519_order_one_key_witness:
  "Hacl_Ed25519_verify ed_one [1, 2, 3] 3 (ed_one @ replicate 32 0) = True"
  using ed25519_order_one_key [of 3 "[1, 2, 3]"] by simp

end
