(* ===== verification/NaClSign.thy ===== *)
theory NaClSign
  imports HaclNaCl Ed25519
begin

text \<open>
  The signatures of \<open>haclnacl.c\<close>: the attached-signature functions of the NaCl-like interface and
  the plain wrappers over \<open>Hacl_Ed25519.c\<close>.  A result delivered through a pointer to a length is
  returned after the buffers, before the code.  The lengths are 64 bits wide and are cut to 32 bits
  where the signature code takes them; \<open>memmove\<close> is \<open>memcpy\<close> on buffers that do not overlap.
\<close>

section \<open>Operations\<close>

definition ed25519_secret_to_public :: "bytes \<Rightarrow> bytes \<Rightarrow> bytes" where
  "ed25519_secret_to_public public_key secret_key = Hacl_Ed25519_secret_to_public public_key secret_key"

definition ed25519_sign :: "bytes \<Rightarrow> bytes \<Rightarrow> bytes \<Rightarrow> u32 \<Rightarrow> bytes" where
  "ed25519_sign signature secret msg msg_len = Hacl_Ed25519_sign signature secret msg msg_len"

definition ed25519_verify :: "bytes \<Rightarrow> bytes \<Rightarrow> u32 \<Rightarrow> bytes \<Rightarrow> bool" where
  "ed25519_verify public msg msg_len signature = Hacl_Ed25519_verify public msg msg_len signature"

definition crypto_sign :: "bytes \<Rightarrow> u64 \<Rightarrow> bytes \<Rightarrow> u64 \<Rightarrow> bytes \<Rightarrow> bytes \<times> u64 \<times> int" where
  "crypto_sign signed_msg signed_len msg msg_len sk =
     (let signed_msg = Hacl_Ed25519_sign signed_msg sk msg (ucast msg_len);
          signed_msg = at_ptr 64 (\<lambda>p. memcpy p msg (unat msg_len)) signed_msg;
          signed_len = msg_len + 64
      in (signed_msg, signed_len, 0))"

definition crypto_sign_open :: "bytes \<Rightarrow> u64 \<Rightarrow> bytes \<Rightarrow> u64 \<Rightarrow> bytes \<Rightarrow> bytes \<times> u64 \<times> int" where
  "crypto_sign_open unsigned_msg unsigned_msg_len msg msg_len pk =
     (let res = Hacl_Ed25519_verify pk (drop 64 msg) (ucast (msg_len - 64)) msg
      in if res then
           let unsigned_msg = memcpy unsigned_msg (drop 64 msg) (unat (msg_len - 64));
               unsigned_msg_len = msg_len - 64
           in (unsigned_msg, unsigned_msg_len, 0)
         else (unsigned_msg, unsigned_msg_len, - 1))"

text \<open>
  \<open>randombytes\<close> maps the buffer and the number of bytes asked for to the buffer it leaves, or to the
  error with which it ends the program; then nothing after the call is run.
\<close>

definition crypto_sign_keypair ::
    "(bytes \<Rightarrow> u64 \<Rightarrow> 'e + bytes) \<Rightarrow> bytes \<Rightarrow> bytes \<Rightarrow> 'e + (bytes \<times> bytes \<times> int)" where
  "crypto_sign_keypair randombytes pk sk =
     (case randombytes sk 32 of
        Inl e \<Rightarrow> Inl e
      | Inr sk \<Rightarrow>
          (let pk = Hacl_Ed25519_secret_to_public pk sk;
               sk = for_loop 0 32 (\<lambda>i sk. sk[32 + i := pk ! i]) sk
           in Inr (pk, sk, 0)))"

definition crypto_sign_secret_to_public :: "bytes \<Rightarrow> bytes \<Rightarrow> bytes \<times> int" where
  "crypto_sign_secret_to_public public_key secret_key =
     (let public_key = Hacl_Ed25519_secret_to_public public_key secret_key in (public_key, 0))"

section \<open>Properties\<close>

text \<open>The prefix of a list written by a loop over an offset.\<close>

lemma copy_key_loop:
  assumes "k + n \<le> length s" and "n \<le> length p"
  shows "for_loop 0 n (\<lambda>i s. s[k + i := p ! i]) s = take k s @ take n p @ drop (k + n) s"
  using assms
proof (induction n)
  case (Suc n)
  then show ?case
    by (simp add: for_loop_Suc list_update_append take_Suc_conv_app_nth Cons_nth_drop_Suc [symmetric])
qed (simp add: for_loop_def)

text \<open>
  A signed message is the signature of the message followed by the message, and the length
  reported is 64 more than that of the message.
\<close>

theorem crypto_sign_correct:
  assumes "unat len < 2 ^ 32" and "unat len \<le> length msg" and "32 \<le> length sk" and "64 + unat len \<le> length sm"
  shows "crypto_sign sm sl msg len sk
         = (ed_sign sk (take (unat len) msg) @ take (unat len) msg @ drop (64 + unat len) sm, len + 64, 0)"
proof -
  have "Hacl_Ed25519_sign sm sk msg (ucast len) = ed_sign sk (take (unat len) msg) @ drop 64 sm"
    using sign_eq [OF assms(3), of "ucast len" msg sm] assms by (simp add: unat_cut)
  moreover have "length (ed_sign sk m) = 64" for m
    by (simp add: ed_sign_def Let_def split_beta)
  ultimately show ?thesis
    by (simp add: crypto_sign_def at_ptr_pieces memcpy_def add.commute)
qed

theorem crypto_sign_correct_witness:
  "crypto_sign (replicate 67 0) 0 [1, 2, 3] 3 (replicate 32 7) = (ed_sign (replicate 32 7) [1, 2, 3] @ [1, 2, 3], 67, 0)"
  using crypto_sign_correct [of 3 "[1, 2, 3]" "replicate 32 7" "replicate 67 0" 0] by simp

lemma sign_open_eq:
  assumes "64 \<le> len" and "unat len \<le> length m" and "32 \<le> length pk"
  shows "crypto_sign_open um ul m len pk
         = (if ed_verify pk (take (unat (len - 64) mod 2 ^ 32) (drop 64 m)) (take 64 m)
            then (take (unat (len - 64)) (drop 64 m) @ drop (unat (len - 64)) um, len - 64, 0)
            else (um, ul, - 1))"
proof -
  have u: "unat (ucast (len - 64) :: u32) = unat (len - 64) mod 2 ^ 32"
    by (simp add: unsigned_ucast_eq take_bit_eq_mod)
  have l: "unat len = 64 + unat (len - 64)" using assms(1) by (simp add: word_le_nat_alt unat_sub)
  have "unat (len - 64) mod 2 ^ 32 \<le> unat (len - 64)" by simp
  then have v: "Hacl_Ed25519_verify pk (drop 64 m) (ucast (len - 64)) m
      = ed_verify pk (take (unat (len - 64) mod 2 ^ 32) (drop 64 m)) m"
    using verify_eq [OF assms(3), of m "ucast (len - 64)" "drop 64 m"] assms(2) l by (simp only: u) simp
  have "ed_verify pk x m = ed_verify pk x (take 64 m)" for x
    by (simp add: ed_verify_def drop_take)
  with v show ?thesis by (simp add: crypto_sign_open_def memcpy_def)
qed

text \<open>
  C14: Opening a signed message of at least 64 bytes and less than \<open>2 ^ 32 + 64\<close> returns 0 and the
  message when the first 64 bytes verify for the rest, and otherwise returns \<open>-1\<close> and leaves the
  message buffer and the length as they were.
\<close>

theorem crypto_sign_open_correct:
  assumes "64 \<le> len" and "unat len < 2 ^ 32 + 64" and "unat len \<le> length m" and "32 \<le> length pk"
  shows "crypto_sign_open um ul m len pk
         = (let msg = take (unat len - 64) (drop 64 m) in
            if ed_verify pk msg (take 64 m) then (msg @ drop (unat len - 64) um, len - 64, 0) else (um, ul, - 1))"
proof -
  have "unat (len - 64) = unat len - 64" using assms(1) by (simp add: word_le_nat_alt unat_sub)
  moreover have "(unat len - 64) mod 2 ^ 32 = unat len - 64" using assms(2) by simp
  ultimately show ?thesis
    by (simp only: sign_open_eq [OF assms(1,3,4)] Let_def)
qed

theorem crypto_sign_open_correct_witness:
  "crypto_sign_open [9, 9] 5 (replicate 64 0xff @ [1, 2]) 66 (replicate 32 3) = ([9, 9], 5, - 1)"
proof -
  have "le_val (replicate n 0xff) + 1 = 256 ^ n" for n by (induction n) simp_all
  from this [of 32] have "group_order \<le> le_val (replicate 32 0xff)" by (simp add: group_order_def)
  then have "\<not> ed_verify (replicate 32 3) [1, 2] (replicate 64 0xff)"
    by (intro ed_verify_rejects) simp
  then show ?thesis
    using crypto_sign_open_correct [of 66 "replicate 64 0xff @ [1, 2]" "replicate 32 3" "[9, 9]" 5] by simp
qed

text \<open>
  C15: The length is cut to 32 bits before the check but not before the copy: of a signed message of
  \<open>2 ^ 32 + 64\<close> bytes and more only the first \<open>(len - 64) mod 2 ^ 32\<close> bytes after the signature are
  authenticated, so whatever stands behind them is accepted and returned with them.
\<close>

theorem crypto_sign_open_long:
  assumes "64 \<le> len" and "unat len \<le> length m" and "unat len \<le> length m'" and "32 \<le> length pk"
    and "take (64 + (unat len - 64) mod 2 ^ 32) m = take (64 + (unat len - 64) mod 2 ^ 32) m'"
  shows "crypto_sign_open um ul m' len pk
         = (if snd (snd (crypto_sign_open um ul m len pk)) = 0
            then (take (unat len - 64) (drop 64 m') @ drop (unat len - 64) um, len - 64, 0) else (um, ul, - 1))"
proof -
  define k where "k = (unat len - 64) mod 2 ^ 32"
  have u: "unat (len - 64) = unat len - 64" using assms(1) by (simp add: word_le_nat_alt unat_sub)
  have "take 64 (take (64 + k) m) = take 64 (take (64 + k) m')" "drop 64 (take (64 + k) m) = drop 64 (take (64 + k) m')"
    using assms(5) by (simp_all only: k_def)
  then have t: "take 64 m' = take 64 m" "take k (drop 64 m') = take k (drop 64 m)"
    by (simp_all add: drop_take)
  show ?thesis
    unfolding sign_open_eq [OF assms(1,3,4)] sign_open_eq [OF assms(1,2,4)] u k_def [symmetric] t by simp
qed

theorem crypto_sign_open_long_witness:
  "crypto_sign_open [] 0 (ed_one @ replicate (32 + 2 ^ 32) 0 @ [5]) 0x100000041 ed_one
   = (replicate (2 ^ 32) 0 @ [5], 0x100000001, 0)"
proof -
  let ?m = "\<lambda>b. ed_one @ replicate (32 + 2 ^ 32) 0 @ [b :: u8]"
  have l: "length ed_one = 32" by (simp add: ed_one_def)
  have r: "replicate (32 + 2 ^ 32) (0 :: u8) = replicate 32 0 @ replicate (2 ^ 32) 0" by (simp only: replicate_add)
  have m: "take 64 (?m b) = ed_one @ replicate 32 0" "drop 64 (?m b) = replicate (2 ^ 32) 0 @ [b]" for b
    unfolding r using l by simp_all
  have "snd (snd (crypto_sign_open [] 0 (?m 0) 0x100000041 ed_one)) = 0"
    using sign_open_eq [of "0x100000041" "?m 0" ed_one "[]" 0] l ed_verify_one by (simp only: m) simp
  then show ?thesis
    using crypto_sign_open_long [of "0x100000041" "?m 0" "?m 5" ed_one "[]" 0] l by (simp add: m)
qed

text \<open>
  A new key pair: the public key is the one of the random bytes, and the secret key is those
  bytes followed by the public key.
\<close>

lemma keypair_eq:
  assumes "randombytes sk 32 = Inr s" and "length s = 64" and "length pk = 32"
  shows "crypto_sign_keypair randombytes pk sk = Inr (ed_public (take 32 s), take 32 s @ ed_public (take 32 s), 0)"
proof -
  have "ed_public (take 32 s) = ed_public s" by (simp add: ed_public_def ed_secret_def)
  moreover have "length (ed_public s) = 32" by (simp add: ed_public_def)
  ultimately show ?thesis
    using assms secret_to_public_eq [of s pk] copy_key_loop [of 32 32 s]
    by (simp add: crypto_sign_keypair_def Let_def)
qed

lemma keypair_exit:
  "randombytes sk 32 = Inl e \<Longrightarrow> crypto_sign_keypair randombytes pk sk = Inl e"
  by (simp add: crypto_sign_keypair_def)

end
