(* ===== verification/Kremlib_Host.thy ===== *)
theory Kremlib_Host
  imports UInt128 "HOL-Library.Signed_Division"
begin

text \<open>
  The rest of \<open>kremlib.h\<close> and \<open>kremlib_base.h\<close>: the byte-order macros of the two generic
  platforms (no operating system header), the loads and stores through them on a host of
  either byte order, the 128-bit loads and stores for compilers without \<open>__int128\<close>, the
  checked integers, and the size check.  A call of \<open>exit\<close> is the left value of a sum, and so is
  an operation without a defined result in C.
\<close>

section \<open>Rotations\<close>

definition rotate32_left :: "u32 \<Rightarrow> u32 \<Rightarrow> u32" where
  "rotate32_left x n = push_bit (unat n) x OR drop_bit (unat (32 - n)) x"

definition rotate32_right :: "u32 \<Rightarrow> u32 \<Rightarrow> u32" where
  "rotate32_right x n = drop_bit (unat n) x OR push_bit (unat (32 - n)) x"

section \<open>Generic byte order\<close>

text \<open>The macros of the little-endian branch (\<open>_le\<close>) and of the big-endian branch (\<open>_be\<close>).\<close>

definition htobe32_le :: "u32 \<Rightarrow> u32" where
  "htobe32_le x =
     (let temp = x
      in (drop_bit 24 temp AND 0x000000FF) OR (drop_bit 8 temp AND 0x0000FF00) OR
         (push_bit 8 temp AND 0x00FF0000) OR (push_bit 24 temp AND 0xFF000000))"

definition htobe64_le :: "u64 \<Rightarrow> u64" where
  "htobe64_le x =
     (let temp = x;
          low' = htobe32_le (ucast temp);
          high' = htobe32_le (ucast (drop_bit 32 temp))
      in push_bit 32 (ucast low') OR ucast high')"

definition htole32_be :: "u32 \<Rightarrow> u32" where
  "htole32_be x =
     (let temp = x
      in (drop_bit 24 temp AND 0x000000FF) OR (drop_bit 8 temp AND 0x0000FF00) OR
         (push_bit 8 temp AND 0x00FF0000) OR (push_bit 24 temp AND 0xFF000000))"

definition htobe32_be :: "u32 \<Rightarrow> u32" where
  "htobe32_be x = x"

definition htole64_be :: "u64 \<Rightarrow> u64" where
  "htole64_be x =
     (let temp = x;
          low' = htobe32_be (ucast temp);
          high' = htobe32_be (ucast (drop_bit 32 temp))
      in push_bit 32 (ucast low') OR ucast high')"

text \<open>
  The host's own loads and stores, a \<open>memcpy\<close> into a variable: a big-endian host reads the
  bytes in the opposite order.
\<close>

definition load32 :: "bool \<Rightarrow> bytes \<Rightarrow> u32" where
  "load32 big b = word_of_nat (le_val (if big then rev (take 4 b) else take 4 b))"

definition load64 :: "bool \<Rightarrow> bytes \<Rightarrow> u64" where
  "load64 big b = word_of_nat (le_val (if big then rev (take 8 b) else take 8 b))"

definition store32 :: "bool \<Rightarrow> bytes \<Rightarrow> u32 \<Rightarrow> bytes" where
  "store32 big b i = (if big then rev (le_bytes 4 (unat i)) else le_bytes 4 (unat i)) @ drop 4 b"

definition store64 :: "bool \<Rightarrow> bytes \<Rightarrow> u64 \<Rightarrow> bytes" where
  "store64 big b i = (if big then rev (le_bytes 8 (unat i)) else le_bytes 8 (unat i)) @ drop 8 b"

section \<open>128-bit loads and stores without a compiler type\<close>

definition load128_le' :: "bytes \<Rightarrow> uint128 \<Rightarrow> uint128" where
  "load128_le' b r = (let r = r\<lparr>low := load64_le b\<rparr> in r\<lparr>high := load64_le (drop 8 b)\<rparr>)"

definition store128_le' :: "bytes \<Rightarrow> uint128 \<Rightarrow> bytes" where
  "store128_le' b n = (let b = store64_le b (low n) in at_ptr 8 (\<lambda>b. store64_le b (high n)) b)"

definition load128_be' :: "bytes \<Rightarrow> uint128 \<Rightarrow> uint128" where
  "load128_be' b r = (let r = r\<lparr>high := load64_be b\<rparr> in r\<lparr>low := load64_be (drop 8 b)\<rparr>)"

definition store128_be' :: "bytes \<Rightarrow> uint128 \<Rightarrow> bytes" where
  "store128_be' b n = (let b = store64_be b (high n) in at_ptr 8 (\<lambda>b. store64_be b (low n)) b)"

section \<open>Checked integers\<close>

datatype krml_error = Exit nat | Undefined

type_synonym i32 = "32 word"
type_synonym i64 = "64 word"

text \<open>\<open>RETURN_OR\<close>: a 64-bit result that does not fit 32 bits ends the program with code 252.\<close>

definition RETURN_OR :: "i64 \<Rightarrow> krml_error + i32" where
  "RETURN_OR x = (let ret = x in if sint ret < - (2 ^ 31) \<or> 2 ^ 31 - 1 < sint ret then Inl (Exit 252) else Inr (scast ret))"

definition Prims_op_GreaterThanOrEqual :: "i32 \<Rightarrow> i32 \<Rightarrow> bool" where
  "Prims_op_GreaterThanOrEqual x y \<longleftrightarrow> y \<le>s x"

definition Prims_op_LessThanOrEqual :: "i32 \<Rightarrow> i32 \<Rightarrow> bool" where
  "Prims_op_LessThanOrEqual x y \<longleftrightarrow> x \<le>s y"

definition Prims_op_GreaterThan :: "i32 \<Rightarrow> i32 \<Rightarrow> bool" where
  "Prims_op_GreaterThan x y \<longleftrightarrow> y <s x"

definition Prims_op_LessThan :: "i32 \<Rightarrow> i32 \<Rightarrow> bool" where
  "Prims_op_LessThan x y \<longleftrightarrow> x <s y"

text \<open>A shift by a negative number, or one that leaves the positive numbers, is undefined in C.\<close>

definition Prims_pow2 :: "i32 \<Rightarrow> krml_error + i32" where
  "Prims_pow2 x = (if sint x < 0 \<or> 62 < sint x then Inl Undefined else RETURN_OR (push_bit (nat (sint x)) 1))"

definition Prims_op_Multiply :: "i32 \<Rightarrow> i32 \<Rightarrow> krml_error + i32" where
  "Prims_op_Multiply x y = RETURN_OR (scast x * scast y)"

definition Prims_op_Addition :: "i32 \<Rightarrow> i32 \<Rightarrow> krml_error + i32" where
  "Prims_op_Addition x y = RETURN_OR (scast x + scast y)"

definition Prims_op_Subtraction :: "i32 \<Rightarrow> i32 \<Rightarrow> krml_error + i32" where
  "Prims_op_Subtraction x y = RETURN_OR (scast x - scast y)"

text \<open>Division truncates towards zero; division by zero is undefined.\<close>

definition Prims_op_Division :: "i32 \<Rightarrow> i32 \<Rightarrow> krml_error + i32" where
  "Prims_op_Division x y = (if y = 0 then Inl Undefined else RETURN_OR (word_of_int (sint (scast x :: i64) sdiv sint (scast y :: i64))))"

definition Prims_op_Modulus :: "i32 \<Rightarrow> i32 \<Rightarrow> krml_error + i32" where
  "Prims_op_Modulus x y = (if y = 0 then Inl Undefined else RETURN_OR (word_of_int (sint (scast x :: i64) smod sint (scast y :: i64))))"

section \<open>Buffers\<close>

text \<open>\<open>memcmp\<close> on the first \<open>n\<close> elements; \<open>KRML_CHECK_SIZE\<close> for elements of \<open>sz\<close> bytes.\<close>

definition FStar_Buffer_eqb :: "'a list \<Rightarrow> 'a list \<Rightarrow> u32 \<Rightarrow> bool" where
  "FStar_Buffer_eqb b1 b2 n \<longleftrightarrow> take (unat n) b1 = take (unat n) b2"

definition KRML_CHECK_SIZE :: "u64 \<Rightarrow> u64 \<Rightarrow> krml_error + unit" where
  "KRML_CHECK_SIZE sz n = (if - 1 div sz < n then Inl (Exit 253) else Inr ())"

definition KRML_EXIT :: "krml_error + 'a" where
  "KRML_EXIT = Inl (Exit 254)"

definition KRML_EABORT :: "krml_error + 'a" where
  "KRML_EABORT = Inl (Exit 255)"

section \<open>The checked operations are exact or end the program\<close>

definition exact32 :: "int \<Rightarrow> krml_error + i32" where
  "exact32 v = (if v < - (2 ^ 31) \<or> 2 ^ 31 - 1 < v then Inl (Exit 252) else Inr (word_of_int v))"

lemma sint_widen: "sint (scast x :: i64) = sint (x :: i32)"
  using sint_ge [of x] sint_lt [of x]
  by (simp add: signed_scast_eq signed_take_bit_int_eq_self_iff)

lemma i32_abs: "\<bar>sint (x :: i32)\<bar> \<le> 2 ^ 31"
  using sint_ge [of x] sint_lt [of x] by simp

lemma RETURN_OR_exact: "sint r = v \<Longrightarrow> RETURN_OR r = exact32 v"
  by (auto simp: RETURN_OR_def exact32_def Let_def)

lemma sint_small: "\<bar>v\<bar> < 2 ^ 63 \<Longrightarrow> sint (word_of_int v :: i64) = v"
  by (simp add: sint_sbintrunc' signed_take_bit_int_eq_self_iff abs_less_iff)

lemma wide_ops:
  "scast x + scast y = (word_of_int (sint x + sint y) :: i64)"
  "scast x - scast y = (word_of_int (sint x - sint y) :: i64)"
  "scast x * scast y = (word_of_int (sint x * sint y) :: i64)" for x y :: i32
  by (simp_all only: scast_eq of_int_add of_int_diff of_int_mult)

lemma quotient_bound: "\<bar>sint x sdiv sint y\<bar> < 2 ^ 63" for x y :: i32
proof -
  have "sint x sdiv sint y \<in> {- \<bar>sint x\<bar> .. \<bar>sint x\<bar>}" by (rule sdiv_int_range)
  then show ?thesis using i32_abs [of x] by auto
qed

lemma remainder_bound: "y \<noteq> 0 \<Longrightarrow> \<bar>sint x smod sint y\<bar> < 2 ^ 63" for x y :: i32
proof -
  assume "y \<noteq> 0"
  then have "sint y \<noteq> 0" by (metis signed_word_eqI sint_0)
  from smod_int_range [OF this, of "sint x"] show ?thesis using i32_abs [of y] by auto
qed

lemma product_bound: "\<bar>sint x * sint y\<bar> < 2 ^ 63" for x y :: i32
proof -
  have "\<bar>sint x * sint y\<bar> \<le> 2 ^ 31 * 2 ^ 31"
    unfolding abs_mult using i32_abs [of x] i32_abs [of y] by (intro mult_mono) simp_all
  then show ?thesis by simp
qed

lemma pow2_exact: "0 \<le> sint x \<Longrightarrow> sint x \<le> 62 \<Longrightarrow> sint (2 ^ nat (sint x) :: i64) = 2 ^ nat (sint x)" for x :: i32
proof -
  assume x: "0 \<le> sint x" "sint x \<le> 62"
  have "(2 :: int) ^ nat (sint x) \<le> 2 ^ 62" using x by (intro power_increasing) simp_all
  then have "\<bar>(2 :: int) ^ nat (sint x)\<bar> < 2 ^ 63" by simp
  from sint_small [OF this] show ?thesis by simp
qed

lemma checked_ops:
  "Prims_op_Addition x y = exact32 (sint x + sint y)"
  "Prims_op_Subtraction x y = exact32 (sint x - sint y)"
  "Prims_op_Multiply x y = exact32 (sint x * sint y)"
  "Prims_op_Division x y = (if y = 0 then Inl Undefined else exact32 (sint x sdiv sint y))"
  "Prims_op_Modulus x y = (if y = 0 then Inl Undefined else exact32 (sint x smod sint y))"
  "Prims_pow2 x = (if sint x < 0 \<or> 62 < sint x then Inl Undefined else exact32 (2 ^ nat (sint x)))"
proof -
  have "\<bar>sint x + sint y\<bar> < 2 ^ 63" "\<bar>sint x - sint y\<bar> < 2 ^ 63"
    using i32_abs [of x] i32_abs [of y] by (simp_all add: abs_le_iff abs_less_iff)
  then show "Prims_op_Addition x y = exact32 (sint x + sint y)" "Prims_op_Subtraction x y = exact32 (sint x - sint y)"
    unfolding Prims_op_Addition_def Prims_op_Subtraction_def wide_ops by (intro RETURN_OR_exact sint_small; simp)+
  show "Prims_op_Multiply x y = exact32 (sint x * sint y)"
    unfolding Prims_op_Multiply_def wide_ops by (intro RETURN_OR_exact sint_small product_bound)
  show "Prims_op_Division x y = (if y = 0 then Inl Undefined else exact32 (sint x sdiv sint y))"
    unfolding Prims_op_Division_def sint_widen by (auto intro: RETURN_OR_exact sint_small quotient_bound)
  show "Prims_op_Modulus x y = (if y = 0 then Inl Undefined else exact32 (sint x smod sint y))"
    unfolding Prims_op_Modulus_def sint_widen by (auto intro: RETURN_OR_exact sint_small remainder_bound)
  show "Prims_pow2 x = (if sint x < 0 \<or> 62 < sint x then Inl Undefined else exact32 (2 ^ nat (sint x)))"
    by (auto simp: Prims_pow2_def push_bit_eq_mult not_less intro!: RETURN_OR_exact pow2_exact)
qed

section \<open>Byte order\<close>

lemma swap_masks:
  "(0x000000FF :: u32) = mask 8" "(0x0000FF00 :: u32) = push_bit 8 (mask 8)"
  "(0x00FF0000 :: u32) = push_bit 16 (mask 8)" "(0xFF000000 :: u32) = push_bit 24 (mask 8)"
  by (simp_all add: mask_eq_exp_minus_1 push_bit_eq_mult)

text \<open>Byte \<open>k\<close> of the swapped word is byte \<open>3 - k\<close> of the word.\<close>

lemma bit_swap: "bit (htobe32_le x) n \<longleftrightarrow> n < 32 \<and> bit x (8 * (3 - n div 8) + n mod 8)"
proof (cases "n < 32")
  case True
  define m where "m = n mod 8"
  have n: "n = 8 * (n div 8) + m" and "m < 8" by (simp_all add: m_def)
  have "n div 8 < 4" using True by simp
  then consider "n div 8 = 0" | "n div 8 = 1" | "n div 8 = 2" | "n div 8 = 3" by linarith
  then consider "n = m" | "n = 8 + m" | "n = 16 + m" | "n = 24 + m" using n by cases simp_all
  then show ?thesis
  proof cases
    case 1
    then show ?thesis
      using \<open>m < 8\<close> by (simp add: htobe32_le_def Let_def swap_masks bit_simps)
  next
    case 2
    then have "n div 8 = 1" "n mod 8 = m" using \<open>m < 8\<close> by presburger+
    with 2 show ?thesis using \<open>m < 8\<close> by (simp add: htobe32_le_def Let_def swap_masks bit_simps)
  next
    case 3
    then have "n div 8 = 2" "n mod 8 = m" using \<open>m < 8\<close> by presburger+
    with 3 show ?thesis using \<open>m < 8\<close> by (simp add: htobe32_le_def Let_def swap_masks bit_simps)
  next
    case 4
    then have "n div 8 = 3" "n mod 8 = m" using \<open>m < 8\<close> by presburger+
    with 4 show ?thesis using \<open>m < 8\<close> by (simp add: htobe32_le_def Let_def swap_masks bit_simps)
  qed
qed (auto dest: bit_imp_le_length)

lemma bit_swap64_low: "k < 32 \<Longrightarrow> bit (htobe64_le x) k \<longleftrightarrow> bit x (32 + (8 * (3 - k div 8) + k mod 8))"
  and bit_swap64_high: "k < 32 \<Longrightarrow> bit (htobe64_le x) (32 + k) \<longleftrightarrow> bit x (8 * (3 - k div 8) + k mod 8)"
proof -
  assume k: "k < 32"
  have "3 - k div 8 \<le> 3" "k mod 8 < 8" by simp_all
  then have i: "8 * (3 - k div 8) + k mod 8 < 32" by linarith
  have "bit (htobe64_le x) k \<longleftrightarrow> bit (htobe32_le (ucast (drop_bit 32 x))) k"
    using k by (simp add: htobe64_le_def Let_def bit_or_iff bit_push_bit_iff bit_unsigned_iff)
  then show "bit (htobe64_le x) k \<longleftrightarrow> bit x (32 + (8 * (3 - k div 8) + k mod 8))"
    using k i by (simp add: bit_swap bit_unsigned_iff bit_drop_bit_eq del: add_mult_distrib2)
  have "bit (htobe64_le x) (32 + k) \<longleftrightarrow> bit (htobe32_le (ucast x)) k"
    using k bit_imp_le_length [of "htobe32_le (ucast (drop_bit 32 x))" "32 + k"]
    by (auto simp: htobe64_le_def Let_def bit_or_iff bit_push_bit_iff bit_unsigned_iff)
  then show "bit (htobe64_le x) (32 + k) \<longleftrightarrow> bit x (8 * (3 - k div 8) + k mod 8)"
    using k i by (simp add: bit_swap bit_unsigned_iff)
qed

lemma bit_swap64: "bit (htobe64_le x) n \<longleftrightarrow> n < 64 \<and> bit x (8 * (7 - n div 8) + n mod 8)"
proof (cases "n < 64")
  case True
  show ?thesis
  proof (cases "n < 32")
    case True
    then have "n div 8 \<le> 3" by simp
    then have "32 + (8 * (3 - n div 8) + n mod 8) = 8 * (7 - n div 8) + n mod 8" by simp
    with bit_swap64_low [OF True, of x] \<open>n < 64\<close> show ?thesis by simp
  next
    case False
    then obtain k where n: "n = 32 + k" by (metis le_Suc_ex not_less)
    then have k: "k < 32" using True by simp
    have "n div 8 = 4 + k div 8" "n mod 8 = k mod 8"
      unfolding n by (simp_all add: div_plus_div_distrib_dvd_left mod_add_eq [symmetric, of 32])
    with bit_swap64_high [OF k, of x] True show ?thesis by (simp add: n)
  qed
qed (auto dest: bit_imp_le_length)

text \<open>What a host load reads, bit by bit.\<close>

lemma bit_host_load:
  fixes b :: bytes
  shows
  "4 \<le> length b \<Longrightarrow> bit (load32 big b) n \<longleftrightarrow> n < 32 \<and> bit (b ! (if big then 3 - n div 8 else n div 8)) (n mod 8)"
  "8 \<le> length b \<Longrightarrow> bit (load64 big b) n \<longleftrightarrow> n < 64 \<and> bit (b ! (if big then 7 - n div 8 else n div 8)) (n mod 8)"
  by (auto simp: load32_def load64_def bit_of_nat_iff possible_bit_word bit_le_val rev_nth less_mult_imp_div_less Suc_diff_Suc)

lemma bit_load_le:
  "4 \<le> length b \<Longrightarrow> bit (load32_le b) n \<longleftrightarrow> n < 32 \<and> bit (b ! (n div 8)) (n mod 8)"
  "8 \<le> length b \<Longrightarrow> bit (load64_le b) n \<longleftrightarrow> n < 64 \<and> bit (b ! (n div 8)) (n mod 8)"
  "4 \<le> length b \<Longrightarrow> bit (load32_be b) n \<longleftrightarrow> n < 32 \<and> bit (b ! (3 - n div 8)) (n mod 8)"
  "8 \<le> length b \<Longrightarrow> bit (load64_be b) n \<longleftrightarrow> n < 64 \<and> bit (b ! (7 - n div 8)) (n mod 8)"
  using bit_host_load [of b False n] bit_host_load [of b True n]
  by (simp_all add: load32_def load64_def load32_le_def load64_le_def load32_be_def load64_be_def)

lemma host_loads:
  assumes "8 \<le> length b"
  shows "load32 False b = load32_le b" "load64 False b = load64_le b"
    "load32 True b = load32_be b" "load64 True b = load64_be b"
    "htobe32_le (load32 False b) = load32_be b" "htobe64_le (load64 False b) = load64_be b"
    "htole32_be (load32 True b) = load32_le b"
proof -
  have c: "8 * (3 - n div 8) + n mod 8 < 32 \<and> (8 * (3 - n div 8) + n mod 8) div 8 = 3 - n div 8
      \<and> (8 * (3 - n div 8) + n mod 8) mod 8 = n mod 8" for n :: nat
  proof -
    have "3 - n div 8 \<le> 3" "n mod 8 < 8" by simp_all
    then show ?thesis by simp
  qed
  have d: "8 * (7 - n div 8) + n mod 8 < 64 \<and> (8 * (7 - n div 8) + n mod 8) div 8 = 7 - n div 8
      \<and> (8 * (7 - n div 8) + n mod 8) mod 8 = n mod 8" for n :: nat
  proof -
    have "7 - n div 8 \<le> 7" "n mod 8 < 8" by simp_all
    then show ?thesis by simp
  qed
  show "load32 False b = load32_le b" "load64 False b = load64_le b"
    "load32 True b = load32_be b" "load64 True b = load64_be b"
    by (simp_all add: load32_def load64_def load32_le_def load64_le_def load32_be_def load64_be_def)
  show "htobe32_le (load32 False b) = load32_be b"
    using assms c by (intro bit_word_eqI) (simp add: bit_swap bit_host_load bit_load_le)
  show "htobe64_le (load64 False b) = load64_be b"
    using assms d by (intro bit_word_eqI) (simp add: bit_swap64 bit_host_load bit_load_le)
  have "htole32_be = htobe32_le" by (intro ext) (simp add: htole32_be_def htobe32_le_def)
  then show "htole32_be (load32 True b) = load32_le b"
    using assms c by (intro bit_word_eqI) (auto simp: bit_swap bit_host_load bit_load_le less_Suc_eq_le)
qed

text \<open>The big-endian macro for 64 bits exchanges the halves and leaves each of them unswapped.\<close>

lemma htole64_halves:
  assumes "8 \<le> length b"
  shows "htole64_be (load64 True b) = load64_le [b ! 3, b ! 2, b ! 1, b ! 0, b ! 7, b ! 6, b ! 5, b ! 4]"
proof (rule bit_word_eqI)
  fix n assume "n < LENGTH(64)"
  then have "n < 64" by simp
  define k where "k = n div 8"
  have k: "k < 8" using \<open>n < 64\<close> by (simp add: k_def)
  have e: "bit (htole64_be x) n \<longleftrightarrow> (if n < 32 then bit x (n + 32) else bit x (n - 32))" for x
    using \<open>n < 64\<close> bit_imp_le_length [of "ucast (drop_bit 32 x) :: u32" n]
    by (auto simp: htole64_be_def htobe32_be_def Let_def bit_or_iff bit_push_bit_iff bit_unsigned_iff bit_drop_bit_eq
        add.commute)
  have low: "(n + 32) div 8 = k + 4" "(n + 32) mod 8 = n mod 8"
    by (simp_all add: k_def div_plus_div_distrib_dvd_right mod_add_eq [symmetric, of _ 32])
  have high: "(n - 32) div 8 = k - 4 \<and> (n - 32) mod 8 = n mod 8" if "\<not> n < 32"
  proof -
    from that obtain j where j: "n = j + 32" by (metis add.commute le_Suc_ex not_less)
    then show ?thesis by (simp add: k_def div_plus_div_distrib_dvd_right mod_add_eq [symmetric, of _ 32])
  qed
  have kn: "n < 32 \<longleftrightarrow> k < 4" by (simp add: k_def div_less_iff_less_mult)
  have "k = 0 \<or> k = 1 \<or> k = 2 \<or> k = 3 \<or> k = 4 \<or> k = 5 \<or> k = 6 \<or> k = 7" using k by linarith
  then show "bit (htole64_be (load64 True b)) n
      = bit (load64_le [b ! 3, b ! 2, b ! 1, b ! 0, b ! 7, b ! 6, b ! 5, b ! 4]) n"
    using assms \<open>n < 64\<close> low high kn
    by (auto simp: e bit_host_load bit_load_le k_def [symmetric])
qed

lemma load64_le_inj:
  assumes "length a = 8" and "8 \<le> length b"
  shows "load64_le a = load64_le b \<longleftrightarrow> a = take 8 b"
proof
  assume "load64_le a = load64_le b"
  then have e: "le_val (take 8 a) = le_val (take 8 b)" by (metis unat_load64_le)
  have "a = take 8 a" using assms(1) by (simp only: take_all order_refl)
  also have "\<dots> = le_bytes 8 (le_val (take 8 a))" by (rule le_bytes_take [symmetric]) (simp only: assms(1))
  also have "\<dots> = take 8 b" unfolding e by (rule le_bytes_take) (rule assms(2))
  finally show "a = take 8 b" .
qed (use assms in \<open>simp add: load64_le_def\<close>)

section \<open>The portable 128-bit loads and stores\<close>

lemma struct_loads:
  assumes "16 \<le> length b"
  shows "abs128 (load128_le' b r) = load128_le b" "abs128 (load128_be' b r) = load128_be b"
    "store128_le' b n = store128_le b (abs128 n)" "store128_be' b n = store128_be b (abs128 n)"
proof -
  show "abs128 (load128_le' b r) = load128_le b" "abs128 (load128_be' b r) = load128_be b"
    by (simp_all add: abs128_bits load128_le'_def load128_be'_def load128_le_def load128_be_def Let_def)
  have h: "ucast (drop_bit 64 (abs128 n)) = high n" "ucast (abs128 n) = low n"
    by (auto intro!: bit_word_eqI simp: bit_ucast_iff bit_drop_bit_eq bit_abs128 add.commute)
  show "store128_le' b n = store128_le b (abs128 n)" "store128_be' b n = store128_be b (abs128 n)"
    by (simp_all add: store128_le'_def store128_be'_def store128_le_def store128_be_def Let_def h)
qed

section \<open>Properties\<close>

text \<open>
  The checked operations are exact: each returns the mathematical result when it fits 32 bits
  and ends the program with code 252 when it does not; division truncates, and only
  division by zero and shifts out of range have no defined result.
\<close>

theorem checked_integers_exact:
  "Prims_op_Addition x y = exact32 (sint x + sint y)
   \<and> Prims_op_Subtraction x y = exact32 (sint x - sint y)
   \<and> Prims_op_Multiply x y = exact32 (sint x * sint y)
   \<and> Prims_op_Division x y = (if y = 0 then Inl Undefined else exact32 (sint x sdiv sint y))
   \<and> Prims_op_Modulus x y = (if y = 0 then Inl Undefined else exact32 (sint x smod sint y))
   \<and> Prims_pow2 x = (if sint x < 0 \<or> 62 < sint x then Inl Undefined else exact32 (2 ^ nat (sint x)))"
  by (intro conjI) (rule checked_ops)+

text \<open>
  C20: On the generic platforms the 32-bit macros, and the 64-bit ones of the little-endian branch, give
  the loads their names promise.  The 64-bit macro of the big-endian branch does not: it
  exchanges the halves without swapping the bytes in them, so \<open>load64_le\<close> through it is
  right only for eight bytes that are a palindrome in each half.
\<close>

theorem generic_byte_order:
  assumes "8 \<le> length b"
  shows "htobe32_le (load32 False b) = load32_be b \<and> htobe64_le (load64 False b) = load64_be b
         \<and> load32 False b = load32_le b \<and> load64 False b = load64_le b
         \<and> htole32_be (load32 True b) = load32_le b \<and> load32 True b = load32_be b \<and> load64 True b = load64_be b
         \<and> (htole64_be (load64 True b) = load64_le b) = (b ! 0 = b ! 3 \<and> b ! 1 = b ! 2 \<and> b ! 4 = b ! 7 \<and> b ! 5 = b ! 6)"
proof -
  have t: "take 8 b = [b ! 0, b ! 1, b ! 2, b ! 3, b ! 4, b ! 5, b ! 6, b ! 7]"
    using assms by (simp add: list_eq_iff_nth_eq nth_Cons' less_Suc_eq numeral_eq_Suc)
  have "(htole64_be (load64 True b) = load64_le b) = (b ! 0 = b ! 3 \<and> b ! 1 = b ! 2 \<and> b ! 4 = b ! 7 \<and> b ! 5 = b ! 6)"
    unfolding htole64_halves [OF assms] using assms by (subst load64_le_inj) (auto simp: t)
  then show ?thesis by (intro conjI) (rule host_loads [OF assms] | assumption)+
qed

theorem generic_byte_order_witness:
  "htobe64_le (load64 False [1, 2, 3, 4, 5, 6, 7, 8]) = load64_be [1, 2, 3, 4, 5, 6, 7, 8]
   \<and> htole64_be (load64 True [1, 2, 3, 4, 5, 6, 7, 8]) \<noteq> load64_le [1, 2, 3, 4, 5, 6, 7, 8]"
proof -
  let ?b = "[1, 2, 3, 4, 5, 6, 7, 8] :: bytes"
  have "8 \<le> length ?b" by simp
  note g = generic_byte_order [OF this]
  have "?b ! 0 \<noteq> ?b ! 3" by simp
  with g show ?thesis by blast
qed

text \<open>
  The pointer versions for compilers without \<open>__int128\<close> load and store the same numbers as the
  native ones.
\<close>

theorem portable_128_loads:
  assumes "16 \<le> length b"
  shows "abs128 (load128_le' b r) = load128_le b \<and> abs128 (load128_be' b r) = load128_be b
         \<and> store128_le' b n = store128_le b (abs128 n) \<and> store128_be' b n = store128_be b (abs128 n)"
  using struct_loads [OF assms] by simp

theorem portable_128_loads_witness:
  "abs128 (load128_le' (replicate 16 3) \<lparr>low = 0, high = 0\<rparr>) = load128_le (replicate 16 3)"
  using portable_128_loads [of "replicate 16 3" "\<lparr>low = 0, high = 0\<rparr>"] by simp

end
