(* ===== verification/Random_Bytes.thy ===== *)
theory Random_Bytes
  imports NaClSign Kremlib_Host
begin

text \<open>
  \<open>Hacl_Unverified_Random.c\<close>, the POSIX branch: random bytes are read from the device
  \<open>/dev/urandom\<close>, and \<open>randombytes\<close> ends the program when that fails.  The system calls are
  parameters: \<open>fd\<close> is the result of \<open>open\<close>, and \<open>read_fd\<close> maps the length and the buffer to
  the result of \<open>read\<close> and the buffer it leaves.  \<open>close\<close> and the messages have no influence.
\<close>

section \<open>Definitions\<close>

definition read_random_bytes :: "i32 \<Rightarrow> (u64 \<Rightarrow> bytes \<Rightarrow> i64 \<times> bytes) \<Rightarrow> u64 \<Rightarrow> bytes \<Rightarrow> bytes \<times> bool" where
  "read_random_bytes fd read_fd len buf =
     (if fd = - 1 then (buf, False)
      else let pass = True in
        case read_fd len buf of (res, buf) \<Rightarrow>
          let pass = (if res \<noteq> len then False else pass) in (buf, pass))"

definition randombytes :: "i32 \<Rightarrow> (u64 \<Rightarrow> bytes \<Rightarrow> i64 \<times> bytes) \<Rightarrow> bytes \<Rightarrow> u64 \<Rightarrow> krml_error + bytes" where
  "randombytes fd read_fd x len =
     (case read_random_bytes fd read_fd len x of (x, pass) \<Rightarrow> if \<not> pass then Inl (Exit 1) else Inr x)"

text \<open>
  The contract of \<open>read\<close>: it returns -1, or the number of bytes it has put in front of the
  buffer, at most the number asked for; the bytes behind them are left alone.
\<close>

definition posix_read :: "(u64 \<Rightarrow> bytes \<Rightarrow> i64 \<times> bytes) \<Rightarrow> bool" where
  "posix_read read_fd \<longleftrightarrow>
     (\<forall>len buf. unat len \<le> length buf \<longrightarrow>
        (case read_fd len buf of (res, buf') \<Rightarrow>
           length buf' = length buf \<and>
           (res = - 1 \<or> unat res \<le> unat len \<and> drop (unat res) buf' = drop (unat res) buf)))"

section \<open>Lemmas\<close>

lemma posix_readD:
  assumes "posix_read read_fd" and "unat len \<le> length buf" and "read_fd len buf = (res, buf')"
  shows "length buf' = length buf" "res = - 1 \<or> unat res \<le> unat len \<and> drop (unat res) buf' = drop (unat res) buf"
  using assms unfolding posix_read_def by force+

lemma randombytes_result:
  assumes "posix_read read_fd" and "unat len \<le> length x" and "unat len < 2 ^ 63"
  shows "randombytes fd read_fd x len =
           (if fd \<noteq> - 1 \<and> fst (read_fd len x) = len
            then Inr (take (unat len) (snd (read_fd len x)) @ drop (unat len) x) else Inl (Exit 1))"
proof -
  obtain res b where r: "read_fd len x = (res, b)" by (cases "read_fd len x")
  have "len \<noteq> - 1" using assms(3) by (auto simp: unsigned_minus_1_eq_mask mask_eq_exp_minus_1)
  then have "drop (unat len) b = drop (unat len) x" if "res = len"
    using posix_readD(2) [OF assms(1,2) r] that by auto
  then show ?thesis
    by (auto simp: randombytes_def read_random_bytes_def r Let_def) (metis append_take_drop_id)
qed

section \<open>Properties\<close>

text \<open>
  C24: New keys, with \<open>randombytes\<close> as the random source of both key generations.  When the
  device cannot be opened, or does not deliver all 32 bytes in one read, the program ends with
  code 1 and no key is returned.  Otherwise the secret signing key is the 32 bytes read into its
  buffer followed by the public key they determine, and a box key is the 32 bytes with their
  multiple of the base point as public key.
\<close>

theorem seeded_keypair:
  assumes "posix_read read_fd" and "length sk = 64" and "length pk = 32"
    and "length bsk = 32" and "length bpk = 32"
  shows "crypto_sign_keypair (randombytes fd read_fd) pk sk
           = (if fd \<noteq> - 1 \<and> fst (read_fd 32 sk) = 32
              then let seed = take 32 (snd (read_fd 32 sk)) in Inr (ed_public seed, seed @ ed_public seed, 0)
              else Inl (Exit 1))
         \<and> crypto_box_keypair (randombytes fd read_fd) bpk bsk
           = (if fd \<noteq> - 1 \<and> fst (read_fd 32 bsk) = 32
              then Inr (x25519 (snd (read_fd 32 bsk)) (9 # replicate 31 0), snd (read_fd 32 bsk), 0)
              else Inl (Exit 1))"
proof
  have l: "length (snd (read_fd 32 sk)) = 64" "length (snd (read_fd 32 bsk)) = 32"
    using posix_readD(1) [OF assms(1), of 32 sk "fst (read_fd 32 sk)" "snd (read_fd 32 sk)"]
      posix_readD(1) [OF assms(1), of 32 bsk "fst (read_fd 32 bsk)" "snd (read_fd 32 bsk)"] assms by simp_all
  have r: "randombytes fd read_fd sk 32
      = (if fd \<noteq> - 1 \<and> fst (read_fd 32 sk) = 32 then Inr (take 32 (snd (read_fd 32 sk)) @ drop 32 sk) else Inl (Exit 1))"
    using randombytes_result [OF assms(1), of 32 sk fd] assms by simp
  show "crypto_sign_keypair (randombytes fd read_fd) pk sk
           = (if fd \<noteq> - 1 \<and> fst (read_fd 32 sk) = 32
              then let seed = take 32 (snd (read_fd 32 sk)) in Inr (ed_public seed, seed @ ed_public seed, 0)
              else Inl (Exit 1))"
    using assms l by (simp add: r keypair_eq keypair_exit Let_def)
  have b: "randombytes fd read_fd bsk 32
      = (if fd \<noteq> - 1 \<and> fst (read_fd 32 bsk) = 32 then Inr (snd (read_fd 32 bsk)) else Inl (Exit 1))"
    using randombytes_result [OF assms(1), of 32 bsk fd] assms l by simp
  show "crypto_box_keypair (randombytes fd read_fd) bpk bsk
           = (if fd \<noteq> - 1 \<and> fst (read_fd 32 bsk) = 32
              then Inr (x25519 (snd (read_fd 32 bsk)) (9 # replicate 31 0), snd (read_fd 32 bsk), 0)
              else Inl (Exit 1))"
    using assms l by (simp add: b box_keypair_eq box_keypair_exit)
qed

theorem seeded_keypair_witness:
  "\<exists>pk bpk. crypto_sign_keypair (randombytes 3 (\<lambda>n b. (n, replicate (unat n) 7 @ drop (unat n) b)))
        (replicate 32 0) (replicate 64 0) = Inr (pk, replicate 32 7 @ pk, 0)
     \<and> crypto_box_keypair (randombytes 3 (\<lambda>n b. (n, replicate (unat n) 7 @ drop (unat n) b)))
        (replicate 32 0) (replicate 32 0) = Inr (bpk, replicate 32 7, 0)"
proof -
  let ?rd = "(\<lambda>n b. (n, replicate (unat n) 7 @ drop (unat n) b)) :: u64 \<Rightarrow> bytes \<Rightarrow> i64 \<times> bytes"
  have "posix_read ?rd" by (simp add: posix_read_def)
  then show ?thesis
    using seeded_keypair [of ?rd "replicate 64 0" "replicate 32 0" "replicate 32 0" "replicate 32 0" 3]
    by (simp add: Let_def)
qed

end
