(* ===== verification/Pss.thy ===== *)
theory Pss
  imports Hmac Kremlib_Host
begin

text \<open>
  The encoding of messages for RSA signatures in \<open>snapshots/hacl-c-experimental/rsa-c/RSA.c\<close>:
  EMSA-PSS of RFC 8017 with SHA-256, a salt of 20 bytes and the mask generation function MGF1.
  The SHA-256 of that directory is a copy of \<open>Hacl_SHA2_256.c\<close> and is modelled there.  The mask
  generation is a recursion whose end depends on the wrapping of a size; it is a partial
  function, and \<open>None\<close> stands for not returning and for the copy out of bounds it makes when the
  size wraps to zero.
\<close>

section \<open>The code\<close>

definition RSA_get_octets :: "u32 \<Rightarrow> u32" where
  "RSA_get_octets modBits = (modBits + 7) div 8"

definition RSA_get_length_em :: "u32 \<Rightarrow> u32" where
  "RSA_get_length_em modBits =
     (if (modBits - 1) mod 8 = 0 then RSA_get_octets modBits - 1 else RSA_get_octets modBits)"

definition RSA_hash_sha256 :: "bytes \<Rightarrow> bytes \<Rightarrow> u32 \<Rightarrow> bytes" where
  "RSA_hash_sha256 mHash m len = Hacl_SHA2_256_hash mHash m len"

partial_function (option) RSA_mgf :: "u32 \<Rightarrow> bytes \<Rightarrow> u32 \<Rightarrow> u32 \<Rightarrow> bytes \<Rightarrow> bytes \<Rightarrow> bytes option" where
  "RSA_mgf mgfseed_len mgfseed len counter acc res =
     (let c = replicate 4 0;
          c = c[0 := ucast (drop_bit 24 counter)];
          c = c[1 := ucast (drop_bit 16 counter)];
          c = c[2 := ucast (drop_bit 8 counter)];
          c = c[3 := ucast counter];
          tmp = replicate (unat (mgfseed_len + 4)) 0;
          tmp = memcpy tmp mgfseed (unat mgfseed_len);
          tmp = at_ptr (unat mgfseed_len) (\<lambda>p. memcpy p c 4) tmp;
          hash_tmp = RSA_hash_sha256 (replicate 32 0) tmp (mgfseed_len + 4);
          counter1 = counter + 1;
          acc_size = counter1 * 32
      in if acc_size < 32 then None
         else
           let acc_tmp = replicate (unat acc_size) 0;
               acc_tmp = memcpy acc_tmp acc (unat (acc_size - 32));
               acc_tmp = at_ptr (unat acc_size - 32) (\<lambda>p. memcpy p hash_tmp 32) acc_tmp
           in if acc_size < len then RSA_mgf mgfseed_len mgfseed len counter1 acc_tmp res
              else Some (memcpy res acc_tmp (unat len)))"

function RSA_xordb :: "bytes \<Rightarrow> bytes \<Rightarrow> u32 \<Rightarrow> bytes" where
  "RSA_xordb b1 b2 len =
     (if 0 < len
      then let len1 = len - 1;
               b1 = b1[unat len1 := b1 ! unat len1 XOR b2 ! unat len1]
           in RSA_xordb b1 b2 len1
      else b1)"
  by pat_completeness auto
termination
  by (relation "measure (\<lambda>(b1, b2, len). unat len)") (auto simp: unat_minus_one word_less_nat_alt unat_gt_0)

declare RSA_xordb.simps [simp del]

definition RSA_pss_encode :: "u32 \<Rightarrow> bytes \<Rightarrow> u32 \<Rightarrow> bytes \<Rightarrow> bytes \<Rightarrow> bytes option" where
  "RSA_pss_encode modBits msg len salt em =
     (let mHash = RSA_hash_sha256 (replicate 32 0) msg len;
          emBits = modBits - 1;
          emLen = RSA_get_length_em modBits;
          m1_size = 8 + 32 + 20 :: u32;
          m1 = replicate (unat m1_size) 0;
          m1 = at_ptr 8 (\<lambda>p. memcpy p mHash 32) m1;
          m1 = at_ptr (8 + 32) (\<lambda>p. memcpy p salt 20) m1;
          m1Hash = RSA_hash_sha256 (replicate 32 0) m1 m1_size;
          db_size = emLen - 32 - 1;
          db = replicate (unat db_size) 0;
          ind_1 = emLen - 20 - 32 - 2;
          db = db[unat ind_1 := 1];
          db = at_ptr (unat ind_1 + 1) (\<lambda>p. memcpy p salt 20) db;
          dbMask = replicate (unat db_size) 0
      in case RSA_mgf 32 m1Hash db_size 0 [] dbMask of
           None \<Rightarrow> None
         | Some dbMask \<Rightarrow>
             let db = RSA_xordb db dbMask db_size;
                 zeroL = 8 * emLen - emBits;
                 db = db[0 := db ! 0 AND drop_bit (unat zeroL) 0xff];
                 em = memcpy em db (unat db_size);
                 em = at_ptr (unat db_size) (\<lambda>p. memcpy p m1Hash 32) em
             in Some (em[unat (emLen - 1) := 0xbc]))"

text \<open>
  Verification works in place: the first part of \<open>em\<close> is unmasked.  The shift of \<open>0xff\<close> by
  \<open>8 - zeroL\<close> is one of an \<open>int\<close>.
\<close>

definition RSA_pss_verify :: "u32 \<Rightarrow> bytes \<Rightarrow> bytes \<Rightarrow> u32 \<Rightarrow> (bytes \<times> bool) option" where
  "RSA_pss_verify modBits em msg len =
     (let emLen = RSA_get_length_em modBits;
          m1_size = 8 + 32 + 20 :: u32;
          pad_size = emLen - 20 - 32 - 1;
          db_size = emLen - 32 - 1;
          mHash = replicate 32 0; m1Hash' = replicate 32 0;
          m1 = replicate (unat m1_size) 0; pad2 = replicate (unat pad_size) 0;
          dbMask = replicate (unat db_size) 0;
          mHash = RSA_hash_sha256 mHash msg len
      in if em ! unat (emLen - 1) \<noteq> 0xbc then Some (em, False)
         else
           let m1Hash = drop (unat db_size) em;
               zeroL = 8 * emLen - (modBits - 1);
               tmp = ucast ((ucast (em ! 0) :: i32) AND push_bit (unat (8 - zeroL)) 0xff) :: u8
           in if tmp \<noteq> 0 then Some (em, False)
              else
                case RSA_mgf 32 m1Hash db_size 0 [] dbMask of
                  None \<Rightarrow> None
                | Some dbMask \<Rightarrow>
                    let em = RSA_xordb em dbMask db_size;
                        em = em[0 := em ! 0 AND drop_bit (unat zeroL) 0xff];
                        pad2 = pad2[unat (pad_size - 1) := 1]
                    in if \<not> FStar_Buffer_eqb em pad2 pad_size then Some (em, False)
                       else
                         let salt = drop (unat pad_size) em;
                             m1 = at_ptr 8 (\<lambda>p. memcpy p mHash 32) m1;
                             m1 = at_ptr (8 + 32) (\<lambda>p. memcpy p salt 20) m1;
                             m1Hash' = RSA_hash_sha256 m1Hash' m1 m1_size
                         in Some (em, FStar_Buffer_eqb (drop (unat db_size) em) m1Hash' 32))"

section \<open>RFC 8017\<close>

definition octets4 :: "nat \<Rightarrow> bytes" where
  "octets4 i = [word_of_nat (i div 2 ^ 24), word_of_nat (i div 2 ^ 16), word_of_nat (i div 2 ^ 8), word_of_nat i]"

definition mgf_blocks :: "bytes \<Rightarrow> nat \<Rightarrow> bytes" where
  "mgf_blocks seed n = concat (map (\<lambda>i. sha256_spec (seed @ octets4 i)) [0..<n])"

definition mgf1 :: "bytes \<Rightarrow> nat \<Rightarrow> bytes" where
  "mgf1 seed n = take n (mgf_blocks seed ((n + 31) div 32))"

definition pss_hash :: "bytes \<Rightarrow> bytes \<Rightarrow> bytes" where
  "pss_hash msg salt = sha256_spec (replicate 8 0 @ sha256_spec msg @ salt)"

definition pss_clear :: "nat \<Rightarrow> bytes \<Rightarrow> bytes" where
  "pss_clear k db = db[0 := db ! 0 AND drop_bit k 0xff]"

text \<open>The encoding of a message in \<open>bits\<close> bits; \<open>(bits + 7) div 8\<close> bytes.\<close>

definition pss_encoding :: "nat \<Rightarrow> bytes \<Rightarrow> bytes \<Rightarrow> bytes" where
  "pss_encoding bits msg salt =
     (let n = (bits + 7) div 8; h = pss_hash msg salt;
          db = replicate (n - length salt - 34) 0 @ [1] @ salt
      in pss_clear (8 * n - bits) (xor_bytes db (mgf1 h (n - 33))) @ h @ [0xbc])"

section \<open>Lengths\<close>

lemma round_octets:
  assumes "0 < n"
  shows "(if (n - 1) mod 8 = 0 then (n + 7) div 8 - 1 else (n + 7) div 8) = (n + 6) div (8 :: nat)"
proof -
  define q r where "q = (n - 1) div 8" and "r = (n - 1) mod 8"
  have n: "n = 8 * q + r + 1" "r < 8" using assms by (simp_all add: q_def r_def)
  have e: "n + 7 = 8 * q + (r + 8)" "n + 6 = 8 * q + (r + 7)" "(n - 1) mod 8 = r" using n by simp_all
  have "(8 * q + (r + 8)) div 8 = q + (r + 8) div 8" "(8 * q + (r + 7)) div 8 = q + (r + 7) div 8" by simp_all
  moreover have "(r + 8) div 8 = 1" "(r + 7) div 8 = (if r = 0 then 0 else 1)"
    using n(2) by (simp_all add: div_nat_eqI)
  ultimately show ?thesis unfolding e by simp
qed

lemma length_em:
  assumes "1 \<le> modBits" and "unat modBits < 2 ^ 32 - 7"
  shows "unat (RSA_get_length_em modBits) = (unat modBits + 6) div 8"
proof -
  have p: "0 < unat modBits" using assms(1) by (simp add: word_le_nat_alt)
  have o: "unat (RSA_get_octets modBits) = (unat modBits + 7) div 8"
    using assms(2) by (simp add: RSA_get_octets_def unat_div unat_plus)
  have m: "unat ((modBits - 1) mod 8) = (unat modBits - 1) mod 8"
    using assms(1) by (simp add: unat_mod unat_sub)
  have "unat (RSA_get_octets modBits - 1) = (unat modBits + 7) div 8 - 1"
    using p by (simp add: unat_sub word_le_nat_alt o)
  moreover have "((modBits - 1) mod 8 = 0) = ((unat modBits - 1) mod 8 = 0)"
    unfolding m [symmetric] by (simp add: unat_eq_zero)
  moreover note round_octets [OF p]
  ultimately show ?thesis by (auto simp: RSA_get_length_em_def o split: if_splits)
qed

lemma xordb_eq:
  "unat len \<le> length b1 \<Longrightarrow> unat len \<le> length b2 \<Longrightarrow>
   RSA_xordb b1 b2 len = xor_bytes (take (unat len) b1) (take (unat len) b2) @ drop (unat len) b1"
proof (induction "unat len" arbitrary: b1 len)
  case 0
  then have "len = 0" by (simp add: unat_eq_zero)
  then show ?case by (simp add: RSA_xordb.simps [of b1 b2 0] xor_bytes_def)
next
  case (Suc n)
  then have p: "0 < len" by (auto simp: word_less_nat_alt)
  have "len \<noteq> 0" using Suc.hyps(2) by auto
  then have u: "unat (len - 1) = n" using Suc.hyps(2) by (simp add: unat_minus_one)
  have n: "n < length b1" "n < length b2" using Suc by simp_all
  let ?b = "b1[n := b1 ! n XOR b2 ! n]"
  have "RSA_xordb b1 b2 len = RSA_xordb ?b b2 (len - 1)"
    using p by (subst RSA_xordb.simps) (simp add: u)
  also have "\<dots> = xor_bytes (take n ?b) (take n b2) @ drop n ?b"
    using Suc.hyps(1) [of "len - 1" ?b] n by (simp add: u)
  also have "drop n ?b = (b1 ! n XOR b2 ! n) # drop (Suc n) b1"
    using n by (simp add: Cons_nth_drop_Suc [symmetric])
  finally show ?case
    using n by (simp add: Suc.hyps(2) [symmetric] take_Suc_conv_app_nth xor_bytes_def)
qed

section \<open>The mask\<close>

lemma length_mgf_blocks [simp]: "length (mgf_blocks seed n) = 32 * n"
  by (induction n) (simp_all add: mgf_blocks_def length_sha256_spec)

lemma length_mgf1 [simp]: "length (mgf1 seed n) = n"
  by (simp add: mgf1_def)

lemma mgf_blocks_Suc: "mgf_blocks seed (Suc n) = mgf_blocks seed n @ sha256_spec (seed @ octets4 n)"
  by (simp add: mgf_blocks_def)

lemma ucast_drop: "ucast (drop_bit n c) = (word_of_nat (unat c div 2 ^ n) :: u8)" for c :: u32
  by (metis drop_bit_eq_div of_nat_unat unat_drop_bit_eq)

lemma octets4_bytes:
  "(replicate 4 0)[0 := ucast (drop_bit 24 c), 1 := ucast (drop_bit 16 c), 2 := ucast (drop_bit 8 c), 3 := ucast c]
   = octets4 (unat (c :: u32))"
proof -
  have "replicate 4 (0 :: u8) = [0, 0, 0, 0]" by (simp add: eval_nat_numeral)
  then show ?thesis using ucast_drop [of 0 c] by (simp add: octets4_def ucast_drop)
qed

text \<open>One call, with the first \<open>k\<close> blocks of the mask made.\<close>

lemma mgf_unfold:
  assumes "32 \<le> length seed" and "k < 2 ^ 27 - 1"
  shows "RSA_mgf 32 seed len (word_of_nat k) (mgf_blocks (take 32 seed) k) res =
           (if 32 * Suc k < unat len then RSA_mgf 32 seed len (word_of_nat (Suc k)) (mgf_blocks (take 32 seed) (Suc k)) res
            else Some (memcpy res (mgf_blocks (take 32 seed) (Suc k)) (unat len)))"
proof -
  have w: "unat (word_of_nat m :: u32) = m" if "m < 2 ^ 32" for m using that by (simp add: unat_of_nat)
  have k: "unat (word_of_nat k :: u32) = k" using assms(2) by (intro w) simp
  have "(word_of_nat k + 1) * 32 = (word_of_nat (32 * Suc k) :: u32)" by (simp add: algebra_simps)
  then have s: "unat ((word_of_nat k + 1) * 32 :: u32) = 32 * Suc k"
    using assms(2) w [of "32 * Suc k"] by (simp only:) simp
  have "(word_of_nat k + 1) * 32 - 32 = (word_of_nat (32 * k) :: u32)" by (simp add: algebra_simps)
  then have s': "unat ((word_of_nat k + 1) * 32 - 32 :: u32) = 32 * k"
    using assms(2) w [of "32 * k"] by (simp only:) simp
  have n: "\<not> (word_of_nat k + 1) * 32 < (32 :: u32)" using s by (simp add: word_less_nat_alt)
  have l: "((word_of_nat k + 1) * 32 < len) = (32 * Suc k < unat len)" using s by (simp add: word_less_nat_alt)
  have t: "at_ptr 32 (\<lambda>p. memcpy p (octets4 k) 4) (memcpy (replicate 36 0) seed 32) = take 32 seed @ octets4 k"
    using assms(1) by (simp add: at_ptr_def memcpy_def octets4_def)
  have h: "RSA_hash_sha256 (replicate 32 0) (take 32 seed @ octets4 k) 36 = sha256_spec (take 32 seed @ octets4 k)"
    unfolding RSA_hash_sha256_def using assms(1) by (simp add: sha256_hash_eq octets4_def)
  have a: "at_ptr (32 * Suc k - 32) (\<lambda>p. memcpy p (sha256_spec (take 32 seed @ octets4 k)) 32)
      (memcpy (replicate (32 * Suc k) 0) (mgf_blocks (take 32 seed) k) (32 * k)) = mgf_blocks (take 32 seed) (Suc k)"
    by (simp add: at_ptr_def memcpy_def mgf_blocks_Suc)
  have o: "(replicate 4 0)[0 := ucast (drop_bit 24 (word_of_nat k :: u32)), 1 := ucast (drop_bit 16 (word_of_nat k :: u32)),
      2 := ucast (drop_bit 8 (word_of_nat k :: u32)), 3 := ucast (word_of_nat k :: u32)] = octets4 k"
    using octets4_bytes [of "word_of_nat k"] by (simp only: k)
  have e: "(32 + 4 :: u32) = 36" "unat (36 :: u32) = 36" "unat (32 :: u32) = 32" by simp_all
  have c: "word_of_nat k + 1 = (word_of_nat (Suc k) :: u32)" by (simp add: add.commute)
  show ?thesis
    by (subst RSA_mgf.simps) (simp only: Let_def o e t h c n [unfolded c] if_False s [unfolded c] s' [unfolded c] l [unfolded c] a)
qed

lemma mgf_run:
  assumes "32 \<le> length seed" and "length res = unat len" and "unat len \<le> 2 ^ 32 - 32"
  shows "k = 0 \<or> 32 * k < unat len \<Longrightarrow>
         RSA_mgf 32 seed len (word_of_nat k) (mgf_blocks (take 32 seed) k) res = Some (mgf1 (take 32 seed) (unat len))"
proof (induction "(unat len + 31) div 32 - k" arbitrary: k rule: less_induct)
  case less
  have k: "k < 2 ^ 27 - 1" using less.prems assms(3) by auto
  show ?case
  proof (cases "32 * Suc k < unat len")
    case True
    then have "k < (unat len + 31) div 32" by simp
    then have "(unat len + 31) div 32 - Suc k < (unat len + 31) div 32 - k" by simp
    from less.hyps [OF this] True show ?thesis
      unfolding mgf_unfold [OF assms(1) k] by simp
  next
    case False
    have "mgf1 (take 32 seed) (unat len) = take (unat len) (mgf_blocks (take 32 seed) (Suc k))"
    proof (cases "unat len = 0")
      case nz: False
      with less.prems False have "32 * k < unat len" "unat len \<le> 32 * Suc k" by auto
      then have "(unat len + 31) div 32 = Suc k" by (intro div_nat_eqI) simp_all
      then show ?thesis by (simp only: mgf1_def)
    qed (simp add: mgf1_def)
    then show ?thesis
      unfolding mgf_unfold [OF assms(1) k] using False assms(2) by (simp add: memcpy_def)
  qed
qed

lemma mgf_eq:
  assumes "32 \<le> length seed" and "length res = unat len" and "unat len \<le> 2 ^ 32 - 32"
  shows "RSA_mgf 32 seed len 0 [] res = Some (mgf1 (take 32 seed) (unat len))"
  using mgf_run [OF assms, of 0] by (simp add: mgf_blocks_def)

section \<open>Encoding\<close>

lemma sizes:
  assumes "54 \<le> (unat modBits + 6) div 8" and "unat modBits < 2 ^ 32 - 7"
  defines "n \<equiv> (unat modBits + 6) div 8"
  shows "unat (RSA_get_length_em modBits) = n" "(unat modBits - 1 + 7) div 8 = n" "n < 2 ^ 29"
    "unat (RSA_get_length_em modBits - 32 - 1) = n - 33"
    "unat (RSA_get_length_em modBits - 20 - 32 - 1) = n - 53"
    "unat (RSA_get_length_em modBits - 20 - 32 - 2) = n - 54"
    "unat (RSA_get_length_em modBits - 1) = n - 1"
    "unat (RSA_get_length_em modBits - 20 - 32 - 1 - 1) = n - 54"
    "unat (8 * RSA_get_length_em modBits - (modBits - 1)) = 8 * n - (unat modBits - 1)"
    "8 * n - (unat modBits - 1) < 8"
proof -
  have m: "48 \<le> unat modBits" using assms(1) by auto
  then have m1: "1 \<le> modBits" by (simp add: word_le_nat_alt)
  show l: "unat (RSA_get_length_em modBits) = n" unfolding n_def by (rule length_em [OF m1 assms(2)])
  show "(unat modBits - 1 + 7) div 8 = n" using m by (simp add: n_def)
  have n: "54 \<le> n" "8 * n \<le> unat modBits + 6" "unat modBits < 8 * n + 2" using assms(1) by (auto simp: n_def)
  show n29: "n < 2 ^ 29" using n(2) assms(2) by simp
  have sub: "unat (RSA_get_length_em modBits - c) = n - unat c" if "unat c \<le> n" for c
    using that l by (simp add: unat_sub word_le_nat_alt)
  have e: "RSA_get_length_em modBits - 32 - 1 = RSA_get_length_em modBits - 33"
    "RSA_get_length_em modBits - 20 - 32 - 1 = RSA_get_length_em modBits - 53"
    "RSA_get_length_em modBits - 20 - 32 - 2 = RSA_get_length_em modBits - 54"
    "RSA_get_length_em modBits - 20 - 32 - 1 - 1 = RSA_get_length_em modBits - 54" by simp_all
  show "unat (RSA_get_length_em modBits - 32 - 1) = n - 33"
    "unat (RSA_get_length_em modBits - 20 - 32 - 1) = n - 53"
    "unat (RSA_get_length_em modBits - 20 - 32 - 2) = n - 54"
    "unat (RSA_get_length_em modBits - 1) = n - 1"
    "unat (RSA_get_length_em modBits - 20 - 32 - 1 - 1) = n - 54"
    unfolding e using n(1) sub [of 33] sub [of 53] sub [of 54] sub [of 1] by simp_all
  have "unat (8 * RSA_get_length_em modBits) = 8 * n"
    using n29 by (simp add: unat_word_ariths l)
  then show "unat (8 * RSA_get_length_em modBits - (modBits - 1)) = 8 * n - (unat modBits - 1)"
    using n m1 by (simp add: unat_sub word_le_nat_alt)
  show "8 * n - (unat modBits - 1) < 8" using n m by linarith
qed

lemma m1_block:
  "length h = 32 \<Longrightarrow> 20 \<le> length salt \<Longrightarrow>
   at_ptr (8 + 32) (\<lambda>p. memcpy p salt 20) (at_ptr 8 (\<lambda>p. memcpy p h 32) (replicate 60 0))
   = replicate 8 0 @ h @ take 20 salt"
  by (simp add: at_ptr_def memcpy_def)

lemma hash_m1:
  assumes "unat len \<le> length msg" and "20 \<le> length salt" and "length b = 32"
  shows "RSA_hash_sha256 b
          (at_ptr (8 + 32) (\<lambda>p. memcpy p salt 20)
            (at_ptr 8 (\<lambda>p. memcpy p (RSA_hash_sha256 (replicate 32 0) msg len) 32) (replicate (unat (8 + 32 + 20 :: u32)) 0)))
          (8 + 32 + 20)
         = pss_hash (take (unat len) msg) (take 20 salt)"
proof -
  have "RSA_hash_sha256 (replicate 32 0) msg len = sha256_spec (take (unat len) msg)"
    using assms(1) by (simp add: RSA_hash_sha256_def sha256_hash_eq)
  moreover have "unat (8 + 32 + 20 :: u32) = 60" by simp
  ultimately show ?thesis
    using assms(2,3) unfolding RSA_hash_sha256_def pss_hash_def
    by (simp only: m1_block length_sha256_spec) (simp add: sha256_hash_eq)
qed

lemma length_pss_hash [simp]: "length (pss_hash m s) = 32"
  by (simp add: pss_hash_def)

lemma length_pss_clear [simp]: "length (pss_clear k d) = length d"
  by (simp add: pss_clear_def)

lemma pss_encode_eq:
  assumes "54 \<le> (unat modBits + 6) div 8" and "unat modBits < 2 ^ 32 - 7"
    and "unat len \<le> length msg" and "20 \<le> length salt" and "(unat modBits + 6) div 8 \<le> length em"
  shows "RSA_pss_encode modBits msg len salt em
         = Some (pss_encoding (unat modBits - 1) (take (unat len) msg) (take 20 salt) @ drop ((unat modBits + 6) div 8) em)"
proof -
  define n where "n = (unat modBits + 6) div 8"
  note z = sizes [OF assms(1,2), folded n_def]
  have n: "54 \<le> n" "n \<le> length em" using assms(1,5) by (simp_all add: n_def)
  define h where "h = pss_hash (take (unat len) msg) (take 20 salt)"
  have h: "length h = 32" by (simp add: h_def)
  let ?db = "replicate (n - 54) 0 @ [1] @ take 20 salt"
  obtain k where k: "n = k + 54" using n(1) by (metis add.commute le_Suc_ex)
  have u: "(replicate (n - 33) 0)[n - 54 := 1] = replicate (n - 54) 0 @ [1] @ replicate 20 (0 :: u8)"
  proof -
    have "n - 33 = k + Suc 20" by (simp add: k)
    then have "replicate (n - 33) (0 :: u8) = replicate k 0 @ 0 # replicate 20 0"
      by (simp only: replicate_add replicate_Suc)
    then show ?thesis by (simp add: k list_update_append)
  qed
  have db: "at_ptr (n - 54 + 1) (\<lambda>p. memcpy p salt 20) ((replicate (n - 33) 0)[n - 54 := 1]) = ?db"
    unfolding u by (simp add: k at_ptr_def memcpy_def)
  have mgf: "RSA_mgf 32 h (RSA_get_length_em modBits - 32 - 1) 0 [] (replicate (n - 33) 0) = Some (mgf1 h (n - 33))"
    using mgf_eq [of h "replicate (n - 33) 0" "RSA_get_length_em modBits - 32 - 1"] h z(3,4) by simp
  have x: "RSA_xordb ?db (mgf1 h (n - 33)) (RSA_get_length_em modBits - 32 - 1) = xor_bytes ?db (mgf1 h (n - 33))"
    using xordb_eq [of "RSA_get_length_em modBits - 32 - 1" ?db "mgf1 h (n - 33)"] assms(4) z(4) by (simp add: k)
  define d where "d = pss_clear (8 * n - (unat modBits - 1)) (xor_bytes ?db (mgf1 h (n - 33)))"
  have d: "length d = n - 33" using assms(4) by (simp add: d_def k)
  have "(at_ptr (n - 33) (\<lambda>p. memcpy p h 32) (memcpy em d (n - 33)))[n - 1 := 0xbc] = d @ h @ [0xbc] @ drop n em"
    using n(2) d h Cons_nth_drop_Suc [of "k + 53" em]
    by (simp add: at_ptr_def memcpy_def k list_update_append Cons_nth_drop_Suc [symmetric] add.commute)
  moreover have "pss_encoding (unat modBits - 1) (take (unat len) msg) (take 20 salt) = d @ h @ [0xbc]"
  proof -
    have "length (take 20 salt) = 20" using assms(4) by simp
    then show ?thesis unfolding pss_encoding_def Let_def z(2) h_def d_def by simp
  qed
  ultimately show ?thesis
    unfolding RSA_pss_encode_def Let_def hash_m1 [OF assms(3,4) length_replicate] z(4,6,7,9) h_def [symmetric] db mgf
      option.case x pss_clear_def [symmetric] d_def [symmetric] by (simp add: n_def)
qed

section \<open>Verification\<close>

text \<open>The test for the leading bits in the code, on an \<open>int\<close>.\<close>

lemma top_bits:
  fixes x :: u8
  assumes "k < 8" and "unat (z :: u32) = k"
  shows "(ucast ((ucast x :: i32) AND push_bit (unat (8 - z)) 0xff) = (0 :: u8)) = (x AND drop_bit k 0xff = x)"
proof -
  have s: "unat (8 - z) = 8 - k" using assms by (simp add: unat_sub word_le_nat_alt)
  have ff: "(0xff :: 'a :: len word) = mask 8" by (simp add: mask_eq_exp_minus_1)
  have l: "bit (ucast ((ucast x :: i32) AND push_bit (8 - k) 0xff) :: u8) j = (bit x j \<and> 8 - k \<le> j)" if "j < 8" for j
    using that assms(1) by (auto simp: ff bit_simps)
  have r: "bit (x AND drop_bit k 0xff) j = (bit x j \<and> \<not> 8 - k \<le> j)" if "j < 8" for j
    using that assms(1) by (auto simp: ff bit_simps)
  have "w = v \<longleftrightarrow> (\<forall>j < 8. bit w j = bit v j)" for w v :: u8 by (auto intro: bit_word_eqI)
  note e = this
  show ?thesis unfolding s e using l r by auto
qed

text \<open>Masking twice gives back a block whose leading bits are clear.\<close>

lemma clear_xor:
  assumes "length a = length m" and "a \<noteq> []" and "a ! 0 AND drop_bit k 0xff = a ! 0"
  shows "pss_clear k (xor_bytes (pss_clear k (xor_bytes a m)) m) = a"
proof (rule nth_equalityI)
  fix i assume i: "i < length (pss_clear k (xor_bytes (pss_clear k (xor_bytes a m)) m))"
  have "((a ! 0 XOR y) AND b XOR y) AND b = a ! 0 AND b" for y b :: u8
    by (rule bit_word_eqI) (auto simp: bit_simps)
  moreover have "(a ! i XOR y) XOR y = a ! i" for y by (simp add: xor.assoc)
  ultimately show "pss_clear k (xor_bytes (pss_clear k (xor_bytes a m)) m) ! i = a ! i"
    using i assms by (cases i) (simp_all add: pss_clear_def)
qed (use assms in simp)

text \<open>What an encoding is, seen from its three parts.\<close>

lemma encoding_iff:
  assumes "54 \<le> n" and "n = (bits + 7) div 8" and "8 * n - bits = k" and "k < 8"
    and "length db = n - 33" and "length h = 32"
  defines "d \<equiv> pss_clear k (xor_bytes db (mgf1 h (n - 33)))"
  shows "(\<exists>salt. length salt = 20 \<and> db @ h @ [t] = pss_encoding bits msg salt)
         = (t = 0xbc \<and> db ! 0 AND drop_bit k 0xff = db ! 0 \<and> take (n - 53) d = replicate (n - 54) 0 @ [1]
            \<and> h = pss_hash msg (drop (n - 53) d))" (is "?l = ?r")
proof
  have ld: "length d = n - 33" using assms(5) by (simp add: d_def)
  have enc: "pss_encoding bits msg s
      = pss_clear k (xor_bytes (replicate (n - 54) 0 @ [1] @ s) (mgf1 (pss_hash msg s) (n - 33))) @ pss_hash msg s @ [0xbc]"
    if "length s = 20" for s
    using that by (simp add: pss_encoding_def Let_def assms(2) [symmetric] assms(3))
  show ?r if l: ?l
  proof -
    from l obtain s where s: "length s = 20" "db @ h @ [t] = pss_encoding bits msg s" by auto
    define p where "p = replicate (n - 54) 0 @ [1] @ s"
    have lp: "length p = n - 33" using s(1) assms(1) by (simp add: p_def)
    have e: "db = pss_clear k (xor_bytes p (mgf1 h (n - 33)))" "h = pss_hash msg s" "t = 0xbc"
      using s(2) assms(5,6) lp unfolding enc [OF s(1)] p_def [symmetric] by simp_all
    have "p ! 0 = 0 \<or> p ! 0 = 1" by (cases "n - 54") (simp_all add: p_def)
    moreover have "drop_bit k (0xff :: u8) AND 1 = 1"
    proof -
      have "(0xff :: u8) = mask 8" by (simp add: mask_eq_exp_minus_1)
      then have "bit (0xff :: u8) k" using assms(4) by (simp only: bit_mask_iff) simp
      then show ?thesis by (simp add: and_one_eq bit_iff_odd_drop_bit odd_iff_mod_2_eq_one)
    qed
    ultimately have p0: "p ! 0 AND drop_bit k 0xff = p ! 0" by (auto simp: and.commute)
    have "p \<noteq> []" by (simp add: p_def)
    then have dp: "d = p" using clear_xor [OF _ _ p0, of "mgf1 h (n - 33)"] lp unfolding d_def e(1) by simp
    have "db ! 0 AND drop_bit k 0xff = db ! 0"
      using lp assms(1) unfolding e(1) pss_clear_def by (simp add: and.assoc)
    then show ?r using e(2,3) dp s(1) assms(1) by (simp add: p_def)
  qed
  show ?l if r: ?r
  proof (intro exI conjI)
    let ?s = "drop (n - 53) d"
    show s: "length ?s = 20" using ld assms(1) by simp
    have "replicate (n - 54) 0 @ [1] @ ?s = d" using r by (metis append.assoc append_take_drop_id)
    moreover have "db \<noteq> []" using assms(1,5) by auto
    then have "pss_clear k (xor_bytes d (mgf1 h (n - 33))) = db"
      unfolding d_def using r assms(5) by (intro clear_xor) simp_all
    ultimately show "db @ h @ [t] = pss_encoding bits msg ?s" unfolding enc [OF s] using r by simp
  qed
qed

lemma pss_verify_eq:
  assumes "54 \<le> (unat modBits + 6) div 8" and "unat modBits < 2 ^ 32 - 7"
    and "unat len \<le> length msg" and "(unat modBits + 6) div 8 \<le> length em"
  defines "n \<equiv> (unat modBits + 6) div 8"
  shows "\<exists>em'. length em' = length em \<and> drop (n - 33) em' = drop (n - 33) em \<and>
           RSA_pss_verify modBits em msg len
           = Some (em', \<exists>salt. length salt = 20 \<and> take n em = pss_encoding (unat modBits - 1) (take (unat len) msg) salt)"
proof -
  note z = sizes [OF assms(1,2), folded n_def]
  have n: "54 \<le> n" "n \<le> length em" using assms(1,4) by (simp_all add: n_def)
  define k where "k = 8 * n - (unat modBits - 1)"
  define db where "db = take (n - 33) em"
  define h where "h = take 32 (drop (n - 33) em)"
  define d where "d = pss_clear k (xor_bytes db (mgf1 h (n - 33)))"
  let ?msg = "take (unat len) msg" and ?e = "RSA_get_length_em modBits"
  have len: "length db = n - 33" "length h = 32" "length d = n - 33" "db \<noteq> []"
    using n by (auto simp: db_def h_def d_def)
  have "take n em = take (n - 33 + 32 + 1) em" using n(1) by simp
  then have em: "take n em = db @ h @ [em ! (n - 1)]" using n
    by (simp only: take_add db_def h_def drop_drop append.assoc) (simp add: take_Suc_conv_app_nth hd_drop_conv_nth take_Suc)
  have iff: "(\<exists>salt. length salt = 20 \<and> take n em = pss_encoding (unat modBits - 1) ?msg salt)
      = (em ! (n - 1) = 0xbc \<and> db ! 0 AND drop_bit k 0xff = db ! 0 \<and> take (n - 53) d = replicate (n - 54) 0 @ [1]
         \<and> h = pss_hash ?msg (drop (n - 53) d))"
    unfolding em d_def using len z(2,10) n by (intro encoding_iff) (simp_all add: k_def)
  have top: "(ucast ((ucast (em ! 0) :: i32) AND push_bit (unat (8 - (8 * ?e - (modBits - 1)))) 0xff) = (0 :: u8))
      = (db ! 0 AND drop_bit k 0xff = db ! 0)"
    using top_bits [of k "8 * ?e - (modBits - 1)" "em ! 0"] z(9,10) n by (simp add: k_def db_def)
  have mgf: "RSA_mgf 32 (drop (n - 33) em) (?e - 32 - 1) 0 [] (replicate (n - 33) 0) = Some (mgf1 h (n - 33))"
    using mgf_eq [of "drop (n - 33) em" "replicate (n - 33) 0" "?e - 32 - 1"] n z(3,4) by (simp add: h_def)
  define em1 where "em1 = d @ drop (n - 33) em"
  have x: "(RSA_xordb em (mgf1 h (n - 33)) (?e - 32 - 1))[0 := RSA_xordb em (mgf1 h (n - 33)) (?e - 32 - 1) ! 0 AND drop_bit k 0xff] = em1"
    using xordb_eq [of "?e - 32 - 1" em "mgf1 h (n - 33)"] n len z(4)
    by (simp add: em1_def d_def pss_clear_def db_def [symmetric] list_update_append nth_append)
  have em1: "take (n - 53) em1 = take (n - 53) d" "drop (n - 53) em1 = drop (n - 53) d @ drop (n - 33) em"
    "drop (n - 33) em1 = drop (n - 33) em" "length em1 = length em"
    using n len by (simp_all add: em1_def)
  have pad: "(replicate (n - 53) 0)[n - 54 := 1] = replicate (n - 54) 0 @ [1 :: u8]"
  proof -
    have "n - 53 = n - 54 + Suc 0" using n by simp
    then have "replicate (n - 53) (0 :: u8) = replicate (n - 54) 0 @ [0]" by (simp only: replicate_add) simp
    then show ?thesis by (simp add: list_update_append)
  qed
  have salt: "take 20 (drop (n - 53) em1) = drop (n - 53) d" "20 \<le> length (drop (n - 53) em1)"
    using n len by (simp_all add: em1)
  have buf: "FStar_Buffer_eqb em1 (replicate (n - 54) 0 @ [1]) (?e - 20 - 32 - 1)
      = (take (n - 53) d = replicate (n - 54) 0 @ [1])"
    "FStar_Buffer_eqb (drop (n - 33) em1) (pss_hash ?msg (drop (n - 53) d)) 32 = (h = pss_hash ?msg (drop (n - 53) d))"
    unfolding FStar_Buffer_eqb_def z(5) em1 h_def using n by (simp_all add: min_def)
  have code: "RSA_pss_verify modBits em msg len =
      (if em ! (n - 1) \<noteq> 0xbc then Some (em, False)
       else if \<not> db ! 0 AND drop_bit k 0xff = db ! 0 then Some (em, False)
       else if \<not> take (n - 53) d = replicate (n - 54) 0 @ [1] then Some (em1, False)
       else Some (em1, h = pss_hash ?msg (drop (n - 53) d)))"
    unfolding RSA_pss_verify_def Let_def z(4,5,7,8,9) k_def [symmetric] mgf option.case x pad buf(1) top
      hash_m1 [OF assms(3) salt(2) length_replicate] salt(1) buf(2) ..
  show ?thesis unfolding iff code using em1 by (auto simp del: drop_append)
qed

section \<open>Properties\<close>

text \<open>Past \<open>2 ^ 27 - 1\<close> blocks the size of the mask wraps to zero.\<close>

lemma mgf_wraps: "RSA_mgf 32 seed len (word_of_nat (2 ^ 27 - 1)) acc res = None"
proof -
  have "(word_of_nat (2 ^ 27 - 1) + 1) * 32 < (32 :: u32)" by simp
  then show ?thesis by (subst RSA_mgf.simps) (simp only: Let_def if_True)
qed

lemma mgf_long:
  assumes "32 \<le> length seed" and "2 ^ 32 - 32 < unat len"
  shows "d \<le> 2 ^ 27 - 1 \<Longrightarrow> k = 2 ^ 27 - 1 - d \<Longrightarrow>
         RSA_mgf 32 seed len (word_of_nat k) (mgf_blocks (take 32 seed) k) res = None"
proof (induction d arbitrary: k)
  case 0
  then show ?case by (simp only: diff_zero mgf_wraps)
next
  case (Suc d)
  then have k: "k < 2 ^ 27 - 1" "Suc k = 2 ^ 27 - 1 - d" by simp_all
  then have l: "32 * Suc k < unat len" using assms(2) by simp
  have "RSA_mgf 32 seed len (word_of_nat (Suc k)) (mgf_blocks (take 32 seed) (Suc k)) res = None"
    using Suc.prems(1) by (intro Suc.IH [OF _ k(2)]) simp
  with l show ?case unfolding mgf_unfold [OF assms(1) k(1)] by (simp only: if_True)
qed

text \<open>
  C31: The recursion of the mask generation ends, with the MGF1 mask of RFC 8017, for every length
  up to \<open>2 ^ 32 - 32\<close>; for a longer mask the size of the accumulator wraps to zero before it is
  long enough, and there is no result.
\<close>

theorem mgf_terminates:
  assumes "32 \<le> length seed" and "length res = unat len"
  shows "RSA_mgf 32 seed len 0 [] res
         = (if unat len \<le> 2 ^ 32 - 32 then Some (mgf1 (take 32 seed) (unat len)) else None)"
proof (cases "unat len \<le> 2 ^ 32 - 32")
  case True
  then show ?thesis using mgf_eq [OF assms] by simp
next
  case False
  then show ?thesis
    using mgf_long [OF assms(1) _ order_refl, of len 0 res] by (simp add: mgf_blocks_def)
qed

theorem mgf_terminates_witness:
  "RSA_mgf 32 (replicate 32 1) 40 0 [] (replicate 40 0) = Some (mgf1 (replicate 32 1) 40)"
  using mgf_terminates [of "replicate 32 1" "replicate 40 0" 40] by simp

text \<open>
  C32: Verification accepts exactly the encodings of the message, under some salt of 20 bytes, and it
  always returns; it writes only the masked part of the encoded message.
\<close>

theorem pss_verify_iff:
  assumes "54 \<le> (unat modBits + 6) div 8" and "unat modBits < 2 ^ 32 - 7"
    and "unat len \<le> length msg" and "(unat modBits + 6) div 8 \<le> length em"
  shows "\<exists>em'. length em' = length em
           \<and> drop ((unat modBits + 6) div 8 - 33) em' = drop ((unat modBits + 6) div 8 - 33) em
           \<and> RSA_pss_verify modBits em msg len
             = Some (em', \<exists>salt. length salt = 20
                 \<and> take ((unat modBits + 6) div 8) em = pss_encoding (unat modBits - 1) (take (unat len) msg) salt)"
  using assms by (rule pss_verify_eq)

theorem pss_verify_iff_witness:
  "\<exists>em'. RSA_pss_verify 512 (replicate 64 0) [1, 2, 3] 3 = Some (em', False)"
proof -
  have "\<not> (\<exists>salt. length salt = 20 \<and> replicate 64 0 = pss_encoding 511 [1, 2, 3] salt)"
  proof
    assume "\<exists>salt. length salt = 20 \<and> replicate 64 0 = pss_encoding 511 [1, 2, 3] salt"
    then obtain salt where "replicate 64 0 = pss_encoding 511 [1, 2, 3] salt" by auto
    from arg_cong [OF this, of last] show False by (simp add: pss_encoding_def Let_def)
  qed
  then show ?thesis using pss_verify_iff [of 512 3 "[1, 2, 3]" "replicate 64 0"] by auto
qed

text \<open>
  Encoding and verification fit: for every message length and every modulus of at least 426
  bits, encoding returns, and what it writes is accepted.
\<close>

theorem pss_roundtrip:
  assumes "54 \<le> (unat modBits + 6) div 8" and "unat modBits < 2 ^ 32 - 7"
    and "unat len \<le> length msg" and "20 \<le> length salt" and "(unat modBits + 6) div 8 \<le> length em"
  shows "\<exists>c c'. RSA_pss_encode modBits msg len salt em = Some c
           \<and> c = pss_encoding (unat modBits - 1) (take (unat len) msg) (take 20 salt) @ drop ((unat modBits + 6) div 8) em
           \<and> RSA_pss_verify modBits c msg len = Some (c', True)"
proof -
  define n where "n = (unat modBits + 6) div 8"
  let ?p = "pss_encoding (unat modBits - 1) (take (unat len) msg) (take 20 salt)"
  have e: "RSA_pss_encode modBits msg len salt em = Some (?p @ drop n em)"
    unfolding n_def using assms by (rule pss_encode_eq)
  have "length (take 20 salt) = 20" using assms(4) by simp
  then have p: "length ?p = n"
    using sizes(2) [OF assms(1,2)] assms(1) unfolding pss_encoding_def Let_def n_def by simp
  then have t: "take n (?p @ drop n em) = ?p" by simp
  have "n \<le> length (?p @ drop n em)" using p by simp
  then obtain c' where "RSA_pss_verify modBits (?p @ drop n em) msg len
      = Some (c', \<exists>s. length s = 20 \<and> take n (?p @ drop n em) = pss_encoding (unat modBits - 1) (take (unat len) msg) s)"
    using pss_verify_eq [OF assms(1-3)] unfolding n_def by blast
  moreover have "\<exists>s. length s = 20 \<and> take n (?p @ drop n em) = pss_encoding (unat modBits - 1) (take (unat len) msg) s"
    unfolding t using \<open>length (take 20 salt) = 20\<close> by blast
  ultimately show ?thesis using e unfolding n_def by auto
qed

theorem pss_roundtrip_witness:
  "\<exists>c c'. RSA_pss_encode 512 [1, 2, 3] 3 (replicate 20 9) (replicate 64 0) = Some c
     \<and> RSA_pss_verify 512 c [1, 2, 3] 3 = Some (c', True)"
  using pss_roundtrip [of 512 3 "[1, 2, 3]" "replicate 20 9" "replicate 64 0"] by auto

end
