(* ===== verification/Rsa_Bignum.thy ===== *)
theory Rsa_Bignum
  imports Limbs Kremlib_Host "HOL-Library.Monad_Syntax"
begin

text \<open>
  The natural numbers of \<open>snapshots/hacl-c-experimental/rsa-c\<close>: arrays of 64-bit limbs, the least
  significant first (\<open>Convert.c\<close>, \<open>Comparison.c\<close>, \<open>Addition.c\<close>, \<open>Multiplication.c\<close>, \<open>Shift.c\<close>).  The
  accesses of this code are not all in bounds, so they are checked here: a read or a write
  outside of a buffer is \<open>None\<close>, and a result \<open>Some\<close> says that there was none.  The loops of the
  code are recursive functions and are so here.
\<close>

section \<open>Checked buffers\<close>

definition rd :: "'a list \<Rightarrow> u32 \<Rightarrow> 'a option" where
  "rd a i = (if unat i < length a then Some (a ! unat i) else None)"

definition wr :: "'a list \<Rightarrow> u32 \<Rightarrow> 'a \<Rightarrow> 'a list option" where
  "wr a i x = (if unat i < length a then Some (a[unat i := x]) else None)"

text \<open>\<open>memcpy(dst + off, src, n * sizeof src[0])\<close>.\<close>

definition copy :: "'a list \<Rightarrow> u32 \<Rightarrow> 'a list \<Rightarrow> u32 \<Rightarrow> 'a list option" where
  "copy dst off src n =
     (if unat off + unat n \<le> length dst \<and> unat n \<le> length src
      then Some (at_ptr (unat off) (\<lambda>p. memcpy p src (unat n)) dst) else None)"

section \<open>Convert.c\<close>

definition Convert_get_size_nat :: "u32 \<Rightarrow> u32" where
  "Convert_get_size_nat lenText = (lenText - 1) div 8 + 1"

definition Convert_bits_to_bn :: "u32 \<Rightarrow> u32" where
  "Convert_bits_to_bn bits = ((bits - 1) div 8 + 1 - 1) div 8 + 1"

definition Convert_bits_to_text :: "u32 \<Rightarrow> u32" where
  "Convert_bits_to_text bits = (bits - 1) div 8 + 1"

function Convert_text_to_nat_loop ::
    "bytes \<Rightarrow> u32 \<Rightarrow> u64 list \<Rightarrow> u32 \<Rightarrow> u32 \<Rightarrow> u64 \<Rightarrow> u32 \<Rightarrow> u64 list option" where
  "Convert_text_to_nat_loop input len res num_words m word' i =
     (if 0 < len then do {
        let len1 = len - 1;
        tmp \<leftarrow> rd input i;
        let word1 = push_bit 8 word' OR ucast tmp;
        let i1 = i + 1;
        if m = 0 then do {
          let num_words1 = num_words - 1;
          res \<leftarrow> wr res num_words1 word1;
          let word2 = 0;
          let m1 = 8 - 1;
          Convert_text_to_nat_loop input len1 res num_words1 m1 word2 i1
        }
        else Convert_text_to_nat_loop input len1 res num_words (m - 1) word1 i1
      }
      else Some res)"
  by pat_completeness auto
termination
  by (relation "measure (\<lambda>(input, len, res, num_words, m, word', i). unat len)") (auto simp: unat_minus_one word_less_nat_alt unat_gt_0)

definition Convert_text_to_nat :: "bytes \<Rightarrow> u32 \<Rightarrow> u64 list \<Rightarrow> u64 list option" where
  "Convert_text_to_nat input len res =
     (let num_words = Convert_get_size_nat len;
          m = (len - 1) mod 8
      in Convert_text_to_nat_loop input len res num_words m 0 0)"

function Convert_nat_to_text_loop :: "u64 list \<Rightarrow> bytes \<Rightarrow> u32 \<Rightarrow> u32 \<Rightarrow> bytes option" where
  "Convert_nat_to_text_loop input res i j =
     (if 0 < i then do {
        let i1 = i - 1;
        let ind = i1 div 8;
        l \<leftarrow> rd input ind;
        let tmp = i1 mod 8;
        res \<leftarrow> wr res j (ucast (drop_bit (unat (8 * tmp)) l) AND 0xff);
        Convert_nat_to_text_loop input res i1 (j + 1)
      }
      else Some res)"
  by pat_completeness auto
termination
  by (relation "measure (\<lambda>(input, res, i, j). unat i)") (auto simp: unat_minus_one word_less_nat_alt unat_gt_0)

definition Convert_nat_to_text :: "u64 list \<Rightarrow> u32 \<Rightarrow> bytes \<Rightarrow> bytes option" where
  "Convert_nat_to_text input len res = Convert_nat_to_text_loop input res len 0"

section \<open>Comparison.c\<close>

function Comparison_isMore_loop :: "u64 list \<Rightarrow> u64 list \<Rightarrow> u32 \<Rightarrow> bool option" where
  "Comparison_isMore_loop a b count1 =
     (if 0 < count1 then do {
        let count2 = count1 - 1;
        t1 \<leftarrow> rd a count2;
        t2 \<leftarrow> rd b count2;
        if \<not> t1 = t2 then (if t2 < t1 then Some True else Some False)
        else Comparison_isMore_loop a b count2
      }
      else Some False)"
  by pat_completeness auto
termination
  by (relation "measure (\<lambda>(a, b, count1). unat count1)") (auto simp: unat_minus_one word_less_nat_alt unat_gt_0)

definition Comparison_isMore :: "u32 \<Rightarrow> u32 \<Rightarrow> u64 list \<Rightarrow> u64 list \<Rightarrow> bool option" where
  "Comparison_isMore aLen bLen a b =
     (if bLen < aLen then Some True
      else if aLen < bLen then Some False
      else Comparison_isMore_loop a b aLen)"

section \<open>Addition.c\<close>

lemma upward: "i < n \<Longrightarrow> unat (i + 1) = Suc (unat i)" for i n :: u32
  using unat_bound [of n] by (simp add: word_less_nat_alt unat_plus)

function Addition_sub_loop_min ::
    "u32 \<Rightarrow> u64 list \<Rightarrow> u64 list \<Rightarrow> bool \<Rightarrow> u32 \<Rightarrow> u64 list \<Rightarrow> (u64 list \<times> bool) option" where
  "Addition_sub_loop_min bLen a b carry count1 res =
     (if count1 < bLen then do {
        t1 \<leftarrow> rd a count1;
        t2 \<leftarrow> rd b count1;
        (res, carry1) \<leftarrow>
          (if carry then do {
             res \<leftarrow> wr res count1 (t1 - t2 - 1);
             Some (res, t1 \<le> t2)
           }
           else do {
             res \<leftarrow> wr res count1 (t1 - t2);
             Some (res, t1 < t2)
           });
        Addition_sub_loop_min bLen a b carry1 (count1 + 1) res
      }
      else Some (res, carry))"
  by pat_completeness auto
termination
  by (relation "measure (\<lambda>(bLen, a, b, carry, count1, res). unat bLen - unat count1)") (auto simp: upward word_less_nat_alt)

text \<open>
  The loop that carries the borrow on looks at the next limb, also after the last one; \<open>past\<close> is
  what is found behind the buffer.
\<close>

function Addition_sub_loop_dif ::
    "u64 \<Rightarrow> u32 \<Rightarrow> u64 list \<Rightarrow> u32 \<Rightarrow> u32 \<Rightarrow> u64 list \<Rightarrow> (u64 list \<times> u32) option" where
  "Addition_sub_loop_dif past aLen a ind dif res =
     (if 0 < dif then do {
        let dif1 = dif - 1;
        x \<leftarrow> rd a ind;
        res \<leftarrow> wr res ind (x - 1);
        let ind1 = ind + 1;
        y \<leftarrow> rd (a @ [past]) ind1;
        if y = 1 then Some (res, dif1)
        else Addition_sub_loop_dif past aLen a ind1 dif1 res
      }
      else Some (res, dif))"
  by pat_completeness auto
termination
  by (relation "measure (\<lambda>(past, aLen, a, ind, dif, res). unat dif)") (auto simp: unat_minus_one word_less_nat_alt unat_gt_0)

definition Addition_sub :: "u64 \<Rightarrow> u32 \<Rightarrow> u32 \<Rightarrow> u64 list \<Rightarrow> u64 list \<Rightarrow> u64 list \<Rightarrow> u64 list option" where
  "Addition_sub past aLen bLen a b res = do {
     let dif = aLen - bLen;
     (res, carry) \<leftarrow> Addition_sub_loop_min bLen a b False 0 res;
     (res, dif1) \<leftarrow> (if carry then Addition_sub_loop_dif past aLen a bLen dif res else Some (res, dif));
     if 0 < dif1 then do {
       let ind = aLen - dif1;
       copy res ind (drop (unat ind) a) dif1
     }
     else Some res
   }"

section \<open>Multiplication.c\<close>

definition Multiplication_mult64 :: "u64 \<Rightarrow> u64 \<Rightarrow> u64 \<times> u64" where
  "Multiplication_mult64 x y =
     (drop_bit 32 x * drop_bit 32 y
      + drop_bit 32 ((x AND 0xffffffff) * drop_bit 32 y)
      + drop_bit 32 (drop_bit 32 x * (y AND 0xffffffff))
      + drop_bit 32 (drop_bit 32 ((x AND 0xffffffff) * (y AND 0xffffffff))
                     + ((x AND 0xffffffff) * drop_bit 32 y AND 0xffffffff)
                     + (drop_bit 32 x * (y AND 0xffffffff) AND 0xffffffff)),
      push_bit 32 (drop_bit 32 ((x AND 0xffffffff) * (y AND 0xffffffff))
                   + ((x AND 0xffffffff) * drop_bit 32 y AND 0xffffffff)
                   + (drop_bit 32 x * (y AND 0xffffffff) AND 0xffffffff))
      OR ((x AND 0xffffffff) * (y AND 0xffffffff) AND 0xffffffff))"

definition Multiplication_add64 :: "u64 \<Rightarrow> u64 \<Rightarrow> u64 \<times> u64" where
  "Multiplication_add64 x y = (let ite = (if x + y < x then 1 else 0) in (ite, x + y))"

function Multiplication_mult_inner_loop ::
    "u32 \<Rightarrow> u64 list \<Rightarrow> u64 list \<Rightarrow> u32 \<Rightarrow> u32 \<Rightarrow> u64 \<Rightarrow> u64 list \<Rightarrow> u64 list option" where
  "Multiplication_mult_inner_loop aLen a b i j carry res =
     (if j < aLen then do {
        x \<leftarrow> rd a j;
        y \<leftarrow> rd b i;
        let (carry1, s1) = Multiplication_mult64 x y;
        z \<leftarrow> rd res (i + j);
        let (carry2, s2) = Multiplication_add64 z s1;
        let (carry3, s3) = Multiplication_add64 s2 carry;
        let carry4 = carry1 + carry2 + carry3;
        res \<leftarrow> wr res (i + j) s3;
        Multiplication_mult_inner_loop aLen a b i (j + 1) carry4 res
      }
      else wr res (i + aLen) carry)"
  by pat_completeness auto
termination
  by (relation "measure (\<lambda>(aLen, a, b, i, j, carry, res). unat aLen - unat j)") (auto simp: upward word_less_nat_alt)

function Multiplication_mult_outer_loop ::
    "u32 \<Rightarrow> u32 \<Rightarrow> u64 list \<Rightarrow> u64 list \<Rightarrow> u32 \<Rightarrow> u64 list \<Rightarrow> u64 list option" where
  "Multiplication_mult_outer_loop aLen bLen a b i res =
     (if i < bLen then do {
        res \<leftarrow> Multiplication_mult_inner_loop aLen a b i 0 0 res;
        Multiplication_mult_outer_loop aLen bLen a b (i + 1) res
      }
      else Some res)"
  by pat_completeness auto
termination
  by (relation "measure (\<lambda>(aLen, bLen, a, b, i, res). unat bLen - unat i)") (auto simp: upward word_less_nat_alt)

definition Multiplication_mult :: "u32 \<Rightarrow> u32 \<Rightarrow> u64 list \<Rightarrow> u64 list \<Rightarrow> u64 list \<Rightarrow> u64 list option" where
  "Multiplication_mult aLen bLen a b res = Multiplication_mult_outer_loop aLen bLen a b 0 res"

definition Multiplication_sqr :: "u32 \<Rightarrow> u64 list \<Rightarrow> u64 list \<Rightarrow> u64 list option" where
  "Multiplication_sqr aLen a res = Multiplication_mult aLen aLen a a res"

section \<open>Shift.c\<close>

function Shift_lshift_loop :: "u64 list \<Rightarrow> u32 \<Rightarrow> u32 \<Rightarrow> u32 \<Rightarrow> u64 list \<Rightarrow> u64 list option" where
  "Shift_lshift_loop a count1 nw lb res =
     (if 0 < count1 then do {
        let count2 = count1 - 1;
        l \<leftarrow> rd a count2;
        let ind = nw + count2 + 1;
        let rb = 64 - lb;
        tmp \<leftarrow> rd res ind;
        res \<leftarrow> wr res ind (tmp OR (drop_bit (unat rb) l AND 0xffffffffffffffff));
        res \<leftarrow> wr res (ind - 1) (push_bit (unat lb) l AND 0xffffffffffffffff);
        Shift_lshift_loop a count2 nw lb res
      }
      else Some res)"
  by pat_completeness auto
termination
  by (relation "measure (\<lambda>(a, count1, nw, lb, res). unat count1)") (auto simp: unat_minus_one word_less_nat_alt unat_gt_0)

definition Shift_lshift :: "u32 \<Rightarrow> u64 list \<Rightarrow> u32 \<Rightarrow> u64 list \<Rightarrow> u64 list option" where
  "Shift_lshift aLen a nCount res =
     (let nw = nCount div 64; lb = nCount mod 64
      in if lb = 0 then copy res nw a aLen else Shift_lshift_loop a aLen nw lb res)"

function Shift_rshift1_loop :: "u64 list \<Rightarrow> u64 \<Rightarrow> u32 \<Rightarrow> u64 list \<Rightarrow> u64 list option" where
  "Shift_rshift1_loop a carry ind res =
     (if 0 < ind then do {
        let ind1 = ind - 1;
        tmp \<leftarrow> rd a ind1;
        res \<leftarrow> wr res ind1 (drop_bit 1 tmp AND 0xffffffffffffffff OR carry);
        let carry1 = (if tmp AND 1 = 1 then 0x8000000000000000 else 0);
        Shift_rshift1_loop a carry1 ind1 res
      }
      else Some res)"
  by pat_completeness auto
termination
  by (relation "measure (\<lambda>(a, carry, ind, res). unat ind)") (auto simp: unat_minus_one word_less_nat_alt unat_gt_0)

definition Shift_rshift1 :: "u32 \<Rightarrow> u64 list \<Rightarrow> u64 list \<Rightarrow> u64 list option" where
  "Shift_rshift1 aLen a res = do {
     let i = aLen - 1;
     tmp \<leftarrow> rd a i;
     let carry = (if tmp AND 1 = 1 then 0x8000000000000000 else 0);
     let tmp1 = drop_bit 1 tmp;
     res \<leftarrow> (if 0 < tmp1 then wr res i tmp1 else Some res);
     Shift_rshift1_loop a carry i res
   }"

declare Convert_text_to_nat_loop.simps [simp del] Convert_nat_to_text_loop.simps [simp del]
  Comparison_isMore_loop.simps [simp del] Addition_sub_loop_min.simps [simp del]
  Addition_sub_loop_dif.simps [simp del] Multiplication_mult_inner_loop.simps [simp del]
  Multiplication_mult_outer_loop.simps [simp del] Shift_lshift_loop.simps [simp del]
  Shift_rshift1_loop.simps [simp del]

section \<open>Values\<close>

text \<open>The number in the first \<open>n\<close> limbs.\<close>

definition nval :: "u64 list \<Rightarrow> nat \<Rightarrow> nat" where
  "nval xs n = eval_limbs 64 (take n xs)"

lemma eval_limbs_append: "eval_limbs w (xs @ ys) = eval_limbs w xs + 2 ^ (w * length xs) * eval_limbs w ys"
  by (induction xs) (simp_all add: power_add algebra_simps)

lemma nval_0 [simp]: "nval xs 0 = 0"
  by (simp add: nval_def)

lemma nval_Suc: "n < length xs \<Longrightarrow> nval xs (Suc n) = nval xs n + 2 ^ (64 * n) * unat (xs ! n)"
  by (simp add: nval_def take_Suc_conv_app_nth eval_limbs_append)

lemma nval_less: "n \<le> length xs \<Longrightarrow> nval xs n < 2 ^ (64 * n)"
proof (induction n)
  case (Suc n)
  then have "nval xs n + 2 ^ (64 * n) * unat (xs ! n) < 2 ^ (64 * n) * Suc (unat (xs ! n))" by simp
  also have "\<dots> \<le> 2 ^ (64 * n) * 2 ^ 64"
    using unat_bound [of "xs ! n"] by (intro mult_le_mono2) simp
  finally show ?case using Suc.prems by (simp add: nval_Suc power_add)
qed simp

lemma nval_cong: "take n xs = take n ys \<Longrightarrow> nval xs n = nval ys n"
  by (simp add: nval_def)

lemma nval_update_above: "n \<le> k \<Longrightarrow> nval (xs[k := v]) n = nval xs n"
  by (simp add: nval_def)

lemma nval_split: "n \<le> k \<Longrightarrow> k \<le> length xs \<Longrightarrow> nval xs k = nval xs n + 2 ^ (64 * n) * nval (drop n xs) (k - n)"
  using take_add [of n "k - n" xs] by (simp add: nval_def eval_limbs_append)

lemma rd_in: "unat i < length a \<Longrightarrow> rd a i = Some (a ! unat i)"
  by (simp add: rd_def)

lemma wr_in: "unat i < length a \<Longrightarrow> wr a i x = Some (a[unat i := x])"
  by (simp add: wr_def)

section \<open>Bytes to limbs and back\<close>

lemma word1_val: "unat w < 256 ^ 7 \<Longrightarrow> unat (push_bit 8 w OR ucast b) = 256 * unat w + unat b" for w :: u64 and b :: u8
proof -
  assume w: "unat w < 256 ^ 7"
  have "push_bit 8 w AND ucast b = (0 :: u64)"
    by (rule bit_word_eqI) (auto simp: bit_simps dest: bit_imp_le_length)
  then have "unat (push_bit 8 w OR ucast b) = unat (push_bit 8 w + ucast b)"
    by (simp add: disjunctive_add_eq_or)
  also have "unat (push_bit 8 w) = 256 * unat w" using w by (simp add: unat_shl)
  then have "unat (push_bit 8 w + ucast b) = 256 * unat w + unat b"
    using w unat_bound [of b] by (subst unat_plus) (simp_all add: unat_ucast_same_or_up)
  finally show ?thesis .
qed

lemma be_first:
  "k < length bs \<Longrightarrow>
   le_val (rev (take (Suc n) (drop k bs))) = unat (bs ! k) * 256 ^ length (take n (drop (Suc k) bs)) + le_val (rev (take n (drop (Suc k) bs)))"
  by (simp add: Cons_nth_drop_Suc [symmetric] le_val_append)

lemma text_loop:
  "unat len = Suc n \<Longrightarrow> unat i + Suc n \<le> length input \<Longrightarrow> unat i + Suc n < 2 ^ 32 \<Longrightarrow>
   unat w = n div 8 + 1 \<Longrightarrow> unat m = n mod 8 \<Longrightarrow> unat word' < 256 ^ (7 - n mod 8) \<Longrightarrow> unat w \<le> length res \<Longrightarrow>
   \<exists>r. Convert_text_to_nat_loop input len res w m word' i = Some r \<and> length r = length res
     \<and> drop (unat w) r = drop (unat w) res
     \<and> nval r (unat w) = unat word' * 256 ^ Suc n + le_val (rev (take (Suc n) (drop (unat i) input)))"
proof (induction n arbitrary: len i w m word' res)
  case 0
  then have "w = 1" "m = 0" "len - 1 = 0" "0 < len" by (auto intro!: word_unatI simp: word_less_nat_alt unat_sub word_le_nat_alt)
  moreover have "unat (push_bit 8 word' OR ucast (input ! unat i)) = 256 * unat word' + unat (input ! unat i)"
    using "0.prems"(6) by (intro word1_val) simp
  moreover obtain x xs where "res = x # xs" using "0.prems"(4,7) by (cases res) auto
  ultimately show ?case
    using 0 be_first [of "unat i" input 0]
    by (subst Convert_text_to_nat_loop.simps)
      (simp add: Convert_text_to_nat_loop.simps [of _ 0] rd_in wr_def nval_def)
next
  case (Suc n)
  define word1 where "word1 = push_bit 8 word' OR ucast (input ! unat i)"
  have len: "0 < len" "unat (len - 1) = Suc n"
    using Suc.prems(1) by (simp_all add: word_less_nat_alt unat_sub word_le_nat_alt)
  have i: "unat (i + 1) = Suc (unat i)" using Suc.prems(3) by (simp add: unat_plus)
  have "(256 :: nat) ^ (7 - Suc n mod 8) \<le> 256 ^ 7" by (rule power_increasing) simp_all
  then have w1: "unat word1 = 256 * unat word' + unat (input ! unat i)"
    unfolding word1_def using Suc.prems(6) by (intro word1_val) simp
  have v: "le_val (rev (take (Suc (Suc n)) (drop (unat i) input)))
      = unat (input ! unat i) * 256 ^ Suc n + le_val (rev (take (Suc n) (drop (unat (i + 1)) input)))"
    using be_first [of "unat i" input "Suc n"] Suc.prems(2) i by simp
  have total: "unat word1 * 256 ^ Suc n + le_val (rev (take (Suc n) (drop (unat (i + 1)) input)))
      = unat word' * 256 ^ Suc (Suc n) + le_val (rev (take (Suc (Suc n)) (drop (unat i) input)))"
    unfolding v w1 by (simp add: algebra_simps)
  have rd: "rd input i = Some (input ! unat i)" using Suc.prems(2) by (simp add: rd_in)
  show ?case
  proof (cases "m = 0")
    case True
    then have z: "Suc n mod 8 = 0" using Suc.prems(5) by simp
    then have d: "Suc n div 8 = n div 8 + 1" "n mod 8 = 7"
      by (simp_all add: mod_Suc div_Suc split: if_splits)
    have w: "unat (w - 1) = n div 8 + 1" "unat (w - 1) < length res"
      using Suc.prems(4,7) d by (simp_all add: unat_sub word_le_nat_alt)
    let ?res = "res[unat (w - 1) := word1]"
    obtain r where r: "Convert_text_to_nat_loop input (len - 1) ?res (w - 1) 7 0 (i + 1) = Some r"
      "length r = length res" "drop (unat (w - 1)) r = drop (unat (w - 1)) ?res"
      "nval r (unat (w - 1)) = le_val (rev (take (Suc n) (drop (unat (i + 1)) input)))"
      using Suc.IH [of "len - 1" "i + 1" "w - 1" 7 0 ?res] Suc.prems len i w d by auto
    have rn: "r ! unat (w - 1) = word1"
      using arg_cong [OF r(3), of "\<lambda>l. l ! 0"] w(2) r(2) by simp
    have uw: "unat w = Suc (unat (w - 1))" using w(1) Suc.prems(4) d by simp
    have "2 ^ (64 * unat (w - 1)) = (256 :: nat) ^ Suc n"
    proof -
      have "8 * unat (w - 1) = Suc n" using w(1) d mult_div_mod_eq [of 8 "Suc n"] z by simp
      then have "(256 :: nat) ^ Suc n = (2 ^ 8) ^ (8 * unat (w - 1))" by simp
      then show ?thesis by (simp only: power_mult [symmetric]) simp
    qed
    then have "nval r (unat w) = unat word1 * 256 ^ Suc n + le_val (rev (take (Suc n) (drop (unat (i + 1)) input)))"
      unfolding uw using w(2) r(2) by (simp only: nval_Suc r(4) rn) simp
    moreover have "drop (unat w) r = drop (unat w) res"
      using arg_cong [OF r(3), of "drop 1"] unfolding uw by simp
    moreover have "Convert_text_to_nat_loop input len res w m word' i = Some r"
      using True len(1) rd w(2) r(1) by (subst Convert_text_to_nat_loop.simps) (simp add: wr_in word1_def [symmetric])
    ultimately show ?thesis using r(2) total by auto
  next
    case False
    then have nz: "Suc n mod 8 \<noteq> 0" using Suc.prems(5) by (metis unat_eq_zero)
    then have d: "Suc n div 8 = n div 8" "Suc n mod 8 = n mod 8 + 1" "n mod 8 < 7"
      using mod_less_divisor [of 8 n] by (auto simp: mod_Suc div_Suc simp del: mod_less_divisor split: if_splits)
    have m: "unat (m - 1) = n mod 8" using Suc.prems(5) d by (simp add: unat_sub word_le_nat_alt)
    have "7 - n mod 8 = Suc (7 - Suc n mod 8)" using d by simp
    then have "(256 :: nat) ^ (7 - n mod 8) = 256 * 256 ^ (7 - Suc n mod 8)" by simp
    then have "unat word1 < 256 ^ (7 - n mod 8)"
      using Suc.prems(6) unat_bound [of "input ! unat i"] unfolding w1 by simp
    then obtain r where "Convert_text_to_nat_loop input (len - 1) res w (m - 1) word1 (i + 1) = Some r"
      "length r = length res" "drop (unat w) r = drop (unat w) res"
      "nval r (unat w) = unat word1 * 256 ^ Suc n + le_val (rev (take (Suc n) (drop (unat (i + 1)) input)))"
      using Suc.IH [of "len - 1" "i + 1" w "m - 1" word1 res] Suc.prems len i m d by auto
    moreover from this have "Convert_text_to_nat_loop input len res w m word' i = Some r"
      using False len(1) rd by (subst Convert_text_to_nat_loop.simps) (simp add: word1_def [symmetric])
    ultimately show ?thesis using total by auto
  qed
qed

lemma size_nat: "0 < len \<Longrightarrow> unat (Convert_get_size_nat len) = (unat len - 1) div 8 + 1"
  using unat_bound [of len]
  by (simp add: Convert_get_size_nat_def unat_plus unat_div unat_sub word_less_nat_alt word_le_nat_alt)

lemma text_to_nat_eq:
  assumes "0 < len" and "unat len \<le> length input" and "unat (Convert_get_size_nat len) \<le> length res"
  shows "\<exists>r. Convert_text_to_nat input len res = Some r \<and> length r = length res
           \<and> drop (unat (Convert_get_size_nat len)) r = drop (unat (Convert_get_size_nat len)) res
           \<and> nval r (unat (Convert_get_size_nat len)) = le_val (rev (take (unat len) input))"
proof -
  obtain n where n: "unat len = Suc n" using assms(1) by (cases "unat len") (auto simp: word_less_nat_alt)
  have "unat ((len - 1) mod 8) = n mod 8" using n assms(1) by (simp add: unat_mod unat_sub word_le_nat_alt)
  then show ?thesis
    using text_loop [of len n 0 input "Convert_get_size_nat len" "(len - 1) mod 8" 0 res] assms n
      unat_bound [of len] size_nat [OF assms(1)]
    by (simp add: Convert_text_to_nat_def Let_def)
qed

lemma le_bytes_snoc: "le_bytes (Suc n) v = le_bytes n v @ [word_of_nat (v div 256 ^ n)]"
  using le_bytes_append [of n 1 v] by simp

lemma div_mod_high: "M = P * (256 * R) \<Longrightarrow> 0 < P \<Longrightarrow> (u + M * Y) div P mod 256 = u div P mod 256" for P :: nat
  by (simp add: mult.assoc)

lemma byte_of_nval:
  assumes "k div 8 < n" and "n \<le> length xs"
  shows "(ucast (drop_bit (8 * (k mod 8)) (xs ! (k div 8))) AND 0xff :: u8) = word_of_nat (nval xs n div 256 ^ k)"
proof -
  define q t where "q = k div 8" and "t = k mod 8"
  have k: "k = 8 * q + t" "t < 8" by (simp_all add: q_def t_def)
  have "drop q xs = xs ! q # drop (Suc q) xs" using assms by (simp add: q_def Cons_nth_drop_Suc)
  then have d: "nval (drop q xs) (n - q) = unat (xs ! q) + 2 ^ 64 * nval (drop (Suc q) xs) (n - Suc q)"
    using assms(1) by (simp add: q_def nval_def take_Cons' Suc_diff_Suc)
  have p: "(256 :: nat) ^ k = 2 ^ (64 * q) * 2 ^ (8 * t)"
    unfolding k power_add power_mult by (simp add: power_mult [symmetric])
  have b: "nval xs q < 2 ^ (64 * q)" using assms by (intro nval_less) (simp add: q_def)
  have "nval xs n div 256 ^ k = nval xs n div 2 ^ (64 * q) div 2 ^ (8 * t)" unfolding p by (rule div_mult2_eq)
  also have "nval xs n div 2 ^ (64 * q) = nval (drop q xs) (n - q)"
    using b assms nval_split [of q n xs] by (simp add: q_def)
  also have "nval (drop q xs) (n - q) div 2 ^ (8 * t) mod 256 = unat (xs ! q) div 2 ^ (8 * t) mod 256"
  proof -
    have "(2 :: nat) ^ 64 = 2 ^ (8 * t) * (256 * 2 ^ (8 * (7 - t)))"
    proof -
      have "64 = 8 * t + 8 + 8 * (7 - t)" using k(2) by simp
      then have "(2 :: nat) ^ 64 = 2 ^ (8 * t) * 2 ^ 8 * 2 ^ (8 * (7 - t))" by (simp only: power_add)
      then show ?thesis by simp
    qed
    from div_mod_high [OF this] show ?thesis unfolding d by simp
  qed
  finally have e: "(word_of_nat (nval xs n div 256 ^ k) :: u8) = word_of_nat (unat (xs ! q) div 2 ^ (8 * t))"
    by (intro word_unatI) (simp add: unat_of_nat)
  have "(x AND mask 8 :: u8) = x" for x by (rule bit_word_eqI) (simp add: bit_simps)
  then have "(x AND 0xff :: u8) = x" for x by (simp add: mask_eq_exp_minus_1)
  moreover have "(ucast (drop_bit (8 * t) (xs ! q)) :: u8) = word_of_nat (unat (xs ! q) div 2 ^ (8 * t))"
    by (metis drop_bit_eq_div of_nat_unat unat_drop_bit_eq)
  ultimately show ?thesis unfolding e by (simp add: q_def t_def)
qed

lemma nat_loop:
  assumes "n \<le> length xs"
  shows "unat i = k \<Longrightarrow> k \<le> 8 * n \<Longrightarrow> unat j + k \<le> length res \<Longrightarrow> unat j + k < 2 ^ 32 \<Longrightarrow>
    Convert_nat_to_text_loop xs res i j = Some (take (unat j) res @ rev (le_bytes k (nval xs n)) @ drop (unat j + k) res)"
proof (induction k arbitrary: i j res)
  case 0
  then have "i = 0" by (simp add: unat_eq_zero)
  then show ?case by (simp add: Convert_nat_to_text_loop.simps [of _ _ 0])
next
  case (Suc k)
  have i: "0 < i" "unat (i - 1) = k" using Suc.prems(1) by (simp_all add: word_less_nat_alt unat_sub word_le_nat_alt)
  have j: "unat (j + 1) = Suc (unat j)" using Suc.prems(4) by (simp add: unat_plus)
  have q: "k div 8 < n" using Suc.prems(2) by (simp add: div_less_iff_less_mult)
  let ?b = "word_of_nat (nval xs n div 256 ^ k) :: u8"
  have rd: "rd xs ((i - 1) div 8) = Some (xs ! (k div 8))"
    using q assms i(2) by (simp add: rd_def unat_div)
  have "unat (8 * ((i - 1) mod 8)) = 8 * (k mod 8)"
    using i(2) mod_less_divisor [of 8 k] by (simp add: unat_word_ariths unat_mod del: mod_less_divisor)
  then have b: "(ucast (drop_bit (unat (8 * ((i - 1) mod 8))) (xs ! (k div 8))) AND 0xff :: u8) = ?b"
    using byte_of_nval [OF q assms] by simp
  have wr: "wr res j ?b = Some (res[unat j := ?b])" using Suc.prems(3) by (simp add: wr_in)
  have "Convert_nat_to_text_loop xs res i j = Convert_nat_to_text_loop xs (res[unat j := ?b]) (i - 1) (j + 1)"
    using i(1) by (subst Convert_nat_to_text_loop.simps) (simp add: rd b wr)
  also have "\<dots> = Some (take (unat (j + 1)) (res[unat j := ?b]) @ rev (le_bytes k (nval xs n)) @ drop (unat (j + 1) + k) (res[unat j := ?b]))"
    using Suc.prems j i(2) by (intro Suc.IH) simp_all
  also have "take (unat (j + 1)) (res[unat j := ?b]) = take (unat j) res @ [?b]"
    using Suc.prems(3) by (simp add: j take_Suc_conv_app_nth)
  finally show ?case by (simp only: le_bytes_snoc) (simp add: j)
qed

lemma nat_to_text_eq:
  assumes "unat len \<le> 8 * n" and "n \<le> length xs" and "unat len \<le> length res"
  shows "Convert_nat_to_text xs len res = Some (rev (le_bytes (unat len) (nval xs n)) @ drop (unat len) res)"
  using nat_loop [OF assms(2), of len "unat len" 0 res] assms unat_bound [of len]
  by (simp add: Convert_nat_to_text_def)

section \<open>Comparison\<close>

lemma digit_less: "x < m \<Longrightarrow> y < m \<Longrightarrow> x + m * p < y + m * q \<longleftrightarrow> p < q \<or> p = q \<and> x < y" for x y m p q :: nat
proof -
  have "x + m * p < y + m * q" if "p < q" "x < m" for x y p q :: nat
  proof -
    have "m * Suc p \<le> m * q" using that(1) by (intro mult_le_mono2) simp
    then show ?thesis using that(2) by simp
  qed
  note s = this
  show "x + m * p < y + m * q \<longleftrightarrow> p < q \<or> p = q \<and> x < y" if "x < m" "y < m"
    using s [of p q x y] s [of q p y x] that by (cases p q rule: linorder_cases) auto
qed

lemma isMore_loop_eq:
  "unat c = n \<Longrightarrow> n \<le> length a \<Longrightarrow> n \<le> length b \<Longrightarrow> Comparison_isMore_loop a b c = Some (nval b n < nval a n)"
proof (induction n arbitrary: c)
  case 0
  then have "c = 0" by (simp add: unat_eq_zero)
  then show ?case by (simp add: Comparison_isMore_loop.simps [of _ _ 0])
next
  case (Suc n)
  then have c: "0 < c" "unat (c - 1) = n" by (simp_all add: word_less_nat_alt unat_sub word_le_nat_alt)
  have "(nval b (Suc n) < nval a (Suc n)) = (b ! n < a ! n \<or> b ! n = a ! n \<and> nval b n < nval a n)"
    using Suc.prems digit_less [of "nval b n" "2 ^ (64 * n)" "nval a n" "unat (b ! n)" "unat (a ! n)"]
    by (simp add: nval_Suc nval_less word_less_nat_alt word_unat_eq_iff)
  then show ?case
    using Suc.IH [OF c(2)] Suc.prems c by (subst Comparison_isMore_loop.simps) (auto simp: rd_in)
qed

lemma isMore_eq:
  assumes "unat aLen \<le> length a" and "unat bLen \<le> length b"
  shows "Comparison_isMore aLen bLen a b
         = Some (if aLen = bLen then nval b (unat aLen) < nval a (unat aLen) else bLen < aLen)"
  using assms isMore_loop_eq [of aLen "unat aLen" a b] by (auto simp: Comparison_isMore_def)

section \<open>Multiplication\<close>

lemma halves_product:
  fixes B :: nat
  assumes "p0 = B * a0 + r0" and "p1 = B * a1 + r1" and "p2 = B * a2 + r2" and "a0 + r1 + r2 = B * m1 + m0"
  shows "(p3 + a1 + a2 + m1) * (B * B) + (m0 * B + r0) = p3 * (B * B) + (p1 + p2) * B + p0"
proof -
  have "(p3 + a1 + a2 + m1) * (B * B) + (m0 * B + r0) = p3 * (B * B) + (B * a1 + B * a2 + (B * m1 + m0)) * B + r0"
    by (simp add: algebra_simps)
  also have "\<dots> = p3 * (B * B) + (p1 + p2) * B + p0"
    unfolding assms(4) [symmetric] assms(1-3) by (simp add: algebra_simps)
  finally show ?thesis .
qed

lemma mult64_eq:
  "unat (fst (Multiplication_mult64 x y)) * 2 ^ 64 + unat (snd (Multiplication_mult64 x y)) = unat x * unat y"
proof -
  define B :: nat where "B = 2 ^ 32"
  define x0 x1 y0 y1 where "x0 = unat x mod B" and "x1 = unat x div B" and "y0 = unat y mod B" and "y1 = unat y div B"
  have xy: "unat x = x1 * B + x0" "unat y = y1 * B + y0" by (simp_all add: x0_def x1_def y0_def y1_def)
  have lt: "x0 < B" "y0 < B" by (simp_all add: x0_def y0_def B_def)
  have lt1: "x1 < B" "y1 < B"
    using unat_bound [of x] unat_bound [of y] by (simp_all add: x1_def y1_def B_def less_mult_imp_div_less)
  have BB: "B * B = 2 ^ 64" by (simp add: B_def)
  have prod: "u * v < 2 ^ 64" if "u < B" "v < B" for u v
    using mult_strict_mono [OF that] that unfolding BB [symmetric] by simp
  have m: "unat (w AND 0xffffffff) = unat w mod B" for w :: u64
    using unat_and_mask [of w 32] by (simp add: mask_eq_exp_minus_1 B_def)
  have d: "unat (drop_bit 32 w) = unat w div B" for w :: u64
    by (simp add: unat_shr B_def)
  have p: "unat ((x AND 0xffffffff) * (y AND 0xffffffff)) = x0 * y0"
    "unat ((x AND 0xffffffff) * drop_bit 32 y) = x0 * y1"
    "unat (drop_bit 32 x * (y AND 0xffffffff)) = x1 * y0" "unat (drop_bit 32 x * drop_bit 32 y) = x1 * y1"
    using prod [OF lt(1) lt(2)] prod [OF lt(1) lt1(2)] prod [OF lt1(1) lt(2)] prod [OF lt1(1) lt1(2)]
    by (simp_all add: unat_word_ariths m d x0_def [symmetric] x1_def [symmetric] y0_def [symmetric] y1_def [symmetric])
  let ?mid = "x0 * y0 div B + x0 * y1 mod B + x1 * y0 mod B"
  have small: "x0 * y0 div B < B"
    using mult_strict_mono [OF lt] lt by (simp add: less_mult_imp_div_less)
  have small': "x0 * y1 mod B < B" "x1 * y0 mod B < B" by (simp_all add: B_def)
  define mid where "mid = drop_bit 32 ((x AND 0xffffffff) * (y AND 0xffffffff))
      + ((x AND 0xffffffff) * drop_bit 32 y AND 0xffffffff) + (drop_bit 32 x * (y AND 0xffffffff) AND 0xffffffff)"
  have mid: "unat mid = ?mid"
    using small small' unfolding mid_def by (simp add: unat_plus m d p B_def)
  have eq: "(x1 * y1 + x0 * y1 div B + x1 * y0 div B + ?mid div B) * (B * B) + (?mid mod B * B + x0 * y0 mod B)
      = unat x * unat y"
  proof -
    have "(x1 * y1 + x0 * y1 div B + x1 * y0 div B + ?mid div B) * (B * B) + (?mid mod B * B + x0 * y0 mod B)
        = x1 * y1 * (B * B) + (x0 * y1 + x1 * y0) * B + x0 * y0"
      by (rule halves_product [of _ _ "x0 * y0 div B"]) simp_all
    then show ?thesis unfolding xy by (simp add: algebra_simps)
  qed
  have "unat x * unat y < 2 ^ 64 * 2 ^ 64"
    using unat_bound [of x] unat_bound [of y] by (intro mult_strict_mono) simp_all
  then have hi: "x1 * y1 + x0 * y1 div B + x1 * y0 div B + ?mid div B < 2 ^ 64"
    unfolding eq [symmetric] BB using add_lessD1 mult_less_cancel2 by metis
  have f: "unat (fst (Multiplication_mult64 x y)) = x1 * y1 + x0 * y1 div B + x1 * y0 div B + ?mid div B"
    using hi by (simp add: Multiplication_mult64_def mid_def [symmetric] unat_plus p d mid)
  have "unat (push_bit 32 mid OR ((x AND 0xffffffff) * (y AND 0xffffffff) AND 0xffffffff))
      = unat (push_bit 32 mid + ((x AND 0xffffffff) * (y AND 0xffffffff) AND 0xffffffff))"
  proof -
    have "push_bit 32 mid AND (w AND mask 32) = 0" for w
      by (rule bit_word_eqI) (auto simp: bit_simps)
    then have "push_bit 32 mid AND (w AND 0xffffffff) = 0" for w by (simp add: mask_eq_exp_minus_1)
    then show ?thesis by (simp add: disjunctive_add_eq_or)
  qed
  also have "\<dots> = ?mid mod B * B + x0 * y0 mod B"
  proof -
    have "unat (push_bit 32 mid) = ?mid mod B * B"
      unfolding mid [symmetric] by (simp add: push_bit_eq_mult unat_word_ariths B_def mult_mod_right mult.commute)
    moreover have "?mid mod B * B + x0 * y0 mod B < B * B"
    proof -
      have "?mid mod B < B" "x0 * y0 mod B < B" by (simp_all add: B_def)
      then show ?thesis using digit_less [of "x0 * y0 mod B" B 0 "?mid mod B" B] by (simp add: mult.commute add.commute)
    qed
    ultimately show ?thesis by (simp add: unat_plus m p BB)
  qed
  finally have "unat (snd (Multiplication_mult64 x y)) = ?mid mod B * B + x0 * y0 mod B"
    by (simp add: Multiplication_mult64_def mid_def [symmetric])
  with f eq show ?thesis unfolding BB by simp
qed

lemma add64_eq: "unat (fst (Multiplication_add64 x y)) * 2 ^ 64 + unat (snd (Multiplication_add64 x y)) = unat x + unat y"
proof -
  show ?thesis
  proof (cases "unat x + unat y < 2 ^ 64")
    case True
    then have "unat (x + y) = unat x + unat y" by (simp add: unat_plus)
    then show ?thesis by (simp add: Multiplication_add64_def word_less_nat_alt)
  next
    case False
    then have "unat (x + y) = unat x + unat y - 2 ^ 64"
      using unat_bound [of x] unat_bound [of y] by (simp add: unat_word_ariths mod_if)
    then show ?thesis using False unat_bound [of y] by (simp add: Multiplication_add64_def word_less_nat_alt)
  qed
qed

lemma nval_first:
  "k < length xs \<Longrightarrow> nval (drop k xs) (Suc n) = unat (xs ! k) + 2 ^ 64 * nval (drop (Suc k) xs) n"
  by (simp add: nval_def Cons_nth_drop_Suc [symmetric])

text \<open>One limb of a row: product, old limb and carry fit two limbs.\<close>

lemma row_step:
  assumes "(c1, s1) = Multiplication_mult64 x y" and "(c2, s2) = Multiplication_add64 z s1"
    and "(c3, s3) = Multiplication_add64 s2 c"
  shows "unat (c1 + c2 + c3) * 2 ^ 64 + unat s3 = unat x * unat y + unat z + unat c"
proof -
  have m: "unat c1 * 2 ^ 64 + unat s1 = unat x * unat y" using mult64_eq [of x y] assms(1) by (metis fst_conv snd_conv)
  have a: "unat c2 * 2 ^ 64 + unat s2 = unat z + unat s1" using add64_eq [of z s1] assms(2) by (metis fst_conv snd_conv)
  have b: "unat c3 * 2 ^ 64 + unat s3 = unat s2 + unat c" using add64_eq [of s2 c] assms(3) by (metis fst_conv snd_conv)
  have s: "(unat c1 + unat c2 + unat c3) * 2 ^ 64 + unat s3 = unat x * unat y + unat z + unat c"
    using m a b by (simp add: algebra_simps)
  have "unat x * unat y \<le> (2 ^ 64 - 1) * (2 ^ 64 - 1)"
    using unat_bound [of x] unat_bound [of y] by (intro mult_le_mono) simp_all
  then have "(unat c1 + unat c2 + unat c3) * 2 ^ 64 < 2 ^ 64 * 2 ^ 64"
    using s unat_bound [of z] unat_bound [of c] by simp
  then have "unat c1 + unat c2 + unat c3 < 2 ^ 64" by simp
  then have "unat (c1 + c2 + c3) = unat c1 + unat c2 + unat c3" by (simp add: unat_plus)
  then show ?thesis using s by simp
qed

lemma inner_loop_eq:
  assumes "unat aLen \<le> length a" and "unat i < length b" and "unat i + unat aLen < 2 ^ 32"
  shows "unat aLen - unat j = m \<Longrightarrow> unat j \<le> unat aLen \<Longrightarrow> unat i + unat aLen < length res \<Longrightarrow>
    \<exists>r. Multiplication_mult_inner_loop aLen a b i j carry res = Some r \<and> length r = length res
      \<and> take (unat i + unat j) r = take (unat i + unat j) res
      \<and> drop (Suc (unat i + unat aLen)) r = drop (Suc (unat i + unat aLen)) res
      \<and> nval (drop (unat i + unat j) r) (Suc m)
        = nval (drop (unat i + unat j) res) m + unat (b ! unat i) * nval (drop (unat j) a) m + unat carry"
proof (induction m arbitrary: j carry res)
  case 0
  then have j: "j = aLen" by (intro word_unatI) simp
  have u: "unat (i + aLen) = unat i + unat aLen" using assms(3) by (simp add: unat_plus)
  show ?case
    using "0.prems"(3) nval_first [of "unat i + unat aLen" "res[unat i + unat aLen := carry]" 0]
    by (subst Multiplication_mult_inner_loop.simps) (simp add: j wr_def u)
next
  case (Suc m)
  obtain c1 s1 c2 s2 c3 s3 where st: "Multiplication_mult64 (a ! unat j) (b ! unat i) = (c1, s1)"
    "Multiplication_add64 (res ! (unat i + unat j)) s1 = (c2, s2)" "Multiplication_add64 s2 carry = (c3, s3)"
    by (metis surj_pair)
  have j: "j < aLen" "unat (j + 1) = Suc (unat j)" "unat (i + j) = unat i + unat j"
    using Suc.prems assms(3) by (auto simp: word_less_nat_alt unat_plus)
  have m: "unat aLen - unat (j + 1) = m" "unat (j + 1) \<le> unat aLen" using Suc.prems(1) j by (simp_all add: word_less_nat_alt)
  let ?res = "res[unat i + unat j := s3]"
  have dr: "drop (Suc (unat i + unat aLen)) ?res = drop (Suc (unat i + unat aLen)) res"
    using j(1) by (simp add: word_less_nat_alt)
  obtain r where r: "Multiplication_mult_inner_loop aLen a b i (j + 1) (c1 + c2 + c3) ?res = Some r" "length r = length res"
    "take (unat i + unat (j + 1)) r = take (unat i + unat (j + 1)) ?res"
    "drop (Suc (unat i + unat aLen)) r = drop (Suc (unat i + unat aLen)) res"
    "nval (drop (unat i + unat (j + 1)) r) (Suc m)
      = nval (drop (unat i + unat (j + 1)) ?res) m + unat (b ! unat i) * nval (drop (unat (j + 1)) a) m + unat (c1 + c2 + c3)"
    using Suc.IH [OF m, of ?res "c1 + c2 + c3"] Suc.prems(3) unfolding dr by auto
  have k: "unat i + unat j < length res" "unat j < length a" "unat i + unat j < length r"
    using Suc.prems assms(1) r(2) by auto
  have first: "r ! (unat i + unat j) = s3"
    using arg_cong [OF r(3), of "\<lambda>l. l ! (unat i + unat j)"] k by (simp add: j(2))
  have "take (unat i + unat j) r = take (unat i + unat j) ?res"
    using arg_cong [OF r(3), of "take (unat i + unat j)"] by (simp add: j(2) min_def)
  then have low: "take (unat i + unat j) r = take (unat i + unat j) res" by simp
  have "nval (drop (unat i + unat j) r) (Suc (Suc m)) = unat s3 + 2 ^ 64 * nval (drop (unat i + unat (j + 1)) r) (Suc m)"
    using nval_first [OF k(3), of "Suc m"] by (simp only: first j(2) add_Suc_right)
  also have "\<dots> = (unat (c1 + c2 + c3) * 2 ^ 64 + unat s3)
      + 2 ^ 64 * (nval (drop (Suc (unat i + unat j)) res) m + unat (b ! unat i) * nval (drop (Suc (unat j)) a) m)"
    unfolding r(5) unfolding j(2) by (simp add: algebra_simps)
  also have "\<dots> = (unat (a ! unat j) * unat (b ! unat i) + unat (res ! (unat i + unat j)) + unat carry)
      + 2 ^ 64 * (nval (drop (Suc (unat i + unat j)) res) m + unat (b ! unat i) * nval (drop (Suc (unat j)) a) m)"
    by (simp only: row_step [OF st(1) [symmetric] st(2) [symmetric] st(3) [symmetric]])
  also have "\<dots> = nval (drop (unat i + unat j) res) (Suc m) + unat (b ! unat i) * nval (drop (unat j) a) (Suc m) + unat carry"
    unfolding nval_first [OF k(1)] nval_first [OF k(2)] by (simp add: algebra_simps)
  finally have v: "nval (drop (unat i + unat j) r) (Suc (Suc m)) = \<dots>" .
  have "Multiplication_mult_inner_loop aLen a b i j carry res = Some r"
    using j(1,3) k assms(2) r(1) by (subst Multiplication_mult_inner_loop.simps) (simp add: rd_def wr_def st)
  then show ?case using r(2,4) low v by auto
qed

lemma outer_loop_eq:
  assumes "unat aLen \<le> length a" and "unat bLen \<le> length b" and "unat aLen + unat bLen < 2 ^ 32"
  shows "unat bLen - unat i = m \<Longrightarrow> unat i \<le> unat bLen \<Longrightarrow> unat aLen + unat bLen \<le> length res \<Longrightarrow>
    \<exists>r. Multiplication_mult_outer_loop aLen bLen a b i res = Some r \<and> length r = length res
      \<and> drop (unat aLen + unat bLen) r = drop (unat aLen + unat bLen) res
      \<and> nval r (unat aLen + unat bLen)
        = nval res (unat aLen + unat i) + 2 ^ (64 * unat i) * (nval a (unat aLen) * nval (drop (unat i) b) m)"
proof (induction m arbitrary: i res)
  case 0
  then have "i = bLen" by (intro word_unatI) simp
  then show ?case by (simp add: Multiplication_mult_outer_loop.simps [of _ bLen])
next
  case (Suc m)
  have i: "i < bLen" "unat (i + 1) = Suc (unat i)"
    using Suc.prems assms(3) by (auto simp: word_less_nat_alt unat_plus)
  have m: "unat bLen - unat (i + 1) = m" "unat (i + 1) \<le> unat bLen" using Suc.prems(1) i by (simp_all add: word_less_nat_alt)
  have ib: "unat i < length b" using i(1) assms(2) by (simp add: word_less_nat_alt)
  have bounds: "unat i + unat aLen < 2 ^ 32" "unat i + unat aLen < length res"
    using i(1) assms(3) Suc.prems(3) by (auto simp: word_less_nat_alt)
  obtain s where s: "Multiplication_mult_inner_loop aLen a b i 0 0 res = Some s" "length s = length res"
    "take (unat i) s = take (unat i) res" "drop (Suc (unat i + unat aLen)) s = drop (Suc (unat i + unat aLen)) res"
    "nval (drop (unat i) s) (Suc (unat aLen)) = nval (drop (unat i) res) (unat aLen) + unat (b ! unat i) * nval a (unat aLen)"
    using inner_loop_eq [OF assms(1) ib bounds(1), of 0 "unat aLen" res 0] bounds(2) by auto
  obtain r where r: "Multiplication_mult_outer_loop aLen bLen a b (i + 1) s = Some r" "length r = length res"
    "drop (unat aLen + unat bLen) r = drop (unat aLen + unat bLen) s"
    "nval r (unat aLen + unat bLen)
      = nval s (unat aLen + unat (i + 1)) + 2 ^ (64 * unat (i + 1)) * (nval a (unat aLen) * nval (drop (unat (i + 1)) b) m)"
    using Suc.IH [OF m, of s] Suc.prems(3) s(2) by auto
  have d: "drop (unat aLen + unat bLen) s = drop (unat aLen + unat bLen) res"
  proof -
    have "unat aLen + unat bLen = (unat bLen - Suc (unat i)) + Suc (unat i + unat aLen)"
      using i(1) by (simp add: word_less_nat_alt)
    then show ?thesis by (metis drop_drop s(4))
  qed
  have "nval s (unat aLen + unat (i + 1)) = nval s (unat i) + 2 ^ (64 * unat i) * nval (drop (unat i) s) (Suc (unat aLen))"
    using nval_split [of "unat i" "unat aLen + unat (i + 1)" s] bounds(2) s(2) by (simp add: i(2))
  also have "\<dots> = nval res (unat aLen + unat i) + 2 ^ (64 * unat i) * (unat (b ! unat i) * nval a (unat aLen))"
    unfolding s(5) using nval_split [of "unat i" "unat aLen + unat i" res] nval_cong [OF s(3)] bounds(2)
    by (simp add: distrib_left)
  finally have sv: "nval s (unat aLen + unat (i + 1))
      = nval res (unat aLen + unat i) + 2 ^ (64 * unat i) * (unat (b ! unat i) * nval a (unat aLen))" .
  have "nval r (unat aLen + unat bLen) = nval res (unat aLen + unat i)
      + 2 ^ (64 * unat i) * (nval a (unat aLen) * (unat (b ! unat i) + 2 ^ 64 * nval (drop (Suc (unat i)) b) m))"
    unfolding r(4) sv unfolding i(2) by (simp add: power_add algebra_simps)
  moreover have "Multiplication_mult_outer_loop aLen bLen a b i res = Some r"
    using i(1) s(1) r(1) by (subst Multiplication_mult_outer_loop.simps) simp
  ultimately show ?case unfolding nval_first [OF ib] using r(2,3) d by auto
qed

lemma mult_eq:
  assumes "unat aLen \<le> length a" and "unat bLen \<le> length b" and "unat aLen + unat bLen < 2 ^ 32"
    and "unat aLen + unat bLen \<le> length res" and "nval res (unat aLen) = 0"
  shows "\<exists>r. Multiplication_mult aLen bLen a b res = Some r \<and> length r = length res
      \<and> drop (unat aLen + unat bLen) r = drop (unat aLen + unat bLen) res
      \<and> nval r (unat aLen + unat bLen) = nval a (unat aLen) * nval b (unat bLen)"
  using outer_loop_eq [OF assms(1-3), of 0 "unat bLen" res] assms(4,5) by (auto simp: Multiplication_mult_def)

section \<open>Subtraction\<close>

lemma borrow_int:
  assumes "p < 2 ^ 64" and "q < 2 ^ 64"
  shows "(int p - int q - of_bool c) mod 2 ^ 64
         = int p - int q - of_bool c + of_bool (if c then p \<le> q else p < q) * 2 ^ 64"
proof (cases "if c then p \<le> q else p < q")
  case True
  then have "- (2 ^ 64) \<le> int p - int q - of_bool c" "int p - int q - of_bool c < 0"
    using assms by (auto split: if_splits)
  then have "(int p - int q - of_bool c + 2 ^ 64) mod 2 ^ 64 = int p - int q - of_bool c + 2 ^ 64"
    by (intro mod_pos_pos_trivial) simp_all
  then show ?thesis using True by simp
next
  case False
  then show ?thesis using assms by (auto simp: not_le not_less intro!: mod_pos_pos_trivial split: if_splits)
qed

lemma borrow_step:
  fixes t1 t2 :: u64
  shows "unat (t1 - t2 - of_bool c) + unat t2 + of_bool c = unat t1 + of_bool (if c then t1 \<le> t2 else t1 < t2) * 2 ^ 64"
proof -
  have "int (unat (t1 - t2 - of_bool c)) = (int (unat t1) - int (unat t2) - of_bool c) mod 2 ^ 64"
    by (cases c) (simp_all add: uint_word_ariths mod_diff_left_eq flip: uint_nat)
  also have "\<dots> = int (unat t1) - int (unat t2) - of_bool c + of_bool (if c then t1 \<le> t2 else t1 < t2) * 2 ^ 64"
    unfolding word_le_nat_alt word_less_nat_alt
    using unat_bound [of t1] unat_bound [of t2] by (intro borrow_int) simp_all
  finally have "int (unat (t1 - t2 - of_bool c) + unat t2 + of_bool c)
      = int (unat t1 + of_bool (if c then t1 \<le> t2 else t1 < t2) * 2 ^ 64)"
    by (simp only: of_nat_add of_nat_mult of_nat_of_bool of_nat_power of_nat_numeral)
  then show ?thesis by (simp only: of_nat_eq_iff)
qed

lemma sub_loop_eq:
  assumes "unat bLen \<le> length a" and "unat bLen \<le> length b"
  shows "unat bLen - unat i = m \<Longrightarrow> unat i \<le> unat bLen \<Longrightarrow> unat bLen \<le> length res \<Longrightarrow>
    \<exists>r c'. Addition_sub_loop_min bLen a b c i res = Some (r, c') \<and> length r = length res
      \<and> take (unat i) r = take (unat i) res \<and> drop (unat bLen) r = drop (unat bLen) res
      \<and> nval (drop (unat i) r) m + nval (drop (unat i) b) m + of_bool c
        = nval (drop (unat i) a) m + of_bool c' * 2 ^ (64 * m)"
proof (induction m arbitrary: i c res)
  case 0
  then have "i = bLen" by (intro word_unatI) simp
  then show ?case by (simp add: Addition_sub_loop_min.simps [of bLen _ _ _ bLen])
next
  case (Suc m)
  have i: "i < bLen" "unat (i + 1) = Suc (unat i)"
    using Suc.prems upward [of i bLen] by (auto simp: word_less_nat_alt)
  have m: "unat bLen - unat (i + 1) = m" "unat (i + 1) \<le> unat bLen" using Suc.prems(1) i by (simp_all add: word_less_nat_alt)
  define t1 t2 where "t1 = a ! unat i" and "t2 = b ! unat i"
  define c1 where "c1 = (if c then t1 \<le> t2 else t1 < t2)"
  let ?res = "res[unat i := t1 - t2 - of_bool c]"
  have k: "unat i < length a" "unat i < length b" "unat i < length res"
    using i(1) assms Suc.prems(3) by (auto simp: word_less_nat_alt)
  obtain r c' where r: "Addition_sub_loop_min bLen a b c1 (i + 1) ?res = Some (r, c')" "length r = length res"
    "take (unat (i + 1)) r = take (unat (i + 1)) ?res" "drop (unat bLen) r = drop (unat bLen) ?res"
    "nval (drop (unat (i + 1)) r) m + nval (drop (unat (i + 1)) b) m + of_bool c1
      = nval (drop (unat (i + 1)) a) m + of_bool c' * 2 ^ (64 * m)"
    using Suc.IH [OF m, of ?res c1] Suc.prems(3) by auto
  have first: "r ! unat i = t1 - t2 - of_bool c"
    using arg_cong [OF r(3), of "\<lambda>l. l ! unat i"] k r(2) by (simp add: i(2))
  have "take (unat i) r = take (unat i) ?res"
    using arg_cong [OF r(3), of "take (unat i)"] by (simp add: i(2) min_def)
  then have low: "take (unat i) r = take (unat i) res" by simp
  have high: "drop (unat bLen) r = drop (unat bLen) res" using r(4) i(1) by (simp add: word_less_nat_alt)
  have "unat i < length r" using k r(2) by simp
  then have "nval (drop (unat i) r) (Suc m) + nval (drop (unat i) b) (Suc m) + of_bool c
      = (unat (t1 - t2 - of_bool c) + unat t2 + of_bool c)
        + 2 ^ 64 * (nval (drop (unat (i + 1)) r) m + nval (drop (unat (i + 1)) b) m)"
    unfolding i(2) using k by (simp add: nval_first first t2_def algebra_simps)
  also have "\<dots> = unat t1 + 2 ^ 64 * (nval (drop (unat (i + 1)) r) m + nval (drop (unat (i + 1)) b) m + of_bool c1)"
    unfolding borrow_step c1_def by (simp add: algebra_simps)
  also have "\<dots> = nval (drop (unat i) a) (Suc m) + of_bool c' * 2 ^ (64 * Suc m)"
    unfolding r(5) unfolding i(2) nval_first [OF k(1)] by (simp add: t1_def power_add algebra_simps)
  finally have v: "nval (drop (unat i) r) (Suc m) + nval (drop (unat i) b) (Suc m) + of_bool c = \<dots>" .
  have "Addition_sub_loop_min bLen a b c i res = Some (r, c')"
    using i(1) k r(1) by (subst Addition_sub_loop_min.simps) (auto simp: rd_def wr_def t1_def t2_def c1_def)
  then show ?case using r(2) low high v by auto
qed

lemma sub_dif_safe:
  "unat dif = k \<Longrightarrow> unat ind + k \<le> length a \<Longrightarrow> unat ind + k \<le> length res \<Longrightarrow> unat ind + k < 2 ^ 32 \<Longrightarrow>
   \<exists>r d. Addition_sub_loop_dif past aLen a ind dif res = Some (r, d) \<and> length r = length res \<and> d \<le> dif"
proof (induction k arbitrary: dif ind res)
  case 0
  then have "dif = 0" by (simp add: unat_eq_zero)
  then show ?case by (simp add: Addition_sub_loop_dif.simps [of _ _ _ _ 0])
next
  case (Suc k)
  have d: "0 < dif" "unat (dif - 1) = k" "dif - 1 \<le> dif"
    using Suc.prems(1) by (simp_all add: word_less_nat_alt unat_sub word_le_nat_alt)
  have i: "unat (ind + 1) = Suc (unat ind)" using Suc.prems(4) by (simp add: unat_plus)
  obtain y where y: "rd (a @ [past]) (ind + 1) = Some y" using Suc.prems(2) by (simp add: rd_def i)
  let ?res = "res[unat ind := a ! unat ind - 1]"
  obtain r e where r: "Addition_sub_loop_dif past aLen a (ind + 1) (dif - 1) ?res = Some (r, e)" "length r = length res" "e \<le> dif - 1"
    using Suc.IH [OF d(2), of "ind + 1" ?res] Suc.prems i by auto
  show ?case
    using Suc.prems d(1,3) y r order_trans [OF r(3) d(3)]
    by (subst Addition_sub_loop_dif.simps) (auto simp: rd_in wr_in Let_def)
qed

text \<open>Subtraction stays in its buffers, and is exact for numbers of the same length.\<close>

lemma sub_safe:
  assumes "bLen \<le> aLen" and "unat aLen \<le> length a" and "unat bLen \<le> length b" and "unat aLen \<le> length res"
  shows "\<exists>r. Addition_sub past aLen bLen a b res = Some r \<and> length r = length res"
proof -
  have l: "unat bLen \<le> unat aLen" "unat (aLen - bLen) = unat aLen - unat bLen"
    using assms(1) by (simp_all add: word_le_nat_alt unat_sub)
  obtain s c where s: "Addition_sub_loop_min bLen a b False 0 res = Some (s, c)" "length s = length res"
    using sub_loop_eq [of bLen a b 0 "unat bLen" res False] assms l by auto
  obtain t d where t: "(if c then Addition_sub_loop_dif past aLen a bLen (aLen - bLen) s else Some (s, aLen - bLen)) = Some (t, d)"
    "length t = length res" "d \<le> aLen - bLen"
    using sub_dif_safe [of "aLen - bLen" _ bLen a s past aLen] assms l s(2) unat_bound [of aLen] by (cases c) auto
  have "unat d \<le> unat aLen" using t(3) l by (simp add: word_le_nat_alt)
  then have "unat (aLen - d) = unat aLen - unat d" by (simp add: unat_sub word_le_nat_alt)
  then show ?thesis
    using s(1) t assms(2,4) \<open>unat d \<le> unat aLen\<close> by (auto simp: Addition_sub_def Let_def copy_def at_ptr_def memcpy_def)
qed

lemma sub_eq:
  assumes "unat n \<le> length a" and "unat n \<le> length b" and "unat n \<le> length res" and "nval b (unat n) \<le> nval a (unat n)"
  shows "\<exists>r. Addition_sub past n n a b res = Some r \<and> length r = length res \<and> drop (unat n) r = drop (unat n) res
           \<and> nval r (unat n) = nval a (unat n) - nval b (unat n)"
proof -
  obtain s c where s: "Addition_sub_loop_min n a b False 0 res = Some (s, c)" "length s = length res"
    "drop (unat n) s = drop (unat n) res" "nval s (unat n) + nval b (unat n) = nval a (unat n) + of_bool c * 2 ^ (64 * unat n)"
    using sub_loop_eq [of n a b 0 "unat n" res False] assms by auto
  have "nval s (unat n) < 2 ^ (64 * unat n)" using assms(3) s(2) by (intro nval_less) simp
  then have "\<not> c" using s(4) assms(4) by (cases c) auto
  then show ?thesis using s by (auto simp: Addition_sub_def)
qed

text \<open>
  A borrow out of the common limbs into two and more further ones goes wrong: a further
  limb is decremented although the one before it was not zero.
\<close>

lemma sub_borrow_wrong:
  "Addition_sub past 3 1 [0, 5, 7] [1] [0, 0, 0] = Some [- 1, 4, 6]" "nval [0, 5, 7] 3 - nval [1] 1 = nval [- 1, 4, 7] 3"
proof -
  have "Addition_sub_loop_min 1 [0, 5, 7] [1] False 0 [0, 0, 0] = Some ([- 1, 0, 0], True)"
    by (subst Addition_sub_loop_min.simps) (simp add: Addition_sub_loop_min.simps [of 1 _ _ _ 1] rd_def wr_def)
  moreover have a: "rd [0, 5, 7 :: u64] 2 = Some 7" "rd [0, 5, 7 :: u64] 1 = Some 5" "rd [0, 5, 7, past] 3 = Some past"
    "rd [0, 5, 7, past] 2 = Some 7" "wr [- 1, 4, 0 :: u64] 2 6 = Some [- 1, 4, 6]" "wr [- 1, 0, 0 :: u64] 1 4 = Some [- 1, 4, 0]"
    by (simp_all add: rd_def wr_def limbs3)
  have e: "Addition_sub_loop_dif past 3 [0, 5, 7] 2 1 [- 1, 4, 0] = Some ([- 1, 4, 6], 0)"
    by (subst Addition_sub_loop_dif.simps) (simp add: Addition_sub_loop_dif.simps [of _ _ _ _ 0] a)
  have "Addition_sub_loop_dif past 3 [0, 5, 7] 1 2 [- 1, 0, 0] = Some ([- 1, 4, 6], 0)"
    by (subst Addition_sub_loop_dif.simps) (simp add: e a)
  ultimately show "Addition_sub past 3 1 [0, 5, 7] [1] [0, 0, 0] = Some [- 1, 4, 6]"
    by (simp add: Addition_sub_def)
  show "nval [0, 5, 7] 3 - nval [1] 1 = nval [- 1, 4, 7] 3"
    by (simp add: nval_def unsigned_minus_1_eq_mask mask_eq_exp_minus_1)
qed

section \<open>Properties\<close>

text \<open>
  C11: The schoolbook product: all accesses are in bounds, and for a product buffer whose first
  \<open>aLen\<close> limbs are zero the result is the exact product, in \<open>aLen + bLen\<close> limbs, whatever the
  others were.
\<close>

theorem rsa_product_exact:
  assumes "unat aLen \<le> length a" and "unat bLen \<le> length b" and "unat aLen + unat bLen < 2 ^ 32"
    and "unat aLen + unat bLen \<le> length res" and "nval res (unat aLen) = 0"
  shows "\<exists>r. Multiplication_mult aLen bLen a b res = Some r \<and> length r = length res
      \<and> drop (unat aLen + unat bLen) r = drop (unat aLen + unat bLen) res
      \<and> nval r (unat aLen + unat bLen) = nval a (unat aLen) * nval b (unat bLen)"
  using assms by (rule mult_eq)

theorem rsa_product_exact_witness:
  "\<exists>r. Multiplication_mult 2 1 [- 1, - 1] [- 1] [0, 0, 7] = Some r \<and> nval r 3 = (2 ^ 128 - 1) * (2 ^ 64 - 1)"
  using rsa_product_exact [of 2 "[- 1, - 1]" 1 "[- 1]" "[0, 0, 7]"]
  by (auto simp: nval_def unsigned_minus_1_eq_mask mask_eq_exp_minus_1)

text \<open>
  Bytes to limbs and back: a big-endian text of any length becomes the number it denotes, and
  writing that number in as many bytes gives the text.
\<close>

theorem text_nat_roundtrip:
  assumes "0 < len" and "unat len \<le> length input" and "unat (Convert_get_size_nat len) \<le> length res"
    and "unat len \<le> length out"
  shows "\<exists>r. Convert_text_to_nat input len res = Some r
           \<and> nval r (unat (Convert_get_size_nat len)) = le_val (rev (take (unat len) input))
           \<and> Convert_nat_to_text r len out = Some (take (unat len) input @ drop (unat len) out)"
proof -
  let ?n = "unat (Convert_get_size_nat len)"
  obtain r where r: "Convert_text_to_nat input len res = Some r" "length r = length res"
    "nval r ?n = le_val (rev (take (unat len) input))"
    using text_to_nat_eq [OF assms(1-3)] by auto
  have "unat len \<le> 8 * ?n" using size_nat [OF assms(1)] by simp
  moreover have "?n \<le> length r" using r(2) assms(3) by simp
  ultimately have "Convert_nat_to_text r len out = Some (rev (le_bytes (unat len) (nval r ?n)) @ drop (unat len) out)"
    using assms(4) by (rule nat_to_text_eq)
  also have "le_bytes (unat len) (nval r ?n) = rev (take (unat len) input)"
  proof -
    have "length (rev (take (unat len) input)) = unat len" using assms(2) by simp
    then show ?thesis using le_bytes_le_val [of "rev (take (unat len) input)"] by (simp only: r(3))
  qed
  finally show ?thesis using r by simp
qed

theorem text_nat_roundtrip_witness:
  "\<exists>r. Convert_text_to_nat [1, 2, 3, 4, 5, 6, 7, 8, 9] 9 [0, 0] = Some r
     \<and> Convert_nat_to_text r 9 (replicate 9 0) = Some [1, 2, 3, 4, 5, 6, 7, 8, 9]"
proof -
  have "unat (Convert_get_size_nat 9) = 2" by (simp add: Convert_get_size_nat_def)
  then show ?thesis
    using text_nat_roundtrip [of 9 "[1, 2, 3, 4, 5, 6, 7, 8, 9]" "[0, 0]" "replicate 9 0"] by (auto simp: take_Cons')
qed

end
