(* ===== verification/Rsa.thy ===== *)
theory Rsa
  imports Pss Rsa_Bignum
begin

text \<open>
  Signatures in \<open>snapshots/hacl-c-experimental/rsa-c\<close>: the remainder by shifts and
  subtractions (\<open>Division.c\<close>), the exponentiation (\<open>Exponentiation.c\<close>), and signing and
  verification (\<open>RSA.c\<close>).  Accesses are checked as in \<open>Rsa_Bignum\<close>.  A function returns the buffers
  it writes in the order of its parameters, so the remainder also returns the dividend it works
  on, and the exponentiation the buffers its loop uses up.  The size checks before the arrays
  (\<open>KRML_CHECK_SIZE\<close>, in \<open>Kremlib_Host\<close>) pass for every 32-bit length when \<open>size_t\<close> has 64 bits and
  are left out.
\<close>

section \<open>Division.c\<close>

function Division_remainder_loop ::
    "u64 \<Rightarrow> u32 \<Rightarrow> u32 \<Rightarrow> u32 \<Rightarrow> u64 list \<Rightarrow> u64 list \<Rightarrow> u32 \<Rightarrow> u64 list \<Rightarrow> (u64 list \<times> u64 list) option" where
  "Division_remainder_loop past rLen modLen resLen r_i mod' count1 res = do {
     x \<leftarrow> rd mod' (modLen - 1);
     let isSet = (if x = 1 then 1 else 0);
     let mod1Len = modLen - isSet;
     let mod1 = replicate (unat mod1Len) 0;
     let tmp = replicate (unat rLen) 0;
     if 0 < count1 then do {
       mod1 \<leftarrow> Shift_rshift1 modLen mod' mod1;
       more \<leftarrow> Comparison_isMore modLen rLen mod' r_i;
       if \<not> more then do {
         tmp \<leftarrow> Addition_sub past rLen modLen r_i mod' tmp;
         r_i \<leftarrow> copy r_i 0 tmp rLen;
         Division_remainder_loop past rLen mod1Len resLen r_i mod1 (count1 - 1) res
       }
       else Division_remainder_loop past rLen mod1Len resLen r_i mod1 (count1 - 1) res
     }
     else do {
       let len = (if rLen < resLen then rLen else resLen);
       res \<leftarrow> copy res 0 r_i len;
       Some (r_i, res)
     }
   }"
  by pat_completeness auto
termination
  by (relation "measure (\<lambda>(past, rLen, modLen, resLen, r_i, mod', count1, res). unat count1)")
    (auto simp: unat_minus_one word_less_nat_alt unat_gt_0)

declare Division_remainder_loop.simps [simp del]

definition Division_remainder ::
    "u64 \<Rightarrow> u32 \<Rightarrow> u32 \<Rightarrow> u32 \<Rightarrow> u64 list \<Rightarrow> u64 list \<Rightarrow> u64 list \<Rightarrow> (u64 list \<times> u64 list) option" where
  "Division_remainder past aBits modBits resLen a mod' res = do {
     let aLen = Convert_bits_to_bn aBits;
     let modLen = Convert_bits_to_bn modBits;
     let k = aBits - modBits;
     let modk = k div 64;
     let mod1Len = modLen + modk;
     let mod1 = replicate (unat mod1Len) 0;
     mod1 \<leftarrow> Shift_lshift modLen mod' k mod1;
     Division_remainder_loop past aLen mod1Len resLen a mod1 k res
   }"

section \<open>Exponentiation.c\<close>

definition Exponentiation_bn_bit_is_set :: "u64 list \<Rightarrow> u32 \<Rightarrow> bool option" where
  "Exponentiation_bn_bit_is_set input ind = do {
     let i = ind div 64;
     let j = ind mod 64;
     tmp \<leftarrow> rd input i;
     let res = (drop_bit (unat j) tmp AND 1 = 1);
     Some res
   }"

function Exponentiation_mod_exp_loop ::
    "u64 \<Rightarrow> u32 \<Rightarrow> u32 \<Rightarrow> u32 \<Rightarrow> u32 \<Rightarrow> u64 list \<Rightarrow> u64 list \<Rightarrow> u64 list \<Rightarrow> u64 list \<Rightarrow> u32
       \<Rightarrow> (u64 list \<times> u64 list) option" where
  "Exponentiation_mod_exp_loop past modBits aLen bBits resLen n1 tmpV b res count1 = do {
     let tmpLen = 2 * aLen;
     let tmp = replicate (unat tmpLen) 0;
     let tmpBits = tmpLen * 64;
     let tmpLen2 = aLen + resLen;
     let tmp2 = replicate (unat tmpLen2) 0;
     let tmpBits2 = tmpLen2 * 64;
     if count1 < bBits then do {
       tmp \<leftarrow> Multiplication_sqr aLen tmpV tmp;
       (tmp, tmpV) \<leftarrow> Division_remainder past tmpBits modBits aLen tmp n1 tmpV;
       isSet \<leftarrow> Exponentiation_bn_bit_is_set b count1;
       if isSet then do {
         tmp2 \<leftarrow> Multiplication_mult resLen aLen res tmpV tmp2;
         (tmp2, res) \<leftarrow> Division_remainder past tmpBits2 modBits resLen tmp2 n1 res;
         Exponentiation_mod_exp_loop past modBits aLen bBits resLen n1 tmpV b res (count1 + 1)
       }
       else Exponentiation_mod_exp_loop past modBits aLen bBits resLen n1 tmpV b res (count1 + 1)
     }
     else Some (tmpV, res)
   }"
  by pat_completeness auto
termination
  by (relation "measure (\<lambda>(past, modBits, aLen, bBits, resLen, n1, tmpV, b, res, count1). unat bBits - unat count1)")
    (auto simp: upward word_less_nat_alt)

declare Exponentiation_mod_exp_loop.simps [simp del]

text \<open>The call of the loop passes \<open>b\<close>, \<open>res\<close> and \<open>tmpV\<close> where the loop expects \<open>tmpV\<close>, \<open>b\<close> and \<open>res\<close>.\<close>

definition Exponentiation_mod_exp ::
    "u64 \<Rightarrow> u32 \<Rightarrow> u32 \<Rightarrow> u32 \<Rightarrow> u32 \<Rightarrow> u64 list \<Rightarrow> u64 list \<Rightarrow> u64 list \<Rightarrow> u64 list \<Rightarrow> (u64 list \<times> u64 list) option" where
  "Exponentiation_mod_exp past modBits aLen bBits resLen n1 a b res = do {
     let tmpV = replicate (unat aLen) 0;
     tmpV \<leftarrow> copy tmpV 0 a aLen;
     isSet \<leftarrow> Exponentiation_bn_bit_is_set b 0;
     res \<leftarrow> (if isSet then copy res 0 a aLen else wr res 0 1);
     (b, tmpV) \<leftarrow> Exponentiation_mod_exp_loop past modBits aLen bBits resLen n1 b res tmpV 1;
     Some (b, res)
   }"

section \<open>RSA.c\<close>

record RSA_rsa_pubkey =
  pub_n :: "u64 list"
  pub_e :: "u64 list"

record RSA_rsa_privkey =
  priv_pkey :: RSA_rsa_pubkey
  priv_d :: "u64 list"

definition RSA_get_n :: "RSA_rsa_pubkey \<Rightarrow> u64 list" where
  "RSA_get_n x = pub_n x"

definition RSA_get_e :: "RSA_rsa_pubkey \<Rightarrow> u64 list" where
  "RSA_get_e x = pub_e x"

definition RSA_get_pkey :: "RSA_rsa_privkey \<Rightarrow> RSA_rsa_pubkey" where
  "RSA_get_pkey x = priv_pkey x"

definition RSA_get_d :: "RSA_rsa_privkey \<Rightarrow> u64 list" where
  "RSA_get_d x = priv_d x"

definition RSA_rsa_sign ::
    "u64 \<Rightarrow> u32 \<Rightarrow> u32 \<Rightarrow> u32 \<Rightarrow> bytes \<Rightarrow> RSA_rsa_privkey \<Rightarrow> bytes \<Rightarrow> bytes \<Rightarrow> (RSA_rsa_privkey \<times> bytes) option" where
  "RSA_rsa_sign past modBits skeyBits msgLen msg skey salt sgnt = do {
     let k1 = RSA_get_octets modBits;
     let d = RSA_get_d skey;
     let n1 = RSA_get_n (RSA_get_pkey skey);
     let emLen = RSA_get_length_em modBits;
     let em = replicate (unat emLen) 0;
     em \<leftarrow> RSA_pss_encode modBits msg msgLen salt em;
     let mLen = Convert_get_size_nat emLen;
     let m = replicate (unat mLen) 0;
     m \<leftarrow> Convert_text_to_nat em emLen m;
     let sLen1 = Convert_get_size_nat k1;
     let s = replicate (unat sLen1) 0;
     (d, s) \<leftarrow> Exponentiation_mod_exp past modBits mLen skeyBits sLen1 n1 m d s;
     sgnt \<leftarrow> Convert_nat_to_text s k1 sgnt;
     Some (skey\<lparr>priv_d := d\<rparr>, sgnt)
   }"

definition RSA_rsa_verify ::
    "u64 \<Rightarrow> u32 \<Rightarrow> u32 \<Rightarrow> u32 \<Rightarrow> bytes \<Rightarrow> RSA_rsa_pubkey \<Rightarrow> bytes \<Rightarrow> (RSA_rsa_pubkey \<times> bool) option" where
  "RSA_rsa_verify past modBits msgLen pkeyBits sgnt pkey msg = do {
     let e = RSA_get_e pkey;
     let n1 = RSA_get_n pkey;
     let k1 = RSA_get_octets modBits;
     let sLen1 = Convert_get_size_nat k1;
     let s = replicate (unat sLen1) 0;
     s \<leftarrow> Convert_text_to_nat sgnt k1 s;
     let emLen = RSA_get_length_em modBits;
     let mLen = Convert_get_size_nat emLen;
     let m = replicate (unat mLen) 0;
     (e, m) \<leftarrow> Exponentiation_mod_exp past modBits sLen1 pkeyBits mLen n1 s e m;
     let em = replicate (unat emLen) 0;
     em \<leftarrow> Convert_nat_to_text m emLen em;
     (em, res) \<leftarrow> RSA_pss_verify modBits em msg msgLen;
     Some (pkey\<lparr>pub_e := e\<rparr>, res)
   }"

section \<open>Shifts\<close>

lemma and_ones [simp]: "x AND 0xffffffffffffffff = x" for x :: u64
proof -
  have "x AND mask 64 = x" by (rule bit_word_eqI) (simp add: bit_simps)
  then show ?thesis by (simp add: mask_eq_exp_minus_1)
qed

text \<open>A limb shifted right by one, with the bit of the limb above on top.\<close>

lemma halved_limb:
  "unat (drop_bit 1 x OR (if c then 0x8000000000000000 else 0) :: u64) = unat x div 2 + of_bool c * 2 ^ 63"
proof -
  have "drop_bit 1 x AND push_bit 63 1 = 0"
  proof (rule bit_word_eqI)
    fix n assume "n < LENGTH(64)"
    then show "bit (drop_bit 1 x AND push_bit 63 1) n = bit (0 :: u64) n"
      using bit_imp_le_length [of x "1 + n"]
      by (auto simp only: bit_and_iff bit_drop_bit_eq bit_push_bit_iff comp_apply bit_0_eq bot_apply len_num0 len_bit0) simp_all
  qed
  then have "drop_bit 1 x AND (if c then 0x8000000000000000 else 0) = 0" by (simp add: push_bit_eq_mult)
  then have "drop_bit 1 x OR (if c then 0x8000000000000000 else 0) = drop_bit 1 x + (if c then 0x8000000000000000 else 0)"
    by (simp add: disjunctive_add_eq_or)
  moreover have "unat (drop_bit 1 x) = unat x div 2" by (simp add: unat_shr)
  moreover have "unat x div 2 < 2 ^ 63" using unat_bound [of x] by (simp add: less_mult_imp_div_less)
  ultimately show ?thesis by (simp add: unat_plus)
qed

lemma odd_limb: "(x AND 1 = 1) = odd (unat x)" for x :: u64
proof -
  have "odd x = odd (unat x)" by (simp flip: bit_0 add: bit_unsigned_iff)
  moreover have "(x AND 1 = 1) = odd x" by (simp add: and_one_eq odd_iff_mod_2_eq_one)
  ultimately show ?thesis by simp
qed

lemma rshift1_loop_eq:
  "unat ind = k \<Longrightarrow> k \<le> length a \<Longrightarrow> k \<le> length res \<Longrightarrow>
   \<exists>r. Shift_rshift1_loop a (if c then 0x8000000000000000 else 0) ind res = Some r \<and> length r = length res
     \<and> drop k r = drop k res \<and> nval r k = (nval a k + of_bool c * 2 ^ (64 * k)) div 2"
proof (induction k arbitrary: ind c res)
  case 0
  then have "ind = 0" by (simp add: unat_eq_zero)
  then show ?case by (simp add: Shift_rshift1_loop.simps [of _ _ 0])
next
  case (Suc k)
  have i: "0 < ind" "unat (ind - 1) = k" using Suc.prems(1) by (simp_all add: word_less_nat_alt unat_sub word_le_nat_alt)
  define v where "v = drop_bit 1 (a ! k) OR (if c then 0x8000000000000000 else 0)"
  have v: "unat v = unat (a ! k) div 2 + of_bool c * 2 ^ 63" unfolding v_def by (rule halved_limb)
  obtain r where r: "Shift_rshift1_loop a (if odd (unat (a ! k)) then 0x8000000000000000 else 0) (ind - 1) (res[k := v]) = Some r"
    "length r = length res" "drop k r = drop k (res[k := v])"
    "nval r k = (nval a k + of_bool (odd (unat (a ! k))) * 2 ^ (64 * k)) div 2"
    using Suc.IH [OF i(2), of "res[k := v]" "odd (unat (a ! k))"] Suc.prems by auto
  have k: "k < length a" "k < length r" "k < length res" using Suc.prems r(2) by simp_all
  have rk: "r ! k = v" using arg_cong [OF r(3), of "\<lambda>l. l ! 0"] k by simp
  have dr: "drop (Suc k) r = drop (Suc k) res" using arg_cong [OF r(3), of "drop 1"] by simp
  let ?o = "of_bool (odd (unat (a ! k))) :: nat"
  have "unat (a ! k) = 2 * (unat (a ! k) div 2) + ?o" by (cases "odd (unat (a ! k))") simp_all
  then have "nval a (Suc k) + of_bool c * 2 ^ (64 * Suc k)
      = nval a k + 2 ^ (64 * k) * (2 * (unat (a ! k) div 2) + ?o) + of_bool c * 2 ^ (64 * Suc k)"
    by (simp only: nval_Suc [OF k(1)])
  also have "\<dots> = (nval a k + ?o * 2 ^ (64 * k)) + 2 * (2 ^ (64 * k) * (unat (a ! k) div 2 + of_bool c * 2 ^ 63))"
    by (simp add: power_add algebra_simps)
  finally have "(nval a (Suc k) + of_bool c * 2 ^ (64 * Suc k)) div 2 = nval r k + 2 ^ (64 * k) * unat v"
    unfolding r(4) v by simp
  moreover have "Shift_rshift1_loop a (if c then 0x8000000000000000 else 0) ind res = Some r"
    using i r(1) [unfolded v_def] k by (subst Shift_rshift1_loop.simps) (simp add: rd_def wr_def odd_limb)
  ultimately show ?case using r(2) dr k by (simp add: nval_Suc rk)
qed

lemma rshift1_eq:
  assumes "0 < aLen" and "unat aLen \<le> length a"
  defines "n \<equiv> unat aLen - of_bool (a ! (unat aLen - 1) = 1)"
  shows "\<exists>r. Shift_rshift1 aLen a (replicate n 0) = Some r \<and> length r = n \<and> nval r n = nval a (unat aLen) div 2"
proof -
  obtain k where k: "unat aLen = Suc k" using assms(1) by (cases "unat aLen") (auto simp: word_less_nat_alt)
  have i: "unat (aLen - 1) = k" using k by (simp add: unat_sub word_le_nat_alt)
  have ka: "k < length a" using assms(2) k by simp
  have d: "unat (drop_bit 1 (a ! k)) = unat (a ! k) div 2" by (simp add: unat_shr)
  define res where "res = (if 0 < drop_bit 1 (a ! k) then (replicate n 0)[k := drop_bit 1 (a ! k)] else replicate n 0)"
  have pos: "(0 < drop_bit 1 (a ! k)) = (2 \<le> unat (a ! k))" unfolding word_less_nat_alt d by auto
  have one: "(a ! k = 1) = (unat (a ! k) = 1)" by (metis unat_1 word_unat_eq_iff)
  have n: "n = (if unat (a ! k) = 1 then k else Suc k)" by (simp add: n_def k one)
  have w: "(if 0 < drop_bit 1 (a ! k) then wr (replicate n 0) (aLen - 1) (drop_bit 1 (a ! k)) else Some (replicate n 0)) = Some res"
    by (simp add: res_def wr_def i pos [simplified] n)
  have lr: "length res = n" "k \<le> n" by (simp add: res_def) (simp add: n)
  obtain r where r: "Shift_rshift1_loop a (if odd (unat (a ! k)) then 0x8000000000000000 else 0) (aLen - 1) res = Some r"
    "length r = n" "drop k r = drop k res" "nval r k = (nval a k + of_bool (odd (unat (a ! k))) * 2 ^ (64 * k)) div 2"
    using rshift1_loop_eq [OF i, of a res "odd (unat (a ! k))"] ka lr by auto
  have code: "Shift_rshift1 aLen a (replicate n 0) = Some r"
  proof -
    have "rd a (aLen - 1) = Some (a ! k)" using ka by (simp add: rd_def i)
    then show ?thesis unfolding Shift_rshift1_def Let_def by (simp only: Option.bind.simps w odd_limb r(1))
  qed
  have half: "nval a (Suc k) div 2 = nval r k + 2 ^ (64 * k) * (unat (a ! k) div 2)"
  proof -
    let ?o = "of_bool (odd (unat (a ! k))) :: nat"
    have "unat (a ! k) = 2 * (unat (a ! k) div 2) + ?o" by (cases "odd (unat (a ! k))") simp_all
    then have "nval a (Suc k) = nval a k + 2 ^ (64 * k) * (2 * (unat (a ! k) div 2) + ?o)" by (simp only: nval_Suc [OF ka])
    also have "\<dots> = (nval a k + ?o * 2 ^ (64 * k)) + 2 * (2 ^ (64 * k) * (unat (a ! k) div 2))" by (simp add: algebra_simps)
    finally show ?thesis unfolding r(4) by simp
  qed
  have "nval r n = nval a (Suc k) div 2"
  proof (cases "unat (a ! k) = 1")
    case False
    then have "n = Suc k" by (simp add: n)
    moreover have "unat (r ! k) = unat (a ! k) div 2"
    proof -
      have kn: "k < n" using \<open>n = Suc k\<close> by simp
      have "r ! k = res ! k" using arg_cong [OF r(3), of "\<lambda>l. l ! 0"] r(2) lr(1) kn by simp
      moreover have "res ! k = (if 0 < drop_bit 1 (a ! k) then drop_bit 1 (a ! k) else 0)"
        unfolding res_def using kn by simp
      ultimately show ?thesis unfolding pos using d by (simp only:) simp
    qed
    ultimately show ?thesis unfolding half using r(2) by (simp add: nval_Suc)
  qed (simp add: n half)
  then show ?thesis using code r(2) k by auto
qed

text \<open>By whole limbs, the left shift is a copy; by anything else it writes behind a buffer of the size the callers give it.\<close>

lemma lshift_limbs:
  assumes "nCount = 64 * word_of_nat m" and "64 * m < 2 ^ 32" and "unat aLen \<le> length a"
  shows "Shift_lshift aLen a nCount (replicate (unat aLen + m) 0) = Some (replicate m 0 @ take (unat aLen) a)"
proof -
  have u: "unat nCount = 64 * m" using assms(2) by (simp add: assms(1) unat_word_ariths unat_of_nat)
  have "unat (nCount div 64) = m" "nCount mod 64 = 0"
    by (simp_all add: unat_div u) (simp add: u unat_mod flip: unat_eq_zero)
  then show ?thesis
    using assms(3) by (simp add: Shift_lshift_def copy_def at_ptr_def memcpy_def)
qed

lemma lshift_out_of_bounds:
  assumes "nCount mod 64 \<noteq> 0" and "0 < aLen" and "unat (nCount div 64) + unat aLen < 2 ^ 32"
    and "length res = unat aLen + unat (nCount div 64)" and "unat aLen \<le> length a"
  shows "Shift_lshift aLen a nCount res = None"
proof -
  have "nCount div 64 + (aLen - 1) + 1 = nCount div 64 + aLen" by simp
  moreover have "unat (nCount div 64 + aLen) = unat (nCount div 64) + unat aLen" using assms(3) by (simp add: unat_plus)
  ultimately have "rd res (nCount div 64 + (aLen - 1) + 1) = None" using assms(4) by (simp only: rd_def) simp
  then show ?thesis
    using assms(1,2) by (subst Shift_lshift_def) (simp add: Shift_lshift_loop.simps [of _ aLen] Let_def rd_def [of a] split: if_splits)
qed

section \<open>The remainder stays in its buffers\<close>

lemma copy_prefix: "unat n \<le> length dst \<Longrightarrow> unat n \<le> length src \<Longrightarrow> copy dst 0 src n = Some (take (unat n) src @ drop (unat n) dst)"
  by (simp add: copy_def at_ptr_def memcpy_def)

lemma remainder_loop_safe:
  "unat count1 = c \<Longrightarrow> 2 ^ c \<le> nval mod' (unat modLen) \<Longrightarrow> unat modLen \<le> length mod' \<Longrightarrow> modLen \<le> rLen \<Longrightarrow>
   unat rLen \<le> length r \<Longrightarrow> unat (if rLen < resLen then rLen else resLen) \<le> length res \<Longrightarrow>
   \<exists>r' res'. Division_remainder_loop past rLen modLen resLen r mod' count1 res = Some (r', res')
     \<and> length r' = length r \<and> length res' = length res"
proof (induction c arbitrary: count1 mod' modLen r)
  case 0
  then have "count1 = 0" by (simp add: unat_eq_zero)
  have "0 < unat modLen" using "0.prems"(2) by (cases "unat modLen") simp_all
  then have x: "rd mod' (modLen - 1) = Some (mod' ! unat (modLen - 1))"
    using "0.prems"(3) by (intro rd_in) (simp add: unat_sub word_le_nat_alt)
  let ?n = "if rLen < resLen then rLen else resLen"
  have "unat ?n \<le> length r" using "0.prems"(5) by (auto simp: word_less_nat_alt)
  then have "copy res 0 r ?n = Some (take (unat ?n) r @ drop (unat ?n) res)"
    using "0.prems"(6) by (intro copy_prefix)
  with x \<open>unat ?n \<le> length r\<close> "0.prems"(6) show ?case
    by (subst Division_remainder_loop.simps) (simp add: \<open>count1 = 0\<close>)
next
  case (Suc c)
  have c: "0 < count1" "unat (count1 - 1) = c" using Suc.prems(1) by (simp_all add: word_less_nat_alt unat_sub word_le_nat_alt)
  have p: "0 < modLen" using Suc.prems(2) by (cases "unat modLen") (simp_all add: word_less_nat_alt)
  have i: "unat (modLen - 1) = unat modLen - 1" using p by (simp add: unat_sub word_le_nat_alt word_less_nat_alt)
  define x where "x = mod' ! (unat modLen - 1)"
  define isSet where "isSet = (if x = 1 then 1 else 0 :: u32)"
  define n where "n = unat modLen - of_bool (x = 1)"
  have x: "rd mod' (modLen - 1) = Some x"
    using Suc.prems(3) p by (simp add: rd_def i x_def word_less_nat_alt)
  have n: "unat (modLen - isSet) = n" "modLen - isSet \<le> modLen"
    using p by (auto simp: isSet_def n_def unat_sub word_le_nat_alt word_less_nat_alt)
  obtain m where m: "Shift_rshift1 modLen mod' (replicate n 0) = Some m" "length m = n" "nval m n = nval mod' (unat modLen) div 2"
    using rshift1_eq [OF p Suc.prems(3)] unfolding n_def x_def by auto
  have v: "2 ^ c \<le> nval m (unat (modLen - isSet))" using Suc.prems(2) unfolding n m(3) by simp
  have len: "modLen - isSet \<le> rLen" using n(2) Suc.prems(4) by simp
  obtain more where more: "Comparison_isMore modLen rLen mod' r = Some more"
    using isMore_eq [of modLen mod' rLen r] Suc.prems(3,5) by simp
  obtain t where t: "Addition_sub past rLen modLen r mod' (replicate (unat rLen) 0) = Some t" "length t = unat rLen"
    using sub_safe [OF Suc.prems(4,5,3), of "replicate (unat rLen) 0" past] by auto
  have cp: "copy r 0 t rLen = Some (t @ drop (unat rLen) r)"
    using Suc.prems(5) t(2) by (simp add: copy_prefix)
  define r1 where "r1 = (if more then r else t @ drop (unat rLen) r)"
  have r1: "length r1 = length r" using Suc.prems(5) t(2) by (simp add: r1_def)
  have "Division_remainder_loop past rLen modLen resLen r mod' count1 res
      = Division_remainder_loop past rLen (modLen - isSet) resLen r1 m (count1 - 1) res"
    using c(1) by (subst Division_remainder_loop.simps)
      (simp add: x isSet_def [symmetric] n m(1) more t(1) cp r1_def Let_def)
  moreover have "\<exists>r' res'. Division_remainder_loop past rLen (modLen - isSet) resLen r1 m (count1 - 1) res = Some (r', res')
     \<and> length r' = length r1 \<and> length res' = length res"
    using Suc.IH [OF c(2) v _ len, of r1] m(2) n(1) Suc.prems(5,6) r1 by simp
  ultimately show ?case using r1 by simp
qed

lemma bits_to_bn: "0 < w \<Longrightarrow> 64 * w < 2 ^ 32 \<Longrightarrow> unat (Convert_bits_to_bn (word_of_nat (64 * w))) = w"
proof -
  assume w: "0 < w" "64 * w < 2 ^ 32"
  define x :: u32 where "x = word_of_nat (64 * w)"
  have x: "unat x = 64 * w" unfolding x_def using w(2) by (simp only: unat_of_nat) simp
  then have "unat (x - 1) = 64 * w - 1" using w(1) by (simp add: unat_sub word_le_nat_alt)
  moreover have "(64 * w - 1) div 8 div 8 = w - 1"
    using w(1) by (cases w) (simp_all add: div_mult2_eq [symmetric])
  ultimately have "unat (Convert_bits_to_bn x) = w"
    using w by (simp add: Convert_bits_to_bn_def unat_plus unat_div)
  then show ?thesis by (simp only: x_def)
qed

lemma remainder_safe:
  assumes "0 < w" and "w \<le> v" and "64 * v < 2 ^ 32" and "v \<le> length a" and "w \<le> length n1" and "0 < nval n1 w"
    and "unat resLen \<le> length res"
  shows "\<exists>a' res'. Division_remainder past (word_of_nat (64 * v)) (word_of_nat (64 * w)) resLen a n1 res = Some (a', res')
           \<and> length a' = length a \<and> length res' = length res"
proof -
  define ml al k :: u32 where "ml = Convert_bits_to_bn (word_of_nat (64 * w))"
    and "al = Convert_bits_to_bn (word_of_nat (64 * v))" and "k = word_of_nat (64 * v) - word_of_nat (64 * w)"
  have l: "unat ml = w" "unat al = v" using bits_to_bn [of w] bits_to_bn [of v] assms(1-3) by (simp_all add: ml_def al_def)
  have k: "k = 64 * word_of_nat (v - w)" using assms(2) by (simp add: k_def of_nat_diff right_diff_distrib)
  have uk: "unat k = 64 * (v - w)" using assms(3) unfolding k by (simp add: unat_word_ariths unat_of_nat)
  then have mk: "unat (k div 64) = v - w" by (simp add: unat_div)
  have ml: "unat (ml + k div 64) = v" using assms(2,3) by (simp add: unat_plus l(1) mk)
  have sh: "Shift_lshift ml n1 k (replicate v 0) = Some (replicate (v - w) 0 @ take w n1)"
    using lshift_limbs [OF k, of ml n1] assms(2,3,5) l(1) by simp
  let ?m = "replicate (v - w) 0 @ take w n1"
  have "eval_limbs 64 (replicate m (0 :: u64)) = 0" for m by (induction m) simp_all
  then have "nval ?m v = 2 ^ (64 * (v - w)) * nval n1 w"
    using assms(2,5) by (simp add: nval_def eval_limbs_append)
  then have val: "2 ^ (64 * (v - w)) \<le> nval ?m (unat (ml + k div 64))" using assms(6) by (simp add: ml)
  have le: "ml + k div 64 \<le> al" by (simp add: word_le_nat_alt ml l(2))
  have res: "unat (if al < resLen then al else resLen) \<le> length res"
    using assms(7) by (auto simp: word_less_nat_alt)
  show ?thesis
    using remainder_loop_safe [OF uk val _ le _ res, of a past] assms(2,4,5) l(2) ml
    unfolding Division_remainder_def Let_def ml_def [symmetric] al_def [symmetric] k_def [symmetric] ml sh by simp
qed

section \<open>The exponentiation\<close>

lemma bit_safe: "unat ind < 64 * length b \<Longrightarrow> Exponentiation_bn_bit_is_set b ind
    = Some (drop_bit (unat (ind mod 64)) (b ! (unat ind div 64)) AND 1 = 1)"
  by (simp add: Exponentiation_bn_bit_is_set_def Let_def rd_def unat_div less_mult_imp_div_less mult.commute)

text \<open>The loop, for a modulus of \<open>w\<close> whole limbs, stays in its buffers.\<close>

lemma exp_loop_safe:
  fixes x :: u32
  assumes "unat x = w" and "0 < w" and "128 * w < 2 ^ 32" and "w \<le> length n1" and "0 < nval n1 w" and "unat bBits \<le> 64 * length b"
  shows "unat bBits - unat count1 = m \<Longrightarrow> w \<le> length t \<Longrightarrow> w \<le> length r \<Longrightarrow>
    \<exists>t' r'. Exponentiation_mod_exp_loop past (word_of_nat (64 * w)) x bBits x n1 t b r count1 = Some (t', r')
      \<and> length t' = length t \<and> length r' = length r"
proof (induction m arbitrary: count1 t r)
  case 0
  then have "\<not> count1 < bBits" by (simp add: word_less_nat_alt)
  then show ?case by (simp add: Exponentiation_mod_exp_loop.simps [of _ _ _ bBits _ _ _ _ _ count1] Let_def)
next
  case (Suc m)
  have c: "count1 < bBits" using Suc.prems(1) by (simp add: word_less_nat_alt)
  have m: "unat bBits - unat (count1 + 1) = m" using Suc.prems(1) upward [OF c] by simp
  define B :: u32 where "B = word_of_nat (64 * (2 * w))"
  have "x = word_of_nat w" using assms(1) by (metis of_nat_unat ucast_id)
  then have B: "2 * x * 64 = B" "(x + x) * 64 = B" by (simp_all add: B_def)
  have u: "unat (2 * x) = 2 * w" "unat (x + x) = 2 * w"
    using assms(1,3) by (simp_all add: unat_word_ariths)
  have z: "nval (replicate n 0) k = 0" for n k
  proof -
    have "eval_limbs 64 (replicate j (0 :: u64)) = 0" for j by (induction j) simp_all
    then show ?thesis by (simp add: nval_def)
  qed
  obtain p where p: "Multiplication_sqr x t (replicate (2 * w) 0) = Some p" "length p = 2 * w"
    using mult_eq [of x t x t "replicate (2 * w) 0"] assms(1,3) Suc.prems(2) z unfolding Multiplication_sqr_def by auto
  obtain p' t1 where t1: "Division_remainder past B (word_of_nat (64 * w)) x p n1 t = Some (p', t1)" "length t1 = length t"
    using remainder_safe [of w "2 * w" p n1 x t past] assms p(2) Suc.prems(2) unfolding B_def by auto
  obtain s where s: "Exponentiation_bn_bit_is_set b count1 = Some s"
    using bit_safe [of count1 b] assms(6) c by (simp add: word_less_nat_alt)
  obtain q where q: "Multiplication_mult x x r t1 (replicate (2 * w) 0) = Some q" "length q = 2 * w"
    using mult_eq [of x r x t1 "replicate (2 * w) 0"] assms(1,3) Suc.prems(2,3) t1(2) z by auto
  obtain q' r1 where r1: "Division_remainder past B (word_of_nat (64 * w)) x q n1 r = Some (q', r1)" "length r1 = length r"
    using remainder_safe [of w "2 * w" q n1 x r past] assms q(2) Suc.prems(3) unfolding B_def by auto
  have "Exponentiation_mod_exp_loop past (word_of_nat (64 * w)) x bBits x n1 t b r count1
      = Exponentiation_mod_exp_loop past (word_of_nat (64 * w)) x bBits x n1 t1 b (if s then r1 else r) (count1 + 1)"
    by (subst Exponentiation_mod_exp_loop.simps, cases s)
      (simp_all only: Let_def c if_True if_False u B p(1) t1(1) s Option.bind.simps prod.case q(1) r1(1))
  then show ?case
    using Suc.IH [OF m, of t1 "if s then r1 else r"] Suc.prems(2,3) t1(2) r1(2) by (cases s) simp_all
qed

text \<open>
  The result of the exponentiation is the base, or one, decided by the last bit of the
  exponent: the loop works on other buffers.
\<close>

lemma mod_exp_eq:
  fixes x :: u32
  assumes "unat x = w" and "0 < w" and "128 * w < 2 ^ 32" and "w \<le> length n1" and "0 < nval n1 w"
    and "w \<le> length a" and "w \<le> length b" and "w \<le> length res" and "unat bBits \<le> 64 * w"
  defines "r \<equiv> (if odd (unat (b ! 0)) then take w a @ drop w res else res[0 := 1])"
  shows "\<exists>b' t. length b' = length b
    \<and> Exponentiation_mod_exp_loop past (word_of_nat (64 * w)) x bBits x n1 b r (take w a) 1 = Some (b', t)
    \<and> Exponentiation_mod_exp past (word_of_nat (64 * w)) x bBits x n1 a b res = Some (b', r)"
proof -
  have s: "Exponentiation_bn_bit_is_set b 0 = Some (odd (unat (b ! 0)))"
    using bit_safe [of 0 b] assms(2,7) by (cases b) (simp_all add: odd_limb)
  have r: "(if odd (unat (b ! 0)) then copy res 0 a x else wr res 0 1) = Some r"
    using assms(1,2,6,8) unfolding r_def by (cases res) (simp_all add: copy_prefix wr_def)
  have t: "copy (replicate (unat x) 0) 0 a x = Some (take w a)"
    using assms(1,6) by (simp add: copy_prefix)
  have "w \<le> length r" using assms(6,8) by (simp add: r_def)
  then have "unat bBits \<le> 64 * length r" using assms(9) by (meson le_trans mult_le_mono2)
  then obtain b' t' where l: "Exponentiation_mod_exp_loop past (word_of_nat (64 * w)) x bBits x n1 b r (take w a) 1 = Some (b', t')"
    "length b' = length b"
    using exp_loop_safe [OF assms(1-5), of bBits r 1 _ b "take w a" past] assms(6,7) by auto
  show ?thesis
    unfolding Exponentiation_mod_exp_def Let_def t Option.bind.simps s r l(1) prod.case using l(2) by blast
qed

text \<open>
  An exponent buffer shorter than the modulus: the loop squares it at the length of the base, and
  the first product reads behind it.
\<close>

lemma inner_loop_short:
  assumes "length a < unat aLen"
  shows "length a - unat j = m \<Longrightarrow> unat j \<le> length a \<Longrightarrow>
    Multiplication_mult_inner_loop aLen a b i j carry res = None"
proof (induction m arbitrary: j carry res)
  case 0
  then show ?case using assms
    by (subst Multiplication_mult_inner_loop.simps) (simp add: rd_def word_less_nat_alt)
next
  case (Suc m)
  have j: "j < aLen" using Suc.prems assms by (simp add: word_less_nat_alt)
  have u: "length a - unat (j + 1) = m" "unat (j + 1) \<le> length a"
    using Suc.prems upward [OF j] by simp_all
  show ?case
    by (subst Multiplication_mult_inner_loop.simps)
      (simp add: j Suc.IH [OF u] Let_def split_beta bind_eq_None_conv)
qed

lemma sqr_short:
  assumes "length a < unat aLen"
  shows "Multiplication_sqr aLen a res = None"
proof -
  have "0 < aLen" using assms by (simp add: word_less_nat_alt)
  then show ?thesis using inner_loop_short [OF assms, of 0 "length a"]
    by (simp add: Multiplication_sqr_def Multiplication_mult_def Multiplication_mult_outer_loop.simps [of aLen aLen])
qed

lemma mod_exp_short:
  assumes "length b < unat x" and "1 < unat bBits"
  shows "Exponentiation_mod_exp past bits x bBits x n1 a b res = None"
proof -
  have "1 < bBits" using assms(2) by (simp add: word_less_nat_alt)
  then have "Exponentiation_mod_exp_loop past bits x bBits x n1 b r t 1 = None" for r t
    using assms(1) by (simp add: Exponentiation_mod_exp_loop.simps [of _ _ _ bBits _ _ _ _ _ 1] Let_def sqr_short)
  then show ?thesis by (simp add: Exponentiation_mod_exp_def Let_def bind_eq_None_conv)
qed

section \<open>Signatures\<close>

lemma key_sizes:
  assumes "7 \<le> w" and "128 * w < 2 ^ 32"
  defines "bits \<equiv> word_of_nat (64 * w) :: u32"
  shows "unat bits = 64 * w" "unat (RSA_get_octets bits) = 8 * w" "unat (RSA_get_length_em bits) = 8 * w"
    "unat (Convert_get_size_nat (RSA_get_octets bits)) = w" "unat (Convert_get_size_nat (RSA_get_length_em bits)) = w"
    "(unat bits + 6) div 8 = 8 * w"
proof -
  show b: "unat bits = 64 * w" unfolding bits_def using assms(2) by (simp only: unat_of_nat) simp
  have "(64 * w + 7) div 8 = 8 * w" "(64 * w + 6) div 8 = 8 * w" by simp_all
  then show o: "unat (RSA_get_octets bits) = 8 * w" and e: "(unat bits + 6) div 8 = 8 * w"
    using b assms(2) by (simp_all add: RSA_get_octets_def unat_div unat_plus)
  show l: "unat (RSA_get_length_em bits) = 8 * w"
    using length_em [of bits] b assms(1,2) unfolding e by (simp add: word_le_nat_alt)
  have "(8 * w - 1) div 8 + 1 = w" using assms(1) by (cases w) simp_all
  then show "unat (Convert_get_size_nat (RSA_get_octets bits)) = w" "unat (Convert_get_size_nat (RSA_get_length_em bits)) = w"
    using size_nat [of "RSA_get_octets bits"] size_nat [of "RSA_get_length_em bits"] o l assms(1)
    by (simp_all add: word_less_nat_alt)
qed

text \<open>
  One pass through a key operation, for an odd exponent: the bytes go in as a number, come
  out of the exponentiation as they were, and are written again.
\<close>

lemma pass_through:
  fixes x k :: u32
  assumes "unat x = w" and "0 < w" and "128 * w < 2 ^ 32" and "unat k = 8 * w" and "unat (Convert_get_size_nat k) = w"
    and "w \<le> length n1" and "0 < nval n1 w" and "w \<le> length b" and "odd (unat (b ! 0))" and "unat bBits \<le> 64 * w"
    and "8 * w \<le> length input" and "8 * w \<le> length out"
  shows "\<exists>m b' t. Convert_text_to_nat input k (replicate w 0) = Some m \<and> length b' = length b
    \<and> Exponentiation_mod_exp_loop past (word_of_nat (64 * w)) x bBits x n1 b m m 1 = Some (b', t)
    \<and> Exponentiation_mod_exp past (word_of_nat (64 * w)) x bBits x n1 m b (replicate w 0) = Some (b', m)
    \<and> Convert_nat_to_text m k out = Some (take (8 * w) input @ drop (8 * w) out)"
proof -
  have "0 < k" using assms(2,4) by (simp add: word_less_nat_alt)
  then obtain m where m: "Convert_text_to_nat input k (replicate w 0) = Some m" "length m = w"
    "nval m w = le_val (rev (take (8 * w) input))"
    using text_to_nat_eq [of k input "replicate w 0"] assms(4,5,11) by auto
  obtain b' t where b: "length b' = length b"
    "Exponentiation_mod_exp_loop past (word_of_nat (64 * w)) x bBits x n1 b m m 1 = Some (b', t)"
    "Exponentiation_mod_exp past (word_of_nat (64 * w)) x bBits x n1 m b (replicate w 0) = Some (b', m)"
    using mod_exp_eq [OF assms(1-3,6,7), of m b "replicate w 0" bBits past] assms(8,9,10) m(2) by auto
  have "length (rev (take (8 * w) input)) = 8 * w" using assms(11) by simp
  then have "le_bytes (8 * w) (nval m w) = rev (take (8 * w) input)"
    using le_bytes_le_val [of "rev (take (8 * w) input)"] by (simp only: m(3))
  then have "Convert_nat_to_text m k out = Some (take (8 * w) input @ drop (8 * w) out)"
    using nat_to_text_eq [of k w m out] assms(4,12) m(2) by simp
  then show ?thesis using m(1) b by blast
qed

lemma length_pss_encoding:
  "54 \<le> (bits + 7) div 8 \<Longrightarrow> length salt = 20 \<Longrightarrow> length (pss_encoding bits msg salt) = (bits + 7) div 8"
  by (simp add: pss_encoding_def Let_def)

section \<open>Properties\<close>

text \<open>
  C18: Signing raises nothing to the private exponent.  For a modulus \<open>n\<close> that is not 0, of \<open>64 * w\<close> bits
  with at least 7 limbs, and an odd private exponent of at most that many bits in a buffer at
  least as long, the signature is the PSS encoding of the message itself; and the exponent in the
  key is replaced by what the loop leaves in the place of its running square, which it starts
  with the exponent, using the encoded message as the exponent.
\<close>

theorem rsa_sign_no_exponent:
  assumes "7 \<le> w" and "128 * w < 2 ^ 32" and "unat skeyBits \<le> 64 * w"
    and "w \<le> length (pub_n (priv_pkey skey))" and "0 < nval (pub_n (priv_pkey skey)) w"
    and "w \<le> length (priv_d skey)" and "odd (unat (priv_d skey ! 0))"
    and "unat msgLen \<le> length msg" and "20 \<le> length salt" and "8 * w \<le> length sgnt"
  defines "em \<equiv> pss_encoding (64 * w - 1) (take (unat msgLen) msg) (take 20 salt)"
  shows "\<exists>m d' t. Convert_text_to_nat em (word_of_nat (8 * w)) (replicate w 0) = Some m
    \<and> Exponentiation_mod_exp_loop past (word_of_nat (64 * w)) (word_of_nat w) skeyBits (word_of_nat w)
        (pub_n (priv_pkey skey)) (priv_d skey) m m 1 = Some (d', t)
    \<and> RSA_rsa_sign past (word_of_nat (64 * w)) skeyBits msgLen msg skey salt sgnt
      = Some (skey\<lparr>priv_d := d'\<rparr>, em @ drop (8 * w) sgnt)"
proof -
  define bits :: u32 where "bits = word_of_nat (64 * w)"
  note z = key_sizes [OF assms(1,2), folded bits_def]
  have e: "RSA_pss_encode bits msg msgLen salt (replicate (8 * w) 0) = Some em"
    using pss_encode_eq [of bits msgLen msg salt "replicate (8 * w) 0"] assms(1,2,8,9) by (simp add: z(1,6) em_def)
  have l: "length em = 8 * w"
    using length_pss_encoding [of "64 * w - 1" "take 20 salt"] assms(1,9) z(1,6) by (simp add: em_def)
  define x where "x = Convert_get_size_nat (RSA_get_length_em bits)"
  have x: "unat x = w" "Convert_get_size_nat (RSA_get_octets bits) = x"
    "RSA_get_octets bits = RSA_get_length_em bits" using z(2-5) by (simp_all add: x_def word_unatI)
  have n: "word_of_nat w = x" "word_of_nat (8 * w) = RSA_get_length_em bits"
    using x(1) z(3) by (metis of_nat_unat ucast_id)+
  have "0 < w" using assms(1) by simp
  obtain m d' t where p: "Convert_text_to_nat em (RSA_get_length_em bits) (replicate w 0) = Some m"
    "Exponentiation_mod_exp_loop past bits x skeyBits x (pub_n (priv_pkey skey)) (priv_d skey) m m 1 = Some (d', t)"
    "Exponentiation_mod_exp past bits x skeyBits x (pub_n (priv_pkey skey)) m (priv_d skey) (replicate w 0) = Some (d', m)"
    "Convert_nat_to_text m (RSA_get_length_em bits) sgnt = Some (take (8 * w) em @ drop (8 * w) sgnt)"
    using pass_through [OF x(1) \<open>0 < w\<close> assms(2) z(3,5) assms(4-7,3), of em sgnt past, folded bits_def] l assms(10) by auto
  have "RSA_rsa_sign past bits skeyBits msgLen msg skey salt sgnt = Some (skey\<lparr>priv_d := d'\<rparr>, em @ drop (8 * w) sgnt)"
    unfolding RSA_rsa_sign_def Let_def RSA_get_d_def RSA_get_n_def RSA_get_pkey_def z(3) e Option.bind.simps
      x(2) x_def [symmetric] x(1) p(1,3) prod.case x(3) p(4) using l by simp
  then show ?thesis using p(1,2) unfolding n bits_def [symmetric] by blast
qed

lemma nval_ones: "nval (replicate (Suc n) 1) (Suc n) > 0"
  by (simp add: nval_def)

theorem rsa_sign_no_exponent_witness:
  "\<exists>m d' t. Convert_text_to_nat (pss_encoding 447 [1, 2, 3] (replicate 20 9)) 56 (replicate 7 0) = Some m
    \<and> Exponentiation_mod_exp_loop 0 448 7 448 7 (replicate 7 1) (replicate 7 3) m m 1 = Some (d', t)
    \<and> RSA_rsa_sign 0 448 448 3 [1, 2, 3]
      \<lparr>priv_pkey = \<lparr>pub_n = replicate 7 1, pub_e = []\<rparr>, priv_d = replicate 7 3\<rparr> (replicate 20 9) (replicate 56 0)
    = Some (\<lparr>priv_pkey = \<lparr>pub_n = replicate 7 1, pub_e = []\<rparr>, priv_d = d'\<rparr>, pss_encoding 447 [1, 2, 3] (replicate 20 9))"
proof -
  have "nval (replicate 7 1) 7 > 0" using nval_ones [of 6] by (simp only: eval_nat_numeral)
  then show ?thesis
    using rsa_sign_no_exponent [of 7 448
        "\<lparr>priv_pkey = \<lparr>pub_n = replicate 7 1, pub_e = []\<rparr>, priv_d = replicate 7 3\<rparr>" 3 "[1, 2, 3]" "replicate 20 9" "replicate 56 0" 0]
    by auto
qed

text \<open>
  C22: Nor does verification raise anything to the public exponent.  For a modulus that is not 0, of
  \<open>64 * w\<close> bits with at least 7 limbs, and an odd public exponent of 2 to \<open>64 * w\<close> bits: in an exponent buffer as long as the modulus, verification accepts exactly the PSS
  encodings of the message, so that anybody can make an accepted signature without the private
  key; with a shorter exponent buffer it reads behind that buffer.  The latter is the case of a
  three byte exponent in one limb under a modulus of 16 limbs.
\<close>

theorem rsa_verify_no_exponent:
  assumes "7 \<le> w" and "128 * w < 2 ^ 32" and "1 < unat pkeyBits" and "unat pkeyBits \<le> 64 * w"
    and "w \<le> length (pub_n pkey)" and "0 < nval (pub_n pkey) w" and "odd (unat (pub_e pkey ! 0))"
    and "unat msgLen \<le> length msg" and "8 * w \<le> length sgnt"
  shows "\<exists>e'. length e' = length (pub_e pkey)
    \<and> RSA_rsa_verify past (word_of_nat (64 * w)) msgLen pkeyBits sgnt pkey msg
      = (if w \<le> length (pub_e pkey)
         then Some (pkey\<lparr>pub_e := e'\<rparr>, \<exists>salt. length salt = 20
           \<and> take (8 * w) sgnt = pss_encoding (64 * w - 1) (take (unat msgLen) msg) salt)
         else None)"
proof -
  define bits :: u32 where "bits = word_of_nat (64 * w)"
  note z = key_sizes [OF assms(1,2), folded bits_def]
  define x where "x = Convert_get_size_nat (RSA_get_length_em bits)"
  have x: "unat x = w" "Convert_get_size_nat (RSA_get_octets bits) = x"
    "RSA_get_octets bits = RSA_get_length_em bits" using z(2-5) by (simp_all add: x_def word_unatI)
  note d = RSA_rsa_verify_def Let_def RSA_get_e_def RSA_get_n_def x(2) x(3) x_def [symmetric] x(1)
  have "0 < w" using assms(1) by simp
  show ?thesis
  proof (cases "w \<le> length (pub_e pkey)")
    case True
    obtain s e' where p: "Convert_text_to_nat sgnt (RSA_get_length_em bits) (replicate w 0) = Some s"
      "length e' = length (pub_e pkey)"
      "Exponentiation_mod_exp past bits x pkeyBits x (pub_n pkey) s (pub_e pkey) (replicate w 0) = Some (e', s)"
      "Convert_nat_to_text s (RSA_get_length_em bits) (replicate (8 * w) 0) = Some (take (8 * w) sgnt)"
      using pass_through [OF x(1) \<open>0 < w\<close> assms(2) z(3,5) assms(5,6) True assms(7,4,9), of "replicate (8 * w) 0" past, folded bits_def]
      by auto
    obtain em' where v: "RSA_pss_verify bits (take (8 * w) sgnt) msg msgLen
        = Some (em', \<exists>salt. length salt = 20 \<and> take (8 * w) sgnt = pss_encoding (64 * w - 1) (take (unat msgLen) msg) salt)"
      using pss_verify_eq [of bits msgLen msg "take (8 * w) sgnt"] assms(1,2,8,9) z(6) unfolding z(1) by auto
    have "RSA_rsa_verify past bits msgLen pkeyBits sgnt pkey msg = Some (pkey\<lparr>pub_e := e'\<rparr>, \<exists>salt. length salt = 20
            \<and> take (8 * w) sgnt = pss_encoding (64 * w - 1) (take (unat msgLen) msg) salt)"
      unfolding d p(1) Option.bind.simps p(3) prod.case z(3) p(4) v ..
    then show ?thesis using p(2) True unfolding bits_def by auto
  next
    case False
    then have "Exponentiation_mod_exp past bits x pkeyBits x n a (pub_e pkey) r = None" for n a r
      using assms(3) x(1) by (intro mod_exp_short) simp_all
    then have "RSA_rsa_verify past bits msgLen pkeyBits sgnt pkey msg = None"
      unfolding d by (simp add: bind_eq_None_conv)
    then show ?thesis using False unfolding bits_def by auto
  qed
qed

theorem rsa_verify_no_exponent_witness:
  "(\<exists>e'. RSA_rsa_verify 0 448 3 448 (pss_encoding 447 [1, 2, 3] (replicate 20 9)) \<lparr>pub_n = replicate 7 1, pub_e = replicate 7 3\<rparr> [1, 2, 3]
    = Some (\<lparr>pub_n = replicate 7 1, pub_e = e'\<rparr>, True))
   \<and> RSA_rsa_verify 0 1024 3 24 (replicate 128 5) \<lparr>pub_n = replicate 16 1, pub_e = [0x10001]\<rparr> [1, 2, 3] = None"
proof
  have "nval (replicate 7 1) 7 > 0" using nval_ones [of 6] by (simp only: eval_nat_numeral)
  moreover have "length (pss_encoding 447 [1, 2, 3] (replicate 20 9)) = 56" by (simp add: length_pss_encoding)
  moreover have "\<exists>salt. length salt = 20 \<and> pss_encoding 447 [1, 2, 3] (replicate 20 9) = pss_encoding 447 [1, 2, 3] salt"
    by (rule exI [of _ "replicate 20 9"]) simp
  ultimately show "\<exists>e'. RSA_rsa_verify 0 448 3 448 (pss_encoding 447 [1, 2, 3] (replicate 20 9))
      \<lparr>pub_n = replicate 7 1, pub_e = replicate 7 3\<rparr> [1, 2, 3] = Some (\<lparr>pub_n = replicate 7 1, pub_e = e'\<rparr>, True)"
    using rsa_verify_no_exponent [of 7 448 "\<lparr>pub_n = replicate 7 1, pub_e = replicate 7 3\<rparr>" 3 "[1, 2, 3]"
        "pss_encoding 447 [1, 2, 3] (replicate 20 9)" 0]
    by auto
  have "nval (replicate 16 1) 16 > 0" using nval_ones [of 15] by (simp only: Suc_numeral semiring_norm)
  then show "RSA_rsa_verify 0 1024 3 24 (replicate 128 5) \<lparr>pub_n = replicate 16 1, pub_e = [0x10001]\<rparr> [1, 2, 3] = None"
    using rsa_verify_no_exponent [of 16 24 "\<lparr>pub_n = replicate 16 1, pub_e = [0x10001]\<rparr>" 3 "[1, 2, 3]" "replicate 128 5" 0]
    by auto
qed

end
