(* ===== verification/Spec2Isabelle.thy ===== *)
theory Spec2Isabelle
  imports LoadStore Salsa20 Sha2_Constants X25519 Chacha20_Vec128 Poly1305_32 Sha2_Stream C_Loops Random_Bytes Rsa
begin

text \<open>
  A verification library for the C snapshot of HACL*, the files of \<open>snapshots/hacl-c\<close>: the
  cryptographic library that is extracted from verified F* code and shipped as C, and for the
  experimental RSA beside it.  The
  theories translate that C code and prove it against the documents it implements (RFC 8439,
  RFC 7748, RFC 8032, RFC 2104, FIPS 180-4, the Salsa20 and NaCl papers), without using anything the
  F* sources prove.

  \<^bold>\<open>The program.\<close>  It has four layers.  The runtime headers (\<open>kremlib_base.h\<close>, \<open>kremlib.h\<close>,
  \<open>FStar.c\<close>, \<open>vec128.h\<close>) give masks, loads and stores, 128-bit integers and vectors.  On them
  stand the primitives: the ciphers ChaCha20 and Salsa20, the authenticator Poly1305, the hashes
  SHA-256, SHA-384 and SHA-512, scalar multiplication on Curve25519.  On these stand the
  constructions: ChaCha20-Poly1305, HMAC, the boxes of NaCl, the signatures Ed25519.  The
  top is \<open>haclnacl.c\<close>, an interface in the style of NaCl over all of them, which takes
  its random numbers from \<open>Hacl_Unverified_Random.c\<close>.

  \<^bold>\<open>From C to HOL.\<close>  A \<open>uintN_t\<close> is an \<open>N word\<close>, so all arithmetic wraps as in C; the
  compiler's \<open>unsigned __int128\<close> is \<open>128 word\<close>, the struct of \<open>FStar.c\<close> a record.  A buffer is a
  list.  A function that writes buffers returns the new contents, in the order of its
  parameters, followed by its own result; it is given the old contents, so what it leaves
  untouched is part of every statement.  A pointer into a buffer, \<open>p + n\<close>, is \<open>drop n p\<close> when it
  is read, and \<open>at_ptr n f p\<close> when the callee \<open>f\<close> writes through it.  Where the C code passes
  several pointers into one array (the limbs of a point, the parts of a hash state), the
  callee receives the whole array or the disjoint pieces and the caller joins them again, so
  that aliasing is explicit.  A counting loop is \<open>for_loop lo hi body\<close>, a fold; \<open>C_Loops\<close> proves that
  the C loops over message blocks, on a wrapping 32-bit counter and written with \<open>while_option\<close>,
  end and agree with the folds.  The recursive functions of the code are recursive here, with a
  measure, and no definition uses fuel.  Calls of \<open>exit\<close> are \<open>Inl\<close> values.  Names
  are those of the code, with a prime for a trailing underscore, and with the suffixes \<open>_25519\<close> or
  \<open>_p32\<close> where two files define different functions of the same name.  Lengths are bounded
  in the statements by what the code needs: below \<open>2 ^ 32\<close> wherever the code cuts a 64-bit length
  to 32 bits, and below the limits of the standard for hashes.

  \<^bold>\<open>Runtime.\<close>
    \<^item> \<open>Prelude\<close>: the vocabulary above and the arithmetic of words shared by all theories.
    \<^item> \<open>Kremlib\<close>: masks, loads and stores of \<open>kremlib_base.h\<close> and \<open>kremlib.h\<close>, native 128-bit
      operations.  \<open>Kremlib_Host\<close>: rotations, the byte-order macros of the generic platforms, the
      pointer versions of the 128-bit loads, checked integers and the size check.
    \<^item> \<open>UInt128\<close>: \<open>FStar.c\<close>; every operation of the struct refines the one of the compiler type
      (\<open>abs128\<close>), through the locale \<open>uint128_ops\<close> both implement.
    \<^item> \<open>Policies\<close>: \<open>Hacl_Policies.c\<close>.  \<open>LoadStore\<close>: the array loads and stores copied into the files
      of ciphers and hashes.  \<open>Vec128\<close>: the portable vectors of \<open>vec128.h\<close>.
    \<^item> \<open>C_Loops\<close>: the loops over the data, as C has them.  \<open>Random_Bytes\<close>: \<open>Hacl_Unverified_Random.c\<close> with
      the system calls as parameters.

  \<^bold>\<open>Ciphers and authenticators.\<close>
    \<^item> \<open>Stream_Cipher\<close>: the locale \<open>counter_cipher\<close> of a cipher in counter mode, with the lemmas on its block
      loop and last block.  \<open>Chacha20\<close> (\<open>Hacl_Chacha20.c\<close>) and \<open>Salsa20\<close> (\<open>Hacl_Salsa20.c\<close>) interpret
      it; each relates its block function to one written on columns and rows, as the
      specifications have it.  \<open>Chacha20_Vec128\<close> (\<open>Hacl_Chacha20_Vec128.c\<close>) has the state by rows and
      three blocks at a time, and is proved equal to the scalar cipher.
    \<^item> \<open>Limbs\<close>: numbers in limbs.  \<open>Poly1305_64\<close> (\<open>Hacl_Poly1305_64.c\<close>; three limbs of 44, 44 and 42
      bits) and \<open>Poly1305_32\<close> (\<open>Hacl_Poly1305_32.c\<close>; five of 26 bits): bounds of every intermediate
      limb, multiplication modulo \<open>2 ^ 130 - 5\<close>, the tag as polynomial evaluation, and the streaming
      interface.  The locales \<open>poly_machine\<close> and \<open>poly_mac\<close> carry the part both share.
    \<^item> \<open>Authenticated\<close>: the locale \<open>encrypt_then_mac\<close>.  \<open>Aead\<close> (\<open>AEAD_Poly1305_64.c\<close>,
      \<open>Hacl_Chacha20Poly1305.c\<close>) and \<open>NaCl\<close> (\<open>NaCl.c\<close>) interpret it: opening accepts what
      sealing produces and nothing else, and a rejection leaves the output untouched.

  \<^bold>\<open>Hashes.\<close>
    \<^item> \<open>Sha2\<close>: FIPS 180-4 and the locale \<open>block_hash\<close> of a hash run block by block.
      \<open>Sha2_256\<close>, \<open>Sha2_512\<close>, \<open>Sha2_384\<close> (\<open>Hacl_SHA2_256.c\<close> and so on) interpret them; their state is
      one array of round constants, message schedule, chaining value and block counter.
      \<open>Sha2_Constants\<close> computes the tables from roots of primes.
    \<^item> \<open>Sha2_Stream\<close>: the streaming interface as a state machine, an inductive step relation on the
      calls \<open>init\<close>, \<open>update\<close>, \<open>update_multi\<close>, \<open>update_last\<close>, \<open>finish\<close> with invariants over reachable states.
    \<^item> \<open>Hmac\<close>: \<open>Hacl_HMAC_SHA2_256.c\<close>.

  \<^bold>\<open>Curves.\<close>
    \<^item> \<open>Field25519\<close>, \<open>Format25519\<close>, \<open>Curve25519\<close>, \<open>X25519\<close> (\<open>Hacl_Curve25519.c\<close>): five limbs of 51 bits
      with a bound on every intermediate value, the byte format, the points and the ladder with its
      buffers and conditional swaps, and the refinement to X25519 of RFC 7748.
    \<^item> \<open>Ed25519_Field\<close>, \<open>Ed25519_Point\<close>, \<open>Ed25519_Format\<close>, \<open>Ed25519_Scalar\<close>, \<open>Barrett\<close> and \<open>Ed25519_Hash\<close>
      (\<open>Hacl_Ed25519.c\<close>): field, points in extended coordinates, compression, arithmetic modulo the
      group order by Barrett reduction, and SHA-512 with a prefix.  \<open>Ed25519_Ladder\<close>, \<open>Ed25519_Curve\<close>
      and \<open>Ed25519_Recover\<close> show what they compute: multiples by the addition law, which satisfy the two
      equations of the curve in extended coordinates, and square roots.  \<open>Ed25519\<close> has the keys, signing and
      verification and proves them equal to RFC 8032.

  \<^bold>\<open>Interface.\<close>  \<open>HaclNaCl\<close> and \<open>NaClSign\<close> are \<open>haclnacl.c\<close>: each function, its result codes and
  what it leaves in the buffers.  \<open>randombytes\<close> is an argument of the two key generations, which
  pass on the error it ends the program with; \<open>Random_Bytes\<close> joins them.

  \<^bold>\<open>Experimental RSA.\<close>  \<open>Pss\<close> is the encoding of RSA signatures in
  \<open>snapshots/hacl-c-experimental/rsa-c/RSA.c\<close>, with the mask generation as a partial function;
  \<open>Rsa_Bignum\<close> the arithmetic on arrays of limbs beside it (\<open>Convert.c\<close>, \<open>Comparison.c\<close>,
  \<open>Addition.c\<close>, \<open>Multiplication.c\<close>, \<open>Shift.c\<close>); \<open>Rsa\<close> the remainder, the exponentiation, signing
  and verification (\<open>Division.c\<close>, \<open>Exponentiation.c\<close>, \<open>RSA.c\<close>).  Not all accesses of that code are in
  bounds, so they are checked: a function returns \<open>None\<close> when one is not, and the lemmas show where
  it is \<open>Some\<close>.  The limb behind a buffer that the subtraction looks at is an argument, \<open>past\<close>.
  The encoding, the conversions and the product are correct, and the recursion of the mask
  generation ends for all masks but the longest; the exponentiation is not one, and
  the theorems of \<open>Rsa\<close> say what signing and verification do instead, and that verification reads
  behind an exponent buffer that is shorter than the modulus.

  \<^bold>\<open>Copies.\<close>  Each C file is closed and repeats what it needs: \<open>AEAD_Poly1305_64.c\<close> the code of
  \<open>Hacl_Poly1305_64.c\<close>, \<open>Hacl_HMAC_SHA2_256.c\<close> that of \<open>Hacl_SHA2_256.c\<close>, \<open>Hacl_Ed25519.c\<close> the field
  multiplication of \<open>Hacl_Curve25519.c\<close> and \<open>Hacl_SHA2_512.c\<close>.  A copy is modelled once, from
  the file that is named after it, and the other theories use that definition.

  \<^bold>\<open>What the code does not do.\<close>  Some theorems state behaviour one does not expect: the comparison
  mask for numbers that differ in the top bit (\<open>UInt128\<close>), the big-endian byte-order macro
  (\<open>Kremlib_Host\<close>), the place of the tag in one secret-box function (\<open>NaCl\<close>), a function that
  boxes where it should open and one with another length convention (\<open>HaclNaCl\<close>), signed messages
  of \<open>2 ^ 32\<close> bytes (\<open>NaClSign\<close>), signatures that do not use the key (\<open>Rsa\<close>), and keys of small order in Ed25519 (\<open>Ed25519\<close>).

  \<^bold>\<open>Not modelled.\<close>  The branches of the headers for particular systems and processors (byte-order
  macros of operating systems, SSE and NEON vectors), which are calls of libraries and compiler
  intrinsics; the Windows branch of the random numbers and the aligned allocation, which
  only call the system; printing (\<open>kremlib.c\<close>); timing, although the code is written to be constant
  time.  That every Ed25519 signature verifies needs the associativity of the addition law and the
  primality of the group order, and that the addition law never yields a third coordinate of 0 needs
  the primality of \<open>2 ^ 255 - 19\<close>; the theorems here state what the code computes, not this.
  The other snapshots are the same extraction for other compilers, and the tests,
  applications and other providers are not part of the library.
\<close>

section \<open>The constants of the three hash functions\<close>

text \<open>
  C33: What each \<open>init\<close> writes is what FIPS 180-4 prescribes: the round constants are the first
  bits of the fractional parts of the cube roots of the first primes, the initial chaining
  values those of the square roots (of the ninth to sixteenth prime for SHA-384), and the block
  counter is zero.
\<close>

theorem sha2_constants:
  assumes "length s = 137" and "length t = 169"
  shows "take 64 (Hacl_SHA2_256_init s) = root_consts 3 (take 64 small_primes)
         \<and> drop 128 (Hacl_SHA2_256_init s) = root_consts 2 (take 8 small_primes) @ [0]
         \<and> take 80 (Hacl_SHA2_512_init t) = root_consts 3 small_primes
         \<and> drop 160 (Hacl_SHA2_512_init t) = root_consts 2 (take 8 small_primes) @ [0]
         \<and> take 80 (Hacl_SHA2_384_init t) = root_consts 3 small_primes
         \<and> drop 160 (Hacl_SHA2_384_init t) = root_consts 2 (take 8 (drop 8 small_primes)) @ [0]"
  using assms
  by (simp add: Hacl_SHA2_256_init_def Hacl_SHA2_512_init_def Hacl_SHA2_384_init_def sha256_init_eq
      sha512_init_eq sha384_init_eq sha256_k_def sha256_h0_def sha512_k_def sha512_h0_def sha384_h0_def)

theorem sha2_constants_witness:
  "take 64 (Hacl_SHA2_256_init (replicate 137 1)) = root_consts 3 (take 64 small_primes)
   \<and> drop 160 (Hacl_SHA2_384_init (replicate 169 1)) = root_consts 2 (take 8 (drop 8 small_primes)) @ [0]"
  using sha2_constants [of "replicate 137 1" "replicate 169 1"] by simp

end
